(* ===== verification/Prelude.thy ===== *)
theory Prelude
  imports Main "HOL-Library.Char_ord" "HOL-Library.List_Lexorder" "HOL-Library.Product_Lexorder"
    "HOL-Library.Word"
begin

text \<open>
  Shared vocabulary of the development: the type names of the model, the fact collections that
  the component proofs feed to the simplifier, Rust's saturating arithmetic on \<open>u64\<close>, the string
  operations the sources use (\<open>split_once\<close>, \<open>rsplit_once\<close>, character classes), the result type and
  a few generic list lemmas.

  Conventions. A Rust \<open>String\<close> is a \<open>string\<close> whose characters are its UTF-8 bytes, so \<open>length\<close> is
  \<open>String::len\<close> and the order of \<open>List_Lexorder\<close> over \<open>Char_ord\<close> is Rust's byte order.
  A \<open>u64\<close> counter or timestamp is a \<open>nat\<close>; where the code saturates or truncates, the operation
  is written out (\<open>sat_add\<close>, \<open>sat_mul\<close>, the little-endian codec of \<open>Le_Bytes\<close>).
  A \<open>Result\<close> is a sum with the error on the left.
\<close>

named_theorems cat_simps \<open>effect of the catalog's operations on each field of its state\<close>
named_theorems wal_simps \<open>decoding laws of the write-ahead log\<close>
named_theorems bm_simps \<open>lookup laws of the ordered map\<close>

type_synonym byte = "8 word"
type_synonym bytes = "8 word list"
type_synonym u64 = nat

subsection \<open>Saturating arithmetic on u64\<close>

definition u64_max :: nat where
  "u64_max = 18446744073709551615"

definition sat_add :: "nat \<Rightarrow> nat \<Rightarrow> nat" where
  "sat_add a b = min (a + b) u64_max"

definition sat_mul :: "nat \<Rightarrow> nat \<Rightarrow> nat" where
  "sat_mul a b = min (a * b) u64_max"

text \<open>\<open>saturating_sub\<close> on an unsigned integer is the subtraction of \<open>nat\<close>.\<close>

abbreviation sat_sub :: "nat \<Rightarrow> nat \<Rightarrow> nat" where
  "sat_sub a b \<equiv> a - b"

lemma sat_add_le: "sat_add a b \<le> a + b"
  by (simp add: sat_add_def)

lemma sat_add_max: "sat_add a b \<le> u64_max"
  by (simp add: sat_add_def)

lemma sat_add_ge: "a \<le> u64_max \<Longrightarrow> a \<le> sat_add a b"
  by (simp add: sat_add_def)

subsection \<open>Strings\<close>

text \<open>\<open>str::split_once(c)\<close>: the parts before and after the first occurrence of \<open>c\<close>.\<close>

fun split_once :: "char \<Rightarrow> string \<Rightarrow> (string \<times> string) option" where
  "split_once c [] = None"
| "split_once c (x # xs) =
     (if x = c then Some ([], xs)
      else map_option (\<lambda>(a, b). (x # a, b)) (split_once c xs))"

text \<open>\<open>str::rsplit_once(c)\<close>: the parts around the last occurrence of \<open>c\<close>.\<close>

definition rsplit_once :: "char \<Rightarrow> string \<Rightarrow> (string \<times> string) option" where
  "rsplit_once c s =
     (case split_once c (rev s) of
        None \<Rightarrow> None
      | Some (a, b) \<Rightarrow> Some (rev b, rev a))"

lemma split_once_None_iff: "split_once c s = None \<longleftrightarrow> c \<notin> set s"
  by (induction s) auto

lemma split_once_append: "c \<notin> set a \<Longrightarrow> split_once c (a @ c # b) = Some (a, b)"
  by (induction a) auto

lemma split_once_Some:
  "split_once c s = Some (a, b) \<Longrightarrow> s = a @ c # b \<and> c \<notin> set a"
  by (induction s arbitrary: a) (auto split: if_splits)

lemma rsplit_once_append: "c \<notin> set b \<Longrightarrow> rsplit_once c (a @ c # b) = Some (a, b)"
  by (simp add: rsplit_once_def split_once_append)

definition is_ascii_alphanumeric :: "char \<Rightarrow> bool" where
  "is_ascii_alphanumeric c =
     (let n = (of_char c :: nat)
      in (48 \<le> n \<and> n \<le> 57) \<or> (65 \<le> n \<and> n \<le> 90) \<or> (97 \<le> n \<and> n \<le> 122))"

definition is_ascii_digit :: "char \<Rightarrow> bool" where
  "is_ascii_digit c = (let n = (of_char c :: nat) in 48 \<le> n \<and> n \<le> 57)"

text \<open>Decimal rendering of an unsigned integer (\<open>Display\<close>).\<close>

fun dec_digits :: "nat \<Rightarrow> string" where
  "dec_digits n =
     (if n < 10 then [char_of (48 + n)] else dec_digits (n div 10) @ [char_of (48 + n mod 10)])"

declare dec_digits.simps [simp del]

subsection \<open>Results\<close>

definition is_ok :: "'e + 'a \<Rightarrow> bool" where
  "is_ok r = (case r of Inl _ \<Rightarrow> False | Inr _ \<Rightarrow> True)"

lemma is_ok_simps [simp]: "is_ok (Inr x)" "\<not> is_ok (Inl e)"
  by (simp_all add: is_ok_def)

text \<open>The \<open>?\<close> operator: go on with the value, or return the error.\<close>

fun and_then :: "'e + 'a \<Rightarrow> ('a \<Rightarrow> 'e + 'b) \<Rightarrow> 'e + 'b" where
  "and_then (Inl e) f = Inl e"
| "and_then (Inr x) f = f x"

lemma and_then_Inr_iff: "and_then r f = Inr y \<longleftrightarrow> (\<exists>x. r = Inr x \<and> f x = Inr y)"
  by (cases r) auto

text \<open>\<open>Option::into_iter\<close> / \<open>chain(option)\<close>.\<close>

fun opt_list :: "'a option \<Rightarrow> 'a list" where
  "opt_list None = []"
| "opt_list (Some x) = [x]"

lemma set_opt_list [simp]: "set (opt_list x) = set_option x"
  by (cases x) auto

subsection \<open>Generic list facts\<close>

lemma find_append:
  "find P (xs @ ys) = (case find P xs of None \<Rightarrow> find P ys | Some x \<Rightarrow> Some x)"
  by (induction xs) auto

lemma filter_eq_if_cong:
  "(\<And>x. x \<in> set xs \<Longrightarrow> P x = Q x) \<Longrightarrow> filter P xs = filter Q xs"
  by (rule filter_cong) auto

lemma fold_invariant_on:
  assumes "P s" and "\<And>x s. x \<in> set xs \<Longrightarrow> P s \<Longrightarrow> P (f x s)"
  shows "P (fold f xs s)"
  using assms by (induction xs arbitrary: s) auto

end
