(* ===== verification/BTree_Map.thy ===== *)
theory BTree_Map
  imports Prelude
begin

text \<open>
  Rust's \<open>BTreeMap\<close> and \<open>BTreeSet\<close>: a finite map that is iterated in the order of its keys. A value of
  the type \<open>bmap\<close> is its list of entries, strictly sorted by key, so two maps with the same entries
  are the same value, which is what the catalog's determinism discipline relies on. The operations
  are the ones the catalog uses: \<open>get\<close>, \<open>insert\<close>, \<open>remove\<close>, \<open>retain\<close>, a rewrite of all values
  (\<open>values_mut\<close>), \<open>values\<close> and \<open>keys\<close> in key order.

  The locale \<open>ordered_map\<close> is the interface the other theories use; its laws are discharged for
  \<open>bmap\<close> by the interpretation \<open>bm\<close>.
\<close>

subsection \<open>Operations on sorted entry lists\<close>

fun al_insert :: "'k::linorder \<Rightarrow> 'v \<Rightarrow> ('k \<times> 'v) list \<Rightarrow> ('k \<times> 'v) list" where
  "al_insert k v [] = [(k, v)]"
| "al_insert k v ((k', v') # m) =
     (if k < k' then (k, v) # (k', v') # m
      else if k = k' then (k, v) # m
      else (k', v') # al_insert k v m)"

definition al_sorted :: "('k::linorder \<times> 'v) list \<Rightarrow> bool" where
  "al_sorted m = sorted_wrt (<) (map fst m)"

lemma al_sorted_simps [simp]:
  "al_sorted []"
  "al_sorted ((k, v) # m) \<longleftrightarrow> (\<forall>k' \<in> fst ` set m. k < k') \<and> al_sorted m"
  by (auto simp: al_sorted_def)

lemma fst_set_al_insert: "fst ` set (al_insert k v m) = insert k (fst ` set m)"
  by (induction k v m rule: al_insert.induct) auto

lemma al_sorted_insert: "al_sorted m \<Longrightarrow> al_sorted (al_insert k v m)"
proof (induction k v m rule: al_insert.induct)
  case (2 k v k' v' m)
  then show ?case
    by (auto simp: fst_set_al_insert image_iff dest: less_trans)
qed simp

lemma map_of_al_insert: "al_sorted m \<Longrightarrow> map_of (al_insert k v m) = (map_of m)(k \<mapsto> v)"
  by (induction k v m rule: al_insert.induct) (auto simp: fun_eq_iff)

lemma al_sorted_filter: "al_sorted m \<Longrightarrow> al_sorted (filter P m)"
  by (induction m) auto

lemma al_sorted_map_val: "al_sorted m \<Longrightarrow> al_sorted (map (\<lambda>(k, v). (k, f k v)) m)"
  by (simp add: al_sorted_def o_def case_prod_unfold)

lemma map_of_map_val: "map_of (map (\<lambda>(k, v). (k, f k v)) m) k = map_option (f k) (map_of m k)"
  by (induction m) auto

lemma al_sorted_distinct: "al_sorted m \<Longrightarrow> distinct (map fst m)"
  by (induction m) fastforce+

lemma map_of_filter_sorted:
  assumes "al_sorted m"
  shows "map_of (filter (\<lambda>(k, v). P k v) m) k =
    (case map_of m k of None \<Rightarrow> None | Some v \<Rightarrow> if P k v then Some v else None)"
  using al_sorted_distinct [OF assms]
proof (induction m)
  case (Cons a m)
  obtain k0 v0 where a: "a = (k0, v0)" by (cases a)
  have "map_of m k0 = None"
    using Cons.prems a by (simp add: map_of_eq_None_iff)
  with Cons a show ?case by (auto split: option.splits)
qed simp

lemma al_eqI:
  assumes "al_sorted m" "al_sorted m'" "map_of m = map_of m'"
  shows "m = m'"
proof (rule map_sorted_distinct_set_unique [where f = fst])
  have same: "set m = set m'"
    using assms al_sorted_distinct [OF assms(1)] al_sorted_distinct [OF assms(2)]
    by (metis map_of_eq_Some_iff subsetI subset_antisym surj_pair)
  show "set m = set m'" by (rule same)
  show "inj_on fst (set m \<union> set m')"
    using al_sorted_distinct [OF assms(1)] by (simp add: same [symmetric] distinct_map)
  show "sorted (map fst m)" "sorted (map fst m')"
    using assms(1,2) by (auto simp: al_sorted_def strict_sorted_iff)
  show "distinct (map fst m)" "distinct (map fst m')"
    using assms(1,2) al_sorted_distinct by auto
qed

subsection \<open>The type\<close>

typedef (overloaded) ('k::linorder, 'v) bmap = "{m :: ('k \<times> 'v) list. al_sorted m}"
  morphisms bm_entries Abs_bmap
  by (rule exI [of _ "[]"]) simp

setup_lifting type_definition_bmap

lift_definition bm_empty :: "('k::linorder, 'v) bmap" is "[]" by simp

lift_definition bm_get :: "('k::linorder, 'v) bmap \<Rightarrow> 'k \<Rightarrow> 'v option" is map_of .

lift_definition bm_insert :: "'k::linorder \<Rightarrow> 'v \<Rightarrow> ('k, 'v) bmap \<Rightarrow> ('k, 'v) bmap" is al_insert
  by (rule al_sorted_insert)

lift_definition bm_filter :: "('k::linorder \<Rightarrow> 'v \<Rightarrow> bool) \<Rightarrow> ('k, 'v) bmap \<Rightarrow> ('k, 'v) bmap"
  is "\<lambda>P. filter (\<lambda>(k, v). P k v)" by (rule al_sorted_filter)

lift_definition bm_map :: "('k::linorder \<Rightarrow> 'v \<Rightarrow> 'w) \<Rightarrow> ('k, 'v) bmap \<Rightarrow> ('k, 'w) bmap"
  is "\<lambda>f. map (\<lambda>(k, v). (k, f k v))" by (rule al_sorted_map_val)

definition bm_remove :: "'k::linorder \<Rightarrow> ('k, 'v) bmap \<Rightarrow> ('k, 'v) bmap" where
  "bm_remove k = bm_filter (\<lambda>k' _. k' \<noteq> k)"

definition bm_values :: "('k::linorder, 'v) bmap \<Rightarrow> 'v list" where
  "bm_values m = map snd (bm_entries m)"

definition bm_keys :: "('k::linorder, 'v) bmap \<Rightarrow> 'k list" where
  "bm_keys m = map fst (bm_entries m)"

definition bm_has :: "('k::linorder, 'v) bmap \<Rightarrow> 'k \<Rightarrow> bool" where
  "bm_has m k = (bm_get m k \<noteq> None)"

definition bm_size :: "('k::linorder, 'v) bmap \<Rightarrow> nat" where
  "bm_size m = length (bm_entries m)"

text \<open>Inserting a list of entries in order, a later entry replacing an earlier one.\<close>

definition bm_insert_all :: "('k::linorder \<times> 'v) list \<Rightarrow> ('k, 'v) bmap \<Rightarrow> ('k, 'v) bmap" where
  "bm_insert_all es m = fold (\<lambda>(k, v). bm_insert k v) es m"

definition bm_of_list :: "('k::linorder \<times> 'v) list \<Rightarrow> ('k, 'v) bmap" where
  "bm_of_list es = bm_insert_all es bm_empty"

type_synonym 'k bset = "('k, unit) bmap"

lemma bm_entries_empty [simp, code abstract]: "bm_entries bm_empty = []"
  by (rule bm_empty.rep_eq)

lemma bm_entries_insert [simp]: "bm_entries (bm_insert k v m) = al_insert k v (bm_entries m)"
  by (rule bm_insert.rep_eq)

lemma bm_entries_filter [simp]:
  "bm_entries (bm_filter P m) = filter (\<lambda>(k, v). P k v) (bm_entries m)"
  by (rule bm_filter.rep_eq)

lemma bm_entries_map [simp]:
  "bm_entries (bm_map f m) = map (\<lambda>(k, v). (k, f k v)) (bm_entries m)"
  by (rule bm_map.rep_eq)

lemma bm_entries_sorted: "al_sorted (bm_entries m)"
  using bm_entries by blast

lemma bm_get_entries: "bm_get m = map_of (bm_entries m)"
  by (simp add: bm_get.rep_eq fun_eq_iff)

subsection \<open>Laws\<close>

lemma bm_get_empty [simp]: "bm_get bm_empty k = None"
  by transfer simp

lemma bm_get_insert [bm_simps]: "bm_get (bm_insert k v m) k' = (if k' = k then Some v else bm_get m k')"
  by transfer (simp add: map_of_al_insert)

lemma bm_get_filter [bm_simps]:
  "bm_get (bm_filter P m) k =
    (case bm_get m k of None \<Rightarrow> None | Some v \<Rightarrow> if P k v then Some v else None)"
  by transfer (rule map_of_filter_sorted)

lemma bm_get_map [bm_simps]: "bm_get (bm_map f m) k = map_option (f k) (bm_get m k)"
  by transfer (rule map_of_map_val)

lemma bm_get_remove [bm_simps]: "bm_get (bm_remove k m) k' = (if k' = k then None else bm_get m k')"
  by (simp add: bm_remove_def bm_get_filter split: option.splits)

lemma bm_eqI: "(\<And>k. bm_get m k = bm_get m' k) \<Longrightarrow> m = m'"
  by transfer (auto intro: al_eqI)

lemma bm_entries_get: "(k, v) \<in> set (bm_entries m) \<longleftrightarrow> bm_get m k = Some v"
  unfolding bm_get_entries
  using al_sorted_distinct [OF bm_entries_sorted [of m]] by simp

lemma bm_values_iff: "v \<in> set (bm_values m) \<longleftrightarrow> (\<exists>k. bm_get m k = Some v)"
  by (force simp: bm_values_def bm_entries_get [symmetric])

lemma bm_keys_iff: "k \<in> set (bm_keys m) \<longleftrightarrow> bm_get m k \<noteq> None"
proof -
  have "k \<in> set (bm_keys m) \<longleftrightarrow> (\<exists>v. (k, v) \<in> set (bm_entries m))"
    unfolding bm_keys_def set_map by (metis (no_types) fst_eqD imageE image_eqI prod.collapse)
  then show ?thesis by (simp add: bm_entries_get)
qed

lemma bm_has_iff: "bm_has m k \<longleftrightarrow> k \<in> set (bm_keys m)"
  by (simp add: bm_has_def bm_keys_iff)

lemma bm_keys_strict_sorted: "sorted_wrt (<) (bm_keys m)"
  using bm_entries_sorted [of m] by (simp add: bm_keys_def al_sorted_def)

lemma bm_values_filter: "bm_values (bm_filter (\<lambda>_ v. P v) m) = filter P (bm_values m)"
  by (simp add: bm_values_def filter_map o_def case_prod_unfold)

lemma bm_values_map: "bm_values (bm_map (\<lambda>_. g) m) = map g (bm_values m)"
  by (simp add: bm_values_def o_def case_prod_unfold)

lemma bm_insert_all_simps [simp]:
  "bm_insert_all [] m = m"
  "bm_insert_all ((k, v) # es) m = bm_insert_all es (bm_insert k v m)"
  by (simp_all add: bm_insert_all_def)

lemma bm_get_insert_all:
  "bm_get (bm_insert_all es m) k =
     (case map_of (rev es) k of None \<Rightarrow> bm_get m k | Some v \<Rightarrow> Some v)"
  by (induction es arbitrary: m)
     (auto simp: bm_get_insert map_add_def split: option.splits)

lemma map_of_rev_entries: "map_of (rev (bm_entries m)) = bm_get m"
  unfolding bm_get_entries
  by (metis al_sorted_distinct bm_entries_sorted map_of_inject_set distinct_rev rev_map set_rev)

lemma bm_of_list_entries: "bm_of_list (bm_entries m) = m"
proof (rule bm_eqI)
  fix k
  have "map_of (rev (bm_entries m)) = map_of (bm_entries m)"
    by (simp add: map_of_rev_entries bm_get_entries)
  then show "bm_get (bm_of_list (bm_entries m)) k = bm_get m k"
    by (simp add: bm_of_list_def bm_get_insert_all bm_get_entries [of m] split: option.splits)
qed

text \<open>Values stored under a key computed from them.\<close>

lemma bm_values_keyed:
  assumes "\<forall>k v. bm_get m k = Some v \<longrightarrow> key v = k"
  shows "map (\<lambda>v. (key v, v)) (bm_values m) = bm_entries m"
proof -
  have "key v = k" if "(k, v) \<in> set (bm_entries m)" for k v
    using assms that by (simp add: bm_entries_get)
  then have "map (\<lambda>v. (key v, v)) (map snd (bm_entries m)) = map (\<lambda>x. x) (bm_entries m)"
    unfolding map_map by (intro map_cong) auto
  then show ?thesis by (simp add: bm_values_def)
qed

lemma bm_filter_cong:
  "(\<And>k v. bm_get m k = Some v \<Longrightarrow> P k v = Q k v) \<Longrightarrow> bm_filter P m = bm_filter Q m"
  by (rule bm_eqI) (auto simp: bm_get_filter split: option.splits)

text \<open>Collecting an iterator into a \<open>BTreeSet\<close>.\<close>

definition bset_of :: "'k::linorder list \<Rightarrow> 'k bset" where
  "bset_of xs = bm_of_list (map (\<lambda>x. (x, ())) xs)"

lemma bm_get_unit_list:
  "bm_get (bm_insert_all (map (\<lambda>x. (x, ())) xs) m) k = (if k \<in> set xs then Some () else bm_get m k)"
  by (induction xs arbitrary: m) (auto simp: bm_get_insert)

lemma set_bset_of [simp]: "set (bm_keys (bset_of xs)) = set xs"
  by (auto simp: bset_of_def bm_of_list_def bm_keys_iff bm_get_unit_list split: if_splits)

instantiation bmap :: (linorder, type) equal
begin

definition equal_bmap :: "('a, 'b) bmap \<Rightarrow> ('a, 'b) bmap \<Rightarrow> bool" where
  "equal_bmap m m' \<longleftrightarrow> bm_entries m = bm_entries m'"

instance
  by standard (simp add: equal_bmap_def bm_entries_inject)

end

subsection \<open>The interface\<close>

locale ordered_map =
  fixes empty :: "'m"
    and get :: "'m \<Rightarrow> 'k::linorder \<Rightarrow> 'v option"
    and ins :: "'k \<Rightarrow> 'v \<Rightarrow> 'm \<Rightarrow> 'm"
    and del :: "'k \<Rightarrow> 'm \<Rightarrow> 'm"
    and keys :: "'m \<Rightarrow> 'k list"
  assumes get_empty: "get empty k = None"
    and get_ins: "get (ins k v m) k' = (if k' = k then Some v else get m k')"
    and get_del: "get (del k m) k' = (if k' = k then None else get m k')"
    and map_ext: "(\<And>k. get m k = get m' k) \<Longrightarrow> m = m'"
    and keys_get: "k \<in> set (keys m) \<longleftrightarrow> get m k \<noteq> None"
    and keys_sorted: "sorted_wrt (<) (keys m)"
begin

lemma ins_ins_same: "ins k v (ins k w m) = ins k v m"
  by (rule map_ext) (simp add: get_ins)

lemma ins_commute: "k \<noteq> k' \<Longrightarrow> ins k v (ins k' v' m) = ins k' v' (ins k v m)"
  by (rule map_ext) (simp add: get_ins)

lemma ins_same_value: "get m k = Some v \<Longrightarrow> ins k v m = m"
  by (rule map_ext) (simp add: get_ins)

lemma del_absent: "get m k = None \<Longrightarrow> del k m = m"
  by (rule map_ext) (simp add: get_del)

lemma del_ins: "get m k = None \<Longrightarrow> del k (ins k v m) = m"
  by (rule map_ext) (simp add: get_ins get_del)

lemma keys_distinct: "distinct (keys m)"
  using keys_sorted [of m] by (simp add: strict_sorted_iff)

lemma keys_det: "set (keys m) = set (keys m') \<Longrightarrow> keys m = keys m'"
  using keys_sorted [of m] keys_sorted [of m']
  by (metis sorted_list_of_set.idem_if_sorted_distinct strict_sorted_iff)

end

interpretation bm: ordered_map bm_empty bm_get bm_insert bm_remove bm_keys
  by unfold_locales
     (auto simp: bm_simps bm_keys_iff bm_keys_strict_sorted intro: bm_eqI)

end
