(* ===== verification/Le_Bytes.thy ===== *)
theory Le_Bytes
  imports Prelude
begin

text \<open>
  Rust's \<open>to_le_bytes\<close> and \<open>from_le_bytes\<close> at an explicit width. \<open>le_bytes k n\<close> writes the low \<open>k\<close> bytes
  of \<open>n\<close>, so writing a value that does not fit truncates it as the \<open>as u32\<close> cast of the sources does;
  \<open>le_nat\<close> reads a field back. \<open>slice i j bs\<close> is \<open>bytes[i..j]\<close>.
\<close>

fun le_bytes :: "nat \<Rightarrow> nat \<Rightarrow> bytes" where
  "le_bytes 0 n = []"
| "le_bytes (Suc k) n = of_nat n # le_bytes k (n div 256)"

fun le_nat :: "bytes \<Rightarrow> nat" where
  "le_nat [] = 0"
| "le_nat (b # bs) = unat b + 256 * le_nat bs"

definition slice :: "nat \<Rightarrow> nat \<Rightarrow> bytes \<Rightarrow> bytes" where
  "slice i j bs = take (j - i) (drop i bs)"

lemma length_le_bytes [simp]: "length (le_bytes k n) = k"
  by (induction k arbitrary: n) auto

lemma le_nat_bound: "le_nat bs < 256 ^ length bs"
proof (induction bs)
  case (Cons b bs)
  have "unat b < 256" using unsigned_less [of b, where 'a = nat] by simp
  moreover have "256 * (le_nat bs + 1) \<le> 256 * 256 ^ length bs"
    using Cons by (intro mult_le_mono2) simp
  ultimately show ?case by (simp add: algebra_simps)
qed simp

lemma le_nat_le_bytes: "le_nat (le_bytes k n) = n mod 256 ^ k"
proof (induction k arbitrary: n)
  case (Suc k)
  have "unat (of_nat n :: 8 word) = n mod 256" by (simp add: unat_of_nat)
  with Suc show ?case by (simp add: mod_mult2_eq)
qed simp

lemma le_nat_le_bytes_id: "n < 256 ^ k \<Longrightarrow> le_nat (le_bytes k n) = n"
  by (simp add: le_nat_le_bytes)

lemma le_bytes_le_nat: "length bs = k \<Longrightarrow> le_bytes k (le_nat bs) = bs"
proof (induction bs arbitrary: k)
  case (Cons b bs)
  have "unat b < 256" using unsigned_less [of b, where 'a = nat] by simp
  then have "(unat b + 256 * le_nat bs) div 256 = le_nat bs" by simp
  moreover have "(of_nat (unat b + 256 * le_nat bs) :: 8 word) = b"
  proof -
    have "(of_nat (256 * le_nat bs) :: 8 word) = 0"
      by (rule word_of_nat_eq_0_iff [THEN iffD2]) simp
    then show ?thesis by simp
  qed
  moreover obtain k' where "k = Suc k'" "length bs = k'" using Cons.prems by auto
  ultimately show ?case using Cons.IH by simp
qed simp

lemma slice_prefix: "length a = j \<Longrightarrow> slice 0 j (a @ b) = a"
  by (simp add: slice_def)

lemma slice_skip: "length a = i \<Longrightarrow> i \<le> j \<Longrightarrow> slice i j (a @ b) = slice 0 (j - i) b"
  by (simp add: slice_def)

lemma length_slice: "j \<le> length bs \<Longrightarrow> length (slice i j bs) = j - i"
  by (simp add: slice_def)

lemma slice_take: "j \<le> k \<Longrightarrow> slice i j (take k bs) = slice i j bs"
  by (simp add: slice_def drop_take min_def)

lemma slice_append: "j \<le> length a \<Longrightarrow> slice i j (a @ b) = slice i j a"
  by (simp add: slice_def)

lemma slice_append_drop: "i \<le> j \<Longrightarrow> drop i bs = slice i j bs @ drop j bs"
  by (simp add: slice_def) (metis append_take_drop_id drop_drop le_add_diff_inverse2)

end
