(* ===== verification/Names.thy ===== *)
theory Names
  imports Prelude
begin

text \<open>
  Table identities (\<open>crates/model/src/ops.rs\<close>): the qualified name \<open>schema.table\<close> that every layer
  uses as its key, how a bare name is resolved, and which names are valid. \<open>normalize_table\<close>
  (\<open>crates/catalog/src/lib.rs\<close>) resolves a name and renders it again.
\<close>

definition DEFAULT_SCHEMA :: string where
  "DEFAULT_SCHEMA = ''public''"

definition qualified_name :: "string \<Rightarrow> string \<Rightarrow> string" where
  "qualified_name schema table = schema @ ''.'' @ table"

definition split_qualified :: "string \<Rightarrow> string \<times> string" where
  "split_qualified qualified =
     (case split_once CHR ''.'' qualified of
        Some (schema, table) \<Rightarrow>
          if schema \<noteq> [] \<and> table \<noteq> [] then (schema, table) else (DEFAULT_SCHEMA, qualified)
      | None \<Rightarrow> (DEFAULT_SCHEMA, qualified))"

definition name_char :: "char \<Rightarrow> bool" where
  "name_char c = (is_ascii_alphanumeric c \<or> c = CHR ''_'' \<or> c = CHR ''-'')"

definition validate_schema_name :: "string \<Rightarrow> bool" where
  "validate_schema_name name = (\<not> (name = [] \<or> length name > 128 \<or> \<not> list_all name_char name))"

definition validate_table_name :: "string \<Rightarrow> bool" where
  "validate_table_name name = (\<not> (name = [] \<or> length name > 128 \<or> \<not> list_all name_char name))"

definition normalize_table :: "string \<Rightarrow> string" where
  "normalize_table name = (let (ns, table) = split_qualified name in qualified_name ns table)"

subsection \<open>Valid names have no dot\<close>

lemma dot_not_name_char [simp]: "\<not> name_char CHR ''.''"
  by (simp add: name_char_def is_ascii_alphanumeric_def)

lemma valid_schema_no_dot: "validate_schema_name s \<Longrightarrow> CHR ''.'' \<notin> set s \<and> s \<noteq> []"
  by (auto simp: validate_schema_name_def list_all_iff)

lemma valid_table_no_dot: "validate_table_name s \<Longrightarrow> CHR ''.'' \<notin> set s \<and> s \<noteq> []"
  by (auto simp: validate_table_name_def list_all_iff)

lemma split_qualified_name:
  "CHR ''.'' \<notin> set s \<Longrightarrow> s \<noteq> [] \<Longrightarrow> t \<noteq> [] \<Longrightarrow> split_qualified (qualified_name s t) = (s, t)"
  by (simp add: split_qualified_def qualified_name_def split_once_append)

lemma normalize_qualified:
  "CHR ''.'' \<notin> set s \<Longrightarrow> s \<noteq> [] \<Longrightarrow> t \<noteq> [] \<Longrightarrow>
    normalize_table (qualified_name s t) = qualified_name s t"
  by (simp add: normalize_table_def split_qualified_name)

lemma split_qualified_cases:
  obtains (split) s t where "split_qualified n = (s, t)" "n = s @ CHR ''.'' # t"
      "CHR ''.'' \<notin> set s" "s \<noteq> []" "t \<noteq> []"
  | (dflt) "split_qualified n = (DEFAULT_SCHEMA, n)"
proof (cases "split_once CHR ''.'' n")
  case None
  then show thesis using dflt by (simp add: split_qualified_def)
next
  case (Some p)
  obtain a b where p: "p = (a, b)" by (cases p)
  from Some p have "n = a @ CHR ''.'' # b" "CHR ''.'' \<notin> set a" using split_once_Some by blast+
  with Some p show thesis
    using split [of a b] dflt by (cases "a \<noteq> [] \<and> b \<noteq> []") (auto simp: split_qualified_def)
qed

lemma normalize_idem: "n \<noteq> [] \<Longrightarrow> normalize_table (normalize_table n) = normalize_table n"
proof (cases rule: split_qualified_cases [of n])
  case (split s t)
  then show ?thesis by (simp add: normalize_table_def qualified_name_def split_qualified_def split_once_append)
next
  case dflt
  assume "n \<noteq> []"
  then show ?thesis
    by (simp add: normalize_table_def dflt split_qualified_name DEFAULT_SCHEMA_def)
qed

lemma normalize_idem2 [simp]:
  "normalize_table n \<noteq> normalize_table [] \<Longrightarrow>
    normalize_table (normalize_table n) = normalize_table n"
  by (cases "n = []") (auto intro: normalize_idem)

text \<open>A qualified name built from a valid schema name and a valid table name splits back into
  its two parts and is its own normal form, so the identity every layer uses as a key determines the pair.\<close>

theorem qualified_name_roundtrip:
  assumes "validate_schema_name s" and "validate_table_name t"
  shows "split_qualified (qualified_name s t) = (s, t) \<and>
    normalize_table (qualified_name s t) = qualified_name s t"
  using valid_schema_no_dot [OF assms(1)] valid_table_no_dot [OF assms(2)]
  by (simp add: split_qualified_name normalize_qualified)

theorem qualified_name_roundtrip_witness:
  "split_qualified (qualified_name ''sales'' ''orders'') = (''sales'', ''orders'') \<and>
    normalize_table (qualified_name ''sales'' ''orders'') = qualified_name ''sales'' ''orders''"
proof -
  have "validate_schema_name ''sales''" "validate_table_name ''orders''" by code_simp+
  then show ?thesis by (rule qualified_name_roundtrip)
qed

end
