(* ===== verification/Schema_Evolution.thy ===== *)
theory Schema_Evolution
  imports Prelude
begin

text \<open>
  Schema evolution (\<open>crates/model/src/schema.rs\<close>, \<open>promotion_rank\<close> of \<open>crates/model/src/meta.rs\<close>):
  classifying an incoming schema against the table's, the promotion lattice of numeric types, and
  applying one change. Arrow's \<open>DataType\<close> is a datatype with the variants the sources name and
  \<open>OtherType\<close> for the rest; a \<open>Field\<close> is a record; a \<open>Schema\<close> is its list of fields. Arrow's \<open>Debug\<close>
  rendering of a data type, which \<open>describe\<close> prints, is the parameter \<open>dbg\<close>.
\<close>

datatype data_type =
    Int8 | Int16 | Int32 | Int64
  | UInt8 | UInt16 | UInt32 | UInt64
  | Float32 | Float64
  | Boolean | Date32 | Date64 | Time32 nat | Time64 nat | Timestamp nat
  | Utf8 | LargeUtf8 | Binary | LargeBinary
  | OtherType nat

record field =
  f_name :: string
  f_type :: data_type
  f_nullable :: bool

type_synonym schema = "field list"

datatype schema_change_kind = AddColumnKind | WidenTypeKind | DropColumnKind

fun kind_as_u32 :: "schema_change_kind \<Rightarrow> nat" where
  "kind_as_u32 AddColumnKind = 0"
| "kind_as_u32 WidenTypeKind = 1"
| "kind_as_u32 DropColumnKind = 2"

definition kind_from_u32 :: "nat \<Rightarrow> schema_change_kind option" where
  "kind_from_u32 v =
     (if v = 0 then Some AddColumnKind
      else if v = 1 then Some WidenTypeKind
      else if v = 2 then Some DropColumnKind
      else None)"

datatype schema_change =
    AddColumn field
  | WidenType string data_type
  | DropColumn string

fun change_kind :: "schema_change \<Rightarrow> schema_change_kind" where
  "change_kind (AddColumn _) = AddColumnKind"
| "change_kind (WidenType _ _) = WidenTypeKind"
| "change_kind (DropColumn _) = DropColumnKind"

fun describe_change :: "(data_type \<Rightarrow> string) \<Rightarrow> schema_change \<Rightarrow> string" where
  "describe_change dbg (AddColumn f) = ''add column '' @ f_name f @ '': '' @ dbg (f_type f)"
| "describe_change dbg (WidenType c to) = ''widen column '' @ c @ '': '' @ dbg to"
| "describe_change dbg (DropColumn c) = ''drop column '' @ c"

datatype schema_compatibility =
    Compatible
  | NeedsEvolve schema_change
  | Incompatible string

definition promotion_rank :: "data_type \<Rightarrow> nat option" where
  "promotion_rank dt =
     (case dt of
        Int8 \<Rightarrow> Some 0
      | Int16 \<Rightarrow> Some 1
      | Int32 \<Rightarrow> Some 2
      | Int64 \<Rightarrow> Some 3
      | Float64 \<Rightarrow> Some 4
      | _ \<Rightarrow> None)"

text \<open>\<open>Schema::field_with_name\<close> returns the first field of that name.\<close>

definition field_with_name :: "schema \<Rightarrow> string \<Rightarrow> field option" where
  "field_with_name s n = find (\<lambda>f. f_name f = n) s"

definition try_widen :: "string \<Rightarrow> data_type \<Rightarrow> data_type \<Rightarrow> schema_change option" where
  "try_widen column from to =
     (if from = to then None
      else (case (promotion_rank from, promotion_rank to) of
              (Some a, Some b) \<Rightarrow> if b > a then Some (WidenType column to) else None
            | _ \<Rightarrow> None))"

fun classify :: "schema \<Rightarrow> schema \<Rightarrow> schema_compatibility" where
  "classify table [] = Compatible"
| "classify table (f # incoming) =
     (case field_with_name table (f_name f) of
        Some tf \<Rightarrow>
          if f_type tf = f_type f then classify table incoming
          else (case try_widen (f_name f) (f_type tf) (f_type f) of
                  Some change \<Rightarrow> NeedsEvolve change
                | None \<Rightarrow> Incompatible (f_name f))
      | None \<Rightarrow> NeedsEvolve (AddColumn f))"

datatype change_error =
    ColumnExists string
  | ColumnNotFound string
  | CannotWiden data_type data_type
  | CannotConverge string

text \<open>\<open>iter().position\<close>.\<close>

fun position :: "('a \<Rightarrow> bool) \<Rightarrow> 'a list \<Rightarrow> nat option" where
  "position P [] = None"
| "position P (x # xs) = (if P x then Some 0 else map_option Suc (position P xs))"

fun apply_change :: "schema \<Rightarrow> schema_change \<Rightarrow> change_error + schema" where
  "apply_change cols (AddColumn field) =
     (if list_ex (\<lambda>f. f_name f = f_name field) cols then Inl (ColumnExists (f_name field))
      else Inr (cols @ [field]))"
| "apply_change cols (WidenType column to) =
     (case position (\<lambda>f. f_name f = column) cols of
        None \<Rightarrow> Inl (ColumnNotFound column)
      | Some idx \<Rightarrow>
          let from = f_type (cols ! idx) in
          (case (promotion_rank from, promotion_rank to) of
             (Some a, Some b) \<Rightarrow>
               if a \<ge> b then Inl (CannotWiden from to)
               else Inr (cols[idx := \<lparr>f_name = column, f_type = to,
                                        f_nullable = f_nullable (cols ! idx)\<rparr>])
           | _ \<Rightarrow> Inl (CannotWiden from to)))"
| "apply_change cols (DropColumn column) =
     (let kept = filter (\<lambda>f. f_name f \<noteq> column) cols in
      if length kept = length cols then Inl (ColumnNotFound column) else Inr kept)"

subsection \<open>Lemmas\<close>

lemma position_Some:
  "position P xs = Some i \<Longrightarrow> i < length xs \<and> P (xs ! i) \<and> (\<forall>j < i. \<not> P (xs ! j))"
proof (induction xs arbitrary: i)
  case (Cons x xs)
  then show ?case
    by (auto split: if_splits simp: less_Suc_eq_0_disj nth_Cons split: nat.splits)
qed simp

lemma position_None: "position P xs = None \<longleftrightarrow> (\<forall>x \<in> set xs. \<not> P x)"
  by (induction xs) auto

lemma find_position: "find P xs = map_option (\<lambda>i. xs ! i) (position P xs)"
  by (induction xs) (auto simp: option.map_comp o_def)

definition distinct_columns :: "schema \<Rightarrow> bool" where
  "distinct_columns s = distinct (map f_name s)"

lemma try_widen_Some:
  "try_widen n from to = Some c \<longleftrightarrow>
     c = WidenType n to \<and> (\<exists>a b. promotion_rank from = Some a \<and> promotion_rank to = Some b \<and> a < b)"
  by (cases "promotion_rank from"; cases "promotion_rank to") (auto simp: try_widen_def)

definition asks_add :: "schema \<Rightarrow> schema_change \<Rightarrow> field \<Rightarrow> bool" where
  "asks_add table c f \<longleftrightarrow> c = AddColumn f \<and> field_with_name table (f_name f) = None"

definition asks_widen :: "schema \<Rightarrow> schema_change \<Rightarrow> field \<Rightarrow> bool" where
  "asks_widen table c f \<longleftrightarrow> c = WidenType (f_name f) (f_type f) \<and>
     (\<exists>tf a b. field_with_name table (f_name f) = Some tf \<and>
        promotion_rank (f_type tf) = Some a \<and> promotion_rank (f_type f) = Some b \<and> a < b)"

lemma classify_NeedsEvolve_cases:
  "classify table incoming = NeedsEvolve c \<Longrightarrow>
    \<exists>f \<in> set incoming. asks_add table c f \<or> asks_widen table c f"
proof (induction table incoming rule: classify.induct)
  case (2 table f incoming)
  show ?case
  proof (cases "field_with_name table (f_name f)")
    case None
    with "2.prems" show ?thesis by (simp add: asks_add_def)
  next
    case (Some tf)
    show ?thesis
    proof (cases "f_type tf = f_type f")
      case True
      with Some "2.prems" "2.IH" show ?thesis by auto
    next
      case False
      with Some "2.prems" have "try_widen (f_name f) (f_type tf) (f_type f) = Some c"
        by (simp split: option.splits)
      with Some show ?thesis by (auto simp: try_widen_Some asks_widen_def)
    qed
  qed
qed simp

lemma apply_change_distinct:
  "apply_change s c = Inr s' \<Longrightarrow> distinct_columns s \<Longrightarrow> distinct_columns s'"
proof (cases c)
  case (WidenType col to)
  assume "apply_change s c = Inr s'" "distinct_columns s"
  with WidenType obtain i where i: "position (\<lambda>f. f_name f = col) s = Some i"
    and s': "s' = s[i := \<lparr>f_name = col, f_type = to, f_nullable = f_nullable (s ! i)\<rparr>]"
    by (auto simp: Let_def split: option.splits if_splits)
  from position_Some [OF i] have "map f_name s' = map f_name s"
    by (simp add: s' map_update list_update_same_conv)
  with \<open>distinct_columns s\<close> show ?thesis by (simp add: distinct_columns_def)
next
  case (AddColumn f)
  assume "apply_change s c = Inr s'" "distinct_columns s"
  with AddColumn show ?thesis
    by (auto simp: distinct_columns_def list_ex_iff image_iff split: if_splits) metis
next
  case (DropColumn col)
  assume "apply_change s c = Inr s'" "distinct_columns s"
  with DropColumn show ?thesis
    by (auto simp: distinct_columns_def Let_def distinct_map_filter split: if_splits)
qed

text \<open>Classification and application agree: whenever \<open>classify\<close> asks for an evolution, applying
  that change to the table's schema succeeds, and the incoming column it was asked for is then
  present with exactly the incoming type.\<close>

theorem classify_evolve_applies:
  assumes "classify table incoming = NeedsEvolve c"
  shows "\<exists>table' f. apply_change table c = Inr table' \<and> f \<in> set incoming \<and>
    map_option f_type (field_with_name table' (f_name f)) = Some (f_type f)"
proof -
  obtain f where f: "f \<in> set incoming" and "asks_add table c f \<or> asks_widen table c f"
    using classify_NeedsEvolve_cases [OF assms] by blast
  then consider (add) "asks_add table c f" | (widen) "asks_widen table c f" by blast
  then show ?thesis
  proof cases
    case add
    then have none: "find (\<lambda>g. f_name g = f_name f) table = None" and c: "c = AddColumn f"
      by (auto simp: asks_add_def field_with_name_def)
    have "\<not> list_ex (\<lambda>g. f_name g = f_name f) table"
      using none by (auto simp: find_None_iff list_ex_iff)
    then have "apply_change table c = Inr (table @ [f])" by (simp add: c)
    moreover have "find (\<lambda>g. f_name g = f_name f) (table @ [f]) = Some f"
      by (simp add: find_append none)
    ultimately show ?thesis using f by (auto simp: field_with_name_def)
  next
    case widen
    let ?P = "\<lambda>g. f_name g = f_name f"
    obtain i where i: "position ?P table = Some i"
      using widen by (auto simp: asks_widen_def field_with_name_def find_position)
    let ?new = "\<lparr>f_name = f_name f, f_type = f_type f, f_nullable = f_nullable (table ! i)\<rparr>"
    have "apply_change table c = Inr (table[i := ?new])"
      using widen i by (auto simp: asks_widen_def field_with_name_def find_position Let_def)
    moreover have "find ?P (table[i := ?new]) = Some ?new"
      using position_Some [OF i] by (auto simp: find_Some_iff intro!: exI [of _ i])
    ultimately show ?thesis using f by (auto simp: field_with_name_def)
  qed
qed

theorem classify_evolve_applies_witness:
  "\<exists>table' f. apply_change [\<lparr>f_name = ''v'', f_type = Int32, f_nullable = True\<rparr>]
      (WidenType ''v'' Int64) = Inr table' \<and>
    f \<in> set [\<lparr>f_name = ''v'', f_type = Int64, f_nullable = False\<rparr>] \<and>
    map_option f_type (field_with_name table' (f_name f)) = Some (f_type f)"
  by (rule classify_evolve_applies)
     (simp add: field_with_name_def try_widen_def promotion_rank_def)

end
