(* ===== verification/Errors.thy ===== *)
theory Errors
  imports Schema_Evolution
begin

text \<open>
  The error types of \<open>crates/model/src/error.rs\<close>, one constructor per variant. The text of a
  message is not modelled: where the source formats a message, the model carries an ASCII tag that
  names the branch, or the value the message is about.
\<close>

datatype wal_error =
    TornWrite nat
  | WalTruncated nat nat
  | WalBadMagic string
  | WalUnsupportedVersion nat
  | CorruptedCurrent string
  | WalOther string

datatype lake_error =
    SchemaIncompatible string
  | IdempotencyKeyRequired
  | IdempotencyKeyTooLong
  | TableNotFound string
  | TableAlreadyExists string
  | SchemaNotFound string
  | SchemaAlreadyExists string
  | SchemaNotEmpty string
  | InvalidSchemaChange change_error
  | ResourceExhausted string
  | SchemaChanged nat schema
  | S3 string
  | Wal wal_error
  | Io string
  | DirBusy string
  | Other string

datatype snapshot_error =
    TooShort nat
  | BadMagic
  | UnsupportedVersion nat
  | HeaderCrcMismatch nat nat
  | InvalidChunkSize nat
  | Truncated nat nat nat
  | ChunkCrcMismatch nat nat nat
  | LengthMismatch nat nat
  | Decode string
  | InvalidState string
  | RevisionMismatch nat nat

end
