(* ===== verification/Catalog_Types.thy ===== *)
theory Catalog_Types
  imports Errors BTree_Map Names
begin

text \<open>
  The metadata messages of \<open>crates/model/src/meta.rs\<close>, \<open>dv.rs\<close> and \<open>task.rs\<close> and the requests of
  \<open>crates/model/src/ops.rs\<close>, as records. Field names carry a prefix for their message. An Arrow
  schema is stored as the bytes of its IPC encoding, as the source stores it; the codec itself is
  Arrow's and is a parameter of the operations that use it.
\<close>

record ingest_config =
  ic_require_idempotency_key :: bool
  ic_idempotency_ttl_secs :: nat
  ic_rows_threshold :: nat
  ic_time_threshold_secs :: nat
  ic_durability :: nat

record table_meta =
  tm_name :: string
  tm_current_schema_version :: nat
  tm_partition_cols :: "string list"
  tm_default_format :: string
  tm_ingest_config :: "ingest_config option"
  tm_created_at :: nat
  tm_arrow_schema :: bytes
  tm_table_template :: nat
  tm_namespace :: string

definition tm_schema_name :: "table_meta \<Rightarrow> string" where
  "tm_schema_name t = (if tm_namespace t = [] then DEFAULT_SCHEMA else tm_namespace t)"

definition tm_qualified_name :: "table_meta \<Rightarrow> string" where
  "tm_qualified_name t = qualified_name (tm_schema_name t) (tm_name t)"

record schema_version =
  sv_version :: nat
  sv_arrow_schema :: bytes
  sv_change_kind :: nat
  sv_created_at :: nat
  sv_change_desc :: string

record column_stat_lite =
  cs_name :: string
  cs_min :: bytes
  cs_max :: bytes
  cs_null_count :: nat

record file_manifest =
  fm_file_path :: string
  fm_batch_id :: string
  fm_client_request_id :: string
  fm_schema_version :: nat
  fm_status :: nat
  fm_valid_from :: nat
  fm_deleted_at :: nat
  fm_stats :: "column_stat_lite list option"
  fm_row_count :: nat
  fm_file_size :: nat
  fm_table :: string
  fm_shard :: string
  fm_time_window :: string
  fm_partition_key :: string
  fm_source_instance :: string
  fm_sealed_at_ms :: nat
  fm_committed_at_ms :: nat
  fm_seal_reason :: string
  fm_seal_pressure :: string
  fm_index_path :: string
  fm_index_size :: nat

datatype file_status = Active | Staged | Deleted

fun status_as_u32 :: "file_status \<Rightarrow> nat" where
  "status_as_u32 Active = 0"
| "status_as_u32 Staged = 1"
| "status_as_u32 Deleted = 2"

definition fm_is_active :: "file_manifest \<Rightarrow> bool" where
  "fm_is_active f = (fm_status f = status_as_u32 Active)"

definition protects_at :: "file_manifest \<Rightarrow> nat \<Rightarrow> bool" where
  "protects_at f snapshot = (fm_deleted_at f = 0 \<or> snapshot < fm_deleted_at f)"

definition visible_at :: "file_manifest \<Rightarrow> nat \<Rightarrow> bool" where
  "visible_at f snapshot = (fm_valid_from f \<le> snapshot \<and> protects_at f snapshot)"

record datanode_member =
  dm_instance_id :: string
  dm_address :: string
  dm_registered_at_ms :: nat

record lease_entry =
  le_purpose :: string
  le_holder :: string
  le_epoch :: nat
  le_granted_at_ms :: nat
  le_expires_at_ms :: nat

record lease_grant =
  lg_granted :: bool
  lg_epoch :: nat
  lg_expires_at_ms :: nat

definition COMPACTION_LEASE :: string where
  "COMPACTION_LEASE = ''compaction''"

definition dml_shard_lease_purpose :: "string \<Rightarrow> string \<Rightarrow> string" where
  "dml_shard_lease_purpose table shard = ''dml:'' @ table @ '':'' @ shard"

definition compaction_shard_lease_purpose :: "string \<Rightarrow> string \<Rightarrow> string \<Rightarrow> string" where
  "compaction_shard_lease_purpose prefix table shard = prefix @ '':'' @ table @ '':'' @ shard"

record idempotency_record =
  ir_client_request_id :: string
  ir_batch_id :: string
  ir_committed_at :: nat

record deletion_entry =
  de_dv_id :: string
  de_table :: string
  de_file_path :: string
  de_batch_id :: string
  de_applied_at :: nat
  de_revoked_at :: nat
  de_card :: nat
  de_store_path :: string

definition active_at :: "deletion_entry \<Rightarrow> nat \<Rightarrow> bool" where
  "active_at e snapshot =
     (de_applied_at e \<le> snapshot \<and> (de_revoked_at e = 0 \<or> snapshot < de_revoked_at e))"

definition dv_object_path :: "string \<Rightarrow> string \<Rightarrow> string" where
  "dv_object_path data_path dv_id =
     (let (dir, name) = (case rsplit_once CHR ''/'' data_path of
                           Some (d, n) \<Rightarrow> (d, n)
                         | None \<Rightarrow> ([], data_path))
      in dir @ ''/dv/'' @ name @ ''/'' @ dv_id @ ''.bin'')"

record task_key =
  tk_table :: string
  tk_shard :: string

definition task_id :: "task_key \<Rightarrow> string" where
  "task_id k = tk_table k @ '':'' @ tk_shard k"

definition task_lease_purpose :: "task_key \<Rightarrow> string" where
  "task_lease_purpose k = ''task:'' @ task_id k"

datatype task_reason = TaskFiles | TaskDeletions

fun reason_as_u32 :: "task_reason \<Rightarrow> nat" where
  "reason_as_u32 TaskFiles = 0"
| "reason_as_u32 TaskDeletions = 1"

record compaction_task =
  ct_table :: string
  ct_shard :: string
  ct_files :: nat
  ct_deleted_rows :: nat
  ct_reason :: nat
  ct_since_ms :: nat

definition ct_key :: "compaction_task \<Rightarrow> task_key" where
  "ct_key t = \<lparr>tk_table = ct_table t, tk_shard = ct_shard t\<rparr>"

definition task_reason_of :: "compaction_task \<Rightarrow> task_reason" where
  "task_reason_of t = (if ct_reason t = 1 then TaskDeletions else TaskFiles)"

definition THRESHOLD_FILES :: nat where
  "THRESHOLD_FILES = 2"

definition THRESHOLD_DV_MIN_CARD :: nat where
  "THRESHOLD_DV_MIN_CARD = 500"

text \<open>
  \<open>card as f64 / rows as f64 >= DV_RATIO\<close> with \<open>DV_RATIO = 0.05\<close>. Rounding is monotone, so a quotient of
  at least 1/20 passes; a quotient below 1/20 falls short of it by at least 1/(20 rows), which is more
  than half a unit in the last place for every row count below \<open>2 ^ 51\<close>, so it does not. The
  comparison of integers is therefore the comparison the code computes.
\<close>

definition dv_ratio_reached :: "nat \<Rightarrow> nat \<Rightarrow> bool" where
  "dv_ratio_reached crd rows = (rows \<le> 20 * crd)"

record create_table_request =
  cr_name :: string
  cr_namespace :: string
  cr_schema :: schema
  cr_partition_cols :: "string list"
  cr_default_format :: string
  cr_ingest_config :: ingest_config

definition cr_schema_name :: "create_table_request \<Rightarrow> string" where
  "cr_schema_name r = (if cr_namespace r = [] then DEFAULT_SCHEMA else cr_namespace r)"

definition cr_qualified_name :: "create_table_request \<Rightarrow> string" where
  "cr_qualified_name r = qualified_name (cr_schema_name r) (cr_name r)"

record evolve_schema_request =
  ev_table :: string
  ev_change :: schema_change
  ev_expected_version :: nat

record evolve_schema_response =
  er_new_schema :: schema
  er_version :: nat

record commit_files_request =
  cf_table :: string
  cf_batch_id :: string
  cf_client_request_id :: "string option"
  cf_client_request_ids :: "string list"
  cf_shard :: string
  cf_time_window :: string
  cf_files :: "file_manifest list"
  cf_schema_version :: nat
  cf_row_count :: nat

record commit_files_response =
  cs_accepted :: bool
  cs_snapshot :: nat
  cs_commit_index :: nat

record catalog_version =
  cv_schema_ver :: nat
  cv_manifest_ver :: nat

record manifest_delta =
  md_changed_tables :: "string list"
  md_full_reload_required :: bool

record purge_outcome =
  po_snapshot :: nat
  po_files :: nat
  po_revoked :: nat
  po_rows :: nat

lemma visible_protected: "visible_at f s \<Longrightarrow> protects_at f s"
  by (simp add: visible_at_def)

lemma protects_antimono: "protects_at f s \<Longrightarrow> s' \<le> s \<Longrightarrow> protects_at f s'"
  by (auto simp: protects_at_def)

lemma dv_object_path_plain:
  "CHR ''/'' \<notin> set name \<Longrightarrow>
    dv_object_path (dir @ ''/'' @ name) dv_id = dir @ ''/dv/'' @ name @ ''/'' @ dv_id @ ''.bin''"
  using rsplit_once_append [of "CHR ''/''" name dir] by (simp add: dv_object_path_def)

end
