(* ===== verification/Catalog_State.thy ===== *)
theory Catalog_State
  imports Catalog_Types
begin

text \<open>
  The catalog state machine (\<open>crates/catalog/src/state.rs\<close>): its state, the counters every
  change advances, and the derived task directory. The other catalog theories define the operations
  over this state.

  The record has the fields of \<open>CatalogState\<close>; all maps are ordered maps. An operation of the
  source that takes \<open>&mut self\<close> takes the state last and returns its result with the new state.
\<close>

record catalog_state =
  tables :: "(string, table_meta) bmap"
  namespaces :: "string bset"
  schemas :: "(string \<times> nat, schema_version) bmap"
  files :: "(string, file_manifest) bmap"
  idempotency :: "(string, idempotency_record) bmap"
  snapshot_version :: nat
  last_applied :: nat
  datanodes :: "(string, datanode_member) bmap"
  leases :: "(string, lease_entry) bmap"
  in_flight :: "(string, nat) bmap"
  tasks :: "(string, compaction_task) bmap"
  deletions :: "(string \<times> string, deletion_entry) bmap"
  purged :: "(string, nat) bmap"
  schema_ver :: nat
  manifest_ver :: nat
  table_manifest_ver :: "(string, nat) bmap"

definition new_state :: catalog_state where
  "new_state = \<lparr>
     tables = bm_empty, namespaces = bm_insert DEFAULT_SCHEMA () bm_empty, schemas = bm_empty,
     files = bm_empty, idempotency = bm_empty, snapshot_version = 1, last_applied = 0,
     datanodes = bm_empty, leases = bm_empty, in_flight = bm_empty, tasks = bm_empty,
     deletions = bm_empty, purged = bm_empty, schema_ver = 0, manifest_ver = 0,
     table_manifest_ver = bm_empty\<rparr>"

subsection \<open>Counters\<close>

definition bump_schema_ver :: "catalog_state \<Rightarrow> catalog_state" where
  "bump_schema_ver st = st\<lparr>schema_ver := schema_ver st + 1\<rparr>"

definition bump_manifest_ver :: "string \<Rightarrow> catalog_state \<Rightarrow> catalog_state" where
  "bump_manifest_ver table st =
     (let v = manifest_ver st + 1 in
      st\<lparr>manifest_ver := v,
         table_manifest_ver := bm_insert (normalize_table table) v (table_manifest_ver st)\<rparr>)"

definition next_snapshot :: "catalog_state \<Rightarrow> nat \<times> catalog_state" where
  "next_snapshot st =
     (let v = snapshot_version st + 1 in (v, st\<lparr>snapshot_version := v\<rparr>))"

definition bump_applied :: "catalog_state \<Rightarrow> catalog_state" where
  "bump_applied st = st\<lparr>last_applied := last_applied st + 1\<rparr>"

definition current_snapshot :: "catalog_state \<Rightarrow> nat" where
  "current_snapshot st = snapshot_version st"

definition read_index :: "catalog_state \<Rightarrow> nat" where
  "read_index st = last_applied st"

definition version :: "catalog_state \<Rightarrow> catalog_version" where
  "version st = \<lparr>cv_schema_ver = schema_ver st, cv_manifest_ver = manifest_ver st\<rparr>"

definition manifest_delta_since :: "nat \<Rightarrow> catalog_state \<Rightarrow> manifest_delta" where
  "manifest_delta_since since st =
     (if since \<ge> manifest_ver st
      then \<lparr>md_changed_tables = [], md_full_reload_required = False\<rparr>
      else \<lparr>md_changed_tables = bm_keys (bm_filter (\<lambda>_ v. v > since) (table_manifest_ver st)),
            md_full_reload_required = False\<rparr>)"

subsection \<open>The task directory\<close>

text \<open>
  \<open>shard_files\<close>, \<open>file_deleted_card\<close>, \<open>shard_deleted_rows\<close> and \<open>shard_dv_hit\<close> are the loops of
  \<open>refresh_task\<close>; \<open>task_of_shard\<close> is its verdict on one shard. \<open>from_snapshot_msg\<close> repeats the same
  computation, so both are defined over the maps they read.
\<close>

definition shard_files :: "(string, file_manifest) bmap \<Rightarrow> nat \<Rightarrow> string \<Rightarrow> string \<Rightarrow> file_manifest list" where
  "shard_files fs snap table shard =
     filter (\<lambda>f. fm_table f = table \<and> fm_shard f = shard \<and> protects_at f snap) (bm_values fs)"

definition file_deleted_card :: "(string \<times> string, deletion_entry) bmap \<Rightarrow> nat \<Rightarrow> file_manifest \<Rightarrow> nat" where
  "file_deleted_card ds snap f =
     fold (\<lambda>d card. if de_file_path d = fm_file_path f \<and> active_at d snap
                    then sat_add card (de_card d) else card) (bm_values ds) 0"

definition shard_deleted_rows ::
  "(string \<times> string, deletion_entry) bmap \<Rightarrow> nat \<Rightarrow> file_manifest list \<Rightarrow> nat" where
  "shard_deleted_rows ds snap fs =
     fold (\<lambda>f total. sat_add total (file_deleted_card ds snap f)) fs 0"

definition shard_dv_hit ::
  "(string \<times> string, deletion_entry) bmap \<Rightarrow> nat \<Rightarrow> file_manifest list \<Rightarrow> bool" where
  "shard_dv_hit ds snap fs =
     list_ex (\<lambda>f. let card = file_deleted_card ds snap f in
                  fm_row_count f > 0 \<and> card \<ge> THRESHOLD_DV_MIN_CARD \<and>
                  dv_ratio_reached card (fm_row_count f)) fs"

definition shard_reason ::
  "(string, file_manifest) bmap \<Rightarrow> (string \<times> string, deletion_entry) bmap \<Rightarrow> nat \<Rightarrow>
    string \<Rightarrow> string \<Rightarrow> task_reason option" where
  "shard_reason fs ds snap table shard =
     (let fl = shard_files fs snap table shard in
      if length fl \<ge> THRESHOLD_FILES then Some TaskFiles
      else if shard_dv_hit ds snap fl then Some TaskDeletions
      else None)"

definition task_of_shard ::
  "(string, file_manifest) bmap \<Rightarrow> (string \<times> string, deletion_entry) bmap \<Rightarrow> nat \<Rightarrow>
    string \<Rightarrow> string \<Rightarrow> nat \<Rightarrow> compaction_task option" where
  "task_of_shard fs ds snap table shard since =
     map_option (\<lambda>r. \<lparr>ct_table = table, ct_shard = shard,
          ct_files = length (shard_files fs snap table shard),
          ct_deleted_rows = shard_deleted_rows ds snap (shard_files fs snap table shard),
          ct_reason = reason_as_u32 r, ct_since_ms = since\<rparr>)
       (shard_reason fs ds snap table shard)"

definition task_since :: "compaction_task option \<Rightarrow> nat \<Rightarrow> nat" where
  "task_since old now_ms =
     (case old of
        Some t \<Rightarrow> if ct_since_ms t \<noteq> 0 then ct_since_ms t else now_ms
      | None \<Rightarrow> now_ms)"

definition refresh_task :: "string \<Rightarrow> string \<Rightarrow> nat \<Rightarrow> catalog_state \<Rightarrow> catalog_state" where
  "refresh_task table shard now_ms st =
     (let key = task_id \<lparr>tk_table = table, tk_shard = shard\<rparr>;
          since = task_since (bm_get (tasks st) key) now_ms in
      case task_of_shard (files st) (deletions st) (snapshot_version st) table shard since of
        Some t \<Rightarrow> st\<lparr>tasks := bm_insert key t (tasks st)\<rparr>
      | None \<Rightarrow> st\<lparr>tasks := bm_remove key (tasks st)\<rparr>)"

definition refresh_task_for_file :: "string \<Rightarrow> nat \<Rightarrow> catalog_state \<Rightarrow> catalog_state" where
  "refresh_task_for_file file_path now_ms st =
     (case find (\<lambda>f. fm_file_path f = file_path) (bm_values (files st)) of
        Some f \<Rightarrow> refresh_task (fm_table f) (fm_shard f) now_ms st
      | None \<Rightarrow> st)"

subsection \<open>What the helpers change\<close>

text \<open>The loops \<open>for shard in touched\<close> and \<open>for p in task_paths\<close> that end the handlers.\<close>

definition refresh_shards :: "string \<Rightarrow> string list \<Rightarrow> nat \<Rightarrow> catalog_state \<Rightarrow> catalog_state" where
  "refresh_shards table shards now_ms st = fold (\<lambda>s. refresh_task table s now_ms) shards st"

definition refresh_paths :: "string list \<Rightarrow> nat \<Rightarrow> catalog_state \<Rightarrow> catalog_state" where
  "refresh_paths paths now_ms st = fold (\<lambda>p. refresh_task_for_file p now_ms) paths st"

lemma fold_frame: "(\<And>x s. g (f x s) = g s) \<Longrightarrow> g (fold f xs s) = g s"
  by (induction xs arbitrary: s) auto

lemma bump_schema_ver_fields [cat_simps]:
  "tables (bump_schema_ver st) = tables st"
  "namespaces (bump_schema_ver st) = namespaces st"
  "schemas (bump_schema_ver st) = schemas st"
  "files (bump_schema_ver st) = files st"
  "idempotency (bump_schema_ver st) = idempotency st"
  "snapshot_version (bump_schema_ver st) = snapshot_version st"
  "last_applied (bump_schema_ver st) = last_applied st"
  "datanodes (bump_schema_ver st) = datanodes st"
  "leases (bump_schema_ver st) = leases st"
  "in_flight (bump_schema_ver st) = in_flight st"
  "tasks (bump_schema_ver st) = tasks st"
  "deletions (bump_schema_ver st) = deletions st"
  "purged (bump_schema_ver st) = purged st"
  "schema_ver (bump_schema_ver st) = schema_ver st + 1"
  "manifest_ver (bump_schema_ver st) = manifest_ver st"
  "table_manifest_ver (bump_schema_ver st) = table_manifest_ver st"
  by (simp_all add: bump_schema_ver_def)

lemma bump_manifest_ver_fields [cat_simps]:
  "tables (bump_manifest_ver t st) = tables st"
  "namespaces (bump_manifest_ver t st) = namespaces st"
  "schemas (bump_manifest_ver t st) = schemas st"
  "files (bump_manifest_ver t st) = files st"
  "idempotency (bump_manifest_ver t st) = idempotency st"
  "snapshot_version (bump_manifest_ver t st) = snapshot_version st"
  "last_applied (bump_manifest_ver t st) = last_applied st"
  "datanodes (bump_manifest_ver t st) = datanodes st"
  "leases (bump_manifest_ver t st) = leases st"
  "in_flight (bump_manifest_ver t st) = in_flight st"
  "tasks (bump_manifest_ver t st) = tasks st"
  "deletions (bump_manifest_ver t st) = deletions st"
  "purged (bump_manifest_ver t st) = purged st"
  "schema_ver (bump_manifest_ver t st) = schema_ver st"
  "manifest_ver (bump_manifest_ver t st) = manifest_ver st + 1"
  "table_manifest_ver (bump_manifest_ver t st) = bm_insert (normalize_table t) (manifest_ver st + 1) (table_manifest_ver st)"
  by (simp_all add: bump_manifest_ver_def Let_def)

lemma bump_applied_fields [cat_simps]:
  "tables (bump_applied st) = tables st"
  "namespaces (bump_applied st) = namespaces st"
  "schemas (bump_applied st) = schemas st"
  "files (bump_applied st) = files st"
  "idempotency (bump_applied st) = idempotency st"
  "snapshot_version (bump_applied st) = snapshot_version st"
  "last_applied (bump_applied st) = last_applied st + 1"
  "datanodes (bump_applied st) = datanodes st"
  "leases (bump_applied st) = leases st"
  "in_flight (bump_applied st) = in_flight st"
  "tasks (bump_applied st) = tasks st"
  "deletions (bump_applied st) = deletions st"
  "purged (bump_applied st) = purged st"
  "schema_ver (bump_applied st) = schema_ver st"
  "manifest_ver (bump_applied st) = manifest_ver st"
  "table_manifest_ver (bump_applied st) = table_manifest_ver st"
  by (simp_all add: bump_applied_def)

lemma next_snapshot_fields [cat_simps]:
  "tables (snd (next_snapshot st)) = tables st"
  "namespaces (snd (next_snapshot st)) = namespaces st"
  "schemas (snd (next_snapshot st)) = schemas st"
  "files (snd (next_snapshot st)) = files st"
  "idempotency (snd (next_snapshot st)) = idempotency st"
  "snapshot_version (snd (next_snapshot st)) = snapshot_version st + 1"
  "last_applied (snd (next_snapshot st)) = last_applied st"
  "datanodes (snd (next_snapshot st)) = datanodes st"
  "leases (snd (next_snapshot st)) = leases st"
  "in_flight (snd (next_snapshot st)) = in_flight st"
  "tasks (snd (next_snapshot st)) = tasks st"
  "deletions (snd (next_snapshot st)) = deletions st"
  "purged (snd (next_snapshot st)) = purged st"
  "schema_ver (snd (next_snapshot st)) = schema_ver st"
  "manifest_ver (snd (next_snapshot st)) = manifest_ver st"
  "table_manifest_ver (snd (next_snapshot st)) = table_manifest_ver st"
  "fst (next_snapshot st) = snapshot_version st + 1"
  by (simp_all add: next_snapshot_def Let_def)

lemma refresh_task_fields [cat_simps]:
  "tables (refresh_task t sh n st) = tables st"
  "namespaces (refresh_task t sh n st) = namespaces st"
  "schemas (refresh_task t sh n st) = schemas st"
  "files (refresh_task t sh n st) = files st"
  "idempotency (refresh_task t sh n st) = idempotency st"
  "snapshot_version (refresh_task t sh n st) = snapshot_version st"
  "last_applied (refresh_task t sh n st) = last_applied st"
  "datanodes (refresh_task t sh n st) = datanodes st"
  "leases (refresh_task t sh n st) = leases st"
  "in_flight (refresh_task t sh n st) = in_flight st"
  "deletions (refresh_task t sh n st) = deletions st"
  "purged (refresh_task t sh n st) = purged st"
  "schema_ver (refresh_task t sh n st) = schema_ver st"
  "manifest_ver (refresh_task t sh n st) = manifest_ver st"
  "table_manifest_ver (refresh_task t sh n st) = table_manifest_ver st"
  by (simp_all add: refresh_task_def Let_def split: option.split)

lemma refresh_task_for_file_fields [cat_simps]:
  "tables (refresh_task_for_file p n st) = tables st"
  "namespaces (refresh_task_for_file p n st) = namespaces st"
  "schemas (refresh_task_for_file p n st) = schemas st"
  "files (refresh_task_for_file p n st) = files st"
  "idempotency (refresh_task_for_file p n st) = idempotency st"
  "snapshot_version (refresh_task_for_file p n st) = snapshot_version st"
  "last_applied (refresh_task_for_file p n st) = last_applied st"
  "datanodes (refresh_task_for_file p n st) = datanodes st"
  "leases (refresh_task_for_file p n st) = leases st"
  "in_flight (refresh_task_for_file p n st) = in_flight st"
  "deletions (refresh_task_for_file p n st) = deletions st"
  "purged (refresh_task_for_file p n st) = purged st"
  "schema_ver (refresh_task_for_file p n st) = schema_ver st"
  "manifest_ver (refresh_task_for_file p n st) = manifest_ver st"
  "table_manifest_ver (refresh_task_for_file p n st) = table_manifest_ver st"
  by (simp_all add: refresh_task_for_file_def cat_simps split: option.split)

lemma refresh_shards_fields [cat_simps]:
  "tables (refresh_shards t shs n st) = tables st"
  "namespaces (refresh_shards t shs n st) = namespaces st"
  "schemas (refresh_shards t shs n st) = schemas st"
  "files (refresh_shards t shs n st) = files st"
  "idempotency (refresh_shards t shs n st) = idempotency st"
  "snapshot_version (refresh_shards t shs n st) = snapshot_version st"
  "last_applied (refresh_shards t shs n st) = last_applied st"
  "datanodes (refresh_shards t shs n st) = datanodes st"
  "leases (refresh_shards t shs n st) = leases st"
  "in_flight (refresh_shards t shs n st) = in_flight st"
  "deletions (refresh_shards t shs n st) = deletions st"
  "purged (refresh_shards t shs n st) = purged st"
  "schema_ver (refresh_shards t shs n st) = schema_ver st"
  "manifest_ver (refresh_shards t shs n st) = manifest_ver st"
  "table_manifest_ver (refresh_shards t shs n st) = table_manifest_ver st"
  unfolding refresh_shards_def by (rule fold_frame, rule refresh_task_fields)+

lemma refresh_paths_fields [cat_simps]:
  "tables (refresh_paths ps n st) = tables st"
  "namespaces (refresh_paths ps n st) = namespaces st"
  "schemas (refresh_paths ps n st) = schemas st"
  "files (refresh_paths ps n st) = files st"
  "idempotency (refresh_paths ps n st) = idempotency st"
  "snapshot_version (refresh_paths ps n st) = snapshot_version st"
  "last_applied (refresh_paths ps n st) = last_applied st"
  "datanodes (refresh_paths ps n st) = datanodes st"
  "leases (refresh_paths ps n st) = leases st"
  "in_flight (refresh_paths ps n st) = in_flight st"
  "deletions (refresh_paths ps n st) = deletions st"
  "purged (refresh_paths ps n st) = purged st"
  "schema_ver (refresh_paths ps n st) = schema_ver st"
  "manifest_ver (refresh_paths ps n st) = manifest_ver st"
  "table_manifest_ver (refresh_paths ps n st) = table_manifest_ver st"
  unfolding refresh_paths_def by (rule fold_frame, rule refresh_task_for_file_fields)+

instantiation task_key_ext :: (linorder) linorder
begin

definition less_eq_task_key_ext :: "'a task_key_scheme \<Rightarrow> 'a task_key_scheme \<Rightarrow> bool" where
  "less_eq_task_key_ext a b \<longleftrightarrow>
     (tk_table a, tk_shard a, task_key.more a) \<le> (tk_table b, tk_shard b, task_key.more b)"

definition less_task_key_ext :: "'a task_key_scheme \<Rightarrow> 'a task_key_scheme \<Rightarrow> bool" where
  "less_task_key_ext a b \<longleftrightarrow>
     (tk_table a, tk_shard a, task_key.more a) < (tk_table b, tk_shard b, task_key.more b)"

instance
  by standard
     (auto simp: less_eq_task_key_ext_def less_task_key_ext_def intro: task_key.equality)

end

definition list_tasks :: "catalog_state \<Rightarrow> compaction_task list" where
  "list_tasks st = sort_key ct_key (bm_values (tasks st))"

end
