(* ===== verification/Catalog_Lease.thy ===== *)
theory Catalog_Lease
  imports Catalog_State
begin

text \<open>
  Leases: \<open>acquire_lease\<close>, \<open>renew_lease\<close> and \<open>release_lease\<close> of \<open>crates/catalog/src/state.rs\<close>, and the
  all-or-nothing set of leases of \<open>crates/catalog/src/lease.rs\<close>. The set is a client of the catalog
  trait object, so it is defined over the operations it calls; the locale \<open>lease_arbiter\<close> states
  what it needs of them and its interpretation discharges that for the catalog.

  An entry with the empty holder is a released lease whose epoch is kept as a water mark.
\<close>

definition acquire_lease ::
  "string \<Rightarrow> string \<Rightarrow> nat \<Rightarrow> nat \<Rightarrow> catalog_state \<Rightarrow> lease_grant \<times> catalog_state" where
  "acquire_lease purpose holder now_ms ttl_ms st =
     (let put = (\<lambda>epoch granted_at expires.
        (\<lparr>lg_granted = True, lg_epoch = epoch, lg_expires_at_ms = expires\<rparr>,
         st\<lparr>leases := bm_insert purpose
              \<lparr>le_purpose = purpose, le_holder = holder, le_epoch = epoch,
                le_granted_at_ms = granted_at, le_expires_at_ms = expires\<rparr> (leases st)\<rparr>))
      in case bm_get (leases st) purpose of
           Some cur \<Rightarrow>
             if le_holder cur \<noteq> holder \<and> now_ms < le_expires_at_ms cur
             then (\<lparr>lg_granted = False, lg_epoch = le_epoch cur,
                     lg_expires_at_ms = le_expires_at_ms cur\<rparr>, st)
             else if le_holder cur = holder
             then put (le_epoch cur) (le_granted_at_ms cur) (sat_add now_ms ttl_ms)
             else put (le_epoch cur + 1) now_ms (sat_add now_ms ttl_ms)
         | None \<Rightarrow> put (0 + 1) now_ms (sat_add now_ms ttl_ms))"

definition renew_lease ::
  "string \<Rightarrow> string \<Rightarrow> nat \<Rightarrow> nat \<Rightarrow> nat \<Rightarrow> catalog_state \<Rightarrow> bool \<times> catalog_state" where
  "renew_lease purpose holder epoch now_ms ttl_ms st =
     (case bm_get (leases st) purpose of
        None \<Rightarrow> (False, st)
      | Some cur \<Rightarrow>
          if le_holder cur \<noteq> holder \<or> le_epoch cur \<noteq> epoch \<or> now_ms \<ge> le_expires_at_ms cur
          then (False, st)
          else (True, st\<lparr>leases := bm_insert purpose
                  (cur\<lparr>le_expires_at_ms := sat_add now_ms ttl_ms\<rparr>) (leases st)\<rparr>))"

definition release_lease :: "string \<Rightarrow> string \<Rightarrow> nat \<Rightarrow> catalog_state \<Rightarrow> bool \<times> catalog_state" where
  "release_lease purpose holder epoch st =
     (case bm_get (leases st) purpose of
        Some cur \<Rightarrow>
          if le_holder cur = holder \<and> le_epoch cur = epoch
          then (True, st\<lparr>leases := bm_insert purpose
                  (cur\<lparr>le_holder := [], le_expires_at_ms := 0\<rparr>) (leases st)\<rparr>)
          else (False, st)
      | None \<Rightarrow> (False, st))"

subsection \<open>What the operations do to an entry\<close>

definition lease_epoch :: "catalog_state \<Rightarrow> string \<Rightarrow> nat" where
  "lease_epoch st p = (case bm_get (leases st) p of None \<Rightarrow> 0 | Some l \<Rightarrow> le_epoch l)"

definition lease_owner :: "catalog_state \<Rightarrow> string \<Rightarrow> (string \<times> nat) option" where
  "lease_owner st p =
     (case bm_get (leases st) p of
        None \<Rightarrow> None
      | Some l \<Rightarrow> if le_holder l = [] then None else Some (le_holder l, le_epoch l))"

lemma acquire_frame:
  "p' \<noteq> p \<Longrightarrow> bm_get (leases (snd (acquire_lease p h now ttl st))) p' = bm_get (leases st) p'"
  by (auto simp: acquire_lease_def Let_def bm_simps split: option.splits)

lemma renew_frame:
  "p' \<noteq> p \<Longrightarrow> bm_get (leases (snd (renew_lease p h e now ttl st))) p' = bm_get (leases st) p'"
  by (auto simp: renew_lease_def bm_simps split: option.splits)

lemma release_frame:
  "p' \<noteq> p \<Longrightarrow> bm_get (leases (snd (release_lease p h e st))) p' = bm_get (leases st) p'"
  by (auto simp: release_lease_def bm_simps split: option.splits)

lemma acquire_granted_entry:
  assumes "lg_granted (fst (acquire_lease p h now ttl st))"
  shows "\<exists>l. bm_get (leases (snd (acquire_lease p h now ttl st))) p = Some l \<and> le_holder l = h \<and>
    le_epoch l = lg_epoch (fst (acquire_lease p h now ttl st)) \<and>
    le_expires_at_ms l = sat_add now ttl"
  using assms by (auto simp: acquire_lease_def Let_def bm_simps split: option.splits if_splits)

lemma acquire_refused_state:
  "\<not> lg_granted (fst (acquire_lease p h now ttl st)) \<Longrightarrow> snd (acquire_lease p h now ttl st) = st"
  by (auto simp: acquire_lease_def Let_def split: option.splits if_splits)

lemmas lease_op_defs = acquire_lease_def renew_lease_def release_lease_def Let_def

subsection \<open>Runs of lease operations\<close>

datatype lease_op =
    AcquireLease string string nat nat
  | RenewLease string string nat nat nat
  | ReleaseLease string string nat

fun lease_step :: "catalog_state \<Rightarrow> lease_op \<Rightarrow> catalog_state" where
  "lease_step st (AcquireLease p h now ttl) = snd (acquire_lease p h now ttl st)"
| "lease_step st (RenewLease p h e now ttl) = snd (renew_lease p h e now ttl st)"
| "lease_step st (ReleaseLease p h e) = snd (release_lease p h e st)"

fun op_holder :: "lease_op \<Rightarrow> string" where
  "op_holder (AcquireLease _ h _ _) = h"
| "op_holder (RenewLease _ h _ _ _) = h"
| "op_holder (ReleaseLease _ h _) = h"

definition lease_run :: "catalog_state \<Rightarrow> lease_op list \<Rightarrow> catalog_state" where
  "lease_run = foldl lease_step"

text \<open>
  \<open>lease_evolves\<close> relates the entry of a purpose before and after: the epoch never falls, and while it
  stays the same the holder is the same or the lease has been released.
\<close>

definition lease_evolves :: "lease_entry option \<Rightarrow> lease_entry option \<Rightarrow> bool" where
  "lease_evolves a b =
     (case a of
        None \<Rightarrow> (case b of None \<Rightarrow> True | Some l \<Rightarrow> le_epoch l \<ge> 1)
      | Some l \<Rightarrow>
          (case b of
             None \<Rightarrow> False
           | Some l' \<Rightarrow> le_epoch l < le_epoch l' \<or>
               (le_epoch l = le_epoch l' \<and> (le_holder l' = le_holder l \<or> le_holder l' = []))))"

lemma lease_evolves_refl [simp]: "lease_evolves a a"
  by (auto simp: lease_evolves_def split: option.splits)

lemma lease_evolves_trans: "lease_evolves a b \<Longrightarrow> lease_evolves b c \<Longrightarrow> lease_evolves a c"
  by (auto simp: lease_evolves_def split: option.splits)

lemma lease_step_evolves:
  "op_holder x \<noteq> [] \<Longrightarrow> lease_evolves (bm_get (leases st) p) (bm_get (leases (lease_step st x)) p)"
  by (cases x) (auto simp: lease_op_defs lease_evolves_def bm_simps split: option.splits)

lemma lease_run_evolves:
  "\<forall>x \<in> set ops. op_holder x \<noteq> [] \<Longrightarrow>
    lease_evolves (bm_get (leases st) p) (bm_get (leases (lease_run st ops)) p)"
proof (induction ops arbitrary: st)
  case (Cons x ops)
  then show ?case
    by (auto simp: lease_run_def intro: lease_evolves_trans [OF lease_step_evolves])
qed (simp add: lease_run_def)

text \<open>C22: An epoch identifies its holder. Along any run of acquire, renew and release operations by
  named holders, the epoch of a purpose never decreases, and if the same epoch is owned at an
  earlier and at a later moment then it is owned by the same holder: a takeover or a new grant after
  a release always carries a strictly larger epoch.\<close>

theorem lease_epoch_identifies_holder:
  assumes "\<forall>x \<in> set ops. op_holder x \<noteq> []"
  shows "lease_epoch st p \<le> lease_epoch (lease_run st ops) p \<and>
    (\<forall>h h' e. lease_owner st p = Some (h, e) \<and> lease_owner (lease_run st ops) p = Some (h', e) \<longrightarrow>
       h' = h)"
  using lease_run_evolves [OF assms, of st p]
  by (auto simp: lease_evolves_def lease_epoch_def lease_owner_def split: option.splits if_splits)

theorem lease_epoch_identifies_holder_witness:
  "lease_epoch new_state ''gc'' \<le>
     lease_epoch (lease_run new_state
       [AcquireLease ''gc'' ''a'' 0 30, ReleaseLease ''gc'' ''a'' 1, AcquireLease ''gc'' ''b'' 5 30]) ''gc''"
proof -
  have "\<forall>x \<in> set [AcquireLease ''gc'' ''a'' 0 30, ReleaseLease ''gc'' ''a'' 1,
    AcquireLease ''gc'' ''b'' 5 30]. op_holder x \<noteq> []" by simp
  from lease_epoch_identifies_holder [OF this, of new_state "''gc''"] show ?thesis by blast
qed

text \<open>Mutual exclusion. Whoever owns an unexpired lease keeps out every other holder: while
  \<open>now < expires\<close>, an acquisition by another holder is refused and changes nothing, and a renewal or
  release by anyone but the owner with the current epoch changes nothing.\<close>

theorem lease_mutual_exclusion:
  assumes "bm_get (leases st) p = Some l" and "now < le_expires_at_ms l" and "h \<noteq> le_holder l"
  shows "\<not> lg_granted (fst (acquire_lease p h now ttl st)) \<and>
    snd (acquire_lease p h now ttl st) = st \<and>
    renew_lease p h e now' ttl st = (False, st) \<and> release_lease p h e st = (False, st)"
  using assms by (simp add: lease_op_defs)

theorem lease_mutual_exclusion_witness:
  "\<not> lg_granted (fst (acquire_lease ''gc'' ''b'' 10 30 (snd (acquire_lease ''gc'' ''a'' 0 30 new_state))))"
proof -
  have "bm_get (leases (snd (acquire_lease ''gc'' ''a'' 0 30 new_state))) ''gc'' =
    Some \<lparr>le_purpose = ''gc'', le_holder = ''a'', le_epoch = 1, le_granted_at_ms = 0,
      le_expires_at_ms = 30\<rparr>"
    by (simp add: acquire_lease_def new_state_def bm_simps sat_add_def u64_max_def)
  from lease_mutual_exclusion [OF this, of 10 "''b''" 30] show ?thesis by simp
qed

subsection \<open>A set of leases\<close>

text \<open>
  \<open>LeaseSet::acquire\<close>. The two functional arguments are the operations of the trait object; each
  returns a \<open>Result\<close>. A refused lease rolls back what was taken, in reverse order; an error of the
  catalog itself is returned by the \<open>?\<close> operator without a rollback.
\<close>

datatype 'p lease_set_error = SetRefused 'p nat | SetFailed lake_error

fun release_held ::
  "('p \<Rightarrow> 'h \<Rightarrow> nat \<Rightarrow> 's \<Rightarrow> 'r \<times> 's) \<Rightarrow> 'h \<Rightarrow> ('p \<times> nat) list \<Rightarrow> 's \<Rightarrow> 's" where
  "release_held rel h [] s = s"
| "release_held rel h ((p, e) # held) s = release_held rel h held (snd (rel p h e s))"

fun take_leases ::
  "('p \<Rightarrow> 'h \<Rightarrow> nat \<Rightarrow> nat \<Rightarrow> 's \<Rightarrow> (lake_error + lease_grant) \<times> 's) \<Rightarrow>
   ('p \<Rightarrow> 'h \<Rightarrow> nat \<Rightarrow> 's \<Rightarrow> 'r \<times> 's) \<Rightarrow>
   'h \<Rightarrow> nat \<Rightarrow> nat \<Rightarrow> 'p list \<Rightarrow> ('p \<times> nat) list \<Rightarrow> 's \<Rightarrow>
   ('p lease_set_error + ('p \<times> nat) list) \<times> 's" where
  "take_leases acq rel h now ttl [] held s = (Inr held, s)"
| "take_leases acq rel h now ttl (p # ps) held s =
     (let (r, s1) = acq p h now ttl s in
      case r of
        Inl e \<Rightarrow> (Inl (SetFailed e), s1)
      | Inr g \<Rightarrow>
          if \<not> lg_granted g
          then (Inl (SetRefused p (lg_epoch g)), release_held rel h (rev held) s1)
          else take_leases acq rel h now ttl ps (held @ [(p, lg_epoch g)]) s1)"

definition lease_set_purposes :: "string \<Rightarrow> string list \<Rightarrow> string list" where
  "lease_set_purposes table shards =
     remdups_adj (sort (map (dml_shard_lease_purpose table) shards))"

definition lease_set_acquire ::
  "(string \<Rightarrow> string \<Rightarrow> nat \<Rightarrow> nat \<Rightarrow> 's \<Rightarrow> (lake_error + lease_grant) \<times> 's) \<Rightarrow>
   (string \<Rightarrow> string \<Rightarrow> nat \<Rightarrow> 's \<Rightarrow> 'r \<times> 's) \<Rightarrow>
   string \<Rightarrow> string list \<Rightarrow> string \<Rightarrow> nat \<Rightarrow> nat \<Rightarrow> 's \<Rightarrow>
   (string lease_set_error + (string \<times> nat) list) \<times> 's" where
  "lease_set_acquire acq rel table shards holder ttl_ms now_ms s =
     take_leases acq rel holder now_ms ttl_ms (lease_set_purposes table shards) [] s"

definition lease_set_release ::
  "(string \<Rightarrow> string \<Rightarrow> nat \<Rightarrow> 's \<Rightarrow> 'r \<times> 's) \<Rightarrow> string \<Rightarrow> (string \<times> nat) list \<Rightarrow> 's \<Rightarrow> 's" where
  "lease_set_release rel holder held s = release_held rel holder (rev held) s"

text \<open>The in-process catalog (\<open>MemoryCatalog\<close>) never fails these two calls.\<close>

definition mem_acquire_lease ::
  "string \<Rightarrow> string \<Rightarrow> nat \<Rightarrow> nat \<Rightarrow> catalog_state \<Rightarrow> (lake_error + lease_grant) \<times> catalog_state" where
  "mem_acquire_lease p h now ttl st =
     (let r = acquire_lease p h now ttl st in (Inr (fst r), snd r))"

definition mem_release_lease ::
  "string \<Rightarrow> string \<Rightarrow> nat \<Rightarrow> catalog_state \<Rightarrow> (lake_error + unit) \<times> catalog_state" where
  "mem_release_lease p h e st = (Inr (), snd (release_lease p h e st))"

locale lease_arbiter =
  fixes acq :: "'p \<Rightarrow> 'h \<Rightarrow> nat \<Rightarrow> nat \<Rightarrow> 's \<Rightarrow> (lake_error + lease_grant) \<times> 's"
    and rel :: "'p \<Rightarrow> 'h \<Rightarrow> nat \<Rightarrow> 's \<Rightarrow> 'r \<times> 's"
    and owner :: "'s \<Rightarrow> 'p \<Rightarrow> ('h \<times> nat) option"
    and named :: "'h \<Rightarrow> bool"
  assumes acq_granted: "named h \<Longrightarrow> acq p h now ttl s = (Inr g, s') \<Longrightarrow> lg_granted g \<Longrightarrow>
      owner s' p = Some (h, lg_epoch g)"
    and acq_frame: "q \<noteq> p \<Longrightarrow> owner (snd (acq p h now ttl s)) q = owner s q"
    and acq_refused: "acq p h now ttl s = (Inr g, s') \<Longrightarrow> \<not> lg_granted g \<Longrightarrow> s' = s"
    and rel_owner: "owner s p = Some (h, e) \<Longrightarrow> owner (snd (rel p h e s)) p = None"
    and rel_frame: "q \<noteq> p \<Longrightarrow> owner (snd (rel p h e s)) q = owner s q"
begin

definition holds_all :: "'h \<Rightarrow> ('p \<times> nat) list \<Rightarrow> 's \<Rightarrow> bool" where
  "holds_all h held s \<longleftrightarrow> (\<forall>x \<in> set held. owner s (fst x) = Some (h, snd x))"

lemma release_held_frame: "q \<notin> fst ` set held \<Longrightarrow> owner (release_held rel h held s) q = owner s q"
proof (induction held arbitrary: s)
  case (Cons a held)
  obtain p e where "a = (p, e)" by (cases a)
  with Cons rel_frame [of q p h e s] show ?case by simp
qed simp

lemma release_held_owner:
  "distinct (map fst held) \<Longrightarrow> holds_all h held s \<Longrightarrow>
    \<forall>p \<in> fst ` set held. owner (release_held rel h held s) p = None"
proof (induction held arbitrary: s)
  case (Cons a held)
  obtain p e where a: "a = (p, e)" by (cases a)
  have "owner (snd (rel p h e s)) q = owner s q" if "q \<in> fst ` set held" for q
    using Cons.prems(1) a that by (intro rel_frame) auto
  then have "holds_all h held (snd (rel p h e s))"
    using Cons.prems(2) by (auto simp: holds_all_def)
  moreover have "owner (snd (rel p h e s)) p = None"
    using Cons.prems(2) a by (auto simp: holds_all_def intro: rel_owner)
  ultimately show ?case
    using Cons.IH [of "snd (rel p h e s)"] Cons.prems(1) a by (auto simp: release_held_frame)
qed simp

lemma release_held_rev:
  assumes "distinct (map fst held)" "holds_all h held s"
  shows "(\<forall>p \<in> fst ` set held. owner (release_held rel h (rev held) s) p = None) \<and>
    (\<forall>q. q \<notin> fst ` set held \<longrightarrow> owner (release_held rel h (rev held) s) q = owner s q)"
  using release_held_owner [of "rev held" h s] release_held_frame [of _ "rev held" h s] assms
  by (simp add: holds_all_def rev_map [symmetric])

lemma acq_step:
  assumes "named h" "acq p h now ttl s = (Inr g, s1)" "lg_granted g"
    and "holds_all h held s" "p \<notin> fst ` set held"
  shows "holds_all h (held @ [(p, lg_epoch g)]) s1 \<and> (\<forall>q. q \<noteq> p \<longrightarrow> owner s1 q = owner s q)"
proof -
  have fr: "owner s1 q = owner s q" if "q \<noteq> p" for q
    using acq_frame [OF that, of h now ttl s] assms(2) by simp
  have "owner s1 (fst x) = Some (h, snd x)" if "x \<in> set held" for x
    using that assms(4,5) fr [of "fst x"] by (force simp: holds_all_def)
  then show ?thesis
    using fr acq_granted [OF assms(1,2,3)] by (simp add: holds_all_def)
qed

lemma take_leases_success:
  assumes "named h" "distinct (map fst held @ ps)" "holds_all h held s"
    and "take_leases acq rel h now ttl ps held s = (Inr all, s')"
  shows "map fst all = map fst held @ ps \<and> holds_all h all s'"
  using assms(2-4)
proof (induction ps arbitrary: held s)
  case (Cons p ps)
  obtain r s1 where acq: "acq p h now ttl s = (r, s1)" by fastforce
  with Cons.prems(3) obtain g where g: "r = Inr g" "lg_granted g"
    by (auto split: sum.splits if_splits)
  have "holds_all h (held @ [(p, lg_epoch g)]) s1"
    using acq_step [OF assms(1) _ g(2) Cons.prems(2)] acq g(1) Cons.prems(1) by auto
  with Cons.IH [of "held @ [(p, lg_epoch g)]" s1] Cons.prems acq g show ?case by simp
qed simp

lemma take_leases_refused:
  assumes "named h" "distinct (map fst held @ ps)" "holds_all h held s"
    and "take_leases acq rel h now ttl ps held s = (Inl (SetRefused p' e'), s')"
  shows "(\<forall>q. owner s' q = owner s q \<or> owner s' q = None) \<and>
    (\<forall>p \<in> fst ` set held. owner s' p = None) \<and> p' \<in> set ps"
  using assms(2-4)
proof (induction ps arbitrary: held s)
  case (Cons p ps)
  obtain r s1 where acq: "acq p h now ttl s = (r, s1)" by fastforce
  with Cons.prems(3) obtain g where g: "r = Inr g" by (cases r) auto
  show ?case
  proof (cases "lg_granted g")
    case True
    let ?held = "held @ [(p, lg_epoch g)]"
    have st: "holds_all h ?held s1" "\<forall>q. q \<noteq> p \<longrightarrow> owner s1 q = owner s q"
      using acq_step [OF assms(1) _ True Cons.prems(2)] acq g Cons.prems(1) by auto
    have "(\<forall>q. owner s' q = owner s1 q \<or> owner s' q = None) \<and>
        (\<forall>p \<in> fst ` set ?held. owner s' p = None) \<and> p' \<in> set ps"
      using Cons.IH [of ?held s1] Cons.prems st(1) acq g True by simp
    then have A: "\<And>q. owner s' q = owner s1 q \<or> owner s' q = None"
      and B: "owner s' p = None" "\<And>q. q \<in> fst ` set held \<Longrightarrow> owner s' q = None" "p' \<in> set ps"
      by auto
    have "owner s' q = owner s q \<or> owner s' q = None" for q
      using A [of q] B(1) st(2) by (cases "q = p") auto
    with B show ?thesis by simp
  next
    case False
    with acq g have "s1 = s" using acq_refused by blast
    let ?s = "release_held rel h (rev held) s"
    have rr: "\<forall>p \<in> fst ` set held. owner ?s p = None"
      "\<forall>q. q \<notin> fst ` set held \<longrightarrow> owner ?s q = owner s q"
      using release_held_rev [of held h s] Cons.prems(1,2) by auto
    have "owner ?s q = owner s q \<or> owner ?s q = None" for q :: 'p
    proof (cases "q \<in> fst ` set held")
      case True
      with rr(1) show ?thesis by (rule bspec [THEN disjI2])
    next
      case False
      with rr(2) show ?thesis by blast
    qed
    moreover have "s' = ?s" "p' = p" using Cons.prems(3) acq g False \<open>s1 = s\<close> by auto
    ultimately show ?thesis using rr(1) by simp
  qed
qed simp

end

interpretation catalog_leases: lease_arbiter mem_acquire_lease mem_release_lease lease_owner "\<lambda>h. h \<noteq> []"
proof unfold_locales
  fix h p now ttl s g s'
  assume "h \<noteq> []" "mem_acquire_lease p h now ttl s = (Inr g, s')" "lg_granted g"
  then show "lease_owner s' p = Some (h, lg_epoch g)"
    using acquire_granted_entry [of p h now ttl s]
    by (auto simp: mem_acquire_lease_def Let_def lease_owner_def)
next
  fix p h now ttl s g s'
  assume "mem_acquire_lease p h now ttl s = (Inr g, s')" "\<not> lg_granted g"
  then show "s' = s"
    using acquire_refused_state [of p h now ttl s] by (auto simp: mem_acquire_lease_def Let_def)
qed (auto simp: mem_acquire_lease_def mem_release_lease_def Let_def lease_owner_def
      acquire_frame release_frame release_lease_def bm_simps split: option.splits if_splits)

lemma sorted_remdups_adj_distinct: "sorted xs \<Longrightarrow> distinct (remdups_adj xs)"
  by (induction xs rule: remdups_adj.induct) (auto simp: order.antisym)

lemma set_lease_set_purposes:
  "set (lease_set_purposes t ss) = dml_shard_lease_purpose t ` set ss"
  by (simp add: lease_set_purposes_def)

lemma lease_set_purposes_distinct: "distinct (lease_set_purposes t ss)"
  by (simp add: lease_set_purposes_def sorted_remdups_adj_distinct)

text \<open>A set of DML leases is all or nothing. On success the caller owns exactly one lease, with the
  epoch it was granted, for every requested shard (sorted, without duplicates). On refusal every
  purpose is owned as before or free, so no lease taken on the way is left held.\<close>

theorem lease_set_all_or_nothing:
  assumes "h \<noteq> []"
  shows "case lease_set_acquire mem_acquire_lease mem_release_lease t ss h ttl now st of
      (Inr held, st') \<Rightarrow>
        map fst held = lease_set_purposes t ss \<and>
        (\<forall>x \<in> set held. lease_owner st' (fst x) = Some (h, snd x))
    | (Inl (SetRefused p e), st') \<Rightarrow>
        p \<in> dml_shard_lease_purpose t ` set ss \<and>
        (\<forall>q. lease_owner st' q = lease_owner st q \<or> lease_owner st' q = None)
    | (Inl (SetFailed e), st') \<Rightarrow> True"
proof -
  let ?r = "lease_set_acquire mem_acquire_lease mem_release_lease t ss h ttl now st"
  consider (ok) held st' where "?r = (Inr held, st')"
    | (refused) p e st' where "?r = (Inl (SetRefused p e), st')"
    | (failed) e st' where "?r = (Inl (SetFailed e), st')"
    by (metis lease_set_error.exhaust old.sum.exhaust surj_pair)
  then show ?thesis
  proof cases
    case (ok held st')
    with catalog_leases.take_leases_success [of h "[]" "lease_set_purposes t ss" st now ttl held st'] assms
    show ?thesis
      by (simp add: lease_set_acquire_def lease_set_purposes_distinct catalog_leases.holds_all_def)
  next
    case (refused p e st')
    with catalog_leases.take_leases_refused [of h "[]" "lease_set_purposes t ss" st now ttl p e st'] assms
    show ?thesis
      by (simp add: lease_set_acquire_def lease_set_purposes_distinct catalog_leases.holds_all_def
          set_lease_set_purposes)
  qed simp
qed

theorem lease_set_all_or_nothing_witness:
  "case lease_set_acquire mem_acquire_lease mem_release_lease ''public.t'' [''s1'', ''s0''] ''me'' 30 0
      new_state of
      (Inr held, st') \<Rightarrow>
        map fst held = lease_set_purposes ''public.t'' [''s1'', ''s0''] \<and>
        (\<forall>x \<in> set held. lease_owner st' (fst x) = Some (''me'', snd x))
    | (Inl (SetRefused p e), st') \<Rightarrow>
        p \<in> dml_shard_lease_purpose ''public.t'' ` set [''s1'', ''s0''] \<and>
        (\<forall>q. lease_owner st' q = lease_owner new_state q \<or> lease_owner st' q = None)
    | (Inl (SetFailed e), st') \<Rightarrow> True"
  by (rule lease_set_all_or_nothing) simp

end
