(* ===== verification/Catalog_Tables.thy ===== *)
theory Catalog_Tables
  imports Catalog_State
begin

text \<open>
  Namespaces, tables, schema versions and the data-node directory: the DDL half of
  \<open>crates/catalog/src/state.rs\<close>. The clock is an argument of every operation, as in the source. The
  Arrow IPC codec is the pair of parameters \<open>ser\<close> and \<open>deser\<close>; \<open>dbg\<close> is Arrow's \<open>Debug\<close> rendering.

  \<open>chain_ok\<close> is the invariant of the version chain: every version of a table from 1 to its current one
  is recorded, the current one holds the table's schema bytes, and no later version is.
\<close>

subsection \<open>The data-node directory\<close>

definition register_datanode :: "datanode_member \<Rightarrow> catalog_state \<Rightarrow> bool \<times> catalog_state" where
  "register_datanode m st =
     (case bm_get (datanodes st) (dm_instance_id m) of
        Some cur \<Rightarrow>
          if dm_address cur = dm_address m then (False, st)
          else (True, bump_schema_ver (st\<lparr>datanodes := bm_insert (dm_instance_id m) m (datanodes st)\<rparr>))
      | None \<Rightarrow>
          (True, bump_schema_ver (st\<lparr>datanodes := bm_insert (dm_instance_id m) m (datanodes st)\<rparr>)))"

definition remove_datanode :: "string \<Rightarrow> catalog_state \<Rightarrow> bool \<times> catalog_state" where
  "remove_datanode instance_id st =
     (case bm_get (datanodes st) instance_id of
        None \<Rightarrow> (False, st)
      | Some _ \<Rightarrow>
          (True, bump_schema_ver (st\<lparr>datanodes := bm_remove instance_id (datanodes st)\<rparr>)))"

subsection \<open>Namespaces\<close>

definition schema_exists :: "string \<Rightarrow> catalog_state \<Rightarrow> bool" where
  "schema_exists name st = bm_has (namespaces st) name"

definition list_schemas :: "catalog_state \<Rightarrow> string list" where
  "list_schemas st = bm_keys (namespaces st)"

definition create_schema :: "string \<Rightarrow> catalog_state \<Rightarrow> (lake_error + unit) \<times> catalog_state" where
  "create_schema name st =
     (if \<not> validate_schema_name name then (Inl (Other ''invalid schema name''), st)
      else if bm_has (namespaces st) name then (Inl (SchemaAlreadyExists name), st)
      else (Inr (), bump_applied (bump_schema_ver
              (st\<lparr>namespaces := bm_insert name () (namespaces st)\<rparr>))))"

definition drop_schema :: "string \<Rightarrow> catalog_state \<Rightarrow> (lake_error + unit) \<times> catalog_state" where
  "drop_schema name st =
     (if name = DEFAULT_SCHEMA then (Inl (Other ''default schema cannot be dropped''), st)
      else if \<not> bm_has (namespaces st) name then (Inl (SchemaNotFound name), st)
      else if list_ex (\<lambda>t. tm_schema_name t = name) (bm_values (tables st))
        then (Inl (SchemaNotEmpty name), st)
      else (Inr (), bump_applied (bump_schema_ver
              (st\<lparr>namespaces := bm_remove name (namespaces st)\<rparr>))))"

subsection \<open>Tables\<close>

definition create_table ::
  "(schema \<Rightarrow> bytes) \<Rightarrow> create_table_request \<Rightarrow> nat \<Rightarrow> catalog_state \<Rightarrow>
    (lake_error + table_meta) \<times> catalog_state" where
  "create_table ser req now_secs st =
     (let ns_name = cr_schema_name req; qualified = cr_qualified_name req in
      if \<not> validate_table_name (cr_name req) then (Inl (Other ''invalid table name''), st)
      else if \<not> validate_schema_name ns_name then (Inl (Other ''invalid schema name''), st)
      else if \<not> schema_exists ns_name st then (Inl (SchemaNotFound ns_name), st)
      else if bm_has (tables st) qualified then (Inl (TableAlreadyExists qualified), st)
      else
        let meta = \<lparr>tm_name = cr_name req, tm_current_schema_version = 1,
              tm_partition_cols = cr_partition_cols req,
              tm_default_format = cr_default_format req,
              tm_ingest_config = Some (cr_ingest_config req), tm_created_at = now_secs,
              tm_arrow_schema = ser (cr_schema req), tm_table_template = 1,
              tm_namespace = ns_name\<rparr>;
            sv = \<lparr>sv_version = 1, sv_arrow_schema = tm_arrow_schema meta, sv_change_kind = 0,
              sv_created_at = now_secs, sv_change_desc = ''initial schema''\<rparr>
        in (Inr meta, bump_applied (bump_schema_ver
              (st\<lparr>schemas := bm_insert (qualified, 1) sv (schemas st),
                  tables := bm_insert qualified meta (tables st)\<rparr>))))"

definition get_table :: "string \<Rightarrow> catalog_state \<Rightarrow> table_meta option" where
  "get_table name st =
     (let (ns, table) = split_qualified name in bm_get (tables st) (qualified_name ns table))"

definition list_tables :: "catalog_state \<Rightarrow> table_meta list" where
  "list_tables st = bm_values (tables st)"

definition table_schema ::
  "(bytes \<Rightarrow> schema option) \<Rightarrow> string \<Rightarrow> catalog_state \<Rightarrow> lake_error + (schema \<times> nat) option" where
  "table_schema deser name st =
     (case bm_get (tables st) (normalize_table name) of
        None \<Rightarrow> Inr None
      | Some t \<Rightarrow>
          (case deser (tm_arrow_schema t) of
             None \<Rightarrow> Inl (Other ''decode schema'')
           | Some s \<Rightarrow> Inr (Some (s, tm_current_schema_version t))))"

definition evolve_schema ::
  "(schema \<Rightarrow> bytes) \<Rightarrow> (bytes \<Rightarrow> schema option) \<Rightarrow> (data_type \<Rightarrow> string) \<Rightarrow>
    evolve_schema_request \<Rightarrow> nat \<Rightarrow> catalog_state \<Rightarrow>
    (lake_error + evolve_schema_response) \<times> catalog_state" where
  "evolve_schema ser deser dbg req now_secs st =
     (let key = normalize_table (ev_table req) in
      case bm_get (tables st) key of
        None \<Rightarrow> (Inl (TableNotFound key), st)
      | Some table \<Rightarrow>
          (case deser (tm_arrow_schema table) of
             None \<Rightarrow> (Inl (Other ''decode schema''), st)
           | Some old_schema \<Rightarrow>
               if tm_current_schema_version table \<noteq> ev_expected_version req
               then (Inl (SchemaChanged (tm_current_schema_version table) old_schema), st)
               else
                 (case apply_change old_schema (ev_change req) of
                    Inl e \<Rightarrow> (Inl (InvalidSchemaChange e), st)
                  | Inr new_schema \<Rightarrow>
                      let new_version = tm_current_schema_version table + 1;
                          sv = \<lparr>sv_version = new_version, sv_arrow_schema = ser new_schema,
                            sv_change_kind = kind_as_u32 (change_kind (ev_change req)),
                            sv_created_at = now_secs,
                            sv_change_desc = describe_change dbg (ev_change req)\<rparr>;
                          table' = table\<lparr>tm_current_schema_version := new_version,
                            tm_arrow_schema := ser new_schema\<rparr>
                      in (Inr \<lparr>er_new_schema = new_schema, er_version = new_version\<rparr>,
                          bump_applied (bump_schema_ver
                            (st\<lparr>schemas := bm_insert (key, new_version) sv (schemas st),
                                tables := bm_insert key table' (tables st)\<rparr>))))))"

text \<open>\<open>drop_table\<close> removes the table with its version chain, its files and its deletion vectors.\<close>

definition drop_table :: "string \<Rightarrow> catalog_state \<Rightarrow> (lake_error + unit) \<times> catalog_state" where
  "drop_table name st =
     (let key = normalize_table name in
      if \<not> bm_has (tables st) key then (Inl (TableNotFound key), st)
      else
        (Inr (), bump_applied (bump_manifest_ver key (bump_schema_ver
          (st\<lparr>tables := bm_remove key (tables st),
              schemas := bm_filter (\<lambda>(t, _) _. t \<noteq> key) (schemas st),
              files := bm_filter (\<lambda>_ f. normalize_table (fm_table f) \<noteq> key) (files st),
              deletions := bm_filter (\<lambda>_ d. normalize_table (de_table d) \<noteq> key) (deletions st),
              snapshot_version := snapshot_version st + 1\<rparr>)))))"

subsection \<open>The version chain\<close>

definition chain_at ::
  "(string, table_meta) bmap \<Rightarrow> (string \<times> nat, schema_version) bmap \<Rightarrow> string \<Rightarrow> bool" where
  "chain_at ts ss k =
     (case bm_get ts k of
        None \<Rightarrow> \<forall>v. bm_get ss (k, v) = None
      | Some t \<Rightarrow>
          1 \<le> tm_current_schema_version t \<and>
          (\<forall>v. bm_get ss (k, v) \<noteq> None \<longleftrightarrow> 1 \<le> v \<and> v \<le> tm_current_schema_version t) \<and>
          map_option sv_arrow_schema (bm_get ss (k, tm_current_schema_version t)) =
            Some (tm_arrow_schema t))"

definition chain_ok :: "catalog_state \<Rightarrow> bool" where
  "chain_ok st \<longleftrightarrow> (\<forall>k. chain_at (tables st) (schemas st) k)"

lemma chain_at_cong:
  "bm_get ts' k = bm_get ts k \<Longrightarrow> (\<And>v. bm_get ss' (k, v) = bm_get ss (k, v)) \<Longrightarrow>
    chain_at ts' ss' k = chain_at ts ss k"
  by (simp add: chain_at_def split: option.split)

lemma chain_ok_frame:
  "chain_ok st \<Longrightarrow> tables st' = tables st \<Longrightarrow> schemas st' = schemas st \<Longrightarrow> chain_ok st'"
  by (simp add: chain_ok_def)

lemma chain_ok_new: "chain_ok new_state"
  by (simp add: chain_ok_def chain_at_def new_state_def)

lemma chain_ok_step:
  assumes "chain_ok st" and "chain_at (tables st') (schemas st') key"
    and "\<And>k. k \<noteq> key \<Longrightarrow> bm_get (tables st') k = bm_get (tables st) k"
    and "\<And>k v. k \<noteq> key \<Longrightarrow> bm_get (schemas st') (k, v) = bm_get (schemas st) (k, v)"
  shows "chain_ok st'"
  unfolding chain_ok_def
proof
  fix k
  show "chain_at (tables st') (schemas st') k"
    using assms chain_at_cong [of "tables st'" k "tables st" "schemas st'" "schemas st"]
    by (cases "k = key") (auto simp: chain_ok_def)
qed

lemmas bump_defs = bump_applied_def bump_schema_ver_def bump_manifest_ver_def

lemma create_table_ok:
  assumes "create_table ser req now st = (Inr m, st')"
  shows "bm_get (tables st) (cr_qualified_name req) = None \<and> tm_current_schema_version m = 1 \<and>
    tables st' = bm_insert (cr_qualified_name req) m (tables st) \<and>
    (\<exists>sv. schemas st' = bm_insert (cr_qualified_name req, 1) sv (schemas st) \<and>
       sv_arrow_schema sv = tm_arrow_schema m)"
  using assms by (auto simp: create_table_def Let_def bm_has_def bump_defs split: if_splits)

lemma create_table_error: "create_table ser req now st = (Inl e, st') \<Longrightarrow> st' = st"
  by (auto simp: create_table_def Let_def split: if_splits)

lemma chain_ok_create:
  assumes "chain_ok st"
  shows "chain_ok (snd (create_table ser req now st))"
proof (cases "create_table ser req now st")
  case (Pair r st')
  show ?thesis
  proof (cases r)
    case (Inl e)
    from create_table_error [OF Pair [unfolded Inl]] Pair assms show ?thesis by simp
  next
    case (Inr m)
    from create_table_ok [OF Pair [unfolded Inr]] obtain sv where
      none: "bm_get (tables st) (cr_qualified_name req) = None" and v: "tm_current_schema_version m = 1"
      and st': "tables st' = bm_insert (cr_qualified_name req) m (tables st)"
        "schemas st' = bm_insert (cr_qualified_name req, 1) sv (schemas st)"
      and sv: "sv_arrow_schema sv = tm_arrow_schema m" by blast
    from assms have "chain_at (tables st) (schemas st) (cr_qualified_name req)"
      by (simp add: chain_ok_def)
    with none have "\<forall>v. bm_get (schemas st) (cr_qualified_name req, v) = None"
      by (simp add: chain_at_def)
    with none have "chain_ok st'"
      by (intro chain_ok_step [OF assms, of _ "cr_qualified_name req"])
         (auto simp: chain_at_def bm_simps st' v sv)
    with Pair show ?thesis by simp
  qed
qed

definition evolved :: "(schema \<Rightarrow> bytes) \<Rightarrow> evolve_schema_response \<Rightarrow> table_meta \<Rightarrow> table_meta" where
  "evolved ser resp t = t\<lparr>tm_current_schema_version := tm_current_schema_version t + 1,
     tm_arrow_schema := ser (er_new_schema resp)\<rparr>"

lemma evolve_schema_ok:
  assumes "evolve_schema ser deser dbg req now st = (Inr resp, st')"
  shows "\<exists>t. bm_get (tables st) (normalize_table (ev_table req)) = Some t \<and>
    tables st' = bm_insert (normalize_table (ev_table req)) (evolved ser resp t) (tables st) \<and>
    schemas st' = bm_insert (normalize_table (ev_table req), tm_current_schema_version t + 1)
      \<lparr>sv_version = tm_current_schema_version t + 1, sv_arrow_schema = ser (er_new_schema resp),
        sv_change_kind = kind_as_u32 (change_kind (ev_change req)), sv_created_at = now,
        sv_change_desc = describe_change dbg (ev_change req)\<rparr> (schemas st)"
  using assms
  by (auto simp: evolve_schema_def evolved_def Let_def bump_defs split: option.splits sum.splits if_splits)

lemma evolve_schema_error: "evolve_schema ser deser dbg req now st = (Inl e, st') \<Longrightarrow> st' = st"
  by (auto simp: evolve_schema_def Let_def split: option.splits sum.splits if_splits)

lemma chain_ok_evolve:
  assumes "chain_ok st"
  shows "chain_ok (snd (evolve_schema ser deser dbg req now st))"
proof (cases "evolve_schema ser deser dbg req now st")
  case (Pair r st')
  show ?thesis
  proof (cases r)
    case (Inl e)
    from evolve_schema_error [OF Pair [unfolded Inl]] Pair assms show ?thesis by simp
  next
    case (Inr resp)
    let ?k = "normalize_table (ev_table req)"
    from evolve_schema_ok [OF Pair [unfolded Inr]] obtain t where
      t: "bm_get (tables st) ?k = Some t"
      and st': "tables st' = bm_insert ?k (evolved ser resp t) (tables st)"
        "schemas st' = bm_insert (?k, tm_current_schema_version t + 1)
          \<lparr>sv_version = tm_current_schema_version t + 1, sv_arrow_schema = ser (er_new_schema resp),
            sv_change_kind = kind_as_u32 (change_kind (ev_change req)), sv_created_at = now,
            sv_change_desc = describe_change dbg (ev_change req)\<rparr> (schemas st)" by blast
    from assms have "chain_at (tables st) (schemas st) ?k" by (simp add: chain_ok_def)
    with t have "chain_at (tables st') (schemas st') ?k"
      by (auto simp: chain_at_def bm_simps st' evolved_def)
    then have "chain_ok st'"
      by (rule chain_ok_step [OF assms]) (auto simp: bm_simps st')
    with Pair show ?thesis by simp
  qed
qed

lemma chain_ok_drop:
  assumes "chain_ok st"
  shows "chain_ok (snd (drop_table name st))"
proof (cases "bm_has (tables st) (normalize_table name)")
  case False
  with assms show ?thesis by (simp add: drop_table_def Let_def)
next
  case True
  let ?st' = "snd (drop_table name st)"
  have st': "tables ?st' = bm_remove (normalize_table name) (tables st)"
    "schemas ?st' = bm_filter (\<lambda>(t, _) _. t \<noteq> normalize_table name) (schemas st)"
    using True by (simp_all add: drop_table_def Let_def bump_defs)
  show ?thesis
    by (rule chain_ok_step [OF assms, of _ "normalize_table name"])
       (auto simp: st' chain_at_def bm_simps split: option.splits)
qed

text \<open>Schema evolution is optimistic concurrency with a single winner. When an evolution succeeds
  and the Arrow codec reads back the schema it wrote, the version is the expected one plus one, the
  table then reports the changed schema at that version, and every request that still names the
  old version is refused with the version and the schema that won and leaves the state unchanged.\<close>

theorem evolve_schema_single_winner:
  assumes codec: "deser (ser (er_new_schema resp)) = Some (er_new_schema resp)"
    and win: "evolve_schema ser deser dbg req now st = (Inr resp, st')"
    and late: "normalize_table (ev_table req') = normalize_table (ev_table req)"
      "ev_expected_version req' = ev_expected_version req"
  shows "er_version resp = ev_expected_version req + 1 \<and>
    table_schema deser (ev_table req) st' = Inr (Some (er_new_schema resp, er_version resp)) \<and>
    evolve_schema ser deser dbg req' now' st' =
      (Inl (SchemaChanged (er_version resp) (er_new_schema resp)), st')"
  using win late codec
  by (auto simp: evolve_schema_def table_schema_def Let_def bm_simps bump_applied_def
      bump_schema_ver_def split: option.splits sum.splits if_splits)

text \<open>A small instance: a one-column table, an encoder that writes one byte per column, and its decoder.\<close>

definition demo_col :: "string \<Rightarrow> field" where
  "demo_col n = \<lparr>f_name = n, f_type = Int64, f_nullable = True\<rparr>"

definition demo_ser :: "schema \<Rightarrow> bytes" where
  "demo_ser s = concat (map (\<lambda>f. map (\<lambda>c. of_nat (of_char c)) (f_name f)) s)"

definition demo_deser :: "bytes \<Rightarrow> schema option" where
  "demo_deser bs = Some (map (\<lambda>b. demo_col [char_of (unat b)]) bs)"

definition demo_ingest :: ingest_config where
  "demo_ingest = \<lparr>ic_require_idempotency_key = True, ic_idempotency_ttl_secs = 86400,
     ic_rows_threshold = 10000, ic_time_threshold_secs = 5, ic_durability = 0\<rparr>"

definition demo_table :: table_meta where
  "demo_table = \<lparr>tm_name = ''t'', tm_current_schema_version = 1, tm_partition_cols = [],
     tm_default_format = ''parquet'', tm_ingest_config = Some demo_ingest, tm_created_at = 0,
     tm_arrow_schema = demo_ser [demo_col ''a''], tm_table_template = 1, tm_namespace = ''public''\<rparr>"

definition demo_catalog :: catalog_state where
  "demo_catalog = new_state\<lparr>tables := bm_insert ''public.t'' demo_table bm_empty\<rparr>"

definition demo_evolve :: evolve_schema_request where
  "demo_evolve = \<lparr>ev_table = ''t'', ev_change = AddColumn (demo_col ''b''), ev_expected_version = 1\<rparr>"

lemma demo_normal: "normalize_table ''t'' = ''public.t''"
  by code_simp

lemma demo_codec:
  "demo_deser (demo_ser [demo_col ''a'']) = Some [demo_col ''a'']"
  "demo_deser (demo_ser [demo_col ''a'', demo_col ''b'']) = Some [demo_col ''a'', demo_col ''b'']"
  by code_simp+

lemma demo_evolve_ok:
  "fst (evolve_schema demo_ser demo_deser (\<lambda>_. []) demo_evolve 5 demo_catalog) =
    Inr \<lparr>er_new_schema = [demo_col ''a'', demo_col ''b''], er_version = 2\<rparr>"
  by (simp add: evolve_schema_def demo_evolve_def demo_catalog_def demo_normal demo_table_def bm_simps
      demo_codec Let_def) (simp add: demo_col_def)

theorem evolve_schema_single_winner_witness:
  "\<exists>st'. evolve_schema demo_ser demo_deser (\<lambda>_. []) demo_evolve 9 st' =
    (Inl (SchemaChanged 2 [demo_col ''a'', demo_col ''b'']), st')"
proof -
  let ?resp = "\<lparr>er_new_schema = [demo_col ''a'', demo_col ''b''], er_version = 2\<rparr>"
  obtain st' where win: "evolve_schema demo_ser demo_deser (\<lambda>_. []) demo_evolve 5 demo_catalog =
      (Inr ?resp, st')"
    using demo_evolve_ok by (metis prod.collapse)
  have "demo_deser (demo_ser (er_new_schema ?resp)) = Some (er_new_schema ?resp)"
    by (simp add: demo_codec)
  from evolve_schema_single_winner [OF this win refl refl, of 9] show ?thesis by auto
qed

text \<open>The version chain is unbroken. The initial state has it and creating, evolving and dropping
  tables keep it: every version of a table from 1 to its current one is recorded, the current one
  holds exactly the table's schema bytes, no later version exists, and a dropped table leaves none.\<close>

theorem version_chain_kept:
  "chain_ok new_state \<and>
    (\<forall>st ser deser dbg creq ereq name now. chain_ok st \<longrightarrow>
       chain_ok (snd (create_table ser creq now st)) \<and>
       chain_ok (snd (evolve_schema ser deser dbg ereq now st)) \<and>
       chain_ok (snd (drop_table name st)))"
  by (simp add: chain_ok_new chain_ok_create chain_ok_evolve chain_ok_drop)

theorem version_chain_kept_witness: "chain_ok (snd (drop_table ''t'' new_state))"
  using version_chain_kept by blast

end
