(* ===== verification/Catalog_Deletes.thy ===== *)
theory Catalog_Deletes
  imports Catalog_State
begin

text \<open>
  Row-level and table-level deletion in \<open>crates/catalog/src/state.rs\<close>: registering deletion vectors,
  the atomic commit of an UPDATE (deletion vectors and replacement files under one snapshot number),
  revoking the vectors of a rewritten file, and purging a whole table.
\<close>

subsection \<open>Deletion vectors\<close>

definition de_key :: "deletion_entry \<Rightarrow> string \<times> string" where
  "de_key e = (de_dv_id e, de_file_path e)"

text \<open>The file a vector is anchored in is known and has been taken offline.\<close>

definition anchor_dead :: "catalog_state \<Rightarrow> deletion_entry \<Rightarrow> bool" where
  "anchor_dead st e =
     (case bm_get (files st) (de_batch_id e) of Some m \<Rightarrow> fm_deleted_at m \<noteq> 0 | None \<Rightarrow> False)"

text \<open>The validation loop of \<open>apply_deletions\<close>: the entries that are new, or the first error.\<close>

fun check_deletions ::
  "catalog_state \<Rightarrow> deletion_entry list \<Rightarrow> deletion_entry list \<Rightarrow> lake_error + deletion_entry list" where
  "check_deletions st [] fresh = Inr fresh"
| "check_deletions st (e # es) fresh =
     (if de_dv_id e = [] \<or> de_table e = [] \<or> de_file_path e = []
      then Inl (Other ''deletion vector lacks a required field'')
      else if de_card e = 0 then Inl (Other ''deletion vector of cardinality 0'')
      else if anchor_dead st e then Inl (Other ''anchored file is offline'')
      else if \<not> bm_has (deletions st) (de_key e) then check_deletions st es (fresh @ [e])
      else check_deletions st es fresh)"

definition registered :: "nat \<Rightarrow> deletion_entry \<Rightarrow> deletion_entry" where
  "registered next e = e\<lparr>
     de_table := normalize_table (de_table e),
     de_applied_at := next,
     de_revoked_at := 0,
     de_store_path := (if de_store_path e = [] then dv_object_path (de_file_path e) (de_dv_id e)
                       else de_store_path e)\<rparr>"

definition insert_deletions :: "nat \<Rightarrow> deletion_entry list \<Rightarrow> catalog_state \<Rightarrow> catalog_state" where
  "insert_deletions next es st =
     st\<lparr>deletions := bm_insert_all (map (\<lambda>e. (de_key e, registered next e)) es) (deletions st)\<rparr>"

definition apply_deletions ::
  "deletion_entry list \<Rightarrow> nat \<Rightarrow> catalog_state \<Rightarrow> (lake_error + nat) \<times> catalog_state" where
  "apply_deletions entries now_ms st =
     (case check_deletions st entries [] of
        Inl err \<Rightarrow> (Inl err, st)
      | Inr fresh \<Rightarrow>
          if fresh = [] then (Inr (snapshot_version st), st)
          else
            let next = fst (next_snapshot st);
                st1 = snd (next_snapshot st);
                task_paths = map de_file_path fresh;
                st2 = insert_deletions next fresh st1;
                st3 = refresh_paths task_paths now_ms st2
            in (Inr next, st3\<lparr>schema_ver := schema_ver st3 + 1\<rparr>))"

definition list_deletions :: "string \<Rightarrow> nat \<Rightarrow> catalog_state \<Rightarrow> deletion_entry list" where
  "list_deletions table snapshot st =
     (let key = normalize_table table in
      filter (\<lambda>d. de_table d = key \<and> active_at d snapshot) (bm_values (deletions st)))"

definition revokes_file :: "string \<Rightarrow> deletion_entry \<Rightarrow> bool" where
  "revokes_file file_path d = (de_file_path d = file_path \<and> de_revoked_at d = 0)"

definition revoke_deletions_for_file ::
  "string \<Rightarrow> nat \<Rightarrow> nat \<Rightarrow> catalog_state \<Rightarrow> nat \<times> catalog_state" where
  "revoke_deletions_for_file file_path at now_ms st =
     (let n = length (filter (revokes_file file_path) (bm_values (deletions st)));
          st1 = st\<lparr>deletions := bm_map (\<lambda>_ d. if revokes_file file_path d
                  then d\<lparr>de_revoked_at := at\<rparr> else d) (deletions st)\<rparr>
      in (n, if n > 0
             then refresh_task_for_file file_path now_ms (st1\<lparr>schema_ver := schema_ver st1 + 1\<rparr>)
             else st1))"

definition all_deletions :: "catalog_state \<Rightarrow> deletion_entry list" where
  "all_deletions st = bm_values (deletions st)"

subsection \<open>UPDATE\<close>

text \<open>The ownership loop: all parts of an update name one table.\<close>

fun update_table :: "string list \<Rightarrow> string option \<Rightarrow> lake_error + string option" where
  "update_table [] table = Inr table"
| "update_table (t # ts) None = update_table ts (Some t)"
| "update_table (t # ts) (Some cur) =
     (if cur \<noteq> t then Inl (Other ''update spans two tables'') else update_table ts (Some cur))"

fun check_update_deletions :: "catalog_state \<Rightarrow> deletion_entry list \<Rightarrow> lake_error + unit" where
  "check_update_deletions st [] = Inr ()"
| "check_update_deletions st (e # es) =
     (if de_dv_id e = [] \<or> de_file_path e = []
      then Inl (Other ''deletion vector lacks a required field'')
      else if anchor_dead st e then Inl (Other ''anchored file is offline'')
      else if de_card e = 0 then Inl (Other ''deletion vector of cardinality 0'')
      else check_update_deletions st es)"

definition fresh_update_files :: "catalog_state \<Rightarrow> file_manifest list \<Rightarrow> file_manifest list" where
  "fresh_update_files st new_files =
     filter (\<lambda>f. fm_batch_id f \<noteq> [] \<and> \<not> bm_has (files st) (fm_batch_id f)) new_files"

definition fresh_update_dvs :: "catalog_state \<Rightarrow> deletion_entry list \<Rightarrow> deletion_entry list" where
  "fresh_update_dvs st entries = filter (\<lambda>e. \<not> bm_has (deletions st) (de_key e)) entries"

definition updated_file :: "nat \<Rightarrow> file_manifest \<Rightarrow> file_manifest" where
  "updated_file next f = f\<lparr>fm_valid_from := next, fm_status := status_as_u32 Active,
     fm_table := normalize_table (fm_table f)\<rparr>"

definition insert_update_files :: "nat \<Rightarrow> file_manifest list \<Rightarrow> catalog_state \<Rightarrow> catalog_state" where
  "insert_update_files next fs st =
     st\<lparr>files := bm_insert_all (map (\<lambda>f. (fm_batch_id f, updated_file next f)) fs) (files st)\<rparr>"

definition commit_update ::
  "string \<Rightarrow> file_manifest list \<Rightarrow> deletion_entry list \<Rightarrow> string \<Rightarrow> nat \<Rightarrow> catalog_state \<Rightarrow>
    nat \<times> catalog_state" where
  "commit_update table fresh_files fresh_dvs upd_id now_secs st =
     (let next = fst (next_snapshot st);
          st1 = snd (next_snapshot st);
          touched_shards = bm_keys (bset_of (map fm_shard fresh_files));
          touched_paths = map de_file_path fresh_dvs;
          st2 = insert_update_files next fresh_files st1;
          st3 = insert_deletions next fresh_dvs st2;
          st4 = (if upd_id \<noteq> [] then st3\<lparr>idempotency := bm_insert upd_id
                   \<lparr>ir_client_request_id = upd_id, ir_batch_id = [], ir_committed_at = now_secs\<rparr>
                   (idempotency st3)\<rparr> else st3);
          st5 = bump_applied (bump_schema_ver (bump_manifest_ver table st4));
          st6 = refresh_shards table touched_shards (sat_mul now_secs 1000) st5
      in (next, refresh_paths touched_paths (sat_mul now_secs 1000) st6))"

definition apply_update ::
  "deletion_entry list \<Rightarrow> file_manifest list \<Rightarrow> string \<Rightarrow> nat \<Rightarrow> catalog_state \<Rightarrow>
    (lake_error + nat) \<times> catalog_state" where
  "apply_update entries new_files upd_id now_secs st =
     (case update_table (map (\<lambda>f. normalize_table (fm_table f)) new_files @
                         map (\<lambda>e. normalize_table (de_table e)) entries) None of
        Inl err \<Rightarrow> (Inl err, st)
      | Inr None \<Rightarrow> (Inr (snapshot_version st), st)
      | Inr (Some table) \<Rightarrow>
          let fresh_files = fresh_update_files st new_files;
              fresh_dvs = fresh_update_dvs st entries
          in if fresh_files = [] \<and> fresh_dvs = [] then (Inr (snapshot_version st), st)
             else if list_ex (\<lambda>f. fm_batch_id f = []) fresh_files
               then (Inl (Other ''new file lacks a batch id''), st)
             else (case check_update_deletions st fresh_dvs of
                     Inl err \<Rightarrow> (Inl err, st)
                   | Inr _ \<Rightarrow>
                       let r = commit_update table fresh_files fresh_dvs upd_id now_secs st
                       in (Inr (fst r), snd r)))"

subsection \<open>Purging a table\<close>

definition purge_hits_dv :: "string \<Rightarrow> deletion_entry \<Rightarrow> bool" where
  "purge_hits_dv key d = (normalize_table (de_table d) = key \<and> de_revoked_at d = 0)"

text \<open>\<open>hidden\<close>: per file path, the rows the active deletion vectors of the table hide.\<close>

definition hidden_rows :: "string \<Rightarrow> deletion_entry list \<Rightarrow> string \<Rightarrow> nat" where
  "hidden_rows key ds path =
     sum_list (map de_card (filter (\<lambda>d. purge_hits_dv key d \<and> de_file_path d = path) ds))"

definition purge_victims :: "string \<Rightarrow> catalog_state \<Rightarrow> string list" where
  "purge_victims key st =
     map fm_batch_id (filter (\<lambda>f. normalize_table (fm_table f) = key \<and> fm_deleted_at f = 0)
       (bm_values (files st)))"

definition purge_rows :: "string \<Rightarrow> string list \<Rightarrow> catalog_state \<Rightarrow> nat" where
  "purge_rows key victims st =
     sum_list (map (\<lambda>id. case bm_get (files st) id of
         Some f \<Rightarrow> sat_sub (fm_row_count f) (hidden_rows key (bm_values (deletions st)) (fm_file_path f))
       | None \<Rightarrow> 0) victims)"

definition purge_table_files ::
  "string \<Rightarrow> string \<Rightarrow> nat \<Rightarrow> catalog_state \<Rightarrow> (lake_error + purge_outcome) \<times> catalog_state" where
  "purge_table_files table purge_id now_ms st =
     (if purge_id = [] then (Inl (Other ''purge without an id''), st)
      else
        let key = normalize_table table in
        case bm_get (purged st) purge_id of
          Some snap \<Rightarrow> (Inr \<lparr>po_snapshot = snap, po_files = 0, po_revoked = 0, po_rows = 0\<rparr>, st)
        | None \<Rightarrow>
            let victims = purge_victims key st in
            if victims = [] then
              (Inr \<lparr>po_snapshot = snapshot_version st, po_files = 0, po_revoked = 0, po_rows = 0\<rparr>,
               st\<lparr>purged := bm_insert purge_id (snapshot_version st) (purged st)\<rparr>)
            else
              let next = fst (next_snapshot st);
                  st1 = snd (next_snapshot st);
                  rows = purge_rows key victims st1;
                  st2 = st1\<lparr>files := bm_map (\<lambda>_ f. if fm_batch_id f \<in> set victims
                          then f\<lparr>fm_deleted_at := next\<rparr> else f) (files st1)\<rparr>;
                  revoked = length (filter (purge_hits_dv key) (bm_values (deletions st2)));
                  st3 = st2\<lparr>deletions := bm_map (\<lambda>_ d. if purge_hits_dv key d
                          then d\<lparr>de_revoked_at := next\<rparr> else d) (deletions st2)\<rparr>;
                  touched = bm_keys (bset_of (map fm_shard
                          (filter (\<lambda>f. fm_batch_id f \<in> set victims) (bm_values (files st3)))));
                  st4 = refresh_shards key touched now_ms st3;
                  st5 = st4\<lparr>purged := bm_insert purge_id next (purged st4)\<rparr>
              in (Inr \<lparr>po_snapshot = next, po_files = length victims, po_revoked = revoked,
                    po_rows = rows\<rparr>,
                  bump_applied (bump_manifest_ver key st5)))"

definition purge_count :: "catalog_state \<Rightarrow> nat" where
  "purge_count st = bm_size (purged st)"

end
