(* ===== verification/Catalog_Files.thy ===== *)
theory Catalog_Files
  imports Catalog_State
begin

text \<open>
  The file manifest half of \<open>crates/catalog/src/state.rs\<close>: committing a batch (exactly once, by batch
  id and by the set of client request ids), the snapshot-filtered listing, the incremental listing
  with tombstones, dropping a shard, the idempotency index, and the registrations of uploads in
  flight with the set of batches that garbage collection must keep.
\<close>

subsection \<open>Registrations in flight\<close>

definition record_in_flight :: "string \<Rightarrow> nat \<Rightarrow> catalog_state \<Rightarrow> catalog_state" where
  "record_in_flight batch_id now_ms st =
     (case bm_get (in_flight st) batch_id of
        Some _ \<Rightarrow> st
      | None \<Rightarrow> st\<lparr>in_flight := bm_insert batch_id now_ms (in_flight st)\<rparr>)"

definition clear_in_flight :: "string \<Rightarrow> catalog_state \<Rightarrow> bool \<times> catalog_state" where
  "clear_in_flight batch_id st =
     (bm_has (in_flight st) batch_id, st\<lparr>in_flight := bm_remove batch_id (in_flight st)\<rparr>)"

definition in_flight_batch_ids :: "catalog_state \<Rightarrow> string list" where
  "in_flight_batch_ids st = bm_keys (in_flight st)"

definition count_expired_in_flight :: "nat \<Rightarrow> nat \<Rightarrow> catalog_state \<Rightarrow> nat" where
  "count_expired_in_flight ttl_ms now_ms st =
     length (filter (\<lambda>announced. sat_sub now_ms announced \<ge> ttl_ms) (bm_values (in_flight st)))"

definition sweep_expired_in_flight :: "nat \<Rightarrow> nat \<Rightarrow> catalog_state \<Rightarrow> nat \<times> catalog_state" where
  "sweep_expired_in_flight ttl_ms now_ms st =
     (let kept = bm_filter (\<lambda>_ announced. sat_sub now_ms announced < ttl_ms) (in_flight st)
      in (bm_size (in_flight st) - bm_size kept, st\<lparr>in_flight := kept\<rparr>))"

definition known_batch_ids :: "catalog_state \<Rightarrow> string list" where
  "known_batch_ids st =
     bm_keys (bm_insert_all (map (\<lambda>id. (id, ())) (bm_keys (in_flight st)))
       (bm_map (\<lambda>_ _. ()) (bm_filter (\<lambda>_ f. protects_at f (snapshot_version st)) (files st))))"

subsection \<open>The idempotency index\<close>

definition check_idempotency :: "string \<Rightarrow> catalog_state \<Rightarrow> string option" where
  "check_idempotency key st = map_option ir_batch_id (bm_get (idempotency st) key)"

definition idempotency_keys :: "catalog_state \<Rightarrow> string list" where
  "idempotency_keys st = bm_keys (idempotency st)"

definition record_idempotency :: "idempotency_record \<Rightarrow> catalog_state \<Rightarrow> catalog_state" where
  "record_idempotency rec st =
     (case bm_get (idempotency st) (ir_client_request_id rec) of
        Some _ \<Rightarrow> st
      | None \<Rightarrow> st\<lparr>idempotency := bm_insert (ir_client_request_id rec) rec (idempotency st)\<rparr>)"

definition sweep_expired_idempotency :: "nat \<Rightarrow> nat \<Rightarrow> catalog_state \<Rightarrow> nat \<times> catalog_state" where
  "sweep_expired_idempotency ttl_secs now_secs st =
     (let kept = bm_filter (\<lambda>_ r. sat_sub now_secs (ir_committed_at r) < ttl_secs) (idempotency st)
      in (bm_size (idempotency st) - bm_size kept, st\<lparr>idempotency := kept\<rparr>))"

subsection \<open>Committing a batch\<close>

definition dup_commit_response :: "catalog_state \<Rightarrow> commit_files_response" where
  "dup_commit_response st =
     \<lparr>cs_accepted = False, cs_snapshot = snapshot_version st, cs_commit_index = last_applied st\<rparr>"

definition commit_keys :: "commit_files_request \<Rightarrow> string list" where
  "commit_keys req = cf_client_request_ids req @ opt_list (cf_client_request_id req)"

text \<open>A key is taken when it is recorded for another batch; a record with an empty batch id is a claim.\<close>

definition key_taken :: "string \<Rightarrow> catalog_state \<Rightarrow> string \<Rightarrow> bool" where
  "key_taken batch_id st key =
     (case bm_get (idempotency st) key of
        Some rec \<Rightarrow> ir_batch_id rec \<noteq> [] \<and> ir_batch_id rec \<noteq> batch_id
      | None \<Rightarrow> False)"

lemma key_taken_in_flight [simp]: "key_taken b (st\<lparr>in_flight := m\<rparr>) = key_taken b st"
  by (simp add: key_taken_def fun_eq_iff)

definition claim_keys :: "string \<Rightarrow> nat \<Rightarrow> string list \<Rightarrow> catalog_state \<Rightarrow> catalog_state" where
  "claim_keys batch_id now_secs keys st =
     st\<lparr>idempotency := bm_insert_all (map (\<lambda>key. (key, \<lparr>ir_client_request_id = key,
          ir_batch_id = batch_id, ir_committed_at = now_secs\<rparr>)) keys) (idempotency st)\<rparr>"

definition committed_file :: "commit_files_request \<Rightarrow> nat \<Rightarrow> file_manifest \<Rightarrow> file_manifest" where
  "committed_file req next f = f\<lparr>
     fm_valid_from := next,
     fm_status := status_as_u32 Active,
     fm_batch_id := cf_batch_id req,
     fm_schema_version := cf_schema_version req,
     fm_shard := cf_shard req,
     fm_time_window := cf_time_window req,
     fm_table := normalize_table (cf_table req),
     fm_client_request_id :=
       (case cf_client_request_ids req of
          k # _ \<Rightarrow> k
        | [] \<Rightarrow> (case cf_client_request_id req of Some k \<Rightarrow> k | None \<Rightarrow> []))\<rparr>"

definition commit_files ::
  "commit_files_request \<Rightarrow> nat \<Rightarrow> catalog_state \<Rightarrow>
    (lake_error + commit_files_response) \<times> catalog_state" where
  "commit_files req now_secs st =
     (if length (cf_files req) > 1 then (Inl (Other ''more than one file in a batch''), st)
      else if bm_has (files st) (cf_batch_id req) then (Inr (dup_commit_response st), st)
      else
        let st1 = snd (clear_in_flight (cf_batch_id req) st);
            keys = commit_keys req
        in if list_ex (key_taken (cf_batch_id req) st1) keys
           then (Inr (dup_commit_response st1), st1)
           else
             let st2 = claim_keys (cf_batch_id req) now_secs keys st1;
                 next = fst (next_snapshot st2);
                 st3 = snd (next_snapshot st2);
                 st4 = st3\<lparr>files := bm_insert_all
                   (map (\<lambda>f. (cf_batch_id req, committed_file req next f)) (cf_files req)) (files st3)\<rparr>;
                 st5 = refresh_task (normalize_table (cf_table req)) (cf_shard req)
                   (sat_mul now_secs 1000) st4;
                 st6 = bump_applied (bump_manifest_ver (cf_table req) st5)
             in (Inr \<lparr>cs_accepted = True, cs_snapshot = next, cs_commit_index = last_applied st6\<rparr>, st6))"

subsection \<open>Reading the manifest\<close>

definition list_visible_files ::
  "string \<Rightarrow> nat \<Rightarrow> string option \<Rightarrow> catalog_state \<Rightarrow> file_manifest list" where
  "list_visible_files table snapshot shard_filter st =
     (let key = normalize_table table in
      filter (\<lambda>f. visible_at f snapshot)
        (filter (\<lambda>f. case shard_filter of None \<Rightarrow> True | Some s \<Rightarrow> fm_shard f = s)
          (filter (\<lambda>f. normalize_table (fm_table f) = key) (bm_values (files st)))))"

definition files_since :: "string option \<Rightarrow> nat \<Rightarrow> catalog_state \<Rightarrow> file_manifest list" where
  "files_since table since st =
     (let key = map_option normalize_table table in
      filter (\<lambda>f. fm_valid_from f > since \<or> (fm_deleted_at f \<noteq> 0 \<and> fm_deleted_at f > since))
        (filter (\<lambda>f. case key of None \<Rightarrow> True | Some k \<Rightarrow> normalize_table (fm_table f) = k)
          (bm_values (files st))))"

definition in_shard :: "string \<Rightarrow> string \<Rightarrow> file_manifest \<Rightarrow> bool" where
  "in_shard key shard f =
     (normalize_table (fm_table f) = key \<and> fm_shard f = shard \<and> fm_deleted_at f = 0)"

definition drop_shard :: "string \<Rightarrow> string \<Rightarrow> nat \<Rightarrow> catalog_state \<Rightarrow> nat \<times> catalog_state" where
  "drop_shard table shard now_ms st =
     (let next = fst (next_snapshot st);
          st1 = snd (next_snapshot st);
          key = normalize_table table;
          n = length (filter (in_shard key shard) (bm_values (files st1)));
          st2 = st1\<lparr>files := bm_map (\<lambda>_ f. if in_shard key shard f then f\<lparr>fm_deleted_at := next\<rparr> else f)
            (files st1)\<rparr>;
          st3 = refresh_task key shard now_ms st2
      in (n, bump_applied (bump_manifest_ver key st3)))"

end
