(* ===== verification/Catalog_Compaction.thy ===== *)
theory Catalog_Compaction
  imports Catalog_Files
begin

text \<open>
  The commit of a compaction (\<open>commit_compaction\<close> of \<open>crates/catalog/src/state.rs\<close>): fenced by the
  epoch of the lease the committer worked under, refused when an input has been taken offline in
  the meantime, and otherwise one atomic swap of the inputs for the outputs.
\<close>

definition lease_purpose_of :: "string \<Rightarrow> string" where
  "lease_purpose_of lease_purpose = (if lease_purpose = [] then COMPACTION_LEASE else lease_purpose)"

definition fenced :: "string \<Rightarrow> nat \<Rightarrow> catalog_state \<Rightarrow> bool" where
  "fenced lease_purpose lease_epoch st =
     (case bm_get (leases st) (lease_purpose_of lease_purpose) of
        Some lease \<Rightarrow> lease_epoch < le_epoch lease
      | None \<Rightarrow> False)"

definition input_offline :: "catalog_state \<Rightarrow> string \<Rightarrow> bool" where
  "input_offline st bid =
     (case bm_get (files st) bid of Some f \<Rightarrow> fm_deleted_at f \<noteq> 0 | None \<Rightarrow> False)"

definition retire_input :: "nat \<Rightarrow> string \<Rightarrow> (string, file_manifest) bmap \<Rightarrow> (string, file_manifest) bmap" where
  "retire_input next bid fs =
     (case bm_get fs bid of
        Some f \<Rightarrow> if fm_deleted_at f = 0 then bm_insert bid (f\<lparr>fm_deleted_at := next\<rparr>) fs else fs
      | None \<Rightarrow> fs)"

definition compacted_file :: "nat \<Rightarrow> file_manifest \<Rightarrow> file_manifest" where
  "compacted_file next nf = nf\<lparr>fm_valid_from := next, fm_status := status_as_u32 Active\<rparr>"

definition add_output :: "nat \<Rightarrow> file_manifest \<Rightarrow> catalog_state \<Rightarrow> catalog_state" where
  "add_output next nf st =
     (let st1 = snd (clear_in_flight (fm_batch_id nf) st)
      in st1\<lparr>files := bm_insert (fm_batch_id nf) (compacted_file next nf) (files st1)\<rparr>)"

definition touched_tables ::
  "string list \<Rightarrow> file_manifest list \<Rightarrow> (string, file_manifest) bmap \<Rightarrow> string list" where
  "touched_tables old_batch_ids new_files fs =
     bm_keys (bset_of
       (map (\<lambda>f. normalize_table (fm_table f)) (List.map_filter (bm_get fs) old_batch_ids) @
        map (\<lambda>nf. normalize_table (fm_table nf)) new_files))"

definition commit_compaction ::
  "string list \<Rightarrow> file_manifest list \<Rightarrow> nat \<Rightarrow> string \<Rightarrow> catalog_state \<Rightarrow>
    (lake_error + nat) \<times> catalog_state" where
  "commit_compaction old_batch_ids new_files lease_epoch lease_purpose st =
     (if fenced lease_purpose lease_epoch st then (Inl (Other ''compaction fenced''), st)
      else if list_ex (input_offline st) old_batch_ids
        then (Inl (Other ''compaction conflict''), st)
      else
        let next = fst (next_snapshot st);
            st1 = snd (next_snapshot st);
            touched = touched_tables old_batch_ids new_files (files st1);
            st2 = st1\<lparr>files := fold (retire_input next) old_batch_ids (files st1)\<rparr>;
            st3 = fold (add_output next) new_files st2;
            st4 = fold bump_manifest_ver touched (bump_applied st3);
            st5 = (case new_files of
                     nf # _ \<Rightarrow> refresh_task (normalize_table (fm_table nf)) (fm_shard nf) 0 st4
                   | [] \<Rightarrow> st4)
        in (Inr next, st5))"

end
