(* ===== verification/Meta_Op.thy ===== *)
theory Meta_Op
  imports Catalog_Tables Catalog_Lease Catalog_Deletes Catalog_Compaction
begin

text \<open>
  The replicated operation log's step (\<open>crates/meta/src/op.rs\<close>, \<open>crates/meta/src/error.rs\<close>): a decoded
  operation, which carries its own clock, is applied to the catalog state and yields an outcome.
  Every replica runs \<open>sm_run\<close> over the same operations. The byte encodings that belong to other
  libraries (Arrow IPC for schemas, prost for the result payloads, Arrow's \<open>Debug\<close>) are the fields
  of the record \<open>codecs\<close>, a parameter of the step.
\<close>

record codecs =
  cx_ser :: "schema \<Rightarrow> bytes"
  cx_deser :: "bytes \<Rightarrow> schema option"
  cx_dbg :: "data_type \<Rightarrow> string"
  cx_grant :: "lease_grant \<Rightarrow> bytes"
  cx_purge :: "nat \<Rightarrow> nat \<Rightarrow> nat \<Rightarrow> bytes"

datatype meta_error =
    NotLeader nat
  | NoQuorum
  | OccConflict nat
  | BadRequest string
  | Lake lake_error
  | Storage string

definition retryable :: "meta_error \<Rightarrow> bool" where
  "retryable e =
     (case e of
        NotLeader _ \<Rightarrow> True
      | NoQuorum \<Rightarrow> True
      | OccConflict _ \<Rightarrow> True
      | Lake (ResourceExhausted _) \<Rightarrow> True
      | _ \<Rightarrow> False)"

datatype state_op =
    OpCreateSchema string nat
  | OpCreateTable create_table_request nat
  | OpDropTable string nat
  | OpCommitFiles commit_files_request nat
  | OpDropSchema string nat
  | OpEvolveSchema evolve_schema_request nat
  | OpDropShard string string nat
  | OpApplyDeletions "deletion_entry list" nat
  | OpUpdate "deletion_entry list" "file_manifest list" string nat
  | OpPurgeFiles string string nat
  | OpRevokeDeletions string nat nat
  | OpCompaction "string list" "file_manifest list" nat string nat
  | OpRecordIdempotency idempotency_record nat
  | OpRegisterDatanode datanode_member nat
  | OpRemoveDatanode string string nat
  | OpAcquireLease string string nat nat
  | OpRenewLease string string nat nat nat
  | OpReleaseLease string string nat nat
  | OpRecordInFlight string nat
  | OpSweepInFlight nat nat

fun op_now_ms :: "state_op \<Rightarrow> nat" where
  "op_now_ms (OpCreateSchema _ now) = now"
| "op_now_ms (OpCreateTable _ now) = now"
| "op_now_ms (OpDropTable _ now) = now"
| "op_now_ms (OpCommitFiles _ now) = now"
| "op_now_ms (OpDropSchema _ now) = now"
| "op_now_ms (OpEvolveSchema _ now) = now"
| "op_now_ms (OpDropShard _ _ now) = now"
| "op_now_ms (OpApplyDeletions _ now) = now"
| "op_now_ms (OpUpdate _ _ _ now) = now"
| "op_now_ms (OpPurgeFiles _ _ now) = now"
| "op_now_ms (OpRevokeDeletions _ _ now) = now"
| "op_now_ms (OpCompaction _ _ _ _ now) = now"
| "op_now_ms (OpRecordIdempotency _ now) = now"
| "op_now_ms (OpRegisterDatanode _ now) = now"
| "op_now_ms (OpRemoveDatanode _ _ now) = now"
| "op_now_ms (OpAcquireLease _ _ _ now) = now"
| "op_now_ms (OpRenewLease _ _ _ _ now) = now"
| "op_now_ms (OpReleaseLease _ _ _ now) = now"
| "op_now_ms (OpRecordInFlight _ now) = now"
| "op_now_ms (OpSweepInFlight _ now) = now"

record apply_outcome =
  ao_accepted :: bool
  ao_affected :: nat
  ao_result :: bytes

definition outcome_new :: "bool \<Rightarrow> nat \<Rightarrow> apply_outcome" where
  "outcome_new accepted affected =
     \<lparr>ao_accepted = accepted, ao_affected = (if accepted then affected else 0), ao_result = []\<rparr>"

definition with_result :: "bytes \<Rightarrow> apply_outcome \<Rightarrow> apply_outcome" where
  "with_result result out = out\<lparr>ao_result := result\<rparr>"

definition outcome_hit :: apply_outcome where
  "outcome_hit = outcome_new False 0"

definition outcome_one :: apply_outcome where
  "outcome_one = outcome_new True 1"

definition with_count :: "nat \<Rightarrow> apply_outcome" where
  "with_count n = outcome_new (n > 0) n"

definition current_grant :: "codecs \<Rightarrow> catalog_state \<Rightarrow> string \<Rightarrow> bool \<Rightarrow> bytes" where
  "current_grant cx st purpose ok =
     (let cur = bm_get (leases st) purpose in
      cx_grant cx \<lparr>lg_granted = ok,
        lg_epoch = (case cur of Some l \<Rightarrow> le_epoch l | None \<Rightarrow> 0),
        lg_expires_at_ms = (case cur of Some l \<Rightarrow> le_expires_at_ms l | None \<Rightarrow> 0)\<rparr>)"

text \<open>The \<open>?\<close> of a call whose error becomes \<open>MetaError::Lake\<close>, then a fixed outcome.\<close>

fun lift_lake :: "(lake_error + 'a) \<times> catalog_state \<Rightarrow> ('a \<Rightarrow> apply_outcome) \<Rightarrow>
    (meta_error + apply_outcome) \<times> catalog_state" where
  "lift_lake (Inl e, st) f = (Inl (Lake e), st)"
| "lift_lake (Inr x, st) f = (Inr (f x), st)"

text \<open>The idempotence key of \<open>CreateTable\<close>.\<close>

definition create_qualified :: "create_table_request \<Rightarrow> string" where
  "create_qualified req =
     (if CHR ''.'' \<in> set (cr_name req) then cr_name req
      else cr_namespace req @ ''.'' @ cr_name req)"

text \<open>The outcome of an operation whose effect shows in the snapshot number.\<close>

definition snapshot_outcome :: "nat \<Rightarrow> catalog_state \<Rightarrow> apply_outcome" where
  "snapshot_outcome before st' =
     (if current_snapshot st' = before then outcome_hit else outcome_one)"

fun apply_op :: "codecs \<Rightarrow> state_op \<Rightarrow> catalog_state \<Rightarrow> (meta_error + apply_outcome) \<times> catalog_state" where
  "apply_op cx (OpCreateSchema name now) st =
     (if schema_exists name st then (Inr outcome_hit, st)
      else lift_lake (create_schema name st) (\<lambda>_. outcome_one))"
| "apply_op cx (OpCreateTable req now) st =
     (if get_table (create_qualified req) st \<noteq> None then (Inr outcome_hit, st)
      else lift_lake (create_table (cx_ser cx) req (now div 1000) st) (\<lambda>_. outcome_one))"
| "apply_op cx (OpDropTable name now) st =
     (if get_table name st = None then (Inr outcome_hit, st)
      else lift_lake (drop_table name st) (\<lambda>_. outcome_one))"
| "apply_op cx (OpRemoveDatanode instance_id reason now) st =
     (let r = remove_datanode instance_id st in
      if \<not> fst r then (Inr outcome_hit, snd r) else (Inr outcome_one, snd r))"
| "apply_op cx (OpRegisterDatanode member now) st =
     (let stamped = member\<lparr>dm_registered_at_ms := now\<rparr>;
          r = register_datanode stamped st in
      if \<not> fst r then (Inr outcome_hit, snd r) else (Inr outcome_one, snd r))"
| "apply_op cx (OpRecordInFlight batch_id now) st =
     (Inr outcome_one, record_in_flight batch_id now st)"
| "apply_op cx (OpSweepInFlight ttl_ms now) st =
     (let r = sweep_expired_in_flight ttl_ms now st in (Inr (with_count (fst r)), snd r))"
| "apply_op cx (OpAcquireLease purpose holder ttl_ms now) st =
     (let r = acquire_lease purpose holder now ttl_ms st
      in (Inr (with_result (cx_grant cx (fst r)) (outcome_new True 0)), snd r))"
| "apply_op cx (OpRenewLease purpose holder epoch ttl_ms now) st =
     (let r = renew_lease purpose holder epoch now ttl_ms st
      in (Inr (with_result (current_grant cx (snd r) purpose (fst r)) (outcome_new True 0)), snd r))"
| "apply_op cx (OpReleaseLease purpose holder epoch now) st =
     (let r = release_lease purpose holder epoch st
      in (Inr (with_result (current_grant cx (snd r) purpose (fst r)) (outcome_new True 0)), snd r))"
| "apply_op cx (OpDropSchema name now) st =
     (if \<not> schema_exists name st then (Inr outcome_hit, st)
      else lift_lake (drop_schema name st) (\<lambda>_. outcome_one))"
| "apply_op cx (OpEvolveSchema req now) st =
     lift_lake (evolve_schema (cx_ser cx) (cx_deser cx) (cx_dbg cx) req (now div 1000) st)
       (\<lambda>_. outcome_one)"
| "apply_op cx (OpDropShard table shard now) st =
     (let r = drop_shard table shard now st in (Inr (with_count (fst r)), snd r))"
| "apply_op cx (OpApplyDeletions entries now) st =
     (let r = apply_deletions entries now st
      in lift_lake r (\<lambda>_. snapshot_outcome (current_snapshot st) (snd r)))"
| "apply_op cx (OpUpdate entries new_files upd_id now) st =
     (let r = apply_update entries new_files upd_id (now div 1000) st
      in lift_lake r (\<lambda>_. snapshot_outcome (current_snapshot st) (snd r)))"
| "apply_op cx (OpPurgeFiles table purge_id now) st =
     lift_lake (purge_table_files table purge_id now st)
       (\<lambda>out. if po_files out = 0 \<and> po_revoked out = 0
              then with_result (cx_purge cx 0 0 0) (outcome_new True 0)
              else with_result (cx_purge cx (po_files out) (po_revoked out) (po_rows out))
                     (with_count (po_rows out)))"
| "apply_op cx (OpRevokeDeletions file_path at now) st =
     (let r = revoke_deletions_for_file file_path at now st
      in (Inr (if fst r = 0 then outcome_hit else outcome_one), snd r))"
| "apply_op cx (OpCompaction old_batch_ids new_files epoch lease_purpose now) st =
     lift_lake (commit_compaction old_batch_ids new_files epoch lease_purpose st)
       (\<lambda>_. outcome_new True (length new_files))"
| "apply_op cx (OpRecordIdempotency record now) st =
     (if check_idempotency (ir_client_request_id record) st \<noteq> None then (Inr outcome_hit, st)
      else (Inr outcome_one, record_idempotency record st))"
| "apply_op cx (OpCommitFiles req now) st =
     lift_lake (commit_files req now st)
       (\<lambda>resp. outcome_new (cs_accepted resp)
          (if cs_accepted resp then length (cf_files req) else 0))"

definition sm_step :: "codecs \<Rightarrow> catalog_state \<Rightarrow> state_op \<Rightarrow> catalog_state" where
  "sm_step cx st op = snd (apply_op cx op st)"

definition sm_run :: "codecs \<Rightarrow> catalog_state \<Rightarrow> state_op list \<Rightarrow> catalog_state" where
  "sm_run cx = foldl (sm_step cx)"

lemma lift_lake_state [simp]: "snd (lift_lake r f) = snd r"
  by (cases "(r, f)" rule: lift_lake.cases) auto

lemma sm_run_simps [simp]:
  "sm_run cx st [] = st"
  "sm_run cx st (op # ops) = sm_run cx (sm_step cx st op) ops"
  by (simp_all add: sm_run_def)

lemma sm_run_append: "sm_run cx st (ops @ ops') = sm_run cx (sm_run cx st ops) ops'"
  by (simp add: sm_run_def)

end
