(* ===== verification/Catalog_Machine.thy ===== *)
theory Catalog_Machine
  imports Meta_Op
begin

text \<open>
  Runs of the catalog state machine. The locale \<open>guarded_machine\<close> is the argument that every theorem
  about runs shares: an invariant kept by each step, and a reflexive and transitive relation that
  each permitted step respects, hold along a whole run. It is interpreted on \<open>sm_step\<close> for the
  well-formedness invariant with the growth of the counters, and again by the theories that follow.

  \<open>catalog_inv\<close> is the invariant: a file is stored under its batch id and is not younger than the
  current snapshot, a deletion vector is stored under its key and is never empty nor younger than the
  snapshot, and no table's manifest version is ahead of the global one.
\<close>

fun run_ok :: "('s \<Rightarrow> 'o \<Rightarrow> 's) \<Rightarrow> ('s \<Rightarrow> 'o \<Rightarrow> bool) \<Rightarrow> 's \<Rightarrow> 'o list \<Rightarrow> bool" where
  "run_ok step ok s [] = True"
| "run_ok step ok s (x # xs) = (ok s x \<and> run_ok step ok (step s x) xs)"

locale guarded_machine =
  fixes step :: "'s \<Rightarrow> 'o \<Rightarrow> 's"
    and inv :: "'s \<Rightarrow> bool"
    and ok :: "'s \<Rightarrow> 'o \<Rightarrow> bool"
    and rel :: "'s \<Rightarrow> 's \<Rightarrow> bool"
  assumes inv_step: "inv s \<Longrightarrow> inv (step s x)"
    and rel_refl: "rel s s"
    and rel_trans: "rel a b \<Longrightarrow> rel b c \<Longrightarrow> rel a c"
    and rel_step: "inv s \<Longrightarrow> ok s x \<Longrightarrow> rel s (step s x)"
begin

lemma run_inv: "inv s \<Longrightarrow> inv (foldl step s xs)"
  by (induction xs arbitrary: s) (auto intro: inv_step)

lemma run_rel: "inv s \<Longrightarrow> run_ok step ok s xs \<Longrightarrow> rel s (foldl step s xs)"
proof (induction xs arbitrary: s)
  case Nil
  show ?case by (simp add: rel_refl)
next
  case (Cons x xs)
  then have "rel s (step s x)" and "rel (step s x) (foldl step (step s x) xs)"
    by (auto intro: rel_step inv_step)
  then show ?case using rel_trans by simp
qed

end

subsection \<open>The well-formedness invariant\<close>

definition file_wf :: "nat \<Rightarrow> string \<Rightarrow> file_manifest \<Rightarrow> bool" where
  "file_wf v k f = (fm_batch_id f = k \<and> fm_valid_from f \<le> v)"

definition dv_wf :: "nat \<Rightarrow> string \<times> string \<Rightarrow> deletion_entry \<Rightarrow> bool" where
  "dv_wf v k d = (de_key d = k \<and> de_applied_at d \<le> v \<and> de_card d > 0 \<and> de_dv_id d \<noteq> [])"

definition all_entries :: "('k::linorder \<Rightarrow> 'v \<Rightarrow> bool) \<Rightarrow> ('k, 'v) bmap \<Rightarrow> bool" where
  "all_entries P m = (\<forall>k v. bm_get m k = Some v \<longrightarrow> P k v)"

definition catalog_inv :: "catalog_state \<Rightarrow> bool" where
  "catalog_inv st \<longleftrightarrow>
     1 \<le> snapshot_version st \<and>
     all_entries (file_wf (snapshot_version st)) (files st) \<and>
     all_entries (dv_wf (snapshot_version st)) (deletions st) \<and>
     all_entries (\<lambda>_ v. v \<le> manifest_ver st) (table_manifest_ver st)"

lemma all_entriesD: "all_entries P m \<Longrightarrow> bm_get m k = Some v \<Longrightarrow> P k v"
  by (simp add: all_entries_def)

lemma all_entries_empty [simp]: "all_entries P bm_empty"
  by (simp add: all_entries_def)

lemma all_entries_mono: "all_entries P m \<Longrightarrow> (\<And>k v. P k v \<Longrightarrow> Q k v) \<Longrightarrow> all_entries Q m"
  by (auto simp: all_entries_def)

lemma all_entries_insert: "all_entries P m \<Longrightarrow> P k v \<Longrightarrow> all_entries P (bm_insert k v m)"
  by (auto simp: all_entries_def bm_simps)

lemma all_entries_insert_all:
  "all_entries P m \<Longrightarrow> \<forall>x \<in> set es. P (fst x) (snd x) \<Longrightarrow> all_entries P (bm_insert_all es m)"
proof (induction es arbitrary: m)
  case (Cons e es)
  obtain k v where "e = (k, v)" by (cases e)
  with Cons show ?case by (auto intro: all_entries_insert)
qed simp

lemma all_entries_filter: "all_entries P m \<Longrightarrow> all_entries P (bm_filter Q m)"
  by (auto simp: all_entries_def bm_simps split: option.splits if_splits)

lemma all_entries_map:
  "all_entries P m \<Longrightarrow> (\<And>k v. P k v \<Longrightarrow> Q k (f k v)) \<Longrightarrow> all_entries Q (bm_map f m)"
  by (auto simp: all_entries_def bm_simps)

lemma file_wf_mono: "file_wf v k f \<Longrightarrow> v \<le> v' \<Longrightarrow> file_wf v' k f"
  by (simp add: file_wf_def)

lemma dv_wf_mono: "dv_wf v k d \<Longrightarrow> v \<le> v' \<Longrightarrow> dv_wf v' k d"
  by (simp add: dv_wf_def)

lemma files_wf_next: "all_entries (file_wf v) m \<Longrightarrow> all_entries (file_wf (Suc v)) m"
  by (simp add: all_entries_def file_wf_def le_Suc_eq)

lemma dvs_wf_next: "all_entries (dv_wf v) m \<Longrightarrow> all_entries (dv_wf (Suc v)) m"
  by (simp add: all_entries_def dv_wf_def le_Suc_eq)

lemma versions_next:
  "all_entries (\<lambda>_ w. w \<le> v) m \<Longrightarrow> all_entries (\<lambda>_ w. w \<le> Suc v) (bm_insert k (Suc v) m)"
  by (intro all_entries_insert) (auto intro: all_entries_mono)

lemmas inv_intros = files_wf_next dvs_wf_next versions_next all_entries_filter

lemma catalog_inv_new: "catalog_inv new_state"
  by (simp add: catalog_inv_def new_state_def)

lemma catalog_inv_frame:
  assumes "catalog_inv st" "files st' = files st" "deletions st' = deletions st"
    "snapshot_version st' = snapshot_version st" "manifest_ver st' = manifest_ver st"
    "table_manifest_ver st' = table_manifest_ver st"
  shows "catalog_inv st'"
  using assms by (simp add: catalog_inv_def)

lemma catalog_invI:
  assumes "catalog_inv st" "snapshot_version st' = Suc (snapshot_version st)"
    "all_entries (file_wf (Suc (snapshot_version st))) (files st')"
    "all_entries (dv_wf (Suc (snapshot_version st))) (deletions st')"
    "all_entries (\<lambda>_ v. v \<le> manifest_ver st') (table_manifest_ver st')"
  shows "catalog_inv st'"
  using assms by (simp add: catalog_inv_def)

lemma catalog_invD:
  assumes "catalog_inv st"
  shows "all_entries (file_wf (snapshot_version st)) (files st)"
    "all_entries (dv_wf (snapshot_version st)) (deletions st)"
    "all_entries (\<lambda>_ v. v \<le> manifest_ver st) (table_manifest_ver st)"
    "all_entries (file_wf (Suc (snapshot_version st))) (files st)"
    "all_entries (dv_wf (Suc (snapshot_version st))) (deletions st)"
  using assms by (auto simp: catalog_inv_def intro: files_wf_next dvs_wf_next)

subsection \<open>Every operation keeps the invariant\<close>

lemma inv_frame_ops:
  assumes "catalog_inv st"
  shows "catalog_inv (snd (create_schema name st))"
    "catalog_inv (snd (drop_schema name st))"
    "catalog_inv (snd (create_table ser creq now st))"
    "catalog_inv (snd (register_datanode m st))"
    "catalog_inv (snd (remove_datanode i st))"
    "catalog_inv (snd (acquire_lease p h now ttl st))"
    "catalog_inv (snd (renew_lease p h e now ttl st))"
    "catalog_inv (snd (release_lease p h e st))"
    "catalog_inv (record_in_flight b now st)"
    "catalog_inv (snd (sweep_expired_in_flight ttl now st))"
    "catalog_inv (record_idempotency rec st)"
  using assms
  by (auto simp: create_schema_def drop_schema_def create_table_def register_datanode_def
      remove_datanode_def lease_op_defs record_in_flight_def sweep_expired_in_flight_def
      record_idempotency_def Let_def cat_simps catalog_inv_def split: option.split)

lemma inv_evolve: "catalog_inv st \<Longrightarrow> catalog_inv (snd (evolve_schema ser deser dbg req now st))"
  by (auto simp: evolve_schema_def Let_def cat_simps catalog_inv_def split: option.split sum.split)

lemma inv_drop_table:
  assumes "catalog_inv st"
  shows "catalog_inv (snd (drop_table name st))"
proof (cases "bm_has (tables st) (normalize_table name)")
  case True
  show ?thesis
    by (rule catalog_invI [OF assms])
       (simp_all add: drop_table_def Let_def True cat_simps catalog_invD [OF assms] inv_intros)
qed (use assms in \<open>simp add: drop_table_def Let_def\<close>)

lemma inv_drop_shard:
  assumes "catalog_inv st"
  shows "catalog_inv (snd (drop_shard table shard now st))"
  by (rule catalog_invI [OF assms])
     (auto simp: drop_shard_def Let_def cat_simps file_wf_def catalog_invD [OF assms] inv_intros
       intro!: all_entries_map [OF catalog_invD(1) [OF assms]])

lemma commit_files_cases:
  obtains (refused) e where "commit_files req now st = (Inl e, st)"
  | (dup) "bm_has (files st) (cf_batch_id req)" "commit_files req now st = (Inr (dup_commit_response st), st)"
  | (taken) k where "k \<in> set (commit_keys req)" "key_taken (cf_batch_id req) st k"
      "\<not> bm_has (files st) (cf_batch_id req)"
      "commit_files req now st = (Inr (dup_commit_response st), snd (clear_in_flight (cf_batch_id req) st))"
  | (accepted) resp st' where "commit_files req now st = (Inr resp, st')" "cs_accepted resp"
      "length (cf_files req) \<le> 1" "\<not> bm_has (files st) (cf_batch_id req)"
      "\<forall>k \<in> set (commit_keys req). \<not> key_taken (cf_batch_id req) st k"
      "snapshot_version st' = Suc (snapshot_version st)"
      "cs_snapshot resp = Suc (snapshot_version st)"
      "files st' = bm_insert_all (map (\<lambda>f. (cf_batch_id req,
         committed_file req (Suc (snapshot_version st)) f)) (cf_files req)) (files st)"
      "deletions st' = deletions st" "manifest_ver st' = Suc (manifest_ver st)"
      "in_flight st' = bm_remove (cf_batch_id req) (in_flight st)"
      "idempotency st' = idempotency (claim_keys (cf_batch_id req) now (commit_keys req) st)"
      "table_manifest_ver st' =
        bm_insert (normalize_table (cf_table req)) (Suc (manifest_ver st)) (table_manifest_ver st)"
proof -
  let ?r = "commit_files req now st"
  consider (a) "length (cf_files req) > 1" | (b) "length (cf_files req) \<le> 1" "bm_has (files st) (cf_batch_id req)"
    | (c) k where "length (cf_files req) \<le> 1" "\<not> bm_has (files st) (cf_batch_id req)"
        "k \<in> set (commit_keys req)" "key_taken (cf_batch_id req) st k"
    | (d) "length (cf_files req) \<le> 1" "\<not> bm_has (files st) (cf_batch_id req)"
        "\<forall>k \<in> set (commit_keys req). \<not> key_taken (cf_batch_id req) st k"
    by (metis leI)
  then show thesis
  proof cases
    case a
    then show thesis by (intro refused) (simp add: commit_files_def)
  next
    case b
    then show thesis by (intro dup) (simp_all add: commit_files_def)
  next
    case c
    then show thesis
      by (intro taken) (auto simp: commit_files_def Let_def list_ex_iff dup_commit_response_def
          clear_in_flight_def)
  next
    case d
    have none: "\<not> list_ex (key_taken (cf_batch_id req) st) (commit_keys req)"
      using d(3) by (simp add: list_ex_iff)
    show thesis
      by (rule accepted [of "projr (fst ?r)" "snd ?r"])
         (use d in \<open>simp_all add: commit_files_def Let_def none cat_simps claim_keys_def
           clear_in_flight_def del: list_ex_iff\<close>)
  qed
qed

lemma inv_commit_files:
  assumes "catalog_inv st"
  shows "catalog_inv (snd (commit_files req now st))"
proof (cases rule: commit_files_cases [of req now st])
  case taken
  with assms show ?thesis by (simp add: catalog_inv_def clear_in_flight_def)
next
  case (accepted resp st')
  have "catalog_inv st'"
    by (rule catalog_invI [OF assms])
       (auto simp: accepted catalog_invD [OF assms] inv_intros file_wf_def committed_file_def
         intro!: all_entries_insert_all)
  with accepted(1) show ?thesis by simp
qed (use assms in auto)

lemma check_deletions_fresh:
  "check_deletions st es acc = Inr fresh \<Longrightarrow>
    set fresh \<subseteq> set acc \<union> {e \<in> set es. de_card e \<noteq> 0 \<and> de_dv_id e \<noteq> [] \<and> \<not> anchor_dead st e \<and>
      bm_get (deletions st) (de_key e) = None}"
proof (induction es arbitrary: acc)
  case (Cons e es)
  show ?case
    using Cons.prems Cons.IH [of acc] Cons.IH [of "acc @ [e]"]
    by (auto simp: bm_has_def split: if_splits)
qed simp

lemma de_key_registered [simp]: "de_key (registered v e) = de_key e"
  by (simp add: registered_def de_key_def)

lemma dvs_wf_insert_all:
  assumes "all_entries (dv_wf v) m" "\<forall>e \<in> set es. de_card e \<noteq> 0 \<and> de_dv_id e \<noteq> []"
  shows "all_entries (dv_wf v) (bm_insert_all (map (\<lambda>e. (de_key e, registered v e)) es) m)"
  using assms by (intro all_entries_insert_all) (auto simp: dv_wf_def registered_def de_key_def)

lemma apply_deletions_cases:
  obtains (unchanged) r where "apply_deletions es now st = (r, st)"
  | (registered) fresh st' where "apply_deletions es now st = (Inr (Suc (snapshot_version st)), st')"
      "fresh \<noteq> []"
      "set fresh \<subseteq> {e \<in> set es. de_card e \<noteq> 0 \<and> de_dv_id e \<noteq> [] \<and> \<not> anchor_dead st e \<and>
        bm_get (deletions st) (de_key e) = None}"
      "snapshot_version st' = Suc (snapshot_version st)" "files st' = files st"
      "deletions st' = bm_insert_all
        (map (\<lambda>e. (de_key e, registered (Suc (snapshot_version st)) e)) fresh) (deletions st)"
      "manifest_ver st' = manifest_ver st" "table_manifest_ver st' = table_manifest_ver st"
      "in_flight st' = in_flight st" "schema_ver st' = Suc (schema_ver st)"
proof (cases "check_deletions st es []")
  case (Inl e)
  then show thesis by (intro unchanged) (simp add: apply_deletions_def)
next
  case (Inr fresh)
  show thesis
  proof (cases "fresh = []")
    case True
    with Inr show thesis by (intro unchanged) (simp add: apply_deletions_def)
  next
    case False
    show thesis
      by (rule registered [of "snd (apply_deletions es now st)" fresh])
         (use Inr False check_deletions_fresh [OF Inr] in
           \<open>simp_all add: apply_deletions_def Let_def cat_simps insert_deletions_def\<close>)
  qed
qed

lemma inv_apply_deletions:
  assumes "catalog_inv st"
  shows "catalog_inv (snd (apply_deletions es now st))"
proof (cases rule: apply_deletions_cases [of es now st])
  case (registered fresh st')
  have "catalog_inv st'"
    by (rule catalog_invI [OF assms])
       (use registered(3) in \<open>auto simp: registered catalog_invD [OF assms] intro!: dvs_wf_insert_all\<close>)
  with registered(1) show ?thesis by simp
qed (use assms in simp)

lemma inv_revoke:
  assumes "catalog_inv st"
  shows "catalog_inv (snd (revoke_deletions_for_file p at now st))"
proof -
  have "all_entries (dv_wf (snapshot_version st))
      (bm_map (\<lambda>_ d. if revokes_file p d then d\<lparr>de_revoked_at := at\<rparr> else d) (deletions st))"
    by (rule all_entries_map [OF catalog_invD(2) [OF assms]]) (auto simp: dv_wf_def de_key_def)
  with assms show ?thesis
    by (simp add: revoke_deletions_for_file_def Let_def cat_simps catalog_inv_def)
qed

lemma update_table_all:
  "update_table ts t0 = Inr (Some t) \<Longrightarrow> (\<forall>x \<in> set ts. x = t) \<and> (t0 = None \<or> t0 = Some t)"
  by (induction ts t0 rule: update_table.induct) (auto split: if_splits)

lemma check_update_deletions_ok:
  "check_update_deletions st es = Inr u \<Longrightarrow>
    \<forall>e \<in> set es. de_card e \<noteq> 0 \<and> de_dv_id e \<noteq> [] \<and> \<not> anchor_dead st e"
  by (induction es) (auto split: if_splits)

lemma apply_update_cases:
  obtains (unchanged) r where "apply_update es nfs upd now st = (r, st)"
      "\<And>v. r = Inr v \<Longrightarrow> v = snapshot_version st"
  | (updated) t ff fd st' where "apply_update es nfs upd now st = (Inr (Suc (snapshot_version st)), st')"
      "ff = fresh_update_files st nfs" "fd = fresh_update_dvs st es" "ff \<noteq> [] \<or> fd \<noteq> []"
      "\<forall>f \<in> set nfs. normalize_table (fm_table f) = t" "\<forall>e \<in> set es. normalize_table (de_table e) = t"
      "\<forall>e \<in> set fd. de_card e \<noteq> 0 \<and> de_dv_id e \<noteq> [] \<and> \<not> anchor_dead st e"
      "snapshot_version st' = Suc (snapshot_version st)"
      "files st' = bm_insert_all
        (map (\<lambda>f. (fm_batch_id f, updated_file (Suc (snapshot_version st)) f)) ff) (files st)"
      "deletions st' = bm_insert_all
        (map (\<lambda>e. (de_key e, registered (Suc (snapshot_version st)) e)) fd) (deletions st)"
      "manifest_ver st' = Suc (manifest_ver st)" "schema_ver st' = Suc (schema_ver st)"
      "table_manifest_ver st' =
        bm_insert (normalize_table t) (Suc (manifest_ver st)) (table_manifest_ver st)"
      "in_flight st' = in_flight st" "tables st' = tables st"
proof -
  let ?ts = "map (\<lambda>f. normalize_table (fm_table f)) nfs @ map (\<lambda>e. normalize_table (de_table e)) es"
  let ?ff = "fresh_update_files st nfs" and ?fd = "fresh_update_dvs st es"
  show thesis
  proof (cases "\<exists>t u. update_table ?ts None = Inr (Some t) \<and> (?ff \<noteq> [] \<or> ?fd \<noteq> []) \<and>
      check_update_deletions st ?fd = Inr u")
    case False
    then have "snd (apply_update es nfs upd now st) = st"
      "\<And>v. fst (apply_update es nfs upd now st) = Inr v \<Longrightarrow> v = snapshot_version st"
      by (auto simp: apply_update_def Let_def split: sum.splits option.splits if_splits)
    then show thesis by (metis prod.collapse unchanged)
  next
    case True
    then obtain t u where *: "update_table ?ts None = Inr (Some t)" "?ff \<noteq> [] \<or> ?fd \<noteq> []"
      "check_update_deletions st ?fd = Inr u" by blast
    have ids: "\<not> list_ex (\<lambda>f. fm_batch_id f = []) ?ff"
      by (auto simp: fresh_update_files_def list_ex_iff)
    have "apply_update es nfs upd now st =
        (Inr (fst (commit_update t ?ff ?fd upd now st)), snd (commit_update t ?ff ?fd upd now st))"
      using * ids by (auto simp: apply_update_def Let_def)
    moreover have "\<forall>x \<in> set ?ts. x = t" using update_table_all [OF *(1)] by blast
    ultimately show thesis
      by (intro updated [where t = t and ff = ?ff and fd = ?fd and
             st' = "snd (commit_update t ?ff ?fd upd now st)", OF _ refl refl *(2)])
         (use check_update_deletions_ok [OF *(3)] in
           \<open>simp_all add: commit_update_def Let_def cat_simps insert_update_files_def
             insert_deletions_def\<close>)
  qed
qed

lemma inv_apply_update:
  assumes "catalog_inv st"
  shows "catalog_inv (snd (apply_update es nfs upd now st))"
proof (cases rule: apply_update_cases [of es nfs upd now st])
  case (updated t ff fd st')
  have "all_entries (dv_wf (Suc (snapshot_version st))) (deletions st')"
    unfolding updated(10) using updated(7) catalog_invD(5) [OF assms] by (auto intro: dvs_wf_insert_all)
  moreover have "all_entries (file_wf (Suc (snapshot_version st))) (files st')"
    unfolding updated(9) using catalog_invD(4) [OF assms]
    by (rule all_entries_insert_all) (auto simp: file_wf_def updated_file_def)
  ultimately have "catalog_inv st'"
    by (intro catalog_invI [OF assms]) (simp_all add: updated(8-13) catalog_invD [OF assms] versions_next)
  with updated(1) show ?thesis by simp
qed (use assms in simp)

lemma purge_cases:
  obtains (unchanged) r where "purge_table_files table pid now st = (r, st)"
      "bm_get (purged st) pid = None \<Longrightarrow> \<exists>e. r = Inl e"
  | (noted) out where "purge_table_files table pid now st =
        (Inr out, st\<lparr>purged := bm_insert pid (snapshot_version st) (purged st)\<rparr>)"
      "pid \<noteq> []" "bm_get (purged st) pid = None" "purge_victims (normalize_table table) st = []"
  | (purged) out st' where "purge_table_files table pid now st = (Inr out, st')"
      "pid \<noteq> []" "bm_get (purged st) pid = None" "purge_victims (normalize_table table) st \<noteq> []"
      "snapshot_version st' = Suc (snapshot_version st)" "po_snapshot out = Suc (snapshot_version st)"
      "files st' = bm_map (\<lambda>_ f. if fm_batch_id f \<in> set (purge_victims (normalize_table table) st)
         then f\<lparr>fm_deleted_at := Suc (snapshot_version st)\<rparr> else f) (files st)"
      "deletions st' = bm_map (\<lambda>_ d. if purge_hits_dv (normalize_table table) d
         then d\<lparr>de_revoked_at := Suc (snapshot_version st)\<rparr> else d) (deletions st)"
      "manifest_ver st' = Suc (manifest_ver st)"
      "table_manifest_ver st' = bm_insert (normalize_table (normalize_table table))
         (Suc (manifest_ver st)) (table_manifest_ver st)"
      "purged st' = bm_insert pid (Suc (snapshot_version st)) (purged st)"
      "in_flight st' = in_flight st" "tables st' = tables st"
proof -
  let ?k = "normalize_table table"
  let ?r = "purge_table_files table pid now st"
  consider (a) "pid = [] \<or> bm_get (purged st) pid \<noteq> None"
    | (b) "pid \<noteq> []" "bm_get (purged st) pid = None" "purge_victims ?k st = []"
    | (c) "pid \<noteq> []" "bm_get (purged st) pid = None" "purge_victims ?k st \<noteq> []"
    by blast
  then show thesis
  proof cases
    case a
    then have "snd ?r = st" "bm_get (purged st) pid = None \<Longrightarrow> \<exists>e. fst ?r = Inl e"
      by (auto simp: purge_table_files_def Let_def)
    then show thesis by (metis prod.collapse unchanged)
  next
    case b
    then show thesis by (intro noted) (auto simp: purge_table_files_def Let_def)
  next
    case c
    show thesis
      by (rule purged [of "projr (fst ?r)" "snd ?r"])
         (use c in \<open>simp_all add: purge_table_files_def Let_def cat_simps\<close>)
  qed
qed

lemma inv_purge:
  assumes "catalog_inv st"
  shows "catalog_inv (snd (purge_table_files table pid now st))"
proof (cases rule: purge_cases [of table pid now st])
  case (noted out)
  with assms show ?thesis by (simp add: catalog_inv_def)
next
  case (purged out st')
  have "all_entries (file_wf (Suc (snapshot_version st))) (files st')"
    unfolding purged(7) by (rule all_entries_map [OF catalog_invD(4) [OF assms]]) (auto simp: file_wf_def)
  moreover have "all_entries (dv_wf (Suc (snapshot_version st))) (deletions st')"
    unfolding purged(8)
    by (rule all_entries_map [OF catalog_invD(5) [OF assms]]) (auto simp: dv_wf_def de_key_def)
  ultimately have "catalog_inv st'"
    by (intro catalog_invI [OF assms])
       (simp_all add: purged(5,9,10) catalog_invD [OF assms] versions_next)
  with purged(1) show ?thesis by simp
qed (use assms in simp)

subsubsection \<open>Compaction\<close>

lemma add_output_fields [cat_simps]:
  "files (add_output n nf st) = bm_insert (fm_batch_id nf) (compacted_file n nf) (files st)"
  "in_flight (add_output n nf st) = bm_remove (fm_batch_id nf) (in_flight st)"
  "purged (add_output n nf st) = purged st"
  "deletions (add_output n nf st) = deletions st"
  "snapshot_version (add_output n nf st) = snapshot_version st"
  "manifest_ver (add_output n nf st) = manifest_ver st"
  "table_manifest_ver (add_output n nf st) = table_manifest_ver st"
  "last_applied (add_output n nf st) = last_applied st"
  "tables (add_output n nf st) = tables st"
  "schema_ver (add_output n nf st) = schema_ver st"
  "leases (add_output n nf st) = leases st"
  by (simp_all add: add_output_def clear_in_flight_def Let_def)

lemma add_outputs_files [cat_simps]:
  "files (fold (add_output n) nfs st) =
     bm_insert_all (map (\<lambda>nf. (fm_batch_id nf, compacted_file n nf)) nfs) (files st)"
  by (induction nfs arbitrary: st) (simp_all add: cat_simps)

lemma add_outputs_fields [cat_simps]:
  "deletions (fold (add_output n) nfs st) = deletions st"
  "purged (fold (add_output n) nfs st) = purged st"
  "snapshot_version (fold (add_output n) nfs st) = snapshot_version st"
  "manifest_ver (fold (add_output n) nfs st) = manifest_ver st"
  "table_manifest_ver (fold (add_output n) nfs st) = table_manifest_ver st"
  "last_applied (fold (add_output n) nfs st) = last_applied st"
  "tables (fold (add_output n) nfs st) = tables st"
  "schema_ver (fold (add_output n) nfs st) = schema_ver st"
  "leases (fold (add_output n) nfs st) = leases st"
  by (rule fold_frame, rule add_output_fields)+

lemma bump_manifests_fields [cat_simps]:
  "files (fold bump_manifest_ver ts st) = files st"
  "purged (fold bump_manifest_ver ts st) = purged st"
  "deletions (fold bump_manifest_ver ts st) = deletions st"
  "snapshot_version (fold bump_manifest_ver ts st) = snapshot_version st"
  "last_applied (fold bump_manifest_ver ts st) = last_applied st"
  "in_flight (fold bump_manifest_ver ts st) = in_flight st"
  "tables (fold bump_manifest_ver ts st) = tables st"
  "schema_ver (fold bump_manifest_ver ts st) = schema_ver st"
  "leases (fold bump_manifest_ver ts st) = leases st"
  by (rule fold_frame, rule bump_manifest_ver_fields)+

lemma bump_manifests_ver:
  "manifest_ver (fold bump_manifest_ver ts st) = manifest_ver st + length ts"
  by (induction ts arbitrary: st) (simp_all add: cat_simps)

lemma bump_manifests_bound:
  "all_entries (\<lambda>_ v. v \<le> manifest_ver st) (table_manifest_ver st) \<Longrightarrow>
    all_entries (\<lambda>_ v. v \<le> manifest_ver (fold bump_manifest_ver ts st))
      (table_manifest_ver (fold bump_manifest_ver ts st))"
  by (induction ts arbitrary: st) (auto simp: cat_simps versions_next)

definition retired :: "nat \<Rightarrow> file_manifest \<Rightarrow> file_manifest" where
  "retired next f = (if fm_deleted_at f = 0 then f\<lparr>fm_deleted_at := next\<rparr> else f)"

lemma bm_get_retire:
  "bm_get (retire_input n b fs) k = (if k = b then map_option (retired n) (bm_get fs k) else bm_get fs k)"
  by (auto simp: retire_input_def retired_def bm_simps split: option.split)

lemma retired_idem [simp]: "retired n (retired n f) = retired n f"
  by (simp add: retired_def)

lemma bm_get_retire_all:
  "bm_get (fold (retire_input n) ids fs) k =
     (if k \<in> set ids then map_option (retired n) (bm_get fs k) else bm_get fs k)"
  by (induction ids arbitrary: fs) (auto simp: bm_get_retire option.map_comp o_def)

lemma commit_compaction_cases:
  obtains (refused) e where "commit_compaction old nfs ep p st = (Inl e, st)"
      "fenced p ep st \<or> (\<exists>b \<in> set old. input_offline st b)"
  | (committed) st' where "commit_compaction old nfs ep p st = (Inr (Suc (snapshot_version st)), st')"
      "\<not> fenced p ep st" "\<forall>b \<in> set old. \<not> input_offline st b"
      "snapshot_version st' = Suc (snapshot_version st)"
      "files st' = bm_insert_all
         (map (\<lambda>nf. (fm_batch_id nf, compacted_file (Suc (snapshot_version st)) nf)) nfs)
         (fold (retire_input (Suc (snapshot_version st))) old (files st))"
      "deletions st' = deletions st" "tables st' = tables st"
      "manifest_ver st' = manifest_ver st + length (touched_tables old nfs (files st))"
      "\<exists>s. manifest_ver s = manifest_ver st \<and> table_manifest_ver s = table_manifest_ver st \<and>
         table_manifest_ver st' =
         table_manifest_ver (fold bump_manifest_ver (touched_tables old nfs (files st)) s)"
proof -
  let ?r = "commit_compaction old nfs ep p st"
  consider (a) "fenced p ep st" | (b) "\<not> fenced p ep st" "list_ex (input_offline st) old"
    | (c) "\<not> fenced p ep st" "\<not> list_ex (input_offline st) old" by blast
  then show thesis
  proof cases
    case a
    then show thesis by (intro refused) (simp_all add: commit_compaction_def)
  next
    case b
    then show thesis by (intro refused) (auto simp: commit_compaction_def list_ex_iff)
  next
    case c
    show thesis
    proof (rule committed [of "snd ?r"])
      show "?r = (Inr (Suc (snapshot_version st)), snd ?r)" "\<not> fenced p ep st"
        using c by (simp_all add: commit_compaction_def Let_def cat_simps)
      show "\<forall>b \<in> set old. \<not> input_offline st b"
        using c(2) by (simp add: list_ex_iff)
      show "\<exists>s. manifest_ver s = manifest_ver st \<and> table_manifest_ver s = table_manifest_ver st \<and>
          table_manifest_ver (snd ?r) =
          table_manifest_ver (fold bump_manifest_ver (touched_tables old nfs (files st)) s)"
        using c by (auto simp: commit_compaction_def Let_def cat_simps split: list.split
            intro!: exI [of _ "bump_applied (fold (add_output (Suc (snapshot_version st))) nfs
              (snd (next_snapshot st)\<lparr>files := fold (retire_input (Suc (snapshot_version st))) old
                 (files st)\<rparr>))"])
    qed (use c in \<open>auto simp: commit_compaction_def Let_def cat_simps bump_manifests_ver split: list.split\<close>)
  qed
qed

lemma inv_compaction:
  assumes "catalog_inv st"
  shows "catalog_inv (snd (commit_compaction old nfs ep p st))"
proof (cases rule: commit_compaction_cases [of old nfs ep p st])
  case (committed st')
  let ?v = "Suc (snapshot_version st)"
  have "all_entries (file_wf ?v) (fold (retire_input ?v) old (files st))"
    using catalog_invD(4) [OF assms]
    by (auto simp: all_entries_def bm_get_retire_all retired_def file_wf_def)
  then have "all_entries (file_wf ?v) (files st')"
    unfolding committed(5)
    by (rule all_entries_insert_all) (auto simp: file_wf_def compacted_file_def)
  moreover obtain s where s: "manifest_ver s = manifest_ver st" "table_manifest_ver s = table_manifest_ver st"
      "table_manifest_ver st' = table_manifest_ver (fold bump_manifest_ver (touched_tables old nfs (files st)) s)"
    using committed(9) by blast
  have "manifest_ver st' = manifest_ver (fold bump_manifest_ver (touched_tables old nfs (files st)) s)"
    by (simp add: committed(8) s(1) bump_manifests_ver)
  then have "all_entries (\<lambda>_ v. v \<le> manifest_ver st') (table_manifest_ver st')"
    using bump_manifests_bound [of s "touched_tables old nfs (files st)"] catalog_invD(3) [OF assms] s
    by simp
  ultimately have "catalog_inv st'"
    by (intro catalog_invI [OF assms]) (simp_all add: committed(4,6) catalog_invD [OF assms])
  with committed(1) show ?thesis by simp
qed (use assms in simp)

subsection \<open>Runs\<close>

lemmas inv_ops = inv_frame_ops inv_evolve inv_drop_table inv_drop_shard inv_commit_files
  inv_apply_deletions inv_revoke inv_apply_update inv_purge inv_compaction

lemma sm_step_inv: "catalog_inv st \<Longrightarrow> catalog_inv (sm_step cx st x)"
  by (cases x) (simp_all add: sm_step_def Let_def inv_ops)

definition counters_grow :: "catalog_state \<Rightarrow> catalog_state \<Rightarrow> bool" where
  "counters_grow a b \<longleftrightarrow>
     snapshot_version a \<le> snapshot_version b \<and> last_applied a \<le> last_applied b \<and>
     schema_ver a \<le> schema_ver b \<and> manifest_ver a \<le> manifest_ver b"

lemma counters_grow_ddl:
  "counters_grow st (snd (create_schema name st))"
  "counters_grow st (snd (drop_schema name st))"
  "counters_grow st (snd (create_table ser creq now st))"
  "counters_grow st (snd (register_datanode m st))"
  "counters_grow st (snd (remove_datanode i st))"
  "counters_grow st (snd (drop_table name st))"
  "counters_grow st (snd (evolve_schema ser deser dbg ereq now st))"
  by (auto simp: counters_grow_def create_schema_def drop_schema_def create_table_def
      register_datanode_def remove_datanode_def drop_table_def evolve_schema_def Let_def cat_simps
      split: option.split sum.split)

lemma counters_grow_small:
  "counters_grow st (snd (acquire_lease p h now ttl st))"
  "counters_grow st (snd (renew_lease p h e now ttl st))"
  "counters_grow st (snd (release_lease p h e st))"
  "counters_grow st (record_in_flight b now st)"
  "counters_grow st (snd (sweep_expired_in_flight ttl now st))"
  "counters_grow st (record_idempotency rec st)"
  by (auto simp: counters_grow_def lease_op_defs record_in_flight_def sweep_expired_in_flight_def
      record_idempotency_def split: option.split)

lemma counters_grow_commit: "counters_grow st (snd (commit_files req now st))"
  by (simp add: counters_grow_def commit_files_def Let_def cat_simps claim_keys_def clear_in_flight_def)

lemma counters_grow_shard: "counters_grow st (snd (drop_shard table shard now st))"
  by (simp add: counters_grow_def drop_shard_def Let_def cat_simps)

lemma counters_grow_deletions:
  "counters_grow st (snd (apply_deletions es now st))"
  "counters_grow st (snd (revoke_deletions_for_file p at now st))"
  by (auto simp: counters_grow_def apply_deletions_def revoke_deletions_for_file_def
      insert_deletions_def Let_def cat_simps split: sum.split)

lemma counters_grow_commit_update: "counters_grow st (snd (commit_update t ff fd u now st))"
  by (simp add: counters_grow_def commit_update_def insert_update_files_def insert_deletions_def
      Let_def cat_simps)

lemma counters_grow_refl [simp]: "counters_grow st st"
  by (simp add: counters_grow_def)

lemma counters_grow_update: "counters_grow st (snd (apply_update es nfs u now st))"
  by (simp add: apply_update_def Let_def counters_grow_commit_update split: sum.split option.split)

lemma counters_grow_purge: "counters_grow st (snd (purge_table_files t pid now st))"
  by (auto simp: counters_grow_def purge_table_files_def Let_def cat_simps split: option.split)

lemma counters_grow_compaction: "counters_grow st (snd (commit_compaction old nfs ep p st))"
  by (auto simp: counters_grow_def commit_compaction_def Let_def cat_simps bump_manifests_ver
      split: list.split)

lemmas counters_grow_ops = counters_grow_ddl counters_grow_small counters_grow_commit
  counters_grow_shard counters_grow_deletions counters_grow_update counters_grow_purge
  counters_grow_compaction

lemma sm_step_counters: "counters_grow st (sm_step cx st x)"
  by (cases x) (simp_all add: sm_step_def Let_def counters_grow_ops)

interpretation counters: guarded_machine "sm_step cx" catalog_inv "\<lambda>_ _. True" counters_grow for cx
  by unfold_locales (auto simp: sm_step_inv sm_step_counters, auto simp: counters_grow_def)

lemma run_ok_True: "run_ok step (\<lambda>_ _. True) s xs"
  by (induction xs arbitrary: s) auto

text \<open>C11: Every reachable catalog state is well formed, and its counters only grow. Whatever operations
  a replica applies from the initial state, files and deletion vectors sit under their own keys, none
  of them is stamped later than the current snapshot, no vector is empty, no table's manifest version
  exceeds the global one; and the snapshot, apply, schema and manifest counters never fall.\<close>

theorem reachable_wf_and_monotone:
  "catalog_inv (sm_run cx new_state ops) \<and>
    counters_grow (sm_run cx new_state ops) (sm_run cx new_state (ops @ ops'))"
proof -
  have inv: "catalog_inv (sm_run cx new_state ops)"
    unfolding sm_run_def by (rule counters.run_inv [OF catalog_inv_new])
  moreover have "counters_grow (sm_run cx new_state ops) (sm_run cx (sm_run cx new_state ops) ops')"
    using counters.run_rel [OF inv run_ok_True] by (simp add: sm_run_def)
  ultimately show ?thesis by (simp add: sm_run_append)
qed

end
