(* ===== verification/Catalog_Views.thy ===== *)
theory Catalog_Views
  imports Catalog_Machine
begin

text \<open>
  What a query at a snapshot sees. \<open>table_view\<close> is the pair of listings a reader combines, the visible
  files of the table and the deletion vectors active on each of them, with the two stamps that later
  operations may still set (\<open>deleted_at\<close>, \<open>revoked_at\<close>) left out. The theorems say that a view, once
  its snapshot number has been issued, never changes, and what each commit does to the next one.
\<close>

definition pin :: "file_manifest \<Rightarrow> file_manifest" where
  "pin f = f\<lparr>fm_deleted_at := 0\<rparr>"

definition pin_dv :: "deletion_entry \<Rightarrow> deletion_entry" where
  "pin_dv d = d\<lparr>de_revoked_at := 0\<rparr>"

definition table_view ::
  "string \<Rightarrow> nat \<Rightarrow> catalog_state \<Rightarrow> (file_manifest \<times> deletion_entry list) list" where
  "table_view table s st =
     map (\<lambda>f. (pin f, map pin_dv (filter (\<lambda>d. de_file_path d = fm_file_path f) (list_deletions table s st))))
       (list_visible_files table s None st)"

text \<open>The pointwise form of the two listings.\<close>

definition vis :: "string \<Rightarrow> nat \<Rightarrow> file_manifest option \<Rightarrow> file_manifest option" where
  "vis key s x =
     (case x of
        Some f \<Rightarrow> if normalize_table (fm_table f) = key \<and> visible_at f s then Some (pin f) else None
      | None \<Rightarrow> None)"

definition act :: "string \<Rightarrow> nat \<Rightarrow> deletion_entry option \<Rightarrow> deletion_entry option" where
  "act key s x =
     (case x of
        Some d \<Rightarrow> if de_table d = key \<and> active_at d s then Some (pin_dv d) else None
      | None \<Rightarrow> None)"

lemma pin_path [simp]: "fm_file_path (pin f) = fm_file_path f"
  by (simp add: pin_def)

lemma pin_dv_path [simp]: "de_file_path (pin_dv d) = de_file_path d"
  by (simp add: pin_dv_def)

definition vis_files :: "string \<Rightarrow> nat \<Rightarrow> catalog_state \<Rightarrow> file_manifest list" where
  "vis_files key s st = bm_values (bm_map (\<lambda>_. pin)
     (bm_filter (\<lambda>_ f. normalize_table (fm_table f) = key \<and> visible_at f s) (files st)))"

definition act_dvs :: "string \<Rightarrow> nat \<Rightarrow> string \<Rightarrow> catalog_state \<Rightarrow> deletion_entry list" where
  "act_dvs key s path st = bm_values (bm_map (\<lambda>_. pin_dv)
     (bm_filter (\<lambda>_ d. de_file_path d = path \<and> de_table d = key \<and> active_at d s) (deletions st)))"

lemma list_visible_vis:
  "map pin (list_visible_files table s None st) = vis_files (normalize_table table) s st"
  by (simp add: list_visible_files_def vis_files_def Let_def bm_values_map bm_values_filter conj_commute)

lemma list_deletions_act:
  "map pin_dv (filter (\<lambda>d. de_file_path d = path) (list_deletions table s st)) =
    act_dvs (normalize_table table) s path st"
  by (simp add: list_deletions_def act_dvs_def Let_def bm_values_map bm_values_filter conj_ac)

lemma table_view_alt:
  "table_view table s st =
    map (\<lambda>g. (g, act_dvs (normalize_table table) s (fm_file_path g) st))
      (vis_files (normalize_table table) s st)"
  by (simp add: table_view_def list_visible_vis [symmetric] list_deletions_act o_def)

lemma vis_pointwise:
  "bm_get (bm_map (\<lambda>_. pin)
     (bm_filter (\<lambda>_ f. normalize_table (fm_table f) = key \<and> visible_at f s) m)) k = vis key s (bm_get m k)"
  by (cases "bm_get m k") (simp_all add: bm_simps vis_def)

lemma vis_files_eqI:
  assumes "\<And>k. vis key s (bm_get (files st') k) = vis key s (bm_get (files st) k)"
  shows "vis_files key s st' = vis_files key s st"
  unfolding vis_files_def
  by (intro arg_cong [where f = bm_values] bm_eqI) (simp add: vis_pointwise assms)

lemma vis_files_path:
  "g \<in> set (vis_files key s st) \<longleftrightarrow>
    (\<exists>k f. bm_get (files st) k = Some f \<and> normalize_table (fm_table f) = key \<and> visible_at f s \<and> g = pin f)"
proof -
  have "g \<in> set (vis_files key s st) \<longleftrightarrow> (\<exists>k. vis key s (bm_get (files st) k) = Some g)"
    by (simp add: vis_files_def bm_values_iff vis_pointwise)
  then show ?thesis by (auto simp: vis_def split: option.splits if_splits)
qed

text \<open>A vector may differ between two states only where no visible file has its path.\<close>

definition path_seen :: "string \<Rightarrow> nat \<Rightarrow> catalog_state \<Rightarrow> string \<Rightarrow> bool" where
  "path_seen key s st path = (\<exists>g \<in> set (vis_files key s st). fm_file_path g = path)"

definition act_on :: "string \<Rightarrow> nat \<Rightarrow> string \<Rightarrow> deletion_entry option \<Rightarrow> deletion_entry option" where
  "act_on key s path x =
     (case act key s x of Some d \<Rightarrow> if de_file_path d = path then Some d else None | None \<Rightarrow> None)"

lemma act_pointwise:
  "bm_get (bm_map (\<lambda>_. pin_dv)
     (bm_filter (\<lambda>_ d. de_file_path d = path \<and> de_table d = key \<and> active_at d s) m)) k =
   act_on key s path (bm_get m k)"
  by (cases "bm_get m k") (simp_all add: bm_simps act_def act_on_def)

lemma act_dvs_eqI:
  assumes "\<And>k. act_on key s path (bm_get (deletions st') k) = act_on key s path (bm_get (deletions st) k)"
  shows "act_dvs key s path st' = act_dvs key s path st"
  unfolding act_dvs_def
  by (intro arg_cong [where f = bm_values] bm_eqI) (simp add: act_pointwise assms)

lemma table_view_eqI:
  assumes "\<And>k. vis (normalize_table table) s (bm_get (files st') k) =
      vis (normalize_table table) s (bm_get (files st) k)"
    and "\<And>k path. path_seen (normalize_table table) s st path \<Longrightarrow>
      act_on (normalize_table table) s path (bm_get (deletions st') k) =
      act_on (normalize_table table) s path (bm_get (deletions st) k)"
  shows "table_view table s st' = table_view table s st"
proof -
  have "act_dvs (normalize_table table) s (fm_file_path g) st' =
      act_dvs (normalize_table table) s (fm_file_path g) st"
    if "g \<in> set (vis_files (normalize_table table) s st)" for g
    using that assms(2) by (intro act_dvs_eqI) (auto simp: path_seen_def)
  then show ?thesis
    unfolding table_view_alt by (simp add: vis_files_eqI [OF assms(1)])
qed

subsection \<open>Which steps respect a table's past\<close>

text \<open>
  The side conditions under which the operations are issued. A compaction writes new objects, so its
  outputs have new batch ids; the revocation that follows a compaction names a file which the
  compaction has taken offline at or before the given snapshot; dropping the table itself is the one
  operation that destroys its past.
\<close>

fun keeps_past :: "string \<Rightarrow> catalog_state \<Rightarrow> state_op \<Rightarrow> bool" where
  "keeps_past table st (OpDropTable name _) = (normalize_table name \<noteq> normalize_table table)"
| "keeps_past table st (OpCompaction _ nfs _ _ _) = (\<forall>nf \<in> set nfs. \<not> bm_has (files st) (fm_batch_id nf))"
| "keeps_past table st (OpRevokeDeletions path at _) =
     (snapshot_version st < at \<or>
      (\<forall>f \<in> set (bm_values (files st)). fm_file_path f = path \<longrightarrow>
         fm_deleted_at f \<noteq> 0 \<and> fm_deleted_at f \<le> at))"
| "keeps_past table st _ = True"

definition view_frozen :: "string \<Rightarrow> catalog_state \<Rightarrow> catalog_state \<Rightarrow> bool" where
  "view_frozen table a b \<longleftrightarrow>
     snapshot_version a \<le> snapshot_version b \<and>
     (\<forall>s \<le> snapshot_version a. table_view table s b = table_view table s a)"

lemma view_frozen_refl [simp]: "view_frozen table a a"
  by (simp add: view_frozen_def)

lemma view_frozen_trans: "view_frozen table a b \<Longrightarrow> view_frozen table b c \<Longrightarrow> view_frozen table a c"
  by (auto simp: view_frozen_def)

lemma view_frozen_frame:
  "files b = files a \<Longrightarrow> deletions b = deletions a \<Longrightarrow> snapshot_version a \<le> snapshot_version b \<Longrightarrow>
    view_frozen table a b"
  by (simp add: view_frozen_def table_view_def list_visible_files_def list_deletions_def)

lemma vis_young: "s < fm_valid_from f \<Longrightarrow> vis key s (Some f) = None"
  by (simp add: vis_def visible_at_def)

lemma vis_retire:
  "fm_deleted_at f = 0 \<Longrightarrow> s < n \<Longrightarrow> vis key s (Some (f\<lparr>fm_deleted_at := n\<rparr>)) = vis key s (Some f)"
  by (simp add: vis_def visible_at_def protects_at_def pin_def)

lemma act_young: "s < de_applied_at d \<Longrightarrow> act key s (Some d) = None"
  by (simp add: act_def active_at_def)

lemma act_revoke:
  "de_revoked_at d = 0 \<Longrightarrow> s < n \<Longrightarrow> act key s (Some (d\<lparr>de_revoked_at := n\<rparr>)) = act key s (Some d)"
  by (simp add: act_def active_at_def pin_dv_def)

lemma vis_map_option:
  "(\<And>f. x = Some f \<Longrightarrow> vis key s (Some (g f)) = vis key s (Some f)) \<Longrightarrow>
    vis key s (map_option g x) = vis key s x"
  by (cases x) auto

lemma act_map_option:
  "(\<And>d. x = Some d \<Longrightarrow> act key s (Some (g d)) = act key s (Some d)) \<Longrightarrow>
    act key s (map_option g x) = act key s x"
  by (cases x) auto

lemma vis_insert_all_young:
  assumes "\<forall>x \<in> set es. s < fm_valid_from (snd x) \<and> bm_get m (fst x) = None"
  shows "vis key s (bm_get (bm_insert_all es m) k) = vis key s (bm_get m k)"
proof (cases "map_of (rev es) k")
  case (Some f)
  then have "(k, f) \<in> set es" using map_of_SomeD [OF Some] by simp
  with assms have "s < fm_valid_from f" "bm_get m k = None" by auto
  with Some show ?thesis by (simp add: bm_get_insert_all vis_young) (simp add: vis_def)
qed (simp add: bm_get_insert_all)

lemma act_insert_all_young:
  assumes "\<forall>x \<in> set es. s < de_applied_at (snd x) \<and> bm_get m (fst x) = None"
  shows "act key s (bm_get (bm_insert_all es m) k) = act key s (bm_get m k)"
proof (cases "map_of (rev es) k")
  case (Some d)
  then have "(k, d) \<in> set es" using map_of_SomeD [OF Some] by simp
  with assms have "s < de_applied_at d" "bm_get m k = None" by auto
  with Some show ?thesis by (simp add: bm_get_insert_all act_young) (simp add: act_def)
qed (simp add: bm_get_insert_all)

lemma view_frozenI:
  assumes "snapshot_version a \<le> snapshot_version b"
    and "\<And>s k. s \<le> snapshot_version a \<Longrightarrow>
      vis (normalize_table table) s (bm_get (files b) k) = vis (normalize_table table) s (bm_get (files a) k)"
    and "\<And>s k. s \<le> snapshot_version a \<Longrightarrow>
      act (normalize_table table) s (bm_get (deletions b) k) =
      act (normalize_table table) s (bm_get (deletions a) k)"
  shows "view_frozen table a b"
  unfolding view_frozen_def
  using assms by (auto intro!: table_view_eqI simp: act_on_def)

subsection \<open>Every step respects it\<close>

lemma frozen_same_files:
  "view_frozen table st (snd (create_schema name st))"
  "view_frozen table st (snd (drop_schema name st))"
  "view_frozen table st (snd (create_table ser creq now st))"
  "view_frozen table st (snd (evolve_schema ser deser dbg ereq now st))"
  "view_frozen table st (snd (register_datanode m st))"
  "view_frozen table st (snd (remove_datanode i st))"
  "view_frozen table st (snd (acquire_lease p h now ttl st))"
  "view_frozen table st (snd (renew_lease p h e now ttl st))"
  "view_frozen table st (snd (release_lease p h e st))"
  "view_frozen table st (record_in_flight b now st)"
  "view_frozen table st (snd (sweep_expired_in_flight ttl now st))"
  "view_frozen table st (record_idempotency rec st)"
  by (rule view_frozen_frame;
      auto simp: create_schema_def drop_schema_def create_table_def evolve_schema_def
        register_datanode_def remove_datanode_def lease_op_defs record_in_flight_def
        sweep_expired_in_flight_def record_idempotency_def Let_def cat_simps
        split: option.split sum.split)+

lemma frozen_drop_table:
  assumes "table \<noteq> []" "normalize_table name \<noteq> normalize_table table"
  shows "view_frozen table st (snd (drop_table name st))"
proof (cases "bm_has (tables st) (normalize_table name)")
  case True
  show ?thesis
    using assms(2) normalize_idem [OF assms(1)]
    by (intro view_frozenI)
       (auto simp: drop_table_def Let_def True cat_simps bm_simps vis_def act_def split: option.splits)
qed (simp add: drop_table_def Let_def)

lemma frozen_drop_shard: "view_frozen table st (snd (drop_shard t sh now st))"
  by (intro view_frozenI)
     (auto simp: drop_shard_def Let_def cat_simps bm_simps in_shard_def vis_retire
       intro!: vis_map_option)

lemma frozen_commit: "view_frozen table st (snd (commit_files req now st))"
proof (cases rule: commit_files_cases [of req now st])
  case (accepted resp st')
  have "view_frozen table st st'"
    by (intro view_frozenI)
       (use accepted(4) in \<open>auto simp: accepted(6,8,9) bm_has_def committed_file_def
         intro!: vis_insert_all_young\<close>)
  with accepted(1) show ?thesis by simp
qed (simp_all add: clear_in_flight_def view_frozen_frame)

lemma frozen_apply_deletions: "view_frozen table st (snd (apply_deletions es now st))"
proof (cases rule: apply_deletions_cases [of es now st])
  case (registered fresh st')
  have "\<forall>e \<in> set fresh. bm_get (deletions st) (de_key e) = None" using registered(3) by blast
  then have "view_frozen table st st'"
    by (intro view_frozenI)
       (auto simp: registered(4-6) registered_def intro!: act_insert_all_young)
  with registered(1) show ?thesis by simp
qed simp

lemma frozen_apply_update: "view_frozen table st (snd (apply_update es nfs u now st))"
proof (cases rule: apply_update_cases [of es nfs u now st])
  case (updated t ff fd st')
  have "view_frozen table st st'"
    by (intro view_frozenI)
       (auto simp: updated(2,3,8-10) registered_def updated_file_def fresh_update_files_def
         fresh_update_dvs_def bm_has_def intro!: act_insert_all_young vis_insert_all_young)
  with updated(1) show ?thesis by simp
qed simp

lemma purge_victim_live:
  assumes "catalog_inv st" "bm_get (files st) k = Some f" "fm_batch_id f \<in> set (purge_victims key st)"
  shows "fm_deleted_at f = 0 \<and> normalize_table (fm_table f) = key"
proof -
  obtain f' k' where f': "bm_get (files st) k' = Some f'" "fm_batch_id f' = fm_batch_id f"
    "fm_deleted_at f' = 0" "normalize_table (fm_table f') = key"
    using assms(3) by (auto simp: purge_victims_def bm_values_iff)
  have "fm_batch_id f' = k'" "fm_batch_id f = k"
    using all_entriesD [OF catalog_invD(1) [OF assms(1)]] f'(1) assms(2) by (auto simp: file_wf_def)
  with f' assms(2) show ?thesis by simp
qed

lemma frozen_purge:
  assumes "catalog_inv st"
  shows "view_frozen table st (snd (purge_table_files t pid now st))"
proof (cases rule: purge_cases [of t pid now st])
  case (purged out st')
  have "view_frozen table st st'"
  proof (rule view_frozenI)
    fix s k
    assume s: "s \<le> snapshot_version st"
    show "vis (normalize_table table) s (bm_get (files st') k) =
        vis (normalize_table table) s (bm_get (files st) k)"
      unfolding purged(7) bm_get_map using purge_victim_live [OF assms, of k] s
      by (intro vis_map_option) (auto simp: vis_retire)
  next
    fix s k
    assume s: "s \<le> snapshot_version st"
    show "act (normalize_table table) s (bm_get (deletions st') k) =
        act (normalize_table table) s (bm_get (deletions st) k)"
      unfolding purged(8) bm_get_map using s
      by (intro act_map_option) (auto simp: purge_hits_dv_def act_revoke)
  qed (simp add: purged(5))
  with purged(1) show ?thesis by simp
qed (simp_all add: view_frozen_frame)

lemma frozen_compaction:
  assumes "\<forall>nf \<in> set nfs. \<not> bm_has (files st) (fm_batch_id nf)"
  shows "view_frozen table st (snd (commit_compaction old nfs ep p st))"
proof (cases rule: commit_compaction_cases [of old nfs ep p st])
  case (committed st')
  let ?n = "Suc (snapshot_version st)"
  have "view_frozen table st st'"
  proof (rule view_frozenI)
    fix s k
    assume s: "s \<le> snapshot_version st"
    have "vis (normalize_table table) s (bm_get (files st') k) =
        vis (normalize_table table) s (bm_get (fold (retire_input ?n) old (files st)) k)"
      unfolding committed(5) using assms s
      by (intro vis_insert_all_young) (auto simp: compacted_file_def bm_get_retire_all bm_has_def)
    also have "\<dots> = vis (normalize_table table) s (bm_get (files st) k)"
      using s by (cases "bm_get (files st) k") (auto simp: bm_get_retire_all retired_def vis_retire)
    finally show "vis (normalize_table table) s (bm_get (files st') k) =
        vis (normalize_table table) s (bm_get (files st) k)" .
  qed (simp_all add: committed(4,6))
  with committed(1) show ?thesis by simp
qed simp

lemma frozen_revoke:
  assumes "keeps_past table st (OpRevokeDeletions path at now)"
  shows "view_frozen table st (snd (revoke_deletions_for_file path at now st))"
  unfolding view_frozen_def
proof (intro conjI allI impI)
  let ?st' = "snd (revoke_deletions_for_file path at now st)" and ?t = "normalize_table table"
  have f: "files ?st' = files st" and d: "deletions ?st' = bm_map (\<lambda>_ d. if revokes_file path d
      then d\<lparr>de_revoked_at := at\<rparr> else d) (deletions st)"
    by (simp_all add: revoke_deletions_for_file_def Let_def cat_simps)
  show "snapshot_version st \<le> snapshot_version ?st'"
    by (simp add: revoke_deletions_for_file_def Let_def cat_simps)
  fix s
  assume s: "s \<le> snapshot_version st"
  show "table_view table s ?st' = table_view table s st"
  proof (rule table_view_eqI)
    fix k p
    assume seen: "path_seen ?t s st p"
    show "act_on ?t s p (bm_get (deletions ?st') k) = act_on ?t s p (bm_get (deletions st) k)"
    proof (cases "p = path \<and> at \<le> s")
      case True
      then obtain f k' where f: "bm_get (files st) k' = Some f" "visible_at f s" "fm_file_path f = path"
        using seen by (auto simp: path_seen_def vis_files_path)
      then have "f \<in> set (bm_values (files st))" by (auto simp: bm_values_iff)
      then have "fm_deleted_at f \<noteq> 0 \<and> fm_deleted_at f \<le> at"
        using assms f(3) s True by auto
      with f(2) True show ?thesis by (auto simp: visible_at_def protects_at_def)
    next
      case False
      show ?thesis
      proof (cases "bm_get (deletions st) k")
        case (Some e)
        with False show ?thesis
          by (cases "revokes_file path e")
             (auto simp: d bm_simps act_on_def revokes_file_def act_def active_at_def pin_dv_def)
      qed (simp add: d bm_simps)
    qed
  qed (simp add: f)
qed

lemma frozen_step:
  assumes "table \<noteq> []" "catalog_inv st" "keeps_past table st x"
  shows "view_frozen table st (sm_step cx st x)"
  using assms
  by (cases x) (simp_all add: sm_step_def Let_def frozen_same_files frozen_drop_table frozen_drop_shard
      frozen_commit frozen_apply_deletions frozen_apply_update frozen_purge frozen_compaction frozen_revoke
      del: keeps_past.simps(3))

definition frozen_ok :: "string \<Rightarrow> catalog_state \<Rightarrow> state_op \<Rightarrow> bool" where
  "frozen_ok table st x = (table \<noteq> [] \<and> keeps_past table st x)"

interpretation frozen: guarded_machine "sm_step cx" catalog_inv "frozen_ok table" "view_frozen table"
  for cx table
  by unfold_locales (auto simp: sm_step_inv frozen_ok_def frozen_step intro: view_frozen_trans)

text \<open>C1: Snapshot isolation. In every reachable state, once a snapshot number has been issued, what a
  query of a table at that snapshot reads (its visible files and the deletion vectors active on
  them) is the same after any further operations: commits, deletes, updates, purges, dropped shards,
  compactions that write new objects and the revocations that follow them, and drops of other tables.\<close>

theorem snapshot_stable:
  assumes "table \<noteq> []"
    and "run_ok (sm_step cx) (frozen_ok table) (sm_run cx new_state pre) ops"
    and "s \<le> snapshot_version (sm_run cx new_state pre)"
  shows "table_view table s (sm_run cx new_state (pre @ ops)) = table_view table s (sm_run cx new_state pre)"
proof -
  have "catalog_inv (sm_run cx new_state pre)"
    unfolding sm_run_def by (rule counters.run_inv [OF catalog_inv_new])
  from frozen.run_rel [OF this assms(2)] assms(3) show ?thesis
    by (simp add: view_frozen_def sm_run_append) (simp add: sm_run_def)
qed

definition demo_file :: "string \<Rightarrow> file_manifest" where
  "demo_file b = \<lparr>fm_file_path = ''p/'' @ b, fm_batch_id = b, fm_client_request_id = [],
     fm_schema_version = 1, fm_status = 0, fm_valid_from = 0, fm_deleted_at = 0, fm_stats = None,
     fm_row_count = 10, fm_file_size = 100, fm_table = ''public.t'', fm_shard = ''s0'',
     fm_time_window = [], fm_partition_key = [], fm_source_instance = [], fm_sealed_at_ms = 0,
     fm_committed_at_ms = 0, fm_seal_reason = [], fm_seal_pressure = [], fm_index_path = [],
     fm_index_size = 0\<rparr>"

definition demo_commit :: "string \<Rightarrow> string \<Rightarrow> commit_files_request" where
  "demo_commit b k = \<lparr>cf_table = ''public.t'', cf_batch_id = b, cf_client_request_id = Some k,
     cf_client_request_ids = [], cf_shard = ''s0'', cf_time_window = [],
     cf_files = [demo_file b], cf_schema_version = 1, cf_row_count = 10\<rparr>"

definition demo_codecs :: codecs where
  "demo_codecs = \<lparr>cx_ser = (\<lambda>s. []), cx_deser = (\<lambda>b. Some []), cx_dbg = (\<lambda>t. []),
     cx_grant = (\<lambda>g. []), cx_purge = (\<lambda>f r n. [])\<rparr>"

theorem snapshot_stable_witness:
  "table_view ''public.t'' 1 (sm_run demo_codecs new_state
      ([OpRecordInFlight ''b1'' 1] @
       [OpCommitFiles (demo_commit ''b1'' ''k1'') 1000, OpDropShard ''public.t'' ''s0'' 2000])) =
   table_view ''public.t'' 1 (sm_run demo_codecs new_state [OpRecordInFlight ''b1'' 1])"
proof (rule snapshot_stable)
  show "1 \<le> snapshot_version (sm_run demo_codecs new_state [OpRecordInFlight ''b1'' 1])"
    by (simp add: sm_step_def record_in_flight_def new_state_def)
qed (simp_all add: frozen_ok_def)

subsection \<open>A compaction is one atomic swap\<close>

definition seen_at :: "nat \<Rightarrow> catalog_state \<Rightarrow> string \<Rightarrow> file_manifest option" where
  "seen_at s st b =
     (case bm_get (files st) b of
        Some f \<Rightarrow> if visible_at f s then Some (pin f) else None
      | None \<Rightarrow> None)"

lemma map_of_outputs:
  "distinct (map fm_batch_id nfs) \<Longrightarrow>
    map_of (rev (map (\<lambda>nf. (fm_batch_id nf, g nf)) nfs)) = map_of (map (\<lambda>nf. (fm_batch_id nf, g nf)) nfs)"
  by (rule map_of_inject_set [THEN iffD2]) (auto simp: o_def rev_map [symmetric])

text \<open>The three cases of a lookup after the swap: an output, an input, anything else.\<close>

lemma seen_at_swap:
  assumes "bm_get m b = None \<or> b \<notin> set old \<or> (\<exists>f. bm_get m b = Some f \<and> fm_deleted_at f = 0)"
    and "0 < v"
    and "bm_get (files st') b = (case x of Some g \<Rightarrow> Some g | None \<Rightarrow> bm_get (fold (retire_input v) old m) b)"
    and "\<And>g. x = Some g \<Longrightarrow> fm_deleted_at g = 0 \<and> fm_valid_from g = v \<and> bm_get m b = None"
    and "files st = m"
  shows "seen_at v st' b = (case x of Some g \<Rightarrow> Some g | None \<Rightarrow> if b \<in> set old then None else seen_at v st b)"
    and "s < v \<Longrightarrow> seen_at s st' b = seen_at s st b"
proof -
  show "seen_at v st' b = (case x of Some g \<Rightarrow> Some g | None \<Rightarrow> if b \<in> set old then None else seen_at v st b)"
  proof (cases x)
    case None
    with assms show ?thesis
      by (auto simp: seen_at_def bm_get_retire_all retired_def visible_at_def protects_at_def
          split: option.split)
  qed (use assms(3,4) in \<open>auto simp: seen_at_def visible_at_def protects_at_def pin_def\<close>)
  show "seen_at s st' b = seen_at s st b" if "s < v"
  proof (cases x)
    case None
    with assms that show ?thesis
      by (auto simp: seen_at_def bm_get_retire_all retired_def visible_at_def protects_at_def
          pin_def split: option.split)
  qed (use assms(3-5) that in \<open>auto simp: seen_at_def visible_at_def\<close>)
qed

text \<open>C2: A committed compaction is one atomic swap. At the snapshot it returns, which is the next one,
  every input has disappeared, every output is present, and every other file is seen exactly as it
  would have been without the compaction; at every earlier snapshot all files are seen as before.\<close>

theorem compaction_atomic_swap:
  assumes "commit_compaction old nfs ep p st = (Inr v, st')"
    and "\<forall>nf \<in> set nfs. \<not> bm_has (files st) (fm_batch_id nf) \<and> fm_deleted_at nf = 0"
    and "distinct (map fm_batch_id nfs)"
  shows "v = snapshot_version st + 1 \<and>
    (\<forall>b. seen_at v st' b =
      (case map_of (map (\<lambda>nf. (fm_batch_id nf, compacted_file v nf)) nfs) b of
         Some g \<Rightarrow> Some g
       | None \<Rightarrow> if b \<in> set old then None else seen_at v st b)) \<and>
    (\<forall>b s. s < v \<longrightarrow> seen_at s st' b = seen_at s st b)"
proof (cases rule: commit_compaction_cases [of old nfs ep p st])
  case (refused e)
  with assms(1) show ?thesis by simp
next
  case (committed st'')
  then have v: "v = Suc (snapshot_version st)" and st'': "st'' = st'" using assms(1) by auto
  let ?new = "map_of (map (\<lambda>nf. (fm_batch_id nf, compacted_file v nf)) nfs)"
  have get: "bm_get (files st') b = (case ?new b of Some g \<Rightarrow> Some g
      | None \<Rightarrow> bm_get (fold (retire_input v) old (files st)) b)" for b
    by (simp add: committed(5) [unfolded st'', folded v] bm_get_insert_all map_of_outputs [OF assms(3)]
        split: option.split)
  have new: "fm_deleted_at g = 0 \<and> fm_valid_from g = v \<and> bm_get (files st) b = None"
    if "?new b = Some g" for b g
    using map_of_SomeD [OF that] assms(2) by (auto simp: compacted_file_def bm_has_def)
  have live: "bm_get (files st) b = None \<or> b \<notin> set old \<or>
      (\<exists>f. bm_get (files st) b = Some f \<and> fm_deleted_at f = 0)" for b
    using committed(3) by (cases "bm_get (files st) b") (auto simp: input_offline_def)
  have "0 < v" by (simp add: v)
  from v seen_at_swap [OF live this get new refl] show ?thesis by simp
qed

definition demo_store :: catalog_state where
  "demo_store = new_state\<lparr>files := bm_insert ''b1'' (demo_file ''b1'')
     (bm_insert ''b2'' (demo_file ''b2'') bm_empty)\<rparr>"

theorem compaction_atomic_swap_witness:
  "seen_at 2 (snd (commit_compaction [''b1'', ''b2''] [demo_file ''c1''] 0 [] demo_store)) ''b1'' = None"
proof -
  have "\<exists>st'. commit_compaction [''b1'', ''b2''] [demo_file ''c1''] 0 [] demo_store = (Inr 2, st')"
    by (simp add: commit_compaction_def fenced_def input_offline_def demo_store_def new_state_def
        bm_simps demo_file_def next_snapshot_def)
  then obtain st' where ok:
    "commit_compaction [''b1'', ''b2''] [demo_file ''c1''] 0 [] demo_store = (Inr 2, st')" by blast
  have "\<forall>nf \<in> set [demo_file ''c1'']. \<not> bm_has (files demo_store) (fm_batch_id nf) \<and> fm_deleted_at nf = 0"
    by (simp add: demo_store_def demo_file_def bm_has_def bm_simps)
  from compaction_atomic_swap [OF ok this] ok show ?thesis by (simp add: demo_file_def)
qed

end
