(* ===== verification/Catalog_Commits.thy ===== *)
theory Catalog_Commits
  imports Catalog_Views
begin

text \<open>
  What single commits promise: an UPDATE switches both of its halves at one snapshot and may be
  replayed; a batch is committed exactly once, by batch id and by client request id; a purge takes a
  whole table offline once per purge id.
\<close>

subsection \<open>UPDATE\<close>

lemma get_inserted:
  assumes "f \<in> set fs"
  shows "\<exists>f' \<in> set fs. key f' = key f \<and> bm_get (bm_insert_all (map (\<lambda>f. (key f, g f)) fs) m) (key f) = Some (g f')"
proof -
  have "\<exists>y. map_of (rev (map (\<lambda>f. (key f, g f)) fs)) (key f) = Some y"
    using assms by (metis (no_types, lifting) image_eqI map_of_eq_None_iff not_None_eq list.set_map
        set_rev fst_conv)
  then obtain y where y: "map_of (rev (map (\<lambda>f. (key f, g f)) fs)) (key f) = Some y" by blast
  from map_of_SomeD [OF this] obtain f' where "f' \<in> set fs" "key f' = key f" "y = g f'" by auto
  with y show ?thesis by (auto simp: bm_get_insert_all)
qed

lemma visible_fresh:
  "fm_deleted_at f = 0 \<Longrightarrow> 0 < v \<Longrightarrow> visible_at (updated_file v f) s \<longleftrightarrow> v \<le> s"
  by (simp add: visible_at_def protects_at_def updated_file_def)

lemma active_registered: "active_at (registered v e) s \<longleftrightarrow> v \<le> s"
  by (simp add: active_at_def registered_def)

lemma update_files_switch:
  assumes "\<forall>f \<in> set nfs. fm_deleted_at f = 0" and "0 < v"
    and "files st' = bm_insert_all (map (\<lambda>f. (fm_batch_id f, updated_file v f)) (fresh_update_files st nfs)) (files st)"
    and "f \<in> set nfs" "fm_batch_id f \<noteq> []" "\<not> bm_has (files st) (fm_batch_id f)"
  shows "\<exists>g. bm_get (files st') (fm_batch_id f) = Some g \<and> (\<forall>s. visible_at g s \<longleftrightarrow> v \<le> s)"
proof -
  have "f \<in> set (fresh_update_files st nfs)" using assms(4-6) by (simp add: fresh_update_files_def)
  from get_inserted [OF this, of fm_batch_id "updated_file v" "files st"] obtain f' where
    f': "f' \<in> set (fresh_update_files st nfs)" "bm_get (files st') (fm_batch_id f) = Some (updated_file v f')"
    using assms(3) by auto
  then have "fm_deleted_at f' = 0" using assms(1) by (simp add: fresh_update_files_def)
  with f'(2) assms(2) show ?thesis by (simp add: visible_fresh)
qed

lemma update_dvs_switch:
  assumes "deletions st' = bm_insert_all (map (\<lambda>e. (de_key e, registered v e)) (fresh_update_dvs st es)) (deletions st)"
    and "e \<in> set es" "\<not> bm_has (deletions st) (de_key e)"
  shows "\<exists>d. bm_get (deletions st') (de_key e) = Some d \<and> (\<forall>s. active_at d s \<longleftrightarrow> v \<le> s)"
proof -
  have "e \<in> set (fresh_update_dvs st es)" using assms(2,3) by (simp add: fresh_update_dvs_def)
  from get_inserted [OF this, of de_key "registered v" "deletions st"] obtain e' where
    "bm_get (deletions st') (de_key e) = Some (registered v e')"
    using assms(1) by auto
  then show ?thesis by (simp add: active_registered)
qed

lemma has_insert_all: "bm_has m k \<Longrightarrow> bm_has (bm_insert_all es m) k"
  by (auto simp: bm_has_def bm_get_insert_all split: option.split)

lemma has_inserted: "f \<in> set fs \<Longrightarrow> bm_has (bm_insert_all (map (\<lambda>f. (key f, g f)) fs) m) (key f)"
  using get_inserted [of f fs key g m] by (auto simp: bm_has_def)

lemma update_replay:
  assumes "apply_update es nfs upd now st = (Inr v, st')" and "v \<noteq> snapshot_version st"
  shows "apply_update es nfs upd now' st' = (Inr v, st')"
proof (cases rule: apply_update_cases [of es nfs upd now st])
  case (unchanged r)
  with assms show ?thesis by auto
next
  case (updated t ff fd st'')
  then have [simp]: "st'' = st'" "v = Suc (snapshot_version st)" using assms(1) by auto
  have "bm_has (files st') (fm_batch_id f)" if "f \<in> set nfs" "fm_batch_id f \<noteq> []" for f
    using that updated(2,9)
    by (cases "f \<in> set ff") (auto simp: has_inserted fresh_update_files_def intro: has_insert_all)
  then have "fresh_update_files st' nfs = []" by (auto simp: fresh_update_files_def filter_empty_conv)
  moreover have "bm_has (deletions st') (de_key e)" if "e \<in> set es" for e
    using that updated(3,10)
    by (cases "e \<in> set fd") (auto simp: has_inserted fresh_update_dvs_def intro: has_insert_all)
  then have "fresh_update_dvs st' es = []" by (auto simp: fresh_update_dvs_def filter_empty_conv)
  moreover obtain t0 where "update_table (map (\<lambda>f. normalize_table (fm_table f)) nfs @
      map (\<lambda>e. normalize_table (de_table e)) es) None = Inr t0"
    using assms(1) by (auto simp: apply_update_def split: sum.splits)
  ultimately show ?thesis
    using updated(8) by (simp add: apply_update_def Let_def split: option.split)
qed

text \<open>C3: An UPDATE is atomic and may be replayed. When it commits at a new snapshot, that snapshot is
  the next one; every new file appears, and every new deletion vector takes effect, exactly from that
  snapshot on, so no snapshot shows one half without the other; and applying the same update to the
  result again changes nothing and returns the same snapshot.\<close>

theorem update_atomic:
  assumes "apply_update es nfs upd now st = (Inr v, st')" and "v \<noteq> snapshot_version st"
    and "\<forall>f \<in> set nfs. fm_deleted_at f = 0"
  shows "v = snapshot_version st + 1 \<and>
    (\<forall>f \<in> set nfs. fm_batch_id f \<noteq> [] \<and> \<not> bm_has (files st) (fm_batch_id f) \<longrightarrow>
       (\<exists>g. bm_get (files st') (fm_batch_id f) = Some g \<and> (\<forall>s. visible_at g s \<longleftrightarrow> v \<le> s))) \<and>
    (\<forall>e \<in> set es. \<not> bm_has (deletions st) (de_key e) \<longrightarrow>
       (\<exists>d. bm_get (deletions st') (de_key e) = Some d \<and> (\<forall>s. active_at d s \<longleftrightarrow> v \<le> s))) \<and>
    apply_update es nfs upd now' st' = (Inr v, st')"
proof (cases rule: apply_update_cases [of es nfs upd now st])
  case (unchanged r)
  with assms(1,2) show ?thesis by auto
next
  case (updated t ff fd st'')
  then have v: "v = Suc (snapshot_version st)" and [simp]: "st'' = st'" using assms(1) by auto
  have halves: "files st' = bm_insert_all (map (\<lambda>f. (fm_batch_id f, updated_file v f)) (fresh_update_files st nfs)) (files st)"
    "deletions st' = bm_insert_all (map (\<lambda>e. (de_key e, registered v e)) (fresh_update_dvs st es)) (deletions st)"
    using updated(2,3,9,10) v by simp_all
  have "0 < v" by (simp add: v)
  then show ?thesis
    using v update_files_switch [OF assms(3) _ halves(1)] update_dvs_switch [OF halves(2)]
      update_replay [OF assms(1,2)] by simp
qed

definition demo_dv :: "string \<Rightarrow> string \<Rightarrow> deletion_entry" where
  "demo_dv d b = \<lparr>de_dv_id = d, de_table = ''t'', de_file_path = ''p/'' @ b, de_batch_id = b,
     de_applied_at = 0, de_revoked_at = 0, de_card = 3, de_store_path = []\<rparr>"

theorem update_atomic_witness:
  "\<exists>st'. apply_update [demo_dv ''d1'' ''b1''] [demo_file ''u1''] ''upd'' 99 st' = (Inr 2, st') \<and>
    (\<exists>g. bm_get (files st') ''u1'' = Some g \<and> (\<forall>s. visible_at g s \<longleftrightarrow> 2 \<le> s))"
proof -
  have norm: "normalize_table ''public.t'' = ''public.t''" "normalize_table ''t'' = ''public.t''"
    by code_simp+
  have "fst (apply_update [demo_dv ''d1'' ''b1''] [demo_file ''u1''] ''upd'' 5 demo_store) = Inr 2"
    by (simp add: apply_update_def norm demo_dv_def demo_file_def demo_store_def new_state_def
        bm_simps Let_def fresh_update_files_def fresh_update_dvs_def bm_has_def anchor_dead_def
        commit_update_def cat_simps)
  then obtain st' where ok:
    "apply_update [demo_dv ''d1'' ''b1''] [demo_file ''u1''] ''upd'' 5 demo_store = (Inr 2, st')"
    by (metis prod.collapse)
  have "\<forall>f \<in> set [demo_file ''u1'']. fm_deleted_at f = 0" by (simp add: demo_file_def)
  moreover have "2 \<noteq> snapshot_version demo_store" by (simp add: demo_store_def new_state_def)
  moreover have "\<not> bm_has (files demo_store) ''u1''"
    by (simp add: demo_store_def new_state_def bm_has_def bm_simps)
  ultimately show ?thesis
    using update_atomic [OF ok, of 99] by (auto simp: demo_file_def)
qed

subsection \<open>Committing a batch exactly once\<close>

text \<open>C4: A batch is committed exactly once. After a commit with a file was accepted: a retry under the
  same batch id is refused as a duplicate and changes nothing at all; and a commit of any other batch
  that names one of the same client request ids is refused as a duplicate as well, changing nothing
  but the registration of that batch as an upload in flight.\<close>

theorem commit_exactly_once:
  assumes "commit_files req now st = (Inr resp, st')" and "cs_accepted resp"
    and "cf_files req = [f]" and "cf_batch_id req \<noteq> []"
    and "length (cf_files req') \<le> 1"
  shows "(cf_batch_id req' = cf_batch_id req \<longrightarrow>
       commit_files req' now' st' = (Inr (dup_commit_response st'), st')) \<and>
    (cf_batch_id req' \<noteq> cf_batch_id req \<and> set (commit_keys req') \<inter> set (commit_keys req) \<noteq> {} \<longrightarrow>
       fst (commit_files req' now' st') = Inr (dup_commit_response st') \<and>
       (snd (commit_files req' now' st') = st' \<or>
        snd (commit_files req' now' st') = snd (clear_in_flight (cf_batch_id req') st')))"
proof (cases rule: commit_files_cases [of req now st])
  case (accepted resp' st'')
  then have [simp]: "st'' = st'" using assms(1) by simp
  have has: "bm_has (files st') (cf_batch_id req)"
    using accepted(8) assms(3) by (simp add: bm_has_def bm_simps)
  have key: "key_taken (cf_batch_id req') st' k"
    if "k \<in> set (commit_keys req)" "cf_batch_id req' \<noteq> cf_batch_id req" for k
  proof -
    let ?g = "\<lambda>key. \<lparr>ir_client_request_id = key, ir_batch_id = cf_batch_id req, ir_committed_at = now\<rparr>"
    have "\<exists>k'. bm_get (idempotency st') k = Some (?g k')"
      using get_inserted [OF that(1), of "\<lambda>k. k" ?g "idempotency st"] accepted(12)
      by (auto simp: claim_keys_def)
    with that(2) assms(4) show ?thesis by (auto simp: key_taken_def)
  qed
  show ?thesis
  proof (cases rule: commit_files_cases [of req' now' st'])
    case (refused e)
    have "fst (commit_files req' now' st') \<noteq> Inl e"
      using assms(5) by (simp add: commit_files_def Let_def)
    with refused show ?thesis by simp
  next
    case (accepted r s)
    then show ?thesis using has key by auto
  qed (use has in auto)
qed (use assms(1,2) in \<open>auto simp: dup_commit_response_def\<close>)

theorem commit_exactly_once_witness:
  "fst (commit_files (demo_commit ''b2'' ''k1'') 9 (snd (commit_files (demo_commit ''b1'' ''k1'') 5 new_state))) =
     Inr (dup_commit_response (snd (commit_files (demo_commit ''b1'' ''k1'') 5 new_state)))"
proof -
  have "cs_accepted (projr (fst (commit_files (demo_commit ''b1'' ''k1'') 5 new_state)))"
    "\<exists>r. fst (commit_files (demo_commit ''b1'' ''k1'') 5 new_state) = Inr r"
    by (simp_all add: commit_files_def demo_commit_def new_state_def bm_has_def Let_def commit_keys_def
        key_taken_def clear_in_flight_def)
  then obtain r st' where "commit_files (demo_commit ''b1'' ''k1'') 5 new_state = (Inr r, st')" "cs_accepted r"
    by (metis prod.collapse sum.sel(2))
  from commit_exactly_once [OF this, of "demo_file ''b1''" "demo_commit ''b2'' ''k1''" 9] this(1)
  show ?thesis by (simp add: demo_commit_def commit_keys_def)
qed

end
