(* ===== verification/Catalog_Retention.thy ===== *)
theory Catalog_Retention
  imports Catalog_Commits
begin

text \<open>
  What stays true of a file after it has been written: the history of its manifest entry along a
  run. From it follow the safety of garbage collection (\<open>known_batch_ids\<close>), the exclusion of a second
  compaction of the same inputs, and the completeness of the two incremental channels by which a
  client refreshes its mirror (\<open>files_since\<close>, \<open>manifest_delta\<close>).
\<close>

subsection \<open>The history of a manifest entry\<close>

definition evolves :: "nat \<Rightarrow> file_manifest option \<Rightarrow> file_manifest option \<Rightarrow> bool" where
  "evolves v a b =
     (case a of
        None \<Rightarrow> (case b of None \<Rightarrow> True | Some f' \<Rightarrow> v < fm_valid_from f')
      | Some f \<Rightarrow>
          (case b of
             None \<Rightarrow> False
           | Some f' \<Rightarrow> f' = f \<or>
               (fm_deleted_at f = 0 \<and> (\<exists>d > v. f' = f\<lparr>fm_deleted_at := d\<rparr>))))"

lemma evolves_refl [simp]: "evolves v a a"
  by (auto simp: evolves_def split: option.split)

lemma evolves_None [simp]: "evolves v None b \<longleftrightarrow> (\<forall>f'. b = Some f' \<longrightarrow> v < fm_valid_from f')"
  by (simp add: evolves_def split: option.split)

lemma evolves_Some:
  "evolves v (Some f) b \<longleftrightarrow> b = Some f \<or>
     (fm_deleted_at f = 0 \<and> (\<exists>d > v. b = Some (f\<lparr>fm_deleted_at := d\<rparr>)))"
  by (auto simp: evolves_def split: option.split)

lemma evolves_valid_from: "evolves v (Some f) (Some f') \<Longrightarrow> fm_valid_from f' = fm_valid_from f"
  by (auto simp: evolves_Some)

lemma evolves_trans:
  assumes "evolves v a b" "evolves v' b c" "v \<le> v'"
  shows "evolves v a c"
proof (cases a)
  case None
  show ?thesis
  proof (cases b)
    case None
    with assms \<open>a = None\<close> show ?thesis by auto
  next
    case (Some f)
    with assms(1) \<open>a = None\<close> have "v < fm_valid_from f" by simp
    moreover from assms(2) Some obtain f' where "c = Some f'" by (auto simp: evolves_Some)
    ultimately show ?thesis using evolves_valid_from assms(2) Some \<open>a = None\<close> by auto
  qed
next
  case (Some f)
  then consider "b = Some f" | d where "fm_deleted_at f = 0" "v < d" "b = Some (f\<lparr>fm_deleted_at := d\<rparr>)"
    using assms(1) by (auto simp: evolves_Some)
  then show ?thesis
  proof cases
    case 1
    with assms(2,3) Some show ?thesis by (simp add: evolves_Some) (metis le_less_trans)
  next
    case 2
    with assms(2) have "c = b" by (auto simp: evolves_Some)
    with assms(1) show ?thesis by simp
  qed
qed

definition history_kept :: "catalog_state \<Rightarrow> catalog_state \<Rightarrow> bool" where
  "history_kept a b \<longleftrightarrow> snapshot_version a \<le> snapshot_version b \<and>
     (\<forall>k. evolves (snapshot_version a) (bm_get (files a) k) (bm_get (files b) k))"

fun history_ok :: "catalog_state \<Rightarrow> state_op \<Rightarrow> bool" where
  "history_ok st (OpDropTable _ _) = False"
| "history_ok st (OpCompaction _ nfs _ _ _) = (\<forall>nf \<in> set nfs. \<not> bm_has (files st) (fm_batch_id nf))"
| "history_ok st _ = True"

lemma history_kept_refl [simp]: "history_kept a a"
  by (simp add: history_kept_def)

lemma history_kept_trans: "history_kept a b \<Longrightarrow> history_kept b c \<Longrightarrow> history_kept a c"
  unfolding history_kept_def by (meson evolves_trans order_trans)

lemma history_frame:
  "files b = files a \<Longrightarrow> snapshot_version a \<le> snapshot_version b \<Longrightarrow> history_kept a b"
  by (simp add: history_kept_def)

lemma history_same_files:
  "history_kept st (snd (create_schema name st))"
  "history_kept st (snd (drop_schema name st))"
  "history_kept st (snd (create_table ser creq now st))"
  "history_kept st (snd (evolve_schema ser deser dbg ereq now st))"
  "history_kept st (snd (register_datanode m st))"
  "history_kept st (snd (remove_datanode i st))"
  "history_kept st (snd (acquire_lease p h now ttl st))"
  "history_kept st (snd (renew_lease p h e now ttl st))"
  "history_kept st (snd (release_lease p h e st))"
  "history_kept st (record_in_flight b now st)"
  "history_kept st (snd (sweep_expired_in_flight ttl now st))"
  "history_kept st (record_idempotency rec st)"
  "history_kept st (snd (apply_deletions es now st))"
  "history_kept st (snd (revoke_deletions_for_file path at now st))"
  by (rule history_frame;
      auto simp: create_schema_def drop_schema_def create_table_def evolve_schema_def
        register_datanode_def remove_datanode_def lease_op_defs record_in_flight_def
        sweep_expired_in_flight_def record_idempotency_def apply_deletions_def insert_deletions_def
        revoke_deletions_for_file_def Let_def cat_simps split: option.split sum.split)+

lemma evolves_map_option:
  "(\<And>f. x = Some f \<Longrightarrow> evolves v (Some f) (Some (g f))) \<Longrightarrow> evolves v x (map_option g x)"
  by (cases x) auto

lemma evolves_insert_all:
  assumes "\<forall>x \<in> set es. v < fm_valid_from (snd x) \<and> bm_get m (fst x) = None"
  shows "evolves v (bm_get m k) (bm_get (bm_insert_all es m) k)"
proof (cases "map_of (rev es) k")
  case (Some f)
  then have "(k, f) \<in> set es" using map_of_SomeD [OF Some] by simp
  with assms have "v < fm_valid_from f" "bm_get m k = None" by auto
  with Some show ?thesis by (simp add: bm_get_insert_all)
qed (simp add: bm_get_insert_all)

lemma history_drop_shard: "history_kept st (snd (drop_shard t sh now st))"
  by (auto simp: history_kept_def drop_shard_def Let_def cat_simps bm_simps in_shard_def evolves_Some
      intro!: evolves_map_option)

lemma history_commit: "history_kept st (snd (commit_files req now st))"
proof (cases rule: commit_files_cases [of req now st])
  case (accepted resp st')
  have "history_kept st st'"
    using accepted(4) by (auto simp: history_kept_def accepted(6,8) bm_has_def committed_file_def
        intro!: evolves_insert_all)
  with accepted(1) show ?thesis by simp
qed (simp_all add: clear_in_flight_def history_frame)

lemma history_update: "history_kept st (snd (apply_update es nfs u now st))"
proof (cases rule: apply_update_cases [of es nfs u now st])
  case (updated t ff fd st')
  have "history_kept st st'"
    by (auto simp: history_kept_def updated(2,8,9) updated_file_def fresh_update_files_def bm_has_def
        intro!: evolves_insert_all)
  with updated(1) show ?thesis by simp
qed simp

lemma history_purge:
  assumes "catalog_inv st"
  shows "history_kept st (snd (purge_table_files t pid now st))"
proof (cases rule: purge_cases [of t pid now st])
  case (purged out st')
  have "history_kept st st'"
    unfolding history_kept_def purged(7) bm_get_map
    using purge_victim_live [OF assms] by (auto simp: purged(5) evolves_Some intro!: evolves_map_option)
  with purged(1) show ?thesis by simp
qed (simp_all add: history_frame)

lemma history_compaction:
  assumes "\<forall>nf \<in> set nfs. \<not> bm_has (files st) (fm_batch_id nf)"
  shows "history_kept st (snd (commit_compaction old nfs ep p st))"
proof (cases rule: commit_compaction_cases [of old nfs ep p st])
  case (committed st')
  let ?v = "snapshot_version st" and ?m = "fold (retire_input (Suc (snapshot_version st))) old (files st)"
  have "evolves ?v (bm_get (files st) k) (bm_get (files st') k)" for k
  proof (rule evolves_trans [OF _ _ order_refl])
    show "evolves ?v (bm_get (files st) k) (bm_get ?m k)"
      by (cases "bm_get (files st) k") (auto simp: bm_get_retire_all retired_def evolves_Some)
    show "evolves ?v (bm_get ?m k) (bm_get (files st') k)"
      unfolding committed(5) using assms
      by (intro evolves_insert_all) (auto simp: compacted_file_def bm_get_retire_all bm_has_def)
  qed
  then have "history_kept st st'" by (simp add: history_kept_def committed(4))
  with committed(1) show ?thesis by simp
qed simp

lemma history_step: "catalog_inv st \<Longrightarrow> history_ok st x \<Longrightarrow> history_kept st (sm_step cx st x)"
  by (cases x) (simp_all add: sm_step_def Let_def history_same_files history_drop_shard history_commit
      history_update history_purge history_compaction)

interpretation history: guarded_machine "sm_step cx" catalog_inv history_ok history_kept for cx
  by unfold_locales (auto simp: sm_step_inv history_step intro: history_kept_trans)

subsection \<open>Garbage collection\<close>

lemma known_batch_ids_iff:
  "b \<in> set (known_batch_ids st) \<longleftrightarrow> bm_has (in_flight st) b \<or>
     (\<exists>f. bm_get (files st) b = Some f \<and> protects_at f (snapshot_version st))"
proof -
  have "b \<in> set (known_batch_ids st) \<longleftrightarrow> b \<in> set (bm_keys (in_flight st)) \<or>
      bm_get (bm_filter (\<lambda>_ f. protects_at f (snapshot_version st)) (files st)) b \<noteq> None"
    by (auto simp: known_batch_ids_def bm_keys_iff bm_get_unit_list bm_get_map split: if_splits)
  then show ?thesis
    by (auto simp: bm_has_iff bm_get_filter split: option.splits if_splits)
qed



subsection \<open>No input is compacted twice\<close>



subsection \<open>Incremental refresh\<close>

text \<open>\<open>overlay\<close> is the reader's merge: the received files replace its own by batch id.\<close>

definition overlay :: "(string, file_manifest) bmap \<Rightarrow> file_manifest list \<Rightarrow> (string, file_manifest) bmap" where
  "overlay mirror delta = bm_insert_all (map (\<lambda>f. (fm_batch_id f, f)) delta) mirror"

lemma overlay_filter:
  assumes "\<forall>k f. bm_get m k = Some f \<longrightarrow> fm_batch_id f = k"
    and "\<And>k f. bm_get m k = Some f \<Longrightarrow> \<not> P f \<Longrightarrow> bm_get mirror k = Some f"
    and "\<And>k. bm_get m k = None \<Longrightarrow> bm_get mirror k = None"
  shows "overlay mirror (filter P (bm_values m)) = m"
proof (rule bm_eqI)
  fix k
  let ?mp = "bm_filter (\<lambda>_. P) m"
  have "map (\<lambda>f. (fm_batch_id f, f)) (filter P (bm_values m)) = bm_entries ?mp"
    using assms(1) by (simp add: bm_values_filter [symmetric] bm_values_keyed bm_get_filter split: option.split)
  then have "bm_get (overlay mirror (filter P (bm_values m))) k =
      (case bm_get ?mp k of None \<Rightarrow> bm_get mirror k | Some f \<Rightarrow> Some f)"
    unfolding overlay_def by (simp add: bm_get_insert_all map_of_rev_entries del: bm_entries_filter)
  also have "\<dots> = bm_get m k"
    using assms(2,3) [of k] by (cases "bm_get m k") (auto simp: bm_get_filter)
  finally show "bm_get (overlay mirror (filter P (bm_values m))) k = bm_get m k" .
qed

text \<open>C8: Incremental refresh converges. A reader that holds the manifest of an earlier state and overlays
  the files the catalog reports as changed since that state's snapshot, tombstones included, obtains
  exactly the current manifest, after any run in which no table was dropped (a drop forces a full
  reload through the schema version) and compactions wrote new objects.\<close>

theorem incremental_refresh_exact:
  assumes "catalog_inv st" and "run_ok (sm_step cx) history_ok st ops"
  shows "overlay (files st) (files_since None (snapshot_version st) (sm_run cx st ops)) =
    files (sm_run cx st ops)"
proof -
  let ?st' = "sm_run cx st ops"
  let ?P = "\<lambda>f. snapshot_version st < fm_valid_from f \<or>
    fm_deleted_at f \<noteq> 0 \<and> snapshot_version st < fm_deleted_at f"
  have "catalog_inv ?st'" unfolding sm_run_def by (rule history.run_inv [OF assms(1)])
  then have keyed: "\<forall>k f. bm_get (files ?st') k = Some f \<longrightarrow> fm_batch_id f = k"
    using all_entriesD [OF catalog_invD(1)] by (auto simp: file_wf_def)
  have "history_kept st ?st'"
    using history.run_rel [OF assms] by (simp add: sm_run_def)
  then have ev: "evolves (snapshot_version st) (bm_get (files st) k) (bm_get (files ?st') k)" for k
    by (simp add: history_kept_def)
  have "overlay (files st) (filter ?P (bm_values (files ?st'))) = files ?st'"
  proof (rule overlay_filter [OF keyed])
    fix k f
    assume "bm_get (files ?st') k = Some f" "\<not> ?P f"
    with ev [of k] show "bm_get (files st) k = Some f"
      by (cases "bm_get (files st) k") (auto simp: evolves_Some)
  next
    fix k
    assume "bm_get (files ?st') k = None"
    with ev [of k] show "bm_get (files st) k = None"
      by (cases "bm_get (files st) k") (auto simp: evolves_Some)
  qed
  then show ?thesis by (simp add: files_since_def)
qed

lemma demo_store_inv: "catalog_inv demo_store"
  by (auto simp: catalog_inv_def demo_store_def new_state_def demo_file_def file_wf_def
      intro!: all_entries_insert)

theorem incremental_refresh_exact_witness:
  "overlay (files demo_store)
     (files_since None 1 (sm_run demo_codecs demo_store
        [OpDropShard ''public.t'' ''s0'' 5, OpCommitFiles (demo_commit ''b3'' ''k'') 6])) =
   files (sm_run demo_codecs demo_store
        [OpDropShard ''public.t'' ''s0'' 5, OpCommitFiles (demo_commit ''b3'' ''k'') 6])"
proof -
  have "run_ok (sm_step demo_codecs) history_ok demo_store
      [OpDropShard ''public.t'' ''s0'' 5, OpCommitFiles (demo_commit ''b3'' ''k'') 6]" by simp
  from incremental_refresh_exact [OF demo_store_inv this] show ?thesis
    by (simp add: demo_store_def new_state_def)
qed

subsection \<open>The manifest version names every changed table\<close>

definition table_entry :: "string \<Rightarrow> file_manifest option \<Rightarrow> file_manifest option" where
  "table_entry key x =
     (case x of Some f \<Rightarrow> if normalize_table (fm_table f) = key then Some f else None | None \<Rightarrow> None)"

definition logged :: "nat \<Rightarrow> catalog_state \<Rightarrow> string \<Rightarrow> bool" where
  "logged v st key = (\<exists>w > v. bm_get (table_manifest_ver st) key = Some w)"

definition changes_logged :: "string \<Rightarrow> catalog_state \<Rightarrow> catalog_state \<Rightarrow> bool" where
  "changes_logged key a b \<longleftrightarrow> manifest_ver a \<le> manifest_ver b \<and>
     (\<forall>v. logged v a key \<longrightarrow> logged v b key) \<and>
     ((\<exists>k. table_entry key (bm_get (files b) k) \<noteq> table_entry key (bm_get (files a) k)) \<longrightarrow>
        logged (manifest_ver a) b key)"

lemma logged_mono: "logged v st key \<Longrightarrow> w \<le> v \<Longrightarrow> logged w st key"
  by (auto simp: logged_def)

lemma changes_logged_refl [simp]: "changes_logged key a a"
  by (simp add: changes_logged_def)

lemma changes_logged_trans: "changes_logged key a b \<Longrightarrow> changes_logged key b c \<Longrightarrow> changes_logged key a c"
  unfolding changes_logged_def using logged_mono by (metis order_trans)

lemma logged_frame:
  "table_manifest_ver b = table_manifest_ver a \<Longrightarrow> logged v b = logged v a"
  by (simp add: logged_def fun_eq_iff)

lemma changes_frame:
  "files b = files a \<Longrightarrow> manifest_ver b = manifest_ver a \<Longrightarrow> table_manifest_ver b = table_manifest_ver a \<Longrightarrow>
    changes_logged key a b"
  by (simp add: changes_logged_def logged_def)

lemma changes_bump:
  assumes "catalog_inv a" "manifest_ver b = Suc (manifest_ver a)"
    and "table_manifest_ver b = bm_insert t (Suc (manifest_ver a)) (table_manifest_ver a)"
    and "\<And>k. t \<noteq> key \<Longrightarrow> table_entry key (bm_get (files b) k) = table_entry key (bm_get (files a) k)"
  shows "changes_logged key a b"
  using assms(2-4) all_entriesD [OF catalog_invD(3) [OF assms(1)], of key]
  by (cases "t = key") (force simp: changes_logged_def logged_def bm_simps)+

lemma changes_same_files:
  "changes_logged key st (snd (create_schema name st))"
  "changes_logged key st (snd (drop_schema name st))"
  "changes_logged key st (snd (create_table ser creq now st))"
  "changes_logged key st (snd (evolve_schema ser deser dbg ereq now st))"
  "changes_logged key st (snd (register_datanode m st))"
  "changes_logged key st (snd (remove_datanode i st))"
  "changes_logged key st (snd (acquire_lease p h now ttl st))"
  "changes_logged key st (snd (renew_lease p h e now ttl st))"
  "changes_logged key st (snd (release_lease p h e st))"
  "changes_logged key st (record_in_flight b now st)"
  "changes_logged key st (snd (sweep_expired_in_flight ttl now st))"
  "changes_logged key st (record_idempotency rec st)"
  "changes_logged key st (snd (apply_deletions es now st))"
  "changes_logged key st (snd (revoke_deletions_for_file path at now st))"
  by (rule changes_frame;
      auto simp: create_schema_def drop_schema_def create_table_def evolve_schema_def
        register_datanode_def remove_datanode_def lease_op_defs record_in_flight_def
        sweep_expired_in_flight_def record_idempotency_def apply_deletions_def insert_deletions_def
        revoke_deletions_for_file_def Let_def cat_simps split: option.split sum.split)+

lemma table_entry_insert_all:
  assumes "\<forall>x \<in> set es. normalize_table (fm_table (snd x)) \<noteq> key \<and> bm_get m (fst x) = None"
  shows "table_entry key (bm_get (bm_insert_all es m) k) = table_entry key (bm_get m k)"
proof (cases "map_of (rev es) k")
  case (Some f)
  then have "(k, f) \<in> set es" using map_of_SomeD [OF Some] by simp
  with assms have "normalize_table (fm_table f) \<noteq> key" "bm_get m k = None" by auto
  with Some show ?thesis by (simp add: bm_get_insert_all table_entry_def)
qed (simp add: bm_get_insert_all)

lemma table_entry_map_option:
  "(\<And>f. x = Some f \<Longrightarrow> table_entry key (Some (g f)) = table_entry key (Some f)) \<Longrightarrow>
    table_entry key (map_option g x) = table_entry key x"
  by (cases x) auto

lemma changes_drop_table:
  assumes "catalog_inv st" "normalize_table key = key"
  shows "changes_logged key st (snd (drop_table name st))"
proof (cases "bm_has (tables st) (normalize_table name)")
  case True
  show ?thesis
    using assms(2)
    by (intro changes_bump [OF assms(1), of _ "normalize_table (normalize_table name)"])
       (auto simp: drop_table_def Let_def True cat_simps bm_simps table_entry_def split: option.split)
qed (simp add: drop_table_def Let_def)

lemma changes_drop_shard:
  assumes "catalog_inv st" "normalize_table key = key"
  shows "changes_logged key st (snd (drop_shard t sh now st))"
  using assms(2)
  by (intro changes_bump [OF assms(1), of _ "normalize_table (normalize_table t)"])
     (auto simp: drop_shard_def Let_def cat_simps bm_simps in_shard_def
       intro!: table_entry_map_option, auto simp: table_entry_def)

lemma changes_commit:
  assumes "catalog_inv st" "cf_table req \<noteq> []"
  shows "changes_logged key st (snd (commit_files req now st))"
proof (cases rule: commit_files_cases [of req now st])
  case (accepted resp st')
  have "changes_logged key st st'"
  proof (rule changes_bump [OF assms(1) accepted(10,13)])
    fix k
    assume *: "normalize_table (cf_table req) \<noteq> key"
    then show "table_entry key (bm_get (files st') k) = table_entry key (bm_get (files st) k)"
      unfolding accepted(8) using accepted(4) normalize_idem [OF assms(2)]
      by (intro table_entry_insert_all) (auto simp: committed_file_def bm_has_def)
  qed
  with accepted(1) show ?thesis by simp
qed (simp_all add: clear_in_flight_def changes_frame)

lemma changes_update:
  assumes "catalog_inv st" "normalize_table key = key"
  shows "changes_logged key st (snd (apply_update es nfs u now st))"
proof (cases rule: apply_update_cases [of es nfs u now st])
  case (updated t ff fd st')
  have "changes_logged key st st'"
  proof (rule changes_bump [OF assms(1) updated(11,13)])
    fix k
    assume "normalize_table t \<noteq> key"
    then show "table_entry key (bm_get (files st') k) = table_entry key (bm_get (files st) k)"
      unfolding updated(9) using updated(5)
      by (intro table_entry_insert_all)
         (auto simp: updated(2) updated_file_def fresh_update_files_def bm_has_def)
  qed
  with updated(1) show ?thesis by simp
qed simp

lemma changes_purge:
  assumes "catalog_inv st" "normalize_table key = key"
  shows "changes_logged key st (snd (purge_table_files t pid now st))"
proof (cases rule: purge_cases [of t pid now st])
  case (purged out st')
  have "changes_logged key st st'"
  proof (rule changes_bump [OF assms(1) purged(9,10)])
    fix k
    assume "normalize_table (normalize_table t) \<noteq> key"
    then have "normalize_table t \<noteq> key" using assms(2) by auto
    then show "table_entry key (bm_get (files st') k) = table_entry key (bm_get (files st) k)"
      unfolding purged(7) bm_get_map using purge_victim_live [OF assms(1)]
      by (intro table_entry_map_option) (auto simp: table_entry_def)
  qed
  with purged(1) show ?thesis by simp
qed (simp_all add: changes_frame)

lemma logged_bump:
  assumes "all_entries (\<lambda>_ v. v \<le> manifest_ver s) (table_manifest_ver s)" "v \<le> manifest_ver s"
  shows "logged v s key \<or> normalize_table t = key \<Longrightarrow> logged v (bump_manifest_ver t s) key"
  using assms by (auto simp: logged_def cat_simps bm_simps)

lemma logged_bumps:
  assumes "all_entries (\<lambda>_ v. v \<le> manifest_ver s) (table_manifest_ver s)" "v \<le> manifest_ver s"
  shows "logged v s key \<or> key \<in> normalize_table ` set ts \<Longrightarrow> logged v (fold bump_manifest_ver ts s) key"
  using assms
proof (induction ts arbitrary: s)
  case (Cons t ts)
  have "all_entries (\<lambda>_ v. v \<le> manifest_ver (bump_manifest_ver t s)) (table_manifest_ver (bump_manifest_ver t s))"
    using bump_manifests_bound [OF Cons.prems(2), of "[t]"] by simp
  moreover have "logged v (bump_manifest_ver t s) key \<or> key \<in> normalize_table ` set ts"
    using Cons.prems(1) logged_bump [OF Cons.prems(2,3), of key t] by auto
  ultimately show ?case
    using Cons.IH [of "bump_manifest_ver t s"] Cons.prems(3) by (simp add: cat_simps)
qed simp

lemma touched_tables_iff:
  "t \<in> set (touched_tables old nfs fs) \<longleftrightarrow>
    (\<exists>b \<in> set old. \<exists>f. bm_get fs b = Some f \<and> normalize_table (fm_table f) = t) \<or>
    (\<exists>nf \<in> set nfs. normalize_table (fm_table nf) = t)"
  by (auto simp: touched_tables_def List.map_filter_def image_iff) force+

lemma changes_compaction:
  assumes "catalog_inv st" "normalize_table key = key"
    and "\<forall>nf \<in> set nfs. \<not> bm_has (files st) (fm_batch_id nf)"
  shows "changes_logged key st (snd (commit_compaction old nfs ep p st))"
proof (cases rule: commit_compaction_cases [of old nfs ep p st])
  case (committed st')
  let ?ts = "touched_tables old nfs (files st)" and ?n = "Suc (snapshot_version st)"
  obtain s where s: "manifest_ver s = manifest_ver st" "table_manifest_ver s = table_manifest_ver st"
      "table_manifest_ver st' = table_manifest_ver (fold bump_manifest_ver ?ts s)"
    using committed(9) by blast
  have log: "logged v st' key" if "logged v st key \<or> key \<in> normalize_table ` set ?ts" "v \<le> manifest_ver st" for v
  proof -
    have "logged v s key \<or> key \<in> normalize_table ` set ?ts" using that(1) s(2) by (simp add: logged_def)
    from logged_bumps [OF _ _ this] that(2) have "logged v (fold bump_manifest_ver ?ts s) key"
      using s(1,2) catalog_invD(3) [OF assms(1)] by simp
    then show ?thesis using s(3) by (simp add: logged_def)
  qed
  have same: "table_entry key (bm_get (files st') k) = table_entry key (bm_get (files st) k)"
    if "key \<notin> set ?ts" for k
  proof -
    have "table_entry key (bm_get (files st') k) =
        table_entry key (bm_get (fold (retire_input ?n) old (files st)) k)"
      unfolding committed(5) using assms(3) that
      by (intro table_entry_insert_all)
         (auto simp: touched_tables_iff compacted_file_def bm_get_retire_all bm_has_def)
    also have "\<dots> = table_entry key (bm_get (files st) k)"
      using that by (cases "bm_get (files st) k")
        (auto simp: bm_get_retire_all retired_def table_entry_def touched_tables_iff)
    finally show ?thesis .
  qed
  have "logged v st key \<Longrightarrow> logged v st' key" for v
    using log [of v] all_entriesD [OF catalog_invD(3) [OF assms(1)], of key] by (force simp: logged_def)
  moreover have "logged (manifest_ver st) st' key" if "key \<in> set ?ts"
    using log [of "manifest_ver st"] assms(2) that by (metis imageI order_refl)
  ultimately have "changes_logged key st st'"
    using same unfolding changes_logged_def by (auto simp: committed(8))
  with committed(1) show ?thesis by simp
qed simp

fun log_ok :: "catalog_state \<Rightarrow> state_op \<Rightarrow> bool" where
  "log_ok st (OpCommitFiles req _) = (cf_table req \<noteq> [])"
| "log_ok st (OpCompaction _ nfs _ _ _) = (\<forall>nf \<in> set nfs. \<not> bm_has (files st) (fm_batch_id nf))"
| "log_ok st _ = True"

lemma changes_step:
  "catalog_inv st \<Longrightarrow> normalize_table key = key \<Longrightarrow> log_ok st x \<Longrightarrow> changes_logged key st (sm_step cx st x)"
  by (cases x) (simp_all add: sm_step_def Let_def changes_same_files changes_drop_table changes_drop_shard
      changes_commit changes_update changes_purge changes_compaction)

definition keyed_log_ok :: "string \<Rightarrow> catalog_state \<Rightarrow> state_op \<Rightarrow> bool" where
  "keyed_log_ok key st x = (normalize_table key = key \<and> log_ok st x)"

interpretation logs: guarded_machine "sm_step cx" catalog_inv "keyed_log_ok key" "changes_logged key"
  for cx key
  by unfold_locales (auto simp: sm_step_inv changes_step keyed_log_ok_def intro: changes_logged_trans)

lemma list_visible_table_entry:
  assumes "\<And>k. table_entry (normalize_table t) (bm_get (files b) k) =
      table_entry (normalize_table t) (bm_get (files a) k)"
  shows "list_visible_files t s filt b = list_visible_files t s filt a"
proof -
  let ?f = "\<lambda>st. bm_filter (\<lambda>_ f. normalize_table (fm_table f) = normalize_table t) (files st)"
  have "?f b = ?f a"
  proof (rule bm_eqI)
    fix k
    show "bm_get (?f b) k = bm_get (?f a) k"
      using assms [of k] by (simp add: bm_get_filter table_entry_def split: option.splits if_splits)
  qed
  then show ?thesis by (simp add: list_visible_files_def Let_def bm_values_filter [symmetric])
qed

text \<open>C9: No change goes unannounced. If any listing of a table differs between an earlier state and a
  later one, the table is among the changed tables the catalog reports since the earlier manifest
  version, so a reader that reloads only the reported tables never serves a stale listing.\<close>

theorem manifest_delta_complete:
  assumes "catalog_inv st" and "t \<noteq> []"
    and "run_ok (sm_step cx) (keyed_log_ok (normalize_table t)) st ops"
    and "list_visible_files t s filt (sm_run cx st ops) \<noteq> list_visible_files t s filt st"
  shows "normalize_table t \<in> set (md_changed_tables (manifest_delta_since (manifest_ver st) (sm_run cx st ops)))"
proof -
  let ?st' = "sm_run cx st ops" and ?key = "normalize_table t"
  have "changes_logged ?key st ?st'"
    using logs.run_rel [OF assms(1,3)] by (simp add: sm_run_def)
  moreover have "\<exists>k. table_entry ?key (bm_get (files ?st') k) \<noteq> table_entry ?key (bm_get (files st) k)"
    using assms(4) list_visible_table_entry [of t ?st' st] by blast
  ultimately obtain w where w: "bm_get (table_manifest_ver ?st') ?key = Some w" "manifest_ver st < w"
    by (auto simp: changes_logged_def logged_def)
  have "catalog_inv ?st'" unfolding sm_run_def by (rule logs.run_inv [OF assms(1)])
  from all_entriesD [OF catalog_invD(3) [OF this] w(1)] w show ?thesis
    by (simp add: manifest_delta_since_def bm_keys_iff bm_get_filter)
qed

theorem manifest_delta_complete_witness:
  "''public.t'' \<in> set (md_changed_tables (manifest_delta_since 0
     (sm_run demo_codecs new_state [OpCommitFiles (demo_commit ''b1'' ''k'') 5])))"
proof -
  have norm: "normalize_table ''public.t'' = ''public.t''" by code_simp
  have "list_visible_files ''public.t'' 2 None (sm_run demo_codecs new_state [OpCommitFiles (demo_commit ''b1'' ''k'') 5])
      \<noteq> list_visible_files ''public.t'' 2 None new_state"
    by (simp add: sm_step_def commit_files_def demo_commit_def new_state_def bm_has_def Let_def commit_keys_def
        key_taken_def clear_in_flight_def cat_simps claim_keys_def list_visible_files_def bm_values_def
        committed_file_def demo_file_def norm visible_at_def protects_at_def)
  moreover have "run_ok (sm_step demo_codecs) (keyed_log_ok (normalize_table ''public.t'')) new_state
      [OpCommitFiles (demo_commit ''b1'' ''k'') 5]"
    by (simp add: keyed_log_ok_def norm demo_commit_def)
  ultimately have "normalize_table ''public.t'' \<in> set (md_changed_tables (manifest_delta_since
      (manifest_ver new_state) (sm_run demo_codecs new_state [OpCommitFiles (demo_commit ''b1'' ''k'') 5])))"
    by (intro manifest_delta_complete [OF catalog_inv_new, of _ _ _ 2 None]) simp_all
  then show ?thesis by (simp add: norm new_state_def)
qed

end
