(* ===== verification/Catalog_Purge.thy ===== *)
theory Catalog_Purge
  imports Catalog_Retention
begin

text \<open>
  Purging a table: it takes the whole table offline at one snapshot, and its purge id makes it a
  once-only operation along every later run.
\<close>

definition purged_kept :: "catalog_state \<Rightarrow> catalog_state \<Rightarrow> bool" where
  "purged_kept a b = (\<forall>k v. bm_get (purged a) k = Some v \<longrightarrow> bm_get (purged b) k = Some v)"

lemma purged_frame: "purged b = purged a \<Longrightarrow> purged_kept a b"
  by (simp add: purged_kept_def)

lemma purged_same:
  "purged (snd (create_schema name st)) = purged st"
  "purged (snd (drop_schema name st)) = purged st"
  "purged (snd (create_table ser creq now st)) = purged st"
  "purged (snd (evolve_schema ser deser dbg ereq now st)) = purged st"
  "purged (snd (register_datanode m st)) = purged st"
  "purged (snd (remove_datanode i st)) = purged st"
  "purged (snd (acquire_lease p h now ttl st)) = purged st"
  "purged (snd (renew_lease p h e now ttl st)) = purged st"
  "purged (snd (release_lease p h e st)) = purged st"
  "purged (record_in_flight b now st) = purged st"
  "purged (snd (sweep_expired_in_flight ttl now st)) = purged st"
  "purged (record_idempotency rec st) = purged st"
  "purged (snd (drop_table name st)) = purged st"
  "purged (snd (apply_deletions es now st)) = purged st"
  "purged (snd (revoke_deletions_for_file path at now st)) = purged st"
  by (auto simp: create_schema_def drop_schema_def create_table_def evolve_schema_def
      register_datanode_def remove_datanode_def lease_op_defs record_in_flight_def drop_table_def
      sweep_expired_in_flight_def record_idempotency_def apply_deletions_def insert_deletions_def
      revoke_deletions_for_file_def Let_def cat_simps split: option.split sum.split)

lemma purged_same_files:
  "purged (snd (commit_files req now st)) = purged st"
  "purged (snd (drop_shard t sh now st)) = purged st"
  "purged (snd (commit_update t ff fd u now st)) = purged st"
  by (simp_all add: commit_files_def drop_shard_def commit_update_def insert_update_files_def
      insert_deletions_def Let_def cat_simps claim_keys_def clear_in_flight_def)

lemma purged_same_update: "purged (snd (apply_update es nfs u now st)) = purged st"
  by (simp add: apply_update_def Let_def purged_same_files split: sum.split option.split)

lemma purged_same_compaction: "purged (snd (commit_compaction old nfs ep p st)) = purged st"
  by (auto simp: commit_compaction_def Let_def cat_simps split: list.split)

lemma purged_kept_purge: "purged_kept st (snd (purge_table_files t pid now st))"
  by (cases rule: purge_cases [of t pid now st]) (auto simp: purged_kept_def bm_simps)

lemma purged_kept_step: "purged_kept st (sm_step cx st x)"
  by (cases x) (simp_all add: sm_step_def Let_def purged_frame purged_same purged_same_files
      purged_same_update purged_same_compaction purged_kept_purge)

interpretation purges: guarded_machine "sm_step cx" catalog_inv "\<lambda>_ _. True" purged_kept for cx
  by unfold_locales (auto simp: sm_step_inv purged_kept_step, auto simp: purged_kept_def)

text \<open>No stamp lies in the future.\<close>

definition stamps_past :: "catalog_state \<Rightarrow> bool" where
  "stamps_past st \<longleftrightarrow>
     all_entries (\<lambda>_ f. fm_deleted_at f \<le> snapshot_version st) (files st) \<and>
     all_entries (\<lambda>_ d. de_revoked_at d \<le> snapshot_version st) (deletions st)"

lemma purge_hides_files:
  assumes "stamps_past st"
    and "files st' = bm_map (\<lambda>_ f. if fm_batch_id f \<in> set (purge_victims (normalize_table t) st)
         then f\<lparr>fm_deleted_at := Suc (snapshot_version st)\<rparr> else f) (files st)"
  shows "list_visible_files t (Suc (snapshot_version st)) filt st' = []"
proof -
  have "\<not> visible_at f (Suc (snapshot_version st))"
    if "bm_get (files st') k = Some f" "normalize_table (fm_table f) = normalize_table t" for k f
  proof -
    from that(1) obtain f0 where f0: "bm_get (files st) k = Some f0"
      "f = (if fm_batch_id f0 \<in> set (purge_victims (normalize_table t) st)
            then f0\<lparr>fm_deleted_at := Suc (snapshot_version st)\<rparr> else f0)"
      by (auto simp: assms(2) bm_get_map)
    have "fm_deleted_at f0 = 0 \<Longrightarrow> fm_batch_id f0 \<in> set (purge_victims (normalize_table t) st)"
      using f0 that(2) by (auto simp: purge_victims_def bm_values_iff split: if_splits)
    moreover have "fm_deleted_at f0 \<le> snapshot_version st"
      using assms(1) f0(1) by (auto simp: stamps_past_def dest: all_entriesD)
    ultimately show ?thesis using f0(2) by (auto simp: visible_at_def protects_at_def split: if_splits)
  qed
  then show ?thesis by (auto simp: list_visible_files_def Let_def filter_empty_conv bm_values_iff)
qed

lemma purge_hides_dvs:
  assumes "stamps_past st" "t \<noteq> []"
    and "deletions st' = bm_map (\<lambda>_ d. if purge_hits_dv (normalize_table t) d
         then d\<lparr>de_revoked_at := Suc (snapshot_version st)\<rparr> else d) (deletions st)"
  shows "list_deletions t (Suc (snapshot_version st)) st' = []"
proof -
  have "\<not> active_at d (Suc (snapshot_version st))"
    if "bm_get (deletions st') k = Some d" "de_table d = normalize_table t" for k d
  proof -
    from that(1) obtain d0 where d0: "bm_get (deletions st) k = Some d0"
      "d = (if purge_hits_dv (normalize_table t) d0
            then d0\<lparr>de_revoked_at := Suc (snapshot_version st)\<rparr> else d0)"
      by (auto simp: assms(3) bm_get_map)
    moreover have "de_revoked_at d0 \<le> snapshot_version st"
      using assms(1) d0(1) by (auto simp: stamps_past_def dest: all_entriesD)
    ultimately show ?thesis
      using that(2) normalize_idem [OF assms(2)]
      by (auto simp: purge_hits_dv_def active_at_def split: if_splits)
  qed
  then show ?thesis by (auto simp: list_deletions_def Let_def filter_empty_conv bm_values_iff)
qed

text \<open>C10: A purge takes the whole table offline, once. When a purge under a new id finds files, then at
  the snapshot it returns, which is the next one, the table lists no file and no active deletion
  vector; and at any later time a purge that carries the same id changes nothing and returns the
  snapshot of the first, so replaying it cannot delete rows written since.\<close>

theorem purge_whole_table_once:
  assumes "purge_table_files t pid now st = (Inr out, st')" and "catalog_inv st" and "stamps_past st"
    and "t \<noteq> []" and "bm_get (purged st) pid = None" and "0 < po_files out"
  shows "po_snapshot out = snapshot_version st + 1 \<and>
    list_visible_files t (po_snapshot out) filt st' = [] \<and>
    list_deletions t (po_snapshot out) st' = [] \<and>
    purge_table_files t' pid now' (sm_run cx st' ops) =
      (Inr \<lparr>po_snapshot = po_snapshot out, po_files = 0, po_revoked = 0, po_rows = 0\<rparr>, sm_run cx st' ops)"
proof (cases rule: purge_cases [of t pid now st])
  case (unchanged r)
  with assms(1,5) show ?thesis by auto
next
  case (noted out')
  have "po_files out = 0"
    using assms(1) noted(2-4) by (auto simp: purge_table_files_def Let_def)
  with assms(6) show ?thesis by simp
next
  case (purged out' st'')
  then have [simp]: "out' = out" "st'' = st'" using assms(1) by auto
  have "catalog_inv st'" using inv_purge [OF assms(2), of t pid now] assms(1) by simp
  from purges.run_rel [OF this run_ok_True] have "purged_kept st' (sm_run cx st' ops)"
    by (simp add: sm_run_def)
  then have "bm_get (purged (sm_run cx st' ops)) pid = Some (Suc (snapshot_version st))"
    using purged(11) by (simp add: purged_kept_def bm_simps)
  then have "purge_table_files t' pid now' (sm_run cx st' ops) =
      (Inr \<lparr>po_snapshot = Suc (snapshot_version st), po_files = 0, po_revoked = 0, po_rows = 0\<rparr>,
       sm_run cx st' ops)"
    using purged(2) by (simp add: purge_table_files_def Let_def)
  moreover have "list_visible_files t (Suc (snapshot_version st)) filt st' = []"
    by (rule purge_hides_files [OF assms(3)]) (use purged(7) in simp)
  moreover have "list_deletions t (Suc (snapshot_version st)) st' = []"
    by (rule purge_hides_dvs [OF assms(3,4)]) (use purged(8) in simp)
  ultimately show ?thesis using purged(6) by simp
qed

theorem purge_whole_table_once_witness:
  "\<exists>st'. purge_table_files ''t'' ''p1'' 99 (sm_run demo_codecs st' [OpCommitFiles (demo_commit ''b9'' ''k'') 5]) =
    (Inr \<lparr>po_snapshot = 2, po_files = 0, po_revoked = 0, po_rows = 0\<rparr>,
     sm_run demo_codecs st' [OpCommitFiles (demo_commit ''b9'' ''k'') 5])"
proof -
  have norm: "normalize_table ''public.t'' = ''public.t''" "normalize_table ''t'' = ''public.t''" by code_simp+
  have r: "fst (purge_table_files ''t'' ''p1'' 7 demo_store) =
      Inr \<lparr>po_snapshot = 2, po_files = 2, po_revoked = 0, po_rows = 20\<rparr>"
    by (simp add: purge_table_files_def Let_def demo_store_def new_state_def purge_victims_def norm
        demo_file_def cat_simps purge_rows_def hidden_rows_def bm_simps bm_values_def next_snapshot_def)
  then obtain st' where ok: "purge_table_files ''t'' ''p1'' 7 demo_store =
      (Inr \<lparr>po_snapshot = 2, po_files = 2, po_revoked = 0, po_rows = 20\<rparr>, st')"
    by (metis prod.collapse)
  have "stamps_past demo_store"
    by (auto simp: stamps_past_def demo_store_def new_state_def demo_file_def intro!: all_entries_insert)
  moreover have "bm_get (purged demo_store) ''p1'' = None" by (simp add: demo_store_def new_state_def)
  ultimately show ?thesis
    using purge_whole_table_once [OF ok demo_store_inv, where t' = "''t''" and now' = 99 and
        cx = demo_codecs and ops = "[OpCommitFiles (demo_commit ''b9'' ''k'') 5]"]
    by (intro exI [of _ st']) simp
qed

end
