(* ===== verification/Deletion_Vector.thy ===== *)
theory Deletion_Vector
  imports Errors BTree_Map Le_Bytes
begin

text \<open>
  Deletion vectors (\<open>crates/model/src/dv.rs\<close>): the bitmap of deleted row numbers of one data file, the
  ranges of rows it keeps, and its frame on disk. A \<open>RoaringBitmap\<close> is the ordered set of its row
  numbers; its serialisation and \<open>crc32fast::hash\<close> belong to other crates and are the parameters
  \<open>rser\<close>, \<open>rdeser\<close> and \<open>crc\<close>.
\<close>

type_synonym dv_bitmap = "nat bset"

definition DV_FORMAT_VERSION :: nat where
  "DV_FORMAT_VERSION = 1"

definition DV_MAGIC :: bytes where
  "DV_MAGIC = [0x59, 0x54, 0x44, 0x56]"

definition DV_HEADER_LEN :: nat where
  "DV_HEADER_LEN = 14"

definition dv_from_positions :: "nat list \<Rightarrow> dv_bitmap" where
  "dv_from_positions ps = fold (\<lambda>p. bm_insert p ()) ps bm_empty"

definition dv_is_empty :: "dv_bitmap \<Rightarrow> bool" where
  "dv_is_empty b = (bm_keys b = [])"

definition dv_card :: "dv_bitmap \<Rightarrow> nat" where
  "dv_card b = bm_size b"

definition dv_contains :: "dv_bitmap \<Rightarrow> nat \<Rightarrow> bool" where
  "dv_contains b p = bm_has b p"

definition dv_max :: "dv_bitmap \<Rightarrow> nat option" where
  "dv_max b = (if bm_keys b = [] then None else Some (last (bm_keys b)))"

text \<open>The loop over the set rows: \<open>start\<close> is the first row after the last deleted one.\<close>

fun keep_loop :: "nat list \<Rightarrow> nat \<Rightarrow> (nat \<times> nat) list \<Rightarrow> nat \<times> (nat \<times> nat) list" where
  "keep_loop [] start out = (start, out)"
| "keep_loop (p # ps) start out =
     keep_loop ps (p + 1) (if p > start then out @ [(start, p)] else out)"

definition keep_ranges :: "dv_bitmap \<Rightarrow> nat \<Rightarrow> lake_error + (nat \<times> nat) list" where
  "keep_ranges b row_count =
     (if (case dv_max b of Some m \<Rightarrow> m \<ge> row_count | None \<Rightarrow> False)
      then Inl (Other ''deletion vector does not match the file'')
      else
        let (start, out) = keep_loop (bm_keys b) 0 []
        in Inr (if start < row_count then out @ [(start, row_count)] else out))"

definition dv_union_with :: "dv_bitmap \<Rightarrow> dv_bitmap \<Rightarrow> dv_bitmap" where
  "dv_union_with b other = bm_insert_all (map (\<lambda>p. (p, ())) (bm_keys other)) b"

definition dv_to_bytes :: "(dv_bitmap \<Rightarrow> bytes) \<Rightarrow> (bytes \<Rightarrow> nat) \<Rightarrow> dv_bitmap \<Rightarrow> bytes" where
  "dv_to_bytes rser crc b =
     (let payload = rser b in
      DV_MAGIC @ le_bytes 2 DV_FORMAT_VERSION @ le_bytes 4 (length payload) @
      le_bytes 4 (crc payload) @ payload)"

definition dv_from_bytes ::
  "(bytes \<Rightarrow> dv_bitmap option) \<Rightarrow> (bytes \<Rightarrow> nat) \<Rightarrow> bytes \<Rightarrow> lake_error + dv_bitmap" where
  "dv_from_bytes rdeser crc bs =
     (if length bs < DV_HEADER_LEN then Inl (Other ''short header'')
      else if take 4 bs \<noteq> DV_MAGIC then Inl (Other ''bad magic'')
      else if le_nat (slice 4 6 bs) \<noteq> DV_FORMAT_VERSION then Inl (Other ''unknown version'')
      else
        let len = le_nat (slice 6 10 bs);
            stored = le_nat (slice 10 14 bs);
            payload = drop DV_HEADER_LEN bs
        in if length payload \<noteq> len then Inl (Other ''payload length'')
           else if crc payload \<noteq> stored then Inl (Other ''crc'')
           else (case rdeser payload of
                   None \<Rightarrow> Inl (Other ''bitmap'')
                 | Some b \<Rightarrow> Inr b))"

subsection \<open>The kept ranges\<close>

definition in_ranges :: "nat \<Rightarrow> (nat \<times> nat) list \<Rightarrow> bool" where
  "in_ranges i rs = (\<exists>x \<in> set rs. fst x \<le> i \<and> i < snd x)"

definition separated :: "(nat \<times> nat) list \<Rightarrow> bool" where
  "separated rs \<longleftrightarrow> (\<forall>x \<in> set rs. fst x < snd x) \<and> sorted_wrt (\<lambda>x y. snd x < fst y) rs"

lemma in_ranges_append [simp]: "in_ranges i (rs @ [(a, b)]) \<longleftrightarrow> in_ranges i rs \<or> (a \<le> i \<and> i < b)"
  by (auto simp: in_ranges_def)

lemma separated_append:
  "separated (rs @ [(a, b)]) \<longleftrightarrow> separated rs \<and> a < b \<and> (\<forall>x \<in> set rs. snd x < a)"
  by (auto simp: separated_def sorted_wrt_append)

lemma keep_loop_spec:
  assumes "sorted_wrt (<) ps" "\<forall>p \<in> set ps. start \<le> p"
    and "separated out" "\<forall>x \<in> set out. snd x < start"
    and "keep_loop ps start out = (s, rs)"
  shows "separated rs \<and> (\<forall>x \<in> set rs. snd x < s) \<and> start \<le> s \<and> (\<forall>p \<in> set ps. p < s) \<and>
    (s = start \<or> (s - 1) \<in> set ps) \<and>
    (\<forall>i. in_ranges i rs \<longleftrightarrow> in_ranges i out \<or> (start \<le> i \<and> i < s \<and> i \<notin> set ps))"
  using assms
proof (induction ps start out rule: keep_loop.induct)
  case (2 p ps start out)
  let ?out = "if p > start then out @ [(start, p)] else out"
  have prems: "sorted_wrt (<) ps" "\<forall>q \<in> set ps. p + 1 \<le> q" "separated ?out"
    "\<forall>x \<in> set ?out. snd x < p + 1" "keep_loop ps (p + 1) ?out = (s, rs)" "start \<le> p"
    using "2.prems" by (auto simp: separated_append less_Suc_eq)
  note IH = "2.IH" [OF prems(1-5)]
  have "in_ranges i rs \<longleftrightarrow> in_ranges i out \<or> (start \<le> i \<and> i < s \<and> i \<notin> set (p # ps))" for i
  proof -
    have "in_ranges i ?out \<longleftrightarrow> in_ranges i out \<or> (start \<le> i \<and> i < p)" by auto
    moreover have "i \<notin> set ps" if "i \<le> p" using prems(2) that by auto
    ultimately show ?thesis using IH prems(6) by auto
  qed
  with IH prems(6) show ?case by auto
qed auto

lemma in_ranges_Nil [simp]: "\<not> in_ranges i []"
  by (simp add: in_ranges_def)

lemma separated_Nil [simp]: "separated []"
  by (simp add: separated_def)

lemma le_last: "sorted_wrt (<) xs \<Longrightarrow> p \<in> set xs \<Longrightarrow> p \<le> last (xs :: nat list)"
proof (induction xs)
  case (Cons x xs)
  then show ?case by (cases "xs = []") (auto intro: less_imp_le)
qed simp

lemma keep_ranges_complement:
  "case keep_ranges b n of
     Inl _ \<Rightarrow> \<exists>p. dv_contains b p \<and> n \<le> p
   | Inr rs \<Rightarrow> (\<forall>p. dv_contains b p \<longrightarrow> p < n) \<and> separated rs \<and> (\<forall>x \<in> set rs. snd x \<le> n) \<and>
       (\<forall>i. in_ranges i rs \<longleftrightarrow> i < n \<and> \<not> dv_contains b i)"
proof -
  have keys: "dv_contains b p \<longleftrightarrow> p \<in> set (bm_keys b)" for p
    by (simp add: dv_contains_def bm_has_iff)
  obtain s rs where loop: "keep_loop (bm_keys b) 0 [] = (s, rs)" by fastforce
  note spec = keep_loop_spec [OF bm_keys_strict_sorted _ separated_Nil _ loop, simplified]
  show ?thesis
  proof (cases "case dv_max b of Some m \<Rightarrow> m \<ge> n | None \<Rightarrow> False")
    case True
    then have "bm_keys b \<noteq> []" "n \<le> last (bm_keys b)"
      by (auto simp: dv_max_def split: if_splits)
    with True show ?thesis
      by (auto simp: keep_ranges_def keys intro!: exI [of _ "last (bm_keys b)"])
  next
    case False
    have small: "\<forall>p \<in> set (bm_keys b). p < n"
    proof
      fix p
      assume p: "p \<in> set (bm_keys b)"
      then have "p \<le> last (bm_keys b)" by (rule le_last [OF bm_keys_strict_sorted])
      with p False show "p < n" by (auto simp: dv_max_def split: if_splits)
    qed
    have "s \<le> n" using spec small by (auto simp: less_eq_Suc_le)
    with False spec small loop show ?thesis
      by (auto simp: keep_ranges_def keys separated_append)
  qed
qed

text \<open>The kept ranges are the exact complement of the deleted rows. Either some deleted row lies
  beyond the file and the vector is refused, or the ranges are non-empty, ordered, pairwise
  separated by at least one deleted row, within the file, and a row of the file lies in one of them
  exactly when it is not deleted; so no deleted row is let through and no live row is lost.\<close>

theorem keep_ranges_exact:
  "case keep_ranges b n of
     Inl _ \<Rightarrow> \<exists>p. dv_contains b p \<and> n \<le> p
   | Inr rs \<Rightarrow> (\<forall>p. dv_contains b p \<longrightarrow> p < n) \<and> separated rs \<and> (\<forall>x \<in> set rs. snd x \<le> n) \<and>
       (\<forall>i. in_ranges i rs \<longleftrightarrow> i < n \<and> \<not> dv_contains b i)"
  by (rule keep_ranges_complement)

theorem keep_ranges_exact_witness:
  "separated [(0, 1), (2, 5)] \<and>
    (\<forall>i. in_ranges i [(0, 1), (2, 5)] \<longleftrightarrow> i < 5 \<and> \<not> dv_contains (dv_from_positions [1]) i)"
proof -
  have "keep_ranges (dv_from_positions [1]) 5 = Inr [(0, 1), (2, 5)]"
    by (simp add: keep_ranges_def dv_from_positions_def dv_max_def bm_keys_def)
  with keep_ranges_exact [of "dv_from_positions [1]" 5] show ?thesis by simp
qed

lemma dv_contains_from_positions: "dv_contains (dv_from_positions ps) p \<longleftrightarrow> p \<in> set ps"
proof -
  have "bm_has (fold (\<lambda>p. bm_insert p ()) ps m) p \<longleftrightarrow> p \<in> set ps \<or> bm_has m p" for m
    by (induction ps arbitrary: m) (auto simp: bm_has_def bm_simps)
  from this [of bm_empty] show ?thesis by (simp add: dv_contains_def dv_from_positions_def bm_has_def)
qed

lemma dv_contains_union: "dv_contains (dv_union_with a b) p \<longleftrightarrow> dv_contains a p \<or> dv_contains b p"
  by (simp add: dv_contains_def dv_union_with_def bm_has_def bm_get_unit_list bm_keys_iff)

text \<open>Merging vectors before computing the ranges is the same as applying both: a row is kept by the
  union of two vectors exactly when each of the two, applied alone, keeps it.\<close>

theorem union_keeps_intersection:
  assumes "keep_ranges a n = Inr ra" and "keep_ranges b n = Inr rb"
  shows "\<exists>r. keep_ranges (dv_union_with a b) n = Inr r \<and>
    (\<forall>i. in_ranges i r \<longleftrightarrow> in_ranges i ra \<and> in_ranges i rb)"
proof -
  note exact = keep_ranges_complement
  from exact [of a n] exact [of b n] assms
  have A: "\<And>p. dv_contains a p \<Longrightarrow> p < n" "\<And>i. in_ranges i ra \<longleftrightarrow> i < n \<and> \<not> dv_contains a i"
    and B: "\<And>p. dv_contains b p \<Longrightarrow> p < n" "\<And>i. in_ranges i rb \<longleftrightarrow> i < n \<and> \<not> dv_contains b i"
    by auto
  show ?thesis
  proof (cases "keep_ranges (dv_union_with a b) n")
    case (Inl e)
    with exact [of "dv_union_with a b" n] obtain p where "dv_contains (dv_union_with a b) p" "n \<le> p"
      by auto
    with A(1) [of p] B(1) [of p] show ?thesis by (auto simp: dv_contains_union)
  next
    case (Inr r)
    with exact [of "dv_union_with a b" n] A B show ?thesis by (auto simp: dv_contains_union)
  qed
qed

theorem union_keeps_intersection_witness:
  "\<exists>r. keep_ranges (dv_union_with (dv_from_positions [1]) (dv_from_positions [3])) 5 = Inr r \<and>
    (\<forall>i. in_ranges i r \<longleftrightarrow> in_ranges i [(0, 1), (2, 5)] \<and> in_ranges i [(0, 3), (4, 5)])"
proof (rule union_keeps_intersection)
  show "keep_ranges (dv_from_positions [1]) 5 = Inr [(0, 1), (2, 5)]"
    "keep_ranges (dv_from_positions [3]) 5 = Inr [(0, 3), (4, 5)]"
    by (simp_all add: keep_ranges_def dv_from_positions_def dv_max_def bm_keys_def)
qed

subsection \<open>The frame\<close>

definition dv_frame :: "(bytes \<Rightarrow> nat) \<Rightarrow> bytes \<Rightarrow> bytes" where
  "dv_frame crc payload = DV_MAGIC @ le_bytes 2 DV_FORMAT_VERSION @ le_bytes 4 (length payload) @
     le_bytes 4 (crc payload) @ payload"

lemma dv_frame_fields:
  "take 4 (dv_frame crc p) = DV_MAGIC"
  "slice 4 6 (dv_frame crc p) = le_bytes 2 DV_FORMAT_VERSION"
  "slice 6 10 (dv_frame crc p) = le_bytes 4 (length p)"
  "slice 10 14 (dv_frame crc p) = le_bytes 4 (crc p)"
  "drop 14 (dv_frame crc p) = p"
  "length (dv_frame crc p) = 14 + length p"
  by (simp_all add: dv_frame_def slice_def DV_MAGIC_def)

lemma dv_frame_of_parts:
  assumes "DV_HEADER_LEN \<le> length bs" "take 4 bs = DV_MAGIC" "le_nat (slice 4 6 bs) = DV_FORMAT_VERSION"
    "le_nat (slice 6 10 bs) = length (drop 14 bs)" "le_nat (slice 10 14 bs) = crc (drop 14 bs)"
  shows "bs = dv_frame crc (drop 14 bs)"
proof -
  have len: "14 \<le> length bs" using assms(1) by (simp add: DV_HEADER_LEN_def)
  have "drop 4 bs = slice 4 6 bs @ slice 6 10 bs @ slice 10 14 bs @ drop 14 bs"
    using slice_append_drop [of 4 6 bs] slice_append_drop [of 6 10 bs] slice_append_drop [of 10 14 bs]
    by simp
  then have "bs = take 4 bs @ slice 4 6 bs @ slice 6 10 bs @ slice 10 14 bs @ drop 14 bs"
    by (metis append_take_drop_id)
  moreover have "slice 4 6 bs = le_bytes 2 DV_FORMAT_VERSION"
    using le_bytes_le_nat [of "slice 4 6 bs" 2] len assms(3) by (simp add: length_slice)
  moreover have "slice 6 10 bs = le_bytes 4 (length (drop 14 bs))"
    using le_bytes_le_nat [of "slice 6 10 bs" 4] len assms(4) by (simp add: length_slice)
  moreover have "slice 10 14 bs = le_bytes 4 (crc (drop 14 bs))"
    using le_bytes_le_nat [of "slice 10 14 bs" 4] len assms(5) by (simp add: length_slice)
  ultimately show ?thesis using assms(2) by (simp add: dv_frame_def)
qed

lemma dv_from_bytes_frame:
  assumes "\<And>p. crc p < 2 ^ 32"
  shows "dv_from_bytes rdeser crc bs = Inr b \<longleftrightarrow>
    (\<exists>p. bs = dv_frame crc p \<and> length p < 2 ^ 32 \<and> rdeser p = Some b)"
proof
  assume ok: "dv_from_bytes rdeser crc bs = Inr b"
  let ?p = "drop 14 bs"
  from ok have f: "DV_HEADER_LEN \<le> length bs" "take 4 bs = DV_MAGIC"
    "le_nat (slice 4 6 bs) = DV_FORMAT_VERSION" "le_nat (slice 6 10 bs) = length ?p"
    "le_nat (slice 10 14 bs) = crc ?p" "rdeser ?p = Some b"
    by (auto simp: dv_from_bytes_def Let_def DV_HEADER_LEN_def split: if_splits option.splits)
  have "length (slice 6 10 bs) = 4" using f(1) by (simp add: length_slice DV_HEADER_LEN_def)
  then have "length ?p < 2 ^ 32" using le_nat_bound [of "slice 6 10 bs"] f(4) by simp
  with dv_frame_of_parts [where crc = crc, OF f(1-5)] f(6) show "\<exists>p. bs = dv_frame crc p \<and> length p < 2 ^ 32 \<and> rdeser p = Some b"
    by blast
next
  assume "\<exists>p. bs = dv_frame crc p \<and> length p < 2 ^ 32 \<and> rdeser p = Some b"
  then obtain p where "bs = dv_frame crc p" "length p < 2 ^ 32" "rdeser p = Some b" by blast
  moreover have "le_nat (le_bytes 4 (crc p)) = crc p" using assms [of p] by (simp add: le_nat_le_bytes_id)
  moreover have "le_nat (le_bytes 2 DV_FORMAT_VERSION) = DV_FORMAT_VERSION"
    by (simp add: le_nat_le_bytes_id DV_FORMAT_VERSION_def)
  ultimately show "dv_from_bytes rdeser crc bs = Inr b"
    by (simp add: dv_from_bytes_def DV_HEADER_LEN_def dv_frame_fields le_nat_le_bytes_id)
qed

text \<open>A deletion vector file is read back exactly or not at all. If the bitmap codec is faithful on
  the vector and its payload fits the length field, reading what was written returns the vector; and
  no proper prefix of the file is accepted, so a vector cut short by a crash or a partial transfer
  is an error and never an empty or smaller set of deletions.\<close>

theorem dv_frame_roundtrip_and_truncation:
  assumes "\<And>p. crc p < 2 ^ 32" and "rdeser (rser b) = Some b" and "length (rser b) < 2 ^ 32"
  shows "dv_from_bytes rdeser crc (dv_to_bytes rser crc b) = Inr b \<and>
    (\<forall>k < length (dv_to_bytes rser crc b).
       \<exists>e. dv_from_bytes rdeser crc (take k (dv_to_bytes rser crc b)) = Inl e)"
proof -
  have bytes: "dv_to_bytes rser crc b = dv_frame crc (rser b)"
    by (simp add: dv_to_bytes_def dv_frame_def Let_def)
  have "\<exists>e. dv_from_bytes rdeser crc (take k (dv_frame crc (rser b))) = Inl e"
    if k: "k < length (dv_frame crc (rser b))" for k
  proof (cases "dv_from_bytes rdeser crc (take k (dv_frame crc (rser b)))")
    case (Inr b')
    from Inr [unfolded dv_from_bytes_frame [OF assms(1)]]
    obtain p where p: "take k (dv_frame crc (rser b)) = dv_frame crc p" "length p < 2 ^ 32" by blast
    have "14 + length p = k"
      using arg_cong [where f = length, OF p(1)] k by (simp add: dv_frame_fields)
    then have "slice 6 10 (dv_frame crc p) = slice 6 10 (dv_frame crc (rser b))"
      unfolding p(1) [symmetric] by (simp add: slice_take)
    then have "le_nat (le_bytes 4 (length p)) = le_nat (le_bytes 4 (length (rser b)))"
      by (simp only: dv_frame_fields)
    with p(2) assms(3) have "length p = length (rser b)" by (simp add: le_nat_le_bytes)
    with \<open>14 + length p = k\<close> k show ?thesis by (simp add: dv_frame_fields)
  qed auto
  then show ?thesis
    using dv_from_bytes_frame [OF assms(1), of rdeser] assms(2,3) by (auto simp: bytes)
qed

text \<open>A concrete codec: one byte per row number below 256, and a checksum by length.\<close>

definition demo_rser :: "dv_bitmap \<Rightarrow> bytes" where
  "demo_rser b = map of_nat (bm_keys b)"

definition demo_rdeser :: "bytes \<Rightarrow> dv_bitmap option" where
  "demo_rdeser bs = Some (dv_from_positions (map unat bs))"

theorem dv_frame_roundtrip_and_truncation_witness:
  "dv_from_bytes demo_rdeser (\<lambda>p. length p mod 2 ^ 32)
     (dv_to_bytes demo_rser (\<lambda>p. length p mod 2 ^ 32) (dv_from_positions [7, 2])) =
   Inr (dv_from_positions [7, 2])"
proof -
  let ?b = "dv_from_positions [7, 2]"
  have keys: "bm_keys ?b = [2, 7]" by (simp add: dv_from_positions_def bm_keys_def)
  have "bm_get (dv_from_positions [2, 7]) k = bm_get ?b k" for k
    by (simp add: dv_from_positions_def bm_simps)
  then have "dv_from_positions [2, 7] = ?b" by (rule bm_eqI)
  then have "demo_rdeser (demo_rser ?b) = Some ?b" by (simp add: demo_rdeser_def demo_rser_def keys)
  moreover have "length (demo_rser ?b) < 2 ^ 32" by (simp add: demo_rser_def keys)
  ultimately show ?thesis
    using dv_frame_roundtrip_and_truncation [of "\<lambda>p. length p mod 2 ^ 32" demo_rdeser demo_rser ?b] by simp
qed

end
