(* ===== verification/Snapshot_Frame.thy ===== *)
theory Snapshot_Frame
  imports Errors Le_Bytes
begin

text \<open>
  The frame of a catalog snapshot (\<open>crates/model/src/snapshot.rs\<close>): a header with its own checksum,
  then blocks, each with its length and checksum, until the declared payload length is reached.
  \<open>frame_snapshot\<close> and \<open>unframe\<close> are the source's \<open>frame\<close> and \<open>unframe\<close>; \<open>crc32fast::hash\<close> is the
  parameter \<open>crc\<close>.
\<close>

definition SNAPSHOT_MAGIC :: bytes where
  "SNAPSHOT_MAGIC = [0x59, 0x54, 0x53, 0x4E, 0x41, 0x50, 0x30, 0x31]"

definition SNAPSHOT_FORMAT_VERSION :: nat where
  "SNAPSHOT_FORMAT_VERSION = 4"

definition SNAPSHOT_HEADER_LEN :: nat where
  "SNAPSHOT_HEADER_LEN = 36"

definition SNAPSHOT_CHUNK_OVERHEAD :: nat where
  "SNAPSHOT_CHUNK_OVERHEAD = 8"

definition DEFAULT_CHUNK_SIZE :: nat where
  "DEFAULT_CHUNK_SIZE = 1048576"

definition MAX_CHUNK_SIZE :: nat where
  "MAX_CHUNK_SIZE = 67108864"

record unframed =
  uf_format_version :: nat
  uf_revision :: nat
  uf_payload :: bytes

definition effective_chunk_size :: "nat \<Rightarrow> nat" where
  "effective_chunk_size chunk_size =
     (if chunk_size = 0 then DEFAULT_CHUNK_SIZE
      else if chunk_size > MAX_CHUNK_SIZE then MAX_CHUNK_SIZE
      else chunk_size)"

text \<open>\<open>slice::chunks(n)\<close> for a positive \<open>n\<close>.\<close>

function chunks_of :: "nat \<Rightarrow> bytes \<Rightarrow> bytes list" where
  "chunks_of n xs =
     (if xs = [] \<or> n = 0 then [] else take n xs # chunks_of n (drop n xs))"
  by auto
termination by (relation "measure (\<lambda>(n, xs). length xs)") auto

declare chunks_of.simps [simp del]

definition block :: "(bytes \<Rightarrow> nat) \<Rightarrow> bytes \<Rightarrow> bytes" where
  "block crc chunk = le_bytes 4 (length chunk) @ le_bytes 4 (crc chunk) @ chunk"

definition header_prefix :: "nat \<Rightarrow> nat \<Rightarrow> nat \<Rightarrow> bytes" where
  "header_prefix revision payload_len chunk_size =
     SNAPSHOT_MAGIC @ le_bytes 4 SNAPSHOT_FORMAT_VERSION @ le_bytes 8 revision @
     le_bytes 8 payload_len @ le_bytes 4 chunk_size"

definition frame_snapshot :: "(bytes \<Rightarrow> nat) \<Rightarrow> bytes \<Rightarrow> nat \<Rightarrow> nat \<Rightarrow> bytes" where
  "frame_snapshot crc payload revision chunk_size =
     (let cs = effective_chunk_size chunk_size;
          pre = header_prefix revision (length payload) cs
      in pre @ le_bytes 4 (crc pre) @ concat (map (block crc) (chunks_of cs payload)))"

text \<open>The block loop; \<open>pos\<close> is the offset of \<open>rest\<close>, which the errors report.\<close>

function read_blocks ::
  "(bytes \<Rightarrow> nat) \<Rightarrow> nat \<Rightarrow> nat \<Rightarrow> bytes \<Rightarrow> bytes \<Rightarrow> snapshot_error + bytes" where
  "read_blocks crc chunk_size pos rest payload =
     (if rest = [] then Inr payload
      else if length rest < SNAPSHOT_CHUNK_OVERHEAD
        then Inl (Truncated pos SNAPSHOT_CHUNK_OVERHEAD (length rest))
      else
        let dlen = le_nat (slice 0 4 rest); dcrc = le_nat (slice 4 8 rest) in
        if dlen = 0 \<or> dlen > chunk_size then Inl (InvalidChunkSize dlen)
        else
          let need = SNAPSHOT_CHUNK_OVERHEAD + dlen in
          if length rest < need then Inl (Truncated pos need (length rest))
          else
            let data = slice SNAPSHOT_CHUNK_OVERHEAD need rest; actual = crc data in
            if actual \<noteq> dcrc then Inl (ChunkCrcMismatch pos dcrc actual)
            else read_blocks crc chunk_size (pos + need) (drop need rest) (payload @ data))"
  by auto
termination
  by (relation "measure (\<lambda>(crc, cs, pos, rest, payload). length rest)")
     (auto simp: SNAPSHOT_CHUNK_OVERHEAD_def)

declare read_blocks.simps [simp del]

definition unframe :: "(bytes \<Rightarrow> nat) \<Rightarrow> bytes \<Rightarrow> snapshot_error + unframed" where
  "unframe crc bs =
     (if length bs < SNAPSHOT_HEADER_LEN then Inl (TooShort (length bs))
      else if take 8 bs \<noteq> SNAPSHOT_MAGIC then Inl BadMagic
      else
        let format_version = le_nat (slice 8 12 bs);
            revision = le_nat (slice 12 20 bs);
            payload_len = le_nat (slice 20 28 bs);
            chunk_size = le_nat (slice 28 32 bs);
            stored_hcrc = le_nat (slice 32 36 bs);
            actual_hcrc = crc (take (SNAPSHOT_HEADER_LEN - 4) bs)
        in if stored_hcrc \<noteq> actual_hcrc then Inl (HeaderCrcMismatch stored_hcrc actual_hcrc)
           else if format_version \<noteq> SNAPSHOT_FORMAT_VERSION then Inl (UnsupportedVersion format_version)
           else if chunk_size = 0 \<or> chunk_size > MAX_CHUNK_SIZE then Inl (InvalidChunkSize chunk_size)
           else (case read_blocks crc chunk_size SNAPSHOT_HEADER_LEN (drop SNAPSHOT_HEADER_LEN bs) [] of
                   Inl e \<Rightarrow> Inl e
                 | Inr payload \<Rightarrow>
                     if length payload \<noteq> payload_len
                     then Inl (LengthMismatch payload_len (length payload))
                     else Inr \<lparr>uf_format_version = format_version, uf_revision = revision,
                            uf_payload = payload\<rparr>))"

subsection \<open>Reading blocks back\<close>

lemma concat_chunks_of: "0 < n \<Longrightarrow> concat (chunks_of n xs) = xs"
  by (induction n xs rule: chunks_of.induct) (subst chunks_of.simps, auto)

lemma chunks_of_bounds: "c \<in> set (chunks_of n xs) \<Longrightarrow> c \<noteq> [] \<and> length c \<le> n"
  by (induction n xs rule: chunks_of.induct) (subst (asm) (2) chunks_of.simps, auto split: if_splits)

definition good_chunk :: "nat \<Rightarrow> bytes \<Rightarrow> bool" where
  "good_chunk cs c \<longleftrightarrow> c \<noteq> [] \<and> length c \<le> cs"

lemma block_fields:
  "slice 0 4 (block crc c @ r) = le_bytes 4 (length c)"
  "slice 4 8 (block crc c @ r) = le_bytes 4 (crc c)"
  "slice 8 (8 + length c) (block crc c @ r) = c"
  "drop (8 + length c) (block crc c @ r) = r"
  "length (block crc c) = 8 + length c"
  by (simp_all add: block_def slice_def)

lemma read_blocks_block:
  assumes "good_chunk cs c" "cs < 2 ^ 32" "crc c < 2 ^ 32"
  shows "read_blocks crc cs pos (block crc c @ r) acc = read_blocks crc cs (pos + (8 + length c)) r (acc @ c)"
proof -
  have "le_nat (le_bytes 4 (length c)) = length c" "le_nat (le_bytes 4 (crc c)) = crc c"
    using assms by (simp_all add: le_nat_le_bytes_id good_chunk_def)
  moreover have "block crc c \<noteq> []" "0 < length c" "length c \<le> cs" "\<not> length (block crc c @ r) < 8"
    using assms(1) by (auto simp: good_chunk_def block_fields block_def)
  ultimately show ?thesis
    by (subst read_blocks.simps)
       (simp add: SNAPSHOT_CHUNK_OVERHEAD_def Let_def block_fields)
qed

lemma read_blocks_all:
  assumes "\<forall>c \<in> set cl. good_chunk cs c" "cs < 2 ^ 32" "\<And>c. crc c < 2 ^ 32"
  shows "\<exists>pos'. read_blocks crc cs pos (concat (map (block crc) cl) @ r) acc =
    read_blocks crc cs pos' r (acc @ concat cl)"
  using assms(1)
proof (induction cl arbitrary: pos acc)
  case Nil
  show ?case by auto
next
  case (Cons c cl)
  have "good_chunk cs c" using Cons.prems by simp
  from read_blocks_block [where crc = crc and pos = pos and acc = acc and
      r = "concat (map (block crc) cl) @ r", OF this assms(2,3)]
    Cons.IH [of "pos + (8 + length c)" "acc @ c"] Cons.prems
  show ?case by simp
qed

lemma read_blocks_nil [simp]: "read_blocks crc cs pos [] acc = Inr acc"
  by (subst read_blocks.simps) simp

text \<open>Whatever the loop accepts is a sequence of well-formed blocks.\<close>

lemma read_blocks_step:
  assumes "read_blocks crc cs pos rest acc = Inr p" "rest \<noteq> []"
  obtains c r where "rest = block crc c @ r" "good_chunk cs c"
    "read_blocks crc cs (pos + (8 + length c)) r (acc @ c) = Inr p"
proof -
  let ?d = "le_nat (slice 0 4 rest)"
  let ?c = "slice 8 (8 + ?d) rest"
  from assms have f: "8 \<le> length rest" "0 < ?d" "?d \<le> cs" "8 + ?d \<le> length rest"
      "crc ?c = le_nat (slice 4 8 rest)"
      "read_blocks crc cs (pos + (8 + ?d)) (drop (8 + ?d) rest) (acc @ ?c) = Inr p"
    by (subst (asm) read_blocks.simps, simp add: SNAPSHOT_CHUNK_OVERHEAD_def Let_def split: if_splits)+
  have len: "length ?c = ?d" using f(4) by (simp add: length_slice)
  have "rest = slice 0 4 rest @ slice 4 8 rest @ ?c @ drop (8 + ?d) rest"
    using slice_append_drop [of 0 4 rest] slice_append_drop [of 4 8 rest]
      slice_append_drop [of 8 "8 + ?d" rest] by simp
  moreover have "slice 0 4 rest = le_bytes 4 (length ?c)"
    using le_bytes_le_nat [of "slice 0 4 rest" 4] f(1) len by (simp add: length_slice)
  moreover have "slice 4 8 rest = le_bytes 4 (crc ?c)"
    using le_bytes_le_nat [of "slice 4 8 rest" 4] f(1,5) by (simp add: length_slice)
  ultimately have "rest = block crc ?c @ drop (8 + ?d) rest" by (simp add: block_def)
  moreover have "good_chunk cs ?c" using f(2,3) len by (auto simp: good_chunk_def)
  ultimately show thesis using that f(6) len by simp
qed

lemma read_blocks_decompose:
  "read_blocks crc cs pos rest acc = Inr p \<Longrightarrow>
    \<exists>cl. rest = concat (map (block crc) cl) \<and> (\<forall>c \<in> set cl. good_chunk cs c) \<and> p = acc @ concat cl"
proof (induction "length rest" arbitrary: pos rest acc rule: less_induct)
  case less
  show ?case
  proof (cases "rest = []")
    case True
    with less.prems show ?thesis by (intro exI [of _ "[]"]) simp
  next
    case False
    obtain c r where cr: "rest = block crc c @ r" "good_chunk cs c"
      "read_blocks crc cs (pos + (8 + length c)) r (acc @ c) = Inr p"
      by (rule read_blocks_step [OF less.prems False])
    have "length r < length rest" by (simp add: cr(1) block_fields)
    from less.hyps [OF this cr(3)] obtain cl where
      "r = concat (map (block crc) cl)" "\<forall>c \<in> set cl. good_chunk cs c" "p = acc @ c @ concat cl" by auto
    with cr show ?thesis by (intro exI [of _ "c # cl"]) simp
  qed
qed

lemma read_blocks_prefix:
  assumes "cs < 2 ^ 32" "\<And>c. crc c < 2 ^ 32"
    and "read_blocks crc cs pos a acc = Inr p" "read_blocks crc cs pos (a @ b) acc = Inr q" "b \<noteq> []"
  shows "length p < length q"
proof -
  obtain cl where cl: "a = concat (map (block crc) cl)" "\<forall>c \<in> set cl. good_chunk cs c" "p = acc @ concat cl"
    using read_blocks_decompose [OF assms(3)] by blast
  obtain pos' where "read_blocks crc cs pos' b p = Inr q"
    using read_blocks_all [where crc = crc and pos = pos and r = b and acc = acc, OF cl(2) assms(1,2)] assms(4) cl(1,3)
    by auto
  from read_blocks_decompose [OF this] obtain cl' where
    cl': "b = concat (map (block crc) cl')" "\<forall>c \<in> set cl'. good_chunk cs c" "q = p @ concat cl'" by blast
  with assms(5) obtain c where "c \<in> set cl'" by (cases cl') auto
  with cl'(2) have "concat cl' \<noteq> []" by (auto simp: good_chunk_def)
  with cl'(3) show ?thesis by simp
qed

subsection \<open>Round trip and truncation\<close>

lemma header_prefix_length [simp]: "length (header_prefix r n cs) = 32"
  by (simp add: header_prefix_def SNAPSHOT_MAGIC_def)

lemma header_fields:
  "take 8 (header_prefix r n cs) = SNAPSHOT_MAGIC"
  "slice 8 12 (header_prefix r n cs @ x) = le_bytes 4 SNAPSHOT_FORMAT_VERSION"
  "slice 12 20 (header_prefix r n cs @ x) = le_bytes 8 r"
  "slice 20 28 (header_prefix r n cs @ x) = le_bytes 8 n"
  "slice 28 32 (header_prefix r n cs @ x) = le_bytes 4 cs"
  by (simp_all add: header_prefix_def SNAPSHOT_MAGIC_def slice_def)

lemma effective_chunk_size_bounds:
  "0 < effective_chunk_size n" "effective_chunk_size n \<le> MAX_CHUNK_SIZE"
  by (simp_all add: effective_chunk_size_def DEFAULT_CHUNK_SIZE_def MAX_CHUNK_SIZE_def)

lemma unframe_frame:
  assumes "\<And>bs. crc bs < 2 ^ 32" and "length payload < 2 ^ 64" and "revision < 2 ^ 64"
  shows "unframe crc (frame_snapshot crc payload revision chunk_size) =
    Inr \<lparr>uf_format_version = SNAPSHOT_FORMAT_VERSION, uf_revision = revision, uf_payload = payload\<rparr>"
proof -
  let ?cs = "effective_chunk_size chunk_size"
  let ?pre = "header_prefix revision (length payload) ?cs"
  let ?blocks = "concat (map (block crc) (chunks_of ?cs payload))"
  let ?bs = "?pre @ le_bytes 4 (crc ?pre) @ ?blocks"
  have cs: "0 < ?cs" "?cs \<le> MAX_CHUNK_SIZE" "?cs < 2 ^ 32"
    using effective_chunk_size_bounds [of chunk_size] by (simp_all add: MAX_CHUNK_SIZE_def)
  have "\<forall>c \<in> set (chunks_of ?cs payload). good_chunk ?cs c"
    by (auto simp: good_chunk_def dest: chunks_of_bounds)
  from read_blocks_all [where crc = crc and pos = 36 and r = "[]" and acc = "[]", OF this cs(3) assms(1)]
  have blocks: "read_blocks crc ?cs 36 ?blocks [] = Inr payload"
    by (auto simp: concat_chunks_of cs(1))
  have parts: "le_nat (le_bytes 4 SNAPSHOT_FORMAT_VERSION) = SNAPSHOT_FORMAT_VERSION"
    "le_nat (le_bytes 8 revision) = revision" "le_nat (le_bytes 8 (length payload)) = length payload"
    "le_nat (le_bytes 4 ?cs) = ?cs" "le_nat (le_bytes 4 (crc ?pre)) = crc ?pre"
    using assms(1) [of ?pre] assms(2,3) cs(3)
    by (simp_all add: le_nat_le_bytes_id SNAPSHOT_FORMAT_VERSION_def)
  have "slice 32 36 ?bs = le_bytes 4 (crc ?pre)" "take 32 ?bs = ?pre" "drop 36 ?bs = ?blocks"
    by (simp_all add: slice_def)
  then have "unframe crc ?bs = Inr \<lparr>uf_format_version = SNAPSHOT_FORMAT_VERSION, uf_revision = revision,
      uf_payload = payload\<rparr>"
    using cs(1,2) by (simp add: unframe_def Let_def SNAPSHOT_HEADER_LEN_def header_fields parts blocks)
  then show ?thesis by (simp add: frame_snapshot_def Let_def)
qed

text \<open>A snapshot frame is read back exactly. For every payload, revision and requested chunk size
  that fit the header's fields, unframing the frame returns the format version, the revision and the
  payload, whatever the chunk size was (zero, oversized, or not dividing the payload).\<close>

theorem frame_roundtrip:
  assumes "\<And>bs. crc bs < 2 ^ 32" and "length payload < 2 ^ 64" and "revision < 2 ^ 64"
  shows "unframe crc (frame_snapshot crc payload revision chunk_size) =
    Inr \<lparr>uf_format_version = SNAPSHOT_FORMAT_VERSION, uf_revision = revision, uf_payload = payload\<rparr>"
  using assms by (rule unframe_frame)

theorem frame_roundtrip_witness:
  "unframe (\<lambda>bs. length bs mod 2 ^ 32) (frame_snapshot (\<lambda>bs. length bs mod 2 ^ 32) [1, 2, 3] 7 2) =
    Inr \<lparr>uf_format_version = SNAPSHOT_FORMAT_VERSION, uf_revision = 7, uf_payload = [1, 2, 3]\<rparr>"
  by (rule frame_roundtrip) simp_all

lemma unframe_Inr:
  assumes "unframe crc bs = Inr u"
  shows "36 \<le> length bs" "le_nat (slice 28 32 bs) < 2 ^ 32"
    "read_blocks crc (le_nat (slice 28 32 bs)) 36 (drop 36 bs) [] = Inr (uf_payload u)"
    "length (uf_payload u) = le_nat (slice 20 28 bs)"
  using assms
  by (auto simp: unframe_def Let_def SNAPSHOT_HEADER_LEN_def MAX_CHUNK_SIZE_def
      split: if_splits sum.splits)

text \<open>A truncated snapshot is always recognised. If a byte string is accepted as a snapshot, then no
  proper prefix of it is, wherever the cut falls: in the header, inside a block, between two blocks
  or just before the end; so half a snapshot can never be installed as a smaller state.\<close>

theorem unframe_rejects_truncation:
  assumes "\<And>c. crc c < 2 ^ 32" and "unframe crc bs = Inr u" and "k < length bs"
  shows "\<exists>e. unframe crc (take k bs) = Inl e"
proof (cases "unframe crc (take k bs)")
  case (Inr u')
  note full = unframe_Inr [OF assms(2)] and cut = unframe_Inr [OF Inr]
  have k: "36 \<le> k" using cut(1) by simp
  then have same: "slice 28 32 (take k bs) = slice 28 32 bs" "slice 20 28 (take k bs) = slice 20 28 bs"
    by (simp_all add: slice_take)
  have "drop 36 bs = drop 36 (take k bs) @ drop k bs"
    using k by (metis append_take_drop_id drop_take drop_drop le_add_diff_inverse2)
  moreover have "drop k bs \<noteq> []" using assms(3) by simp
  ultimately have "length (uf_payload u') < length (uf_payload u)"
    using read_blocks_prefix [where crc = crc and pos = 36 and a = "drop 36 (take k bs)" and
        acc = "[]" and b = "drop k bs", OF full(2) assms(1)] full(3) cut(3) same(1)
    by simp
  with full(4) cut(4) same(2) show ?thesis by simp
qed auto

theorem unframe_rejects_truncation_witness:
  "\<exists>e. unframe (\<lambda>bs. length bs mod 2 ^ 32)
     (take 46 (frame_snapshot (\<lambda>bs. length bs mod 2 ^ 32) [1, 2, 3] 7 2)) = Inl e"
proof (rule unframe_rejects_truncation)
  let ?crc = "\<lambda>bs :: bytes. length bs mod 2 ^ 32"
  show "unframe ?crc (frame_snapshot ?crc [1, 2, 3] 7 2) = Inr \<lparr>uf_format_version = SNAPSHOT_FORMAT_VERSION,
      uf_revision = 7, uf_payload = [1, 2, 3]\<rparr>"
    by (rule unframe_frame) simp_all
  show "46 < length (frame_snapshot ?crc [1, 2, 3] 7 2)"
    by (simp add: frame_snapshot_def Let_def effective_chunk_size_def MAX_CHUNK_SIZE_def chunks_of.simps
        block_def)
qed simp

end
