(* ===== verification/Catalog_Snapshot.thy ===== *)
theory Catalog_Snapshot
  imports Catalog_Purge Snapshot_Frame
begin

text \<open>
  The catalog snapshot (\<open>crates/catalog/src/state.rs\<close>, \<open>crates/model/src/snapshot.rs\<close>): export of the whole
  state as one message, its strict reconstruction with the task directory derived again, the framed
  artifact, and the canonical text by which replicas are compared. The protobuf encoding of the
  message is prost's and is the pair of parameters \<open>penc\<close> and \<open>pdec\<close>.
\<close>

record snapshot_msg =
  sm_format_version :: nat
  sm_revision :: nat
  sm_last_applied :: nat
  sm_schema_ver :: nat
  sm_manifest_ver :: nat
  sm_namespaces :: "string list"
  sm_tables :: "(string \<times> table_meta option) list"
  sm_schemas :: "((string \<times> nat) \<times> schema_version option) list"
  sm_files :: "(string \<times> file_manifest option) list"
  sm_idempotency :: "(string \<times> idempotency_record option) list"
  sm_table_manifest_ver :: "(string \<times> nat) list"
  sm_datanodes :: "datanode_member list"
  sm_leases :: "lease_entry list"
  sm_in_flight :: "(string \<times> nat) list"
  sm_deletions :: "(string \<times> deletion_entry option) list"
  sm_purges :: "(string \<times> nat) list"

definition present :: "('k::linorder, 'v) bmap \<Rightarrow> ('k \<times> 'v option) list" where
  "present m = map (\<lambda>(k, v). (k, Some v)) (bm_entries m)"

definition to_snapshot_msg :: "catalog_state \<Rightarrow> snapshot_msg" where
  "to_snapshot_msg st = \<lparr>
     sm_format_version = SNAPSHOT_FORMAT_VERSION,
     sm_revision = snapshot_version st,
     sm_last_applied = last_applied st,
     sm_schema_ver = schema_ver st,
     sm_manifest_ver = manifest_ver st,
     sm_namespaces = bm_keys (namespaces st),
     sm_tables = present (tables st),
     sm_schemas = present (schemas st),
     sm_files = present (files st),
     sm_idempotency = present (idempotency st),
     sm_table_manifest_ver = bm_entries (table_manifest_ver st),
     sm_datanodes = bm_values (datanodes st),
     sm_leases = bm_values (leases st),
     sm_in_flight = bm_entries (in_flight st),
     sm_deletions = map (\<lambda>((dv_id, _), v). (dv_id, Some v)) (bm_entries (deletions st)),
     sm_purges = bm_entries (purged st)\<rparr>"

text \<open>One list of the message into a map: a missing value or a repeated key is an error.\<close>

fun collect_unique ::
  "string \<Rightarrow> ('k::linorder \<times> 'v option) list \<Rightarrow> ('k, 'v) bmap \<Rightarrow> snapshot_error + ('k, 'v) bmap" where
  "collect_unique what [] m = Inr m"
| "collect_unique what ((k, None) # es) m = Inl (InvalidState (what @ '' lacks its value''))"
| "collect_unique what ((k, Some v) # es) m =
     (if bm_has m k then Inl (InvalidState (what @ '' is repeated''))
      else collect_unique what es (bm_insert k v m))"

fun collect_deletions ::
  "(string \<times> deletion_entry option) list \<Rightarrow> (string \<times> string, deletion_entry) bmap \<Rightarrow>
    snapshot_error + (string \<times> string, deletion_entry) bmap" where
  "collect_deletions [] m = Inr m"
| "collect_deletions ((dv_id, None) # es) m = Inl (InvalidState ''deletion lacks its value'')"
| "collect_deletions ((dv_id, Some v) # es) m =
     (if de_dv_id v \<noteq> dv_id then Inl (InvalidState ''deletion key mismatch'')
      else if bm_has m (dv_id, de_file_path v) then Inl (InvalidState ''deletion is repeated'')
      else collect_deletions es (bm_insert (dv_id, de_file_path v) v m))"

fun collect_purges :: "(string \<times> nat) list \<Rightarrow> (string, nat) bmap \<Rightarrow> snapshot_error + (string, nat) bmap" where
  "collect_purges [] m = Inr m"
| "collect_purges ((k, v) # es) m =
     (if k = [] then Inl (InvalidState ''purge lacks its id'')
      else if bm_has m k then Inl (InvalidState ''purge is repeated'')
      else collect_purges es (bm_insert k v m))"

definition restored_tasks ::
  "(string, file_manifest) bmap \<Rightarrow> (string \<times> string, deletion_entry) bmap \<Rightarrow> nat \<Rightarrow>
    (string, compaction_task) bmap" where
  "restored_tasks fs ds revision =
     fold (\<lambda>(table, shard) m.
         case task_of_shard fs ds revision table shard 0 of
           Some t \<Rightarrow> bm_insert (task_id \<lparr>tk_table = table, tk_shard = shard\<rparr>) t m
         | None \<Rightarrow> m)
       (bm_keys (bset_of (map (\<lambda>f. (fm_table f, fm_shard f)) (bm_values fs)))) bm_empty"

definition from_snapshot_msg :: "snapshot_msg \<Rightarrow> snapshot_error + catalog_state" where
  "from_snapshot_msg msg =
     (if sm_format_version msg \<noteq> SNAPSHOT_FORMAT_VERSION
      then Inl (UnsupportedVersion (sm_format_version msg))
      else if sm_revision msg = 0 then Inl (InvalidState ''revision is zero'')
      else if DEFAULT_SCHEMA \<notin> set (sm_namespaces msg) then Inl (InvalidState ''no default schema'')
      else
        and_then (collect_unique ''schema'' (map (\<lambda>n. (n, Some ())) (sm_namespaces msg)) bm_empty) (\<lambda>ns.
        and_then (collect_unique ''table'' (sm_tables msg) bm_empty) (\<lambda>ts.
        and_then (collect_unique ''schema version'' (sm_schemas msg) bm_empty) (\<lambda>ss.
        and_then (collect_unique ''file'' (sm_files msg) bm_empty) (\<lambda>fs.
        and_then (collect_unique ''idempotency key'' (sm_idempotency msg) bm_empty) (\<lambda>is.
        and_then (collect_unique ''data node''
          (map (\<lambda>m. (dm_instance_id m, Some m)) (sm_datanodes msg)) bm_empty) (\<lambda>dns.
        and_then (collect_unique ''lease''
          (map (\<lambda>l. (le_purpose l, Some l)) (sm_leases msg)) bm_empty) (\<lambda>ls.
        and_then (collect_unique ''in-flight batch''
          (map (\<lambda>(k, v). (k, Some v)) (sm_in_flight msg)) bm_empty) (\<lambda>infl.
        and_then (collect_unique ''table manifest version''
          (map (\<lambda>(k, v). (k, Some v)) (sm_table_manifest_ver msg)) bm_empty) (\<lambda>tmv.
        and_then (collect_deletions (sm_deletions msg) bm_empty) (\<lambda>ds.
        and_then (collect_purges (sm_purges msg) bm_empty) (\<lambda>ps.
          Inr \<lparr>tables = ts, namespaces = ns, schemas = ss, files = fs, idempotency = is,
            snapshot_version = sm_revision msg, last_applied = sm_last_applied msg,
            datanodes = dns, leases = ls, in_flight = infl,
            tasks = restored_tasks fs ds (sm_revision msg), deletions = ds, purged = ps,
            schema_ver = sm_schema_ver msg, manifest_ver = sm_manifest_ver msg,
            table_manifest_ver = tmv\<rparr>))))))))))))"

definition snapshot_artifact :: "(snapshot_msg \<Rightarrow> bytes) \<Rightarrow> (bytes \<Rightarrow> nat) \<Rightarrow> catalog_state \<Rightarrow> bytes" where
  "snapshot_artifact penc crc st =
     frame_snapshot crc (penc (to_snapshot_msg st)) (snapshot_version st) 0"

definition restore_snapshot ::
  "(bytes \<Rightarrow> snapshot_error + snapshot_msg) \<Rightarrow> (bytes \<Rightarrow> nat) \<Rightarrow> bytes \<Rightarrow> snapshot_error + catalog_state" where
  "restore_snapshot pdec crc bs =
     and_then (unframe crc bs) (\<lambda>un.
     and_then (pdec (uf_payload un)) (\<lambda>msg.
       if sm_revision msg \<noteq> uf_revision un
       then Inl (RevisionMismatch (uf_revision un) (sm_revision msg))
       else from_snapshot_msg msg))"

subsection \<open>The canonical text\<close>

definition kv :: "string \<Rightarrow> nat \<Rightarrow> string" where
  "kv k n = '' '' @ k @ ''='' @ dec_digits n"

definition kw :: "string \<Rightarrow> string \<Rightarrow> string" where
  "kw k s = '' '' @ k @ ''='' @ s"

definition NEWLINE :: string where
  "NEWLINE = [char_of (10 :: nat)]"

definition encode_canonical :: "catalog_state \<Rightarrow> string" where
  "encode_canonical st =
     ''v1'' @ kv ''snapshot'' (snapshot_version st) @ kv ''applied'' (last_applied st) @
       kv ''schema_ver'' (schema_ver st) @ kv ''manifest_ver'' (manifest_ver st) @ NEWLINE @
     concat (map (\<lambda>ns. ''ns '' @ ns @ NEWLINE) (bm_keys (namespaces st))) @
     concat (map (\<lambda>(k, t). ''table '' @ k @ kv ''v'' (tm_current_schema_version t) @
         kv ''created'' (tm_created_at t) @ kw ''fmt'' (tm_default_format t) @
         kv ''arrow_len'' (length (tm_arrow_schema t)) @ NEWLINE) (bm_entries (tables st))) @
     concat (map (\<lambda>((t, v), sv). ''schema '' @ t @ kv ''v'' v @ kv ''kind'' (sv_change_kind sv) @
         kv ''created'' (sv_created_at sv) @ kw ''desc'' (sv_change_desc sv) @
         kv ''arrow_len'' (length (sv_arrow_schema sv)) @ NEWLINE) (bm_entries (schemas st))) @
     concat (map (\<lambda>(id, f). ''file '' @ id @ kw ''table'' (fm_table f) @ kw ''shard'' (fm_shard f) @
         kv ''status'' (fm_status f) @ kv ''from'' (fm_valid_from f) @ kv ''del'' (fm_deleted_at f) @
         kv ''rows'' (fm_row_count f) @ kv ''size'' (fm_file_size f) @
         kv ''schema_v'' (fm_schema_version f) @ kw ''window'' (fm_time_window f) @ NEWLINE)
       (bm_entries (files st))) @
     concat (map (\<lambda>(k, r). ''idem '' @ k @ kw ''batch'' (ir_batch_id r) @ kv ''at'' (ir_committed_at r) @
         NEWLINE) (bm_entries (idempotency st))) @
     concat (map (\<lambda>(t, v). ''tmv '' @ t @ '' '' @ dec_digits v @ NEWLINE)
       (bm_entries (table_manifest_ver st)))"

subsection \<open>Reconstruction\<close>

lemma collect_unique_entries:
  "distinct (map fst es) \<Longrightarrow> (\<forall>k \<in> set (map fst es). \<not> bm_has m k) \<Longrightarrow>
    collect_unique what (map (\<lambda>(k, v). (k, Some v)) es) m = Inr (bm_insert_all es m)"
proof (induction es arbitrary: m)
  case (Cons e es)
  obtain k v where e: "e = (k, v)" by (cases e)
  have "\<forall>k' \<in> set (map fst es). \<not> bm_has (bm_insert k v m) k'"
    using Cons.prems e by (auto simp: bm_has_def bm_simps)
  with Cons e show ?case by auto
qed simp

lemma entries_distinct: "distinct (map fst (bm_entries m))"
  by (rule al_sorted_distinct [OF bm_entries_sorted])

lemma collect_unique_bmap [simp]:
  "collect_unique what (map (\<lambda>(k, v). (k, Some v)) (bm_entries m)) bm_empty = Inr m"
proof -
  have "\<forall>k \<in> set (map fst (bm_entries m)). \<not> bm_has bm_empty k" by (simp add: bm_has_def)
  from collect_unique_entries [OF entries_distinct this, of what] bm_of_list_entries [of m]
  show ?thesis by (simp only: bm_of_list_def)
qed

lemma collect_unique_keys [simp]:
  "collect_unique what (map (\<lambda>n. (n, Some ())) (bm_keys m)) bm_empty = Inr m"
proof -
  have eq: "map (\<lambda>n. (n, Some ())) (bm_keys m) = map (\<lambda>(k, v). (k, Some v)) (bm_entries m)"
    by (simp add: bm_keys_def case_prod_unfold)
  show ?thesis by (simp only: eq collect_unique_bmap)
qed

lemma collect_unique_values:
  assumes "all_entries (\<lambda>k v. key v = k) m"
  shows "collect_unique what (map (\<lambda>v. (key v, Some v)) (bm_values m)) bm_empty = Inr m"
proof -
  have "map (\<lambda>v. (key v, Some v)) (bm_values m) = map (\<lambda>(k, v). (k, Some v)) (map (\<lambda>v. (key v, v)) (bm_values m))"
    by simp
  also have "\<dots> = map (\<lambda>(k, v). (k, Some v)) (bm_entries m)"
    using assms by (subst bm_values_keyed) (auto simp: all_entries_def)
  finally show ?thesis by simp
qed

lemma absent_after_insert:
  assumes "distinct (map fst ((k, v) # es))" "\<forall>k' \<in> set (map fst ((k, v) # es)). \<not> bm_has m k'"
  shows "\<forall>k' \<in> set (map fst es). \<not> bm_has (bm_insert k v m) k'"
proof
  fix k'
  assume k': "k' \<in> set (map fst es)"
  then have "k' \<noteq> k" using assms(1) by auto
  moreover have "\<not> bm_has m k'" using assms(2) k' by (metis list.set_intros(2) list.simps(9))
  ultimately show "\<not> bm_has (bm_insert k v m) k'" by (simp add: bm_has_def bm_simps)
qed

lemma collect_deletions_entries:
  assumes "\<forall>x \<in> set es. fst x = de_key (snd x)"
  shows "distinct (map fst es) \<Longrightarrow> (\<forall>k \<in> set (map fst es). \<not> bm_has m k) \<Longrightarrow>
    collect_deletions (map (\<lambda>((dv_id, _), v). (dv_id, Some v)) es) m = Inr (bm_insert_all es m)"
  using assms
proof (induction es arbitrary: m)
  case (Cons e es)
  obtain k v where e: "e = (k, v)" by (cases e)
  with Cons.prems(3) have k: "k = (de_dv_id v, de_file_path v)" by (simp add: de_key_def)
  have "\<forall>k' \<in> set (map fst es). \<not> bm_has (bm_insert k v m) k'"
    by (rule absent_after_insert [OF Cons.prems(1,2) [unfolded e]])
  with Cons e k show ?case by (simp add: de_key_def)
qed simp

lemma collect_deletions_bmap:
  assumes "all_entries (\<lambda>k d. de_key d = k) m"
  shows "collect_deletions (map (\<lambda>((dv_id, _), v). (dv_id, Some v)) (bm_entries m)) bm_empty = Inr m"
proof -
  have "\<forall>x \<in> set (bm_entries m). fst x = de_key (snd x)"
    using assms by (auto simp: all_entries_def bm_entries_get)
  from collect_deletions_entries [OF this entries_distinct, of bm_empty] bm_of_list_entries [of m]
  show ?thesis by (simp add: bm_has_def bm_of_list_def)
qed

lemma collect_purges_entries:
  "distinct (map fst es) \<Longrightarrow> (\<forall>k \<in> set (map fst es). k \<noteq> [] \<and> \<not> bm_has m k) \<Longrightarrow>
    collect_purges es m = Inr (bm_insert_all es m)"
proof (induction es arbitrary: m)
  case (Cons e es)
  obtain k v where e: "e = (k, v)" by (cases e)
  have "\<forall>k' \<in> set (map fst es). k' \<noteq> [] \<and> \<not> bm_has (bm_insert k v m) k'"
    using Cons.prems e by (auto simp: bm_has_def bm_simps)
  with Cons e show ?case by auto
qed simp

lemma collect_purges_bmap:
  assumes "all_entries (\<lambda>k _. k \<noteq> []) m"
  shows "collect_purges (bm_entries m) bm_empty = Inr m"
proof -
  have "\<forall>k \<in> set (map fst (bm_entries m)). k \<noteq> [] \<and> \<not> bm_has bm_empty k"
    using assms by (auto simp: all_entries_def bm_entries_get bm_has_def)
  from collect_purges_entries [OF entries_distinct this] bm_of_list_entries [of m]
  show ?thesis by (simp add: bm_of_list_def)
qed

subsection \<open>What a reachable state guarantees\<close>

definition snap_inv :: "catalog_state \<Rightarrow> bool" where
  "snap_inv st \<longleftrightarrow> 0 < snapshot_version st \<and> bm_has (namespaces st) DEFAULT_SCHEMA \<and>
     all_entries (\<lambda>k m. dm_instance_id m = k) (datanodes st) \<and>
     all_entries (\<lambda>k l. le_purpose l = k) (leases st) \<and>
     all_entries (\<lambda>k d. de_key d = k) (deletions st) \<and>
     all_entries (\<lambda>k _. k \<noteq> []) (purged st)"

lemma snap_inv_new: "snap_inv new_state"
  by (simp add: snap_inv_def new_state_def bm_has_def bm_simps)

lemma from_to_snapshot_msg:
  assumes "snap_inv st"
  shows "from_snapshot_msg (to_snapshot_msg st) =
    Inr (st\<lparr>tasks := restored_tasks (files st) (deletions st) (snapshot_version st)\<rparr>)"
proof -
  have "collect_unique w (map (\<lambda>m. (dm_instance_id m, Some m)) (bm_values (datanodes st))) bm_empty =
      Inr (datanodes st)"
    "collect_unique w (map (\<lambda>l. (le_purpose l, Some l)) (bm_values (leases st))) bm_empty = Inr (leases st)"
    "collect_deletions (map (\<lambda>((dv_id, _), v). (dv_id, Some v)) (bm_entries (deletions st))) bm_empty =
      Inr (deletions st)"
    "collect_purges (bm_entries (purged st)) bm_empty = Inr (purged st)" for w
    using assms by (auto simp: snap_inv_def intro!: collect_unique_values collect_deletions_bmap
        collect_purges_bmap)
  moreover have "DEFAULT_SCHEMA \<in> set (bm_keys (namespaces st))" "snapshot_version st \<noteq> 0"
    using assms by (simp_all add: snap_inv_def bm_has_iff)
  ultimately show ?thesis
    by (simp add: from_snapshot_msg_def to_snapshot_msg_def present_def)
qed

lemma snap_inv_frame:
  assumes "snap_inv st" "snapshot_version st \<le> snapshot_version st'" "namespaces st' = namespaces st"
    "datanodes st' = datanodes st" "leases st' = leases st" "deletions st' = deletions st"
    "purged st' = purged st"
  shows "snap_inv st'"
  using assms by (simp add: snap_inv_def)

lemma snap_inv_small:
  assumes "snap_inv st"
  shows "snap_inv (snd (create_schema name st))"
    "snap_inv (snd (drop_schema name st))"
    "snap_inv (snd (create_table ser creq now st))"
    "snap_inv (snd (register_datanode m st))"
    "snap_inv (snd (remove_datanode i st))"
    "snap_inv (snd (acquire_lease p h now ttl st))"
    "snap_inv (record_in_flight b now st)"
    "snap_inv (snd (sweep_expired_in_flight ttl now st))"
    "snap_inv (record_idempotency rec st)"
  using assms
  by (auto simp: snap_inv_def create_schema_def drop_schema_def create_table_def register_datanode_def
      remove_datanode_def acquire_lease_def record_in_flight_def sweep_expired_in_flight_def
      record_idempotency_def Let_def cat_simps all_entries_def bm_has_def bm_simps split: option.splits)

lemma snap_inv_leases:
  assumes "snap_inv st"
  shows "snap_inv (snd (renew_lease p h e now ttl st))" "snap_inv (snd (release_lease p h e st))"
  using assms
  by (auto simp: snap_inv_def renew_lease_def release_lease_def all_entries_def bm_simps split: option.splits)

lemma snap_inv_evolve: "snap_inv st \<Longrightarrow> snap_inv (snd (evolve_schema ser deser dbg req now st))"
  by (auto simp: evolve_schema_def Let_def cat_simps snap_inv_def split: option.split sum.split)

lemma snap_inv_files:
  assumes "snap_inv st"
  shows "snap_inv (snd (commit_files req now st))" "snap_inv (snd (drop_shard t sh now st))"
    "snap_inv (snd (drop_table name st))"
  using assms
  by (auto simp: commit_files_def drop_shard_def drop_table_def Let_def cat_simps snap_inv_def
      claim_keys_def clear_in_flight_def intro: all_entries_filter)

lemma keyed_insert_deletions:
  "all_entries (\<lambda>k d. de_key d = k) m \<Longrightarrow>
    all_entries (\<lambda>k d. de_key d = k) (bm_insert_all (map (\<lambda>e. (de_key e, registered v e)) es) m)"
  by (rule all_entries_insert_all) auto

lemma keyed_map_deletions:
  "all_entries (\<lambda>k d. de_key d = k) m \<Longrightarrow>
    all_entries (\<lambda>k d. de_key d = k) (bm_map (\<lambda>_ d. if P d then d\<lparr>de_revoked_at := v\<rparr> else d) m)"
  by (erule all_entries_map) (auto simp: de_key_def)

lemma snap_inv_deletions:
  assumes "snap_inv st"
  shows "snap_inv (snd (apply_deletions es now st))"
    "snap_inv (snd (revoke_deletions_for_file p at now st))"
    "snap_inv (snd (commit_update t ff fd u now st))"
  using assms
  by (auto simp: apply_deletions_def revoke_deletions_for_file_def commit_update_def insert_deletions_def
      insert_update_files_def Let_def cat_simps snap_inv_def keyed_insert_deletions keyed_map_deletions
      split: sum.split)

lemma snap_inv_update: "snap_inv st \<Longrightarrow> snap_inv (snd (apply_update es nfs u now st))"
  by (simp add: apply_update_def Let_def snap_inv_deletions split: sum.split option.split)

lemma snap_inv_purge:
  assumes "snap_inv st"
  shows "snap_inv (snd (purge_table_files t pid now st))"
  using assms
  by (auto simp: purge_table_files_def Let_def cat_simps snap_inv_def keyed_map_deletions
      split: option.split intro: all_entries_insert)

lemma add_outputs_more [cat_simps]:
  "namespaces (fold (add_output n) nfs st) = namespaces st"
  "datanodes (fold (add_output n) nfs st) = datanodes st"
  by (rule fold_frame, simp add: add_output_def clear_in_flight_def Let_def)+

lemma bump_manifests_more [cat_simps]:
  "namespaces (fold bump_manifest_ver ts st) = namespaces st"
  "datanodes (fold bump_manifest_ver ts st) = datanodes st"
  by (rule fold_frame, rule bump_manifest_ver_fields)+

lemma snap_inv_compaction: "snap_inv st \<Longrightarrow> snap_inv (snd (commit_compaction old nfs ep p st))"
  by (auto simp: commit_compaction_def Let_def cat_simps add_output_def clear_in_flight_def snap_inv_def
      split: list.split)

lemma sm_step_snap_inv: "snap_inv st \<Longrightarrow> snap_inv (sm_step cx st x)"
  by (cases x) (simp_all add: sm_step_def Let_def snap_inv_small snap_inv_leases snap_inv_evolve
      snap_inv_files snap_inv_deletions snap_inv_update snap_inv_purge snap_inv_compaction)

interpretation snapshots: guarded_machine "sm_step cx" snap_inv "\<lambda>_ _. True" "\<lambda>_ _. True" for cx
  by unfold_locales (auto simp: sm_step_snap_inv)

text \<open>C24: Restoring a snapshot gives the state back. For every reachable state whose message the protobuf
  codec reads back and whose sizes fit the frame, restoring the snapshot artifact succeeds and yields
  exactly that state, every map, counter, lease, registration and tombstone included, with the task
  directory derived again from the files and deletion vectors.\<close>

theorem snapshot_restores_state:
  assumes "st = sm_run cx new_state ops" and "\<And>bs. crc bs < 2 ^ 32"
    and "pdec (penc (to_snapshot_msg st)) = Inr (to_snapshot_msg st)"
    and "length (penc (to_snapshot_msg st)) < 2 ^ 64" and "snapshot_version st < 2 ^ 64"
  shows "restore_snapshot pdec crc (snapshot_artifact penc crc st) =
    Inr (st\<lparr>tasks := restored_tasks (files st) (deletions st) (snapshot_version st)\<rparr>)"
proof -
  have "snap_inv st"
    unfolding assms(1) sm_run_def by (rule snapshots.run_inv [OF snap_inv_new])
  moreover have "unframe crc (snapshot_artifact penc crc st) =
      Inr \<lparr>uf_format_version = SNAPSHOT_FORMAT_VERSION, uf_revision = snapshot_version st,
        uf_payload = penc (to_snapshot_msg st)\<rparr>"
    unfolding snapshot_artifact_def using assms(2,4,5) by (rule unframe_frame)
  moreover have "sm_revision (to_snapshot_msg st) = snapshot_version st"
    by (simp add: to_snapshot_msg_def)
  ultimately show ?thesis by (simp add: restore_snapshot_def assms(3) from_to_snapshot_msg)
qed

theorem snapshot_restores_state_witness:
  "\<exists>st'. restore_snapshot (\<lambda>bs. Inr (to_snapshot_msg new_state)) (\<lambda>bs. length bs mod 2 ^ 32)
     (snapshot_artifact (\<lambda>m. [9]) (\<lambda>bs. length bs mod 2 ^ 32) new_state) = Inr st' \<and>
     namespaces st' = namespaces new_state"
proof -
  have run: "new_state = sm_run demo_codecs new_state []" by simp
  have "snapshot_version new_state < 2 ^ 64" by (simp add: new_state_def)
  with snapshot_restores_state [OF run, of "\<lambda>bs. length bs mod 2 ^ 32"
      "\<lambda>bs. Inr (to_snapshot_msg new_state)" "\<lambda>m. [9]"]
  show ?thesis by simp
qed

subsection \<open>The task directory is not an input\<close>

text \<open>Equality of everything but the task directory.\<close>

definition same :: "catalog_state \<Rightarrow> catalog_state \<Rightarrow> bool" where
  "same a b \<longleftrightarrow> tables a = tables b \<and> namespaces a = namespaces b \<and> schemas a = schemas b \<and>
     files a = files b \<and> idempotency a = idempotency b \<and> snapshot_version a = snapshot_version b \<and>
     last_applied a = last_applied b \<and> datanodes a = datanodes b \<and> leases a = leases b \<and>
     in_flight a = in_flight b \<and> deletions a = deletions b \<and> purged a = purged b \<and>
     schema_ver a = schema_ver b \<and> manifest_ver a = manifest_ver b \<and>
     table_manifest_ver a = table_manifest_ver b"

definition same_result :: "'r \<times> catalog_state \<Rightarrow> 'r \<times> catalog_state \<Rightarrow> bool" where
  "same_result x y \<longleftrightarrow> fst x = fst y \<and> same (snd x) (snd y)"

lemma same_refl [simp]: "same a a"
  by (simp add: same_def)

lemma same_ddl:
  assumes "same a b"
  shows "same_result (create_schema name a) (create_schema name b)"
    "same_result (drop_schema name a) (drop_schema name b)"
    "same_result (create_table ser creq now a) (create_table ser creq now b)"
    "same_result (register_datanode m a) (register_datanode m b)"
    "same_result (remove_datanode i a) (remove_datanode i b)"
    "same_result (drop_table name a) (drop_table name b)"
  using assms
  by (auto simp: same_result_def same_def create_schema_def drop_schema_def create_table_def
      register_datanode_def remove_datanode_def drop_table_def schema_exists_def Let_def cat_simps
      split: option.split)

lemma same_evolve:
  "same a b \<Longrightarrow> same_result (evolve_schema ser deser dbg req now a) (evolve_schema ser deser dbg req now b)"
  by (auto simp: same_result_def same_def evolve_schema_def Let_def cat_simps split: option.split sum.split)

lemma same_small:
  assumes "same a b"
  shows "same_result (acquire_lease p h now ttl a) (acquire_lease p h now ttl b)"
    "same_result (renew_lease p h e now ttl a) (renew_lease p h e now ttl b)"
    "same_result (release_lease p h e a) (release_lease p h e b)"
    "same (record_in_flight bid now a) (record_in_flight bid now b)"
    "same_result (sweep_expired_in_flight ttl now a) (sweep_expired_in_flight ttl now b)"
    "same (record_idempotency rec a) (record_idempotency rec b)"
  using assms
  by (auto simp: same_result_def same_def lease_op_defs record_in_flight_def
      sweep_expired_in_flight_def record_idempotency_def split: option.split)

lemma key_taken_same: "same a b \<Longrightarrow> key_taken bid a = key_taken bid b"
  by (simp add: same_def key_taken_def fun_eq_iff)

lemma same_commit: "same a b \<Longrightarrow> same_result (commit_files req now a) (commit_files req now b)"
  using key_taken_same [of a b]
  by (simp add: same_result_def same_def commit_files_def Let_def cat_simps claim_keys_def
      clear_in_flight_def dup_commit_response_def)

lemma same_shard: "same a b \<Longrightarrow> same_result (drop_shard t sh now a) (drop_shard t sh now b)"
  by (simp add: same_result_def same_def drop_shard_def Let_def cat_simps)

lemma anchor_dead_same: "same a b \<Longrightarrow> anchor_dead a = anchor_dead b"
  by (simp add: same_def anchor_dead_def fun_eq_iff)

lemma check_deletions_same: "same a b \<Longrightarrow> check_deletions a es acc = check_deletions b es acc"
  using anchor_dead_same [of a b] by (induction es arbitrary: acc) (auto simp: same_def)

lemma same_deletions:
  assumes "same a b"
  shows "same_result (apply_deletions es now a) (apply_deletions es now b)"
    "same_result (revoke_deletions_for_file p at now a) (revoke_deletions_for_file p at now b)"
    "same_result (commit_update t ff fd u now a) (commit_update t ff fd u now b)"
  using assms check_deletions_same [OF assms, of es "[]"]
  by (auto simp: same_result_def same_def apply_deletions_def revoke_deletions_for_file_def
      commit_update_def insert_deletions_def insert_update_files_def Let_def cat_simps split: sum.split)

lemma check_update_deletions_same:
  "same a b \<Longrightarrow> check_update_deletions a es = check_update_deletions b es"
  using anchor_dead_same [of a b] by (induction es) auto

lemma same_update: "same a b \<Longrightarrow> same_result (apply_update es nfs u now a) (apply_update es nfs u now b)"
proof -
  assume s: "same a b"
  then have "fresh_update_files a nfs = fresh_update_files b nfs"
    "fresh_update_dvs a es = fresh_update_dvs b es" "snapshot_version a = snapshot_version b"
    by (simp_all add: same_def fresh_update_files_def fresh_update_dvs_def)
  with s check_update_deletions_same [OF s] same_deletions(3) [OF s] show ?thesis
    by (auto simp: apply_update_def Let_def same_result_def split: sum.split option.split)
qed

lemma same_next: "same a b \<Longrightarrow> fst (next_snapshot a) = fst (next_snapshot b)"
  by (simp add: same_def next_snapshot_def)

lemma same_purge: "same a b \<Longrightarrow> same_result (purge_table_files t pid now a) (purge_table_files t pid now b)"
proof -
  assume s: "same a b"
  have rows: "purge_rows key vs (snd (next_snapshot a)) = purge_rows key vs (snd (next_snapshot b))"
    and victims: "purge_victims key a = purge_victims key b" for key vs
    using s by (simp_all add: same_def purge_rows_def purge_victims_def cat_simps cong: option.case_cong)
  from s show ?thesis
    unfolding purge_table_files_def Let_def rows victims same_next [OF s]
    by (auto simp: same_result_def same_def cat_simps split: option.split)
qed

lemma same_outputs:
  "same a b \<Longrightarrow> same (fold (add_output n) nfs a) (fold (add_output n) nfs b)"
proof (induction nfs arbitrary: a b)
  case (Cons f nfs)
  from Cons.prems have "same (add_output n f a) (add_output n f b)"
    by (auto simp: same_def add_output_def clear_in_flight_def Let_def)
  from Cons.IH [OF this] show ?case by simp
qed simp

lemma same_bumps: "same a b \<Longrightarrow> same (fold bump_manifest_ver ts a) (fold bump_manifest_ver ts b)"
proof (induction ts arbitrary: a b)
  case (Cons x ts)
  from Cons.prems have "same (bump_manifest_ver x a) (bump_manifest_ver x b)"
    by (auto simp: same_def cat_simps)
  from Cons.IH [OF this] show ?case by simp
qed simp

lemma same_applied: "same a b \<Longrightarrow> same (bump_applied a) (bump_applied b)"
  by (simp add: same_def bump_applied_def)

lemma same_refresh: "same a b \<Longrightarrow> same (refresh_task t s n a) (refresh_task t s n b)"
  by (simp add: same_def cat_simps)

lemma same_compaction:
  assumes "same a b"
  shows "same_result (commit_compaction old nfs ep p a) (commit_compaction old nfs ep p b)"
proof -
  have pre: "fenced p ep a = fenced p ep b" "input_offline a = input_offline b"
    "touched_tables old x (files (snd (next_snapshot a))) =
      touched_tables old x (files (snd (next_snapshot b)))" for x
    using assms by (auto simp: same_def fenced_def input_offline_def fun_eq_iff cat_simps)
  have "same (snd (next_snapshot a)\<lparr>files := fold (retire_input n) old (files (snd (next_snapshot a)))\<rparr>)
    (snd (next_snapshot b)\<lparr>files := fold (retire_input n) old (files (snd (next_snapshot b)))\<rparr>)" for n
    using assms by (auto simp: same_def cat_simps)
  from same_bumps [OF same_applied [OF same_outputs [OF this]]]
  have core: "same
      (fold bump_manifest_ver ts (bump_applied (fold (add_output n) nfs' (snd (next_snapshot a)\<lparr>files :=
        fold (retire_input n) old (files (snd (next_snapshot a)))\<rparr>))))
      (fold bump_manifest_ver ts (bump_applied (fold (add_output n) nfs' (snd (next_snapshot b)\<lparr>files :=
        fold (retire_input n) old (files (snd (next_snapshot b)))\<rparr>))))" for ts n nfs' .
  show ?thesis
  proof (cases nfs)
    case Nil
    with core [of _ _ "[]"] show ?thesis
      by (simp add: commit_compaction_def Let_def pre same_next [OF assms] same_result_def assms)
  next
    case (Cons f fs)
    with core [of _ _ "f # fs"] show ?thesis
      by (simp add: commit_compaction_def Let_def pre same_next [OF assms] same_result_def assms
          same_refresh)
  qed
qed

lemma same_lift:
  "same_result x y \<Longrightarrow> same_result (lift_lake x f) (lift_lake y f)"
  by (cases "(x, f)" rule: lift_lake.cases; cases y) (auto simp: same_result_def)

lemma same_pair:
  "same_result x y \<Longrightarrow> (fst x = fst y \<Longrightarrow> r = r') \<Longrightarrow> same_result (r, snd x) (r', snd y)"
  by (simp add: same_result_def)

lemma same_outcomes:
  assumes "same a b"
  shows "schema_exists n a = schema_exists n b" "get_table n a = get_table n b"
    "check_idempotency i a = check_idempotency i b" "current_snapshot a = current_snapshot b"
    "current_grant cx a p ok = current_grant cx b p ok"
    "snapshot_outcome v a = snapshot_outcome v b"
  using assms
  by (auto simp: same_def schema_exists_def get_table_def check_idempotency_def current_snapshot_def
      current_grant_def snapshot_outcome_def)

lemma same_snapshot_lift:
  "same_result x y \<Longrightarrow> same_result (lift_lake x (\<lambda>_. snapshot_outcome v (snd x)))
     (lift_lake y (\<lambda>_. snapshot_outcome v (snd y)))"
  using same_lift [of x y "\<lambda>_. snapshot_outcome v (snd x)"]
  by (simp add: same_result_def same_outcomes(6) [of "snd x" "snd y"])

lemma same_grant:
  "same_result x y \<Longrightarrow> same_result
     (Inr (f (current_grant cx (snd x) p (fst x))), snd x) (Inr (f (current_grant cx (snd y) p (fst y))), snd y)"
  using same_outcomes(5) [of "snd x" "snd y"] by (simp add: same_result_def)

lemma same_apply:
  assumes "same a b"
  shows "same_result (apply_op cx x a) (apply_op cx x b)"
proof (cases x)
  case (OpRenewLease p h e ttl now)
  with same_grant [OF same_small(2) [OF assms]] show ?thesis by (simp add: Let_def)
next
  case (OpReleaseLease p h e now)
  with same_grant [OF same_small(3) [OF assms]] show ?thesis by (simp add: Let_def)
next
  case (OpRegisterDatanode m now)
  with same_ddl(4) [OF assms, of "m\<lparr>dm_registered_at_ms := now\<rparr>"] show ?thesis
    by (simp add: Let_def same_result_def)
next
  case (OpRemoveDatanode i r now)
  with same_ddl(5) [OF assms, of i] show ?thesis by (simp add: Let_def same_result_def)
next
  case (OpAcquireLease p h ttl now)
  with same_small(1) [OF assms, of p h now ttl] show ?thesis by (simp add: Let_def same_result_def)
next
  case (OpSweepInFlight ttl now)
  with same_small(5) [OF assms, of ttl now] show ?thesis by (simp add: Let_def same_result_def)
next
  case (OpDropShard t s now)
  with same_shard [OF assms, of t s now] show ?thesis by (simp add: Let_def same_result_def)
next
  case (OpRevokeDeletions p at now)
  with same_deletions(2) [OF assms, of p at now] show ?thesis by (simp add: Let_def same_result_def)
next
  case (OpRecordInFlight bid now)
  with same_small(4) [OF assms, of bid now] show ?thesis by (simp add: Let_def same_result_def)
qed (use assms in \<open>auto simp: Let_def same_outcomes [OF assms] same_lift same_ddl same_evolve same_commit
  same_purge same_compaction same_snapshot_lift same_deletions same_update same_small
  same_result_def [of "(r, s)" "(r', s')" for r r' s s']\<close>)

text \<open>The replies to a sequence of operations.\<close>

fun sm_outcomes :: "codecs \<Rightarrow> catalog_state \<Rightarrow> state_op list \<Rightarrow> (meta_error + apply_outcome) list" where
  "sm_outcomes cx st [] = []"
| "sm_outcomes cx st (x # xs) = fst (apply_op cx x st) # sm_outcomes cx (sm_step cx st x) xs"

lemma same_run:
  assumes "same a b"
  shows "sm_outcomes cx a xs = sm_outcomes cx b xs \<and> same (sm_run cx a xs) (sm_run cx b xs)"
  using assms
proof (induction xs arbitrary: a b)
  case (Cons x xs)
  from same_apply [OF Cons.prems, of cx x] have "fst (apply_op cx x a) = fst (apply_op cx x b)"
    and "same (sm_step cx a x) (sm_step cx b x)"
    by (simp_all add: same_result_def sm_step_def)
  with Cons.IH show ?case by simp
qed simp

lemma restored_reachable:
  assumes "st = sm_run cx new_state ops"
  shows "from_snapshot_msg (to_snapshot_msg st) =
    Inr (st\<lparr>tasks := restored_tasks (files st) (deletions st) (snapshot_version st)\<rparr>)"
  using snapshots.run_inv [OF snap_inv_new, of cx ops] by (simp add: assms sm_run_def from_to_snapshot_msg)

text \<open>C23: A replica that restored a snapshot never diverges from one that applied the whole log. From
  the snapshot of any reachable state, every later sequence of operations is answered with the same
  outcomes, errors included, and leaves both replicas with the same state in everything but the derived
  task directory.\<close>

theorem restored_replica_never_diverges:
  assumes "st = sm_run cx new_state ops"
  shows "\<exists>restored. from_snapshot_msg (to_snapshot_msg st) = Inr restored \<and>
    sm_outcomes cx restored later = sm_outcomes cx st later \<and>
    same (sm_run cx restored later) (sm_run cx st later)"
  using same_run [of "st\<lparr>tasks := restored_tasks (files st) (deletions st) (snapshot_version st)\<rparr>" st cx later]
  by (simp add: restored_reachable [OF assms] same_def)

theorem restored_replica_never_diverges_witness:
  "\<exists>restored. from_snapshot_msg (to_snapshot_msg new_state) = Inr restored \<and>
    sm_outcomes demo_codecs restored [OpCreateSchema ''s'' 5] = [Inr outcome_one] \<and>
    same (sm_run demo_codecs restored [OpCreateSchema ''s'' 5])
      (sm_run demo_codecs new_state [OpCreateSchema ''s'' 5])"
proof -
  have run: "new_state = sm_run demo_codecs new_state []" by simp
  have "sm_outcomes demo_codecs new_state [OpCreateSchema ''s'' 5] = [Inr outcome_one]"
    by (simp add: create_schema_def schema_exists_def new_state_def bm_simps DEFAULT_SCHEMA_def
        validate_schema_name_def bm_has_def name_char_def is_ascii_alphanumeric_def)
  with restored_replica_never_diverges [OF run, of "[OpCreateSchema ''s'' 5]"] show ?thesis by metis
qed

end
