(* ===== verification/Wal_Record.thy ===== *)
theory Wal_Record
  imports Errors Le_Bytes
begin

text \<open>
  The records of the write-ahead log and the segment file header
  (\<open>crates/model/src/wal_record.rs\<close>). A record is a type byte and a protobuf payload; prost's encoder
  and decoder of each payload message are the parameters of \<open>wal_codecs\<close>, and \<open>crc32fast\<close> is the
  parameter \<open>crc\<close> of \<open>record_crc\<close>. The message of a decoding error is the text of the parameter.
\<close>

subsection \<open>Types\<close>

datatype record_type =
    RtData
  | RtBatchPending
  | RtBatchS3Written
  | RtBatchCommitted
  | RtBatchAbort
  | RtDdl
  | RtDelete
  | RtUpdate
  | RtPurge

fun record_type_as_u8 :: "record_type \<Rightarrow> byte" where
  "record_type_as_u8 RtData = 0"
| "record_type_as_u8 RtBatchPending = 1"
| "record_type_as_u8 RtBatchS3Written = 2"
| "record_type_as_u8 RtBatchCommitted = 3"
| "record_type_as_u8 RtBatchAbort = 4"
| "record_type_as_u8 RtDdl = 5"
| "record_type_as_u8 RtDelete = 6"
| "record_type_as_u8 RtUpdate = 7"
| "record_type_as_u8 RtPurge = 8"

definition record_type_from_u8 :: "byte \<Rightarrow> record_type option" where
  "record_type_from_u8 v =
     (if v = 0 then Some RtData
      else if v = 1 then Some RtBatchPending
      else if v = 2 then Some RtBatchS3Written
      else if v = 3 then Some RtBatchCommitted
      else if v = 4 then Some RtBatchAbort
      else if v = 5 then Some RtDdl
      else if v = 6 then Some RtDelete
      else if v = 7 then Some RtUpdate
      else if v = 8 then Some RtPurge
      else None)"

record data_payload =
  dp_table :: string
  dp_shard :: string
  dp_schema_version :: nat
  dp_batch_ipc :: bytes
  dp_client_request_id :: string
  dp_time_window :: string

record batch_pending_payload =
  bp_batch_id :: string
  bp_shard :: string
  bp_window :: string
  bp_wal_seq_start :: nat
  bp_wal_seq_end :: nat
  bp_schema_version :: nat
  bp_client_request_id :: string
  bp_created_at_ms :: nat
  bp_row_count :: nat
  bp_table :: string

record batch_s3_written_payload =
  bw_batch_id :: string
  bw_s3_paths :: "string list"
  bw_s3_upload_id :: string
  bw_file_size :: nat

record batch_committed_payload =
  bc_batch_id :: string

record batch_abort_payload =
  ba_batch_id :: string

record ddl_payload =
  dd_op :: nat
  dd_table :: string
  dd_arrow_schema :: bytes
  dd_default_format :: string

definition DDL_CREATE_TABLE :: nat where "DDL_CREATE_TABLE = 0"
definition DDL_DROP_TABLE :: nat where "DDL_DROP_TABLE = 1"
definition DDL_CREATE_SCHEMA :: nat where "DDL_CREATE_SCHEMA = 2"
definition DDL_DROP_SCHEMA :: nat where "DDL_DROP_SCHEMA = 3"
definition DDL_ALTER_TABLE :: nat where "DDL_ALTER_TABLE = 4"

record file_deletion =
  fd_file_path :: string
  fd_batch_id :: string
  fd_bitmap :: bytes

record delete_payload =
  dl_table :: string
  dl_dv_id :: string
  dl_deletions :: "file_deletion list"
  dl_schema_epoch :: nat

record new_file_payload =
  nf_file_path :: string
  nf_batch_id :: string
  nf_row_count :: nat
  nf_file_size :: nat
  nf_shard :: string
  nf_time_window :: string
  nf_schema_version :: nat

record update_payload =
  up_table :: string
  up_upd_id :: string
  up_deletions :: "file_deletion list"
  up_new_files :: "new_file_payload list"
  up_schema_epoch :: nat

record purge_payload =
  pu_table :: string
  pu_purge_id :: string
  pu_schema_epoch :: nat

datatype wal_record =
    Data data_payload
  | BatchPending batch_pending_payload
  | BatchS3Written batch_s3_written_payload
  | BatchCommitted batch_committed_payload
  | BatchAbort batch_abort_payload
  | Ddl ddl_payload
  | Delete delete_payload
  | Update update_payload
  | Purge purge_payload

fun record_type_of :: "wal_record \<Rightarrow> record_type" where
  "record_type_of (Data p) = RtData"
| "record_type_of (BatchPending p) = RtBatchPending"
| "record_type_of (BatchS3Written p) = RtBatchS3Written"
| "record_type_of (BatchCommitted p) = RtBatchCommitted"
| "record_type_of (BatchAbort p) = RtBatchAbort"
| "record_type_of (Ddl p) = RtDdl"
| "record_type_of (Delete p) = RtDelete"
| "record_type_of (Update p) = RtUpdate"
| "record_type_of (Purge p) = RtPurge"

fun record_batch_id :: "wal_record \<Rightarrow> string option" where
  "record_batch_id (BatchPending p) = Some (bp_batch_id p)"
| "record_batch_id (BatchS3Written p) = Some (bw_batch_id p)"
| "record_batch_id (BatchCommitted p) = Some (bc_batch_id p)"
| "record_batch_id (BatchAbort p) = Some (ba_batch_id p)"
| "record_batch_id (Data p) = None"
| "record_batch_id (Ddl p) = None"
| "record_batch_id (Delete p) = None"
| "record_batch_id (Update p) = None"
| "record_batch_id (Purge p) = None"

subsection \<open>Payload codec\<close>

text \<open>One message type of prost: its encoder, and its decoder whose error is a text.\<close>

type_synonym 'p codec = "('p \<Rightarrow> bytes) \<times> (bytes \<Rightarrow> string + 'p)"

record wal_codecs =
  wc_data :: "data_payload codec"
  wc_pending :: "batch_pending_payload codec"
  wc_s3_written :: "batch_s3_written_payload codec"
  wc_committed :: "batch_committed_payload codec"
  wc_abort :: "batch_abort_payload codec"
  wc_ddl :: "ddl_payload codec"
  wc_delete :: "delete_payload codec"
  wc_update :: "update_payload codec"
  wc_purge :: "purge_payload codec"

fun encode_payload :: "wal_codecs \<Rightarrow> wal_record \<Rightarrow> bytes" where
  "encode_payload cx (Data p) = fst (wc_data cx) p"
| "encode_payload cx (BatchPending p) = fst (wc_pending cx) p"
| "encode_payload cx (BatchS3Written p) = fst (wc_s3_written cx) p"
| "encode_payload cx (BatchCommitted p) = fst (wc_committed cx) p"
| "encode_payload cx (BatchAbort p) = fst (wc_abort cx) p"
| "encode_payload cx (Ddl p) = fst (wc_ddl cx) p"
| "encode_payload cx (Delete p) = fst (wc_delete cx) p"
| "encode_payload cx (Update p) = fst (wc_update cx) p"
| "encode_payload cx (Purge p) = fst (wc_purge cx) p"

definition decoded :: "string + 'p \<Rightarrow> ('p \<Rightarrow> wal_record) \<Rightarrow> wal_error + wal_record" where
  "decoded r f = (case r of Inl e \<Rightarrow> Inl (WalOther e) | Inr p \<Rightarrow> Inr (f p))"

definition record_decode :: "wal_codecs \<Rightarrow> byte \<Rightarrow> bytes \<Rightarrow> wal_error + wal_record" where
  "record_decode cx ty payload =
     (case record_type_from_u8 ty of
        None \<Rightarrow> Inl (WalOther ''unknown record type'')
      | Some RtData \<Rightarrow> decoded (snd (wc_data cx) payload) Data
      | Some RtBatchPending \<Rightarrow> decoded (snd (wc_pending cx) payload) BatchPending
      | Some RtBatchS3Written \<Rightarrow> decoded (snd (wc_s3_written cx) payload) BatchS3Written
      | Some RtBatchCommitted \<Rightarrow> decoded (snd (wc_committed cx) payload) BatchCommitted
      | Some RtBatchAbort \<Rightarrow> decoded (snd (wc_abort cx) payload) BatchAbort
      | Some RtDdl \<Rightarrow> decoded (snd (wc_ddl cx) payload) Ddl
      | Some RtDelete \<Rightarrow> decoded (snd (wc_delete cx) payload) Delete
      | Some RtUpdate \<Rightarrow> decoded (snd (wc_update cx) payload) Update
      | Some RtPurge \<Rightarrow> decoded (snd (wc_purge cx) payload) Purge)"

lemma record_type_roundtrip [simp]: "record_type_from_u8 (record_type_as_u8 t) = Some t"
  by (cases t) (simp_all add: record_type_from_u8_def)

text \<open>What prost promises of one record: its payload decodes to it.\<close>

fun prost_roundtrip :: "wal_codecs \<Rightarrow> wal_record \<Rightarrow> bool" where
  "prost_roundtrip cx (Data p) = (snd (wc_data cx) (fst (wc_data cx) p) = Inr p)"
| "prost_roundtrip cx (BatchPending p) = (snd (wc_pending cx) (fst (wc_pending cx) p) = Inr p)"
| "prost_roundtrip cx (BatchS3Written p) = (snd (wc_s3_written cx) (fst (wc_s3_written cx) p) = Inr p)"
| "prost_roundtrip cx (BatchCommitted p) = (snd (wc_committed cx) (fst (wc_committed cx) p) = Inr p)"
| "prost_roundtrip cx (BatchAbort p) = (snd (wc_abort cx) (fst (wc_abort cx) p) = Inr p)"
| "prost_roundtrip cx (Ddl p) = (snd (wc_ddl cx) (fst (wc_ddl cx) p) = Inr p)"
| "prost_roundtrip cx (Delete p) = (snd (wc_delete cx) (fst (wc_delete cx) p) = Inr p)"
| "prost_roundtrip cx (Update p) = (snd (wc_update cx) (fst (wc_update cx) p) = Inr p)"
| "prost_roundtrip cx (Purge p) = (snd (wc_purge cx) (fst (wc_purge cx) p) = Inr p)"

lemma record_decode_encode [wal_simps]:
  "prost_roundtrip cx r \<Longrightarrow>
    record_decode cx (record_type_as_u8 (record_type_of r)) (encode_payload cx r) = Inr r"
  by (cases r) (simp_all add: record_decode_def decoded_def del: record_type_as_u8.simps)

subsection \<open>Segment header\<close>

definition WAL_MAGIC :: bytes where
  "WAL_MAGIC = [0x59, 0x55, 0x4E, 0x54]"

definition WAL_VERSION :: nat where
  "WAL_VERSION = 1"

definition FILE_HEADER_SIZE :: nat where
  "FILE_HEADER_SIZE = 22"

definition RECORD_HEADER_SIZE :: nat where
  "RECORD_HEADER_SIZE = 9"

record file_header =
  fh_shard_id :: nat
  fh_first_seq :: nat

definition header_encode :: "file_header \<Rightarrow> bytes" where
  "header_encode h = WAL_MAGIC @ le_bytes 2 WAL_VERSION @ le_bytes 8 (fh_shard_id h) @
     le_bytes 8 (fh_first_seq h)"

definition header_decode :: "bytes \<Rightarrow> wal_error + file_header" where
  "header_decode buf =
     (if length buf < FILE_HEADER_SIZE then Inl (WalOther ''header too short'')
      else if slice 0 4 buf \<noteq> WAL_MAGIC then Inl (WalBadMagic ''segment'')
      else
        let version = le_nat (slice 4 6 buf) in
        if version \<noteq> WAL_VERSION then Inl (WalUnsupportedVersion version)
        else Inr \<lparr>fh_shard_id = le_nat (slice 6 14 buf), fh_first_seq = le_nat (slice 14 22 buf)\<rparr>)"

text \<open>The checksum covers the type byte and the payload, not the length.\<close>

definition record_crc :: "(bytes \<Rightarrow> nat) \<Rightarrow> byte \<Rightarrow> bytes \<Rightarrow> nat" where
  "record_crc crc ty payload = crc (ty # payload)"

definition header_fits :: "file_header \<Rightarrow> bool" where
  "header_fits h \<longleftrightarrow> fh_shard_id h < 2 ^ 64 \<and> fh_first_seq h < 2 ^ 64"

lemma length_header_encode [simp]: "length (header_encode h) = 22"
  by (simp add: header_encode_def WAL_MAGIC_def)

lemma header_slices:
  "slice 0 4 (header_encode h @ r) = WAL_MAGIC"
  "slice 4 6 (header_encode h @ r) = le_bytes 2 WAL_VERSION"
  "slice 6 14 (header_encode h @ r) = le_bytes 8 (fh_shard_id h)"
  "slice 14 22 (header_encode h @ r) = le_bytes 8 (fh_first_seq h)"
  by (simp_all add: header_encode_def WAL_MAGIC_def slice_def)

lemma header_roundtrip [wal_simps]:
  assumes "header_fits h"
  shows "header_decode (header_encode h @ r) = Inr h"
  using assms
  by (simp add: header_decode_def header_slices header_fits_def FILE_HEADER_SIZE_def WAL_VERSION_def
      le_nat_le_bytes_id)

end
