(* ===== verification/Wal_Segment.thy ===== *)
theory Wal_Segment
  imports Wal_Record BTree_Map
begin

text \<open>
  Segment files (\<open>crates/wal/src/segment.rs\<close>): names, the directory of a shard, the record format, the
  decoder that stops at the first torn or corrupt record, the repair of a torn tail, and the append
  writer.

  A shard directory is a map from file names to contents with the text of the \<open>CURRENT\<close> file. Reads and
  directory operations succeed; a write may be cut short, by the byte budget of \<open>append\<close>.
\<close>

subsection \<open>Names\<close>

definition pad20 :: "string \<Rightarrow> string" where
  "pad20 s = replicate (20 - length s) CHR ''0'' @ s"

definition segment_file_name :: "nat \<Rightarrow> string" where
  "segment_file_name seg_seq = pad20 (dec_digits seg_seq) @ ''.wal''"

definition strip_suffix :: "string \<Rightarrow> string \<Rightarrow> string option" where
  "strip_suffix suf s =
     (if length suf \<le> length s \<and> drop (length s - length suf) s = suf
      then Some (take (length s - length suf) s) else None)"

definition digits_value :: "string \<Rightarrow> nat" where
  "digits_value s = foldl (\<lambda>v c. 10 * v + (of_char c - 48)) 0 s"

definition parse_segment_file_name :: "string \<Rightarrow> nat option" where
  "parse_segment_file_name name =
     (case strip_suffix ''.wal'' name of
        None \<Rightarrow> None
      | Some stem \<Rightarrow>
          if length stem = 20 \<and> list_all is_ascii_digit stem
          then (if digits_value stem \<le> u64_max then Some (digits_value stem) else None)
          else None)"

subsection \<open>The directory of a shard\<close>

record shard_dir =
  sd_files :: "(string, bytes) bmap"
  sd_current :: "string option"

definition list_segments :: "shard_dir \<Rightarrow> (nat \<times> string) list" where
  "list_segments d =
     sort_key fst (List.map_filter (\<lambda>n. map_option (\<lambda>s. (s, n)) (parse_segment_file_name n))
       (bm_keys (sd_files d)))"

definition is_whitespace :: "char \<Rightarrow> bool" where
  "is_whitespace c = (let n = (of_char c :: nat) in n = 32 \<or> (9 \<le> n \<and> n \<le> 13))"

definition str_trim :: "string \<Rightarrow> string" where
  "str_trim s = rev (dropWhile is_whitespace (rev (dropWhile is_whitespace s)))"

definition read_current :: "shard_dir \<Rightarrow> string option" where
  "read_current d =
     (case sd_current d of
        None \<Rightarrow> None
      | Some content \<Rightarrow>
          let name = str_trim content in
          if parse_segment_file_name name \<noteq> None then Some name else None)"

definition atomic_write_current :: "string \<Rightarrow> shard_dir \<Rightarrow> shard_dir" where
  "atomic_write_current segment_name d = d\<lparr>sd_current := Some segment_name\<rparr>"

subsection \<open>The record format\<close>

definition encode_record :: "wal_codecs \<Rightarrow> (bytes \<Rightarrow> nat) \<Rightarrow> wal_record \<Rightarrow> bytes" where
  "encode_record cx crc r =
     (let payload = encode_payload cx r;
          ty = record_type_as_u8 (record_type_of r)
      in le_bytes 4 (length payload) @ le_bytes 4 (record_crc crc ty payload) @ [ty] @ payload)"

text \<open>The decoding loop; \<open>rest\<close> is the data from offset \<open>pos\<close> on.\<close>

function decode_loop ::
  "wal_codecs \<Rightarrow> (bytes \<Rightarrow> nat) \<Rightarrow> nat \<Rightarrow> nat \<Rightarrow> bytes \<Rightarrow> (nat \<times> wal_record) list \<times> nat \<times> bool" where
  "decode_loop cx crc seq pos rest =
     (if length rest < RECORD_HEADER_SIZE then ([], pos, rest = [])
      else
        let len = le_nat (slice 0 4 rest); stored = le_nat (slice 4 8 rest); ty = rest ! 8;
            need = RECORD_HEADER_SIZE + len
        in if length rest < need then ([], pos, False)
           else
             let payload = slice RECORD_HEADER_SIZE need rest in
             if record_crc crc ty payload \<noteq> stored then ([], pos, False)
             else (case record_decode cx ty payload of
                     Inr rec \<Rightarrow>
                       let (records, stop, complete) =
                             decode_loop cx crc (seq + 1) (pos + need) (drop need rest)
                       in ((seq, rec) # records, stop, complete)
                   | Inl _ \<Rightarrow> ([], pos, False)))"
  by auto
termination
  by (relation "measure (\<lambda>(cx, crc, seq, pos, rest). length rest)") (auto simp: RECORD_HEADER_SIZE_def)

declare decode_loop.simps [simp del]

definition decode_with_stop ::
  "wal_codecs \<Rightarrow> (bytes \<Rightarrow> nat) \<Rightarrow> file_header \<Rightarrow> bytes \<Rightarrow> (nat \<times> wal_record) list \<times> nat \<times> bool" where
  "decode_with_stop cx crc header data =
     decode_loop cx crc (fh_first_seq header) FILE_HEADER_SIZE (drop FILE_HEADER_SIZE data)"

definition decode_segment_records ::
  "wal_codecs \<Rightarrow> (bytes \<Rightarrow> nat) \<Rightarrow> file_header \<Rightarrow> bytes \<Rightarrow> (nat \<times> wal_record) list \<times> bool" where
  "decode_segment_records cx crc header data =
     (let (records, _, complete) = decode_with_stop cx crc header data in (records, complete))"

text \<open>The checks that \<open>repair_torn_tail\<close> and \<open>load_segment\<close> make before decoding.\<close>

definition checked_header :: "string \<Rightarrow> bytes \<Rightarrow> wal_error + file_header" where
  "checked_header path data =
     (if length data < FILE_HEADER_SIZE then Inl (WalOther ''segment too short'')
      else if slice 0 4 data \<noteq> WAL_MAGIC then Inl (WalBadMagic path)
      else header_decode data)"

text \<open>The result and the contents of the file afterwards.\<close>

definition repair_torn_tail ::
  "wal_codecs \<Rightarrow> (bytes \<Rightarrow> nat) \<Rightarrow> string \<Rightarrow> bytes \<Rightarrow> (wal_error + (nat \<times> nat) option) \<times> bytes" where
  "repair_torn_tail cx crc path data =
     (case checked_header path data of
        Inl e \<Rightarrow> (Inl e, data)
      | Inr header \<Rightarrow>
          let (_, stop, complete) = decode_with_stop cx crc header data in
          if complete then (Inr None, data)
          else (Inr (Some (length data, stop)), take stop data))"

definition load_segment ::
  "wal_codecs \<Rightarrow> (bytes \<Rightarrow> nat) \<Rightarrow> string \<Rightarrow> bytes \<Rightarrow>
    wal_error + file_header \<times> (nat \<times> wal_record) list \<times> bool" where
  "load_segment cx crc path data =
     and_then (checked_header path data) (\<lambda>header.
       let (records, complete) = decode_segment_records cx crc header data
       in Inr (header, records, complete))"

subsection \<open>The writer\<close>

record segment_writer =
  sw_path :: string
  sw_seg_seq :: nat
  sw_bytes_written :: nat
  sw_created_at :: nat

definition segment_create ::
  "nat \<Rightarrow> nat \<Rightarrow> nat \<Rightarrow> nat \<Rightarrow> shard_dir \<Rightarrow> (string + segment_writer) \<times> shard_dir" where
  "segment_create seg_seq shard_id first_record_seq now d =
     (let path = segment_file_name seg_seq;
          header = \<lparr>fh_shard_id = shard_id, fh_first_seq = first_record_seq\<rparr>
      in if bm_has (sd_files d) path then (Inl ''already exists'', d)
         else (Inr \<lparr>sw_path = path, sw_seg_seq = seg_seq, sw_bytes_written = FILE_HEADER_SIZE,
                 sw_created_at = now\<rparr>,
               d\<lparr>sd_files := bm_insert path (header_encode header) (sd_files d)\<rparr>))"

definition open_append :: "string \<Rightarrow> nat \<Rightarrow> nat \<Rightarrow> shard_dir \<Rightarrow> string + segment_writer" where
  "open_append path seg_seq now d =
     (case bm_get (sd_files d) path of
        None \<Rightarrow> Inl ''not found''
      | Some data \<Rightarrow>
          if length data < FILE_HEADER_SIZE then Inl ''unexpected end of file''
          else (case header_decode (take FILE_HEADER_SIZE data) of
                  Inl e \<Rightarrow> Inl ''invalid header''
                | Inr _ \<Rightarrow> Inr \<lparr>sw_path = path, sw_seg_seq = seg_seq,
                    sw_bytes_written = length data, sw_created_at = now\<rparr>))"

definition file_of :: "string \<Rightarrow> shard_dir \<Rightarrow> bytes" where
  "file_of path d = (case bm_get (sd_files d) path of Some bs \<Rightarrow> bs | None \<Rightarrow> [])"

definition extend_file :: "string \<Rightarrow> bytes \<Rightarrow> shard_dir \<Rightarrow> shard_dir" where
  "extend_file path bs d = d\<lparr>sd_files := bm_insert path (file_of path d @ bs) (sd_files d)\<rparr>"

text \<open>\<open>append\<close> with the number of bytes the device still takes before \<open>write_all\<close> fails (\<open>None\<close>: it does
  not fail). A failing write leaves a prefix of the record behind and does not count it.\<close>

definition append_record ::
  "wal_codecs \<Rightarrow> (bytes \<Rightarrow> nat) \<Rightarrow> nat option \<Rightarrow> wal_record \<Rightarrow> segment_writer \<Rightarrow> shard_dir \<Rightarrow>
    (string + nat) \<times> nat option \<times> segment_writer \<times> shard_dir" where
  "append_record cx crc budget r w d =
     (let bs = encode_record cx crc r in
      case budget of
        None \<Rightarrow> (Inr (length bs), None, w\<lparr>sw_bytes_written := sw_bytes_written w + length bs\<rparr>,
          extend_file (sw_path w) bs d)
      | Some n \<Rightarrow>
          if length bs \<le> n
          then (Inr (length bs), Some (n - length bs),
            w\<lparr>sw_bytes_written := sw_bytes_written w + length bs\<rparr>, extend_file (sw_path w) bs d)
          else (Inl ''write failed'', Some 0, w, extend_file (sw_path w) (take n bs) d))"

fun append_batch ::
  "wal_codecs \<Rightarrow> (bytes \<Rightarrow> nat) \<Rightarrow> nat option \<Rightarrow> wal_record list \<Rightarrow> nat \<Rightarrow> segment_writer \<Rightarrow> shard_dir \<Rightarrow>
    (string + nat) \<times> segment_writer \<times> shard_dir" where
  "append_batch cx crc budget [] so_far w d = (Inr so_far, w, d)"
| "append_batch cx crc budget (r # rs) so_far w d =
     (case append_record cx crc budget r w d of
        (Inl e, _, w', d') \<Rightarrow> (Inl e, w', d')
      | (Inr n, budget', w', d') \<Rightarrow> append_batch cx crc budget' rs (so_far + n) w' d')"

definition should_rotate :: "segment_writer \<Rightarrow> nat \<Rightarrow> nat \<Rightarrow> nat \<Rightarrow> nat \<Rightarrow> bool" where
  "should_rotate w incoming_bytes cfg_max_size cfg_max_age now \<longleftrightarrow>
     sw_bytes_written w + incoming_bytes > cfg_max_size \<or> now - sw_created_at w > cfg_max_age"

subsection \<open>Decoding what was encoded\<close>

text \<open>What the format needs of a record: prost reads its payload back, the payload length and the
  checksum fit their fields.\<close>

definition writable :: "wal_codecs \<Rightarrow> (bytes \<Rightarrow> nat) \<Rightarrow> wal_record \<Rightarrow> bool" where
  "writable cx crc r \<longleftrightarrow> prost_roundtrip cx r \<and> length (encode_payload cx r) < 2 ^ 32 \<and>
     record_crc crc (record_type_as_u8 (record_type_of r)) (encode_payload cx r) < 2 ^ 32"

definition encode_records :: "wal_codecs \<Rightarrow> (bytes \<Rightarrow> nat) \<Rightarrow> wal_record list \<Rightarrow> bytes" where
  "encode_records cx crc rs = concat (map (encode_record cx crc) rs)"

lemma encode_records_simps [simp]:
  "encode_records cx crc [] = []"
  "encode_records cx crc (r # rs) = encode_record cx crc r @ encode_records cx crc rs"
  "encode_records cx crc (rs @ rs') = encode_records cx crc rs @ encode_records cx crc rs'"
  by (simp_all add: encode_records_def)

lemma length_encode_record:
  "length (encode_record cx crc r) = RECORD_HEADER_SIZE + length (encode_payload cx r)"
  by (simp add: encode_record_def RECORD_HEADER_SIZE_def Let_def)

lemma encode_record_fields:
  "slice 0 4 (encode_record cx crc r @ t) = le_bytes 4 (length (encode_payload cx r))"
  "slice 4 8 (encode_record cx crc r @ t) =
    le_bytes 4 (record_crc crc (record_type_as_u8 (record_type_of r)) (encode_payload cx r))"
  "(encode_record cx crc r @ t) ! 8 = record_type_as_u8 (record_type_of r)"
  "slice 9 (9 + length (encode_payload cx r)) (encode_record cx crc r @ t) = encode_payload cx r"
  "drop (9 + length (encode_payload cx r)) (encode_record cx crc r @ t) = t"
  by (simp_all add: encode_record_def slice_def Let_def nth_append)

text \<open>Prepend records to a decoding result.\<close>

definition after_records :: "'r list \<Rightarrow> 'r list \<times> 'p \<times> 'c \<Rightarrow> 'r list \<times> 'p \<times> 'c" where
  "after_records rs x = (rs @ fst x, snd x)"

lemma after_records_simps [simp]:
  "after_records [] x = x"
  "after_records rs (rs', y) = (rs @ rs', y)"
  "after_records rs (after_records rs' x) = after_records (rs @ rs') x"
  by (simp_all add: after_records_def)

lemma decode_loop_record [wal_simps]:
  assumes "writable cx crc r"
  shows "decode_loop cx crc seq pos (encode_record cx crc r @ t) =
    after_records [(seq, r)] (decode_loop cx crc (Suc seq) (pos + length (encode_record cx crc r)) t)"
proof -
  let ?p = "encode_payload cx r"
  have fields: "le_nat (le_bytes 4 (length ?p)) = length ?p"
    "le_nat (le_bytes 4 (record_crc crc (record_type_as_u8 (record_type_of r)) ?p)) =
      record_crc crc (record_type_as_u8 (record_type_of r)) ?p"
    and decodes: "record_decode cx (record_type_as_u8 (record_type_of r)) ?p = Inr r"
    using assms by (simp_all add: writable_def le_nat_le_bytes_id record_decode_encode)
  show ?thesis
    by (subst decode_loop.simps)
       (simp add: Let_def encode_record_fields fields decodes length_encode_record RECORD_HEADER_SIZE_def
          after_records_def case_prod_unfold)
qed

lemma decode_loop_records [wal_simps]:
  "list_all (writable cx crc) rs \<Longrightarrow>
    decode_loop cx crc seq pos (encode_records cx crc rs @ t) =
    after_records (enumerate seq rs)
      (decode_loop cx crc (seq + length rs) (pos + length (encode_records cx crc rs)) t)"
  by (induction rs arbitrary: seq pos) (simp_all add: decode_loop_record algebra_simps)

lemma decode_loop_Nil [simp]: "decode_loop cx crc seq pos [] = ([], pos, True)"
  by (subst decode_loop.simps) (simp add: RECORD_HEADER_SIZE_def)

text \<open>A record cut short is not decoded.\<close>

lemma decode_loop_torn:
  assumes "writable cx crc r" "n < length (encode_record cx crc r)"
  shows "decode_loop cx crc seq pos (take n (encode_record cx crc r)) = ([], pos, n = 0)"
proof (cases "n < RECORD_HEADER_SIZE")
  case True
  moreover have "encode_record cx crc r \<noteq> []" using assms(2) by auto
  ultimately show ?thesis
    by (subst decode_loop.simps) (auto simp: RECORD_HEADER_SIZE_def)
next
  case False
  then have "slice 0 4 (take n (encode_record cx crc r)) = le_bytes 4 (length (encode_payload cx r))"
    using encode_record_fields(1) [of cx crc r "[]"]
    by (subst slice_take) (auto simp: RECORD_HEADER_SIZE_def)
  with assms False show ?thesis
    by (subst decode_loop.simps)
       (auto simp: Let_def length_encode_record RECORD_HEADER_SIZE_def writable_def le_nat_le_bytes_id)
qed

lemma encode_records_take:
  "k < length rs \<Longrightarrow> encode_records cx crc (take (Suc k) rs) =
    encode_records cx crc (take k rs) @ encode_record cx crc (rs ! k)"
  by (simp add: take_Suc_conv_app_nth)

text \<open>The number of whole records in the first \<open>n\<close> bytes.\<close>

fun whole :: "wal_codecs \<Rightarrow> (bytes \<Rightarrow> nat) \<Rightarrow> wal_record list \<Rightarrow> nat \<Rightarrow> nat" where
  "whole cx crc [] n = 0"
| "whole cx crc (r # rs) n =
     (if n < length (encode_record cx crc r) then 0
      else Suc (whole cx crc rs (n - length (encode_record cx crc r))))"

lemma whole_bounds:
  "whole cx crc rs n \<le> length rs \<and>
    length (encode_records cx crc (take (whole cx crc rs n) rs)) \<le> n \<and>
    (whole cx crc rs n < length rs \<longrightarrow>
      n < length (encode_records cx crc (take (Suc (whole cx crc rs n)) rs)))"
proof (induction rs arbitrary: n)
  case (Cons r rs)
  show ?case
    using Cons.IH [of "n - length (encode_record cx crc r)"] by auto
qed simp

lemma whole_all: "length (encode_records cx crc rs) \<le> n \<Longrightarrow> whole cx crc rs n = length rs"
  by (induction rs arbitrary: n) auto

lemma decode_loop_prefix:
  assumes "list_all (writable cx crc) rs"
  shows "decode_loop cx crc seq pos (take n (encode_records cx crc rs)) =
    (let k = whole cx crc rs n; b = length (encode_records cx crc (take k rs)) in
     (enumerate seq (take k rs), pos + b, min n (length (encode_records cx crc rs)) = b))"
  using assms
proof (induction rs arbitrary: n seq pos)
  case (Cons r rs)
  then have r: "writable cx crc r" and rs: "list_all (writable cx crc) rs" by auto
  have pos: "0 < length (encode_record cx crc r)"
    by (simp add: length_encode_record RECORD_HEADER_SIZE_def)
  show ?case
  proof (cases "n < length (encode_record cx crc r)")
    case True
    with decode_loop_torn [OF r True, of seq pos] show ?thesis by simp
  next
    case False
    then have "take n (encode_records cx crc (r # rs)) =
        encode_record cx crc r @ take (n - length (encode_record cx crc r)) (encode_records cx crc rs)"
      by simp
    with Cons.IH [OF rs, of "Suc seq" "pos + length (encode_record cx crc r)"
        "n - length (encode_record cx crc r)"] decode_loop_record [OF r] False
    show ?thesis by (auto simp: Let_def)
  qed
qed simp

subsection \<open>Arbitrary bytes\<close>

lemma decode_loop_cases:
  obtains (halt) "decode_loop cx crc seq pos rest = ([], pos, rest = [])"
  | (step) r need where "0 < need" "need \<le> length rest"
      "\<And>t. decode_loop cx crc seq pos (take need rest @ t) =
        after_records [(seq, r)] (decode_loop cx crc (Suc seq) (pos + need) t)"
proof -
  let ?len = "le_nat (slice 0 4 rest)"
  let ?need = "RECORD_HEADER_SIZE + ?len"
  let ?payload = "slice RECORD_HEADER_SIZE ?need rest"
  show thesis
  proof (cases "RECORD_HEADER_SIZE \<le> length rest \<and> ?need \<le> length rest \<and>
      record_crc crc (rest ! 8) ?payload = le_nat (slice 4 8 rest) \<and>
      (\<exists>r. record_decode cx (rest ! 8) ?payload = Inr r)")
    case True
    then obtain r where r: "record_decode cx (rest ! 8) ?payload = Inr r"
      and len: "?need \<le> length rest" and crc: "record_crc crc (rest ! 8) ?payload = le_nat (slice 4 8 rest)"
      by blast
    have fields: "slice 0 4 (take ?need rest @ t) = slice 0 4 rest"
      "slice 4 8 (take ?need rest @ t) = slice 4 8 rest"
      "(take ?need rest @ t) ! 8 = rest ! 8" "slice RECORD_HEADER_SIZE ?need (take ?need rest @ t) = ?payload"
      "drop ?need (take ?need rest @ t) = t" for t
      using len by (auto simp: slice_def RECORD_HEADER_SIZE_def nth_append drop_take)
    show thesis
    proof (rule step [of ?need r])
      show "decode_loop cx crc seq pos (take ?need rest @ t) =
        after_records [(seq, r)] (decode_loop cx crc (Suc seq) (pos + ?need) t)" for t
        using len
        by (subst decode_loop.simps)
           (simp add: Let_def fields r crc after_records_def case_prod_unfold)
    qed (use len in \<open>simp_all add: RECORD_HEADER_SIZE_def\<close>)
  next
    case False
    then show thesis
      by (intro halt, subst decode_loop.simps) (auto simp: Let_def RECORD_HEADER_SIZE_def split: sum.split)
  qed
qed

lemma decode_loop_shape:
  assumes "decode_loop cx crc seq pos rest = (records, stop, complete)"
  shows "pos \<le> stop \<and> stop \<le> pos + length rest \<and> (complete \<longleftrightarrow> stop = pos + length rest) \<and>
    records = enumerate seq (map snd records) \<and>
    (\<forall>t. decode_loop cx crc seq pos (take (stop - pos) rest @ t) =
      after_records records (decode_loop cx crc (seq + length records) stop t))"
  using assms
proof (induction "length rest" arbitrary: seq pos rest records stop complete rule: less_induct)
  case less
  show ?case
  proof (cases rule: decode_loop_cases [of cx crc seq pos rest])
    case halt
    with less.prems show ?thesis by auto
  next
    case (step r need)
    let ?rest = "drop need rest"
    obtain records' where d: "decode_loop cx crc (Suc seq) (pos + need) ?rest = (records', stop, complete)"
      and records: "records = (seq, r) # records'"
      using less.prems step(3) [of ?rest]
      by (auto simp: after_records_def prod_eq_iff)
    have IH: "pos + need \<le> stop \<and> stop \<le> pos + length rest \<and> (complete \<longleftrightarrow> stop = pos + length rest) \<and>
      records' = enumerate (Suc seq) (map snd records') \<and>
      (\<forall>t. decode_loop cx crc (Suc seq) (pos + need) (take (stop - (pos + need)) ?rest @ t) =
        after_records records' (decode_loop cx crc (Suc seq + length records') stop t))"
      using less.hyps [OF _ d] step(1,2) by auto
    have "take (stop - pos) rest = take need rest @ take (stop - (pos + need)) ?rest"
      using IH take_add [of need "stop - (pos + need)" rest] by simp
    with IH step(3) show ?thesis by (auto simp: records)
  qed
qed

subsection \<open>Loading a segment\<close>

definition segment_bytes :: "wal_codecs \<Rightarrow> (bytes \<Rightarrow> nat) \<Rightarrow> file_header \<Rightarrow> wal_record list \<Rightarrow> bytes" where
  "segment_bytes cx crc h rs = header_encode h @ encode_records cx crc rs"

lemma segment_bytes_append:
  "segment_bytes cx crc h rs @ encode_records cx crc rs' = segment_bytes cx crc h (rs @ rs')"
  by (simp add: segment_bytes_def)

lemma checked_header_encode [wal_simps]:
  "header_fits h \<Longrightarrow> checked_header path (header_encode h @ t) = Inr h"
  by (simp add: checked_header_def FILE_HEADER_SIZE_def header_slices header_roundtrip)

lemma load_segment_bytes [wal_simps]:
  assumes "header_fits h" "list_all (writable cx crc) rs"
  shows "load_segment cx crc path (segment_bytes cx crc h rs) =
    Inr (h, enumerate (fh_first_seq h) rs, True)"
  using assms decode_loop_records [OF assms(2), where t = "[]"]
  by (simp add: load_segment_def segment_bytes_def checked_header_encode decode_segment_records_def
      decode_with_stop_def FILE_HEADER_SIZE_def)

lemma load_segment_torn:
  assumes "header_fits h" "list_all (writable cx crc) rs" "FILE_HEADER_SIZE \<le> n"
  defines "k \<equiv> whole cx crc rs (n - FILE_HEADER_SIZE)"
  shows "load_segment cx crc path (take n (segment_bytes cx crc h rs)) =
    Inr (h, enumerate (fh_first_seq h) (take k rs),
      min n (length (segment_bytes cx crc h rs)) = length (segment_bytes cx crc h (take k rs)))"
proof -
  have "take n (segment_bytes cx crc h rs) = header_encode h @ take (n - 22) (encode_records cx crc rs)"
    using assms(3) by (simp add: segment_bytes_def FILE_HEADER_SIZE_def)
  then show ?thesis
    using assms(3) decode_loop_prefix [OF assms(2), of "fh_first_seq h" 22 "n - 22"]
    by (auto simp: load_segment_def checked_header_encode [OF assms(1)] decode_segment_records_def
        decode_with_stop_def FILE_HEADER_SIZE_def k_def segment_bytes_def Let_def)
qed

lemma encode_records_mono:
  "j \<le> k \<Longrightarrow> length (encode_records cx crc (take j rs)) \<le> length (encode_records cx crc (take k rs))"
proof -
  assume "j \<le> k"
  then have "take k rs = take j rs @ take (k - j) (drop j rs)"
    by (metis le_add_diff_inverse take_add)
  then show ?thesis by simp
qed

lemma whole_greatest:
  assumes "j \<le> length rs" "length (encode_records cx crc (take j rs)) \<le> n"
  shows "j \<le> whole cx crc rs n"
proof (rule ccontr)
  assume "\<not> j \<le> whole cx crc rs n"
  then have less: "whole cx crc rs n < j" by simp
  with assms(1) have "n < length (encode_records cx crc (take (Suc (whole cx crc rs n)) rs))"
    using whole_bounds [where rs = rs and n = n] by auto
  moreover have "\<dots> \<le> length (encode_records cx crc (take j rs))"
    using less by (intro encode_records_mono) simp
  ultimately show False using assms(2) by simp
qed

text \<open>A torn segment loses no whole record and invents none. Cut the file of a segment at any byte
  after its header: loading it gives the header and exactly the records that lie completely within
  what is left, numbered from the header's first sequence number, and it reports the segment as
  complete exactly when the cut falls on a record boundary.\<close>

theorem torn_segment_keeps_whole_records:
  assumes "header_fits h" "list_all (writable cx crc) rs" "FILE_HEADER_SIZE \<le> n"
  shows "\<exists>k \<le> length rs.
    load_segment cx crc path (take n (segment_bytes cx crc h rs)) =
      Inr (h, enumerate (fh_first_seq h) (take k rs),
        min n (length (segment_bytes cx crc h rs)) = length (segment_bytes cx crc h (take k rs))) \<and>
    length (segment_bytes cx crc h (take k rs)) \<le> n \<and>
    (\<forall>j \<le> length rs. length (segment_bytes cx crc h (take j rs)) \<le> n \<longrightarrow> j \<le> k)"
proof (intro exI conjI)
  let ?k = "whole cx crc rs (n - FILE_HEADER_SIZE)"
  note b = whole_bounds [where rs = rs and n = "n - FILE_HEADER_SIZE" and cx = cx and crc = crc]
  show "?k \<le> length rs" using b by simp
  show "load_segment cx crc path (take n (segment_bytes cx crc h rs)) =
      Inr (h, enumerate (fh_first_seq h) (take ?k rs),
        min n (length (segment_bytes cx crc h rs)) = length (segment_bytes cx crc h (take ?k rs)))"
    by (rule load_segment_torn [OF assms])
  show "length (segment_bytes cx crc h (take ?k rs)) \<le> n"
    using b assms(3) by (auto simp: segment_bytes_def FILE_HEADER_SIZE_def)
  show "\<forall>j \<le> length rs. length (segment_bytes cx crc h (take j rs)) \<le> n \<longrightarrow> j \<le> ?k"
    by (auto intro!: whole_greatest simp: segment_bytes_def FILE_HEADER_SIZE_def)
qed

text \<open>A codec under which the commit records of the witnesses are written: the payload is the batch id,
  one byte per character, and a nat checksum that stays in range.\<close>

definition demo_wal :: wal_codecs where
  "demo_wal =
     \<lparr>wc_data = (\<lambda>_. [], \<lambda>_. Inl []), wc_pending = (\<lambda>_. [], \<lambda>_. Inl []), wc_s3_written = (\<lambda>_. [], \<lambda>_. Inl []),
      wc_committed = (\<lambda>p. map (\<lambda>c. of_nat (of_char c)) (bc_batch_id p),
        \<lambda>bs. Inr \<lparr>bc_batch_id = map (\<lambda>b. char_of (unat b)) bs\<rparr>),
      wc_abort = (\<lambda>_. [], \<lambda>_. Inl []), wc_ddl = (\<lambda>_. [], \<lambda>_. Inl []), wc_delete = (\<lambda>_. [], \<lambda>_. Inl []),
      wc_update = (\<lambda>_. [], \<lambda>_. Inl []), wc_purge = (\<lambda>_. [], \<lambda>_. Inl [])\<rparr>"

definition demo_crc :: "bytes \<Rightarrow> nat" where
  "demo_crc bs = sum_list (map unat bs) mod 2 ^ 32"

definition demo_rec :: "string \<Rightarrow> wal_record" where
  "demo_rec b = BatchCommitted \<lparr>bc_batch_id = b\<rparr>"

lemma demo_writable: "length b < 2 ^ 32 \<Longrightarrow> writable demo_wal demo_crc (demo_rec b)"
proof -
  have "char_of (unat (of_nat (of_char c) :: 8 word)) = c" for c
  proof -
    have "(of_char c :: nat) < 256" by simp
    then have "unat (of_nat (of_char c) :: 8 word) = of_char c" by (simp add: unat_of_nat)
    then show ?thesis by simp
  qed
  then show "length b < 2 ^ 32 \<Longrightarrow> writable demo_wal demo_crc (demo_rec b)"
    by (simp add: writable_def demo_wal_def demo_rec_def record_crc_def demo_crc_def comp_def)
qed

abbreviation demo_header :: file_header where
  "demo_header \<equiv> \<lparr>fh_shard_id = 0, fh_first_seq = 7\<rparr>"

lemma demo_record_length: "length (encode_record demo_wal demo_crc (demo_rec b)) = 9 + length b"
  by (simp add: length_encode_record RECORD_HEADER_SIZE_def demo_rec_def demo_wal_def)

theorem torn_segment_keeps_whole_records_witness:
  "load_segment demo_wal demo_crc ''seg''
     (take 33 (segment_bytes demo_wal demo_crc demo_header [demo_rec ''a'', demo_rec ''b''])) =
    Inr (demo_header, [(7, demo_rec ''a'')], False)"
proof -
  let ?rs = "[demo_rec ''a'', demo_rec ''b'']"
  have len: "length (segment_bytes demo_wal demo_crc demo_header (take j ?rs)) = 22 + 10 * min 2 j" for j
    by (cases j; cases "j - 1") (auto simp: segment_bytes_def demo_record_length numeral_2_eq_2)
  have "header_fits demo_header" "list_all (writable demo_wal demo_crc) ?rs" "FILE_HEADER_SIZE \<le> 33"
    by (auto simp: header_fits_def demo_writable FILE_HEADER_SIZE_def)
  from torn_segment_keeps_whole_records [OF this, of "''seg''"]
  obtain k where k: "k \<le> 2" "22 + 10 * min 2 k \<le> 33" "\<forall>j \<le> 2. 22 + 10 * min 2 j \<le> 33 \<longrightarrow> j \<le> k"
    and load: "load_segment demo_wal demo_crc ''seg'' (take 33 (segment_bytes demo_wal demo_crc demo_header ?rs)) =
      Inr (demo_header, enumerate 7 (take k ?rs), min 33 (22 + 10 * min 2 2) = 22 + 10 * min 2 k)"
    using len [of 2] by (auto simp: len)
  from k(2) k(3) [rule_format, of 1] have "k = 1" by simp
  with load show ?thesis by simp
qed

subsection \<open>Repairing a torn tail\<close>

lemma checked_header_take:
  assumes "checked_header path data = Inr h" "FILE_HEADER_SIZE \<le> n"
  shows "checked_header path (take n data @ t) = Inr h"
proof -
  have len: "22 \<le> length data"
    using assms(1) by (simp add: checked_header_def FILE_HEADER_SIZE_def split: if_splits)
  then have fields: "slice i j (take n data @ t) = slice i j data" if "j \<le> 22" for i j
    using assms(2) that by (simp add: slice_append slice_take FILE_HEADER_SIZE_def)
  have "\<not> length (take n data @ t) < 22" using len assms(2) by (simp add: FILE_HEADER_SIZE_def)
  with len have "checked_header path (take n data @ t) = checked_header path data"
    unfolding checked_header_def header_decode_def Let_def FILE_HEADER_SIZE_def
    by (simp add: fields cong: if_cong)
  with assms(1) show ?thesis by simp
qed

lemma repair_core:
  assumes "load_segment cx crc path data = Inr (h, records, complete)"
  obtains stop where "FILE_HEADER_SIZE \<le> stop" "stop \<le> length data"
    "complete \<longleftrightarrow> stop = length data" "records = enumerate (fh_first_seq h) (map snd records)"
    "repair_torn_tail cx crc path data =
      (Inr (if complete then None else Some (length data, stop)), take stop data)"
    "\<And>t. checked_header path (take stop data @ t) = Inr h"
    "\<And>t. decode_with_stop cx crc h (take stop data @ t) =
      after_records records (decode_loop cx crc (fh_first_seq h + length records) stop t)"
proof -
  have h: "checked_header path data = Inr h"
    using assms by (auto simp: load_segment_def and_then_Inr_iff case_prod_unfold Let_def)
  then have len: "FILE_HEADER_SIZE \<le> length data" by (auto simp: checked_header_def split: if_splits)
  obtain stop where d: "decode_loop cx crc (fh_first_seq h) FILE_HEADER_SIZE (drop FILE_HEADER_SIZE data) =
      (records, stop, complete)"
    using assms h by (auto simp: load_segment_def decode_segment_records_def decode_with_stop_def
        case_prod_unfold Let_def prod_eq_iff)
  note shape = decode_loop_shape [OF d]
  show thesis
  proof (rule that [of stop])
    show "FILE_HEADER_SIZE \<le> stop" "stop \<le> length data" "complete \<longleftrightarrow> stop = length data"
      "records = enumerate (fh_first_seq h) (map snd records)"
      using shape len by auto
    then show "repair_torn_tail cx crc path data =
        (Inr (if complete then None else Some (length data, stop)), take stop data)"
      by (simp add: repair_torn_tail_def h decode_with_stop_def d)
    show "checked_header path (take stop data @ t) = Inr h" for t
      using checked_header_take [OF h] shape by simp
    show "decode_with_stop cx crc h (take stop data @ t) =
        after_records records (decode_loop cx crc (fh_first_seq h + length records) stop t)" for t
    proof -
      have "drop FILE_HEADER_SIZE (take stop data @ t) =
          take (stop - FILE_HEADER_SIZE) (drop FILE_HEADER_SIZE data) @ t"
        using shape len by (simp add: drop_take)
      with shape show ?thesis by (simp add: decode_with_stop_def)
    qed
  qed
qed

lemma repair_then_load:
  assumes "load_segment cx crc path data = Inr (h, records, complete)"
    and "list_all (writable cx crc) new"
  shows "load_segment cx crc path (snd (repair_torn_tail cx crc path data) @ encode_records cx crc new) =
    Inr (h, records @ enumerate (fh_first_seq h + length records) new, True)"
proof -
  obtain stop where stop: "snd (repair_torn_tail cx crc path data) = take stop data"
    "\<And>t. checked_header path (take stop data @ t) = Inr h"
    "\<And>t. decode_with_stop cx crc h (take stop data @ t) =
      after_records records (decode_loop cx crc (fh_first_seq h + length records) stop t)"
    using repair_core [OF assms(1)] by (metis snd_conv)
  from decode_loop_records [OF assms(2), where t = "[]"] show ?thesis
    by (simp add: load_segment_def stop decode_segment_records_def)
qed

text \<open>Repairing a torn tail makes the segment writable again. Whatever bytes follow the header,
  corrupt or torn, the repair keeps every record that loading the file showed, the repaired file is
  complete and needs no second repair, and records appended to it afterwards are all read back, with
  consecutive sequence numbers: an acknowledged append is never hidden behind garbage.\<close>

theorem repair_keeps_records_and_appends:
  assumes "load_segment cx crc path data = Inr (h, records, complete)"
    and "list_all (writable cx crc) new"
    and "repaired = snd (repair_torn_tail cx crc path data)"
  shows "load_segment cx crc path (repaired @ encode_records cx crc new) =
      Inr (h, records @ enumerate (fh_first_seq h + length records) new, True) \<and>
    repair_torn_tail cx crc path repaired = (Inr None, repaired) \<and>
    (\<exists>lost. data = repaired @ lost \<and> (complete \<longrightarrow> lost = []))"
proof (intro conjI)
  show "load_segment cx crc path (repaired @ encode_records cx crc new) =
      Inr (h, records @ enumerate (fh_first_seq h + length records) new, True)"
    using repair_then_load [OF assms(1,2)] assms(3) by simp
  have "load_segment cx crc path repaired = Inr (h, records, True)"
    using repair_then_load [OF assms(1), of "[]"] assms(3) by simp
  then show "repair_torn_tail cx crc path repaired = (Inr None, repaired)"
    by (rule repair_core) simp
  show "\<exists>lost. data = repaired @ lost \<and> (complete \<longrightarrow> lost = [])"
  proof (rule repair_core [OF assms(1)])
    fix stop
    assume "stop \<le> length data" "complete \<longleftrightarrow> stop = length data"
      "repair_torn_tail cx crc path data = (Inr (if complete then None else Some (length data, stop)), take stop data)"
    then show ?thesis using assms(3) by (intro exI [of _ "drop stop data"]) auto
  qed
qed

theorem repair_keeps_records_and_appends_witness:
  "load_segment demo_wal demo_crc ''seg''
     (snd (repair_torn_tail demo_wal demo_crc ''seg'' (header_encode demo_header)) @
       encode_records demo_wal demo_crc [demo_rec ''x'']) =
    Inr (demo_header, [(7, demo_rec ''x'')], True)"
proof -
  have "load_segment demo_wal demo_crc ''seg'' (header_encode demo_header) = Inr (demo_header, [], True)"
    using load_segment_bytes [of demo_header demo_wal demo_crc "[]" "''seg''"]
    by (simp add: segment_bytes_def header_fits_def)
  from repair_keeps_records_and_appends [OF this _ refl, of "[demo_rec ''x'']", THEN conjunct1]
  show ?thesis by (simp add: demo_writable)
qed

subsection \<open>Segment names\<close>

text \<open>Exactly \<open>k\<close> decimal digits.\<close>

fun dec_fixed :: "nat \<Rightarrow> nat \<Rightarrow> string" where
  "dec_fixed 0 n = []"
| "dec_fixed (Suc k) n = dec_fixed k (n div 10) @ [char_of (48 + n mod 10)]"

lemma length_dec_fixed [simp]: "length (dec_fixed k n) = k"
  by (induction k arbitrary: n) auto

lemma dec_fixed_0: "dec_fixed k 0 = replicate k CHR ''0''"
proof (induction k)
  case (Suc k)
  have "char_of (48 :: nat) = CHR ''0''" by code_simp
  with Suc show ?case by (simp add: replicate_append_same)
qed simp

lemma of_char_digit: "d < 10 \<Longrightarrow> of_char (char_of (48 + d) :: char) = (48 + d :: nat)"
  by simp

lemma digits_value_snoc [simp]: "digits_value (s @ [c]) = 10 * digits_value s + (of_char c - 48)"
  by (simp add: digits_value_def)

lemma digits_value_fixed: "digits_value (dec_fixed k n) = n mod 10 ^ k"
proof (induction k arbitrary: n)
  case (Suc k)
  then show ?case by (simp add: of_char_digit mod_mult2_eq)
qed (simp add: digits_value_def)

lemma dec_fixed_digits: "list_all is_ascii_digit (dec_fixed k n)"
proof (induction k arbitrary: n)
  case (Suc k)
  have "is_ascii_digit (char_of (48 + n mod 10))"
    by (simp add: is_ascii_digit_def of_char_digit Let_def)
  with Suc show ?case by simp
qed simp

lemma fixed_of_digits: "list_all is_ascii_digit s \<Longrightarrow> dec_fixed (length s) (digits_value s) = s"
proof (induction s rule: rev_induct)
  case (snoc c s)
  then have c: "48 \<le> (of_char c :: nat)" "(of_char c :: nat) \<le> 57"
    by (simp_all add: is_ascii_digit_def Let_def)
  obtain d :: nat where d: "of_char c = 48 + d" "d < 10"
    using c by (intro that [of "of_char c - 48"]) auto
  have "(10 * digits_value s + d) div 10 = digits_value s" "(10 * digits_value s + d) mod 10 = d"
    using d(2) by auto
  moreover have "char_of (48 + d) = c" by (metis d(1) char_of_char)
  ultimately show ?case using snoc by (simp add: d(1))
qed simp

lemma pad_dec_digits:
  "n < 10 ^ k \<Longrightarrow> 0 < k \<Longrightarrow> length (dec_digits n) \<le> k \<and>
    replicate (k - length (dec_digits n)) CHR ''0'' @ dec_digits n = dec_fixed k n"
proof (induction n arbitrary: k rule: dec_digits.induct)
  case (1 n)
  then obtain k' where k: "k = Suc k'" by (cases k) auto
  show ?case
  proof (cases "n < 10")
    case True
    then have "dec_digits n = [char_of (48 + n)]" by (subst dec_digits.simps) simp
    with True show ?thesis by (simp add: k dec_fixed_0)
  next
    case False
    with 1(2) k have "n div 10 < 10 ^ k'" "0 < k'" by (cases k'; simp add: less_mult_imp_div_less)+
    moreover have "dec_digits n = dec_digits (n div 10) @ [char_of (48 + n mod 10)]"
      using False by (subst dec_digits.simps) simp
    ultimately show ?thesis using 1(1) [OF False, of k'] by (simp add: k)
  qed
qed

lemma segment_name_fixed: "n \<le> u64_max \<Longrightarrow> segment_file_name n = dec_fixed 20 n @ ''.wal''"
  using pad_dec_digits [of n 20] by (simp add: segment_file_name_def pad20_def u64_max_def)

lemma segment_name_iff:
  "parse_segment_file_name name = Some n \<longleftrightarrow> n \<le> u64_max \<and> name = segment_file_name n"
proof
  assume "n \<le> u64_max \<and> name = segment_file_name n"
  then show "parse_segment_file_name name = Some n"
    using digits_value_fixed [of 20 n] dec_fixed_digits [of 20 n]
    by (simp add: parse_segment_file_name_def segment_name_fixed strip_suffix_def u64_max_def)
next
  assume p: "parse_segment_file_name name = Some n"
  then obtain stem where stem: "strip_suffix ''.wal'' name = Some stem" "length stem = 20"
    "list_all is_ascii_digit stem" "digits_value stem = n" "n \<le> u64_max"
    by (auto simp: parse_segment_file_name_def split: option.splits if_splits)
  then have "name = stem @ ''.wal''"
    by (auto simp: strip_suffix_def split: if_splits) (metis append_take_drop_id)
  with stem fixed_of_digits [of stem] show "n \<le> u64_max \<and> name = segment_file_name n"
    by (simp add: segment_name_fixed)
qed

lemma segment_file_name_inj [simp]:
  "m \<le> u64_max \<Longrightarrow> n \<le> u64_max \<Longrightarrow> segment_file_name m = segment_file_name n \<longleftrightarrow> m = n"
  using segment_name_iff [of "segment_file_name m" m] segment_name_iff [of "segment_file_name m" n] by auto

text \<open>A directory listing depends only on which segment names exist.\<close>

lemma set_map_filter: "set (List.map_filter f xs) = {y. \<exists>x \<in> set xs. f x = Some y}"
  by (induction xs) (auto simp: List.map_filter_def)

lemma list_segments_set:
  "set (list_segments d) =
    {(n, segment_file_name n) | n. n \<le> u64_max \<and> bm_get (sd_files d) (segment_file_name n) \<noteq> None}"
  by (auto simp: list_segments_def set_map_filter segment_name_iff bm_keys_iff)

lemma list_segments_fst:
  "list_segments d = map (\<lambda>n. (n, segment_file_name n)) (map fst (list_segments d))"
  unfolding map_map by (rule map_idI [symmetric]) (auto simp: list_segments_set)

lemma list_segments_sorted: "sorted (map fst (list_segments d))"
  by (simp add: list_segments_def)

lemma list_segments_distinct: "distinct (map fst (list_segments d))"
proof -
  have "distinct (List.map_filter (\<lambda>n. map_option (\<lambda>s. (s, n)) (parse_segment_file_name n)) ns)"
    if "distinct ns" for ns
    using that by (induction ns) (auto simp: List.map_filter_def)
  moreover have "distinct (bm_keys (sd_files d))"
    using bm_keys_strict_sorted [of "sd_files d"] strict_sorted_iff by blast
  ultimately have "distinct (list_segments d)" by (simp add: list_segments_def)
  moreover have "inj_on fst (set (list_segments d))" by (auto simp: inj_on_def list_segments_set)
  ultimately show ?thesis by (simp add: distinct_map)
qed

lemma list_segments_eqI:
  assumes "sorted_wrt (<) ns"
    and "\<And>n. n \<in> set ns \<longleftrightarrow> n \<le> u64_max \<and> bm_get (sd_files d) (segment_file_name n) \<noteq> None"
  shows "list_segments d = map (\<lambda>n. (n, segment_file_name n)) ns"
proof -
  have "set (map fst (list_segments d)) = set ns"
    using assms(2) by (force simp: list_segments_set image_iff)
  then have "map fst (list_segments d) = ns"
    using assms(1) list_segments_sorted list_segments_distinct
    by (intro sorted_distinct_set_unique) (auto simp: strict_sorted_iff)
  with list_segments_fst [of d] show ?thesis by simp
qed

text \<open>A segment's number and its file name determine each other: a directory entry is taken for
  segment number \<open>n\<close> exactly when it is the name the writer gives to segment \<open>n\<close>. So no two files claim
  the same place in the log, and no foreign file is read as a segment.\<close>

theorem segment_name_identifies_number:
  "parse_segment_file_name name = Some n \<longleftrightarrow> n \<le> u64_max \<and> name = segment_file_name n"
  by (rule segment_name_iff)

end
