(* ===== verification/Wal_Batch.thy ===== *)
theory Wal_Batch
  imports Wal_Record BTree_Map
begin

text \<open>
  Batch states rebuilt from the log (\<open>crates/model/src/batch.rs\<close>). The two hash maps are ordered maps
  here: the code looks entries up by key, and iterates only where the order does not matter.
  Durations and times are milliseconds; \<open>timeout.as_millis()\<close> is the argument \<open>timeout_ms\<close>.
\<close>

datatype batch_status =
    Pending
  | S3Written
  | Committed
  | Abort

definition is_terminal :: "batch_status \<Rightarrow> bool" where
  "is_terminal s \<longleftrightarrow> s = Committed \<or> s = Abort"

record batch_state =
  bs_batch_id :: string
  bs_client_request_id :: "string option"
  bs_table :: string
  bs_shard :: string
  bs_time_window :: string
  bs_status :: batch_status
  bs_s3_paths :: "string list"
  bs_s3_upload_id :: "string option"
  bs_file_size :: nat
  bs_row_count :: nat
  bs_schema_version :: nat
  bs_created_at_ms :: nat
  bs_wal_seq_range :: "nat \<times> nat"

definition is_timed_out :: "batch_state \<Rightarrow> nat \<Rightarrow> nat \<Rightarrow> bool" where
  "is_timed_out st now_ms timeout_ms \<longleftrightarrow>
     \<not> is_terminal (bs_status st) \<and> sat_sub now_ms (bs_created_at_ms st) > timeout_ms"

record batch_state_map =
  bm_states :: "(string, batch_state) bmap"
  bm_data_buffer :: "(string \<times> string, data_payload list) bmap"

definition batch_map_default :: batch_state_map where
  "batch_map_default = \<lparr>bm_states = bm_empty, bm_data_buffer = bm_empty\<rparr>"

definition opt_nonempty :: "string \<Rightarrow> string option" where
  "opt_nonempty s = (if s = [] then None else Some s)"

definition pending_state :: "batch_pending_payload \<Rightarrow> batch_state" where
  "pending_state p =
     \<lparr>bs_batch_id = bp_batch_id p, bs_client_request_id = opt_nonempty (bp_client_request_id p),
      bs_table = bp_table p, bs_shard = bp_shard p, bs_time_window = bp_window p, bs_status = Pending,
      bs_s3_paths = [], bs_s3_upload_id = None, bs_file_size = 0, bs_row_count = bp_row_count p,
      bs_schema_version = bp_schema_version p, bs_created_at_ms = bp_created_at_ms p,
      bs_wal_seq_range = (bp_wal_seq_start p, max (bp_wal_seq_end p) (bp_wal_seq_start p))\<rparr>"

definition s3_written_state :: "batch_s3_written_payload \<Rightarrow> batch_state \<Rightarrow> batch_state" where
  "s3_written_state p s =
     s\<lparr>bs_status := S3Written, bs_s3_paths := bw_s3_paths p,
       bs_s3_upload_id := opt_nonempty (bw_s3_upload_id p), bs_file_size := bw_file_size p\<rparr>"

text \<open>\<open>if let Some(s) = states.get_mut(id)\<close>.\<close>

definition with_state :: "string \<Rightarrow> (batch_state \<Rightarrow> batch_state) \<Rightarrow> batch_state_map \<Rightarrow> batch_state_map" where
  "with_state bid f m =
     (case bm_get (bm_states m) bid of
        None \<Rightarrow> m
      | Some s \<Rightarrow> m\<lparr>bm_states := bm_insert bid (f s) (bm_states m)\<rparr>)"

fun apply_record :: "wal_record \<Rightarrow> nat \<Rightarrow> batch_state_map \<Rightarrow> batch_state_map" where
  "apply_record (Data p) seq m =
     (let key = (dp_shard p, dp_time_window p);
          cur = (case bm_get (bm_data_buffer m) key of Some ps \<Rightarrow> ps | None \<Rightarrow> [])
      in m\<lparr>bm_data_buffer := bm_insert key (cur @ [p]) (bm_data_buffer m)\<rparr>)"
| "apply_record (BatchPending p) seq m =
     m\<lparr>bm_states := bm_insert (bp_batch_id p) (pending_state p) (bm_states m)\<rparr>"
| "apply_record (BatchS3Written p) seq m = with_state (bw_batch_id p) (s3_written_state p) m"
| "apply_record (BatchCommitted p) seq m =
     with_state (bc_batch_id p) (\<lambda>s. s\<lparr>bs_status := Committed\<rparr>) m"
| "apply_record (BatchAbort p) seq m = m\<lparr>bm_states := bm_remove (ba_batch_id p) (bm_states m)\<rparr>"
| "apply_record (Ddl p) seq m = m"
| "apply_record (Delete p) seq m = m"
| "apply_record (Update p) seq m = m"
| "apply_record (Purge p) seq m = m"

definition replay :: "(nat \<times> wal_record) list \<Rightarrow> batch_state_map \<Rightarrow> batch_state_map" where
  "replay records m = fold (\<lambda>(seq, rec). apply_record rec seq) records m"

lemma replay_simps [simp]:
  "replay [] m = m"
  "replay ((seq, r) # rs) m = replay rs (apply_record r seq m)"
  "replay (rs @ rs') m = replay rs' (replay rs m)"
  by (simp_all add: replay_def)

subsection \<open>One batch\<close>

text \<open>What one record does to the state of batch \<open>bid\<close>, seen on its own: the life cycle of a batch.\<close>

fun batch_event :: "string \<Rightarrow> wal_record \<Rightarrow> batch_state option \<Rightarrow> batch_state option" where
  "batch_event bid (BatchPending p) s = (if bp_batch_id p = bid then Some (pending_state p) else s)"
| "batch_event bid (BatchS3Written p) s =
     (if bw_batch_id p = bid then map_option (s3_written_state p) s else s)"
| "batch_event bid (BatchCommitted p) s =
     (if bc_batch_id p = bid then map_option (\<lambda>s. s\<lparr>bs_status := Committed\<rparr>) s else s)"
| "batch_event bid (BatchAbort p) s = (if ba_batch_id p = bid then None else s)"
| "batch_event bid (Data p) s = s"
| "batch_event bid (Ddl p) s = s"
| "batch_event bid (Delete p) s = s"
| "batch_event bid (Update p) s = s"
| "batch_event bid (Purge p) s = s"

lemma apply_record_batch:
  "bm_get (bm_states (apply_record r seq m)) bid = batch_event bid r (bm_get (bm_states m) bid)"
  by (cases r) (auto simp: with_state_def bm_simps Let_def split: option.split)

lemma replay_batch:
  "bm_get (bm_states (replay records m)) bid =
    fold (\<lambda>(seq, r). batch_event bid r) records (bm_get (bm_states m) bid)"
  by (induction records arbitrary: m) (auto simp: apply_record_batch)

lemma batch_event_other: "record_batch_id r \<noteq> Some bid \<Longrightarrow> batch_event bid r s = s"
  by (cases r) auto

lemma fold_own_events:
  "fold (\<lambda>(seq, r). batch_event bid r) records s =
    fold (\<lambda>(seq, r). batch_event bid r) (filter (\<lambda>(seq, r). record_batch_id r = Some bid) records) s"
  by (induction records arbitrary: s) (auto simp: batch_event_other)

text \<open>The state of a batch is decided by its own records. However the records of other batches, of
  data, of DDL and of DML are interleaved with them in the log, and whatever their sequence numbers,
  replay ends with the same state for the batch as replaying only the records that carry its id, in
  their order.\<close>

theorem replay_ignores_interleaving:
  assumes "map snd (filter (\<lambda>(seq, r). record_batch_id r = Some bid) log1) =
    map snd (filter (\<lambda>(seq, r). record_batch_id r = Some bid) log2)"
  shows "bm_get (bm_states (replay log1 batch_map_default)) bid =
    bm_get (bm_states (replay log2 batch_map_default)) bid"
proof -
  have seqs: "fold (\<lambda>(seq, r). batch_event bid r) xs s = fold (batch_event bid) (map snd xs) s"
    for xs :: "(nat \<times> wal_record) list" and s
    by (induction xs arbitrary: s) auto
  have "bm_get (bm_states (replay log batch_map_default)) bid =
      fold (batch_event bid) (map snd (filter (\<lambda>(seq, r). record_batch_id r = Some bid) log))
        (bm_get (bm_states batch_map_default) bid)" for log
    by (subst replay_batch, subst fold_own_events, rule seqs)
  with assms show ?thesis by simp
qed

theorem replay_ignores_interleaving_witness:
  "bm_get (bm_states (replay [(0, BatchAbort \<lparr>ba_batch_id = ''b''\<rparr>), (1, BatchCommitted \<lparr>bc_batch_id = ''a''\<rparr>)]
     batch_map_default)) ''a'' =
   bm_get (bm_states (replay [(5, BatchCommitted \<lparr>bc_batch_id = ''a''\<rparr>)] batch_map_default)) ''a''"
  by (rule replay_ignores_interleaving) simp

subsection \<open>Time out\<close>

lemma terminal_never_times_out: "is_terminal (bs_status s) \<Longrightarrow> \<not> is_timed_out s now timeout"
  by (simp add: is_timed_out_def)

lemma is_timed_out_mono: "is_timed_out s now timeout \<Longrightarrow> now \<le> later \<Longrightarrow> is_timed_out s later timeout"
  by (auto simp: is_timed_out_def)

end
