(* ===== verification/Wal_Recovery.thy ===== *)
theory Wal_Recovery
  imports Wal_Segment Wal_Batch
begin

text \<open>
  Recovery and the range reader (\<open>crates/wal/src/recovery.rs\<close>, \<open>crates/wal/src/reader.rs\<close>). A shard
  directory that does not exist is \<open>None\<close>. \<open>holds_log\<close> is the abstract content of a directory: a list of
  segments whose records are numbered consecutively; the lemmas compute what recovery and the reader
  return on such a directory from that list.
\<close>

subsection \<open>Recovery\<close>

record segment_info =
  si_name :: string
  si_seq_range :: "(nat \<times> nat) option"

record recovery =
  rv_last_seq :: nat
  rv_synced_seq :: nat
  rv_states :: batch_state_map
  rv_segments :: "segment_info list"
  rv_torn_write_detected :: bool

text \<open>The variables of the loop of \<open>recover\<close>.\<close>

record recover_acc =
  ra_first_first_seq :: "nat option"
  ra_synced_seq :: nat
  ra_found_any :: bool
  ra_torn :: bool
  ra_states :: batch_state_map
  ra_seg_infos :: "segment_info list"

definition acc_default :: recover_acc where
  "acc_default = \<lparr>ra_first_first_seq = None, ra_synced_seq = 0, ra_found_any = False, ra_torn = False,
     ra_states = batch_map_default, ra_seg_infos = []\<rparr>"

definition seq_range_of :: "(nat \<times> wal_record) list \<Rightarrow> (nat \<times> nat) option" where
  "seq_range_of records =
     (case map fst records of
        [] \<Rightarrow> None
      | s # ss \<Rightarrow> Some (fold min ss s, fold max ss s))"

definition recover_segment ::
  "bool \<Rightarrow> string \<Rightarrow> file_header \<Rightarrow> (nat \<times> wal_record) list \<Rightarrow> bool \<Rightarrow> recover_acc \<Rightarrow> recover_acc" where
  "recover_segment fast path header records complete acc =
     acc\<lparr>ra_first_first_seq := (case ra_first_first_seq acc of
           None \<Rightarrow> Some (fh_first_seq header) | Some s \<Rightarrow> Some s),
       ra_synced_seq := fold (\<lambda>(seq, _). max seq) records (ra_synced_seq acc),
       ra_found_any := (ra_found_any acc \<or> records \<noteq> []),
       ra_states := (if fast then ra_states acc else replay records (ra_states acc)),
       ra_seg_infos := ra_seg_infos acc @
         [\<lparr>si_name = path, si_seq_range = seq_range_of records\<rparr>],
       ra_torn := (ra_torn acc \<or> \<not> complete)\<rparr>"

fun recover_loop ::
  "wal_codecs \<Rightarrow> (bytes \<Rightarrow> nat) \<Rightarrow> bool \<Rightarrow> shard_dir \<Rightarrow> (nat \<times> string) list \<Rightarrow> recover_acc \<Rightarrow>
    lake_error + recover_acc" where
  "recover_loop cx crc fast d [] acc = Inr acc"
| "recover_loop cx crc fast d ((_, path) # rest) acc =
     (case load_segment cx crc path (file_of path d) of
        Inl (WalBadMagic p) \<Rightarrow> recover_loop cx crc fast d rest acc
      | Inl e \<Rightarrow> Inl (Wal e)
      | Inr (header, records, complete) \<Rightarrow>
          let acc' = recover_segment fast path header records complete acc in
          if complete then recover_loop cx crc fast d rest acc' else Inr acc')"

definition recover ::
  "wal_codecs \<Rightarrow> (bytes \<Rightarrow> nat) \<Rightarrow> bool \<Rightarrow> shard_dir option \<Rightarrow> lake_error + recovery" where
  "recover cx crc fast dir =
     (case dir of
        None \<Rightarrow> Inr \<lparr>rv_last_seq = 0, rv_synced_seq = 0, rv_states = batch_map_default, rv_segments = [],
          rv_torn_write_detected = False\<rparr>
      | Some d \<Rightarrow>
          and_then (recover_loop cx crc fast d (list_segments d) acc_default) (\<lambda>acc.
            Inr \<lparr>rv_last_seq = (if ra_found_any acc then ra_synced_seq acc + 1
                   else (case ra_first_first_seq acc of Some s \<Rightarrow> s | None \<Rightarrow> 0)),
              rv_synced_seq = ra_synced_seq acc, rv_states = ra_states acc,
              rv_segments = ra_seg_infos acc, rv_torn_write_detected = ra_torn acc\<rparr>))"

datatype recovery_action =
    RedoS3AndCommit
  | CommitOnly
  | CleanupOnly
  | Discard

fun recovery_action_of :: "batch_status \<Rightarrow> recovery_action" where
  "recovery_action_of Pending = RedoS3AndCommit"
| "recovery_action_of S3Written = CommitOnly"
| "recovery_action_of Committed = CleanupOnly"
| "recovery_action_of Abort = Discard"

text \<open>A batch covers a half-open range, a segment a closed one.\<close>

definition batch_touches :: "nat \<times> nat \<Rightarrow> batch_state \<Rightarrow> bool" where
  "batch_touches r st \<longleftrightarrow>
     fst (bs_wal_seq_range st) \<le> snd r \<and> snd (bs_wal_seq_range st) > fst r"

definition segment_batches ::
  "segment_info list \<Rightarrow> batch_state_map \<Rightarrow> (string, string list) bmap" where
  "segment_batches segs m =
     fold (\<lambda>seg acc.
         case si_seq_range seg of
           None \<Rightarrow> acc
         | Some r \<Rightarrow>
             fold (\<lambda>(bid, st) acc.
                 if batch_touches r st
                 then bm_insert (si_name seg)
                   ((case bm_get acc (si_name seg) of Some l \<Rightarrow> l | None \<Rightarrow> []) @ [bid]) acc
                 else acc)
               (bm_entries (bm_states m)) acc)
       segs bm_empty"

subsection \<open>The range reader\<close>

text \<open>The inner loop; the flag says that the scan has returned.\<close>

fun take_range ::
  "nat \<Rightarrow> nat \<Rightarrow> (nat \<times> wal_record) list \<Rightarrow> (nat \<times> wal_record) list \<Rightarrow> (nat \<times> wal_record) list \<times> bool" where
  "take_range lo hi [] out = (out, False)"
| "take_range lo hi ((seq, rec) # rs) out =
     (if seq < lo then take_range lo hi rs out
      else if seq \<ge> hi then (out, True)
      else take_range lo hi rs (out @ [(seq, rec)]))"

fun scan_loop ::
  "wal_codecs \<Rightarrow> (bytes \<Rightarrow> nat) \<Rightarrow> nat \<Rightarrow> nat \<Rightarrow> shard_dir \<Rightarrow> (nat \<times> string) list \<Rightarrow>
    (nat \<times> wal_record) list \<Rightarrow> lake_error + (nat \<times> wal_record) list" where
  "scan_loop cx crc lo hi d [] out = Inr out"
| "scan_loop cx crc lo hi d ((_, path) # rest) out =
     (case load_segment cx crc path (file_of path d) of
        Inl (WalBadMagic p) \<Rightarrow> scan_loop cx crc lo hi d rest out
      | Inl e \<Rightarrow> Inl (Wal e)
      | Inr (header, records, _) \<Rightarrow>
          let last_seq = (if records = [] then fh_first_seq header else fst (last records)) in
          if last_seq < lo then scan_loop cx crc lo hi d rest out
          else (case take_range lo hi records out of
                  (out', True) \<Rightarrow> Inr out'
                | (out', False) \<Rightarrow> scan_loop cx crc lo hi d rest out'))"

definition scan_range ::
  "wal_codecs \<Rightarrow> (bytes \<Rightarrow> nat) \<Rightarrow> nat \<Rightarrow> nat \<Rightarrow> shard_dir \<Rightarrow> lake_error + (nat \<times> wal_record) list" where
  "scan_range cx crc lo hi d =
     (if lo \<ge> hi then Inr [] else scan_loop cx crc lo hi d (list_segments d) [])"

definition scan_from ::
  "wal_codecs \<Rightarrow> (bytes \<Rightarrow> nat) \<Rightarrow> nat \<Rightarrow> shard_dir \<Rightarrow> lake_error + (nat \<times> wal_record) list" where
  "scan_from cx crc lo d = scan_range cx crc lo u64_max d"

subsection \<open>The abstract log of a directory\<close>

type_synonym segments = "(nat \<times> wal_record list) list"

text \<open>The files of the segments, each numbered on from the one before.\<close>

fun segments_stored ::
  "wal_codecs \<Rightarrow> (bytes \<Rightarrow> nat) \<Rightarrow> nat \<Rightarrow> nat \<Rightarrow> segments \<Rightarrow> shard_dir \<Rightarrow> bool" where
  "segments_stored cx crc shard first [] d = True"
| "segments_stored cx crc shard first ((n, rs) # segs) d =
     (bm_get (sd_files d) (segment_file_name n) =
        Some (segment_bytes cx crc \<lparr>fh_shard_id = shard, fh_first_seq = first\<rparr> rs) \<and>
      segments_stored cx crc shard (first + length rs) segs d)"

definition log_of :: "segments \<Rightarrow> wal_record list" where
  "log_of segs = concat (map snd segs)"

definition holds_log ::
  "wal_codecs \<Rightarrow> (bytes \<Rightarrow> nat) \<Rightarrow> nat \<Rightarrow> nat \<Rightarrow> segments \<Rightarrow> shard_dir \<Rightarrow> bool" where
  "holds_log cx crc shard first segs d \<longleftrightarrow>
     sorted_wrt (<) (map fst segs) \<and>
     list_segments d = map (\<lambda>(n, _). (n, segment_file_name n)) segs \<and>
     segments_stored cx crc shard first segs d \<and>
     list_all (writable cx crc) (log_of segs) \<and> shard < 2 ^ 64 \<and> first + length (log_of segs) < 2 ^ 64"

lemma log_of_simps [simp]:
  "log_of [] = []"
  "log_of ((n, rs) # segs) = rs @ log_of segs"
  "log_of (segs @ segs') = log_of segs @ log_of segs'"
  by (simp_all add: log_of_def)

subsection \<open>The reader on a stored log\<close>

lemma enumerate_Nil_iff [simp]: "enumerate n xs = [] \<longleftrightarrow> xs = []"
  by (cases xs) auto

lemma take_range_enumerate:
  "lo < hi \<Longrightarrow> take_range lo hi (enumerate n rs) out =
    (out @ filter (\<lambda>(s, _). lo \<le> s \<and> s < hi) (enumerate n rs), rs \<noteq> [] \<and> hi < n + length rs)"
proof (induction rs arbitrary: n out)
  case (Cons r rs)
  have past: "filter (\<lambda>(s, _). lo \<le> s \<and> s < hi) (enumerate (Suc n) rs) = []" if "hi \<le> n"
    using that by (auto simp: filter_empty_conv in_set_enumerate_eq)
  consider "n < lo" | "lo \<le> n" "n < hi" | "lo \<le> n" "hi \<le> n" by linarith
  then show ?case
  proof cases
    case 1
    with Cons.IH [OF Cons.prems, of "Suc n" out] Cons.prems show ?thesis by auto
  next
    case 2
    with Cons.IH [OF Cons.prems, of "Suc n" "out @ [(n, r)]"] show ?thesis by auto
  next
    case 3
    with past show ?thesis by simp
  qed
qed simp

lemma segments_stored_load:
  assumes "segments_stored cx crc shard first ((n, rs) # segs) d" "list_all (writable cx crc) rs"
    "shard < 2 ^ 64" "first < 2 ^ 64"
  shows "load_segment cx crc (segment_file_name n) (file_of (segment_file_name n) d) =
    Inr (\<lparr>fh_shard_id = shard, fh_first_seq = first\<rparr>, enumerate first rs, True)"
  using assms load_segment_bytes [of "\<lparr>fh_shard_id = shard, fh_first_seq = first\<rparr>" cx crc rs]
  by (simp add: file_of_def header_fits_def)

abbreviation seg_paths :: "segments \<Rightarrow> (nat \<times> string) list" where
  "seg_paths segs \<equiv> map (\<lambda>(n, _). (n, segment_file_name n)) segs"

lemma scan_loop_stored:
  assumes "segments_stored cx crc shard first segs d" "list_all (writable cx crc) (log_of segs)"
    "shard < 2 ^ 64" "first + length (log_of segs) < 2 ^ 64" "lo < hi"
  shows "scan_loop cx crc lo hi d (seg_paths segs) out =
    Inr (out @ filter (\<lambda>(s, _). lo \<le> s \<and> s < hi) (enumerate first (log_of segs)))"
  using assms
proof (induction segs arbitrary: first out)
  case (Cons seg segs)
  obtain n rs where seg: "seg = (n, rs)" by (cases seg)
  note load = segments_stored_load [OF Cons.prems(1) [unfolded seg]]
  have IH: "scan_loop cx crc lo hi d (seg_paths segs) out' =
      Inr (out' @ filter (\<lambda>(s, _). lo \<le> s \<and> s < hi) (enumerate (first + length rs) (log_of segs)))" for out'
    using Cons seg by auto
  have skip: "filter (\<lambda>(s, _). lo \<le> s \<and> s < hi) (enumerate first rs) = []"
    if "(if rs = [] then first else fst (last (enumerate first rs))) < lo"
  proof (cases "rs = []")
    case False
    then have "fst (last (enumerate first rs)) = first + length rs - 1"
      by (cases rs rule: rev_cases) (simp_all add: enumerate_append_eq)
    with that False show ?thesis by (auto simp: filter_empty_conv in_set_enumerate_eq)
  qed simp
  have past: "filter (\<lambda>(s, _). lo \<le> s \<and> s < hi) (enumerate (first + length rs) (log_of segs)) = []"
    if "hi < first + length rs"
    using that by (auto simp: filter_empty_conv in_set_enumerate_eq)
  from Cons.prems seg IH skip past show ?case
    by (auto simp: load take_range_enumerate enumerate_append_eq Let_def split: bool.split)
qed simp

lemma scan_range_log:
  assumes "holds_log cx crc shard first segs d"
  shows "scan_range cx crc lo hi d =
    Inr (filter (\<lambda>(s, _). lo \<le> s \<and> s < hi) (enumerate first (log_of segs)))"
proof (cases "lo < hi")
  case True
  with assms scan_loop_stored [of cx crc shard first segs d lo hi "[]"] show ?thesis
    by (simp add: scan_range_def holds_log_def)
next
  case False
  then have "filter (\<lambda>(s, _). lo \<le> s \<and> s < hi) xs = []" for xs :: "(nat \<times> wal_record) list"
    by (auto simp: filter_empty_conv)
  with False show ?thesis by (simp add: scan_range_def)
qed

subsection \<open>Recovery of a stored log\<close>

text \<open>The entries of the segments of a log.\<close>

fun segment_infos :: "nat \<Rightarrow> segments \<Rightarrow> segment_info list" where
  "segment_infos first [] = []"
| "segment_infos first ((n, rs) # segs) =
     \<lparr>si_name = segment_file_name n, si_seq_range = seq_range_of (enumerate first rs)\<rparr> #
       segment_infos (first + length rs) segs"

lemma fold_max_enumerate:
  "fold (\<lambda>(s, _). max s) (enumerate n rs) m = (if rs = [] then m else max m (n + length rs - 1))"
  by (induction rs arbitrary: n m) (auto simp: max_def)

lemma recover_loop_stored:
  assumes "segments_stored cx crc shard first segs d" "list_all (writable cx crc) (log_of segs)"
    "shard < 2 ^ 64" "first + length (log_of segs) < 2 ^ 64"
  shows "\<exists>acc'. recover_loop cx crc fast d (seg_paths segs) acc = Inr acc' \<and>
    ra_torn acc' = ra_torn acc \<and>
    ra_found_any acc' = (ra_found_any acc \<or> log_of segs \<noteq> []) \<and>
    ra_synced_seq acc' = fold (\<lambda>(s, _). max s) (enumerate first (log_of segs)) (ra_synced_seq acc) \<and>
    ra_first_first_seq acc' = (case ra_first_first_seq acc of
      None \<Rightarrow> if segs = [] then None else Some first | Some s \<Rightarrow> Some s) \<and>
    ra_states acc' = (if fast then ra_states acc else replay (enumerate first (log_of segs)) (ra_states acc)) \<and>
    ra_seg_infos acc' = ra_seg_infos acc @ segment_infos first segs"
  using assms
proof (induction segs arbitrary: first acc)
  case (Cons seg segs)
  obtain n rs where seg: "seg = (n, rs)" by (cases seg)
  note load = segments_stored_load [OF Cons.prems(1) [unfolded seg]]
  let ?acc = "recover_segment fast (segment_file_name n) \<lparr>fh_shard_id = shard, fh_first_seq = first\<rparr>
    (enumerate first rs) True acc"
  have "segments_stored cx crc shard (first + length rs) segs d" "list_all (writable cx crc) (log_of segs)"
    "first + length rs + length (log_of segs) < 2 ^ 64" "list_all (writable cx crc) rs" "first < 2 ^ 64"
    using Cons.prems seg by auto
  from Cons.IH [OF this(1,2) Cons.prems(3) this(3), of ?acc]
  obtain acc' where acc': "recover_loop cx crc fast d (seg_paths segs) ?acc = Inr acc'"
    "ra_torn acc' = ra_torn ?acc" "ra_found_any acc' = (ra_found_any ?acc \<or> log_of segs \<noteq> [])"
    "ra_synced_seq acc' = fold (\<lambda>(s, _). max s) (enumerate (first + length rs) (log_of segs)) (ra_synced_seq ?acc)"
    "ra_first_first_seq acc' = (case ra_first_first_seq ?acc of
      None \<Rightarrow> if segs = [] then None else Some (first + length rs) | Some s \<Rightarrow> Some s)"
    "ra_states acc' = (if fast then ra_states ?acc
      else replay (enumerate (first + length rs) (log_of segs)) (ra_states ?acc))"
    "ra_seg_infos acc' = ra_seg_infos ?acc @ segment_infos (first + length rs) segs"
    by blast
  have "recover_loop cx crc fast d (seg_paths (seg # segs)) acc = recover_loop cx crc fast d (seg_paths segs) ?acc"
    using \<open>list_all (writable cx crc) rs\<close> \<open>first < 2 ^ 64\<close> Cons.prems(3) by (simp add: seg load Let_def)
  with acc'(1) have "recover_loop cx crc fast d (seg_paths (seg # segs)) acc = Inr acc'" by simp
  then show ?case
    using acc'(2-7) by (intro exI [of _ acc'])
      (simp add: seg recover_segment_def enumerate_append_eq split: option.split)
qed (auto split: option.split)

lemma recover_log:
  assumes "holds_log cx crc shard first segs d"
  shows "\<exists>infos. recover cx crc fast (Some d) = Inr
    \<lparr>rv_last_seq = (if segs = [] then 0 else first + length (log_of segs)),
     rv_synced_seq = (if log_of segs = [] then 0 else first + length (log_of segs) - 1),
     rv_states = (if fast then batch_map_default
       else replay (enumerate first (log_of segs)) batch_map_default),
     rv_segments = infos, rv_torn_write_detected = False\<rparr>"
proof -
  have segs: "segs \<noteq> []" if "log_of segs \<noteq> []" using that by auto
  obtain acc' where "recover_loop cx crc fast d (seg_paths segs) acc_default = Inr acc'"
    "\<not> ra_torn acc'" "ra_found_any acc' = (log_of segs \<noteq> [])"
    "ra_synced_seq acc' = (if log_of segs = [] then 0 else first + length (log_of segs) - 1)"
    "ra_first_first_seq acc' = (if segs = [] then None else Some first)"
    "ra_states acc' = (if fast then batch_map_default
      else replay (enumerate first (log_of segs)) batch_map_default)"
    using assms recover_loop_stored [of cx crc shard first segs d fast acc_default]
    by (auto simp: holds_log_def acc_default_def fold_max_enumerate)
  with assms segs show ?thesis
    by (intro exI [of _ "ra_seg_infos acc'"]) (auto simp: recover_def holds_log_def)
qed

lemma recover_infos:
  assumes "holds_log cx crc shard first segs d" "recover cx crc fast (Some d) = Inr r"
  shows "rv_segments r = segment_infos first segs"
  using assms recover_loop_stored [of cx crc shard first segs d fast acc_default]
  by (auto simp: holds_log_def recover_def acc_default_def)

text \<open>C27: Recovery and the reader see the whole log. On a directory that holds the records
  \<open>log_of segs\<close> in segments numbered on from \<open>first\<close>, a full recovery rebuilds exactly the batch states of
  replaying them in order and reports no torn write; the next sequence number it hands out is one
  above every recorded one, so none is used twice; the fast recovery of the writer finds the same
  boundary; and the range reader returns exactly the records of the half-open range, in order.\<close>

theorem recovery_sees_whole_log:
  assumes "holds_log cx crc shard first segs d"
  shows "(\<exists>r. recover cx crc False (Some d) = Inr r \<and>
      rv_states r = replay (enumerate first (log_of segs)) batch_map_default \<and>
      \<not> rv_torn_write_detected r \<and>
      (segs \<noteq> [] \<longrightarrow> rv_last_seq r = first + length (log_of segs)) \<and>
      (\<exists>r'. recover cx crc True (Some d) = Inr r' \<and> rv_last_seq r' = rv_last_seq r \<and>
        rv_synced_seq r' = rv_synced_seq r)) \<and>
    scan_range cx crc lo hi d =
      Inr (filter (\<lambda>(s, _). lo \<le> s \<and> s < hi) (enumerate first (log_of segs)))"
  using recover_log [OF assms, of False] recover_log [OF assms, of True] scan_range_log [OF assms]
  by auto

text \<open>A directory with one segment of two records, for the witnesses.\<close>

definition demo_dir :: shard_dir where
  "demo_dir = \<lparr>sd_files = bm_insert (segment_file_name 1)
     (segment_bytes demo_wal demo_crc demo_header [demo_rec ''a'', demo_rec ''b'']) bm_empty,
     sd_current = Some (segment_file_name 1)\<rparr>"

lemma one_le_u64_max: "Suc 0 \<le> u64_max"
  by (simp add: u64_max_def)

lemma demo_holds: "holds_log demo_wal demo_crc 0 7 [(1, [demo_rec ''a'', demo_rec ''b''])] demo_dir"
proof -
  have "list_segments demo_dir = map (\<lambda>n. (n, segment_file_name n)) [1]"
    by (rule list_segments_eqI)
       (auto simp: demo_dir_def bm_simps one_le_u64_max split: if_splits)
  then show ?thesis
    by (simp add: holds_log_def demo_writable) (simp add: demo_dir_def bm_simps)
qed

theorem recovery_sees_whole_log_witness:
  "scan_range demo_wal demo_crc 8 9 demo_dir = Inr [(8, demo_rec ''b'')]"
  using recovery_sees_whole_log [OF demo_holds, of 8 9] by simp

subsection \<open>Where a recovered batch resumes\<close>

lemma recovered_state:
  assumes "holds_log cx crc shard first segs d" "recover cx crc False (Some d) = Inr r"
  shows "bm_get (bm_states (rv_states r)) bid =
    fold (batch_event bid) (filter (\<lambda>r. record_batch_id r = Some bid) (log_of segs)) None"
proof -
  have seqs: "fold (\<lambda>(seq, r). batch_event bid r) (enumerate n xs) s =
      fold (batch_event bid) (filter (\<lambda>r. record_batch_id r = Some bid) xs) s" for n xs s
    by (induction xs arbitrary: n s) (auto simp: batch_event_other)
  have "rv_states r = replay (enumerate first (log_of segs)) batch_map_default"
    using recover_log [OF assms(1), of False] assms(2) by auto
  then show ?thesis by (simp add: replay_batch seqs batch_map_default_def)
qed

text \<open>C28: After a crash every batch resumes where its own records left it, whatever else is in the log.
  A batch that only announced itself is encoded and uploaded again; one whose objects are written is
  only committed, with the recorded paths; one that committed is only cleaned up; and a batch whose
  last record is an abort is gone, so it is never resumed.\<close>

theorem recovery_resumes_batch:
  assumes "holds_log cx crc shard first segs d" "recover cx crc False (Some d) = Inr r"
    and "own = filter (\<lambda>r. record_batch_id r = Some bid) (log_of segs)"
    and "st = bm_get (bm_states (rv_states r)) bid"
  shows "(own = [BatchPending p] \<longrightarrow>
      map_option (recovery_action_of \<circ> bs_status) st = Some RedoS3AndCommit) \<and>
    (own = [BatchPending p, BatchS3Written w] \<longrightarrow>
      map_option (\<lambda>s. (recovery_action_of (bs_status s), bs_s3_paths s, bs_table s)) st =
        Some (CommitOnly, bw_s3_paths w, bp_table p)) \<and>
    (own = [BatchPending p, BatchS3Written w, BatchCommitted c] \<longrightarrow>
      map_option (recovery_action_of \<circ> bs_status) st = Some CleanupOnly) \<and>
    (own = [] \<or> own = earlier @ [BatchAbort a] \<longrightarrow> st = None)"
proof -
  have st: "st = fold (batch_event bid) own None"
    using recovered_state [OF assms(1,2)] assms(3,4) by simp
  have own: "record_batch_id x = Some bid" if "x \<in> set own" for x
    using that assms(3) by simp
  show ?thesis
    using own [of "BatchPending p"] own [of "BatchS3Written w"] own [of "BatchCommitted c"]
      own [of "BatchAbort a"]
    by (auto simp: st pending_state_def s3_written_state_def)
qed

text \<open>A batch that wrote its object, on a codec for its two records.\<close>

definition demo_pending :: batch_pending_payload where
  "demo_pending = \<lparr>bp_batch_id = ''z'', bp_shard = ''s'', bp_window = ''w'', bp_wal_seq_start = 0,
     bp_wal_seq_end = 3, bp_schema_version = 1, bp_client_request_id = [], bp_created_at_ms = 5,
     bp_row_count = 2, bp_table = ''t''\<rparr>"

definition demo_written :: batch_s3_written_payload where
  "demo_written = \<lparr>bw_batch_id = ''z'', bw_s3_paths = [''p''], bw_s3_upload_id = [], bw_file_size = 9\<rparr>"

definition demo_batch_wal :: wal_codecs where
  "demo_batch_wal = demo_wal\<lparr>wc_pending := (\<lambda>_. [], \<lambda>_. Inr demo_pending),
     wc_s3_written := (\<lambda>_. [], \<lambda>_. Inr demo_written)\<rparr>"

definition demo_batch_log :: "wal_record list" where
  "demo_batch_log = [BatchPending demo_pending, BatchS3Written demo_written]"

definition demo_batch_dir :: shard_dir where
  "demo_batch_dir = \<lparr>sd_files = bm_insert (segment_file_name 1)
     (segment_bytes demo_batch_wal demo_crc demo_header demo_batch_log) bm_empty,
     sd_current = Some (segment_file_name 1)\<rparr>"

lemma demo_batch_holds: "holds_log demo_batch_wal demo_crc 0 7 [(1, demo_batch_log)] demo_batch_dir"
proof -
  have "list_segments demo_batch_dir = map (\<lambda>n. (n, segment_file_name n)) [1]"
    by (rule list_segments_eqI)
       (auto simp: demo_batch_dir_def bm_simps one_le_u64_max split: if_splits)
  moreover have "list_all (writable demo_batch_wal demo_crc) demo_batch_log"
    by (simp add: demo_batch_log_def demo_batch_wal_def demo_wal_def writable_def record_crc_def demo_crc_def)
  ultimately show ?thesis
    by (simp add: holds_log_def) (simp add: demo_batch_dir_def demo_batch_log_def bm_simps)
qed

theorem recovery_resumes_batch_witness:
  "\<exists>r. recover demo_batch_wal demo_crc False (Some demo_batch_dir) = Inr r \<and>
    map_option (\<lambda>s. (recovery_action_of (bs_status s), bs_s3_paths s, bs_table s))
      (bm_get (bm_states (rv_states r)) ''z'') = Some (CommitOnly, [''p''], ''t'')"
proof -
  obtain r where r: "recover demo_batch_wal demo_crc False (Some demo_batch_dir) = Inr r"
    using recover_log [OF demo_batch_holds, of False] by auto
  have own: "[BatchPending demo_pending, BatchS3Written demo_written] =
      filter (\<lambda>r. record_batch_id r = Some ''z'') (log_of [(1::nat, demo_batch_log)])"
    by (simp add: demo_batch_log_def demo_pending_def demo_written_def)
  from recovery_resumes_batch [OF demo_batch_holds r own refl, of demo_pending demo_written] r
  show ?thesis by (simp add: demo_pending_def demo_written_def)
qed

end
