(* ===== verification/Wal_Writer.thy ===== *)
theory Wal_Writer
  imports Complex_Main Wal_Recovery
begin

text \<open>
  The group-commit writer (\<open>crates/wal/src/writer.rs\<close>): taking over a shard directory (\<open>wal_open\<close>:
  repair, fast recovery, active segment), one round of the commit loop (\<open>commit_group\<close>: rotation,
  append, fsync, water mark, acknowledgements) and the rotation of segments.

  One round is one step: the batch that the loop collected within its window is an argument, as are
  the clock and what the device does (\<open>commit_io\<close>). The shared counters and the state that the
  committer thread owns are one record, since only that thread writes them. The \<open>fsync_hook\<close> is a
  test hook and is left out.
\<close>

record wal_config =
  wf_segment_max_size :: nat
  wf_segment_max_age :: nat
  wf_batch_timeout :: nat
  wf_disk_high_watermark :: rat

record committer_guard =
  cg_writer :: segment_writer
  cg_seg_seq :: nat
  cg_next_seq :: nat

record wal_writer =
  ww_dir :: shard_dir
  ww_guard :: committer_guard
  ww_shard_id :: nat
  ww_synced_seq :: nat
  ww_next_seq :: nat
  ww_current_segment :: nat

text \<open>What the device does during one round: whether the fsync of a rotation succeeds, how many bytes it
  takes before a write fails, whether the fsync of the commit succeeds.\<close>

record commit_io =
  io_now :: nat
  io_rotate_sync_ok :: bool
  io_budget :: "nat option"
  io_sync_ok :: bool

record wal_ack =
  ak_seq :: nat
  ak_synced_seq :: nat

subsection \<open>Opening\<close>

fun repair_loop ::
  "wal_codecs \<Rightarrow> (bytes \<Rightarrow> nat) \<Rightarrow> (nat \<times> string) list \<Rightarrow> shard_dir \<Rightarrow> (lake_error + unit) \<times> shard_dir" where
  "repair_loop cx crc [] d = (Inr (), d)"
| "repair_loop cx crc ((_, path) # rest) d =
     (case repair_torn_tail cx crc path (file_of path d) of
        (Inr (Some _), data) \<Rightarrow>
          repair_loop cx crc rest (d\<lparr>sd_files := bm_insert path data (sd_files d)\<rparr>)
      | (Inr None, _) \<Rightarrow> repair_loop cx crc rest d
      | (Inl (WalBadMagic p), _) \<Rightarrow> repair_loop cx crc rest d
      | (Inl e, _) \<Rightarrow> (Inl (Wal e), d))"

definition repair_torn_tails ::
  "wal_codecs \<Rightarrow> (bytes \<Rightarrow> nat) \<Rightarrow> shard_dir \<Rightarrow> (lake_error + unit) \<times> shard_dir" where
  "repair_torn_tails cx crc d = repair_loop cx crc (list_segments d) d"

definition last_segment :: "shard_dir \<Rightarrow> (nat \<times> string) option" where
  "last_segment d = (if list_segments d = [] then None else Some (last (list_segments d)))"

text \<open>The segment named by \<open>CURRENT\<close> if it exists, else the last one.\<close>

definition active_target :: "shard_dir \<Rightarrow> lake_error + (nat \<times> string) option" where
  "active_target d =
     (case read_current d of
        None \<Rightarrow> Inr (last_segment d)
      | Some name \<Rightarrow>
          (case parse_segment_file_name name of
             None \<Rightarrow> Inl (Wal (CorruptedCurrent name))
           | Some n \<Rightarrow>
               Inr (if bm_has (sd_files d) name then Some (n, name) else last_segment d)))"

definition next_after :: "file_header \<Rightarrow> (nat \<times> wal_record) list \<Rightarrow> nat" where
  "next_after header records =
     (if records = [] then fh_first_seq header else fst (last records) + 1)"

definition open_active_segment ::
  "wal_codecs \<Rightarrow> (bytes \<Rightarrow> nat) \<Rightarrow> nat \<Rightarrow> nat \<Rightarrow> nat \<Rightarrow> shard_dir \<Rightarrow>
    (lake_error + committer_guard) \<times> shard_dir" where
  "open_active_segment cx crc now shard_id next_seq d =
     (case active_target d of
        Inl e \<Rightarrow> (Inl e, d)
      | Inr (Some (seg_seq, path)) \<Rightarrow>
          (case open_append path seg_seq now d of
             Inl e \<Rightarrow> (Inl (Wal (WalOther ''open segment'')), d)
           | Inr writer \<Rightarrow>
               let resume = (case load_segment cx crc path (file_of path d) of
                     Inr (header, records, _) \<Rightarrow> max (next_after header records) next_seq
                   | Inl _ \<Rightarrow> next_seq)
               in (Inr \<lparr>cg_writer = writer, cg_seg_seq = seg_seq, cg_next_seq = resume\<rparr>, d))
      | Inr None \<Rightarrow>
          (case segment_create 1 shard_id next_seq now d of
             (Inl e, d') \<Rightarrow> (Inl (Wal (WalOther ''create segment'')), d')
           | (Inr writer, d') \<Rightarrow>
               (Inr \<lparr>cg_writer = writer, cg_seg_seq = 1, cg_next_seq = next_seq\<rparr>,
                atomic_write_current (segment_file_name 1) d')))"

definition empty_dir :: shard_dir where
  "empty_dir = \<lparr>sd_files = bm_empty, sd_current = None\<rparr>"

definition wal_open ::
  "wal_codecs \<Rightarrow> (bytes \<Rightarrow> nat) \<Rightarrow> nat \<Rightarrow> nat \<Rightarrow> shard_dir option \<Rightarrow> lake_error + wal_writer" where
  "wal_open cx crc now shard_id dir =
     (let d = (case dir of Some d \<Rightarrow> d | None \<Rightarrow> empty_dir) in
      case repair_torn_tails cx crc d of
        (Inl e, _) \<Rightarrow> Inl e
      | (Inr _, d1) \<Rightarrow>
          and_then (recover cx crc True (Some d1)) (\<lambda>rec.
            case open_active_segment cx crc now shard_id (rv_last_seq rec) d1 of
              (Inl e, _) \<Rightarrow> Inl e
            | (Inr guard, d2) \<Rightarrow>
                Inr \<lparr>ww_dir = d2, ww_guard = guard, ww_shard_id = shard_id,
                  ww_synced_seq = rv_synced_seq rec, ww_next_seq = cg_next_seq guard,
                  ww_current_segment = cg_seg_seq guard\<rparr>))"

subsection \<open>Committing\<close>

definition rotate ::
  "nat \<Rightarrow> bool \<Rightarrow> wal_writer \<Rightarrow> (lake_error + unit) \<times> wal_writer" where
  "rotate now sync_ok w =
     (if \<not> sync_ok then (Inl (Io ''fsync''), w)
      else
        let g = ww_guard w; new_seq = cg_seg_seq g + 1 in
        case segment_create new_seq (ww_shard_id w) (cg_next_seq g) now (ww_dir w) of
          (Inl e, d) \<Rightarrow> (Inl (Wal (WalOther ''create segment'')), w\<lparr>ww_dir := d\<rparr>)
        | (Inr writer, d) \<Rightarrow>
            (Inr (), w\<lparr>ww_dir := atomic_write_current (segment_file_name new_seq) d,
               ww_guard := g\<lparr>cg_writer := writer, cg_seg_seq := new_seq\<rparr>\<rparr>))"

definition incoming_bytes :: "wal_codecs \<Rightarrow> wal_record list \<Rightarrow> nat" where
  "incoming_bytes cx records = sum_list (map (\<lambda>r. length (encode_payload cx r) + 9) records)"

text \<open>The append and the fsync of a round on the directory and the segment writer.\<close>

definition write_batch ::
  "wal_codecs \<Rightarrow> (bytes \<Rightarrow> nat) \<Rightarrow> commit_io \<Rightarrow> wal_record list \<Rightarrow> wal_writer \<Rightarrow>
    (lake_error + unit) \<times> wal_writer" where
  "write_batch cx crc io records w =
     (let g = ww_guard w in
      case append_batch cx crc (io_budget io) records 0 (cg_writer g) (ww_dir w) of
        (r, sw, d) \<Rightarrow>
          let w' = w\<lparr>ww_dir := d, ww_guard := g\<lparr>cg_writer := sw\<rparr>\<rparr> in
          (case r of
             Inl e \<Rightarrow> (Inl (Io e), w')
           | Inr _ \<Rightarrow> if io_sync_ok io then (Inr (), w') else (Inl (Io ''fsync''), w')))"

text \<open>One round for a non-empty batch: the reply to each request, and the state afterwards.\<close>

definition commit_group ::
  "wal_codecs \<Rightarrow> (bytes \<Rightarrow> nat) \<Rightarrow> wal_config \<Rightarrow> commit_io \<Rightarrow> wal_record list \<Rightarrow> wal_writer \<Rightarrow>
    (lake_error + wal_ack) list \<times> wal_writer" where
  "commit_group cx crc cfg io records w =
     (case (if should_rotate (cg_writer (ww_guard w)) (incoming_bytes cx records)
              (wf_segment_max_size cfg) (wf_segment_max_age cfg) (io_now io)
            then rotate (io_now io) (io_rotate_sync_ok io) w else (Inr (), w)) of
        (Inl e, w1) \<Rightarrow> (map (\<lambda>_. Inl e) records, w1)
      | (Inr _, w1) \<Rightarrow>
          let first_seq = cg_next_seq (ww_guard w1) in
          (case write_batch cx crc io records w1 of
             (Inl e, w2) \<Rightarrow>
               (map (\<lambda>_. Inl e) records,
                w2\<lparr>ww_guard := (ww_guard w2)\<lparr>cg_next_seq := first_seq\<rparr>\<rparr>)
           | (Inr _, w2) \<Rightarrow>
               let last_seq = first_seq + length records - 1;
                   g = (ww_guard w2)\<lparr>cg_next_seq := last_seq + 1\<rparr>
               in (map (\<lambda>i. Inr \<lparr>ak_seq = first_seq + i, ak_synced_seq = last_seq\<rparr>) [0..<length records],
                   w2\<lparr>ww_guard := g, ww_synced_seq := last_seq, ww_next_seq := cg_next_seq g,
                     ww_current_segment := cg_seg_seq g\<rparr>)))"

lemma commit_group_seg_seq:
  "cg_seg_seq (ww_guard (snd (commit_group cx crc cfg io new w))) \<le> Suc (cg_seg_seq (ww_guard w))"
  by (auto simp: commit_group_def rotate_def write_batch_def Let_def split: sum.splits prod.splits if_splits)

subsection \<open>The append loop\<close>

lemma extend_file_simps [simp]:
  "sd_current (extend_file p bs d) = sd_current d"
  "bm_get (sd_files (extend_file p bs d)) q =
    (if q = p then Some (file_of p d @ bs) else bm_get (sd_files d) q)"
  "file_of q (extend_file p bs d) = (if q = p then file_of p d @ bs else file_of q d)"
  by (simp_all add: extend_file_def file_of_def bm_simps)

lemma extend_file_twice: "extend_file p b (extend_file p a d) = extend_file p (a @ b) d"
  by (simp add: extend_file_def file_of_def bm_simps bm_eqI)

lemma extend_file_nothing: "bm_get (sd_files d) p \<noteq> None \<Longrightarrow> extend_file p [] d = d"
  by (auto simp: extend_file_def file_of_def intro!: shard_dir.equality bm_eqI simp: bm_simps)

lemma append_batch_unlimited:
  assumes "bm_get (sd_files d) (sw_path w) \<noteq> None"
  shows "append_batch cx crc None rs n w d =
    (Inr (n + length (encode_records cx crc rs)),
     w\<lparr>sw_bytes_written := sw_bytes_written w + length (encode_records cx crc rs)\<rparr>,
     extend_file (sw_path w) (encode_records cx crc rs) d)"
  using assms
proof (induction rs arbitrary: n w d)
  case (Cons r rs)
  then show ?case
    by (simp add: append_record_def Let_def extend_file_twice)
qed (simp add: extend_file_nothing)

lemma append_batch_limited:
  assumes "bm_get (sd_files d) (sw_path w) \<noteq> None"
  shows "\<exists>r w'. append_batch cx crc (Some b) rs n w d =
    (r, w', extend_file (sw_path w) (take b (encode_records cx crc rs)) d) \<and>
    sw_path w' = sw_path w \<and> (is_ok r \<longleftrightarrow> length (encode_records cx crc rs) \<le> b)"
  using assms
proof (induction rs arbitrary: n w d b)
  case (Cons r rs)
  let ?len = "length (encode_record cx crc r)"
  let ?w = "w\<lparr>sw_bytes_written := sw_bytes_written w + ?len\<rparr>"
  show ?case
  proof (cases "?len \<le> b")
    case True
    have "bm_get (sd_files (extend_file (sw_path w) (encode_record cx crc r) d)) (sw_path ?w) \<noteq> None" by simp
    from Cons.IH [OF this, of "b - ?len" "n + ?len"] True show ?thesis
      by (auto simp: append_record_def Let_def extend_file_twice take_append)
  next
    case False
    then show ?thesis by (auto simp: append_record_def Let_def take_append)
  qed
qed (auto simp: extend_file_nothing)

subsection \<open>Directories that change\<close>

lemma list_segments_cong:
  assumes "\<And>n. n \<le> u64_max \<Longrightarrow>
    bm_get (sd_files d) (segment_file_name n) = None \<longleftrightarrow> bm_get (sd_files d') (segment_file_name n) = None"
  shows "list_segments d' = list_segments d"
proof -
  have "list_segments d' = map (\<lambda>n. (n, segment_file_name n)) (map fst (list_segments d))"
  proof (rule list_segments_eqI)
    show "sorted_wrt (<) (map fst (list_segments d))"
      using list_segments_sorted list_segments_distinct by (simp add: strict_sorted_iff)
    show "n \<in> set (map fst (list_segments d)) \<longleftrightarrow>
        n \<le> u64_max \<and> bm_get (sd_files d') (segment_file_name n) \<noteq> None" for n
      using assms [of n] by (force simp: list_segments_set image_iff)
  qed
  then show ?thesis by (simp only: list_segments_fst [symmetric])
qed

lemma segments_stored_append:
  "segments_stored cx crc shard first (segs @ segs') d \<longleftrightarrow>
    segments_stored cx crc shard first segs d \<and>
    segments_stored cx crc shard (first + length (log_of segs)) segs' d"
  by (induction segs arbitrary: first) (auto simp: algebra_simps)

lemma segments_stored_cong:
  "(\<And>n. n \<in> fst ` set segs \<Longrightarrow>
      bm_get (sd_files d') (segment_file_name n) = bm_get (sd_files d) (segment_file_name n)) \<Longrightarrow>
    segments_stored cx crc shard first segs d' = segments_stored cx crc shard first segs d"
  by (induction segs arbitrary: first) auto

lemma holds_log_numbers:
  assumes "holds_log cx crc shard first segs d"
  shows "n \<in> fst ` set segs \<longleftrightarrow> n \<le> u64_max \<and> bm_get (sd_files d) (segment_file_name n) \<noteq> None"
proof -
  have "fst ` set segs = fst ` set (list_segments d)"
    using assms by (force simp: holds_log_def)
  then show ?thesis by (force simp: list_segments_set)
qed

lemma holds_log_earlier_less:
  assumes "holds_log cx crc shard first (earlier @ [(n, rs)]) d" "m \<in> fst ` set earlier"
  shows "m < n"
  using assms by (auto simp: holds_log_def sorted_wrt_append)

lemma holds_log_append:
  assumes "holds_log cx crc shard first (earlier @ [(n, rs)]) d" "list_all (writable cx crc) new"
    and "first + length (log_of (earlier @ [(n, rs)])) + length new < 2 ^ 64"
  shows "holds_log cx crc shard first (earlier @ [(n, rs @ new)])
    (extend_file (segment_file_name n) (encode_records cx crc new) d)"
proof -
  let ?p = "segment_file_name n" and ?d = "extend_file (segment_file_name n) (encode_records cx crc new) d"
  have num: "m \<in> fst ` set (earlier @ [(n, rs)]) \<longleftrightarrow> m \<le> u64_max \<and> bm_get (sd_files d) (segment_file_name m) \<noteq> None" for m
    by (rule holds_log_numbers [OF assms(1)])
  have less: "m < n" if "m \<in> fst ` set earlier" for m
    by (rule holds_log_earlier_less [OF assms(1) that])
  have "list_segments ?d = list_segments d"
    using num [of n] by (intro list_segments_cong) auto
  moreover have "segments_stored cx crc shard first earlier ?d = segments_stored cx crc shard first earlier d"
  proof (rule segments_stored_cong)
    fix m assume m: "m \<in> fst ` set earlier"
    then have "m \<le> u64_max" "n \<le> u64_max" "m \<noteq> n" using num [of m] num [of n] less [of m] by auto
    then show "bm_get (sd_files ?d) (segment_file_name m) = bm_get (sd_files d) (segment_file_name m)" by simp
  qed
  ultimately show ?thesis
    using assms by (auto simp: holds_log_def segments_stored_append file_of_def segment_bytes_append
        sorted_wrt_append)
qed

lemma holds_log_new_segment:
  assumes "holds_log cx crc shard first segs d" "\<forall>m \<in> fst ` set segs. m < n" "n \<le> u64_max"
  shows "\<exists>d'. segment_create n shard (first + length (log_of segs)) now d =
      (Inr \<lparr>sw_path = segment_file_name n, sw_seg_seq = n, sw_bytes_written = FILE_HEADER_SIZE,
         sw_created_at = now\<rparr>, d') \<and>
    sd_current d' = sd_current d \<and> holds_log cx crc shard first (segs @ [(n, [])]) d'"
proof -
  let ?p = "segment_file_name n"
  let ?d = "d\<lparr>sd_files := bm_insert ?p (header_encode \<lparr>fh_shard_id = shard,
    fh_first_seq = first + length (log_of segs)\<rparr>) (sd_files d)\<rparr>"
  have num: "m \<in> fst ` set segs \<longleftrightarrow> m \<le> u64_max \<and> bm_get (sd_files d) (segment_file_name m) \<noteq> None" for m
    by (rule holds_log_numbers [OF assms(1)])
  have fresh: "bm_get (sd_files d) ?p = None" using num [of n] assms(2,3) by auto
  have "segments_stored cx crc shard first segs ?d = segments_stored cx crc shard first segs d"
  proof (rule segments_stored_cong)
    fix m assume "m \<in> fst ` set segs"
    with num [of m] assms(2,3) have "m \<le> u64_max" "m \<noteq> n" by auto
    with assms(3) show "bm_get (sd_files ?d) (segment_file_name m) = bm_get (sd_files d) (segment_file_name m)"
      by (simp add: bm_simps)
  qed
  moreover have "list_segments ?d = map (\<lambda>n. (n, segment_file_name n)) (map fst segs @ [n])"
  proof (rule list_segments_eqI)
    show "sorted_wrt (<) (map fst segs @ [n])"
      using assms(1,2) by (auto simp: holds_log_def sorted_wrt_append)
    show "m \<in> set (map fst segs @ [n]) \<longleftrightarrow> m \<le> u64_max \<and> bm_get (sd_files ?d) (segment_file_name m) \<noteq> None" for m
      using num [of m] assms(3) by (auto simp: bm_simps)
  qed
  ultimately have "holds_log cx crc shard first (segs @ [(n, [])]) ?d"
    using assms by (auto simp: holds_log_def segments_stored_append segment_bytes_def bm_simps
        sorted_wrt_append case_prod_unfold)
  with fresh show ?thesis
    by (intro exI [of _ ?d]) (simp add: segment_create_def bm_has_def Let_def)
qed

lemma holds_log_current [simp]:
  "holds_log cx crc shard first segs (d\<lparr>sd_current := c\<rparr>) = holds_log cx crc shard first segs d"
proof -
  have "list_segments (d\<lparr>sd_current := c\<rparr>) = list_segments d" by (simp add: list_segments_def)
  moreover have "segments_stored cx crc shard first segs (d\<lparr>sd_current := c\<rparr>) =
      segments_stored cx crc shard first segs d"
    by (rule segments_stored_cong) simp
  ultimately show ?thesis by (simp add: holds_log_def)
qed

subsection \<open>The writer's invariant\<close>

text \<open>The directory holds the log, \<open>CURRENT\<close> and the writer agree on the last segment, and the next sequence
  number is the one after the log.\<close>

definition writer_inv ::
  "wal_codecs \<Rightarrow> (bytes \<Rightarrow> nat) \<Rightarrow> nat \<Rightarrow> segments \<Rightarrow> wal_writer \<Rightarrow> bool" where
  "writer_inv cx crc first segs w \<longleftrightarrow>
     segs \<noteq> [] \<and> holds_log cx crc (ww_shard_id w) first segs (ww_dir w) \<and>
     cg_seg_seq (ww_guard w) = fst (last segs) \<and>
     sw_path (cg_writer (ww_guard w)) = segment_file_name (fst (last segs)) \<and>
     sd_current (ww_dir w) = Some (segment_file_name (fst (last segs))) \<and>
     cg_next_seq (ww_guard w) = first + length (log_of segs)"

lemma writer_inv_last:
  assumes "writer_inv cx crc first segs w"
  obtains earlier n rs where "segs = earlier @ [(n, rs)]" "cg_seg_seq (ww_guard w) = n"
    "sw_path (cg_writer (ww_guard w)) = segment_file_name n" "n \<le> u64_max"
    "bm_get (sd_files (ww_dir w)) (segment_file_name n) \<noteq> None"
proof -
  obtain earlier n rs where segs: "segs = earlier @ [(n, rs)]"
    using assms by (metis writer_inv_def append_butlast_last_id surj_pair)
  moreover have "n \<in> fst ` set segs" by (simp add: segs)
  with holds_log_numbers [of cx crc "ww_shard_id w" first segs "ww_dir w" n] assms
  have "n \<le> u64_max" "bm_get (sd_files (ww_dir w)) (segment_file_name n) \<noteq> None"
    by (auto simp: writer_inv_def)
  ultimately show thesis using assms that by (simp add: writer_inv_def)
qed

lemma rotate_inv:
  assumes "writer_inv cx crc first segs w" "cg_seg_seq (ww_guard w) < u64_max"
  shows "\<exists>w'. rotate now True w = (Inr (), w') \<and>
    writer_inv cx crc first (segs @ [(Suc (cg_seg_seq (ww_guard w)), [])]) w' \<and>
    ww_shard_id w' = ww_shard_id w"
proof -
  obtain earlier n rs where w: "segs = earlier @ [(n, rs)]" "cg_seg_seq (ww_guard w) = n"
    by (rule writer_inv_last [OF assms(1)]) blast
  have holds: "holds_log cx crc (ww_shard_id w) first segs (ww_dir w)"
    using assms(1) by (simp add: writer_inv_def)
  have "\<forall>m \<in> fst ` set segs. m < Suc n"
    using holds_log_earlier_less [OF holds [unfolded w(1)]] w(1) by fastforce
  from holds_log_new_segment [OF holds this, of now] assms(2) w(2) obtain d' where d':
    "segment_create (Suc n) (ww_shard_id w) (first + length (log_of segs)) now (ww_dir w) =
      (Inr \<lparr>sw_path = segment_file_name (Suc n), sw_seg_seq = Suc n, sw_bytes_written = FILE_HEADER_SIZE,
         sw_created_at = now\<rparr>, d')"
    "holds_log cx crc (ww_shard_id w) first (segs @ [(Suc n, [])]) d'" by auto
  have seq: "cg_next_seq (ww_guard w) = first + length (log_of segs)"
    using assms(1) by (simp add: writer_inv_def)
  show ?thesis
    using d' by (simp add: rotate_def Let_def seq w(2) writer_inv_def atomic_write_current_def)
qed

text \<open>What the append and the fsync of a round leave: a prefix of the encoded batch at the end of the active
  file, all of it when they succeed.\<close>

lemma write_batch_effect:
  assumes "writer_inv cx crc first segs w" "write_batch cx crc io new w = (r, w')"
  shows "\<exists>b. ww_dir w' = extend_file (sw_path (cg_writer (ww_guard w)))
      (take b (encode_records cx crc new)) (ww_dir w) \<and>
    (is_ok r \<longrightarrow> length (encode_records cx crc new) \<le> b) \<and>
    sw_path (cg_writer (ww_guard w')) = sw_path (cg_writer (ww_guard w)) \<and>
    cg_seg_seq (ww_guard w') = cg_seg_seq (ww_guard w) \<and> ww_shard_id w' = ww_shard_id w"
proof -
  let ?sw = "cg_writer (ww_guard w)"
  have present: "bm_get (sd_files (ww_dir w)) (sw_path ?sw) \<noteq> None"
    by (rule writer_inv_last [OF assms(1)]) simp
  obtain res sw d where batch: "append_batch cx crc (io_budget io) new 0 ?sw (ww_dir w) = (res, sw, d)"
    using prod_cases3 by blast
  have "\<exists>b. d = extend_file (sw_path ?sw) (take b (encode_records cx crc new)) (ww_dir w) \<and>
      (is_ok res \<longrightarrow> length (encode_records cx crc new) \<le> b) \<and> sw_path sw = sw_path ?sw"
  proof (cases "io_budget io")
    case None
    then show ?thesis
      using append_batch_unlimited [OF present, of cx crc new 0] batch
      by (intro exI [of _ "length (encode_records cx crc new)"]) auto
  next
    case (Some b)
    then show ?thesis using append_batch_limited [OF present, of cx crc b new 0] batch by auto
  qed
  then obtain b where b: "d = extend_file (sw_path ?sw) (take b (encode_records cx crc new)) (ww_dir w)"
    "is_ok res \<longrightarrow> length (encode_records cx crc new) \<le> b" "sw_path sw = sw_path ?sw" by blast
  have w': "w' = w\<lparr>ww_dir := d, ww_guard := (ww_guard w)\<lparr>cg_writer := sw\<rparr>\<rparr>" and r: "is_ok r \<longrightarrow> is_ok res"
    using assms(2) by (auto simp: write_batch_def batch Let_def split: sum.splits if_splits)
  show ?thesis using b r by (intro exI [of _ b]) (simp add: w')
qed

lemma write_batch_ok:
  assumes "writer_inv cx crc first segs w" "io_budget io = None" "io_sync_ok io"
  shows "is_ok (fst (write_batch cx crc io new w))"
proof -
  have "bm_get (sd_files (ww_dir w)) (sw_path (cg_writer (ww_guard w))) \<noteq> None"
    by (rule writer_inv_last [OF assms(1)]) simp
  with assms(2,3) show ?thesis by (simp add: write_batch_def append_batch_unlimited Let_def)
qed

subsection \<open>Taking a directory over\<close>

lemma repair_loop_stored:
  assumes "segments_stored cx crc shard first segs d" "list_all (writable cx crc) (log_of segs)"
    "shard < 2 ^ 64" "first + length (log_of segs) < 2 ^ 64"
  shows "repair_loop cx crc (seg_paths segs @ rest) d = repair_loop cx crc rest d"
  using assms
proof (induction segs arbitrary: first)
  case (Cons seg segs)
  obtain n rs where seg: "seg = (n, rs)" by (cases seg)
  have "repair_torn_tail cx crc (segment_file_name n) (file_of (segment_file_name n) d) =
      (Inr None, file_of (segment_file_name n) d)"
    by (rule repair_core [OF segments_stored_load [OF Cons.prems(1) [unfolded seg]]])
       (use Cons.prems seg in auto)
  with Cons seg show ?case by auto
qed simp

lemma take_encode_records:
  "take (length (encode_records cx crc (take k rs))) (encode_records cx crc rs) = encode_records cx crc (take k rs)"
proof -
  have "encode_records cx crc rs = encode_records cx crc (take k rs) @ encode_records cx crc (drop k rs)"
    by (simp flip: encode_records_simps(3))
  then show ?thesis by simp
qed

lemma repair_torn_segment:
  assumes "header_fits h" "list_all (writable cx crc) rs" "FILE_HEADER_SIZE \<le> n"
  defines "k \<equiv> whole cx crc rs (n - FILE_HEADER_SIZE)"
  shows "\<exists>r. repair_torn_tail cx crc path (take n (segment_bytes cx crc h rs)) =
    (Inr r, segment_bytes cx crc h (take k rs))"
proof -
  let ?e = "encode_records cx crc rs" and ?b = "length (encode_records cx crc (take k rs))"
  have n: "22 \<le> n" using assms(3) by (simp add: FILE_HEADER_SIZE_def)
  then have data: "take n (segment_bytes cx crc h rs) = header_encode h @ take (n - 22) ?e"
    by (simp add: segment_bytes_def)
  have le: "?b \<le> n - 22"
    using whole_bounds [where rs = rs and n = "n - 22"] by (simp add: k_def FILE_HEADER_SIZE_def)
  have cut: "take ?b (take (n - 22) ?e) = encode_records cx crc (take k rs)"
    using le take_encode_records [of cx crc k rs] by (simp add: min_absorb1)
  have stop: "decode_with_stop cx crc h (header_encode h @ take (n - 22) ?e) =
      (enumerate (fh_first_seq h) (take k rs), 22 + ?b, min (n - 22) (length ?e) = ?b)"
    using decode_loop_prefix [OF assms(2), of "fh_first_seq h" 22 "n - 22"]
    by (simp add: decode_with_stop_def FILE_HEADER_SIZE_def k_def Let_def)
  let ?data = "header_encode h @ take (n - 22) ?e"
  have "\<exists>r. repair_torn_tail cx crc path ?data =
      (Inr r, if min (n - 22) (length ?e) = ?b then ?data else take (22 + ?b) ?data)"
    by (simp add: repair_torn_tail_def checked_header_encode [OF assms(1)] stop)
  moreover have "?data = segment_bytes cx crc h (take k rs)" if "min (n - 22) (length ?e) = ?b"
  proof -
    have "take (n - 22) ?e = encode_records cx crc (take k rs)"
      using cut that by (metis length_take min.commute order_refl take_all_iff)
    then show ?thesis by (simp add: segment_bytes_def)
  qed
  moreover have "take (22 + ?b) ?data = segment_bytes cx crc h (take k rs)"
    using cut by (simp add: segment_bytes_def)
  ultimately show ?thesis unfolding data by auto
qed

lemma repair_prefix:
  assumes "header_fits h" "list_all (writable cx crc) rs" "list_all (writable cx crc) new"
  shows "\<exists>k r. k \<le> length new \<and>
    repair_torn_tail cx crc path (segment_bytes cx crc h rs @ take b (encode_records cx crc new)) =
      (Inr r, segment_bytes cx crc h (rs @ take k new)) \<and>
    (length (encode_records cx crc new) \<le> b \<longrightarrow> k = length new)"
proof -
  let ?all = "rs @ new"
  let ?n = "length (segment_bytes cx crc h rs) + b"
  let ?m = "whole cx crc ?all (?n - FILE_HEADER_SIZE)"
  have data: "segment_bytes cx crc h rs @ take b (encode_records cx crc new) = take ?n (segment_bytes cx crc h ?all)"
    by (simp add: segment_bytes_append [symmetric])
  have ok: "list_all (writable cx crc) ?all" and len: "FILE_HEADER_SIZE \<le> ?n"
    using assms by (simp_all add: segment_bytes_def FILE_HEADER_SIZE_def)
  have m: "length rs \<le> ?m"
    by (rule whole_greatest) (simp_all add: segment_bytes_def FILE_HEADER_SIZE_def)
  have m': "?m \<le> length ?all"
    using whole_bounds [where rs = ?all] by simp
  have full: "?m = length ?all" if "length (encode_records cx crc new) \<le> b"
    using that by (intro whole_all) (simp add: segment_bytes_def FILE_HEADER_SIZE_def)
  have "take ?m ?all = rs @ take (?m - length rs) new" using m by simp
  with repair_torn_segment [OF assms(1) ok len, of path] m m' full show ?thesis
    unfolding data by (intro exI [of _ "?m - length rs"]) auto
qed

lemma extend_file_insert:
  "bm_insert p x (sd_files (extend_file p y d)) = bm_insert p x (sd_files d)"
  by (rule bm_eqI) (simp add: bm_simps)

lemma repair_torn_dir:
  assumes "holds_log cx crc shard first (earlier @ [(n, rs)]) d" "list_all (writable cx crc) kept"
    and "first + length (log_of (earlier @ [(n, rs)])) + length kept < 2 ^ 64"
    and "repair_torn_tail cx crc (segment_file_name n) (segment_bytes cx crc
        \<lparr>fh_shard_id = shard, fh_first_seq = first + length (log_of earlier)\<rparr> rs @ tail) =
      (Inr r, segment_bytes cx crc \<lparr>fh_shard_id = shard, fh_first_seq = first + length (log_of earlier)\<rparr>
        (rs @ kept))"
  shows "\<exists>d'. repair_torn_tails cx crc (extend_file (segment_file_name n) tail d) = (Inr (), d') \<and>
    sd_current d' = sd_current d \<and> holds_log cx crc shard first (earlier @ [(n, rs @ kept)]) d'"
proof -
  let ?p = "segment_file_name n"
  let ?d = "extend_file ?p tail d"
  let ?h = "\<lparr>fh_shard_id = shard, fh_first_seq = first + length (log_of earlier)\<rparr>"
  have num: "m \<in> fst ` set (earlier @ [(n, rs)]) \<longleftrightarrow> m \<le> u64_max \<and> bm_get (sd_files d) (segment_file_name m) \<noteq> None" for m
    by (rule holds_log_numbers [OF assms(1)])
  note parts = assms(1) [unfolded holds_log_def segments_stored_append]
  have stored: "bm_get (sd_files d) ?p = Some (segment_bytes cx crc ?h rs)" using parts by auto
  let ?d' = "extend_file ?p (encode_records cx crc kept) d"
  have names: "list_segments ?d = seg_paths earlier @ [(n, ?p)]"
    using num [of n] parts list_segments_cong [of d ?d] by auto
  have "segments_stored cx crc shard first earlier ?d = segments_stored cx crc shard first earlier d"
  proof (rule segments_stored_cong)
    fix m assume m: "m \<in> fst ` set earlier"
    with holds_log_earlier_less [OF assms(1) m] num [of m] num [of n]
    show "bm_get (sd_files ?d) (segment_file_name m) = bm_get (sd_files d) (segment_file_name m)" by auto
  qed
  with parts have loop: "repair_torn_tails cx crc ?d = repair_loop cx crc [(n, ?p)] ?d"
    unfolding repair_torn_tails_def names by (intro repair_loop_stored [of _ _ shard first]) auto
  have eq: "segment_bytes cx crc ?h (rs @ kept) = segment_bytes cx crc ?h rs @ encode_records cx crc kept"
    by (simp add: segment_bytes_append)
  have "repair_loop cx crc [(n, ?p)] ?d = (Inr (), ?d')"
  proof (cases r)
    case None
    then have "segment_bytes cx crc ?h rs @ tail = segment_bytes cx crc ?h (rs @ kept)"
      using assms(4) by (auto simp: repair_torn_tail_def split: sum.splits prod.splits if_splits)
    with None assms(4) eq show ?thesis by (simp add: file_of_def stored)
  next
    case (Some x)
    with assms(4) eq show ?thesis
      by (simp add: file_of_def stored extend_file_insert) (simp add: extend_file_def file_of_def stored)
  qed
  moreover from assms(1-3) have "holds_log cx crc shard first (earlier @ [(n, rs @ kept)]) ?d'"
    by (intro holds_log_append) auto
  ultimately show ?thesis using loop by (intro exI [of _ ?d']) simp
qed

lemma str_trim_segment_name: "n \<le> u64_max \<Longrightarrow> str_trim (segment_file_name n) = segment_file_name n"
proof -
  assume n: "n \<le> u64_max"
  have digits: "c \<in> set (dec_fixed 20 n) \<Longrightarrow> \<not> is_whitespace c" for c
    using dec_fixed_digits [of 20 n] by (auto simp: list_all_iff is_ascii_digit_def is_whitespace_def Let_def)
  have suffix: "c \<in> set ''.wal'' \<Longrightarrow> \<not> is_whitespace c" for c
    by (auto simp: is_whitespace_def)
  have skip: "dropWhile is_whitespace s = s" if "\<forall>c \<in> set s. \<not> is_whitespace c" for s
    using that by (cases s) auto
  have "\<forall>c \<in> set (segment_file_name n). \<not> is_whitespace c"
    using digits suffix by (auto simp: segment_name_fixed [OF n])
  with skip [of "segment_file_name n"] skip [of "rev (segment_file_name n)"]
  show ?thesis by (simp add: str_trim_def)
qed

lemma open_active_holds:
  assumes "holds_log cx crc shard first (earlier @ [(n, rs)]) d" "sd_current d = Some (segment_file_name n)"
  shows "\<exists>sw. open_active_segment cx crc now shard (first + length (log_of (earlier @ [(n, rs)]))) d =
      (Inr \<lparr>cg_writer = sw, cg_seg_seq = n, cg_next_seq = first + length (log_of (earlier @ [(n, rs)]))\<rparr>, d) \<and>
    sw_path sw = segment_file_name n"
proof -
  let ?p = "segment_file_name n"
  let ?first = "first + length (log_of earlier)"
  let ?h = "\<lparr>fh_shard_id = shard, fh_first_seq = ?first\<rparr>"
  note parts = assms(1) [unfolded holds_log_def segments_stored_append]
  have n: "n \<le> u64_max" using holds_log_numbers [OF assms(1), of n] by simp
  have stored: "bm_get (sd_files d) ?p = Some (segment_bytes cx crc ?h rs)" using parts by simp
  have "parse_segment_file_name ?p = Some n" using n by (simp add: segment_name_iff)
  with n stored have target: "active_target d = Inr (Some (n, ?p))"
    by (simp add: active_target_def read_current_def assms(2) str_trim_segment_name bm_has_def)
  have h: "header_fits ?h" and ok: "list_all (writable cx crc) rs" using parts by (auto simp: header_fits_def)
  have "open_append ?p n now d = Inr \<lparr>sw_path = ?p, sw_seg_seq = n,
      sw_bytes_written = length (segment_bytes cx crc ?h rs), sw_created_at = now\<rparr>"
    using header_roundtrip [OF h, of "[]"]
    by (simp add: open_append_def stored segment_bytes_def FILE_HEADER_SIZE_def)
  moreover have "load_segment cx crc ?p (file_of ?p d) = Inr (?h, enumerate ?first rs, True)"
    using load_segment_bytes [OF h ok] by (simp add: file_of_def stored)
  moreover have "next_after ?h (enumerate ?first rs) = ?first + length rs"
    by (cases rs rule: rev_cases) (auto simp: next_after_def enumerate_append_eq)
  ultimately show ?thesis by (simp add: open_active_segment_def target add.assoc)
qed

text \<open>Opening a directory whose last segment ends with bytes that the repair cuts back.\<close>

lemma wal_open_repaired:
  assumes "holds_log cx crc shard first (earlier @ [(n, rs)]) d" "sd_current d = Some (segment_file_name n)"
    and "list_all (writable cx crc) kept"
    and "first + length (log_of (earlier @ [(n, rs)])) + length kept < 2 ^ 64"
    and "repair_torn_tail cx crc (segment_file_name n) (segment_bytes cx crc
        \<lparr>fh_shard_id = shard, fh_first_seq = first + length (log_of earlier)\<rparr> rs @ tail) =
      (Inr r, segment_bytes cx crc \<lparr>fh_shard_id = shard, fh_first_seq = first + length (log_of earlier)\<rparr>
        (rs @ kept))"
  shows "\<exists>w. wal_open cx crc now shard (Some (extend_file (segment_file_name n) tail d)) = Inr w \<and>
    writer_inv cx crc first (earlier @ [(n, rs @ kept)]) w \<and> ww_shard_id w = shard"
proof -
  obtain d' where d': "repair_torn_tails cx crc (extend_file (segment_file_name n) tail d) = (Inr (), d')"
    "sd_current d' = sd_current d" "holds_log cx crc shard first (earlier @ [(n, rs @ kept)]) d'"
    using repair_torn_dir [OF assms(1,3,4,5)] by blast
  let ?segs = "earlier @ [(n, rs @ kept)]"
  obtain rv where rv: "recover cx crc True (Some d') = Inr rv" "rv_last_seq rv = first + length (log_of ?segs)"
    using recover_log [OF d'(3), of True] by auto
  obtain sw where "open_active_segment cx crc now shard (first + length (log_of ?segs)) d' =
      (Inr \<lparr>cg_writer = sw, cg_seg_seq = n, cg_next_seq = first + length (log_of ?segs)\<rparr>, d')"
    "sw_path sw = segment_file_name n"
    using open_active_holds [OF d'(3)] d'(2) assms(2) by auto
  with d' rv assms(2) show ?thesis by (auto simp: wal_open_def writer_inv_def)
qed

lemma holds_log_last:
  assumes "holds_log cx crc shard first (earlier @ [(n, rs)]) d"
  shows "header_fits \<lparr>fh_shard_id = shard, fh_first_seq = first + length (log_of earlier)\<rparr>"
    and "list_all (writable cx crc) rs"
  using assms by (auto simp: holds_log_def header_fits_def)

lemma wal_open_torn:
  assumes "holds_log cx crc shard first (earlier @ [(n, rs)]) d" "sd_current d = Some (segment_file_name n)"
    and "list_all (writable cx crc) new"
    and "first + length (log_of (earlier @ [(n, rs)])) + length new < 2 ^ 64"
  shows "\<exists>k w. k \<le> length new \<and>
    wal_open cx crc now shard
      (Some (extend_file (segment_file_name n) (take b (encode_records cx crc new)) d)) = Inr w \<and>
    writer_inv cx crc first (earlier @ [(n, rs @ take k new)]) w \<and> ww_shard_id w = shard \<and>
    (length (encode_records cx crc new) \<le> b \<longrightarrow> k = length new)"
proof -
  obtain k r where k: "k \<le> length new"
    "repair_torn_tail cx crc (segment_file_name n) (segment_bytes cx crc
        \<lparr>fh_shard_id = shard, fh_first_seq = first + length (log_of earlier)\<rparr> rs @
        take b (encode_records cx crc new)) =
      (Inr r, segment_bytes cx crc \<lparr>fh_shard_id = shard, fh_first_seq = first + length (log_of earlier)\<rparr>
        (rs @ take k new))"
    "length (encode_records cx crc new) \<le> b \<longrightarrow> k = length new"
    using repair_prefix [OF holds_log_last [OF assms(1)] assms(3)] by blast
  moreover have "list_all (writable cx crc) (take k new)"
    using assms(3) by (metis append_take_drop_id list_all_append)
  ultimately show ?thesis
    using wal_open_repaired [OF assms(1,2) _ _ k(2)] assms(4) by (intro exI [of _ k]) auto
qed

subsection \<open>Group commit\<close>

text \<open>The optional rotation that opens a round.\<close>

definition round_start :: "wal_codecs \<Rightarrow> wal_config \<Rightarrow> commit_io \<Rightarrow> wal_record list \<Rightarrow> wal_writer \<Rightarrow>
    (lake_error + unit) \<times> wal_writer" where
  "round_start cx cfg io records w =
     (if should_rotate (cg_writer (ww_guard w)) (incoming_bytes cx records)
           (wf_segment_max_size cfg) (wf_segment_max_age cfg) (io_now io)
      then rotate (io_now io) (io_rotate_sync_ok io) w else (Inr (), w))"

lemma round_start_inv:
  assumes "writer_inv cx crc first segs w" "cg_seg_seq (ww_guard w) < u64_max"
    and "round_start cx cfg io new w = (r, w1)"
  shows "\<exists>segs1. writer_inv cx crc first segs1 w1 \<and> log_of segs1 = log_of segs \<and>
    ww_shard_id w1 = ww_shard_id w \<and> (io_rotate_sync_ok io \<longrightarrow> is_ok r)"
proof -
  consider "r = Inr ()" "w1 = w" | "w1 = w" "\<not> io_rotate_sync_ok io"
    | "rotate (io_now io) True w = (r, w1)"
  proof (cases "round_start cx cfg io new w = (Inr (), w)")
    case True
    with assms(3) that(1) show ?thesis by simp
  next
    case False
    then have "rotate (io_now io) (io_rotate_sync_ok io) w = (r, w1)"
      using assms(3) by (simp add: round_start_def split: if_splits)
    then show ?thesis by (cases "io_rotate_sync_ok io") (use that in \<open>simp_all add: rotate_def\<close>)
  qed
  then show ?thesis
  proof cases
    case 3
    from rotate_inv [OF assms(1,2), of "io_now io"] 3 show ?thesis
      by (intro exI [of _ "segs @ [(Suc (cg_seg_seq (ww_guard w)), [])]"]) auto
  qed (use assms(1) in auto)
qed

text \<open>Every round leaves the log as it was with a prefix of the encoded batch behind it, all of it when a
  request was acknowledged.\<close>

lemma commit_group_leaves:
  assumes "writer_inv cx crc first segs w" "cg_seg_seq (ww_guard w) < u64_max"
  shows "\<exists>segs1 w1 b. writer_inv cx crc first segs1 w1 \<and> log_of segs1 = log_of segs \<and>
    ww_shard_id w1 = ww_shard_id w \<and>
    ww_dir (snd (commit_group cx crc cfg io new w)) =
      extend_file (sw_path (cg_writer (ww_guard w1))) (take b (encode_records cx crc new)) (ww_dir w1) \<and>
    ((\<exists>r \<in> set (fst (commit_group cx crc cfg io new w)). is_ok r) \<longrightarrow>
      length (encode_records cx crc new) \<le> b)"
proof -
  obtain r w1 where start: "round_start cx cfg io new w = (r, w1)" by force
  obtain segs1 where inv: "writer_inv cx crc first segs1 w1" "log_of segs1 = log_of segs" "ww_shard_id w1 = ww_shard_id w"
    using round_start_inv [OF assms start] by blast
  show ?thesis
  proof (cases r)
    case (Inl e)
    have "bm_get (sd_files (ww_dir w1)) (sw_path (cg_writer (ww_guard w1))) \<noteq> None"
      by (rule writer_inv_last [OF inv(1)]) simp
    with inv start Inl show ?thesis
      by (intro exI [of _ segs1] exI [of _ w1] exI [of _ 0])
         (auto simp: commit_group_def round_start_def [symmetric] extend_file_nothing)
  next
    case (Inr u)
    obtain r2 w2 where batch: "write_batch cx crc io new w1 = (r2, w2)" by force
    from write_batch_effect [OF inv(1) batch] obtain b where
      "ww_dir w2 = extend_file (sw_path (cg_writer (ww_guard w1))) (take b (encode_records cx crc new)) (ww_dir w1)"
      "is_ok r2 \<longrightarrow> length (encode_records cx crc new) \<le> b" by blast
    with inv start Inr batch show ?thesis
      by (intro exI [of _ segs1] exI [of _ w1] exI [of _ b])
         (cases r2; auto simp: commit_group_def round_start_def [symmetric] Let_def)
  qed
qed

lemma filter_enumerate_one:
  "i < length xs \<Longrightarrow> filter (\<lambda>(s, _). n + i \<le> s \<and> s < Suc (n + i)) (enumerate n xs) = [(n + i, xs ! i)]"
proof (induction xs arbitrary: n i)
  case (Cons x xs)
  show ?case
  proof (cases i)
    case 0
    then show ?thesis by (auto simp: filter_empty_conv in_set_enumerate_eq)
  next
    case (Suc j)
    with Cons.IH [of j "Suc n"] Cons.prems show ?thesis by simp
  qed
qed simp

lemma group_commit_core:
  assumes "writer_inv cx crc first segs w" "cg_seg_seq (ww_guard w) < u64_max"
    and "list_all (writable cx crc) new" "new \<noteq> []"
    and "first + length (log_of segs) + length new < 2 ^ 64"
    and "io_rotate_sync_ok io" "io_budget io = None" "io_sync_ok io"
    and "commit_group cx crc cfg io new w = (replies, w')"
  shows "(\<exists>segs'. writer_inv cx crc first segs' w' \<and> log_of segs' = log_of segs @ new) \<and>
    replies = map (\<lambda>i. Inr \<lparr>ak_seq = first + length (log_of segs) + i,
      ak_synced_seq = ww_synced_seq w'\<rparr>) [0..<length new] \<and>
    Suc (ww_synced_seq w') = first + length (log_of segs) + length new"
proof -
  obtain r w1 where start: "round_start cx cfg io new w = (r, w1)" by force
  obtain segs1 where inv: "writer_inv cx crc first segs1 w1" "log_of segs1 = log_of segs" "is_ok r"
    using round_start_inv [OF assms(1,2) start] assms(6) by blast
  obtain earlier n rs where last: "segs1 = earlier @ [(n, rs)]"
    "sw_path (cg_writer (ww_guard w1)) = segment_file_name n" "cg_seg_seq (ww_guard w1) = n"
    by (rule writer_inv_last [OF inv(1)]) blast
  obtain r2 w2 where batch: "write_batch cx crc io new w1 = (r2, w2)" by force
  have r2: "is_ok r2" using write_batch_ok [OF inv(1) assms(7,8), of new] batch by simp
  obtain b where w2: "ww_dir w2 = extend_file (segment_file_name n) (take b (encode_records cx crc new)) (ww_dir w1)"
    "length (encode_records cx crc new) \<le> b" "sw_path (cg_writer (ww_guard w2)) = segment_file_name n"
    "cg_seg_seq (ww_guard w2) = n" "ww_shard_id w2 = ww_shard_id w1"
    using write_batch_effect [OF inv(1) batch] r2 last by auto
  have log: "log_of segs = log_of earlier @ rs" using inv(2) last(1) by simp
  have seq: "cg_next_seq (ww_guard w1) = first + length (log_of segs)" using inv by (simp add: writer_inv_def)
  have commit: "replies = map (\<lambda>i. Inr \<lparr>ak_seq = first + length (log_of segs) + i, ak_synced_seq = ww_synced_seq w'\<rparr>)
      [0..<length new]" "ww_dir w' = ww_dir w2" "ww_shard_id w' = ww_shard_id w2"
    "ww_guard w' = (ww_guard w2)\<lparr>cg_next_seq := first + length (log_of segs) + length new\<rparr>"
    "Suc (ww_synced_seq w') = first + length (log_of segs) + length new"
    using assms(4,9) start batch inv(3) r2 seq
    by (cases r; cases r2; auto simp: commit_group_def round_start_def [symmetric] Let_def)+
  have "holds_log cx crc (ww_shard_id w1) first (earlier @ [(n, rs @ new)]) (ww_dir w2)"
    using inv assms(3,5) last w2(1,2) log
      holds_log_append [of cx crc "ww_shard_id w1" first earlier n rs "ww_dir w1" new]
    by (simp add: writer_inv_def)
  then have "writer_inv cx crc first (earlier @ [(n, rs @ new)]) w'"
    using inv(1) last w2 commit log by (simp add: writer_inv_def)
  moreover have "log_of (earlier @ [(n, rs @ new)]) = log_of segs @ new" using log by simp
  ultimately show ?thesis using commit(1,5) by blast
qed

text \<open>C26: A group commit is durable and numbered exactly. When the device works, every request of the
  batch is acknowledged with its own consecutive sequence number and the water mark of the whole batch;
  the log afterwards is the log before followed by the batch, in order, whether or not the segment was
  rotated; and the reader finds each acknowledged record under the number its client was given.\<close>

theorem group_commit_durable:
  assumes "writer_inv cx crc first segs w" "cg_seg_seq (ww_guard w) < u64_max"
    and "list_all (writable cx crc) new" "new \<noteq> []"
    and "first + length (log_of segs) + length new < 2 ^ 64"
    and "io_rotate_sync_ok io" "io_budget io = None" "io_sync_ok io"
    and "commit_group cx crc cfg io new w = (replies, w')"
  shows "(\<exists>segs'. writer_inv cx crc first segs' w' \<and> log_of segs' = log_of segs @ new) \<and>
    replies = map (\<lambda>i. Inr \<lparr>ak_seq = first + length (log_of segs) + i,
      ak_synced_seq = ww_synced_seq w'\<rparr>) [0..<length new] \<and>
    Suc (ww_synced_seq w') = first + length (log_of segs) + length new \<and>
    (\<forall>i < length new. scan_range cx crc (first + length (log_of segs) + i)
      (first + length (log_of segs) + i + 1) (ww_dir w') = Inr [(first + length (log_of segs) + i, new ! i)])"
proof -
  note core = group_commit_core [OF assms]
  then obtain segs' where segs': "writer_inv cx crc first segs' w'" "log_of segs' = log_of segs @ new" by blast
  then have "holds_log cx crc (ww_shard_id w') first segs' (ww_dir w')" by (simp add: writer_inv_def)
  from scan_range_log [OF this] segs'(2)
  have "\<forall>i < length new. scan_range cx crc (first + length (log_of segs) + i)
      (first + length (log_of segs) + i + 1) (ww_dir w') = Inr [(first + length (log_of segs) + i, new ! i)]"
    using filter_enumerate_one [of "length (log_of segs) + i" "log_of segs @ new" first for i]
    by (simp add: add.assoc nth_append)
  with core show ?thesis by blast
qed


subsection \<open>A new log\<close>

definition fresh_dir :: "nat \<Rightarrow> shard_dir" where
  "fresh_dir shard = \<lparr>sd_files = bm_insert (segment_file_name 1)
       (header_encode \<lparr>fh_shard_id = shard, fh_first_seq = 0\<rparr>) bm_empty,
     sd_current = Some (segment_file_name 1)\<rparr>"

definition fresh_writer :: "nat \<Rightarrow> nat \<Rightarrow> wal_writer" where
  "fresh_writer shard now =
     \<lparr>ww_dir = fresh_dir shard,
      ww_guard = \<lparr>cg_writer = \<lparr>sw_path = segment_file_name 1, sw_seg_seq = 1,
          sw_bytes_written = FILE_HEADER_SIZE, sw_created_at = now\<rparr>, cg_seg_seq = 1, cg_next_seq = 0\<rparr>,
      ww_shard_id = shard, ww_synced_seq = 0, ww_next_seq = 0, ww_current_segment = 1\<rparr>"

lemma list_segments_empty [simp]: "list_segments empty_dir = []"
proof -
  have "list_segments empty_dir = map (\<lambda>n. (n, segment_file_name n)) []"
    by (rule list_segments_eqI) (simp_all add: empty_dir_def)
  then show ?thesis by simp
qed

lemma empty_dir_fields [simp]: "sd_files empty_dir = bm_empty" "sd_current empty_dir = None"
  by (simp_all add: empty_dir_def)

lemma wal_open_new: "wal_open cx crc now shard None = Inr (fresh_writer shard now)"
proof -
  have "active_target empty_dir = Inr None"
    by (simp add: active_target_def read_current_def last_segment_def)
  moreover have "recover cx crc True (Some empty_dir) =
      Inr \<lparr>rv_last_seq = 0, rv_synced_seq = 0, rv_states = batch_map_default, rv_segments = [],
        rv_torn_write_detected = False\<rparr>"
    by (simp add: recover_def acc_default_def)
  moreover have "empty_dir\<lparr>sd_files := a, sd_current := b\<rparr> = \<lparr>sd_files = a, sd_current = b\<rparr>" for a b
    by (simp add: empty_dir_def)
  ultimately show ?thesis
    by (simp add: wal_open_def repair_torn_tails_def open_active_segment_def segment_create_def bm_has_def
        atomic_write_current_def fresh_writer_def fresh_dir_def Let_def)
qed

lemma fresh_inv: "shard < 2 ^ 64 \<Longrightarrow> writer_inv cx crc 0 [(1, [])] (fresh_writer shard now)"
proof -
  assume shard: "shard < 2 ^ 64"
  have "list_segments (fresh_dir shard) = map (\<lambda>n. (n, segment_file_name n)) [1]"
    by (rule list_segments_eqI) (auto simp: fresh_dir_def bm_simps one_le_u64_max split: if_splits)
  with shard show ?thesis
    by (simp add: writer_inv_def fresh_writer_def holds_log_def) (simp add: fresh_dir_def bm_simps segment_bytes_def)
qed

definition demo_config :: wal_config where
  "demo_config = \<lparr>wf_segment_max_size = 64, wf_segment_max_age = 1000, wf_batch_timeout = 1000,
     wf_disk_high_watermark = 4 / 5\<rparr>"

definition io_fine :: "nat \<Rightarrow> commit_io" where
  "io_fine now = \<lparr>io_now = now, io_rotate_sync_ok = True, io_budget = None, io_sync_ok = True\<rparr>"

definition io_fails_at :: "nat \<Rightarrow> commit_io" where
  "io_fails_at b = \<lparr>io_now = 0, io_rotate_sync_ok = True, io_budget = Some b, io_sync_ok = True\<rparr>"

theorem group_commit_durable_witness:
  "\<exists>w w'. wal_open demo_wal demo_crc 0 0 None = Inr w \<and>
    commit_group demo_wal demo_crc demo_config (io_fine 0) [demo_rec ''a'', demo_rec ''b''] w =
      ([Inr \<lparr>ak_seq = 0, ak_synced_seq = 1\<rparr>, Inr \<lparr>ak_seq = 1, ak_synced_seq = 1\<rparr>], w') \<and>
    scan_range demo_wal demo_crc 1 2 (ww_dir w') = Inr [(1, demo_rec ''b'')]"
proof -
  let ?new = "[demo_rec ''a'', demo_rec ''b'']"
  obtain rs w' where c: "commit_group demo_wal demo_crc demo_config (io_fine 0) ?new (fresh_writer 0 0) = (rs, w')"
    by force
  have pre: "writer_inv demo_wal demo_crc 0 [(1, [])] (fresh_writer 0 0)" by (rule fresh_inv) simp
  have small: "cg_seg_seq (ww_guard (fresh_writer 0 0)) < u64_max" by (simp add: fresh_writer_def u64_max_def)
  have ok: "list_all (writable demo_wal demo_crc) ?new" "?new \<noteq> []" by (simp_all add: demo_writable)
  have room: "0 + length (log_of [(1::nat, [])]) + length ?new < 2 ^ 64"
    and io: "io_rotate_sync_ok (io_fine 0)" "io_budget (io_fine 0) = None" "io_sync_ok (io_fine 0)"
    by (simp_all add: io_fine_def)
  note all = group_commit_durable [OF pre small ok room io c]
  then have "ww_synced_seq w' = 1" by simp
  with all have "rs = [Inr \<lparr>ak_seq = 0, ak_synced_seq = 1\<rparr>, Inr \<lparr>ak_seq = 1, ak_synced_seq = 1\<rparr>]" by simp
  moreover have "scan_range demo_wal demo_crc 1 2 (ww_dir w') = Inr [(1, demo_rec ''b'')]"
    using all [THEN conjunct2, THEN conjunct2, THEN conjunct2, rule_format, of 1]
    by (simp add: numeral_2_eq_2)
  ultimately show ?thesis using c by (simp add: wal_open_new)
qed


subsection \<open>Two ways to lose the log's service\<close>

text \<open>Bytes at which the decoder stops at once.\<close>

definition undecodable :: "wal_codecs \<Rightarrow> (bytes \<Rightarrow> nat) \<Rightarrow> bytes \<Rightarrow> bool" where
  "undecodable cx crc t \<longleftrightarrow> (\<forall>seq pos. decode_loop cx crc seq pos t = ([], pos, False))"

lemma repair_undecodable:
  assumes "header_fits h" "list_all (writable cx crc) rs" "undecodable cx crc t"
  shows "\<exists>r. repair_torn_tail cx crc path (segment_bytes cx crc h rs @ t) =
    (Inr r, segment_bytes cx crc h (rs @ []))"
proof -
  have "decode_with_stop cx crc h (segment_bytes cx crc h rs @ t) =
      (enumerate (fh_first_seq h) rs, length (segment_bytes cx crc h rs), False)"
    using decode_loop_records [OF assms(2), of "fh_first_seq h" 22 t] assms(3)
    by (simp add: decode_with_stop_def segment_bytes_def FILE_HEADER_SIZE_def undecodable_def)
  moreover have "checked_header path (segment_bytes cx crc h rs @ t) = Inr h"
    using checked_header_encode [OF assms(1), of path "encode_records cx crc rs @ t"]
    by (simp add: segment_bytes_def)
  ultimately show ?thesis by (simp add: repair_torn_tail_def)
qed

lemma commit_group_no_rotate:
  assumes "bm_get (sd_files (ww_dir w)) (sw_path (cg_writer (ww_guard w))) \<noteq> None"
    and "\<not> should_rotate (cg_writer (ww_guard w)) (incoming_bytes cx new) (wf_segment_max_size cfg)
      (wf_segment_max_age cfg) (io_now io)"
    and "commit_group cx crc cfg io new w = (replies, w')"
  shows "io_budget io = Some b \<Longrightarrow> b < length (encode_records cx crc new) \<Longrightarrow>
      ww_dir w' = extend_file (sw_path (cg_writer (ww_guard w))) (take b (encode_records cx crc new)) (ww_dir w) \<and>
      sw_path (cg_writer (ww_guard w')) = sw_path (cg_writer (ww_guard w)) \<and>
      (\<forall>r \<in> set replies. \<not> is_ok r)"
    and "io_budget io = None \<Longrightarrow> io_sync_ok io \<Longrightarrow>
      ww_dir w' = extend_file (sw_path (cg_writer (ww_guard w))) (encode_records cx crc new) (ww_dir w) \<and>
      (\<forall>r \<in> set replies. is_ok r)"
proof -
  show "ww_dir w' = extend_file (sw_path (cg_writer (ww_guard w))) (take b (encode_records cx crc new)) (ww_dir w) \<and>
      sw_path (cg_writer (ww_guard w')) = sw_path (cg_writer (ww_guard w)) \<and> (\<forall>r \<in> set replies. \<not> is_ok r)"
    if b: "io_budget io = Some b" "b < length (encode_records cx crc new)"
  proof -
    obtain r sw where batch: "append_batch cx crc (Some b) new 0 (cg_writer (ww_guard w)) (ww_dir w) =
        (r, sw, extend_file (sw_path (cg_writer (ww_guard w))) (take b (encode_records cx crc new)) (ww_dir w))"
      "sw_path sw = sw_path (cg_writer (ww_guard w))" "\<not> is_ok r"
      using append_batch_limited [OF assms(1), of cx crc b new 0] b(2) by auto
    then obtain e where "r = Inl e" by (cases r) auto
    with batch b(1) assms(2,3) show ?thesis by (auto simp: commit_group_def write_batch_def Let_def)
  qed
  show "ww_dir w' = extend_file (sw_path (cg_writer (ww_guard w))) (encode_records cx crc new) (ww_dir w) \<and>
      (\<forall>r \<in> set replies. is_ok r)" if "io_budget io = None" "io_sync_ok io"
    using that assms(2,3) append_batch_unlimited [OF assms(1), of cx crc new 0]
    by (auto simp: commit_group_def write_batch_def Let_def)
qed

text \<open>A failed write that leaves part of a record behind makes later commits of the same process
  lost on restart. The round that fails reports an error to its clients, and the loop goes on; the next
  round is acknowledged; but if the leftover bytes followed by its records do not decode, which is what
  a checksum is for, then opening the directory succeeds and the log is the one before both rounds: the
  acknowledged records are cut off with the leftover.\<close>

theorem failed_write_loses_later_commits:
  assumes "writer_inv cx crc first segs w" "0 < b" "b < length (encode_records cx crc lost)"
    and "io_budget io1 = Some b" "io_budget io2 = None" "io_sync_ok io2"
    and "commit_group cx crc cfg io1 lost w = (replies1, w1)"
    and "commit_group cx crc cfg io2 new w1 = (replies2, w2)"
    and "\<not> should_rotate (cg_writer (ww_guard w)) (incoming_bytes cx lost) (wf_segment_max_size cfg)
      (wf_segment_max_age cfg) (io_now io1)"
    and "\<not> should_rotate (cg_writer (ww_guard w1)) (incoming_bytes cx new) (wf_segment_max_size cfg)
      (wf_segment_max_age cfg) (io_now io2)"
    and "undecodable cx crc (take b (encode_records cx crc lost) @ encode_records cx crc new)"
  shows "(\<forall>r \<in> set replies1. \<not> is_ok r) \<and> (\<forall>r \<in> set replies2. is_ok r) \<and>
    (\<exists>w3. wal_open cx crc now (ww_shard_id w) (Some (ww_dir w2)) = Inr w3 \<and> writer_inv cx crc first segs w3)"
proof -
  obtain earlier n rs where last: "segs = earlier @ [(n, rs)]"
    "sw_path (cg_writer (ww_guard w)) = segment_file_name n"
    "bm_get (sd_files (ww_dir w)) (segment_file_name n) \<noteq> None"
    by (rule writer_inv_last [OF assms(1)]) blast
  have r1: "ww_dir w1 = extend_file (segment_file_name n) (take b (encode_records cx crc lost)) (ww_dir w)"
    "sw_path (cg_writer (ww_guard w1)) = segment_file_name n" "\<forall>r \<in> set replies1. \<not> is_ok r"
    using commit_group_no_rotate(1) [OF _ assms(9,7,4,3)] last by simp_all
  have r2: "ww_dir w2 = extend_file (segment_file_name n)
      (take b (encode_records cx crc lost) @ encode_records cx crc new) (ww_dir w)" "\<forall>r \<in> set replies2. is_ok r"
    using commit_group_no_rotate(2) [OF _ assms(10,8,5,6)] r1 by (simp_all add: extend_file_twice)
  have holds: "holds_log cx crc (ww_shard_id w) first (earlier @ [(n, rs)]) (ww_dir w)"
    "sd_current (ww_dir w) = Some (segment_file_name n)" "first + length (log_of (earlier @ [(n, rs)])) < 2 ^ 64"
    using assms(1) last(1) by (simp_all add: writer_inv_def holds_log_def)
  obtain r where "repair_torn_tail cx crc (segment_file_name n) (segment_bytes cx crc
        \<lparr>fh_shard_id = ww_shard_id w, fh_first_seq = first + length (log_of earlier)\<rparr> rs @
        (take b (encode_records cx crc lost) @ encode_records cx crc new)) =
      (Inr r, segment_bytes cx crc \<lparr>fh_shard_id = ww_shard_id w, fh_first_seq = first + length (log_of earlier)\<rparr>
        (rs @ []))"
    using repair_undecodable [OF holds_log_last [OF holds(1)] assms(11)] by blast
  from wal_open_repaired [OF holds(1,2) _ _ this, of now] holds(3) last(1) r1(3) r2
  show ?thesis by auto
qed

lemma le_bytes_4:
  "le_bytes 4 n = [of_nat n, of_nat (n div 256), of_nat (n div 256 div 256), of_nat (n div 256 div 256 div 256)]"
proof -
  have "4 = Suc (Suc (Suc (Suc 0)))" by simp
  then show ?thesis by (simp only: le_bytes.simps)
qed

lemma demo_encoded:
  "encode_record demo_wal demo_crc (demo_rec ''a'') = [1, 0, 0, 0, 100, 0, 0, 0, 3, 97]"
  "encode_record demo_wal demo_crc (demo_rec ''x'') = [1, 0, 0, 0, 123, 0, 0, 0, 3, 120]"
proof -
  have le: "le_bytes 4 1 = [1, 0, 0, 0]" "le_bytes 4 100 = [100, 0, 0, 0]" "le_bytes 4 123 = [123, 0, 0, 0]"
    by (simp_all add: le_bytes_4)
  have p: "encode_payload demo_wal (demo_rec ''a'') = [97]" "encode_payload demo_wal (demo_rec ''x'') = [120]"
    by (simp_all add: demo_wal_def demo_rec_def)
  have "record_crc demo_crc 3 [97] = 100" "record_crc demo_crc 3 [120] = 123"
    by (simp_all add: record_crc_def demo_crc_def)
  with le p show "encode_record demo_wal demo_crc (demo_rec ''a'') = [1, 0, 0, 0, 100, 0, 0, 0, 3, 97]"
    "encode_record demo_wal demo_crc (demo_rec ''x'') = [1, 0, 0, 0, 123, 0, 0, 0, 3, 120]"
    by (simp_all add: encode_record_def demo_rec_def)
qed

lemma demo_undecodable: "undecodable demo_wal demo_crc [1, 0, 0, 0, 1, 0, 0, 0, 123, 0, 0, 0, 3, 120]"
  unfolding undecodable_def
  by (subst decode_loop.simps) (simp add: RECORD_HEADER_SIZE_def slice_def record_crc_def demo_crc_def Let_def)

theorem failed_write_loses_later_commits_witness:
  "\<exists>w1 w2 w3. commit_group demo_wal demo_crc demo_config (io_fails_at 4) [demo_rec ''a''] (fresh_writer 0 0) =
      ([Inl (Io ''write failed'')], w1) \<and>
    commit_group demo_wal demo_crc demo_config (io_fine 0) [demo_rec ''x''] w1 =
      ([Inr \<lparr>ak_seq = 0, ak_synced_seq = 0\<rparr>], w2) \<and>
    wal_open demo_wal demo_crc 9 0 (Some (ww_dir w2)) = Inr w3 \<and>
    writer_inv demo_wal demo_crc 0 [(1, [])] w3"
proof -
  let ?w = "fresh_writer 0 0"
  obtain r1 w1 where c1: "commit_group demo_wal demo_crc demo_config (io_fails_at 4) [demo_rec ''a''] ?w = (r1, w1)"
    by force
  obtain r2 w2 where c2: "commit_group demo_wal demo_crc demo_config (io_fine 0) [demo_rec ''x''] w1 = (r2, w2)"
    by force
  have len: "length (encode_payload demo_wal (demo_rec s)) = length s" for s
    by (simp add: demo_rec_def demo_wal_def)
  have quiet: "\<not> should_rotate (cg_writer (ww_guard w)) (incoming_bytes demo_wal [demo_rec s])
      (wf_segment_max_size demo_config) (wf_segment_max_age demo_config) 0"
    if "sw_bytes_written (cg_writer (ww_guard w)) = 22" "length s = 1" for w s
    using that by (simp add: should_rotate_def incoming_bytes_def demo_config_def len)
  have w: "sw_bytes_written (cg_writer (ww_guard ?w)) = 22"
    by (simp add: fresh_writer_def FILE_HEADER_SIZE_def)
  have "commit_group demo_wal demo_crc demo_config (io_fails_at 4) [demo_rec ''a''] ?w =
      ([Inl (Io ''write failed'')], w1)" and w1: "sw_bytes_written (cg_writer (ww_guard w1)) = 22"
    "cg_next_seq (ww_guard w1) = 0"
    using c1 w quiet [OF w, of "''a''"]
    by (auto simp: commit_group_def io_fails_at_def write_batch_def append_record_def demo_record_length Let_def
        fresh_writer_def)
  moreover have "commit_group demo_wal demo_crc demo_config (io_fine 0) [demo_rec ''x''] w1 =
      ([Inr \<lparr>ak_seq = 0, ak_synced_seq = 0\<rparr>], w2)"
    using c2 w1 quiet [OF w1(1), of "''x''"]
    by (auto simp: commit_group_def io_fine_def write_batch_def append_record_def Let_def)
  moreover have "undecodable demo_wal demo_crc (take 4 (encode_records demo_wal demo_crc [demo_rec ''a'']) @
      encode_records demo_wal demo_crc [demo_rec ''x''])"
    using demo_undecodable by (simp add: demo_encoded)
  ultimately show ?thesis
    using failed_write_loses_later_commits [OF fresh_inv _ _ _ _ _ c1 c2, of 4 9] quiet [OF w, of "''a''"]
      quiet [OF w1(1), of "''x''"]
    by (auto simp: io_fails_at_def io_fine_def demo_record_length) (auto simp: fresh_writer_def)
qed

lemma open_append_stored:
  assumes "bm_get (sd_files d) p = Some (segment_bytes cx crc h rs)" "header_fits h"
  shows "open_append p n now d = Inr \<lparr>sw_path = p, sw_seg_seq = n,
    sw_bytes_written = length (segment_bytes cx crc h rs), sw_created_at = now\<rparr>"
  using assms(1) header_roundtrip [OF assms(2), of "[]"]
  by (simp add: open_append_def segment_bytes_def FILE_HEADER_SIZE_def)

lemma active_target_current:
  assumes "sd_current d = Some (segment_file_name n)" "n \<le> u64_max"
    "bm_get (sd_files d) (segment_file_name n) \<noteq> None"
  shows "active_target d = Inr (Some (n, segment_file_name n))"
proof -
  have "parse_segment_file_name (segment_file_name n) = Some n" using assms(2) by (simp add: segment_name_iff)
  with assms show ?thesis
    by (auto simp: active_target_def read_current_def str_trim_segment_name bm_has_def)
qed

lemma repair_stored:
  assumes "holds_log cx crc shard first segs d"
  shows "repair_torn_tails cx crc d = (Inr (), d)"
proof -
  have "repair_loop cx crc (seg_paths segs @ []) d = repair_loop cx crc [] d"
    using assms by (intro repair_loop_stored) (auto simp: holds_log_def)
  with assms show ?thesis by (simp add: repair_torn_tails_def holds_log_def)
qed

text \<open>Opening after a crash between the two steps of a rotation: the next segment exists, \<open>CURRENT\<close> still
  names the one before.\<close>

lemma open_after_half_rotation:
  assumes "writer_inv cx crc first segs w" "cg_seg_seq (ww_guard w) < u64_max"
    and "segment_create (Suc (cg_seg_seq (ww_guard w))) (ww_shard_id w) (cg_next_seq (ww_guard w)) t (ww_dir w) =
      (Inr sw, d)"
  shows "\<exists>w'. wal_open cx crc now (ww_shard_id w) (Some d) = Inr w' \<and> ww_dir w' = d \<and>
    ww_guard w' = \<lparr>cg_writer = \<lparr>sw_path = segment_file_name (cg_seg_seq (ww_guard w)),
        sw_seg_seq = cg_seg_seq (ww_guard w),
        sw_bytes_written = length (file_of (segment_file_name (cg_seg_seq (ww_guard w))) d), sw_created_at = now\<rparr>,
      cg_seg_seq = cg_seg_seq (ww_guard w), cg_next_seq = cg_next_seq (ww_guard w)\<rparr> \<and>
    bm_get (sd_files d) (segment_file_name (Suc (cg_seg_seq (ww_guard w)))) \<noteq> None"
proof -
  obtain earlier n rs where w: "segs = earlier @ [(n, rs)]" "cg_seg_seq (ww_guard w) = n" "n \<le> u64_max"
    by (rule writer_inv_last [OF assms(1)]) blast
  have holds: "holds_log cx crc (ww_shard_id w) first segs (ww_dir w)"
    and seq: "cg_next_seq (ww_guard w) = first + length (log_of segs)"
    and cur: "sd_current (ww_dir w) = Some (segment_file_name n)"
    using assms(1) w by (simp_all add: writer_inv_def)
  have "\<forall>m \<in> fst ` set segs. m < Suc n"
    using holds_log_earlier_less [OF holds [unfolded w(1)]] w(1) by fastforce
  from holds_log_new_segment [OF holds this, of t] assms(2,3) w(2) seq cur
  have d: "holds_log cx crc (ww_shard_id w) first (segs @ [(Suc n, [])]) d" "sd_current d = Some (segment_file_name n)"
    by auto
  note parts = d(1) [unfolded holds_log_def segments_stored_append w(1)]
  let ?first = "first + length (log_of earlier)"
  let ?h = "\<lparr>fh_shard_id = ww_shard_id w, fh_first_seq = ?first\<rparr>"
  have file_n: "bm_get (sd_files d) (segment_file_name n) = Some (segment_bytes cx crc ?h rs)"
    and h: "header_fits ?h" and ok: "list_all (writable cx crc) rs"
    using parts by (auto simp: header_fits_def)
  have "next_after ?h (enumerate ?first rs) = ?first + length rs"
    by (cases rs rule: rev_cases) (auto simp: next_after_def enumerate_append_eq)
  then have active: "open_active_segment cx crc now (ww_shard_id w) (first + length (log_of segs)) d =
      (Inr \<lparr>cg_writer = \<lparr>sw_path = segment_file_name n, sw_seg_seq = n,
          sw_bytes_written = length (segment_bytes cx crc ?h rs), sw_created_at = now\<rparr>,
        cg_seg_seq = n, cg_next_seq = first + length (log_of segs)\<rparr>, d)"
    using file_n load_segment_bytes [OF h ok, of "segment_file_name n"] w(1)
    by (simp add: open_active_segment_def active_target_current [OF d(2) w(3)] open_append_stored [OF file_n h]
        file_of_def add.assoc)
  obtain rv where "recover cx crc True (Some d) = Inr rv" "rv_last_seq rv = first + length (log_of segs)"
    using recover_log [OF d(1), of True] by auto
  moreover have "bm_get (sd_files d) (segment_file_name (Suc n)) \<noteq> None" using parts by auto
  ultimately show ?thesis
    using active repair_stored [OF d(1)] file_n by (simp add: wal_open_def w(2) seq file_of_def)
qed

text \<open>A crash in the middle of a rotation blocks the log. When the process dies after the new
  segment file was created and before \<open>CURRENT\<close> names it, opening the directory succeeds, but the writer
  goes back to the old segment; from then on every round that is due to rotate fails, because the next
  segment already exists, and leaves the writer exactly as it was, so it fails again.\<close>

theorem half_rotation_blocks_commits:
  assumes "writer_inv cx crc first segs w" "cg_seg_seq (ww_guard w) < u64_max"
    and "segment_create (Suc (cg_seg_seq (ww_guard w))) (ww_shard_id w) (cg_next_seq (ww_guard w)) t (ww_dir w) =
      (Inr sw, d)"
  shows "\<exists>w'. wal_open cx crc now (ww_shard_id w) (Some d) = Inr w' \<and>
    (\<forall>cfg io new. should_rotate (cg_writer (ww_guard w')) (incoming_bytes cx new)
        (wf_segment_max_size cfg) (wf_segment_max_age cfg) (io_now io) \<longrightarrow>
      snd (commit_group cx crc cfg io new w') = w' \<and>
      (\<forall>r \<in> set (fst (commit_group cx crc cfg io new w')). \<not> is_ok r))"
proof -
  obtain w' where w': "wal_open cx crc now (ww_shard_id w) (Some d) = Inr w'" "ww_dir w' = d"
    "cg_seg_seq (ww_guard w') = cg_seg_seq (ww_guard w)"
    "bm_get (sd_files d) (segment_file_name (Suc (cg_seg_seq (ww_guard w)))) \<noteq> None"
    using open_after_half_rotation [OF assms, of now] by auto
  have "rotate now' ok w' = (Inl (if ok then Wal (WalOther ''create segment'') else Io ''fsync''), w')" for now' ok
    using w'(2-4) by (auto simp: rotate_def segment_create_def bm_has_def Let_def)
  then have "snd (commit_group cx crc cfg io new w') = w' \<and>
      (\<forall>r \<in> set (fst (commit_group cx crc cfg io new w')). \<not> is_ok r)"
    if "should_rotate (cg_writer (ww_guard w')) (incoming_bytes cx new)
      (wf_segment_max_size cfg) (wf_segment_max_age cfg) (io_now io)" for cfg io new
    using that by (auto simp: commit_group_def)
  with w'(1) show ?thesis by blast
qed

theorem half_rotation_blocks_commits_witness:
  "\<exists>d w'. wal_open demo_wal demo_crc 9 0 (Some d) = Inr w' \<and>
    snd (commit_group demo_wal demo_crc \<lparr>wf_segment_max_size = 20, wf_segment_max_age = 0,
      wf_batch_timeout = 1, wf_disk_high_watermark = 1\<rparr> (io_fine 9)
      [demo_rec ''twenty characters ok''] w') = w'"
proof -
  let ?w = "fresh_writer 0 0"
  have fields: "cg_seg_seq (ww_guard ?w) = 1" "ww_shard_id ?w = 0"
    by (simp_all add: fresh_writer_def)
  obtain sw d where c: "segment_create (Suc (cg_seg_seq (ww_guard ?w))) (ww_shard_id ?w) (cg_next_seq (ww_guard ?w)) 5
      (ww_dir ?w) = (Inr sw, d)"
    by (simp add: segment_create_def fresh_writer_def fresh_dir_def bm_has_def bm_simps u64_max_def Let_def)
  have inv: "writer_inv demo_wal demo_crc 0 [(1, [])] ?w" by (rule fresh_inv) simp
  have small: "cg_seg_seq (ww_guard ?w) < u64_max" by (simp add: fresh_writer_def u64_max_def)
  obtain w' where w': "wal_open demo_wal demo_crc 9 0 (Some d) = Inr w'"
    and stuck: "\<And>cfg io new. should_rotate (cg_writer (ww_guard w')) (incoming_bytes demo_wal new)
        (wf_segment_max_size cfg) (wf_segment_max_age cfg) (io_now io) \<Longrightarrow>
      snd (commit_group demo_wal demo_crc cfg io new w') = w'"
    using half_rotation_blocks_commits [OF inv small c, of 9] fields by auto
  have "should_rotate (cg_writer (ww_guard w')) (incoming_bytes demo_wal [demo_rec ''twenty characters ok'']) 20 0 9"
    by (simp add: should_rotate_def incoming_bytes_def demo_rec_def demo_wal_def)
  with stuck [of "[demo_rec ''twenty characters ok'']" "\<lparr>wf_segment_max_size = 20, wf_segment_max_age = 0,
      wf_batch_timeout = 1, wf_disk_high_watermark = 1\<rparr>" "io_fine 9"]
  show ?thesis using w' by (auto simp: io_fine_def)
qed

end
