(* ===== verification/Wal_Cleanup.thy ===== *)
theory Wal_Cleanup
  imports Wal_Writer
begin

text \<open>
  The monitor of the log (\<open>crates/wal/src/cleanup.rs\<close>) and the view of the open batches that it works on
  (\<open>LiveBatchTracker\<close> of \<open>crates/ingest/src/flush.rs\<close>). One tick aborts the batches that timed out, aborts
  the oldest open batch when the disk is full, and deletes the segments that no open batch needs.

  The trait \<open>BatchStateView\<close> is a record of functions, its contract the locale \<open>batch_state_view\<close>;
  the tracker is interpreted in it. Each append of the tick is a commit round of its own.
\<close>

definition wal_append ::
  "wal_codecs \<Rightarrow> (bytes \<Rightarrow> nat) \<Rightarrow> wal_config \<Rightarrow> commit_io \<Rightarrow> wal_record \<Rightarrow> wal_writer \<Rightarrow>
    (lake_error + wal_ack) \<times> wal_writer" where
  "wal_append cx crc cfg io r w =
     (case commit_group cx crc cfg io [r] w of (replies, w') \<Rightarrow> (hd replies, w'))"

subsection \<open>The view of the open batches\<close>

record 'v batch_view =
  bv_non_terminal :: "'v \<Rightarrow> batch_state list"
  bv_note_abort :: "string \<Rightarrow> 'v \<Rightarrow> 'v"

definition tracker_new :: batch_state_map where
  "tracker_new = batch_map_default"

definition tracker_observe :: "wal_record \<Rightarrow> batch_state_map \<Rightarrow> batch_state_map" where
  "tracker_observe rec m = apply_record rec 0 m"

definition tracker_load_from :: "recovery \<Rightarrow> batch_state_map \<Rightarrow> batch_state_map" where
  "tracker_load_from r m =
     m\<lparr>bm_states := bm_insert_all (bm_entries (bm_states (rv_states r))) (bm_states m)\<rparr>"

definition tracker_non_terminal :: "batch_state_map \<Rightarrow> batch_state list" where
  "tracker_non_terminal m = filter (\<lambda>s. \<not> is_terminal (bs_status s)) (bm_values (bm_states m))"

definition tracker_non_terminal_ids :: "batch_state_map \<Rightarrow> string list" where
  "tracker_non_terminal_ids m = map bs_batch_id (tracker_non_terminal m)"

definition tracker_note_abort :: "string \<Rightarrow> batch_state_map \<Rightarrow> batch_state_map" where
  "tracker_note_abort bid m = tracker_observe (BatchAbort \<lparr>ba_batch_id = bid\<rparr>) m"

definition live_view :: "batch_state_map batch_view" where
  "live_view = \<lparr>bv_non_terminal = tracker_non_terminal, bv_note_abort = tracker_note_abort\<rparr>"

subsection \<open>Disk usage\<close>

definition dir_size_bytes :: "shard_dir \<Rightarrow> nat" where
  "dir_size_bytes d =
     sum_list (map length (bm_values (sd_files d))) +
     (case sd_current d of Some s \<Rightarrow> length s | None \<Rightarrow> 0)"

definition dir_size_usage :: "nat \<Rightarrow> shard_dir \<Rightarrow> rat" where
  "dir_size_usage max_bytes d =
     (if max_bytes = 0 then 0 else max 0 (min 1 (of_nat (dir_size_bytes d) / of_nat max_bytes)))"

subsection \<open>Which segments can go\<close>

definition segment_is_removable :: "(nat \<times> nat) option \<Rightarrow> bool \<Rightarrow> (nat \<times> nat) list \<Rightarrow> bool" where
  "segment_is_removable seg_seq_range is_current non_terminal_ranges =
     (if is_current then False
      else (case seg_seq_range of
              None \<Rightarrow> True
            | Some (lo, hi) \<Rightarrow> \<not> list_ex (\<lambda>(s, e). s \<le> hi \<and> e \<ge> lo) non_terminal_ranges))"

text \<open>\<open>rm_ok\<close> says for which files the deletion succeeds; a missing file is not an error.\<close>

fun clean_segments ::
  "(string \<Rightarrow> bool) \<Rightarrow> nat \<Rightarrow> (nat \<times> nat) list \<Rightarrow> segment_info list \<Rightarrow> shard_dir \<Rightarrow> shard_dir" where
  "clean_segments rm_ok current ranges [] d = d"
| "clean_segments rm_ok current ranges (seg # segs) d =
     clean_segments rm_ok current ranges segs
       (if parse_segment_file_name (si_name seg) = Some current then d
        else if segment_is_removable (si_seq_range seg) False ranges \<and> rm_ok (si_name seg)
        then d\<lparr>sd_files := bm_remove (si_name seg) (sd_files d)\<rparr>
        else d)"

subsection \<open>One tick\<close>

definition abort_one ::
  "wal_codecs \<Rightarrow> (bytes \<Rightarrow> nat) \<Rightarrow> wal_config \<Rightarrow> commit_io \<Rightarrow> 'v batch_view \<Rightarrow> string \<Rightarrow>
    wal_writer \<times> 'v \<Rightarrow> wal_writer \<times> 'v" where
  "abort_one cx crc cfg io bv bid s =
     (case wal_append cx crc cfg io (BatchAbort \<lparr>ba_batch_id = bid\<rparr>) (fst s) of
        (Inl _, w') \<Rightarrow> (w', snd s)
      | (Inr _, w') \<Rightarrow> (w', bv_note_abort bv bid (snd s)))"

text \<open>The loop over the batches that were open when the tick began; \<open>io\<close> is the device during the append
  for each of them.\<close>

fun abort_timed_out ::
  "wal_codecs \<Rightarrow> (bytes \<Rightarrow> nat) \<Rightarrow> wal_config \<Rightarrow> (string \<Rightarrow> commit_io) \<Rightarrow> 'v batch_view \<Rightarrow> nat \<Rightarrow>
    batch_state list \<Rightarrow> wal_writer \<times> 'v \<Rightarrow> wal_writer \<times> 'v" where
  "abort_timed_out cx crc cfg io bv now [] s = s"
| "abort_timed_out cx crc cfg io bv now (st # rest) s =
     abort_timed_out cx crc cfg io bv now rest
       (if is_timed_out st now (wf_batch_timeout cfg)
        then abort_one cx crc cfg (io (bs_batch_id st)) bv (bs_batch_id st) s
        else s)"

definition protect_disk ::
  "wal_codecs \<Rightarrow> (bytes \<Rightarrow> nat) \<Rightarrow> wal_config \<Rightarrow> commit_io \<Rightarrow> 'v batch_view \<Rightarrow>
    (shard_dir \<Rightarrow> rat) option \<Rightarrow> wal_writer \<times> 'v \<Rightarrow> wal_writer \<times> 'v" where
  "protect_disk cx crc cfg io bv disk s =
     (case disk of
        None \<Rightarrow> s
      | Some usage \<Rightarrow>
          if usage (ww_dir (fst s)) > wf_disk_high_watermark cfg
          then (case sort_key bs_created_at_ms (bv_non_terminal bv (snd s)) of
                  [] \<Rightarrow> s
                | oldest # _ \<Rightarrow> abort_one cx crc cfg io bv (bs_batch_id oldest) s)
          else s)"

definition monitor_clean ::
  "(string \<Rightarrow> bool) \<Rightarrow> 'v batch_view \<Rightarrow> segment_info list \<Rightarrow> wal_writer \<times> 'v \<Rightarrow> wal_writer \<times> 'v" where
  "monitor_clean rm_ok bv segments_info s =
     (let ranges = map bs_wal_seq_range (bv_non_terminal bv (snd s)) in
      ((fst s)\<lparr>ww_dir := clean_segments rm_ok (ww_current_segment (fst s)) ranges segments_info
         (ww_dir (fst s))\<rparr>, snd s))"

definition monitor_tick ::
  "wal_codecs \<Rightarrow> (bytes \<Rightarrow> nat) \<Rightarrow> wal_config \<Rightarrow> (string \<Rightarrow> commit_io) \<Rightarrow> commit_io \<Rightarrow> (string \<Rightarrow> bool) \<Rightarrow>
    'v batch_view \<Rightarrow> (shard_dir \<Rightarrow> rat) option \<Rightarrow> segment_info list \<Rightarrow> nat \<Rightarrow>
    wal_writer \<times> 'v \<Rightarrow> wal_writer \<times> 'v" where
  "monitor_tick cx crc cfg io io_disk rm_ok bv disk segments_info now s =
     (let s1 = abort_timed_out cx crc cfg io bv now (bv_non_terminal bv (snd s)) s;
          s2 = protect_disk cx crc cfg io_disk bv disk s1
      in monitor_clean rm_ok bv segments_info s2)"

subsection \<open>The contract of a view\<close>

definition abort_record :: "string \<Rightarrow> wal_record" where
  "abort_record bid = BatchAbort \<lparr>ba_batch_id = bid\<rparr>"

text \<open>The device takes everything.\<close>

definition good_io :: "commit_io \<Rightarrow> bool" where
  "good_io io \<longleftrightarrow> io_rotate_sync_ok io \<and> io_budget io = None \<and> io_sync_ok io"

text \<open>The writer holds the log and has room for \<open>n\<close> more records, each with a rotation.\<close>

definition writer_room ::
  "wal_codecs \<Rightarrow> (bytes \<Rightarrow> nat) \<Rightarrow> nat \<Rightarrow> segments \<Rightarrow> nat \<Rightarrow> wal_writer \<Rightarrow> bool" where
  "writer_room cx crc first segs n w \<longleftrightarrow>
     writer_inv cx crc first segs w \<and> cg_seg_seq (ww_guard w) + n \<le> u64_max \<and>
     first + length (log_of segs) + n < 2 ^ 64"

lemma wal_append_room:
  assumes "writer_room cx crc first segs (Suc n) w" "writable cx crc r" "good_io io"
  obtains ack w' segs' where "wal_append cx crc cfg io r w = (Inr ack, w')"
    "writer_room cx crc first segs' n w'" "log_of segs' = log_of segs @ [r]"
proof -
  obtain replies w' where c: "commit_group cx crc cfg io [r] w = (replies, w')" by force
  from group_commit_core [of cx crc first segs w "[r]" io cfg replies w'] assms c
  obtain segs' where "writer_inv cx crc first segs' w'" "log_of segs' = log_of segs @ [r]"
    "replies = [Inr \<lparr>ak_seq = first + length (log_of segs), ak_synced_seq = ww_synced_seq w'\<rparr>]"
    by (auto simp: writer_room_def good_io_def)
  with assms(1) commit_group_seg_seq [of cx crc cfg io "[r]" w] c that show thesis
    by (auto simp: wal_append_def writer_room_def)
qed

text \<open>From writer \<open>w\<close> and view \<open>v\<close>, the aborts \<open>ids\<close> were logged and taken into the view; there is room for
  \<open>n\<close> records more.\<close>

definition aborts_to ::
  "wal_codecs \<Rightarrow> (bytes \<Rightarrow> nat) \<Rightarrow> nat \<Rightarrow> segments \<Rightarrow> nat \<Rightarrow> 'v batch_view \<Rightarrow> string list \<Rightarrow>
    'v \<Rightarrow> wal_writer \<times> 'v \<Rightarrow> bool" where
  "aborts_to cx crc first segs n bv ids v s' \<longleftrightarrow>
     (\<exists>segs'. writer_room cx crc first segs' n (fst s') \<and>
        log_of segs' = log_of segs @ map abort_record ids) \<and>
     snd s' = fold (bv_note_abort bv) ids v"

lemma aborts_to_none:
  "writer_room cx crc first segs n w \<Longrightarrow> aborts_to cx crc first segs n bv [] v (w, v)"
  by (auto simp: aborts_to_def)

lemma writer_room_mono: "writer_room cx crc first segs n w \<Longrightarrow> m \<le> n \<Longrightarrow> writer_room cx crc first segs m w"
  by (auto simp: writer_room_def)

lemma aborts_to_mono: "aborts_to cx crc first segs n bv ids v s \<Longrightarrow> m \<le> n \<Longrightarrow> aborts_to cx crc first segs m bv ids v s"
  unfolding aborts_to_def by (blast intro: writer_room_mono)

lemma abort_one_step:
  assumes "aborts_to cx crc first segs (Suc n) bv ids v s" "writable cx crc (abort_record bid)" "good_io io"
  shows "aborts_to cx crc first segs n bv (ids @ [bid]) v (abort_one cx crc cfg io bv bid s)"
proof -
  obtain segs' where segs': "writer_room cx crc first segs' (Suc n) (fst s)"
    "log_of segs' = log_of segs @ map abort_record ids" "snd s = fold (bv_note_abort bv) ids v"
    using assms(1) by (auto simp: aborts_to_def)
  obtain ack w' segs'' where "wal_append cx crc cfg io (abort_record bid) (fst s) = (Inr ack, w')"
    "writer_room cx crc first segs'' n w'" "log_of segs'' = log_of segs' @ [abort_record bid]"
    by (rule wal_append_room [OF segs'(1) assms(2,3)])
  with segs' show ?thesis by (auto simp: abort_one_def aborts_to_def abort_record_def)
qed

lemma abort_timed_out_steps:
  assumes "aborts_to cx crc first segs (length todo + n) bv ids v s"
    and "\<forall>st \<in> set todo. writable cx crc (abort_record (bs_batch_id st))" "\<forall>bid. good_io (io bid)"
  shows "aborts_to cx crc first segs n bv
    (ids @ map bs_batch_id (filter (\<lambda>st. is_timed_out st now (wf_batch_timeout cfg)) todo)) v
    (abort_timed_out cx crc cfg io bv now todo s)"
  using assms
proof (induction todo arbitrary: ids s)
  case (Cons st todo)
  let ?s = "if is_timed_out st now (wf_batch_timeout cfg)
    then abort_one cx crc cfg (io (bs_batch_id st)) bv (bs_batch_id st) s else s"
  let ?ids = "if is_timed_out st now (wf_batch_timeout cfg) then ids @ [bs_batch_id st] else ids"
  have "aborts_to cx crc first segs (length todo + n) bv ?ids v ?s"
    using Cons.prems abort_one_step [of cx crc first segs "length todo + n" bv ids v s]
    by (auto intro: aborts_to_mono)
  from Cons.IH [OF this] Cons.prems show ?case by (auto split: if_splits)
qed simp

lemma protect_disk_steps:
  assumes "aborts_to cx crc first segs (Suc n) bv ids v s" "good_io io"
    and "\<forall>st \<in> set (bv_non_terminal bv (snd s)). writable cx crc (abort_record (bs_batch_id st))"
  shows "\<exists>ids'. aborts_to cx crc first segs n bv (ids @ ids') v (protect_disk cx crc cfg io bv disk s) \<and>
    set ids' \<subseteq> bs_batch_id ` set (bv_non_terminal bv (snd s))"
proof -
  have none: "aborts_to cx crc first segs n bv (ids @ []) v s" using assms(1) by (auto intro: aborts_to_mono)
  show ?thesis
  proof (cases "\<exists>usage oldest rest. disk = Some usage \<and> usage (ww_dir (fst s)) > wf_disk_high_watermark cfg \<and>
      sort_key bs_created_at_ms (bv_non_terminal bv (snd s)) = oldest # rest")
    case True
    then obtain usage oldest rest where p: "disk = Some usage" "usage (ww_dir (fst s)) > wf_disk_high_watermark cfg"
      "sort_key bs_created_at_ms (bv_non_terminal bv (snd s)) = oldest # rest" by blast
    then have "oldest \<in> set (bv_non_terminal bv (snd s))"
      by (metis list.set_intros(1) set_sort)
    with abort_one_step [OF assms(1) _ assms(2), of "bs_batch_id oldest" cfg] assms(3) p show ?thesis
      by (intro exI [of _ "[bs_batch_id oldest]"]) (auto simp: protect_disk_def)
  next
    case False
    then have "protect_disk cx crc cfg io bv disk s = s"
      by (auto simp: protect_disk_def split: option.split list.split)
    with none show ?thesis by (intro exI [of _ "[]"]) auto
  qed
qed

text \<open>Only open batches are listed, and an abort takes exactly its batch out.\<close>

locale batch_state_view =
  fixes ok :: "'v \<Rightarrow> bool" and bv :: "'v batch_view"
  assumes open_only: "ok v \<Longrightarrow> st \<in> set (bv_non_terminal bv v) \<Longrightarrow> \<not> is_terminal (bs_status st)"
    and abort_ok: "ok v \<Longrightarrow> ok (bv_note_abort bv bid v)"
    and abort_closes: "ok v \<Longrightarrow> set (bv_non_terminal bv (bv_note_abort bv bid v)) =
      {st \<in> set (bv_non_terminal bv v). bs_batch_id st \<noteq> bid}"
begin

lemma aborts_close:
  "ok v \<Longrightarrow> ok (fold (bv_note_abort bv) ids v) \<and> set (bv_non_terminal bv (fold (bv_note_abort bv) ids v)) =
    {st \<in> set (bv_non_terminal bv v). bs_batch_id st \<notin> set ids}"
  by (induction ids arbitrary: v) (auto simp: abort_ok abort_closes)

lemma tick_aborts:
  assumes "ok v" "writer_room cx crc first segs (Suc (length (bv_non_terminal bv v))) w"
    and "\<forall>st \<in> set (bv_non_terminal bv v). writable cx crc (abort_record (bs_batch_id st))"
    and "\<forall>bid. good_io (io bid)" "good_io io_disk"
  shows "\<exists>ids s2. aborts_to cx crc first segs 0 bv ids v s2 \<and>
    monitor_tick cx crc cfg io io_disk rm_ok bv disk infos now (w, v) = monitor_clean rm_ok bv infos s2 \<and>
    set ids \<subseteq> bs_batch_id ` set (bv_non_terminal bv v) \<and>
    (\<forall>st \<in> set (bv_non_terminal bv v). is_timed_out st now (wf_batch_timeout cfg) \<longrightarrow> bs_batch_id st \<in> set ids)"
proof -
  let ?todo = "bv_non_terminal bv v"
  let ?late = "map bs_batch_id (filter (\<lambda>st. is_timed_out st now (wf_batch_timeout cfg)) ?todo)"
  let ?s1 = "abort_timed_out cx crc cfg io bv now ?todo (w, v)"
  have s1: "aborts_to cx crc first segs (Suc 0) bv ?late v ?s1"
    using abort_timed_out_steps [of cx crc first segs ?todo "Suc 0" bv "[]" v "(w, v)"] assms(2-4)
    by (auto intro: aborts_to_none)
  then have "set (bv_non_terminal bv (snd ?s1)) \<subseteq> set ?todo"
    using aborts_close [OF assms(1)] by (auto simp: aborts_to_def)
  with protect_disk_steps [OF s1 assms(5), of cfg disk] assms(3)
  obtain ids' where "aborts_to cx crc first segs 0 bv (?late @ ids') v (protect_disk cx crc cfg io_disk bv disk ?s1)"
    "set ids' \<subseteq> bs_batch_id ` set ?todo" by blast
  then show ?thesis
    by (intro exI [of _ "?late @ ids'"] exI [of _ "protect_disk cx crc cfg io_disk bv disk ?s1"])
      (auto simp: monitor_tick_def Let_def)
qed

lemma tick_leaves_no_late_batch:
  assumes "ok v" "writer_room cx crc first segs (Suc (length (bv_non_terminal bv v))) w"
    and "\<forall>st \<in> set (bv_non_terminal bv v). writable cx crc (abort_record (bs_batch_id st))"
    and "\<forall>bid. good_io (io bid)" "good_io io_disk"
    and "monitor_tick cx crc cfg io io_disk rm_ok bv disk infos now (w, v) = (w', v')"
  shows "\<exists>ids w1. aborts_to cx crc first segs 0 bv ids v (w1, v') \<and> ok v' \<and>
    w' = w1\<lparr>ww_dir := clean_segments rm_ok (ww_current_segment w1)
      (map bs_wal_seq_range (bv_non_terminal bv v')) infos (ww_dir w1)\<rparr> \<and>
    set (bv_non_terminal bv v') = {st \<in> set (bv_non_terminal bv v). bs_batch_id st \<notin> set ids} \<and>
    set ids \<subseteq> bs_batch_id ` set (bv_non_terminal bv v) \<and>
    (\<forall>st \<in> set (bv_non_terminal bv v'). \<not> is_timed_out st now (wf_batch_timeout cfg))"
proof -
  obtain ids s2 where s2: "aborts_to cx crc first segs 0 bv ids v s2" "(w', v') = monitor_clean rm_ok bv infos s2"
    "set ids \<subseteq> bs_batch_id ` set (bv_non_terminal bv v)"
    "\<forall>st \<in> set (bv_non_terminal bv v). is_timed_out st now (wf_batch_timeout cfg) \<longrightarrow> bs_batch_id st \<in> set ids"
    using tick_aborts [OF assms(1-5), of cfg rm_ok disk infos now] assms(6) by auto
  obtain w1 where "s2 = (w1, v')" using s2(2) by (cases s2) (simp add: monitor_clean_def Let_def)
  moreover have "v' = fold (bv_note_abort bv) ids v" using s2(1) calculation by (simp add: aborts_to_def)
  ultimately show ?thesis
    using s2 aborts_close [OF assms(1), of ids]
    by (intro exI [of _ ids] exI [of _ w1]) (auto simp: monitor_clean_def Let_def)
qed

end

subsection \<open>The tracker is a view\<close>

definition tracker_ok :: "batch_state_map \<Rightarrow> bool" where
  "tracker_ok m \<longleftrightarrow> list_all (\<lambda>(k, s). bs_batch_id s = k) (bm_entries (bm_states m))"

lemma tracker_ok_iff: "tracker_ok m \<longleftrightarrow> (\<forall>k s. bm_get (bm_states m) k = Some s \<longrightarrow> bs_batch_id s = k)"
  by (fastforce simp: tracker_ok_def list_all_iff simp flip: bm_entries_get)

lemma tracker_ok_observe: "tracker_ok m \<Longrightarrow> tracker_ok (tracker_observe r m)"
  unfolding tracker_ok_iff tracker_observe_def apply_record_batch
  by (cases r) (auto simp: pending_state_def s3_written_state_def split: if_splits)

lemma tracker_ok_new: "tracker_ok tracker_new"
  by (simp add: tracker_ok_def tracker_new_def batch_map_default_def)

lemma tracker_open_iff:
  "st \<in> set (tracker_non_terminal m) \<longleftrightarrow>
    \<not> is_terminal (bs_status st) \<and> (\<exists>k. bm_get (bm_states m) k = Some st)"
  by (auto simp: tracker_non_terminal_def bm_values_iff)

interpretation live: batch_state_view tracker_ok live_view
proof unfold_locales
  fix v st bid
  assume ok: "tracker_ok v"
  show "st \<in> set (bv_non_terminal live_view v) \<Longrightarrow> \<not> is_terminal (bs_status st)"
    by (simp add: live_view_def tracker_open_iff)
  show "tracker_ok (bv_note_abort live_view bid v)"
    using ok by (simp add: live_view_def tracker_note_abort_def tracker_ok_observe)
  show "set (bv_non_terminal live_view (bv_note_abort live_view bid v)) =
      {st \<in> set (bv_non_terminal live_view v). bs_batch_id st \<noteq> bid}"
    using ok by (auto simp: live_view_def tracker_open_iff tracker_note_abort_def tracker_observe_def
        apply_record_batch tracker_ok_iff simp del: apply_record.simps split: if_splits)
qed

text \<open>The view after aborts is the view that replaying them gives.\<close>

lemma note_aborts_replay:
  "fold tracker_note_abort ids m = replay (enumerate n (map abort_record ids)) m"
  by (induction ids arbitrary: m n)
    (simp_all add: tracker_note_abort_def tracker_observe_def abort_record_def replay_def)

text \<open>A tick of the monitor leaves no batch behind that is past its timeout. With a device that works,
  the batches that timed out, and the oldest one if the disk is over its limit, are aborted in the log
  and in the view: the log grows by exactly their abort records, the view loses exactly these batches,
  it is the view that replaying the new records on the old one gives, so a crash would recover the same
  open batches, and no batch that is still open has timed out.\<close>

theorem monitor_aborts_timed_out:
  assumes "tracker_ok v" "writer_room cx crc first segs (Suc (length (tracker_non_terminal v))) w"
    and "\<forall>st \<in> set (tracker_non_terminal v). writable cx crc (abort_record (bs_batch_id st))"
    and "\<forall>bid. good_io (io bid)" "good_io io_disk"
    and "monitor_tick cx crc cfg io io_disk rm_ok live_view disk infos now (w, v) = (w', v')"
  shows "\<exists>ids w1 segs1. set ids \<subseteq> bs_batch_id ` set (tracker_non_terminal v) \<and>
    writer_inv cx crc first segs1 w1 \<and> log_of segs1 = log_of segs @ map abort_record ids \<and>
    v' = replay (enumerate (first + length (log_of segs)) (map abort_record ids)) v \<and>
    set (tracker_non_terminal v') = {st \<in> set (tracker_non_terminal v). bs_batch_id st \<notin> set ids} \<and>
    (\<forall>st \<in> set (tracker_non_terminal v'). \<not> is_timed_out st now (wf_batch_timeout cfg)) \<and>
    ww_dir w' = clean_segments rm_ok (ww_current_segment w1)
      (map bs_wal_seq_range (tracker_non_terminal v')) infos (ww_dir w1)"
proof -
  obtain ids w1 where "aborts_to cx crc first segs 0 live_view ids v (w1, v')"
    "w' = w1\<lparr>ww_dir := clean_segments rm_ok (ww_current_segment w1)
      (map bs_wal_seq_range (tracker_non_terminal v')) infos (ww_dir w1)\<rparr>"
    "set (tracker_non_terminal v') = {st \<in> set (tracker_non_terminal v). bs_batch_id st \<notin> set ids}"
    "set ids \<subseteq> bs_batch_id ` set (tracker_non_terminal v)"
    "\<forall>st \<in> set (tracker_non_terminal v'). \<not> is_timed_out st now (wf_batch_timeout cfg)"
    using live.tick_leaves_no_late_batch [of v cx crc first segs w io io_disk cfg rm_ok disk infos now w' v'] assms
    by (auto simp: live_view_def)
  moreover from this(1) obtain segs1 where "writer_inv cx crc first segs1 w1"
    "log_of segs1 = log_of segs @ map abort_record ids" "v' = fold tracker_note_abort ids v"
    by (auto simp: aborts_to_def writer_room_def live_view_def)
  ultimately show ?thesis
    by (intro exI [of _ ids] exI [of _ w1] exI [of _ segs1]) (simp flip: note_aborts_replay)
qed

subsection \<open>What the deletion of segments keeps\<close>

definition goes :: "(string \<Rightarrow> bool) \<Rightarrow> nat \<Rightarrow> (nat \<times> nat) list \<Rightarrow> segment_info \<Rightarrow> bool" where
  "goes rm_ok current ranges seg \<longleftrightarrow>
     parse_segment_file_name (si_name seg) \<noteq> Some current \<and>
     segment_is_removable (si_seq_range seg) False ranges \<and> rm_ok (si_name seg)"

lemma clean_segments_get:
  "bm_get (sd_files (clean_segments rm_ok current ranges infos d)) name =
    (if \<exists>seg \<in> set infos. goes rm_ok current ranges seg \<and> si_name seg = name then None
     else bm_get (sd_files d) name)"
  by (induction infos arbitrary: d) (auto simp: goes_def bm_simps)

lemma clean_segments_current [simp]: "sd_current (clean_segments rm_ok current ranges infos d) = sd_current d"
  by (induction infos arbitrary: d) auto

text \<open>The records of the segments that are still there.\<close>

fun kept_records :: "(nat \<Rightarrow> bool) \<Rightarrow> nat \<Rightarrow> segments \<Rightarrow> (nat \<times> wal_record) list" where
  "kept_records keep first [] = []"
| "kept_records keep first ((n, rs) # segs) =
     (if keep n then enumerate first rs else []) @ kept_records keep (first + length rs) segs"

lemma kept_records_range: "(s, r) \<in> set (kept_records keep first segs) \<Longrightarrow> first \<le> s"
proof (induction keep first segs rule: kept_records.induct)
  case (2 keep first n rs segs)
  then show ?case by (auto simp: in_set_enumerate_eq split: if_splits)
qed simp

lemma scan_loop_kept:
  assumes "segments_stored cx crc shard first segs d" "list_all (writable cx crc) (log_of segs)"
    "shard < 2 ^ 64" "first + length (log_of segs) < 2 ^ 64" "lo < hi"
    and "\<And>n. n \<in> fst ` set segs \<Longrightarrow> keep n \<Longrightarrow>
      bm_get (sd_files d') (segment_file_name n) = bm_get (sd_files d) (segment_file_name n)"
  shows "scan_loop cx crc lo hi d' (seg_paths (filter (\<lambda>a. keep (fst a)) segs)) out =
    Inr (out @ filter (\<lambda>(s, _). lo \<le> s \<and> s < hi) (kept_records keep first segs))"
  using assms
proof (induction segs arbitrary: first out)
  case (Cons seg segs)
  obtain n rs where seg: "seg = (n, rs)" by (cases seg)
  have IH: "scan_loop cx crc lo hi d' (seg_paths (filter (\<lambda>a. keep (fst a)) segs)) out' =
      Inr (out' @ filter (\<lambda>(s, _). lo \<le> s \<and> s < hi) (kept_records keep (first + length rs) segs))" for out'
    by (rule Cons.IH) (use Cons.prems seg in auto)
  show ?case
  proof (cases "keep n")
    case True
    then have "file_of (segment_file_name n) d' = file_of (segment_file_name n) d"
      using Cons.prems(6) [of n] seg by (simp add: file_of_def)
    then have load: "load_segment cx crc (segment_file_name n) (file_of (segment_file_name n) d') =
        Inr (\<lparr>fh_shard_id = shard, fh_first_seq = first\<rparr>, enumerate first rs, True)"
      using segments_stored_load [OF Cons.prems(1) [unfolded seg]] Cons.prems seg by simp
    have one: "scan_loop cx crc lo hi d' [(n, segment_file_name n)] out =
        Inr (out @ filter (\<lambda>(s, _). lo \<le> s \<and> s < hi) (enumerate first rs))"
      using scan_loop_stored [of cx crc shard first "[(n, rs)]" d' lo hi out] Cons.prems seg True by simp
    have past: "filter (\<lambda>(s, _). lo \<le> s \<and> s < hi) (kept_records keep (first + length rs) segs) = []"
      if "hi < first + length rs"
      using that by (auto simp: filter_empty_conv dest: kept_records_range)
    from one past show ?thesis
      by (auto simp: seg True load IH take_range_enumerate [OF Cons.prems(5)] Let_def split: if_splits bool.splits)
  qed (simp add: seg IH)
qed simp

lemma list_segments_cleaned:
  assumes "holds_log cx crc shard first segs d"
  shows "list_segments (clean_segments rm_ok current ranges infos d) =
    seg_paths (filter (\<lambda>a. \<not> (\<exists>seg \<in> set infos. goes rm_ok current ranges seg \<and>
      si_name seg = segment_file_name (fst a))) segs)" (is "_ = seg_paths ?kept")
proof -
  have "sorted_wrt (<) (map fst ?kept)"
    using assms by (simp add: holds_log_def sorted_wrt_map sorted_wrt_filter)
  moreover have "n \<in> set (map fst ?kept) \<longleftrightarrow>
      n \<le> u64_max \<and> bm_get (sd_files (clean_segments rm_ok current ranges infos d)) (segment_file_name n) \<noteq> None" for n
    using holds_log_numbers [OF assms, of n] by (auto simp: clean_segments_get)
  ultimately have "list_segments (clean_segments rm_ok current ranges infos d) =
      map (\<lambda>n. (n, segment_file_name n)) (map fst ?kept)"
    by (rule list_segments_eqI)
  then show ?thesis by (simp add: comp_def case_prod_unfold)
qed

lemma scan_range_cleaned:
  assumes "holds_log cx crc shard first segs d"
  shows "scan_range cx crc lo hi (clean_segments rm_ok current ranges infos d) =
    Inr (filter (\<lambda>(s, _). lo \<le> s \<and> s < hi) (kept_records (\<lambda>n. \<not> (\<exists>seg \<in> set infos.
      goes rm_ok current ranges seg \<and> si_name seg = segment_file_name n)) first segs))"
proof (cases "lo < hi")
  case True
  have "scan_loop cx crc lo hi (clean_segments rm_ok current ranges infos d)
      (list_segments (clean_segments rm_ok current ranges infos d)) [] =
    Inr ([] @ filter (\<lambda>(s, _). lo \<le> s \<and> s < hi) (kept_records (\<lambda>n. \<not> (\<exists>seg \<in> set infos.
      goes rm_ok current ranges seg \<and> si_name seg = segment_file_name n)) first segs))"
    unfolding list_segments_cleaned [OF assms]
    by (rule scan_loop_kept [where shard = shard and d = d])
      (use assms True in \<open>auto simp: holds_log_def clean_segments_get\<close>)
  with True show ?thesis by (simp add: scan_range_def)
next
  case False
  then have "filter (\<lambda>(s, _). lo \<le> s \<and> s < hi) xs = []" for xs :: "(nat \<times> wal_record) list"
    by (auto simp: filter_empty_conv)
  with False show ?thesis by (simp add: scan_range_def)
qed

lemma kept_filter:
  assumes "\<And>pre n rs post. segs = pre @ (n, rs) # post \<Longrightarrow> \<not> keep n \<Longrightarrow>
    filter P (enumerate (first + length (log_of pre)) rs) = []"
  shows "filter P (kept_records keep first segs) = filter P (enumerate first (log_of segs))"
  using assms
proof (induction segs arbitrary: first)
  case (Cons seg segs)
  obtain n rs where seg: "seg = (n, rs)" by (cases seg)
  have "filter P (kept_records keep (first + length rs) segs) =
      filter P (enumerate (first + length rs) (log_of segs))"
  proof (rule Cons.IH)
    fix pre n' rs' post assume "segs = pre @ (n', rs') # post" "\<not> keep n'"
    then show "filter P (enumerate (first + length rs + length (log_of pre)) rs') = []"
      using Cons.prems [of "seg # pre" n' rs' post] seg by (simp add: add.assoc)
  qed
  with Cons.prems [of "[]" n rs segs] seg show ?case by (simp add: enumerate_append_eq)
qed simp

lemma segment_infos_at:
  assumes "info \<in> set (segment_infos first segs)"
  obtains pre n rs post where "segs = pre @ (n, rs) # post" "si_name info = segment_file_name n"
    "si_seq_range info = seq_range_of (enumerate (first + length (log_of pre)) rs)"
  using assms
proof (induction first segs arbitrary: thesis rule: segment_infos.induct)
  case (2 first n rs segs)
  consider "info = \<lparr>si_name = segment_file_name n, si_seq_range = seq_range_of (enumerate first rs)\<rparr>"
    | "info \<in> set (segment_infos (first + length rs) segs)" using "2.prems"(2) by auto
  then show ?case
  proof cases
    case 1
    with "2.prems"(1) [of "[]" n rs segs] show ?thesis by simp
  next
    case 2
    then obtain pre n' rs' post where "segs = pre @ (n', rs') # post" "si_name info = segment_file_name n'"
      "si_seq_range info = seq_range_of (enumerate (first + length rs + length (log_of pre)) rs')"
      using "2.IH" by blast
    with "2.prems"(1) [of "(n, rs) # pre" n' rs' post] show ?thesis by (simp add: add.assoc)
  qed
qed simp

lemma same_position:
  assumes "distinct (map fst xs)" "xs = pre @ (n, a) # post" "xs = pre' @ (n, b) # post'"
  shows "pre = pre'" "a = b"
proof -
  have "map fst xs ! length pre = n" "map fst xs ! length pre' = n"
    using assms(2,3) by (metis length_map list.simps(9) map_append nth_append_length fst_conv)+
  moreover have "length pre < length (map fst xs)" using assms(2) by simp
  moreover have "length pre' < length (map fst xs)" using assms(3) by simp
  ultimately have "length pre = length pre'" using assms(1) by (metis nth_eq_iff_index_eq)
  with assms(2,3) show "pre = pre'" "a = b" by auto
qed

lemma seq_range_enumerate:
  "seq_range_of (enumerate f rs) = (if rs = [] then None else Some (f, f + length rs - 1))"
proof (cases rs)
  case (Cons r rs')
  have "fold min xs n = n" if "\<forall>x \<in> set xs. n \<le> x" for n :: nat and xs
    using that by (induction xs) (auto simp: min_def)
  moreover have "fold max [Suc n..<Suc (n + k)] n = n + k" for n k :: nat
    by (induction k) (auto simp: max_def)
  ultimately show ?thesis by (simp add: Cons seq_range_of_def)
qed (simp add: seq_range_of_def)

lemma removed_segment_misses_range:
  assumes "segment_is_removable (seq_range_of (enumerate f rs)) False ranges" "(s, e) \<in> set ranges"
  shows "filter (\<lambda>(q, _). s \<le> q \<and> q < e) (enumerate f rs) = []"
  using assms
  by (fastforce simp: segment_is_removable_def seq_range_enumerate list_ex_iff filter_empty_conv
      in_set_enumerate_eq split: if_splits)


text \<open>Segment \<open>n\<close> is older than the one being written.\<close>

definition older :: "nat \<Rightarrow> wal_writer \<Rightarrow> bool" where
  "older n w \<longleftrightarrow> n < ww_current_segment w \<and> n < cg_seg_seq (ww_guard w)"

lemma commit_group_older: "older n w \<Longrightarrow> older n (snd (commit_group cx crc cfg io new w))"
  by (auto simp: older_def commit_group_def rotate_def write_batch_def Let_def
      split: sum.splits prod.splits if_splits)

lemma abort_one_older: "older n (fst s) \<Longrightarrow> older n (fst (abort_one cx crc cfg io bv bid s))"
  using commit_group_older [of n "fst s" cx crc cfg io "[BatchAbort \<lparr>ba_batch_id = bid\<rparr>]"]
  by (auto simp: abort_one_def wal_append_def split: prod.splits sum.splits)

lemma abort_timed_out_older: "older n (fst s) \<Longrightarrow> older n (fst (abort_timed_out cx crc cfg io bv now todo s))"
  by (induction todo arbitrary: s) (auto simp: abort_one_older)

lemma tick_older:
  "older n w \<Longrightarrow> older n (fst (monitor_tick cx crc cfg io io_disk rm_ok bv disk infos now (w, v)))"
proof -
  assume "older n w"
  then have "older n (fst (abort_timed_out cx crc cfg io bv now (bv_non_terminal bv v) (w, v)))"
    by (simp add: abort_timed_out_older)
  then have "older n (fst (protect_disk cx crc cfg io_disk bv disk
      (abort_timed_out cx crc cfg io bv now (bv_non_terminal bv v) (w, v))))"
    by (auto simp: protect_disk_def abort_one_older split: option.split list.split)
  then show ?thesis by (simp add: monitor_tick_def monitor_clean_def Let_def older_def)
qed

text \<open>Segments are released. After a tick with a working device, a segment the monitor knows of, older
  than the active one, is gone unless some open batch overlaps it that has not timed out yet: no batch can hold
  a segment for longer than the timeout.\<close>

theorem segment_released_after_timeout:
  assumes "tracker_ok v" "writer_room cx crc first segs (Suc (length (tracker_non_terminal v))) w"
    and "\<forall>st \<in> set (tracker_non_terminal v). writable cx crc (abort_record (bs_batch_id st))"
    and "\<forall>bid. good_io (io bid)" "good_io io_disk"
    and "monitor_tick cx crc cfg io io_disk rm_ok live_view disk infos now (w, v) = (w', v')"
    and "info \<in> set infos" "rm_ok (si_name info)"
    and "parse_segment_file_name (si_name info) = Some n" "older n w"
    and "\<forall>st \<in> set (tracker_non_terminal v). \<forall>lo hi. si_seq_range info = Some (lo, hi) \<longrightarrow>
      fst (bs_wal_seq_range st) \<le> hi \<and> lo \<le> snd (bs_wal_seq_range st) \<longrightarrow>
      is_timed_out st now (wf_batch_timeout cfg)"
  shows "\<not> bm_has (sd_files (ww_dir w')) (si_name info)"
proof -
  obtain ids w1 where w1: "w' = w1\<lparr>ww_dir := clean_segments rm_ok (ww_current_segment w1)
      (map bs_wal_seq_range (tracker_non_terminal v')) infos (ww_dir w1)\<rparr>"
    and left: "set (tracker_non_terminal v') = {st \<in> set (tracker_non_terminal v). bs_batch_id st \<notin> set ids}"
      "\<forall>st \<in> set (tracker_non_terminal v'). \<not> is_timed_out st now (wf_batch_timeout cfg)"
    using live.tick_leaves_no_late_batch [of v cx crc first segs w io io_disk cfg rm_ok disk infos now w' v'] assms(1-6)
    by (auto simp: live_view_def)
  have "segment_is_removable (si_seq_range info) False (map bs_wal_seq_range (tracker_non_terminal v'))"
    using left assms(11) by (fastforce simp: segment_is_removable_def list_ex_iff split: option.split)
  moreover have "older n w'"
    using tick_older [of n w cx crc cfg io io_disk rm_ok live_view disk infos now v] assms(6,10) by simp
  ultimately have "goes rm_ok (ww_current_segment w1) (map bs_wal_seq_range (tracker_non_terminal v')) info"
    using assms(8,9) w1 by (auto simp: goes_def older_def)
  with assms(7) w1 show ?thesis by (auto simp: bm_has_def clean_segments_get)
qed

subsection \<open>Entries from before the segment was written\<close>

text \<open>A stale entry deletes acknowledged data. The monitor works on the segment list that was recovered when
  the process started. On a new shard that list holds the first segment without any record; once the
  writer has rotated past it, cleaning deletes the segment whatever it holds by then: none of its
  acknowledged records can be read any more, even those of batches that are open in the view.\<close>

theorem stale_entry_loses_records:
  assumes "wal_open cx crc t0 (ww_shard_id w) None = Inr w0"
    and "recover cx crc False (Some (ww_dir w0)) = Inr rv"
    and "writer_inv cx crc 0 ((1, rs) # segs) w" "ww_current_segment w \<noteq> 1" "rm_ok (segment_file_name 1)"
    and "monitor_clean rm_ok bv (rv_segments rv) (w, v) = (w', v')"
  shows "scan_range cx crc 0 (length rs) (ww_dir w) = Inr (enumerate 0 rs) \<and>
    scan_range cx crc 0 (length rs) (ww_dir w') = Inr []"
proof -
  let ?ranges = "map bs_wal_seq_range (bv_non_terminal bv v)"
  let ?info = "\<lparr>si_name = segment_file_name 1, si_seq_range = None\<rparr>"
  let ?keep = "\<lambda>n. \<not> (\<exists>seg \<in> set [?info]. goes rm_ok (ww_current_segment w) ?ranges seg \<and>
    si_name seg = segment_file_name n)"
  have holds: "holds_log cx crc (ww_shard_id w) 0 ((1, rs) # segs) (ww_dir w)"
    using assms(3) by (simp add: writer_inv_def)
  then have "ww_shard_id w < 2 ^ 64" by (simp add: holds_log_def)
  then have "writer_inv cx crc 0 [(1, [])] w0"
    using fresh_inv [of "ww_shard_id w" cx crc t0] assms(1) by (simp add: wal_open_new)
  then have "rv_segments rv = [?info]"
    using recover_infos [OF _ assms(2)] by (auto simp: writer_inv_def seq_range_of_def)
  then have dir: "ww_dir w' = clean_segments rm_ok (ww_current_segment w) ?ranges [?info] (ww_dir w)"
    using assms(6) by (auto simp: monitor_clean_def Let_def simp del: clean_segments.simps)
  have "parse_segment_file_name (segment_file_name 1) = Some 1"
    by (simp add: segment_name_iff u64_max_def)
  then have "\<not> ?keep 1"
    using assms(4,5) by (simp add: goes_def segment_is_removable_def)
  then have "filter (\<lambda>(q, _). q < length rs) (kept_records ?keep 0 ((1, rs) # segs)) = []"
    by (auto simp: filter_empty_conv dest: kept_records_range)
  moreover have "filter (\<lambda>(q, _). q < length rs) (enumerate 0 rs) = enumerate 0 rs"
    "filter (\<lambda>(q, _). q < length rs) (enumerate (length rs) (log_of segs)) = []"
    by (auto simp: filter_empty_conv in_set_enumerate_eq filter_id_conv)
  then have "filter (\<lambda>(q, _). q < length rs) (enumerate 0 (log_of ((1, rs) # segs))) = enumerate 0 rs"
    by (simp add: enumerate_append_eq)
  ultimately show ?thesis
    by (simp add: dir scan_range_cleaned [OF holds] scan_range_log [OF holds] del: clean_segments.simps log_of_simps kept_records.simps)
qed

subsection \<open>Witnesses\<close>

text \<open>A shard with a full first segment and a second one in use, and a tracker with one open batch.\<close>

definition demo_abort_wal :: wal_codecs where
  "demo_abort_wal = demo_wal\<lparr>wc_abort := (\<lambda>_. [], \<lambda>_. Inr \<lparr>ba_batch_id = ''z''\<rparr>)\<rparr>"

definition two_dir :: shard_dir where
  "two_dir = \<lparr>sd_files =
     bm_insert (segment_file_name 2)
       (segment_bytes demo_abort_wal demo_crc \<lparr>fh_shard_id = 0, fh_first_seq = 1\<rparr> [])
       (bm_insert (segment_file_name 1)
         (segment_bytes demo_abort_wal demo_crc \<lparr>fh_shard_id = 0, fh_first_seq = 0\<rparr> [demo_rec ''a'']) bm_empty),
     sd_current = Some (segment_file_name 2)\<rparr>"

definition two_writer :: wal_writer where
  "two_writer =
     \<lparr>ww_dir = two_dir,
      ww_guard = \<lparr>cg_writer = \<lparr>sw_path = segment_file_name 2, sw_seg_seq = 2,
          sw_bytes_written = FILE_HEADER_SIZE, sw_created_at = 0\<rparr>, cg_seg_seq = 2, cg_next_seq = 1\<rparr>,
      ww_shard_id = 0, ww_synced_seq = 0, ww_next_seq = 1, ww_current_segment = 2\<rparr>"

definition open_tracker :: batch_state_map where
  "open_tracker = tracker_observe (BatchPending demo_pending) tracker_new"

lemma segment_file_name_2: "segment_file_name 2 \<noteq> segment_file_name (Suc 0)"
  using segment_file_name_inj [of 2 "Suc 0"] by (auto simp: u64_max_def)

lemma two_inv: "writer_inv demo_abort_wal demo_crc 0 [(1, [demo_rec ''a'']), (2, [])] two_writer"
proof -
  have "list_segments two_dir = map (\<lambda>n. (n, segment_file_name n)) [1, 2]"
    by (rule list_segments_eqI)
       (use segment_file_name_inj in \<open>auto simp: two_dir_def bm_simps u64_max_def split: if_splits\<close>)
  moreover have "writable demo_abort_wal demo_crc (demo_rec ''a'')"
    using demo_writable [of "''a''"] by (simp add: writable_def demo_abort_wal_def demo_rec_def)
  ultimately show ?thesis
    by (simp add: writer_inv_def holds_log_def two_writer_def)
       (simp add: two_dir_def bm_simps segment_file_name_2 segment_file_name_2 [symmetric])
qed

lemma open_tracker_batches:
  "tracker_ok open_tracker" "tracker_non_terminal open_tracker = [pending_state demo_pending]"
  by (simp_all add: open_tracker_def tracker_ok_observe tracker_ok_new)
     (simp add: tracker_observe_def tracker_new_def batch_map_default_def tracker_non_terminal_def bm_values_def
       pending_state_def is_terminal_def)

lemma abort_writable: "writable demo_abort_wal demo_crc (abort_record ''z'')"
  by (simp add: writable_def demo_abort_wal_def abort_record_def record_crc_def demo_crc_def)

lemma two_room: "writer_room demo_abort_wal demo_crc 0 [(1, [demo_rec ''a'']), (2, [])] 2 two_writer"
  using two_inv by (simp add: writer_room_def) (simp add: two_writer_def u64_max_def)

lemma demo_ios: "good_io (io_fine n)"
  by (simp add: good_io_def io_fine_def)

theorem monitor_aborts_timed_out_witness:
  "\<exists>w' v'. monitor_tick demo_abort_wal demo_crc demo_config (\<lambda>_. io_fine 0) (io_fine 0) (\<lambda>_. True) live_view None
      [] 2000 (two_writer, open_tracker) = (w', v') \<and> tracker_non_terminal v' = []"
proof -
  obtain w' v' where tick: "monitor_tick demo_abort_wal demo_crc demo_config (\<lambda>_. io_fine 0) (io_fine 0) (\<lambda>_. True)
      live_view None [] 2000 (two_writer, open_tracker) = (w', v')" by force
  from two_room have "writer_room demo_abort_wal demo_crc 0 [(1, [demo_rec ''a'']), (2, [])]
      (Suc (length (tracker_non_terminal open_tracker))) two_writer"
    by (simp add: open_tracker_batches(2) numeral_2_eq_2)
  from monitor_aborts_timed_out [OF open_tracker_batches(1) this _ _ demo_ios tick]
  have "set (tracker_non_terminal v') \<subseteq> {pending_state demo_pending}"
    "\<forall>st \<in> set (tracker_non_terminal v'). \<not> is_timed_out st 2000 1000"
    by (auto simp: open_tracker_batches(2) abort_writable demo_ios pending_state_def demo_pending_def demo_config_def)
  then have "tracker_non_terminal v' = []"
    by (cases "tracker_non_terminal v'")
       (auto simp: is_timed_out_def pending_state_def demo_pending_def is_terminal_def)
  with tick show ?thesis by blast
qed


theorem segment_released_after_timeout_witness:
  "\<not> bm_has (sd_files (ww_dir (fst (monitor_tick demo_abort_wal demo_crc demo_config (\<lambda>_. io_fine 0) (io_fine 0)
      (\<lambda>_. True) live_view None [\<lparr>si_name = segment_file_name 1, si_seq_range = Some (0, 0)\<rparr>] 2000
      (two_writer, open_tracker))))) (segment_file_name 1)"
proof -
  let ?info = "\<lparr>si_name = segment_file_name 1, si_seq_range = Some (0, 0)\<rparr>"
  obtain w' v' where tick: "monitor_tick demo_abort_wal demo_crc demo_config (\<lambda>_. io_fine 0) (io_fine 0) (\<lambda>_. True)
      live_view None [?info] 2000 (two_writer, open_tracker) = (w', v')" by force
  from two_room have room: "writer_room demo_abort_wal demo_crc 0 [(1, [demo_rec ''a'']), (2, [])]
      (Suc (length (tracker_non_terminal open_tracker))) two_writer"
    by (simp add: open_tracker_batches(2) numeral_2_eq_2)
  have "\<not> bm_has (sd_files (ww_dir w')) (si_name ?info)"
    by (rule segment_released_after_timeout [OF open_tracker_batches(1) room _ _ demo_ios tick, where n = 1])
       (auto simp: open_tracker_batches(2) abort_writable demo_ios pending_state_def demo_pending_def
         demo_config_def is_timed_out_def is_terminal_def older_def two_writer_def segment_name_iff u64_max_def)
  with tick show ?thesis by simp
qed

theorem stale_entry_loses_records_witness:
  "\<exists>rv. recover demo_abort_wal demo_crc False (Some (fresh_dir 0)) = Inr rv \<and>
    scan_range demo_abort_wal demo_crc 0 1 (ww_dir two_writer) = Inr [(0, demo_rec ''a'')] \<and>
    scan_range demo_abort_wal demo_crc 0 1 (ww_dir (fst (monitor_clean (\<lambda>_. True) live_view (rv_segments rv)
      (two_writer, open_tracker)))) = Inr []"
proof -
  have shard: "ww_shard_id two_writer = 0" "ww_current_segment two_writer \<noteq> 1" by (simp_all add: two_writer_def)
  have fresh: "wal_open demo_abort_wal demo_crc 0 (ww_shard_id two_writer) None = Inr (fresh_writer 0 0)"
    by (simp add: wal_open_new shard)
  have "holds_log demo_abort_wal demo_crc 0 0 [(1, [])] (fresh_dir 0)"
    using fresh_inv [of 0 demo_abort_wal demo_crc 0] by (simp add: writer_inv_def fresh_writer_def)
  then obtain rv where rv: "recover demo_abort_wal demo_crc False (Some (fresh_dir 0)) = Inr rv"
    using recover_log [of demo_abort_wal demo_crc 0 0 _ "fresh_dir 0" False] by auto
  obtain w' v' where clean: "monitor_clean (\<lambda>_. True) live_view (rv_segments rv) (two_writer, open_tracker) = (w', v')"
    by force
  from stale_entry_loses_records [OF fresh _ two_inv shard(2) _ clean] rv clean show ?thesis
    by (simp add: fresh_writer_def)
qed

end
