(* ===== verification/Object_Paths.thy ===== *)
theory Object_Paths
  imports Catalog_Types
begin

text \<open>
  Where objects live in the store (\<open>crates/format/src/lib.rs\<close>) and the key under which garbage
  collection looks an object up in the catalog (\<open>reconciliation_key\<close>, \<open>is_object_protected\<close> and
  \<open>classify_orphans\<close> of \<open>crates/compaction/src/lib.rs\<close>). A path handed to the object store is taken as it
  is; the store's escaping of special characters is not modelled.
\<close>

type_synonym object_store = "(string, bytes) bmap"

datatype data_format = Vortex | Parquet

fun ext :: "data_format \<Rightarrow> string" where
  "ext Vortex = ''vortex''"
| "ext Parquet = ''parquet''"

definition ends_with :: "string \<Rightarrow> string \<Rightarrow> bool" where
  "ends_with suffix s \<longleftrightarrow> length suffix \<le> length s \<and> drop (length s - length suffix) s = suffix"

definition format_from_path :: "string \<Rightarrow> data_format" where
  "format_from_path path = (if ends_with (''.'' @ ext Vortex) path then Vortex else Parquet)"

definition format_parse :: "string \<Rightarrow> data_format" where
  "format_parse s = (if s = ''vortex'' then Vortex else Parquet)"

definition file_path :: "string \<Rightarrow> string \<Rightarrow> string \<Rightarrow> string \<Rightarrow> data_format \<Rightarrow> string" where
  "file_path table shard time_window batch_id fmt =
     (let table = map (\<lambda>c. if c = CHR ''.'' then CHR ''/'' else c) table in
      ''yuntun/'' @ table @ ''/dt='' @ time_window @ ''/shard='' @ shard @ ''/'' @ batch_id @ ''.'' @ ext fmt)"

definition extract_batch_id :: "string \<Rightarrow> string option" where
  "extract_batch_id path =
     (let name = (case rsplit_once CHR ''/'' path of Some (_, n) \<Rightarrow> n | None \<Rightarrow> path) in
      map_option fst (rsplit_once CHR ''.'' name))"

text \<open>\<open>str::split_once\<close> with a string pattern.\<close>

fun split_once_str :: "string \<Rightarrow> string \<Rightarrow> (string \<times> string) option" where
  "split_once_str pat [] = (if pat = [] then Some ([], []) else None)"
| "split_once_str pat (c # s) =
     (if take (length pat) (c # s) = pat then Some ([], drop (length pat) (c # s))
      else map_option (\<lambda>(a, b). (c # a, b)) (split_once_str pat s))"

definition dv_anchor_batch_id :: "string \<Rightarrow> string option" where
  "dv_anchor_batch_id path =
     (case split_once_str ''/dv/'' path of
        None \<Rightarrow> None
      | Some (_, after) \<Rightarrow>
          let file_name = (case split_once CHR ''/'' after of Some (a, _) \<Rightarrow> a | None \<Rightarrow> after) in
          if file_name = [] \<or> file_name = after then None
          else Some (case rsplit_once CHR ''.'' file_name of Some (stem, _) \<Rightarrow> stem | None \<Rightarrow> file_name))"

definition index_path :: "string \<Rightarrow> string" where
  "index_path data_path =
     (case rsplit_once CHR ''.'' data_path of
        Some (stem, _) \<Rightarrow> stem @ ''.idx''
      | None \<Rightarrow> data_path @ ''.idx'')"

subsection \<open>Reconciliation with the catalog\<close>

definition reconciliation_key :: "string \<Rightarrow> string option" where
  "reconciliation_key path =
     (case dv_anchor_batch_id path of Some anchor \<Rightarrow> Some anchor | None \<Rightarrow> extract_batch_id path)"

definition is_object_protected :: "string \<Rightarrow> string list \<Rightarrow> string list \<Rightarrow> bool" where
  "is_object_protected path known_batch_ids referenced_dv_objects =
     (case reconciliation_key path of
        None \<Rightarrow> False
      | Some bid \<Rightarrow>
          if bid \<notin> set known_batch_ids then False
          else dv_anchor_batch_id path = None \<or> path \<in> set referenced_dv_objects)"

definition classify_orphans :: "string list \<Rightarrow> string list \<Rightarrow> string list \<Rightarrow> string list" where
  "classify_orphans s3_paths known_batch_ids referenced_dv_objects =
     filter (\<lambda>p. \<not> is_object_protected p known_batch_ids referenced_dv_objects) s3_paths"

subsection \<open>Paths as lists of segments\<close>

fun segments_of :: "string \<Rightarrow> string list" where
  "segments_of [] = [[]]"
| "segments_of (c # s) =
     (if c = CHR ''/'' then [] # segments_of s
      else (c # hd (segments_of s)) # tl (segments_of s))"

lemma segments_of_not_Nil [simp]: "segments_of s \<noteq> []"
  by (cases s) auto

lemma segments_of_slash: "segments_of (a @ CHR ''/'' # b) = segments_of a @ segments_of b"
  by (induction a) auto

lemma segments_of_plain: "CHR ''/'' \<notin> set s \<Longrightarrow> segments_of s = [s]"
  by (induction s) auto

lemma split_once_str_Some: "split_once_str pat s = Some (a, b) \<Longrightarrow> s = a @ pat @ b"
proof (induction s arbitrary: a)
  case (Cons c s)
  then show ?case by (auto split: if_splits) (metis append_take_drop_id)
qed (simp split: if_splits)

lemma split_once_str_first:
  assumes "\<And>i. i < length a \<Longrightarrow> take (length pat) (drop i (a @ pat @ b)) \<noteq> pat"
  shows "split_once_str pat (a @ pat @ b) = Some (a, b)"
  using assms
proof (induction a)
  case Nil
  show ?case
  proof (cases "pat @ b")
    case (Cons x xs)
    then have "take (length pat) (x # xs) = pat" "drop (length pat) (x # xs) = b"
      by (metis append_eq_conv_conj)+
    with Cons show ?thesis by simp
  qed simp
next
  case (Cons c a)
  have "take (length pat) (c # a @ pat @ b) \<noteq> pat" using Cons.prems [of 0] by simp
  moreover have "split_once_str pat (a @ pat @ b) = Some (a, b)"
    using Cons.prems by (intro Cons.IH) (metis Suc_less_eq append_Cons drop_Suc_Cons length_Cons)
  ultimately show ?case by simp
qed

lemma segments_dv: "segments_of (a @ ''/dv/'' @ b) = segments_of a @ ''dv'' # segments_of b"
  using segments_of_slash [of a "''dv'' @ CHR ''/'' # b"] segments_of_slash [of "''dv''" b]
  by (simp add: segments_of_plain)

lemma no_dv_anchor: "''dv'' \<notin> set (segments_of s) \<Longrightarrow> split_once_str ''/dv/'' s = None"
proof (rule ccontr)
  assume "''dv'' \<notin> set (segments_of s)" "split_once_str ''/dv/'' s \<noteq> None"
  moreover from this(2) obtain a b where "s = a @ ''/dv/'' @ b" by (auto dest: split_once_str_Some)
  ultimately show False using segments_dv [of a b] by simp
qed

lemma first_dv_anchor:
  assumes "''dv'' \<notin> set (segments_of dir)"
  shows "split_once_str ''/dv/'' (dir @ ''/dv/'' @ rest) = Some (dir, rest)"
proof (rule split_once_str_first)
  fix i
  define s where "s = dir @ ''/dv/'' @ rest"
  assume i: "i < length dir"
  have "take 4 (drop i s) \<noteq> ''/dv/''"
  proof
    assume match: "take 4 (drop i s) = ''/dv/''"
    have "drop i s = ''/dv/'' @ drop (i + 4) s"
      using append_take_drop_id [of 4 "drop i s"] match by (simp add: add.commute)
    then have "s = take i s @ ''/dv/'' @ drop (i + 4) s" by (metis append_take_drop_id)
    moreover have "take i s = take i dir" using i by (simp add: s_def)
    ultimately have s: "s = take i dir @ ''/dv/'' @ drop (i + 4) s" by simp
    have "dir ! i = s ! i" using i by (simp add: s_def nth_append)
    also have "\<dots> = (take i dir @ ''/dv/'' @ drop (i + 4) s) ! length (take i dir)"
      using s i by (metis length_take less_imp_le_nat min.absorb2)
    also have "\<dots> = CHR ''/''" by (simp add: nth_append)
    finally have dir: "dir = take i dir @ CHR ''/'' # drop (Suc i) dir"
      using i by (metis id_take_nth_drop)
    have segs: "segments_of dir = segments_of (take i dir) @ segments_of (drop (Suc i) dir)"
      by (subst dir) (rule segments_of_slash)
    have "segments_of s = segments_of (take i dir) @ ''dv'' # segments_of (drop (i + 4) s)"
      by (subst s) (rule segments_dv)
    moreover have "segments_of s = segments_of (take i dir) @ segments_of (drop (Suc i) dir) @ ''dv'' # segments_of rest"
      using segments_dv [of dir rest] segs by (simp add: s_def)
    ultimately have "hd (segments_of (drop (Suc i) dir)) = ''dv''"
      by (metis hd_append2 list.sel(1) same_append_eq segments_of_not_Nil)
    then have "''dv'' \<in> set (segments_of dir)"
      using segs by (metis Un_iff hd_in_set segments_of_not_Nil set_append)
    with assms show False by blast
  qed
  then show "take (length ''/dv/'') (drop i (dir @ ''/dv/'' @ rest)) \<noteq> ''/dv/''"
    by (simp only: s_def) (simp add: numeral_eq_Suc)
qed

subsection \<open>Paths of one batch\<close>

definition object_dir :: "string \<Rightarrow> string \<Rightarrow> string \<Rightarrow> string" where
  "object_dir table shard w =
     ''yuntun/'' @ map (\<lambda>c. if c = CHR ''.'' then CHR ''/'' else c) table @ ''/dt='' @ w @ ''/shard='' @ shard"

lemma file_path_dir: "file_path table shard w bid fmt = object_dir table shard w @ ''/'' @ bid @ ''.'' @ ext fmt"
  by (simp add: file_path_def object_dir_def Let_def)

lemma ends_with_iff: "ends_with suffix s \<longleftrightarrow> (\<exists>p. s = p @ suffix)"
proof
  assume "ends_with suffix s"
  then have "s = take (length s - length suffix) s @ suffix"
    using append_take_drop_id [of "length s - length suffix" s] by (simp add: ends_with_def)
  then show "\<exists>p. s = p @ suffix" ..
qed (auto simp: ends_with_def)

lemma format_of_file_path [simp]: "format_from_path (file_path table shard w bid fmt) = fmt"
proof -
  let ?p = "object_dir table shard w @ ''/'' @ bid"
  have "\<not> ends_with ''.vortex'' (?p @ ''.parquet'')" by (simp add: ends_with_def)
  moreover have "ends_with ''.vortex'' (?p @ ''.vortex'')" by (simp only: ends_with_iff) blast
  ultimately show ?thesis by (cases fmt) (simp_all add: format_from_path_def file_path_dir)
qed

lemma ext_plain [simp]: "CHR ''.'' \<notin> set (ext fmt)" "CHR ''/'' \<notin> set (ext fmt)"
  by (cases fmt; simp)+

lemma extract_file_path:
  "CHR ''/'' \<notin> set bid \<Longrightarrow> extract_batch_id (file_path table shard w bid fmt) = Some bid"
  using rsplit_once_append [of "CHR ''/''" "bid @ ''.'' @ ext fmt" "object_dir table shard w"]
    rsplit_once_append [of "CHR ''.''" "ext fmt" bid]
  by (simp add: extract_batch_id_def file_path_dir)

lemma index_of_file_path:
  "index_path (file_path table shard w bid fmt) = object_dir table shard w @ ''/'' @ bid @ ''.idx''"
  using rsplit_once_append [of "CHR ''.''" "ext fmt" "object_dir table shard w @ ''/'' @ bid"]
  by (simp add: index_path_def file_path_dir)

subsection \<open>The keys of the objects of a batch\<close>

text \<open>A table whose schema and name are valid and not \<open>dv\<close>, with shard and window free of slashes.\<close>

definition regular_location :: "string \<Rightarrow> string \<Rightarrow> string \<Rightarrow> bool" where
  "regular_location table shard w \<longleftrightarrow>
     (case split_once CHR ''.'' table of
        None \<Rightarrow> False
      | Some (ns, name) \<Rightarrow> validate_schema_name ns \<and> validate_table_name name \<and> ns \<noteq> ''dv'' \<and> name \<noteq> ''dv'') \<and>
     CHR ''/'' \<notin> set shard \<and> CHR ''/'' \<notin> set w"

lemma valid_name_plain:
  "list_all name_char s \<Longrightarrow> CHR ''/'' \<notin> set s \<and> map (\<lambda>c. if c = CHR ''.'' then CHR ''/'' else c) s = s"
  by (induction s) (auto simp: name_char_def is_ascii_alphanumeric_def)

lemma object_dir_segments:
  assumes "list_all name_char ns" "list_all name_char name" "CHR ''/'' \<notin> set shard" "CHR ''/'' \<notin> set w"
  shows "segments_of (object_dir (ns @ CHR ''.'' # name) shard w) =
    [''yuntun'', ns, name, ''dt='' @ w, ''shard='' @ shard]"
proof -
  have "object_dir (ns @ CHR ''.'' # name) shard w =
      ''yuntun'' @ CHR ''/'' # ns @ CHR ''/'' # name @ CHR ''/'' # (''dt='' @ w) @ CHR ''/'' # ''shard='' @ shard"
    using assms(1,2) by (simp add: object_dir_def valid_name_plain)
  with assms show ?thesis
    by (simp only: segments_of_slash) (simp add: segments_of_plain valid_name_plain)
qed

lemma regular_dir:
  assumes "regular_location table shard w"
  shows "''dv'' \<notin> set (segments_of (object_dir table shard w))"
proof -
  obtain ns name where "split_once CHR ''.'' table = Some (ns, name)" "validate_schema_name ns"
    "validate_table_name name" "ns \<noteq> ''dv''" "name \<noteq> ''dv''"
    using assms by (auto simp: regular_location_def split: option.splits)
  with split_once_Some [OF this(1)] assms show ?thesis
    by (auto simp: object_dir_segments validate_schema_name_def validate_table_name_def regular_location_def)
qed

lemma regular_no_anchor:
  assumes "regular_location table shard w" "CHR ''/'' \<notin> set file_name" "file_name \<noteq> ''dv''"
  shows "dv_anchor_batch_id (object_dir table shard w @ ''/'' @ file_name) = None"
proof -
  have "''dv'' \<notin> set (segments_of (object_dir table shard w @ CHR ''/'' # file_name))"
    using regular_dir [OF assms(1)] assms(2,3)
    by (simp only: segments_of_slash) (simp add: segments_of_plain)
  from no_dv_anchor [OF this] show ?thesis by (simp add: dv_anchor_batch_id_def)
qed

lemma data_file_key:
  assumes "regular_location table shard w" "CHR ''/'' \<notin> set bid"
  shows "dv_anchor_batch_id (file_path table shard w bid fmt) = None"
    and "reconciliation_key (file_path table shard w bid fmt) = Some bid"
proof -
  have "bid @ ''.'' @ ext fmt \<noteq> ''dv''" by (cases fmt; cases bid) (auto simp: Cons_eq_append_conv)
  then show anchor: "dv_anchor_batch_id (file_path table shard w bid fmt) = None"
    using regular_no_anchor [OF assms(1), of "bid @ ''.'' @ ext fmt"] assms(2) by (simp add: file_path_dir)
  show "reconciliation_key (file_path table shard w bid fmt) = Some bid"
    using extract_file_path [OF assms(2)] by (simp add: reconciliation_key_def anchor)
qed

lemma index_file_key:
  assumes "regular_location table shard w" "CHR ''/'' \<notin> set bid"
  shows "dv_anchor_batch_id (index_path (file_path table shard w bid fmt)) = None"
    and "reconciliation_key (index_path (file_path table shard w bid fmt)) = Some bid"
proof -
  have "bid @ ''.idx'' \<noteq> ''dv''" by (cases bid) (auto simp: Cons_eq_append_conv)
  then show anchor: "dv_anchor_batch_id (index_path (file_path table shard w bid fmt)) = None"
    using regular_no_anchor [OF assms(1), of "bid @ ''.idx''"] assms(2) by (simp add: index_of_file_path)
  have "rsplit_once CHR ''/'' (object_dir table shard w @ ''/'' @ bid @ ''.idx'') =
      Some (object_dir table shard w, bid @ ''.idx'')"
    using rsplit_once_append [of "CHR ''/''" "bid @ ''.idx''" "object_dir table shard w"] assms(2) by simp
  moreover have "rsplit_once CHR ''.'' (bid @ ''.idx'') = Some (bid, ''idx'')"
    using rsplit_once_append [of "CHR ''.''" "''idx''" bid] by simp
  ultimately show "reconciliation_key (index_path (file_path table shard w bid fmt)) = Some bid"
    using anchor by (simp add: reconciliation_key_def extract_batch_id_def index_of_file_path)
qed

lemma dv_object_key:
  assumes "regular_location table shard w" "CHR ''/'' \<notin> set bid"
  shows "dv_anchor_batch_id (dv_object_path (file_path table shard w bid fmt) dv_id) = Some bid"
    and "reconciliation_key (dv_object_path (file_path table shard w bid fmt) dv_id) = Some bid"
proof -
  let ?name = "bid @ ''.'' @ ext fmt"
  have name: "CHR ''/'' \<notin> set ?name" "?name \<noteq> []" using assms(2) by auto
  have "dv_object_path (file_path table shard w bid fmt) dv_id =
      object_dir table shard w @ ''/dv/'' @ ?name @ ''/'' @ dv_id @ ''.bin''"
    using dv_object_path_plain [OF name(1), of "object_dir table shard w" dv_id] by (simp add: file_path_dir)
  moreover have "split_once CHR ''/'' (?name @ ''/'' @ dv_id @ ''.bin'') = Some (?name, dv_id @ ''.bin'')"
    using split_once_append [OF name(1), of "dv_id @ ''.bin''"] by simp
  moreover have "rsplit_once CHR ''.'' ?name = Some (bid, ext fmt)"
    using rsplit_once_append [of "CHR ''.''" "ext fmt" bid] by simp
  ultimately show "dv_anchor_batch_id (dv_object_path (file_path table shard w bid fmt) dv_id) = Some bid"
    using first_dv_anchor [OF regular_dir [OF assms(1)], of "?name @ ''/'' @ dv_id @ ''.bin''"]
    by (simp add: dv_anchor_batch_id_def)
  then show "reconciliation_key (dv_object_path (file_path table shard w bid fmt) dv_id) = Some bid"
    by (simp add: reconciliation_key_def)
qed

text \<open>A data file of a table that is called \<open>dv\<close> is taken for a deletion vector.\<close>

lemma dv_table_key:
  assumes "list_all name_char ns" "ns \<noteq> ''dv''" "CHR ''/'' \<notin> set w" "CHR ''.'' \<notin> set w"
  shows "dv_anchor_batch_id (file_path (qualified_name ns ''dv'') shard w bid fmt) = Some (''dt='' @ w)"
    and "reconciliation_key (file_path (qualified_name ns ''dv'') shard w bid fmt) = Some (''dt='' @ w)"
proof -
  let ?dir = "''yuntun/'' @ ns"
  let ?rest = "''dt='' @ w @ ''/shard='' @ shard @ ''/'' @ bid @ ''.'' @ ext fmt"
  have "segments_of ?dir = [''yuntun'', ns]"
    using segments_of_slash [of "''yuntun''" ns] valid_name_plain [OF assms(1)] by (simp add: segments_of_plain)
  then have "split_once_str ''/dv/'' (?dir @ ''/dv/'' @ ?rest) = Some (?dir, ?rest)"
    using first_dv_anchor [of ?dir ?rest] assms(2) by simp
  moreover have "file_path (qualified_name ns ''dv'') shard w bid fmt = ?dir @ ''/dv/'' @ ?rest"
    using valid_name_plain [OF assms(1)] by (simp add: file_path_def qualified_name_def Let_def)
  moreover have "split_once CHR ''/'' ?rest = Some (''dt='' @ w, ''shard='' @ shard @ ''/'' @ bid @ ''.'' @ ext fmt)"
    using split_once_append [of "CHR ''/''" "''dt='' @ w"] assms(3) by simp
  moreover have "rsplit_once CHR ''.'' (''dt='' @ w) = None"
  proof -
    have "split_once CHR ''.'' (rev (''dt='' @ w)) = None"
      unfolding split_once_None_iff using assms(4) by simp
    then show ?thesis by (simp add: rsplit_once_def)
  qed
  ultimately show "dv_anchor_batch_id (file_path (qualified_name ns ''dv'') shard w bid fmt) = Some (''dt='' @ w)"
    by (simp add: dv_anchor_batch_id_def)
  then show "reconciliation_key (file_path (qualified_name ns ''dv'') shard w bid fmt) = Some (''dt='' @ w)"
    by (simp add: reconciliation_key_def)
qed

end
