(* ===== verification/Orphan_Gc.thy ===== *)
theory Orphan_Gc
  imports Object_Paths Catalog_Retention
begin

text \<open>
  The collection of orphaned objects (\<open>orphan_cleanup_round\<close> of \<open>crates/compaction/src/lib.rs\<close>). A round lists the
  objects under a prefix, reads the keys that the catalog protects, and deletes what it has seen
  unprotected for the grace period. A prefix is written with its closing slash, as the store compares whole
  path segments, and the store lists paths in ascending order. The listing, the two catalog calls and every deletion may fail:
  \<open>gc_io\<close> says which of them do.
\<close>

definition starts_with :: "string \<Rightarrow> string \<Rightarrow> bool" where
  "starts_with prefix s \<longleftrightarrow> take (length prefix) s = prefix"

definition list_objects :: "object_store \<Rightarrow> string \<Rightarrow> (string \<times> nat) list" where
  "list_objects store prefix =
     map (\<lambda>(p, bs). (p, length bs)) (filter (\<lambda>(p, _). starts_with prefix p) (bm_entries store))"

definition dv_object_paths :: "catalog_state \<Rightarrow> string list" where
  "dv_object_paths st = map de_store_path (all_deletions st)"

record gc_io =
  gi_list_ok :: bool
  gi_known_ok :: bool
  gi_referenced_ok :: bool
  gi_delete_ok :: "string \<Rightarrow> bool"

record gc_state =
  gs_store :: object_store
  gs_first_seen :: "(string, nat) bmap"

text \<open>The loop over the listing; it also counts the deletions and collects the keys it met.\<close>

fun gc_loop ::
  "(string \<Rightarrow> bool) \<Rightarrow> nat \<Rightarrow> nat \<Rightarrow> string list \<Rightarrow> string list \<Rightarrow> (string \<times> nat) list \<Rightarrow>
    nat \<Rightarrow> string list \<Rightarrow> gc_state \<Rightarrow> nat \<times> string list \<times> gc_state" where
  "gc_loop delete_ok now_ms grace known referenced [] removed current s = (removed, current, s)"
| "gc_loop delete_ok now_ms grace known referenced ((path, _) # objects) removed current s =
     (case reconciliation_key path of
        None \<Rightarrow> gc_loop delete_ok now_ms grace known referenced objects removed current s
      | Some bid \<Rightarrow>
          let current' = bid # current in
          if is_object_protected path known referenced
          then gc_loop delete_ok now_ms grace known referenced objects removed current'
                 (s\<lparr>gs_first_seen := bm_remove bid (gs_first_seen s)\<rparr>)
          else
            let seen_at = (case bm_get (gs_first_seen s) bid of Some t \<Rightarrow> t | None \<Rightarrow> now_ms);
                s1 = s\<lparr>gs_first_seen := bm_insert bid seen_at (gs_first_seen s)\<rparr>
            in if sat_sub now_ms seen_at < grace
               then gc_loop delete_ok now_ms grace known referenced objects removed current' s1
               else if delete_ok path
               then gc_loop delete_ok now_ms grace known referenced objects (removed + 1) current'
                 \<lparr>gs_store = bm_remove path (gs_store s1), gs_first_seen = bm_remove bid (gs_first_seen s1)\<rparr>
               else gc_loop delete_ok now_ms grace known referenced objects removed current' s1)"

definition orphan_cleanup_round ::
  "gc_io \<Rightarrow> string \<Rightarrow> nat \<Rightarrow> nat \<Rightarrow> catalog_state \<Rightarrow> gc_state \<Rightarrow> nat option \<times> gc_state" where
  "orphan_cleanup_round io prefix grace now_ms st s =
     (if \<not> gi_list_ok io then (None, s)
      else
        let objects = list_objects (gs_store s) prefix in
        if \<not> gi_known_ok io then (None, s)
        else
          let known = known_batch_ids st in
          if \<not> gi_referenced_ok io then (None, s)
          else
            let referenced_dv = dv_object_paths st;
                (removed, current, s1) = gc_loop (gi_delete_ok io) now_ms grace known referenced_dv objects 0 [] s
            in (Some removed,
                s1\<lparr>gs_first_seen := bm_filter (\<lambda>bid _. bid \<in> set current) (gs_first_seen s1)\<rparr>))"

subsection \<open>The loop\<close>

lemma gc_loop_append:
  "gc_loop del now g known ref (xs @ ys) r c s =
    (case gc_loop del now g known ref xs r c s of (r', c', s') \<Rightarrow> gc_loop del now g known ref ys r' c' s')"
  by (induction xs arbitrary: r c s) (auto simp: Let_def split: option.split)

lemma gc_loop_other_key:
  assumes "\<forall>x \<in> set objs. reconciliation_key (fst x) \<noteq> Some k" "gc_loop del now g known ref objs r c s = (r', c', s')"
  shows "bm_get (gs_first_seen s') k = bm_get (gs_first_seen s) k"
  using assms
proof (induction objs arbitrary: r c s)
  case (Cons x objs)
  then show ?case
    by (cases x) (fastforce simp: Let_def bm_simps split: option.splits if_splits)
qed simp

lemma gc_loop_other_path:
  assumes "p \<notin> fst ` set objs" "gc_loop del now g known ref objs r c s = (r', c', s')"
  shows "bm_get (gs_store s') p = bm_get (gs_store s) p"
  using assms
proof (induction objs arbitrary: r c s)
  case (Cons x objs)
  then show ?case
    by (cases x) (fastforce simp: Let_def bm_simps split: option.splits if_splits)
qed simp

lemma gc_loop_protected:
  assumes "is_object_protected p known ref" "gc_loop del now g known ref objs r c s = (r', c', s')"
  shows "bm_get (gs_store s') p = bm_get (gs_store s) p"
  using assms
proof (induction objs arbitrary: r c s)
  case (Cons x objs)
  then show ?case
    by (cases x) (fastforce simp: Let_def bm_simps split: option.splits if_splits)
qed simp

lemma gc_loop_current:
  "gc_loop del now g known ref objs r c s = (r', c', s') \<Longrightarrow>
    set c' = set c \<union> {k. \<exists>x \<in> set objs. reconciliation_key (fst x) = Some k}"
proof (induction objs arbitrary: r c s)
  case (Cons x objs)
  then show ?case by (cases x) (fastforce simp: Let_def split: option.splits if_splits)
qed simp

lemma list_objects_iff:
  "(p, n) \<in> set (list_objects store prefix) \<longleftrightarrow>
    starts_with prefix p \<and> (\<exists>bs. bm_get store p = Some bs \<and> n = length bs)"
  by (auto simp: list_objects_def bm_entries_get image_iff split: prod.splits)

lemma list_objects_distinct: "distinct (map fst (list_objects store prefix))"
proof -
  have "map fst (list_objects store prefix) = map fst (filter (\<lambda>(p, _). starts_with prefix p) (bm_entries store))"
    by (auto simp: list_objects_def)
  then show ?thesis
    using al_sorted_distinct [OF bm_entries_sorted, of store] by (simp add: distinct_map_filter)
qed

text \<open>Nothing protected is deleted, whatever fails in the round.\<close>

lemma round_keeps_protected:
  assumes "is_object_protected p (known_batch_ids st) (dv_object_paths st)"
  shows "bm_get (gs_store (snd (orphan_cleanup_round io prefix g now st s))) p = bm_get (gs_store s) p"
  using gc_loop_protected [OF assms]
  by (auto simp: orphan_cleanup_round_def Let_def split: prod.split)

lemma list_objects_sorted: "sorted_wrt (<) (map fst (list_objects store prefix))"
proof -
  have "map fst (list_objects store prefix) = filter (starts_with prefix) (bm_keys store)"
    by (auto simp: list_objects_def bm_keys_def filter_map comp_def case_prod_unfold)
  then show ?thesis using bm_keys_strict_sorted [of store] by (simp add: sorted_wrt_filter)
qed

subsection \<open>What is never deleted\<close>


subsection \<open>What is deleted\<close>

text \<open>The only object with key \<open>k\<close> under the prefix.\<close>

definition only_object :: "string \<Rightarrow> string \<Rightarrow> string \<Rightarrow> object_store \<Rightarrow> bool" where
  "only_object prefix k p store \<longleftrightarrow>
     starts_with prefix p \<and> bm_get store p \<noteq> None \<and> reconciliation_key p = Some k \<and>
     list_all (\<lambda>q. reconciliation_key q = Some k \<longrightarrow> q = p) (bm_keys store)"

lemma only_object_split:
  assumes "only_object prefix k p store"
  obtains xs n ys where "list_objects store prefix = xs @ (p, n) # ys"
    "\<forall>x \<in> set xs. reconciliation_key (fst x) \<noteq> Some k" "\<forall>x \<in> set ys. reconciliation_key (fst x) \<noteq> Some k"
    "p \<notin> fst ` set xs" "p \<notin> fst ` set ys"
proof -
  obtain n where "(p, n) \<in> set (list_objects store prefix)"
    using assms by (auto simp: only_object_def list_objects_iff)
  then obtain xs ys where split: "list_objects store prefix = xs @ (p, n) # ys" by (meson split_list)
  have "p \<notin> fst ` set xs" "p \<notin> fst ` set ys"
    using list_objects_distinct [of store prefix] by (auto simp: split)
  moreover have "reconciliation_key (fst x) \<noteq> Some k" if "x \<in> set (xs @ ys)" for x
  proof
    assume key: "reconciliation_key (fst x) = Some k"
    have "x \<in> set (list_objects store prefix)" using that split by auto
    then have "bm_get store (fst x) \<noteq> None"
      using list_objects_iff [of "fst x" "snd x" store prefix] by auto
    then have "fst x = p" using assms key by (auto simp: only_object_def list_all_iff bm_keys_iff)
    with that calculation show False by force
  qed
  ultimately show thesis using that split by auto
qed

definition gc_works :: "gc_io \<Rightarrow> string \<Rightarrow> bool" where
  "gc_works io p \<longleftrightarrow> gi_list_ok io \<and> gi_known_ok io \<and> gi_referenced_ok io \<and> gi_delete_ok io p"

lemma orphan_round:
  assumes "only_object prefix k p (gs_store s)" "k \<notin> set (known_batch_ids st)" "gc_works io p"
    and "seen = (case bm_get (gs_first_seen s) k of Some t \<Rightarrow> t | None \<Rightarrow> now)"
    and "s' = snd (orphan_cleanup_round io prefix grace now st s)"
  shows "if now - seen < grace
    then bm_get (gs_store s') p = bm_get (gs_store s) p \<and> bm_get (gs_first_seen s') k = Some seen
    else bm_get (gs_store s') p = None"
proof -
  let ?known = "known_batch_ids st" and ?ref = "dv_object_paths st"
  let ?loop = "gc_loop (gi_delete_ok io) now grace ?known ?ref"
  obtain xs n ys where objs: "list_objects (gs_store s) prefix = xs @ (p, n) # ys"
    and other: "\<forall>x \<in> set xs. reconciliation_key (fst x) \<noteq> Some k" "\<forall>x \<in> set ys. reconciliation_key (fst x) \<noteq> Some k"
      "p \<notin> fst ` set xs" "p \<notin> fst ` set ys"
    by (rule only_object_split [OF assms(1)])
  have key: "reconciliation_key p = Some k" "\<not> is_object_protected p ?known ?ref"
    using assms(1,2) by (auto simp: only_object_def is_object_protected_def)
  obtain r1 c1 s1 where l1: "?loop xs 0 [] s = (r1, c1, s1)" using prod_cases3 by blast
  obtain r3 c3 s3 where l3: "?loop ((p, n) # ys) r1 c1 s1 = (r3, c3, s3)" using prod_cases3 by blast
  have s': "s' = s3\<lparr>gs_first_seen := bm_filter (\<lambda>bid _. bid \<in> set c3) (gs_first_seen s3)\<rparr>"
    using assms(3,5) by (simp add: orphan_cleanup_round_def gc_works_def Let_def objs gc_loop_append l1 l3
        del: gc_loop.simps)
  have before: "bm_get (gs_first_seen s1) k = bm_get (gs_first_seen s) k" "bm_get (gs_store s1) p = bm_get (gs_store s) p"
    using gc_loop_other_key [OF other(1) l1] gc_loop_other_path [OF other(3) l1] by auto
  have cur: "k \<in> set c3" using gc_loop_current [OF l3] key(1) by auto
  show ?thesis
  proof (cases "now - seen < grace")
    case True
    then have "?loop ys r1 (k # c1) (s1\<lparr>gs_first_seen := bm_insert k seen (gs_first_seen s1)\<rparr>) = (r3, c3, s3)"
      using l3 key before(1) assms(4) by (simp add: Let_def split: option.splits)
    from gc_loop_other_key [OF other(2) this] gc_loop_other_path [OF other(4) this] True cur before(2)
    show ?thesis by (simp add: s' bm_simps)
  next
    case False
    then have "?loop ys (r1 + 1) (k # c1) \<lparr>gs_store = bm_remove p (gs_store s1),
        gs_first_seen = bm_remove k (bm_insert k seen (gs_first_seen s1))\<rparr> = (r3, c3, s3)"
      using l3 key before(1) assms(3,4) by (simp add: Let_def gc_works_def split: option.splits)
    from gc_loop_other_path [OF other(4) this] False show ?thesis by (simp add: s' bm_simps)
  qed
qed

lemma collected_after_grace:
  assumes "only_object prefix k p (gs_store s)" "only_object prefix k p store2"
    and "k \<notin> set (known_batch_ids st1)" "k \<notin> set (known_batch_ids st2)" "gc_works io1 p" "gc_works io2 p"
    and "bm_get (gs_first_seen s) k = None" "t1 + grace \<le> t2"
  shows "bm_get (gs_store (snd (orphan_cleanup_round io2 prefix grace t2 st2
    ((snd (orphan_cleanup_round io1 prefix grace t1 st1 s))\<lparr>gs_store := store2\<rparr>)))) p = None"
proof (cases "grace = 0")
  case True
  then show ?thesis
    using orphan_round [OF _ assms(4,6) refl refl, of prefix "(snd (orphan_cleanup_round io1 prefix grace t1 st1 s))\<lparr>gs_store := store2\<rparr>"
        t2 grace] assms(2) by simp
next
  case False
  let ?s1 = "snd (orphan_cleanup_round io1 prefix grace t1 st1 s)"
  have "bm_get (gs_first_seen ?s1) k = Some t1"
    using orphan_round [OF assms(1,3,5) refl refl, of t1 grace] assms(7) False by simp
  then show ?thesis
    using orphan_round [OF _ assms(4,6) refl refl, of prefix "?s1\<lparr>gs_store := store2\<rparr>" t2 grace] assms(2,8) by simp
qed

text \<open>Orphans are collected. An object whose batch the catalog does not know is gone after the second of two
  rounds that are at least the grace period apart, if listing, catalog and deletion work in them and no
  other object has the same key, whatever was uploaded or deleted in between.\<close>

theorem orphan_is_collected:
  assumes "only_object prefix k p (gs_store s)" "only_object prefix k p store2"
    and "k \<notin> set (known_batch_ids st1)" "k \<notin> set (known_batch_ids st2)" "gc_works io1 p" "gc_works io2 p"
    and "bm_get (gs_first_seen s) k = None" "t1 + grace \<le> t2"
    and "s1 = snd (orphan_cleanup_round io1 prefix grace t1 st1 s)"
  shows "bm_get (gs_store (snd (orphan_cleanup_round io2 prefix grace t2 st2 (s1\<lparr>gs_store := store2\<rparr>)))) p = None"
  using collected_after_grace [OF assms(1-8)] assms(9) by simp

text \<open>The collector deletes the files of a table called \<open>dv\<close>. The name is valid, but the path of such a file is
  taken for the path of a deletion vector, so the file is looked up under its time window instead of
  its batch: two rounds the grace period apart delete an object that the current listing of the table
  shows, unless some batch has the window for its id.\<close>

theorem gc_deletes_files_of_dv_table:
  assumes "f \<in> set (list_visible_files (qualified_name ns ''dv'') (snapshot_version st) None st)"
    and "fm_file_path f = file_path (qualified_name ns ''dv'') shard w (fm_batch_id f) fmt"
    and "validate_schema_name ns" "ns \<noteq> ''dv''" "CHR ''/'' \<notin> set w" "CHR ''.'' \<notin> set w"
    and "''dt='' @ w \<notin> set (known_batch_ids st)" "bm_get (gs_first_seen s) (''dt='' @ w) = None"
    and "list_all (\<lambda>store. starts_with prefix (fm_file_path f) \<and> bm_has store (fm_file_path f) \<and>
      list_all (\<lambda>q. reconciliation_key q = Some (''dt='' @ w) \<longrightarrow> q = fm_file_path f) (bm_keys store))
      [gs_store s, store2]"
    and "gc_works io (fm_file_path f)" "t1 + grace \<le> t2"
    and "s1 = snd (orphan_cleanup_round io prefix grace t1 st s)"
  shows "validate_table_name ''dv'' \<and>
    bm_get (gs_store (snd (orphan_cleanup_round io prefix grace t2 st (s1\<lparr>gs_store := store2\<rparr>)))) (fm_file_path f) = None"
proof
  have key: "reconciliation_key (fm_file_path f) = Some (''dt='' @ w)"
    using dv_table_key(2) [of ns w] assms(2-6) by (simp add: validate_schema_name_def)
  have "only_object prefix (''dt='' @ w) (fm_file_path f) (gs_store s)"
    "only_object prefix (''dt='' @ w) (fm_file_path f) store2"
    using assms(9) key by (simp_all add: only_object_def bm_has_def)
  from collected_after_grace [OF this assms(7,7,10,10,8,11)] assms(12)
  show "bm_get (gs_store (snd (orphan_cleanup_round io prefix grace t2 st (s1\<lparr>gs_store := store2\<rparr>)))) (fm_file_path f) = None"
    by simp
  show "validate_table_name ''dv''" by code_simp
qed

subsection \<open>A deletion vector nobody refers to\<close>

text \<open>The key of a batch has not been seen before the current round.\<close>

definition fresh_key :: "string \<Rightarrow> nat \<Rightarrow> gc_state \<Rightarrow> bool" where
  "fresh_key k now s \<longleftrightarrow> bm_get (gs_first_seen s) k = None \<or> bm_get (gs_first_seen s) k = Some now"

lemma gc_loop_fresh:
  assumes "fresh_key k now s" "0 < g" "reconciliation_key p = Some k"
    and "gc_loop del now g known ref objs r c s = (r', c', s')"
  shows "bm_get (gs_store s') p = bm_get (gs_store s) p"
  using assms
proof (induction objs arbitrary: r c s)
  case (Cons x objs)
  obtain q n where x: "x = (q, n)" by (cases x)
  have "\<exists>r1 c1 s1. gc_loop del now g known ref (x # objs) r c s = gc_loop del now g known ref objs r1 c1 s1 \<and>
      fresh_key k now s1 \<and> bm_get (gs_store s1) p = bm_get (gs_store s) p"
  proof (cases "reconciliation_key q")
    case None
    then have "gc_loop del now g known ref (x # objs) r c s = gc_loop del now g known ref objs r c s"
      by (simp add: x)
    with Cons.prems(1) show ?thesis by blast
  next
    case (Some bid)
    let ?seen = "case bm_get (gs_first_seen s) bid of Some t \<Rightarrow> t | None \<Rightarrow> now"
    let ?marked = "s\<lparr>gs_first_seen := bm_insert bid ?seen (gs_first_seen s)\<rparr>"
    let ?cleared = "s\<lparr>gs_first_seen := bm_remove bid (gs_first_seen s)\<rparr>"
    let ?deleted = "\<lparr>gs_store = bm_remove q (gs_store ?marked), gs_first_seen = bm_remove bid (gs_first_seen ?marked)\<rparr>"
    have "fresh_key k now ?marked" "fresh_key k now ?cleared" "fresh_key k now ?deleted"
      using Cons.prems(1) by (auto simp: fresh_key_def bm_simps)
    moreover have "now - ?seen < g \<or> bm_get (gs_store ?deleted) p = bm_get (gs_store s) p"
      using Cons.prems(1-3) Some by (cases "bid = k") (auto simp: fresh_key_def bm_simps)
    moreover have "gc_loop del now g known ref (x # objs) r c s =
        (if is_object_protected q known ref then gc_loop del now g known ref objs r (bid # c) ?cleared
         else if now - ?seen < g then gc_loop del now g known ref objs r (bid # c) ?marked
         else if del q then gc_loop del now g known ref objs (r + 1) (bid # c) ?deleted
         else gc_loop del now g known ref objs r (bid # c) ?marked)"
      by (simp add: x Some Let_def)
    ultimately show ?thesis
      by (cases "is_object_protected q known ref"; cases "now - ?seen < g"; cases "del q") force+
  qed
  then obtain r1 c1 s1 where "gc_loop del now g known ref objs r1 c1 s1 = (r', c', s')" "fresh_key k now s1"
    "bm_get (gs_store s1) p = bm_get (gs_store s) p" using Cons.prems(4) by auto
  with Cons.IH [OF this(2) Cons.prems(2,3) this(1)] show ?case by simp
qed simp

lemma round_keeps_dv:
  assumes "regular_location table shard w" "CHR ''/'' \<notin> set bid" "data = file_path table shard w bid fmt"
    and "p = dv_object_path data dv_id" "data < p" "0 < grace" "starts_with prefix data" "starts_with prefix p"
    and "bm_has (gs_store s) data" "bm_has (gs_store s) p" "bid \<in> set (known_batch_ids st)"
    and "s' = snd (orphan_cleanup_round io prefix grace now st s)"
  shows "bm_get (gs_store s') p = bm_get (gs_store s) p \<and> bm_has (gs_store s') data"
proof (cases "gi_list_ok io \<and> gi_known_ok io \<and> gi_referenced_ok io")
  case True
  let ?known = "known_batch_ids st" and ?ref = "dv_object_paths st"
  let ?loop = "gc_loop (gi_delete_ok io) now grace ?known ?ref"
  note keys = data_file_key [OF assms(1,2), of fmt] dv_object_key [OF assms(1,2), of fmt dv_id]
  have prot: "is_object_protected data ?known ?ref"
    using assms(3,11) keys by (simp add: is_object_protected_def)
  obtain n where "(data, n) \<in> set (list_objects (gs_store s) prefix)"
    using assms(7,9) by (auto simp: list_objects_iff bm_has_def)
  then obtain xs ys where objs: "list_objects (gs_store s) prefix = xs @ (data, n) # ys" by (meson split_list)
  have "p \<notin> fst ` set xs"
    using list_objects_sorted [of "gs_store s" prefix] assms(5) by (auto simp: objs sorted_wrt_append)
  obtain r1 c1 s1 where l1: "?loop xs 0 [] s = (r1, c1, s1)" using prod_cases3 by blast
  obtain r3 c3 s3 where l3: "?loop ((data, n) # ys) r1 c1 s1 = (r3, c3, s3)" using prod_cases3 by blast
  from l3 have l2: "?loop ys r1 (bid # c1) (s1\<lparr>gs_first_seen := bm_remove bid (gs_first_seen s1)\<rparr>) = (r3, c3, s3)"
    using keys prot assms(3) by (simp add: Let_def)
  have "fresh_key bid now (s1\<lparr>gs_first_seen := bm_remove bid (gs_first_seen s1)\<rparr>)"
    by (simp add: fresh_key_def bm_simps)
  from gc_loop_fresh [OF this assms(6) _ l2] keys(4) assms(3,4)
  have "bm_get (gs_store s3) p = bm_get (gs_store s1) p" by simp
  also have "\<dots> = bm_get (gs_store s) p" using gc_loop_other_path [OF _ l1] \<open>p \<notin> fst ` set xs\<close> by simp
  finally have "bm_get (gs_store s3) p = bm_get (gs_store s) p" .
  moreover have "gs_store s' = gs_store s3"
    using True assms(12) by (simp add: orphan_cleanup_round_def Let_def objs gc_loop_append l1 l3 del: gc_loop.simps)
  moreover have "bm_get (gs_store s') data = bm_get (gs_store s) data"
    using round_keeps_protected [OF prot] assms(12) by simp
  ultimately show ?thesis using assms(9) by (simp add: bm_has_def)
next
  case False
  then show ?thesis using assms(9,12) by (auto simp: orphan_cleanup_round_def Let_def)
qed

text \<open>An unreferenced deletion vector is never collected while its data file lives. In every round the
  protected data file clears the time at which the shared key was first seen, so the vector, whose
  registration never arrived, never reaches the grace period, after any number of rounds.\<close>

theorem unreferenced_dv_never_collected:
  assumes "regular_location table shard w" "CHR ''/'' \<notin> set bid" "data = file_path table shard w bid fmt"
    and "p = dv_object_path data dv_id" "data < p" "0 < grace" "starts_with prefix data" "starts_with prefix p"
    and "bm_has (gs_store s) data" "bm_has (gs_store s) p"
    and "\<forall>(io, now, st) \<in> set rounds. bid \<in> set (known_batch_ids st) \<and> p \<notin> set (dv_object_paths st)"
  shows "bm_has (gs_store (fold (\<lambda>(io, now, st) s. snd (orphan_cleanup_round io prefix grace now st s)) rounds s)) p"
  using assms(9-11)
proof (induction rounds arbitrary: s)
  case (Cons x rounds)
  obtain io now st where x: "x = (io, now, st)" using prod_cases3 by blast
  have "bid \<in> set (known_batch_ids st)" using Cons.prems x by auto
  from round_keeps_dv [OF assms(1-8) Cons.prems(1,2) this refl, of io now] Cons x show ?case
    by (auto simp: bm_has_def)
qed simp

subsection \<open>Witnesses\<close>

definition gc_ok :: gc_io where
  "gc_ok = \<lparr>gi_list_ok = True, gi_known_ok = True, gi_referenced_ok = True, gi_delete_ok = \<lambda>_. True\<rparr>"

definition gc_with :: "string \<Rightarrow> gc_state" where
  "gc_with p = \<lparr>gs_store = bm_insert p [1] bm_empty, gs_first_seen = bm_empty\<rparr>"

lemma gc_with_keys: "bm_keys (gs_store (gc_with p)) = [p]" "gs_first_seen (gc_with p) = bm_empty"
  "bm_get (gs_store (gc_with p)) q = (if q = p then Some [1] else None)" "gs_store (gc_with p) = bm_insert p [1] bm_empty"
  by (simp_all add: gc_with_def bm_keys_def bm_simps)

lemma demo_location: "regular_location ''public.t'' ''s0'' ''w''"
  by code_simp


theorem orphan_is_collected_witness:
  "bm_get (gs_store (snd (orphan_cleanup_round gc_ok ''yuntun/'' 10 20 new_state
     ((snd (orphan_cleanup_round gc_ok ''yuntun/'' 10 5 new_state (gc_with ''yuntun/t/x.parquet'')))
       \<lparr>gs_store := gs_store (gc_with ''yuntun/t/x.parquet'')\<rparr>)))) ''yuntun/t/x.parquet'' = None"
proof (rule orphan_is_collected)
  have "reconciliation_key ''yuntun/t/x.parquet'' = Some ''x''" "starts_with ''yuntun/'' ''yuntun/t/x.parquet''"
    by code_simp+
  then show "only_object ''yuntun/'' ''x'' ''yuntun/t/x.parquet'' (gs_store (gc_with ''yuntun/t/x.parquet''))"
    "only_object ''yuntun/'' ''x'' ''yuntun/t/x.parquet'' (gs_store (gc_with ''yuntun/t/x.parquet''))"
    by (simp_all add: only_object_def gc_with_keys(1,3))
  show "''x'' \<notin> set (known_batch_ids new_state)" "''x'' \<notin> set (known_batch_ids new_state)"
    by (simp_all add: known_batch_ids_iff new_state_def bm_has_def)
qed (simp_all add: gc_works_def gc_ok_def gc_with_keys(2))

definition dv_table_file :: file_manifest where
  "dv_table_file = (demo_file ''b1'')\<lparr>fm_table := ''public.dv'',
     fm_file_path := file_path ''public.dv'' ''s0'' ''w'' ''b1'' Parquet\<rparr>"

definition dv_table_store :: catalog_state where
  "dv_table_store = new_state\<lparr>files := bm_insert ''b1'' dv_table_file bm_empty\<rparr>"

theorem gc_deletes_files_of_dv_table_witness:
  "bm_get (gs_store (snd (orphan_cleanup_round gc_ok ''yuntun/'' 10 20 dv_table_store
     ((snd (orphan_cleanup_round gc_ok ''yuntun/'' 10 5 dv_table_store (gc_with (fm_file_path dv_table_file))))
       \<lparr>gs_store := gs_store (gc_with (fm_file_path dv_table_file))\<rparr>)))) (fm_file_path dv_table_file) = None"
proof -
  have name: "qualified_name ''public'' ''dv'' = ''public.dv''" by (simp add: qualified_name_def)
  have norm: "normalize_table ''public.dv'' = ''public.dv''" by code_simp
  have "dv_table_file \<in> set (bm_values (files dv_table_store))"
    unfolding bm_values_iff by (rule exI [of _ "''b1''"]) (simp add: dv_table_store_def bm_simps)
  moreover have "normalize_table (fm_table dv_table_file) = ''public.dv''"
    "visible_at dv_table_file (snapshot_version dv_table_store)"
    by (simp_all add: dv_table_file_def demo_file_def norm visible_at_def protects_at_def dv_table_store_def new_state_def)
  ultimately have listed: "dv_table_file \<in> set (list_visible_files (qualified_name ''public'' ''dv'')
      (snapshot_version dv_table_store) None dv_table_store)"
    by (simp add: list_visible_files_def Let_def norm name)
  have path: "fm_file_path dv_table_file = file_path (qualified_name ''public'' ''dv'') ''s0'' ''w'' (fm_batch_id dv_table_file) Parquet"
    by (simp add: dv_table_file_def name demo_file_def)
  have schema: "validate_schema_name ''public''" by code_simp
  have unknown: "''dt=w'' \<notin> set (known_batch_ids dv_table_store)"
    by (simp add: known_batch_ids_iff dv_table_store_def new_state_def bm_has_def bm_simps)
  have "starts_with ''yuntun/'' (fm_file_path dv_table_file)" by code_simp
  then have alone: "list_all (\<lambda>store. starts_with ''yuntun/'' (fm_file_path dv_table_file) \<and>
      bm_has store (fm_file_path dv_table_file) \<and>
      list_all (\<lambda>q. reconciliation_key q = Some (''dt='' @ ''w'') \<longrightarrow> q = fm_file_path dv_table_file) (bm_keys store))
      [gs_store (gc_with (fm_file_path dv_table_file)), gs_store (gc_with (fm_file_path dv_table_file))]"
    by (simp only: list.pred_inject gc_with_keys(1)) (simp add: bm_has_def gc_with_keys(3))
  from gc_deletes_files_of_dv_table [OF listed path schema _ _ _ _ _ alone _ _ refl, of gc_ok 5 10 20] unknown
  show ?thesis by (simp add: gc_with_keys(2) gc_works_def gc_ok_def)
qed

theorem unreferenced_dv_never_collected_witness:
  "bm_has (gs_store (fold (\<lambda>(io, now, st) s. snd (orphan_cleanup_round io ''yuntun/'' 10 now st s))
      [(gc_ok, 5, demo_store), (gc_ok, 50, demo_store), (gc_ok, 500, demo_store)]
      \<lparr>gs_store = bm_insert (file_path ''public.t'' ''s0'' ''w'' ''b1'' Parquet) [1]
         (bm_insert (dv_object_path (file_path ''public.t'' ''s0'' ''w'' ''b1'' Parquet) ''d'') [2] bm_empty),
       gs_first_seen = bm_empty\<rparr>)) (dv_object_path (file_path ''public.t'' ''s0'' ''w'' ''b1'' Parquet) ''d'')"
proof (rule unreferenced_dv_never_collected [OF demo_location _ refl refl])
  have "starts_with ''yuntun/'' (file_path ''public.t'' ''s0'' ''w'' ''b1'' Parquet) \<and>
    starts_with ''yuntun/'' (dv_object_path (file_path ''public.t'' ''s0'' ''w'' ''b1'' Parquet) ''d'') \<and>
    file_path ''public.t'' ''s0'' ''w'' ''b1'' Parquet < dv_object_path (file_path ''public.t'' ''s0'' ''w'' ''b1'' Parquet) ''d''"
    by code_simp
  then show "starts_with ''yuntun/'' (file_path ''public.t'' ''s0'' ''w'' ''b1'' Parquet)"
    "starts_with ''yuntun/'' (dv_object_path (file_path ''public.t'' ''s0'' ''w'' ''b1'' Parquet) ''d'')"
    "file_path ''public.t'' ''s0'' ''w'' ''b1'' Parquet < dv_object_path (file_path ''public.t'' ''s0'' ''w'' ''b1'' Parquet) ''d''"
    by blast+
  have "''b1'' \<in> set (known_batch_ids demo_store)" "dv_object_paths demo_store = []"
    by (simp_all add: known_batch_ids_iff demo_store_def new_state_def bm_simps demo_file_def protects_at_def
        dv_object_paths_def all_deletions_def bm_values_def)
  then show "\<forall>(io, now, st) \<in> set [(gc_ok, 5::nat, demo_store), (gc_ok, 50, demo_store), (gc_ok, 500, demo_store)].
      ''b1'' \<in> set (known_batch_ids st) \<and> dv_object_path (file_path ''public.t'' ''s0'' ''w'' ''b1'' Parquet) ''d'' \<notin>
        set (dv_object_paths st)"
    by simp
qed (simp_all add: bm_has_def bm_simps)

end
