(* ===== verification/Computation.thy ===== *)
theory Computation
  imports Prelude
begin

text \<open>
  Methods that change a state and may fail: a computation takes the state and returns a result and the
  new state, and an early return keeps the changes made so far. \<open>io_triple\<close> states what a computation
  ends with. The parameter \<open>'w\<close> is the state: a world of remote services, or a component of its own.
\<close>

definition io_return :: "'a \<Rightarrow> 'w \<Rightarrow> ('e + 'a) \<times> 'w" where
  "io_return x w = (Inr x, w)"

definition io_fail :: "'e \<Rightarrow> 'w \<Rightarrow> ('e + 'a) \<times> 'w" where
  "io_fail e w = (Inl e, w)"

text \<open>\<open>.await?\<close>: go on with the value, or return the error.\<close>

definition io_bind ::
  "('w \<Rightarrow> ('e + 'a) \<times> 'w) \<Rightarrow> ('a \<Rightarrow> 'w \<Rightarrow> ('e + 'b) \<times> 'w) \<Rightarrow> 'w \<Rightarrow> ('e + 'b) \<times> 'w" where
  "io_bind m f w = (case m w of (Inl e, w1) \<Rightarrow> (Inl e, w1) | (Inr x, w1) \<Rightarrow> f x w1)"

text \<open>A local computation that may fail.\<close>

definition io_lift :: "'e + 'a \<Rightarrow> 'w \<Rightarrow> ('e + 'a) \<times> 'w" where
  "io_lift r w = (r, w)"

subsection \<open>Triples\<close>

text \<open>
  \<open>io_triple P m Q E\<close>: started in a world with \<open>P\<close>, the computation \<open>m\<close> ends with \<open>Q\<close> and its value, or with
  \<open>E\<close> and an error.
\<close>

definition io_triple ::
  "('w \<Rightarrow> bool) \<Rightarrow> ('w \<Rightarrow> ('e + 'a) \<times> 'w) \<Rightarrow> ('a \<Rightarrow> 'w \<Rightarrow> bool) \<Rightarrow> ('e \<Rightarrow> 'w \<Rightarrow> bool) \<Rightarrow> bool" where
  "io_triple P m Q E \<longleftrightarrow>
     (\<forall>w. P w \<longrightarrow> (case m w of (Inr x, w') \<Rightarrow> Q x w' | (Inl e, w') \<Rightarrow> E e w'))"

lemma io_tripleI:
  assumes "\<And>w r w'. P w \<Longrightarrow> m w = (r, w') \<Longrightarrow> (case r of Inr x \<Rightarrow> Q x w' | Inl e \<Rightarrow> E e w')"
  shows "io_triple P m Q E"
  unfolding io_triple_def using assms by (force split: prod.split sum.split)

lemma io_triple_Inr: "io_triple P m Q E \<Longrightarrow> P w \<Longrightarrow> m w = (Inr x, w') \<Longrightarrow> Q x w'"
  by (auto simp: io_triple_def)

lemma io_triple_Inl: "io_triple P m Q E \<Longrightarrow> P w \<Longrightarrow> m w = (Inl e, w') \<Longrightarrow> E e w'"
  by (auto simp: io_triple_def)

lemma triple_bind:
  assumes "io_triple P m R E" "\<And>x. io_triple (R x) (f x) Q E"
  shows "io_triple P (io_bind m f) Q E"
  unfolding io_triple_def
proof (intro allI impI)
  fix w assume "P w"
  with assms(1) have m: "case m w of (Inr x, w') \<Rightarrow> R x w' | (Inl e, w') \<Rightarrow> E e w'"
    by (simp add: io_triple_def)
  obtain r w1 where mw: "m w = (r, w1)" by fastforce
  with m assms(2) show "case io_bind m f w of (Inr x, w') \<Rightarrow> Q x w' | (Inl e, w') \<Rightarrow> E e w'"
    by (cases r) (auto simp: io_bind_def io_triple_def)
qed

lemma triple_return: "(\<And>w. P w \<Longrightarrow> Q x w) \<Longrightarrow> io_triple P (io_return x) Q E"
  by (simp add: io_triple_def io_return_def)

lemma triple_fail: "(\<And>w. P w \<Longrightarrow> E e w) \<Longrightarrow> io_triple P (io_fail e) Q E"
  by (simp add: io_triple_def io_fail_def)

lemma triple_lift:
  "(\<And>w x. P w \<Longrightarrow> r = Inr x \<Longrightarrow> Q x w) \<Longrightarrow> (\<And>w e. P w \<Longrightarrow> r = Inl e \<Longrightarrow> E e w) \<Longrightarrow>
    io_triple P (io_lift r) Q E"
  by (cases r) (simp_all add: io_triple_def io_lift_def)

lemma triple_conseq:
  assumes "io_triple P' m Q' E'" "\<And>w. P w \<Longrightarrow> P' w" "\<And>x w. Q' x w \<Longrightarrow> Q x w" "\<And>e w. E' e w \<Longrightarrow> E e w"
  shows "io_triple P m Q E"
  unfolding io_triple_def
proof (intro allI impI)
  fix w assume "P w"
  with assms(1,2) have "case m w of (Inr x, w') \<Rightarrow> Q' x w' | (Inl e, w') \<Rightarrow> E' e w'"
    by (simp add: io_triple_def)
  with assms(3,4) show "case m w of (Inr x, w') \<Rightarrow> Q x w' | (Inl e, w') \<Rightarrow> E e w'"
    by (auto split: prod.splits sum.splits)
qed

end
