(* ===== verification/Remote_World.thy ===== *)
theory Remote_World
  imports Computation Object_Paths Meta_Op
begin

text \<open>
  A process of the data plane works against a catalog and an object store that it shares with other
  processes (the trait \<open>CatalogOps\<close> of \<open>crates/catalog/src/lib.rs\<close> and the object store). A computation
  takes the world and returns a result and the new world. Before every remote call the world takes
  one turn: other processes apply operations to the catalog and change objects, the clock moves on,
  and it is settled whether the call is answered, fails, or takes effect while its reply is lost.
  The list \<open>w_turns\<close> holds the turns to come; when it is empty nobody interferes and no call fails.
\<close>

datatype reply = Answered | Unreachable | ReplyLost

record turn =
  tn_ops :: "state_op list"
  tn_objects :: "(string \<times> bytes option) list"
  tn_clock :: nat
  tn_reply :: reply

record world =
  w_catalog :: catalog_state
  w_store :: object_store
  w_clock :: nat
  w_turns :: "turn list"

fun store_change :: "string \<times> bytes option \<Rightarrow> object_store \<Rightarrow> object_store" where
  "store_change (p, Some bs) store = bm_insert p bs store"
| "store_change (p, None) store = bm_remove p store"

definition next_turn :: "codecs \<Rightarrow> 'x world_scheme \<Rightarrow> reply \<times> 'x world_scheme" where
  "next_turn cx w =
     (case w_turns w of
        [] \<Rightarrow> (Answered, w)
      | t # ts \<Rightarrow> (tn_reply t, w\<lparr>
          w_catalog := sm_run cx (w_catalog w) (tn_ops t),
          w_store := fold store_change (tn_objects t) (w_store w),
          w_clock := tn_clock t,
          w_turns := ts\<rparr>))"

definition remote ::
  "codecs \<Rightarrow> lake_error \<Rightarrow> ('x world_scheme \<Rightarrow> (lake_error + 'a) \<times> 'x world_scheme) \<Rightarrow>
    'x world_scheme \<Rightarrow> (lake_error + 'a) \<times> 'x world_scheme" where
  "remote cx err call w =
     (case next_turn cx w of
        (Answered, w1) \<Rightarrow> call w1
      | (Unreachable, w1) \<Rightarrow> (Inl err, w1)
      | (ReplyLost, w1) \<Rightarrow> (Inl err, snd (call w1)))"

text \<open>Calls of the catalog. The server stamps an operation with its own clock, the first argument of \<open>f\<close>.\<close>

definition catalog_query ::
  "codecs \<Rightarrow> (catalog_state \<Rightarrow> 'a) \<Rightarrow> 'x world_scheme \<Rightarrow> (lake_error + 'a) \<times> 'x world_scheme" where
  "catalog_query cx f = remote cx (Other ''metadata unreachable'') (\<lambda>w. (Inr (f (w_catalog w)), w))"

definition catalog_call ::
  "codecs \<Rightarrow> (nat \<Rightarrow> catalog_state \<Rightarrow> (lake_error + 'a) \<times> catalog_state) \<Rightarrow>
    'x world_scheme \<Rightarrow> (lake_error + 'a) \<times> 'x world_scheme" where
  "catalog_call cx f = remote cx (Other ''metadata unreachable'')
     (\<lambda>w. let r = f (w_clock w) (w_catalog w) in (fst r, w\<lparr>w_catalog := snd r\<rparr>))"

text \<open>A call whose operation cannot fail by itself.\<close>

definition catalog_do ::
  "codecs \<Rightarrow> (nat \<Rightarrow> catalog_state \<Rightarrow> 'a \<times> catalog_state) \<Rightarrow>
    'x world_scheme \<Rightarrow> (lake_error + 'a) \<times> 'x world_scheme" where
  "catalog_do cx f = catalog_call cx (\<lambda>now st. (Inr (fst (f now st)), snd (f now st)))"

text \<open>Calls of the store.\<close>

definition get_bytes ::
  "codecs \<Rightarrow> string \<Rightarrow> 'x world_scheme \<Rightarrow> (lake_error + bytes) \<times> 'x world_scheme" where
  "get_bytes cx path = remote cx (S3 ''unreachable'')
     (\<lambda>w. (case bm_get (w_store w) path of Some bs \<Rightarrow> Inr bs | None \<Rightarrow> Inl (S3 ''not found''), w))"

definition put_bytes ::
  "codecs \<Rightarrow> string \<Rightarrow> bytes \<Rightarrow> 'x world_scheme \<Rightarrow> (lake_error + unit) \<times> 'x world_scheme" where
  "put_bytes cx path bs = remote cx (S3 ''unreachable'')
     (\<lambda>w. (Inr (), w\<lparr>w_store := bm_insert path bs (w_store w)\<rparr>))"

subsection \<open>Triples for remote calls\<close>

text \<open>The rule for a remote call: the precondition survives a turn, and the call keeps the rest.\<close>

lemma triple_remote:
  assumes "\<And>w r w1. P w \<Longrightarrow> next_turn cx w = (r, w1) \<Longrightarrow> P' w1"
    and "\<And>w. P' w \<Longrightarrow> E err w" "\<And>w. P' w \<Longrightarrow> E err (snd (call w))"
    and "io_triple P' call Q E"
  shows "io_triple P (remote cx err call) Q E"
  unfolding io_triple_def
proof (intro allI impI)
  fix w assume P: "P w"
  obtain r w1 where t: "next_turn cx w = (r, w1)" by fastforce
  have P1: "P' w1" by (rule assms(1) [OF P t])
  then have "case call w1 of (Inr x, w') \<Rightarrow> Q x w' | (Inl e, w') \<Rightarrow> E e w'"
    using assms(4) by (simp add: io_triple_def)
  then show "case remote cx err call w of (Inr x, w') \<Rightarrow> Q x w' | (Inl e, w') \<Rightarrow> E e w'"
    using assms(2,3) [OF P1] by (cases r) (simp_all add: remote_def t)
qed

subsection \<open>Worlds without interference\<close>

text \<open>Nobody else works on the catalog or the store; calls may still fail and the clock may move.\<close>

definition quiet :: "'x world_scheme \<Rightarrow> bool" where
  "quiet w \<longleftrightarrow> list_all (\<lambda>t. tn_ops t = [] \<and> tn_objects t = []) (w_turns w)"

lemma quiet_turn:
  assumes "quiet w" "next_turn cx w = (r, w1)"
  shows "quiet w1 \<and> w_catalog w1 = w_catalog w \<and> w_store w1 = w_store w"
  using assms by (auto simp: quiet_def next_turn_def split: list.splits)

lemma quiet_update [simp]:
  "quiet (w\<lparr>w_catalog := st\<rparr>) = quiet w" "quiet (w\<lparr>w_store := s\<rparr>) = quiet w"
  by (simp_all add: quiet_def)

definition calm :: "(catalog_state \<Rightarrow> object_store \<Rightarrow> bool) \<Rightarrow> 'x world_scheme \<Rightarrow> bool" where
  "calm R w \<longleftrightarrow> quiet w \<and> R (w_catalog w) (w_store w)"

lemma calm_turn: "calm R w \<Longrightarrow> next_turn cx w = (r, w1) \<Longrightarrow> calm R w1"
  by (auto simp: calm_def dest: quiet_turn)

lemma calm_query:
  assumes "\<And>e w. calm R w \<Longrightarrow> E e w"
  shows "io_triple (calm R) (catalog_query cx f)
    (\<lambda>x. calm (\<lambda>st s. R st s \<and> x = f st)) E"
  unfolding catalog_query_def
  by (rule triple_remote [of _ _ "calm R"])
     (auto simp: io_triple_def calm_def assms dest: quiet_turn intro: assms [unfolded calm_def])

lemma calm_get:
  assumes "\<And>e w. calm R w \<Longrightarrow> E e w"
  shows "io_triple (calm R) (get_bytes cx p)
    (\<lambda>x. calm (\<lambda>st s. R st s \<and> bm_get s p = Some x)) E"
  unfolding get_bytes_def
  by (rule triple_remote [of _ _ "calm R"])
     (auto simp: io_triple_def calm_def assms dest: quiet_turn intro: assms [unfolded calm_def]
        split: option.split)

lemma calm_put:
  fixes E :: "lake_error \<Rightarrow> 'x world_scheme \<Rightarrow> bool"
  assumes "\<And>e w. calm R w \<Longrightarrow> E e w"
    and "\<And>e w. calm (\<lambda>st s. \<exists>s0. R st s0 \<and> s = bm_insert p bs s0) w \<Longrightarrow> E e w"
  shows "io_triple (calm R) (put_bytes cx p bs)
    (\<lambda>_. calm (\<lambda>st s. \<exists>s0. R st s0 \<and> s = bm_insert p bs s0)) E"
  unfolding put_bytes_def
proof (rule triple_remote [of _ _ "calm R"])
  have step: "calm (\<lambda>st s. \<exists>s0. R st s0 \<and> s = bm_insert p bs s0) (w\<lparr>w_store := bm_insert p bs (w_store w)\<rparr>)"
    if "calm R w" for w :: "'x world_scheme"
    using that by (auto simp: calm_def)
  show "calm R w \<Longrightarrow> E (S3 ''unreachable'') (snd (Inr (), w\<lparr>w_store := bm_insert p bs (w_store w)\<rparr>))"
    for w :: "'x world_scheme"
    using assms(2) [OF step] by simp
  show "io_triple (calm R) (\<lambda>w. (Inr (), w\<lparr>w_store := bm_insert p bs (w_store w)\<rparr>))
      (\<lambda>_. calm (\<lambda>st s. \<exists>s0. R st s0 \<and> s = bm_insert p bs s0)) E"
    using step by (simp add: io_triple_def)
qed (use assms(1) in \<open>auto intro: calm_turn\<close>)

lemma calm_call:
  fixes E :: "lake_error \<Rightarrow> 'x world_scheme \<Rightarrow> bool"
  assumes "\<And>e w. calm R w \<Longrightarrow> E e w"
    and "\<And>now st s. R st s \<Longrightarrow> R' (fst (f now st)) (snd (f now st)) s"
    and "\<And>r e w. calm (R' r) w \<Longrightarrow> E e w"
  shows "io_triple (calm R) (catalog_call cx f) (\<lambda>x. calm (R' (Inr x))) E"
  unfolding catalog_call_def
proof (rule triple_remote [of _ _ "calm R"])
  let ?call = "\<lambda>w :: 'x world_scheme. let r = f (w_clock w) (w_catalog w) in (fst r, w\<lparr>w_catalog := snd r\<rparr>)"
  have step: "calm (R' (fst (?call w))) (snd (?call w))" if "calm R w" for w :: "'x world_scheme"
    using that assms(2) by (simp add: calm_def Let_def)
  show "calm R w \<Longrightarrow> E (Other ''metadata unreachable'') (snd (?call w))" for w :: "'x world_scheme"
    by (rule assms(3) [OF step])
  show "io_triple (calm R) ?call (\<lambda>x. calm (R' (Inr x))) E"
  proof (rule io_tripleI)
    fix w r w'
    assume "calm R w" "?call w = (r, w')"
    with step [of w] have "calm (R' r) w'" by simp
    with assms(3) show "case r of Inr x \<Rightarrow> calm (R' (Inr x)) w' | Inl e \<Rightarrow> E e w'"
      by (cases r) auto
  qed
qed (use assms(1) in \<open>auto intro: calm_turn\<close>)

lemma calm_do:
  fixes R' :: "'b \<Rightarrow> catalog_state \<Rightarrow> object_store \<Rightarrow> bool" and E :: "lake_error \<Rightarrow> 'x world_scheme \<Rightarrow> bool"
  assumes "\<And>e w. calm R w \<Longrightarrow> E e w"
    and "\<And>now st s. R st s \<Longrightarrow> R' (fst (f now st)) (snd (f now st)) s"
    and "\<And>r e w. calm (R' r) w \<Longrightarrow> E e w"
  shows "io_triple (calm R) (catalog_do cx f) (\<lambda>x. calm (R' x)) E"
  unfolding catalog_do_def
proof (rule triple_conseq)
  let ?R = "\<lambda>(r :: lake_error + 'b) st s. \<exists>x. r = Inr x \<and> R' x st s"
  show "io_triple (calm R) (catalog_call cx (\<lambda>now st. (Inr (fst (f now st)), snd (f now st))))
      (\<lambda>x. calm (?R (Inr x))) E"
  proof (rule calm_call [where R' = ?R])
    show "calm (?R r) w \<Longrightarrow> E e w" for r e w
      using assms(3) by (auto simp: calm_def)
  qed (use assms(1,2) in auto)
qed (auto simp: calm_def)

end
