(* ===== verification/Batch_Files.thy ===== *)
theory Batch_Files
  imports Remote_World Deletion_Vector Catalog_Files Catalog_Deletes
begin

text \<open>
  Data files: writing a record batch to the object store and reading it back (\<open>write_batch\<close> and
  \<open>read_batch\<close> of \<open>crates/format/src/lib.rs\<close>), and the rows that a reader finds. A \<open>RecordBatch\<close> is a value
  of a type of Arrow, a parameter; the operations that the code calls on it are the fields of
  \<open>arrow\<close>, and \<open>arrow_laws\<close> states what they are documented to do with the rows.
\<close>

record 'b arrow =
  ar_num_rows :: "'b \<Rightarrow> nat"
  ar_num_fields :: "'b \<Rightarrow> nat"
  ar_filter :: "'b \<Rightarrow> bool list \<Rightarrow> 'b option"
  ar_concat :: "'b \<Rightarrow> 'b list \<Rightarrow> 'b option"
  ar_encode :: "data_format \<Rightarrow> 'b \<Rightarrow> lake_error + bytes"
  ar_decode :: "data_format \<Rightarrow> bytes \<Rightarrow> lake_error + 'b list"

text \<open>\<open>ar_concat t bs\<close> is \<open>concat_batches\<close> with the schema of \<open>t\<close>; rows are tuples of values by position.\<close>

definition arrow_laws :: "'b arrow \<Rightarrow> ('b \<Rightarrow> 'r list) \<Rightarrow> bool" where
  "arrow_laws ar rows \<longleftrightarrow>
     (\<forall>b. ar_num_rows ar b = length (rows b)) \<and>
     (\<forall>b keep b'. length keep = length (rows b) \<and> ar_filter ar b keep = Some b' \<longrightarrow>
        rows b' = map fst (filter snd (zip (rows b) keep))) \<and>
     (\<forall>t bs m. ar_concat ar t bs = Some m \<longrightarrow> rows m = concat (map rows bs)) \<and>
     (\<forall>fmt b bytes. ar_encode ar fmt b = Inr bytes \<longrightarrow>
        (\<exists>bs. ar_decode ar fmt bytes = Inr bs \<and> concat (map rows bs) = rows b))"

record 'b tools =
  to_codecs :: codecs
  to_arrow :: "'b arrow"
  to_rdeser :: "bytes \<Rightarrow> dv_bitmap option"
  to_crc :: "bytes \<Rightarrow> nat"

definition read_dv :: "'b tools \<Rightarrow> bytes \<Rightarrow> lake_error + dv_bitmap" where
  "read_dv tb bs = dv_from_bytes (to_rdeser tb) (to_crc tb) bs"

definition write_batch_file ::
  "'b tools \<Rightarrow> string \<Rightarrow> string \<Rightarrow> string \<Rightarrow> string \<Rightarrow> 'b \<Rightarrow> data_format \<Rightarrow>
    'x world_scheme \<Rightarrow> (lake_error + string \<times> nat \<times> nat) \<times> 'x world_scheme" where
  "write_batch_file tb table shard time_window batch_id batch fmt =
     (let path = file_path table shard time_window batch_id fmt in
      io_bind (io_lift (ar_encode (to_arrow tb) fmt batch))
        (\<lambda>bs. io_bind (put_bytes (to_codecs tb) path bs)
        (\<lambda>_. io_return (path, length bs, ar_num_rows (to_arrow tb) batch))))"

definition read_batch_file ::
  "'b tools \<Rightarrow> string \<Rightarrow> data_format \<Rightarrow> 'x world_scheme \<Rightarrow> (lake_error + 'b list) \<times> 'x world_scheme" where
  "read_batch_file tb path fmt =
     io_bind (get_bytes (to_codecs tb) path) (\<lambda>bs. io_lift (ar_decode (to_arrow tb) fmt bs))"

subsection \<open>What a reader finds\<close>

definition stored_rows :: "'b tools \<Rightarrow> ('b \<Rightarrow> 'r list) \<Rightarrow> object_store \<Rightarrow> string \<Rightarrow> 'r list" where
  "stored_rows tb rows store path =
     (case bm_get store path of
        None \<Rightarrow> []
      | Some bs \<Rightarrow> (case ar_decode (to_arrow tb) (format_from_path path) bs of
                      Inl _ \<Rightarrow> []
                    | Inr batches \<Rightarrow> concat (map rows batches)))"

definition entry_marks :: "'b tools \<Rightarrow> object_store \<Rightarrow> nat \<Rightarrow> deletion_entry \<Rightarrow> bool" where
  "entry_marks tb store i d =
     (case bm_get store (de_store_path d) of
        None \<Rightarrow> False
      | Some bs \<Rightarrow> (case read_dv tb bs of Inl _ \<Rightarrow> False | Inr dv \<Rightarrow> dv_contains dv i))"

definition row_deleted :: "'b tools \<Rightarrow> object_store \<Rightarrow> deletion_entry list \<Rightarrow> string \<Rightarrow> nat \<Rightarrow> bool" where
  "row_deleted tb store ds path i = list_ex (\<lambda>d. de_file_path d = path \<and> entry_marks tb store i d) ds"

definition kept_rows :: "(nat \<Rightarrow> bool) \<Rightarrow> 'r list \<Rightarrow> 'r list" where
  "kept_rows deleted xs = map snd (filter (\<lambda>(i, _). \<not> deleted i) (enumerate 0 xs))"

definition live_rows ::
  "'b tools \<Rightarrow> ('b \<Rightarrow> 'r list) \<Rightarrow> object_store \<Rightarrow> deletion_entry list \<Rightarrow> string \<Rightarrow> 'r list" where
  "live_rows tb rows store ds path = kept_rows (row_deleted tb store ds path) (stored_rows tb rows store path)"

text \<open>The rows of a shard in the snapshot \<open>snapshot\<close>.\<close>

definition shard_rows ::
  "'b tools \<Rightarrow> ('b \<Rightarrow> 'r list) \<Rightarrow> object_store \<Rightarrow> catalog_state \<Rightarrow> string \<Rightarrow> string \<Rightarrow> nat \<Rightarrow> 'r list" where
  "shard_rows tb rows store st table shard snapshot =
     concat (map (\<lambda>f. live_rows tb rows store (list_deletions table snapshot st) (fm_file_path f))
       (list_visible_files table snapshot (Some shard) st))"

lemma kept_rows_none: "(\<And>i. i < length xs \<Longrightarrow> \<not> deleted i) \<Longrightarrow> kept_rows deleted xs = xs"
proof -
  assume a: "\<And>i. i < length xs \<Longrightarrow> \<not> deleted i"
  have "filter (\<lambda>(i, _). \<not> deleted i) (enumerate 0 xs) = enumerate 0 xs"
    using a by (intro filter_True) (auto simp: in_set_enumerate_eq)
  then show ?thesis by (simp add: kept_rows_def)
qed

lemma kept_rows_cong:
  "(\<And>i. i < length xs \<Longrightarrow> d i = d' i) \<Longrightarrow> kept_rows d xs = kept_rows d' xs"
  unfolding kept_rows_def
  by (rule arg_cong [where f = "map snd"], rule filter_cong) (auto simp: in_set_enumerate_eq)

lemma filter_enumerate_shift:
  "map snd (filter (\<lambda>(i, _). P i) (enumerate n xs)) = map snd (filter (\<lambda>(i, _). P (n + i)) (enumerate 0 xs))"
proof -
  have "enumerate n xs = map (\<lambda>(i, x). (n + i, x)) (enumerate 0 xs)"
    by (intro nth_equalityI) (auto simp: nth_enumerate_eq)
  then show ?thesis by (simp add: filter_map o_def case_prod_unfold)
qed

lemma kept_rows_append:
  "kept_rows d (xs @ ys) = kept_rows d xs @ kept_rows (\<lambda>i. d (length xs + i)) ys"
  using filter_enumerate_shift [of "\<lambda>i. \<not> d i" "length xs" ys]
  by (simp add: kept_rows_def enumerate_append_eq)

lemma kept_rows_zip:
  "kept_rows d xs = map fst (filter snd (zip xs (map (\<lambda>i. \<not> d i) [0..<length xs])))"
proof -
  have "zip xs (map (\<lambda>i. \<not> d i) [0..<length xs]) = map (\<lambda>(i, x). (x, \<not> d i)) (enumerate 0 xs)"
    by (intro nth_equalityI) (auto simp: nth_enumerate_eq)
  then show ?thesis by (simp add: kept_rows_def filter_map o_def case_prod_unfold)
qed

lemma kept_rows_all: "(\<And>i. i < length xs \<Longrightarrow> d i) \<Longrightarrow> kept_rows d xs = []"
  by (auto simp: kept_rows_def filter_empty_conv in_set_enumerate_eq)

lemma length_kept_rows: "length (kept_rows d xs) \<le> length xs"
  unfolding kept_rows_def using length_filter_le [of _ "enumerate 0 xs"] by simp

lemma row_deleted_iff:
  "row_deleted tb store ds path i \<longleftrightarrow> (\<exists>d \<in> set ds. de_file_path d = path \<and> entry_marks tb store i d)"
  by (auto simp: row_deleted_def list_ex_iff)

lemma stored_rows_other: "q \<noteq> p \<Longrightarrow> stored_rows tb rows (bm_insert p bs store) q = stored_rows tb rows store q"
  by (simp add: stored_rows_def bm_simps)

lemma live_rows_other:
  assumes "p \<noteq> q" "\<forall>d \<in> set ds. de_store_path d \<noteq> q"
  shows "live_rows tb rows (bm_insert q bs store) ds p = live_rows tb rows store ds p"
proof -
  have "row_deleted tb (bm_insert q bs store) ds p = row_deleted tb store ds p"
    using assms(2) by (auto simp: fun_eq_iff row_deleted_iff entry_marks_def bm_simps)
  then show ?thesis using assms(1) by (simp add: live_rows_def stored_rows_other)
qed

lemma shard_rows_store_other:
  assumes "\<forall>f \<in> set (bm_values (files st)). fm_file_path f \<noteq> q"
    and "\<forall>d \<in> set (bm_values (deletions st)). de_store_path d \<noteq> q"
  shows "shard_rows tb rows (bm_insert q bs store) st table shard s = shard_rows tb rows store st table shard s"
proof -
  have "live_rows tb rows (bm_insert q bs store) (list_deletions table s st) (fm_file_path f) =
      live_rows tb rows store (list_deletions table s st) (fm_file_path f)"
    if "f \<in> set (list_visible_files table s (Some shard) st)" for f
    using that assms by (intro live_rows_other) (auto simp: list_visible_files_def Let_def list_deletions_def)
  then show ?thesis unfolding shard_rows_def by (metis (no_types, lifting) map_cong)
qed

text \<open>The view depends on the files, the deletions and the objects only.\<close>

lemma shard_rows_catalog:
  "files st' = files st \<Longrightarrow> deletions st' = deletions st \<Longrightarrow>
    shard_rows tb rows store st' = shard_rows tb rows store st"
  by (simp add: fun_eq_iff shard_rows_def list_visible_files_def list_deletions_def)

end
