(* ===== verification/Compactor.thy ===== *)
theory Compactor
  imports Complex_Main Batch_Files Catalog_Compaction Catalog_Lease
begin

text \<open>
  The background compaction of a data node (\<open>crates/compaction/src/lib.rs\<close>): a round goes through the
  derived tasks, claims each by a lease, and rewrites the files of a shard as one file without the
  rows that deletion vectors mark. Every catalog and store call is a remote call of \<open>Remote_World\<close>,
  so a run meets the operations of other processes, failing calls and a moving clock wherever
  the code awaits.
\<close>

record compaction_config =
  cc_min_files :: nat
  cc_dv_ratio_threshold :: rat
  cc_dv_min_card :: nat
  cc_max_rows_per_output :: nat
  cc_max_merges_per_round :: nat
  cc_interval_ms :: nat
  cc_orphan_grace_ms :: nat
  cc_lease_purpose :: string
  cc_lease_ttl_ms :: nat

definition default_config :: compaction_config where
  "default_config = \<lparr>cc_min_files = 5, cc_dv_ratio_threshold = 1 / 10, cc_dv_min_card = 1000,
     cc_max_rows_per_output = 5000000, cc_max_merges_per_round = 8,
     cc_interval_ms = 60000, cc_orphan_grace_ms = 3600000,
     cc_lease_purpose = COMPACTION_LEASE, cc_lease_ttl_ms = 30000\<rparr>"

record compactor =
  co_cfg :: compaction_config
  co_format :: data_format
  co_lease_holder :: string

subsection \<open>The lease gate\<close>

record lease_gate =
  ga_purpose :: string
  ga_holder :: string
  ga_ttl_ms :: nat
  ga_epoch :: nat
  ga_expires_at_ms :: nat

definition for_purpose :: "string \<Rightarrow> string \<Rightarrow> nat \<Rightarrow> lease_gate" where
  "for_purpose purpose holder ttl =
     \<lparr>ga_purpose = purpose, ga_holder = holder, ga_ttl_ms = ttl, ga_epoch = 0, ga_expires_at_ms = 0\<rparr>"

definition acquire_or_renew ::
  "codecs \<Rightarrow> lease_gate \<Rightarrow> 'x world_scheme \<Rightarrow> (bool \<times> lease_gate) \<times> 'x world_scheme" where
  "acquire_or_renew cx gate w =
     (let now = w_clock w;
          lost = gate\<lparr>ga_epoch := 0, ga_expires_at_ms := 0\<rparr> in
      if ga_epoch gate = 0 then
        (case catalog_do cx (\<lambda>_ st. acquire_lease (ga_purpose gate) (ga_holder gate) now (ga_ttl_ms gate) st) w of
           (Inr g, w1) \<Rightarrow>
             if lg_granted g
             then ((True, gate\<lparr>ga_epoch := lg_epoch g, ga_expires_at_ms := lg_expires_at_ms g\<rparr>), w1)
             else ((False, gate), w1)
         | (Inl _, w1) \<Rightarrow> ((False, gate), w1))
      else if now + ga_ttl_ms gate div 3 < ga_expires_at_ms gate then ((True, gate), w)
      else
        (case catalog_do cx (\<lambda>_ st. renew_lease (ga_purpose gate) (ga_holder gate) (ga_epoch gate) now
               (ga_ttl_ms gate) st) w of
           (Inr True, w1) \<Rightarrow> ((True, gate\<lparr>ga_expires_at_ms := now + ga_ttl_ms gate\<rparr>), w1)
         | (Inr False, w1) \<Rightarrow> ((False, lost), w1)
         | (Inl _, w1) \<Rightarrow> ((False, lost), w1)))"

subsection \<open>The DML lease of a shard\<close>

record shard_dml_lease =
  sl_purpose :: string
  sl_holder :: string
  sl_epoch :: nat

definition shard_dml_acquire ::
  "codecs \<Rightarrow> compactor \<Rightarrow> string \<Rightarrow> string \<Rightarrow> 'x world_scheme \<Rightarrow>
    (lake_error + shard_dml_lease option) \<times> 'x world_scheme" where
  "shard_dml_acquire cx co table shard w =
     (let purpose = dml_shard_lease_purpose table shard;
          holder = co_lease_holder co @ ''-cmp''
      in io_bind
           (catalog_do cx (\<lambda>_ st. acquire_lease purpose holder (w_clock w) (cc_lease_ttl_ms (co_cfg co)) st))
           (\<lambda>grant. io_return
              (if \<not> lg_granted grant then None
               else Some \<lparr>sl_purpose = purpose, sl_holder = holder, sl_epoch = lg_epoch grant\<rparr>)) w)"

definition shard_dml_release ::
  "codecs \<Rightarrow> shard_dml_lease \<Rightarrow> 'x world_scheme \<Rightarrow> 'x world_scheme" where
  "shard_dml_release cx l w =
     snd (catalog_do cx (\<lambda>_ st. release_lease (sl_purpose l) (sl_holder l) (sl_epoch l) st) w)"

subsection \<open>Deletion vectors\<close>

definition dv_worth_compacting :: "compaction_config \<Rightarrow> nat \<Rightarrow> nat \<Rightarrow> bool" where
  "dv_worth_compacting cfg crd rows =
     (if crd = 0 \<or> rows = 0 \<or> crd > rows then False
      else crd \<ge> cc_dv_min_card cfg \<and> of_nat crd / of_nat rows \<ge> cc_dv_ratio_threshold cfg)"

text \<open>The loop of \<open>deletion_bitmaps\<close>.\<close>

fun load_bitmaps ::
  "'b tools \<Rightarrow> deletion_entry list \<Rightarrow> (string, dv_bitmap) bmap \<Rightarrow> 'x world_scheme \<Rightarrow>
    (lake_error + (string, dv_bitmap) bmap) \<times> 'x world_scheme" where
  "load_bitmaps tb [] out = io_return out"
| "load_bitmaps tb (e # es) out =
     io_bind (get_bytes (to_codecs tb) (de_store_path e)) (\<lambda>bs.
       case read_dv tb bs of
         Inl _ \<Rightarrow> io_fail (Other ''deletion vector unreadable'')
       | Inr dv \<Rightarrow> load_bitmaps tb es (bm_insert (de_file_path e)
           (case bm_get out (de_file_path e) of None \<Rightarrow> dv | Some cur \<Rightarrow> dv_union_with cur dv) out))"

definition deletion_bitmaps ::
  "'b tools \<Rightarrow> string \<Rightarrow> nat \<Rightarrow> 'x world_scheme \<Rightarrow>
    (lake_error + (string, dv_bitmap) bmap) \<times> 'x world_scheme" where
  "deletion_bitmaps tb table snapshot =
     io_bind (catalog_query (to_codecs tb) (list_deletions table snapshot))
       (\<lambda>entries. load_bitmaps tb entries bm_empty)"

text \<open>
  The loop of \<open>apply_deletions\<close> (the catalog has an operation of that name). A row number is cut to
  32 bits before it is looked up.
\<close>

fun drop_deleted ::
  "'b arrow \<Rightarrow> dv_bitmap \<Rightarrow> 'b list \<Rightarrow> nat \<Rightarrow> 'b list \<Rightarrow> lake_error + 'b list" where
  "drop_deleted ar dv [] offset out = Inr out"
| "drop_deleted ar dv (b # bs) offset out =
     (let n = ar_num_rows ar b;
          keep = map (\<lambda>i. \<not> dv_contains dv (i mod 2 ^ 32)) [offset..<offset + n];
          true_count = length (filter id keep)
      in if true_count = 0 then drop_deleted ar dv bs (offset + n) out
         else if true_count = n then drop_deleted ar dv bs (offset + n) (out @ [b])
         else (case ar_filter ar b keep of
                 None \<Rightarrow> Inl (Other ''filter'')
               | Some b' \<Rightarrow> drop_deleted ar dv bs (offset + n) (out @ [b'])))"

definition apply_deletions_to ::
  "'b arrow \<Rightarrow> 'b list \<Rightarrow> dv_bitmap \<Rightarrow> nat \<Rightarrow> lake_error + 'b list" where
  "apply_deletions_to ar batches dv row_count =
     and_then (keep_ranges dv row_count) (\<lambda>_. drop_deleted ar dv batches 0 [])"

subsection \<open>Merging a shard\<close>

text \<open>The loop that reads the inputs.\<close>

fun read_inputs ::
  "'b tools \<Rightarrow> (string, dv_bitmap) bmap \<Rightarrow> file_manifest list \<Rightarrow> 'b list \<Rightarrow> 'x world_scheme \<Rightarrow>
    (lake_error + 'b list) \<times> 'x world_scheme" where
  "read_inputs tb dvs [] batches = io_return batches"
| "read_inputs tb dvs (f # fs) batches =
     io_bind (read_batch_file tb (fm_file_path f) (format_from_path (fm_file_path f))) (\<lambda>fb.
       case bm_get dvs (fm_file_path f) of
         None \<Rightarrow> read_inputs tb dvs fs (batches @ fb)
       | Some dv \<Rightarrow> io_bind (io_lift (apply_deletions_to (to_arrow tb) fb dv (fm_row_count f)))
           (\<lambda>kept. read_inputs tb dvs fs (batches @ kept)))"

definition merge_batches :: "'b arrow \<Rightarrow> 'b list \<Rightarrow> 'b option" where
  "merge_batches ar batches =
     (let sorted = sort_key (ar_num_fields ar) batches in
      if sorted = [] then None else ar_concat ar (last sorted) sorted)"

definition out_format :: "compactor \<Rightarrow> file_manifest list \<Rightarrow> data_format" where
  "out_format co fs =
     (case map (\<lambda>f. format_from_path (fm_file_path f)) fs of
        [] \<Rightarrow> co_format co
      | first # rest \<Rightarrow> if list_all (\<lambda>x. x = first) rest then first else co_format co)"

definition merged_manifest ::
  "string \<Rightarrow> string \<Rightarrow> nat \<Rightarrow> nat \<Rightarrow> string \<Rightarrow> string \<Rightarrow> string \<Rightarrow> file_manifest" where
  "merged_manifest path batch_id rows bytes_len table shard time_window = \<lparr>
     fm_file_path = path, fm_batch_id = batch_id, fm_client_request_id = [], fm_schema_version = 0,
     fm_status = 0, fm_valid_from = 0, fm_deleted_at = 0, fm_stats = None, fm_row_count = rows,
     fm_file_size = bytes_len, fm_table = table, fm_shard = shard, fm_time_window = time_window,
     fm_partition_key = [], fm_source_instance = [], fm_sealed_at_ms = 0, fm_committed_at_ms = 0,
     fm_seal_reason = [], fm_seal_pressure = [], fm_index_path = [], fm_index_size = 0\<rparr>"

definition commit_compaction_files ::
  "codecs \<Rightarrow> compactor \<Rightarrow> string \<Rightarrow> string \<Rightarrow> string list \<Rightarrow> file_manifest \<Rightarrow> nat \<Rightarrow>
    'x world_scheme \<Rightarrow> (lake_error + nat) \<times> 'x world_scheme" where
  "commit_compaction_files cx co table shard old_ids new_manifest epoch =
     catalog_call cx (\<lambda>_. commit_compaction old_ids [new_manifest] epoch
       (compaction_shard_lease_purpose (cc_lease_purpose (co_cfg co)) table shard))"

text \<open>The loop that revokes the vectors consumed; its failures are only logged.\<close>

definition revoke_consumed ::
  "codecs \<Rightarrow> nat \<Rightarrow> file_manifest list \<Rightarrow> 'x world_scheme \<Rightarrow> 'x world_scheme" where
  "revoke_consumed cx new_snapshot fs w =
     fold (\<lambda>f w. snd (catalog_do cx
       (\<lambda>now st. revoke_deletions_for_file (fm_file_path f) new_snapshot now st) w)) fs w"

definition dv_trigger :: "compaction_config \<Rightarrow> (string, dv_bitmap) bmap \<Rightarrow> file_manifest list \<Rightarrow> bool" where
  "dv_trigger cfg dvs fs =
     list_ex (\<lambda>f. dv_worth_compacting cfg
       (case bm_get dvs (fm_file_path f) of Some d \<Rightarrow> dv_card d | None \<Rightarrow> 0) (fm_row_count f)) fs"

text \<open>The second half of \<open>compact_shard_inner\<close>: from the merged batch to the new snapshot.\<close>

definition publish_merged ::
  "'b tools \<Rightarrow> compactor \<Rightarrow> string \<Rightarrow> string \<Rightarrow> nat \<Rightarrow> string \<Rightarrow> file_manifest list \<Rightarrow>
    (string, dv_bitmap) bmap \<Rightarrow> 'b \<Rightarrow> 'x world_scheme \<Rightarrow> (lake_error + nat option) \<times> 'x world_scheme" where
  "publish_merged tb co table shard epoch new_batch_id fs dvs merged =
     (let cx = to_codecs tb; time_window = fm_time_window (hd fs) in
      io_bind (\<lambda>w. catalog_do cx (\<lambda>_ st. ((), record_in_flight new_batch_id (w_clock w) st)) w) (\<lambda>_.
      io_bind (write_batch_file tb table shard time_window new_batch_id merged (out_format co fs))
        (\<lambda>(new_path, new_size, _).
      io_bind (commit_compaction_files cx co table shard (map fm_batch_id fs)
          (merged_manifest new_path new_batch_id (ar_num_rows (to_arrow tb) merged) new_size table shard
             time_window) epoch)
        (\<lambda>new_snapshot w. (Inr (Some new_snapshot),
           revoke_consumed cx new_snapshot (filter (\<lambda>f. bm_has dvs (fm_file_path f)) fs) w)))))"

definition compact_shard_inner ::
  "'b tools \<Rightarrow> compactor \<Rightarrow> string \<Rightarrow> string \<Rightarrow> nat \<Rightarrow> nat \<Rightarrow> string \<Rightarrow> 'x world_scheme \<Rightarrow>
    (lake_error + nat option) \<times> 'x world_scheme" where
  "compact_shard_inner tb co table shard snapshot epoch new_batch_id =
     io_bind (catalog_query (to_codecs tb) (list_visible_files table snapshot (Some shard))) (\<lambda>fs.
       if fs = [] then io_return None
       else
         io_bind (deletion_bitmaps tb table snapshot) (\<lambda>dvs.
           if length fs < cc_min_files (co_cfg co) \<and> \<not> dv_trigger (co_cfg co) dvs fs then io_return None
           else
             io_bind (read_inputs tb dvs fs []) (\<lambda>batches.
               if batches = [] then io_return None
               else (case merge_batches (to_arrow tb) batches of
                       None \<Rightarrow> io_return None
                     | Some merged \<Rightarrow>
                         publish_merged tb co table shard epoch new_batch_id fs dvs merged))))"

definition compact_shard ::
  "'b tools \<Rightarrow> compactor \<Rightarrow> string \<Rightarrow> string \<Rightarrow> nat \<Rightarrow> nat \<Rightarrow> string \<Rightarrow> 'x world_scheme \<Rightarrow>
    (lake_error + nat option) \<times> 'x world_scheme" where
  "compact_shard tb co table shard snapshot epoch new_batch_id =
     io_bind (shard_dml_acquire (to_codecs tb) co table shard) (\<lambda>lease.
       case lease of
         None \<Rightarrow> io_return None
       | Some l \<Rightarrow> (\<lambda>w.
           let r = compact_shard_inner tb co table shard snapshot epoch new_batch_id w
           in (fst r, shard_dml_release (to_codecs tb) l (snd r))))"

subsection \<open>A round\<close>

record round_stats =
  rs_tasks_seen :: nat
  rs_candidates :: nat
  rs_compacted :: nat
  rs_lease_busy :: nat
  rs_failed :: nat
  rs_stale :: nat

definition no_stats :: round_stats where
  "no_stats = \<lparr>rs_tasks_seen = 0, rs_candidates = 0, rs_compacted = 0, rs_lease_busy = 0, rs_failed = 0, rs_stale = 0\<rparr>"

text \<open>\<open>e.to_string().contains("compaction conflict")\<close>\<close>

definition is_conflict :: "lake_error \<Rightarrow> bool" where
  "is_conflict e = (e = Other ''compaction conflict'')"

fun count_result :: "lake_error + nat option \<Rightarrow> round_stats \<Rightarrow> round_stats" where
  "count_result (Inr (Some _)) s = s\<lparr>rs_compacted := rs_compacted s + 1\<rparr>"
| "count_result (Inr None) s = s"
| "count_result (Inl e) s =
     (if is_conflict e then s\<lparr>rs_stale := rs_stale s + 1\<rparr> else s\<lparr>rs_failed := rs_failed s + 1\<rparr>)"

text \<open>The loop over the tasks; \<open>uuid\<close> draws the batch id of each merge.\<close>

fun round_loop ::
  "'b tools \<Rightarrow> compactor \<Rightarrow> nat \<Rightarrow> (compaction_task \<Rightarrow> string) \<Rightarrow> compaction_task list \<Rightarrow> round_stats \<Rightarrow>
    'x world_scheme \<Rightarrow> round_stats \<times> 'x world_scheme" where
  "round_loop tb co snapshot uuid [] stats w = (stats, w)"
| "round_loop tb co snapshot uuid (t # ts) stats w =
     (if rs_compacted stats \<ge> cc_max_merges_per_round (co_cfg co) then (stats, w)
      else
        let stats1 = stats\<lparr>rs_candidates := rs_candidates stats + 1\<rparr>;
            purpose = task_lease_purpose (ct_key t);
            gate0 = for_purpose purpose (co_lease_holder co) (cc_lease_ttl_ms (co_cfg co))
        in (case acquire_or_renew (to_codecs tb) gate0 w of
              ((False, _), w1) \<Rightarrow>
                round_loop tb co snapshot uuid ts (stats1\<lparr>rs_lease_busy := rs_lease_busy stats1 + 1\<rparr>) w1
            | ((True, gate), w1) \<Rightarrow>
                let r = compact_shard tb co (ct_table t) (ct_shard t) snapshot (ga_epoch gate) (uuid t) w1;
                    w2 = snd (catalog_do (to_codecs tb)
                      (\<lambda>_ st. release_lease purpose (co_lease_holder co) (ga_epoch gate) st) (snd r))
                in round_loop tb co snapshot uuid ts (count_result (fst r) stats1) w2))"

definition compaction_round ::
  "'b tools \<Rightarrow> compactor \<Rightarrow> (compaction_task \<Rightarrow> string) \<Rightarrow> 'x world_scheme \<Rightarrow>
    (lake_error + round_stats) \<times> 'x world_scheme" where
  "compaction_round tb co uuid =
     io_bind (catalog_query (to_codecs tb) list_tasks) (\<lambda>ts w.
       let w1 = snd (next_turn (to_codecs tb) w);
           snapshot = current_snapshot (w_catalog w1);
           r = round_loop tb co snapshot uuid ts (no_stats\<lparr>rs_tasks_seen := length ts\<rparr>) w1
       in (Inr (fst r), snd r))"

end
