(* ===== verification/Compactor_Merge.thy ===== *)
theory Compactor_Merge
  imports Compactor Catalog_Machine "HOL-Library.Multiset"
begin

text \<open>
  What a merge does to the rows that queries see. The rows are followed through the steps of
  \<open>compact_shard\<close> by triples over worlds without interference, whose calls may fail anywhere.
\<close>

subsection \<open>Dropping the deleted rows\<close>

lemma drop_deleted_step:
  assumes "arrow_laws ar rows" "drop_deleted ar dv (b # bs) offset out = Inr res" "offset + length (rows b) \<le> 2 ^ 32"
  shows "\<exists>out'. drop_deleted ar dv bs (offset + length (rows b)) out' = Inr res \<and>
    concat (map rows out') = concat (map rows out) @ kept_rows (\<lambda>i. dv_contains dv (offset + i)) (rows b)"
proof -
  let ?n = "length (rows b)" and ?d = "\<lambda>i. dv_contains dv (offset + i)"
  let ?keep = "map (\<lambda>i. \<not> dv_contains dv (i mod 2 ^ 32)) [offset..<offset + ?n]"
  have n: "ar_num_rows ar b = ?n" using assms(1) by (simp add: arrow_laws_def)
  have keep: "?keep = map (\<lambda>i. \<not> ?d i) [0..<?n]"
    using assms(3) by (intro nth_equalityI) (auto simp: add.commute)
  consider (none) "filter id ?keep = []" | (all) "filter id ?keep \<noteq> []" "length (filter id ?keep) = ?n"
    | (some) "filter id ?keep \<noteq> []" "length (filter id ?keep) \<noteq> ?n" by blast
  then show ?thesis
  proof cases
    case none
    then have "\<forall>i < ?n. ?d i" unfolding keep by (auto simp: filter_empty_conv)
    then have "kept_rows ?d (rows b) = []" by (simp add: kept_rows_all)
    with none assms(2) show ?thesis by (auto simp: n Let_def)
  next
    case all
    then have "\<forall>x \<in> set ?keep. id x"
      by (metis length_map diff_add_inverse length_filter_less length_upt nat_less_le)
    then have "\<forall>i < ?n. \<not> ?d i" unfolding keep by auto
    then have "kept_rows ?d (rows b) = rows b" by (simp add: kept_rows_none)
    with all assms(2) show ?thesis by (intro exI [of _ "out @ [b]"]) (simp add: n Let_def)
  next
    case some
    then obtain b' where b': "ar_filter ar b ?keep = Some b'"
      using assms(2) by (auto simp: n Let_def split: option.splits)
    moreover have "length ?keep = ?n" by simp
    ultimately have "rows b' = map fst (filter snd (zip (rows b) ?keep))"
      using assms(1) unfolding arrow_laws_def by blast
    then have "rows b' = kept_rows ?d (rows b)" by (simp only: keep kept_rows_zip)
    with some b' assms(2) show ?thesis by (intro exI [of _ "out @ [b']"]) (simp add: n Let_def)
  qed
qed

lemma drop_deleted_rows:
  assumes "arrow_laws ar rows" "drop_deleted ar dv bs offset out = Inr res"
    and "offset + length (concat (map rows bs)) \<le> 2 ^ 32"
  shows "concat (map rows res) =
    concat (map rows out) @ kept_rows (\<lambda>i. dv_contains dv (offset + i)) (concat (map rows bs))"
  using assms(2,3)
proof (induction bs arbitrary: offset out)
  case Nil
  then show ?case by (simp add: kept_rows_def)
next
  case (Cons b bs)
  have "offset + length (rows b) \<le> 2 ^ 32" using Cons.prems(2) by simp
  from drop_deleted_step [OF assms(1) Cons.prems(1) this] obtain out' where
    out': "drop_deleted ar dv bs (offset + length (rows b)) out' = Inr res"
      "concat (map rows out') = concat (map rows out) @ kept_rows (\<lambda>i. dv_contains dv (offset + i)) (rows b)"
    by blast
  have "offset + length (rows b) + length (concat (map rows bs)) \<le> 2 ^ 32" using Cons.prems(2) by simp
  from Cons.IH [OF out'(1) this] show ?case
    by (simp add: out'(2) kept_rows_append add.assoc)
qed

lemma merge_batches_rows:
  assumes "arrow_laws ar rows" "merge_batches ar bs = Some m"
  shows "mset (rows m) = mset (concat (map rows bs))"
proof -
  let ?sorted = "sort_key (ar_num_fields ar) bs"
  have "ar_concat ar (last ?sorted) ?sorted = Some m"
    using assms(2) by (simp add: merge_batches_def Let_def split: if_splits)
  then have "rows m = concat (map rows ?sorted)" using assms(1) by (simp add: arrow_laws_def)
  then have "mset (rows m) = sum_mset (image_mset (\<lambda>b. mset (rows b)) (mset ?sorted))"
    by (simp add: mset_concat o_def flip: sum_mset_sum_list)
  then show ?thesis by (simp add: mset_concat o_def flip: sum_mset_sum_list)
qed

subsection \<open>Reading the inputs\<close>

text \<open>Nobody else has touched the catalog \<open>st0\<close> and the store \<open>s0\<close>.\<close>

abbreviation at_rest :: "catalog_state \<Rightarrow> object_store \<Rightarrow> 'x world_scheme \<Rightarrow> bool" where
  "at_rest st0 s0 \<equiv> calm (\<lambda>st s. st = st0 \<and> s = s0)"

lemma rest_query:
  "io_triple (at_rest st0 s0) (catalog_query cx f) (\<lambda>x w. at_rest st0 s0 w \<and> x = f st0) (\<lambda>_. at_rest st0 s0)"
  by (rule triple_conseq [OF calm_query [where R = "\<lambda>st s. st = st0 \<and> s = s0" and E = "\<lambda>_. at_rest st0 s0"]]) (auto simp: calm_def)

lemma rest_get:
  "io_triple (at_rest st0 s0) (get_bytes cx p) (\<lambda>x w. at_rest st0 s0 w \<and> bm_get s0 p = Some x)
    (\<lambda>_. at_rest st0 s0)"
  by (rule triple_conseq [OF calm_get [where R = "\<lambda>st s. st = st0 \<and> s = s0" and E = "\<lambda>_. at_rest st0 s0"]]) (auto simp: calm_def)

lemma triple_pure: "(p \<Longrightarrow> io_triple P m Q E) \<Longrightarrow> io_triple (\<lambda>w. P w \<and> p) m Q E"
  by (auto simp: io_triple_def)

definition marked :: "(string, dv_bitmap) bmap \<Rightarrow> string \<Rightarrow> nat \<Rightarrow> bool" where
  "marked dvs p i = (case bm_get dvs p of None \<Rightarrow> False | Some dv \<Rightarrow> dv_contains dv i)"

lemma load_bitmaps_triple:
  "io_triple (at_rest st0 s0 :: 'x world_scheme \<Rightarrow> bool) (load_bitmaps tb es out)
    (\<lambda>dvs w. at_rest st0 s0 w \<and> (\<forall>p i. marked dvs p i \<longleftrightarrow> marked out p i \<or> row_deleted tb s0 es p i))
    (\<lambda>_. at_rest st0 s0)"
proof (induction es arbitrary: out)
  case Nil
  show ?case by (auto simp: row_deleted_def intro: triple_return)
next
  case (Cons e es)
  show ?case
  proof (simp only: load_bitmaps.simps, rule triple_bind [OF rest_get], rule triple_pure)
    fix bs assume get: "bm_get s0 (de_store_path e) = Some bs"
    show "io_triple (at_rest st0 s0 :: 'x world_scheme \<Rightarrow> bool)
        (case read_dv tb bs of
           Inl _ \<Rightarrow> io_fail (Other ''deletion vector unreadable'')
         | Inr dv \<Rightarrow> load_bitmaps tb es (bm_insert (de_file_path e)
             (case bm_get out (de_file_path e) of None \<Rightarrow> dv | Some cur \<Rightarrow> dv_union_with cur dv) out))
        (\<lambda>dvs w. at_rest st0 s0 w \<and> (\<forall>p i. marked dvs p i \<longleftrightarrow> marked out p i \<or> row_deleted tb s0 (e # es) p i))
        (\<lambda>_. at_rest st0 s0)"
    proof (cases "read_dv tb bs")
      case (Inr dv)
      then have "entry_marks tb s0 i e \<longleftrightarrow> dv_contains dv i" for i using get by (simp add: entry_marks_def)
      then have "marked (bm_insert (de_file_path e)
            (case bm_get out (de_file_path e) of None \<Rightarrow> dv | Some cur \<Rightarrow> dv_union_with cur dv) out) p i \<longleftrightarrow>
          marked out p i \<or> (de_file_path e = p \<and> entry_marks tb s0 i e)" for p i
        by (auto simp: marked_def bm_simps dv_contains_union split: option.splits)
      then show ?thesis
        by (simp only: Inr sum.case) (rule triple_conseq [OF Cons.IH], auto simp: row_deleted_iff)
    qed (auto intro: triple_fail)
  qed
qed

lemma bitmaps_triple:
  "io_triple (at_rest st0 s0 :: 'x world_scheme \<Rightarrow> bool) (deletion_bitmaps tb table snapshot)
    (\<lambda>dvs w. at_rest st0 s0 w \<and> marked dvs = row_deleted tb s0 (list_deletions table snapshot st0))
    (\<lambda>_. at_rest st0 s0)"
  unfolding deletion_bitmaps_def
proof (rule triple_bind [OF rest_query], rule triple_pure)
  fix entries assume "entries = list_deletions table snapshot st0"
  then show "io_triple (at_rest st0 s0 :: 'x world_scheme \<Rightarrow> bool) (load_bitmaps tb entries bm_empty)
    (\<lambda>dvs w. at_rest st0 s0 w \<and> marked dvs = row_deleted tb s0 (list_deletions table snapshot st0))
    (\<lambda>_. at_rest st0 s0)"
    by (intro triple_conseq [OF load_bitmaps_triple]) (auto simp: fun_eq_iff marked_def)
qed

lemma read_batch_triple:
  "io_triple (at_rest st0 s0 :: 'x world_scheme \<Rightarrow> bool) (read_batch_file tb p (format_from_path p))
    (\<lambda>fb w. at_rest st0 s0 w \<and> concat (map rows fb) = stored_rows tb rows s0 p) (\<lambda>_. at_rest st0 s0)"
  unfolding read_batch_file_def
  by (rule triple_bind [OF rest_get], rule triple_pure, rule triple_lift) (auto simp: stored_rows_def)

lemma read_inputs_triple:
  assumes "arrow_laws (to_arrow tb) rows" "\<forall>f \<in> set fs. length (stored_rows tb rows s0 (fm_file_path f)) \<le> 2 ^ 32"
  shows "io_triple (at_rest st0 s0 :: 'x world_scheme \<Rightarrow> bool) (read_inputs tb dvs fs batches)
    (\<lambda>res w. at_rest st0 s0 w \<and> concat (map rows res) = concat (map rows batches) @
       concat (map (\<lambda>f. kept_rows (marked dvs (fm_file_path f)) (stored_rows tb rows s0 (fm_file_path f))) fs))
    (\<lambda>_. at_rest st0 s0)"
  using assms(2)
proof (induction fs arbitrary: batches)
  case Nil
  show ?case by (auto intro: triple_return)
next
  case (Cons f fs)
  let ?p = "fm_file_path f" and ?rest = "\<lambda>f. kept_rows (marked dvs (fm_file_path f)) (stored_rows tb rows s0 (fm_file_path f))"
  have next_file: "io_triple (at_rest st0 s0 :: 'x world_scheme \<Rightarrow> bool) (read_inputs tb dvs fs (batches @ more))
      (\<lambda>res w. at_rest st0 s0 w \<and> concat (map rows res) =
         concat (map rows batches) @ concat (map ?rest (f # fs))) (\<lambda>_. at_rest st0 s0)"
    if "concat (map rows more) = ?rest f" for more
    using Cons.prems that by (intro triple_conseq [OF Cons.IH]) auto
  show ?case
  proof (simp only: read_inputs.simps, rule triple_bind [OF read_batch_triple [where rows = rows]], rule triple_pure)
    fix fb assume fb: "concat (map rows fb) = stored_rows tb rows s0 ?p"
    show "io_triple (at_rest st0 s0 :: 'x world_scheme \<Rightarrow> bool)
        (case bm_get dvs ?p of
           None \<Rightarrow> read_inputs tb dvs fs (batches @ fb)
         | Some dv \<Rightarrow> io_bind (io_lift (apply_deletions_to (to_arrow tb) fb dv (fm_row_count f)))
             (\<lambda>kept. read_inputs tb dvs fs (batches @ kept)))
        (\<lambda>res w. at_rest st0 s0 w \<and> concat (map rows res) =
           concat (map rows batches) @ concat (map ?rest (f # fs))) (\<lambda>_. at_rest st0 s0)"
    proof (cases "bm_get dvs ?p")
      case None
      then have "concat (map rows fb) = ?rest f" using fb by (simp add: kept_rows_none marked_def)
      from next_file [OF this] None show ?thesis by simp
    next
      case (Some dv)
      have "concat (map rows kept) = ?rest f"
        if "apply_deletions_to (to_arrow tb) fb dv (fm_row_count f) = Inr kept" for kept
      proof -
        have "drop_deleted (to_arrow tb) dv fb 0 [] = Inr kept"
          using that by (simp add: apply_deletions_to_def and_then_Inr_iff)
        moreover have "marked dvs ?p = dv_contains dv" using Some by (simp add: fun_eq_iff marked_def)
        ultimately show ?thesis using drop_deleted_rows [OF assms(1), of dv fb 0 "[]" kept] Cons.prems fb by simp
      qed
      then have lift: "io_triple (at_rest st0 s0 :: 'x world_scheme \<Rightarrow> bool) (io_lift (apply_deletions_to (to_arrow tb) fb dv (fm_row_count f)))
          (\<lambda>kept w. at_rest st0 s0 w \<and> concat (map rows kept) = ?rest f) (\<lambda>_. at_rest st0 s0)"
        by (intro triple_lift) auto
      show ?thesis
        by (simp only: Some option.case, rule triple_bind [OF lift], rule triple_pure, rule next_file)
    qed
  qed
qed

subsection \<open>Publishing the result\<close>

lemma filter_values_single:
  assumes "bm_get m k0 = Some v0" "P v0" "\<And>k v. bm_get m k = Some v \<Longrightarrow> P v \<Longrightarrow> k = k0"
  shows "filter P (bm_values m) = [v0]"
proof -
  have "bm_filter (\<lambda>_. P) m = bm_insert k0 v0 bm_empty"
  proof (rule bm_eqI)
    fix k
    show "bm_get (bm_filter (\<lambda>_. P) m) k = bm_get (bm_insert k0 v0 bm_empty) k"
    proof (cases "k = k0")
      case False
      then have "\<not> P v" if "bm_get m k = Some v" for v using assms(3) [OF that] by blast
      with False show ?thesis by (simp add: bm_simps split: option.split)
    qed (simp add: bm_simps assms(1,2))
  qed
  then have "bm_values (bm_filter (\<lambda>_. P) m) = [v0]" by (simp add: bm_values_def)
  then show ?thesis by (simp add: bm_values_filter)
qed

lemma compaction_deletions: "deletions (snd (commit_compaction old nfs ep p st)) = deletions st"
  by (cases rule: commit_compaction_cases [of old nfs ep p st]) simp_all

lemma revoke_keeps:
  "files (snd (revoke_deletions_for_file p n now st)) = files st"
  "snapshot_version (snd (revoke_deletions_for_file p n now st)) = snapshot_version st"
  "de_file_path ` set (bm_values (deletions (snd (revoke_deletions_for_file p n now st)))) =
     de_file_path ` set (bm_values (deletions st))"
proof -
  have "deletions (snd (revoke_deletions_for_file p n now st)) =
      bm_map (\<lambda>_ d. if revokes_file p d then d\<lparr>de_revoked_at := n\<rparr> else d) (deletions st)"
    by (simp add: revoke_deletions_for_file_def Let_def cat_simps)
  then show "de_file_path ` set (bm_values (deletions (snd (revoke_deletions_for_file p n now st)))) =
      de_file_path ` set (bm_values (deletions st))"
    by (simp only: bm_values_map set_map image_image) (intro image_cong, auto)
qed (simp_all add: revoke_deletions_for_file_def Let_def cat_simps)

text \<open>The batch id of the merge has never been used: no object, file or vector has one of its paths.\<close>

definition fresh_path :: "string \<Rightarrow> catalog_state \<Rightarrow> object_store \<Rightarrow> bool" where
  "fresh_path p st s \<longleftrightarrow> \<not> bm_has s p \<and>
     p \<notin> fm_file_path ` set (bm_values (files st)) \<and>
     p \<notin> de_file_path ` set (bm_values (deletions st)) \<and>
     p \<notin> de_store_path ` set (bm_values (deletions st))"

definition fresh_batch :: "string \<Rightarrow> string \<Rightarrow> string \<Rightarrow> catalog_state \<Rightarrow> object_store \<Rightarrow> bool" where
  "fresh_batch table shard bid st s \<longleftrightarrow> \<not> bm_has (files st) bid \<and>
     (\<forall>w fmt. fresh_path (file_path table shard w bid fmt) st s)"

text \<open>The catalog and the store after the merge: nothing happened yet, or the swap is done.\<close>

definition pending_merge ::
  "catalog_state \<Rightarrow> object_store \<Rightarrow> string \<Rightarrow> catalog_state \<Rightarrow> object_store \<Rightarrow> bool" where
  "pending_merge st0 s0 p st s \<longleftrightarrow>
     files st = files st0 \<and> deletions st = deletions st0 \<and> snapshot_version st = snapshot_version st0 \<and>
     (s = s0 \<or> (\<exists>bs. s = bm_insert p bs s0))"

definition merge_done ::
  "catalog_state \<Rightarrow> object_store \<Rightarrow> file_manifest list \<Rightarrow> file_manifest \<Rightarrow> bytes \<Rightarrow> catalog_state \<Rightarrow> object_store \<Rightarrow> bool" where
  "merge_done st0 s0 fs nf bs st s \<longleftrightarrow>
     (let n = Suc (snapshot_version st0) in
      files st = bm_insert (fm_batch_id nf) (compacted_file n nf)
        (fold (retire_input n) (map fm_batch_id fs) (files st0)) \<and>
      (\<forall>f \<in> set fs. \<not> input_offline st0 (fm_batch_id f)) \<and>
      snapshot_version st = n \<and>
      de_file_path ` set (bm_values (deletions st)) = de_file_path ` set (bm_values (deletions st0)) \<and>
      s = bm_insert (fm_file_path nf) bs s0)"

lemma pending_view:
  assumes "pending_merge st0 s0 p st s" "fresh_path p st0 s0"
  shows "shard_rows tb rows s st table shard k = shard_rows tb rows s0 st0 table shard k"
proof -
  have "shard_rows tb rows s st table shard k = shard_rows tb rows s st0 table shard k"
    using assms(1) unfolding pending_merge_def by (metis shard_rows_catalog)
  also have "\<dots> = shard_rows tb rows s0 st0 table shard k"
  proof (cases "s = s0")
    case False
    then obtain bs where s: "s = bm_insert p bs s0" using assms(1) by (auto simp: pending_merge_def)
    have "\<forall>f \<in> set (bm_values (files st0)). fm_file_path f \<noteq> p"
      "\<forall>d \<in> set (bm_values (deletions st0)). de_store_path d \<noteq> p"
      using assms(2) unfolding fresh_path_def by blast+
    from shard_rows_store_other [OF this] s show ?thesis by simp
  qed simp
  finally show ?thesis .
qed

lemma merge_done_listing:
  assumes "merge_done st0 s0 fs nf bs st s" "all_entries (file_wf (snapshot_version st0)) (files st0)" "\<not> bm_has (files st0) (fm_batch_id nf)"
    and "fs = list_visible_files table (snapshot_version st0) (Some shard) st0"
    and "fm_table nf = table" "fm_shard nf = shard" "fm_deleted_at nf = 0"
  shows "list_visible_files table (snapshot_version st) (Some shard) st =
    [compacted_file (snapshot_version st) nf]"
proof -
  let ?n = "Suc (snapshot_version st0)"
  let ?P = "\<lambda>f. visible_at f ?n \<and> fm_shard f = shard \<and> normalize_table (fm_table f) = normalize_table table"
  have st: "files st = bm_insert (fm_batch_id nf) (compacted_file ?n nf)
      (fold (retire_input ?n) (map fm_batch_id fs) (files st0))" "snapshot_version st = ?n"
    "\<forall>f \<in> set fs. \<not> input_offline st0 (fm_batch_id f)"
    using assms(1) by (simp_all add: merge_done_def Let_def)
  have "filter ?P (bm_values (files st)) = [compacted_file ?n nf]"
  proof (rule filter_values_single)
    show "bm_get (files st) (fm_batch_id nf) = Some (compacted_file ?n nf)" by (simp add: st bm_simps)
    show "?P (compacted_file ?n nf)"
      using assms(5-7) by (simp add: compacted_file_def visible_at_def protects_at_def)
    fix k f assume k: "bm_get (files st) k = Some f" and f: "?P f"
    show "k = fm_batch_id nf"
    proof (rule ccontr)
      assume "k \<noteq> fm_batch_id nf"
      then have got: "(if k \<in> fm_batch_id ` set fs then map_option (retired ?n) (bm_get (files st0) k)
          else bm_get (files st0) k) = Some f"
        using k by (simp add: st(1) bm_simps bm_get_retire_all del: fold_map)
      then obtain f0 where f0: "bm_get (files st0) k = Some f0" by (auto split: if_splits)
      have wf: "fm_batch_id f0 = k" "fm_valid_from f0 \<le> snapshot_version st0"
        using assms(2) f0 by (auto simp: all_entries_def file_wf_def)
      show False
      proof (cases "k \<in> fm_batch_id ` set fs")
        case True
        then have "fm_deleted_at f0 = 0" using st(3) f0 by (auto simp: input_offline_def)
        then show False using got True f0 f by (auto simp: retired_def visible_at_def protects_at_def)
      next
        case False
        with got f0 have "f0 = f" by simp
        with f wf(2) have "visible_at f0 (snapshot_version st0)" by (auto simp: visible_at_def protects_at_def)
        then have "f0 \<in> set fs"
          using f \<open>f0 = f\<close> f0 by (auto simp: assms(4) list_visible_files_def Let_def bm_values_iff)
        with False wf(1) show False by blast
      qed
    qed
  qed
  then show ?thesis by (simp add: list_visible_files_def Let_def st(2) conj_ac)
qed

lemma merge_done_view:
  assumes "merge_done st0 s0 fs nf bs st s" "all_entries (file_wf (snapshot_version st0)) (files st0)" "\<not> bm_has (files st0) (fm_batch_id nf)"
    and "fs = list_visible_files table (snapshot_version st0) (Some shard) st0"
    and "fm_table nf = table" "fm_shard nf = shard" "fm_deleted_at nf = 0" "fresh_path (fm_file_path nf) st0 s0"
  shows "shard_rows tb rows s st table shard (snapshot_version st) =
    stored_rows tb rows (bm_insert (fm_file_path nf) bs s0) (fm_file_path nf)"
proof -
  let ?p = "fm_file_path nf"
  have s: "s = bm_insert ?p bs s0" and dels: "de_file_path ` set (bm_values (deletions st)) =
      de_file_path ` set (bm_values (deletions st0))"
    using assms(1) by (simp_all add: merge_done_def Let_def)
  have "?p \<notin> de_file_path ` set (bm_values (deletions st))" using assms(8) dels by (simp add: fresh_path_def)
  then have "\<not> row_deleted tb s (list_deletions table (snapshot_version st) st) ?p i" for i
    unfolding row_deleted_iff list_deletions_def Let_def by (metis (no_types, lifting) filter_is_subset image_eqI subsetD)
  then have "live_rows tb rows s (list_deletions table (snapshot_version st) st) ?p = stored_rows tb rows s ?p"
    by (simp add: live_rows_def kept_rows_none)
  with merge_done_listing [OF assms(1-7)] s show ?thesis
    by (simp add: shard_rows_def compacted_file_def)
qed

subsection \<open>The triple of a merge\<close>

lemma triple_clock:
  "(\<And>now. io_triple P (m now) Q E) \<Longrightarrow> io_triple P (\<lambda>w. m (w_clock w) w) Q E"
  by (simp add: io_triple_def)

lemma triple_at:
  fixes m :: "'x world_scheme \<Rightarrow> ('e + 'a) \<times> 'x world_scheme"
  assumes "\<And>st0 s0. R st0 s0 \<Longrightarrow> io_triple (at_rest st0 s0) m Q E"
  shows "io_triple (calm R) m Q E"
  unfolding io_triple_def
proof (intro allI impI)
  fix w :: "'x world_scheme" assume "calm R w"
  then have "R (w_catalog w) (w_store w)" "at_rest (w_catalog w) (w_store w) w" by (simp_all add: calm_def)
  with assms [OF this(1)] show "case m w of (Inr x, w') \<Rightarrow> Q x w' | (Inl e, w') \<Rightarrow> E e w'"
    by (simp add: io_triple_def)
qed

lemma calm_do_keeps:
  fixes w :: "'x world_scheme"
  assumes "\<And>now st s. R st s \<Longrightarrow> R (snd (f now st)) s" "calm R w"
  shows "calm R (snd (catalog_do cx f w))"
proof -
  have "io_triple (calm R) (catalog_do cx f) (\<lambda>_. calm R :: 'x world_scheme \<Rightarrow> bool) (\<lambda>_. calm R)"
    by (rule calm_do [where R' = "\<lambda>_. R"]) (use assms(1) in auto)
  with assms(2) show ?thesis
    by (cases "fst (catalog_do cx f w)"; cases "catalog_do cx f w") (auto simp: io_triple_def)
qed

lemma calm_mono: "calm R w \<Longrightarrow> (\<And>st s. R st s \<Longrightarrow> R' st s) \<Longrightarrow> calm R' w"
  by (simp add: calm_def)

definition merged_as ::
  "'b tools \<Rightarrow> string \<Rightarrow> string \<Rightarrow> string \<Rightarrow> string \<Rightarrow> data_format \<Rightarrow> file_manifest list \<Rightarrow> 'b \<Rightarrow>
    catalog_state \<Rightarrow> object_store \<Rightarrow> catalog_state \<Rightarrow> object_store \<Rightarrow> bool" where
  "merged_as tb table shard w bid fmt fs merged st0 s0 st s \<longleftrightarrow>
     (\<exists>bs. ar_encode (to_arrow tb) fmt merged = Inr bs \<and>
        merge_done st0 s0 fs (merged_manifest (file_path table shard w bid fmt) bid
          (ar_num_rows (to_arrow tb) merged) (length bs) table shard w) bs st s)"

lemma revoke_consumed_calm:
  assumes "calm (merged_as tb table shard tw bid fmt fs merged st0 s0) w"
  shows "calm (merged_as tb table shard tw bid fmt fs merged st0 s0) (revoke_consumed cx n gs w)"
  unfolding revoke_consumed_def
proof (rule fold_invariant_on [where P = "calm (merged_as tb table shard tw bid fmt fs merged st0 s0)", OF assms],
    rule calm_do_keeps)
  fix f now st s
  assume "merged_as tb table shard tw bid fmt fs merged st0 s0 st s"
  then show "merged_as tb table shard tw bid fmt fs merged st0 s0
      (snd (revoke_deletions_for_file (fm_file_path f) n now st)) s"
    by (simp add: merged_as_def merge_done_def Let_def revoke_keeps)
qed

lemma commit_step:
  assumes "pending_merge st0 s0 p st s" "s = bm_insert (fm_file_path nf) bs s0"
    and "commit_compaction (map fm_batch_id fs) [nf] ep lp st = (r, st')"
  shows "case r of Inl _ \<Rightarrow> st' = st | Inr v \<Rightarrow> v = Suc (snapshot_version st0) \<and> merge_done st0 s0 fs nf bs st' s"
proof (cases rule: commit_compaction_cases [of "map fm_batch_id fs" "[nf]" ep lp st])
  case (refused e)
  then show ?thesis using assms(3) by simp
next
  case (committed st'')
  then show ?thesis
    using assms by (auto simp: pending_merge_def merge_done_def Let_def input_offline_def)
qed

abbreviation publish_err ::
  "'b tools \<Rightarrow> string \<Rightarrow> string \<Rightarrow> string \<Rightarrow> string \<Rightarrow> data_format \<Rightarrow> file_manifest list \<Rightarrow> 'b \<Rightarrow>
    catalog_state \<Rightarrow> object_store \<Rightarrow> lake_error \<Rightarrow> 'x world_scheme \<Rightarrow> bool" where
  "publish_err tb table shard tw bid fmt fs merged st0 s0 e \<equiv>
     calm (\<lambda>st s. pending_merge st0 s0 (file_path table shard tw bid fmt) st s \<or>
       merged_as tb table shard tw bid fmt fs merged st0 s0 st s)"

lemma announce_triple:
  "io_triple (at_rest st0 s0 :: 'x world_scheme \<Rightarrow> bool)
    (\<lambda>w. catalog_do (to_codecs tb) (\<lambda>_ st. ((), record_in_flight bid (w_clock w) st)) w)
    (\<lambda>_. calm (\<lambda>st s. pending_merge st0 s0 (file_path table shard tw bid fmt) st s \<and> s = s0))
    (publish_err tb table shard tw bid fmt fs merged st0 s0)"
  by (rule triple_clock, rule calm_do)
     (auto simp: calm_def pending_merge_def record_in_flight_def split: option.split)

text \<open>The object has been uploaded, the commit is still to come.\<close>

definition uploaded ::
  "'b tools \<Rightarrow> data_format \<Rightarrow> string \<Rightarrow> 'b \<Rightarrow> catalog_state \<Rightarrow> object_store \<Rightarrow> nat \<Rightarrow> catalog_state \<Rightarrow> object_store \<Rightarrow> bool" where
  "uploaded tb fmt p merged st0 s0 size_of st s \<longleftrightarrow>
     (\<exists>bs. size_of = length bs \<and> ar_encode (to_arrow tb) fmt merged = Inr bs \<and>
        pending_merge st0 s0 p st s \<and> s = bm_insert p bs s0)"

lemma upload_triple:
  assumes "p = file_path table shard tw bid fmt"
  shows "io_triple (calm (\<lambda>st s. pending_merge st0 s0 p st s \<and> s = s0) :: 'x world_scheme \<Rightarrow> bool)
    (write_batch_file tb table shard tw bid merged fmt)
    (\<lambda>(path, n, _) w. calm (uploaded tb fmt p merged st0 s0 n) w \<and> path = p)
    (publish_err tb table shard tw bid fmt fs merged st0 s0)"
  unfolding write_batch_file_def Let_def assms [symmetric]
proof (rule triple_bind)
  let ?P = "calm (\<lambda>st s. pending_merge st0 s0 p st s \<and> s = s0) :: 'x world_scheme \<Rightarrow> bool"
  let ?E = "\<lambda>_ :: lake_error. calm (\<lambda>st s. pending_merge st0 s0 p st s \<or>
    merged_as tb table shard tw bid fmt fs merged st0 s0 st s) :: 'x world_scheme \<Rightarrow> bool"
  show "io_triple ?P (io_lift (ar_encode (to_arrow tb) fmt merged))
      (\<lambda>bs w. ?P w \<and> ar_encode (to_arrow tb) fmt merged = Inr bs) ?E"
    by (rule triple_lift) (auto simp: calm_def assms)
  show "io_triple (\<lambda>w. ?P w \<and> ar_encode (to_arrow tb) fmt merged = Inr bs)
      (io_bind (put_bytes (to_codecs tb) p bs) (\<lambda>_. io_return (p, length bs, ar_num_rows (to_arrow tb) merged)))
      (\<lambda>(path, n, _) w. calm (uploaded tb fmt p merged st0 s0 n) w \<and> path = p) ?E" for bs
    by (rule triple_pure, rule triple_bind [OF calm_put triple_return])
       (auto simp: calm_def pending_merge_def uploaded_def assms)
qed

lemma commit_triple:
  assumes "p = file_path table shard tw bid fmt"
  shows "io_triple (calm (uploaded tb fmt p merged st0 s0 n) :: 'x world_scheme \<Rightarrow> bool)
    (commit_compaction_files (to_codecs tb) co table shard (map fm_batch_id fs)
      (merged_manifest p bid (ar_num_rows (to_arrow tb) merged) n table shard tw) ep)
    (\<lambda>v. calm (\<lambda>st s. v = Suc (snapshot_version st0) \<and> merged_as tb table shard tw bid fmt fs merged st0 s0 st s))
    (publish_err tb table shard tw bid fmt fs merged st0 s0)"
  unfolding commit_compaction_files_def
proof (rule triple_conseq [OF calm_call [where R' = "\<lambda>r st s. case r of
      Inl _ \<Rightarrow> pending_merge st0 s0 p st s
    | Inr v \<Rightarrow> v = Suc (snapshot_version st0) \<and> merged_as tb table shard tw bid fmt fs merged st0 s0 st s"]])
  fix now st s
  let ?new = "merged_manifest p bid (ar_num_rows (to_arrow tb) merged) n table shard tw"
  let ?r = "commit_compaction (map fm_batch_id fs) [?new] ep
      (compaction_shard_lease_purpose (cc_lease_purpose (co_cfg co)) table shard) st"
  assume "uploaded tb fmt p merged st0 s0 n st s"
  then obtain bs where bs: "n = length bs" "ar_encode (to_arrow tb) fmt merged = Inr bs"
    "pending_merge st0 s0 p st s" "s = bm_insert p bs s0" by (auto simp: uploaded_def)
  then have "s = bm_insert (fm_file_path ?new) bs s0" by (simp add: merged_manifest_def)
  from commit_step [OF bs(3) this prod.collapse [symmetric]]
  have step: "case fst ?r of Inl _ \<Rightarrow> snd ?r = st
      | Inr v \<Rightarrow> v = Suc (snapshot_version st0) \<and> merge_done st0 s0 fs ?new bs (snd ?r) s" .
  show "case fst ?r of Inl _ \<Rightarrow> pending_merge st0 s0 p (snd ?r) s
      | Inr v \<Rightarrow> v = Suc (snapshot_version st0) \<and> merged_as tb table shard tw bid fmt fs merged st0 s0 (snd ?r) s"
  proof (cases "fst ?r")
    case (Inl e)
    with step bs(3) show ?thesis by auto
  next
    case (Inr v)
    with step have "v = Suc (snapshot_version st0)" "merge_done st0 s0 fs ?new bs (snd ?r) s"
      by simp_all
    with bs(1,2) Inr show ?thesis unfolding merged_as_def assms [symmetric] by auto
  qed
qed (auto simp: calm_def uploaded_def assms split: sum.splits)

lemma publish_triple:
  assumes "fmt = out_format co fs" "tw = fm_time_window (hd fs)"
  shows "io_triple (at_rest st0 s0 :: 'x world_scheme \<Rightarrow> bool)
    (publish_merged tb co table shard ep bid fs dvs merged)
    (\<lambda>r w. r = Some (Suc (snapshot_version st0)) \<and> calm (merged_as tb table shard tw bid fmt fs merged st0 s0) w)
    (publish_err tb table shard tw bid fmt fs merged st0 s0)" (is "io_triple _ _ ?Q ?E")
proof -
  let ?done = "merged_as tb table shard tw bid fmt fs merged st0 s0"
  define p where "p = file_path table shard tw bid fmt"
  have finish: "io_triple (calm (\<lambda>st s. v = Suc (snapshot_version st0) \<and> ?done st s))
      (\<lambda>w. (Inr (Some v), revoke_consumed (to_codecs tb) v gs w)) ?Q ?E" for v gs
    using revoke_consumed_calm [of tb table shard tw bid fmt fs merged st0 s0]
    by (auto simp: io_triple_def calm_def)
  have rest: "io_triple (\<lambda>w. calm (uploaded tb fmt p merged st0 s0 n) w \<and> path = p)
      (io_bind (commit_compaction_files (to_codecs tb) co table shard (map fm_batch_id fs)
          (merged_manifest path bid (ar_num_rows (to_arrow tb) merged) n table shard tw) ep)
        (\<lambda>v w. (Inr (Some v), revoke_consumed (to_codecs tb) v (filter (\<lambda>f. bm_has dvs (fm_file_path f)) fs) w)))
      ?Q ?E" for path n
  proof (rule triple_pure)
    assume "path = p"
    show "io_triple (calm (uploaded tb fmt p merged st0 s0 n))
      (io_bind (commit_compaction_files (to_codecs tb) co table shard (map fm_batch_id fs)
          (merged_manifest path bid (ar_num_rows (to_arrow tb) merged) n table shard tw) ep)
        (\<lambda>v w. (Inr (Some v), revoke_consumed (to_codecs tb) v (filter (\<lambda>f. bm_has dvs (fm_file_path f)) fs) w)))
      ?Q ?E"
      unfolding \<open>path = p\<close> by (rule triple_bind [OF commit_triple [OF p_def] finish])
  qed
  show ?thesis
    unfolding publish_merged_def Let_def assms [symmetric]
    by (rule triple_bind [OF announce_triple triple_bind [OF upload_triple [OF p_def, unfolded p_def]]])
       (use rest in \<open>simp add: p_def split: prod.split\<close>)
qed

subsection \<open>What queries see\<close>

text \<open>
  The hypotheses on the start of a merge: the files it lists at \<open>snapshot\<close> are still the visible ones,
  a file has at most \<open>2 ^ 32\<close> rows, and the drawn batch id is new.
\<close>

definition merge_ready ::
  "'b tools \<Rightarrow> ('b \<Rightarrow> 'r list) \<Rightarrow> string \<Rightarrow> string \<Rightarrow> nat \<Rightarrow> string \<Rightarrow> catalog_state \<Rightarrow> object_store \<Rightarrow> bool" where
  "merge_ready tb rows table shard snapshot bid st s \<longleftrightarrow>
     all_entries (file_wf (snapshot_version st)) (files st) \<and>
     list_visible_files table snapshot (Some shard) st =
       list_visible_files table (snapshot_version st) (Some shard) st \<and>
     (\<forall>f \<in> set (list_visible_files table snapshot (Some shard) st).
        length (stored_rows tb rows s (fm_file_path f)) \<le> 2 ^ 32) \<and>
     fresh_batch table shard bid st s"

definition same_view :: "catalog_state \<Rightarrow> catalog_state \<Rightarrow> bool" where
  "same_view st st' \<longleftrightarrow> files st' = files st \<and> deletions st' = deletions st \<and>
     snapshot_version st' = snapshot_version st"

lemma same_view_rows: "same_view st st' \<Longrightarrow> shard_rows tb rows s st' = shard_rows tb rows s st"
  unfolding same_view_def by (metis shard_rows_catalog)

lemma same_view_ready:
  "same_view st st' \<Longrightarrow> merge_ready tb rows table shard k bid st' s = merge_ready tb rows table shard k bid st s"
  by (simp add: same_view_def merge_ready_def fresh_batch_def fresh_path_def list_visible_files_def)

lemma same_view_lease:
  "same_view st (snd (acquire_lease p h now ttl st))" "same_view st (snd (release_lease p h e st))"
  by (auto simp: same_view_def lease_op_defs split: option.split)

text \<open>What a query of the current snapshot sees after the merge, which has the result \<open>r\<close>.\<close>

definition view_after ::
  "'b tools \<Rightarrow> ('b \<Rightarrow> 'r list) \<Rightarrow> string \<Rightarrow> string \<Rightarrow> nat \<Rightarrow> catalog_state \<Rightarrow> object_store \<Rightarrow> nat option \<Rightarrow>
    catalog_state \<Rightarrow> object_store \<Rightarrow> bool" where
  "view_after tb rows table shard k st0 s0 r st s \<longleftrightarrow>
     (case r of
        None \<Rightarrow> snapshot_version st = snapshot_version st0 \<and>
          shard_rows tb rows s st table shard (snapshot_version st) =
          shard_rows tb rows s0 st0 table shard (snapshot_version st0)
      | Some v \<Rightarrow> v = Suc (snapshot_version st0) \<and> snapshot_version st = v \<and>
          mset (shard_rows tb rows s st table shard v) = mset (shard_rows tb rows s0 st0 table shard k))"

lemma merged_as_view:
  assumes "arrow_laws (to_arrow tb) rows" "merge_ready tb rows table shard k bid st0 s0"
    and "fs = list_visible_files table k (Some shard) st0"
    and "mset (rows merged) = mset (shard_rows tb rows s0 st0 table shard k)"
    and "merged_as tb table shard tw bid fmt fs merged st0 s0 st s"
  shows "view_after tb rows table shard k st0 s0 (Some (Suc (snapshot_version st0))) st s"
proof -
  let ?p = "file_path table shard tw bid fmt"
  from assms(5) obtain bs where bs: "ar_encode (to_arrow tb) fmt merged = Inr bs"
    and swapped: "merge_done st0 s0 fs (merged_manifest ?p bid (ar_num_rows (to_arrow tb) merged) (length bs)
      table shard tw) bs st s" by (auto simp: merged_as_def)
  have "shard_rows tb rows s st table shard (snapshot_version st) =
      stored_rows tb rows (bm_insert ?p bs s0) ?p"
    using merge_done_view [OF swapped, of table shard tb rows] assms(2,3)
    by (simp add: merge_ready_def fresh_batch_def merged_manifest_def)
  also have "\<dots> = rows merged"
    using assms(1) bs by (force simp: stored_rows_def bm_simps arrow_laws_def)
  finally show ?thesis using swapped assms(4) by (simp add: view_after_def merge_done_def Let_def)
qed

abbreviation view_post ::
  "'b tools \<Rightarrow> ('b \<Rightarrow> 'r list) \<Rightarrow> string \<Rightarrow> string \<Rightarrow> nat \<Rightarrow> catalog_state \<Rightarrow> object_store \<Rightarrow> nat option \<Rightarrow>
    'x world_scheme \<Rightarrow> bool" where
  "view_post tb rows table shard k st0 s0 r \<equiv> calm (view_after tb rows table shard k st0 s0 r)"

abbreviation view_err ::
  "'b tools \<Rightarrow> ('b \<Rightarrow> 'r list) \<Rightarrow> string \<Rightarrow> string \<Rightarrow> nat \<Rightarrow> catalog_state \<Rightarrow> object_store \<Rightarrow> lake_error \<Rightarrow>
    'x world_scheme \<Rightarrow> bool" where
  "view_err tb rows table shard k st0 s0 e \<equiv> calm (\<lambda>st s. \<exists>r. view_after tb rows table shard k st0 s0 r st s)"

lemma view_idle: "at_rest st0 s0 w \<Longrightarrow> view_post tb rows table shard k st0 s0 None w"
  by (simp add: calm_def view_after_def)

lemma view_stop: "at_rest st0 s0 w \<Longrightarrow> view_err tb rows table shard k st0 s0 e w"
  using view_idle [of st0 s0 w tb rows table shard k] by (auto simp: calm_def)

lemma view_none: "io_triple (at_rest st0 s0) (io_return None)
    (view_post tb rows table shard k st0 s0) (view_err tb rows table shard k st0 s0)"
  by (rule triple_return) (rule view_idle)

lemma publish_view:
  assumes "arrow_laws (to_arrow tb) rows" "merge_ready tb rows table shard k bid st0 s0"
    and "fs = list_visible_files table k (Some shard) st0"
    and "mset (rows merged) = mset (shard_rows tb rows s0 st0 table shard k)"
  shows "io_triple (at_rest st0 s0 :: 'x world_scheme \<Rightarrow> bool)
    (publish_merged tb co table shard ep bid fs dvs merged)
    (view_post tb rows table shard k st0 s0) (view_err tb rows table shard k st0 s0)"
proof (rule triple_conseq [OF publish_triple [OF refl refl]])
  let ?p = "file_path table shard (fm_time_window (hd fs)) bid (out_format co fs)"
  let ?merged = "merged_as tb table shard (fm_time_window (hd fs)) bid (out_format co fs) fs merged st0 s0"
  note view = merged_as_view [OF assms]
  have path: "fresh_path ?p st0 s0" using assms(2) by (simp add: merge_ready_def fresh_batch_def)
  show "view_post tb rows table shard k st0 s0 r w"
    if "r = Some (Suc (snapshot_version st0)) \<and> calm ?merged w" for r and w :: "'x world_scheme"
    using that view by (auto simp: calm_def)
  show "view_err tb rows table shard k st0 s0 e w"
    if "calm (\<lambda>st s. pending_merge st0 s0 ?p st s \<or> ?merged st s) w" for e and w :: "'x world_scheme"
    using that unfolding calm_def
  proof (elim conjE disjE)
    assume "quiet w" and pending: "pending_merge st0 s0 ?p (w_catalog w) (w_store w)"
    have "view_after tb rows table shard k st0 s0 None (w_catalog w) (w_store w)"
      using pending_view [OF pending path] pending by (simp add: view_after_def pending_merge_def)
    with \<open>quiet w\<close> show "quiet w \<and> (\<exists>r. view_after tb rows table shard k st0 s0 r (w_catalog w) (w_store w))"
      by blast
  qed (use view in blast)
qed auto

lemma read_view:
  assumes "arrow_laws (to_arrow tb) rows" "merge_ready tb rows table shard k bid st0 s0"
    and "fs = list_visible_files table k (Some shard) st0"
    and "marked dvs = row_deleted tb s0 (list_deletions table k st0)"
  shows "io_triple (at_rest st0 s0 :: 'x world_scheme \<Rightarrow> bool)
    (io_bind (read_inputs tb dvs fs []) (\<lambda>batches.
      if batches = [] then io_return None
      else (case merge_batches (to_arrow tb) batches of None \<Rightarrow> io_return None
            | Some merged \<Rightarrow> publish_merged tb co table shard ep bid fs dvs merged)))
    (view_post tb rows table shard k st0 s0) (view_err tb rows table shard k st0 s0)"
    (is "io_triple ?P _ ?Q ?E")
proof -
  have small: "\<forall>f \<in> set fs. length (stored_rows tb rows s0 (fm_file_path f)) \<le> 2 ^ 32"
    using assms(2,3) by (simp add: merge_ready_def)
  have inputs: "io_triple ?P (read_inputs tb dvs fs [])
      (\<lambda>bs w. ?P w \<and> concat (map rows bs) = shard_rows tb rows s0 st0 table shard k) ?E"
    by (rule triple_conseq [OF read_inputs_triple [OF assms(1) small]])
       (auto simp: shard_rows_def live_rows_def assms(3,4) intro: view_stop)
  show ?thesis
  proof (rule triple_bind [OF inputs], rule triple_pure)
    fix batches assume rows: "concat (map rows batches) = shard_rows tb rows s0 st0 table shard k"
    show "io_triple ?P (if batches = [] then io_return None
        else (case merge_batches (to_arrow tb) batches of None \<Rightarrow> io_return None
            | Some merged \<Rightarrow> publish_merged tb co table shard ep bid fs dvs merged)) ?Q ?E"
    proof (cases "merge_batches (to_arrow tb) batches")
      case (Some merged)
      have "mset (rows merged) = mset (shard_rows tb rows s0 st0 table shard k)"
        using merge_batches_rows [OF assms(1) Some] rows by simp
      from Some show ?thesis by (simp add: view_none publish_view [OF assms(1-3) \<open>mset _ = _\<close>])
    qed (simp add: view_none)
  qed
qed

lemma inner_triple:
  assumes "arrow_laws (to_arrow tb) rows" "merge_ready tb rows table shard k bid st0 s0"
  shows "io_triple (at_rest st0 s0 :: 'x world_scheme \<Rightarrow> bool) (compact_shard_inner tb co table shard k ep bid)
    (view_post tb rows table shard k st0 s0) (view_err tb rows table shard k st0 s0)"
    (is "io_triple ?P _ ?Q ?E")
proof -
  have listing: "io_triple ?P (catalog_query (to_codecs tb) (list_visible_files table k (Some shard)))
      (\<lambda>fs w. ?P w \<and> fs = list_visible_files table k (Some shard) st0) ?E"
    by (rule triple_conseq [OF rest_query]) (auto intro: view_stop)
  have bitmaps: "io_triple ?P (deletion_bitmaps tb table k)
      (\<lambda>dvs w. ?P w \<and> marked dvs = row_deleted tb s0 (list_deletions table k st0)) ?E"
    by (rule triple_conseq [OF bitmaps_triple]) (auto intro: view_stop)
  show ?thesis
    unfolding compact_shard_inner_def
  proof (rule triple_bind [OF listing], rule triple_pure)
    fix fs assume fs: "fs = list_visible_files table k (Some shard) st0"
    let ?go = "\<lambda>dvs. if length fs < cc_min_files (co_cfg co) \<and> \<not> dv_trigger (co_cfg co) dvs fs then io_return None
        else io_bind (read_inputs tb dvs fs []) (\<lambda>batches.
          if batches = [] then io_return None
          else (case merge_batches (to_arrow tb) batches of None \<Rightarrow> io_return None
            | Some merged \<Rightarrow> publish_merged tb co table shard ep bid fs dvs merged))"
    have "io_triple ?P (io_bind (deletion_bitmaps tb table k) ?go) ?Q ?E"
    proof (rule triple_bind [OF bitmaps], rule triple_pure)
      fix dvs assume dvs: "marked dvs = row_deleted tb s0 (list_deletions table k st0)"
      show "io_triple ?P (?go dvs) ?Q ?E" by (simp add: view_none read_view [OF assms fs dvs])
    qed
    then show "io_triple ?P (if fs = [] then io_return None else io_bind (deletion_bitmaps tb table k) ?go) ?Q ?E"
      by (simp add: view_none)
  qed
qed

end
