(* ===== verification/Compactor_Round.thy ===== *)
theory Compactor_Round
  imports Compactor_Merge Catalog_Views
begin

text \<open>
  The properties of the compactor: a merge never changes what a query sees, it does not run beside
  DML on its shard, and a round stays within its budget. The other theorems state defects: a merge
  at an old snapshot brings deleted rows back, the fencing token it commits with is never looked
  at, and a shard without live rows is never collected.
\<close>

subsection \<open>The merge of a shard\<close>

lemma view_after_start: "same_view st0 st1 \<Longrightarrow>
    view_after tb rows table shard k st1 s0 = view_after tb rows table shard k st0 s0"
  using same_view_rows [of st0 st1 tb rows s0]
  by (simp add: fun_eq_iff view_after_def same_view_def split: option.split)

lemma view_after_end: "same_view st st' \<Longrightarrow> view_after tb rows table shard k st0 s0 r st s \<Longrightarrow>
    view_after tb rows table shard k st0 s0 r st' s"
  using same_view_rows [of st st' tb rows s]
  by (auto simp: view_after_def same_view_def split: option.splits)

lemma acquire_triple:
  "io_triple (at_rest st0 s0 :: 'x world_scheme \<Rightarrow> bool) (shard_dml_acquire cx co table shard)
    (\<lambda>_. calm (\<lambda>st s. same_view st0 st \<and> s = s0)) (\<lambda>_. calm (\<lambda>st s. same_view st0 st \<and> s = s0))"
  unfolding shard_dml_acquire_def Let_def
  by (rule triple_clock [where m = "\<lambda>now. io_bind (catalog_do cx (\<lambda>_. acquire_lease
          (dml_shard_lease_purpose table shard) (co_lease_holder co @ ''-cmp'') now (cc_lease_ttl_ms (co_cfg co)))) _"],
      rule triple_bind [OF calm_do triple_return])
     (auto simp: calm_def same_view_lease, simp_all add: same_view_def)

lemma release_triple:
  assumes "io_triple P m (\<lambda>r. calm (R r) :: 'x world_scheme \<Rightarrow> bool) (\<lambda>_. calm R')"
    and "\<And>st st' s r. same_view st st' \<Longrightarrow> R r st s \<Longrightarrow> R r st' s"
    and "\<And>st st' s. same_view st st' \<Longrightarrow> R' st s \<Longrightarrow> R' st' s"
  shows "io_triple P (\<lambda>w. let r = m w in (fst r, shard_dml_release cx l (snd r))) (\<lambda>r. calm (R r)) (\<lambda>_. calm R')"
proof (rule io_tripleI)
  fix w r and w' :: "'x world_scheme"
  assume P: "P w" and run: "(let r = m w in (fst r, shard_dml_release cx l (snd r))) = (r, w')"
  then have w': "w' = shard_dml_release cx l (snd (m w))" by (simp add: Let_def)
  have keep: "calm Q w'" if "calm Q (snd (m w))" "\<And>st st' s. same_view st st' \<Longrightarrow> Q st s \<Longrightarrow> Q st' s" for Q
    unfolding w' shard_dml_release_def by (rule calm_do_keeps [OF _ that(1)]) (rule that(2) [OF same_view_lease(2)])
  have "case r of Inr x \<Rightarrow> calm (R x) (snd (m w)) | Inl e \<Rightarrow> calm R' (snd (m w))"
    using assms(1) P run by (auto simp: io_triple_def Let_def split: prod.splits)
  then show "case r of Inr x \<Rightarrow> calm (R x) w' | Inl e \<Rightarrow> calm R' w'"
    by (cases r) (auto intro: keep assms(2,3))
qed

lemma shard_triple:
  assumes "arrow_laws (to_arrow tb) rows" "merge_ready tb rows table shard k bid st0 s0"
  shows "io_triple (at_rest st0 s0 :: 'x world_scheme \<Rightarrow> bool) (compact_shard tb co table shard k ep bid)
    (view_post tb rows table shard k st0 s0) (view_err tb rows table shard k st0 s0)"
    (is "io_triple _ _ ?Q ?E")
proof -
  let ?same = "calm (\<lambda>st s. same_view st0 st \<and> s = s0) :: 'x world_scheme \<Rightarrow> bool"
  have idle: "?same w \<Longrightarrow> ?Q None w" for w
    by (auto simp: calm_def view_after_def same_view_rows) (simp_all add: same_view_def)
  have acquire: "io_triple (at_rest st0 s0) (shard_dml_acquire (to_codecs tb) co table shard) (\<lambda>_. ?same) ?E"
    by (rule triple_conseq [OF acquire_triple]) (use idle in \<open>auto simp: calm_def\<close>)
  have run: "io_triple ?same (compact_shard_inner tb co table shard k ep bid) ?Q ?E"
  proof (rule triple_at)
    fix st1 s1 assume at: "same_view st0 st1 \<and> s1 = s0"
    then have "merge_ready tb rows table shard k bid st1 s0" using assms(2) by (metis same_view_ready)
    note inner = inner_triple [OF assms(1) this]
    have "view_after tb rows table shard k st1 s0 = view_after tb rows table shard k st0 s0"
      using at by (blast intro: view_after_start)
    with inner at show "io_triple (at_rest st1 s1 :: 'x world_scheme \<Rightarrow> bool)
        (compact_shard_inner tb co table shard k ep bid) ?Q ?E"
      by simp
  qed
  show ?thesis
    unfolding compact_shard_def
  proof (rule triple_bind [OF acquire])
    fix l
    show "io_triple ?same (case l of None \<Rightarrow> io_return None | Some l \<Rightarrow> (\<lambda>w.
        let r = compact_shard_inner tb co table shard k ep bid w
        in (fst r, shard_dml_release (to_codecs tb) l (snd r)))) ?Q ?E"
    proof (cases l)
      case (Some l)
      then show ?thesis by (auto intro!: release_triple [OF run] intro: view_after_end)
    qed (auto intro: triple_return idle)
  qed
qed

lemma shard_result:
  assumes "arrow_laws (to_arrow tb) rows" "quiet w"
    and "merge_ready tb rows table shard k bid (w_catalog w) (w_store w)"
    and "compact_shard tb co table shard k ep bid w = (r, w')"
  shows "\<exists>x. view_after tb rows table shard k (w_catalog w) (w_store w) x (w_catalog w') (w_store w') \<and>
    (\<forall>y. r = Inr y \<longrightarrow> x = y)"
proof -
  have "at_rest (w_catalog w) (w_store w) w" using assms(2) by (simp add: calm_def)
  note result = io_triple_Inr [OF shard_triple [OF assms(1,3)] this] io_triple_Inl [OF shard_triple [OF assms(1,3)] this]
  show ?thesis
  proof (cases r)
    case (Inl e)
    with result(2) assms(4) show ?thesis by (auto simp: calm_def)
  next
    case (Inr y)
    with result(1) assms(4) show ?thesis by (auto simp: calm_def)
  qed
qed


subsection \<open>A merge at an old snapshot\<close>

lemma length_kept: "length (kept_rows d xs) = card {i. i < length xs \<and> \<not> d i}"
proof -
  have "length (kept_rows d xs) = length (filter (\<lambda>i. \<not> d i) (map fst (enumerate 0 xs)))"
    by (simp only: kept_rows_def filter_map length_map o_def case_prod_unfold)
  also have "\<dots> = length (filter (\<lambda>i. \<not> d i) [0..<length xs])" by simp
  also have "\<dots> = card (set (filter (\<lambda>i. \<not> d i) [0..<length xs]))"
    by (rule distinct_card [symmetric]) simp
  also have "set (filter (\<lambda>i. \<not> d i) [0..<length xs]) = {i. i < length xs \<and> \<not> d i}" by auto
  finally show ?thesis .
qed

lemma kept_rows_less:
  assumes "\<And>i. d' i \<Longrightarrow> d i" "j < length xs" "d j" "\<not> d' j"
  shows "length (kept_rows d xs) < length (kept_rows d' xs)"
  unfolding length_kept by (rule psubset_card_mono) (use assms in auto)

lemma kept_rows_le: "(\<And>i. d' i \<Longrightarrow> d i) \<Longrightarrow> length (kept_rows d xs) \<le> length (kept_rows d' xs)"
  unfolding length_kept by (rule card_mono) auto

text \<open>C12: A merge at an old snapshot brings deleted rows back. \<open>compaction_round\<close> reads the snapshot once,
  before its first merge. When a deletion is committed after that and before the merge takes the DML
  lease of the shard, the merge does not see it: it succeeds, its result is what queries saw at
  the old snapshot, and rows that were deleted are visible again.\<close>

theorem stale_merge_revives_rows:
  assumes "arrow_laws (to_arrow tb) rows" "quiet w"
    and "merge_ready tb rows table shard k bid (w_catalog w) (w_store w)"
    and "compact_shard tb co table shard k ep bid w = (Inr (Some v), w')"
    and "set (list_deletions table k (w_catalog w)) \<subseteq>
      set (list_deletions table (snapshot_version (w_catalog w)) (w_catalog w))"
    and "f \<in> set (list_visible_files table k (Some shard) (w_catalog w))"
    and "i < length (stored_rows tb rows (w_store w) (fm_file_path f))"
    and "row_deleted tb (w_store w) (list_deletions table (snapshot_version (w_catalog w)) (w_catalog w))
      (fm_file_path f) i"
    and "\<not> row_deleted tb (w_store w) (list_deletions table k (w_catalog w)) (fm_file_path f) i"
  shows "snapshot_version (w_catalog w') = v \<and>
    mset (shard_rows tb rows (w_store w') (w_catalog w') table shard v) =
      mset (shard_rows tb rows (w_store w) (w_catalog w) table shard k) \<and>
    length (shard_rows tb rows (w_store w) (w_catalog w) table shard (snapshot_version (w_catalog w))) <
      length (shard_rows tb rows (w_store w') (w_catalog w') table shard v)"
proof -
  let ?st = "w_catalog w" and ?s = "w_store w"
  let ?cur = "snapshot_version ?st"
  let ?live = "\<lambda>k f. live_rows tb rows ?s (list_deletions table k ?st) (fm_file_path f)"
  have after: "snapshot_version (w_catalog w') = v"
    "mset (shard_rows tb rows (w_store w') (w_catalog w') table shard v) = mset (shard_rows tb rows ?s ?st table shard k)"
    using shard_result [OF assms(1-4)] by (auto simp: view_after_def)
  have fewer: "row_deleted tb ?s (list_deletions table k ?st) p i \<Longrightarrow>
      row_deleted tb ?s (list_deletions table ?cur ?st) p i" for p i
    using assms(5) by (auto simp: row_deleted_iff)
  have le: "length (?live ?cur g) \<le> length (?live k g)" for g
    unfolding live_rows_def by (rule kept_rows_le) (rule fewer)
  have less: "length (?live ?cur f) < length (?live k f)"
    unfolding live_rows_def by (rule kept_rows_less [where j = i]) (use fewer assms(7-9) in blast)+
  obtain xs ys where fs: "list_visible_files table k (Some shard) ?st = xs @ f # ys"
    using assms(6) by (meson split_list)
  have same: "list_visible_files table ?cur (Some shard) ?st = xs @ f # ys"
    using assms(3) fs by (simp add: merge_ready_def)
  have "length (shard_rows tb rows ?s ?st table shard ?cur) < length (shard_rows tb rows ?s ?st table shard k)"
  proof -
    have sums: "(\<Sum>g\<leftarrow>gs. length (?live ?cur g)) \<le> (\<Sum>g\<leftarrow>gs. length (?live k g))" for gs
      by (rule sum_list_mono) (rule le)
    show ?thesis
      unfolding shard_rows_def fs same length_concat using less sums [of xs] sums [of ys] by (simp add: o_def)
  qed
  with after show ?thesis using mset_eq_length [OF after(2)] by simp
qed

subsection \<open>Mutual exclusion with DML\<close>

text \<open>No merge runs beside DML on its shard. When another holder's DML lease on the shard has not
  expired at the compactor's clock, the merge is skipped or fails, and neither the catalog nor the
  store is changed by it, whatever other processes do.\<close>

theorem merge_waits_for_dml:
  assumes "bm_get (leases (w_catalog (snd (next_turn (to_codecs tb) w)))) (dml_shard_lease_purpose table shard) = Some l"
    and "le_holder l \<noteq> co_lease_holder co @ ''-cmp''" "w_clock w < le_expires_at_ms l"
    and "compact_shard tb co table shard k ep bid w = (r, w')"
  shows "(\<forall>v. r \<noteq> Inr (Some v)) \<and> w' = snd (next_turn (to_codecs tb) w)"
proof -
  obtain reply w1 where turn: "next_turn (to_codecs tb) w = (reply, w1)" by fastforce
  then have "acquire_lease (dml_shard_lease_purpose table shard) (co_lease_holder co @ ''-cmp'') (w_clock w)
      (cc_lease_ttl_ms (co_cfg co)) (w_catalog w1) =
    (\<lparr>lg_granted = False, lg_epoch = le_epoch l, lg_expires_at_ms = le_expires_at_ms l\<rparr>, w_catalog w1)"
    using assms(1-3) by (simp add: acquire_lease_def Let_def)
  with assms(4) turn show ?thesis
    by (cases reply)
       (auto simp: compact_shard_def shard_dml_acquire_def catalog_do_def catalog_call_def remote_def io_bind_def
          io_return_def)
qed

subsection \<open>The fencing token\<close>

text \<open>Nobody holds, or will ask for, a lease with the given purpose.\<close>

definition never_leased :: "string \<Rightarrow> 'x world_scheme \<Rightarrow> bool" where
  "never_leased p w \<longleftrightarrow> bm_get (leases (w_catalog w)) p = None \<and>
     (\<forall>t \<in> set (w_turns w). \<forall>h ttl now. OpAcquireLease p h ttl now \<notin> set (tn_ops t))"

lemma leases_same:
  "leases (snd (create_schema name st)) = leases st"
  "leases (snd (drop_schema name st)) = leases st"
  "leases (snd (create_table ser creq now st)) = leases st"
  "leases (snd (evolve_schema ser deser dbg ereq now st)) = leases st"
  "leases (snd (register_datanode m st)) = leases st"
  "leases (snd (remove_datanode i st)) = leases st"
  "leases (record_in_flight b now st) = leases st"
  "leases (snd (sweep_expired_in_flight ttl now st)) = leases st"
  "leases (record_idempotency rec st) = leases st"
  "leases (snd (drop_table name st)) = leases st"
  "leases (snd (apply_deletions es now st)) = leases st"
  "leases (snd (revoke_deletions_for_file path n now st)) = leases st"
  by (auto simp: create_schema_def drop_schema_def create_table_def evolve_schema_def
      register_datanode_def remove_datanode_def record_in_flight_def drop_table_def
      sweep_expired_in_flight_def record_idempotency_def apply_deletions_def insert_deletions_def
      revoke_deletions_for_file_def Let_def cat_simps split: option.split sum.split)

lemma leases_same_files:
  "leases (snd (commit_files req now st)) = leases st"
  "leases (snd (drop_shard t sh now st)) = leases st"
  "leases (snd (commit_update t ff fd u now st)) = leases st"
  by (simp_all add: commit_files_def drop_shard_def commit_update_def insert_update_files_def
      insert_deletions_def Let_def cat_simps claim_keys_def clear_in_flight_def)

lemma leases_same_update: "leases (snd (apply_update es nfs u now st)) = leases st"
  by (simp add: apply_update_def Let_def leases_same_files split: sum.split option.split)

lemma leases_same_compaction: "leases (snd (commit_compaction old nfs ep p st)) = leases st"
  by (auto simp: commit_compaction_def Let_def cat_simps split: list.split)

lemma leases_same_purge: "leases (snd (purge_table_files t pid now st)) = leases st"
  by (auto simp: purge_table_files_def Let_def cat_simps split: option.split)

lemma unleased_apply:
  assumes "bm_get (leases st) p = None" "\<And>h ttl now. op \<noteq> OpAcquireLease p h ttl now"
  shows "bm_get (leases (sm_step cx st op)) p = None"
proof (cases op)
  case (OpAcquireLease q h ttl now)
  with assms show ?thesis
    by (cases "q = p") (auto simp: sm_step_def Let_def acquire_lease_def bm_simps split: option.split)
qed (use assms(1) in \<open>auto simp: sm_step_def Let_def renew_lease_def release_lease_def bm_simps leases_same
      leases_same_files leases_same_update leases_same_compaction leases_same_purge split: option.splits\<close>)

lemma unleased_run:
  "bm_get (leases st) p = None \<Longrightarrow> \<forall>op \<in> set ops. \<forall>h ttl now. op \<noteq> OpAcquireLease p h ttl now \<Longrightarrow>
    bm_get (leases (sm_run cx st ops)) p = None"
  by (induction ops arbitrary: st) (simp_all add: unleased_apply)

lemma never_leased_turn: "never_leased p w \<Longrightarrow> next_turn cx w = (r, w1) \<Longrightarrow> never_leased p w1"
  by (fastforce simp: never_leased_def next_turn_def split: list.splits intro: unleased_run)

text \<open>\<open>keeps p m\<close>: the computation asks for no lease with purpose \<open>p\<close>.\<close>

definition keeps :: "string \<Rightarrow> ('x world_scheme \<Rightarrow> ('e + 'a) \<times> 'x world_scheme) \<Rightarrow> bool" where
  "keeps p m \<longleftrightarrow> (\<forall>w. never_leased p w \<longrightarrow> never_leased p (snd (m w)))"

lemma keeps_bind: "keeps p m \<Longrightarrow> (\<And>x. keeps p (f x)) \<Longrightarrow> keeps p (io_bind m f)"
  by (force simp: keeps_def io_bind_def split: prod.split sum.split)

lemma keeps_simple [simp]: "keeps p (io_return x)" "keeps p (io_fail e)" "keeps p (io_lift r)"
  by (simp_all add: keeps_def io_return_def io_fail_def io_lift_def)

lemma keeps_remote: "(\<And>w. never_leased p w \<Longrightarrow> never_leased p (snd (call w))) \<Longrightarrow> keeps p (remote cx err call)"
  by (auto simp: keeps_def remote_def split: prod.split reply.split dest: never_leased_turn)

lemma keeps_call:
  assumes "\<And>now st. bm_get (leases st) p = None \<Longrightarrow> bm_get (leases (snd (f now st))) p = None"
  shows "keeps p (catalog_call cx f)"
  unfolding catalog_call_def by (rule keeps_remote) (use assms in \<open>auto simp: never_leased_def Let_def\<close>)

lemma keeps_do:
  assumes "\<And>now st. bm_get (leases st) p = None \<Longrightarrow> bm_get (leases (snd (f now st))) p = None"
  shows "keeps p (catalog_do cx f)"
  unfolding catalog_do_def by (rule keeps_call) (use assms in simp)

lemma keeps_io: "keeps p (catalog_query cx q)" "keeps p (get_bytes cx path)" "keeps p (put_bytes cx path bs)"
  unfolding catalog_query_def get_bytes_def put_bytes_def
  by (rule keeps_remote, simp add: never_leased_def)+

text \<open>Two continuations that agree on all worlds in which the purpose is unleased may be exchanged.\<close>

lemma bind_agree:
  assumes "keeps p m" "never_leased p w" "\<And>x w. never_leased p w \<Longrightarrow> f x w = g x w"
  shows "io_bind m f w = io_bind m g w"
proof -
  obtain r w1 where m: "m w = (r, w1)" by fastforce
  with assms(1,2) have "never_leased p w1" by (auto simp: keeps_def)
  with m assms(3) show ?thesis by (cases r) (simp_all add: io_bind_def)
qed

lemma keeps_clock: "(\<And>now. keeps p (m now)) \<Longrightarrow> keeps p (\<lambda>w. m (w_clock w) w)"
  by (simp add: keeps_def)

lemma keeps_write: "keeps p (write_batch_file tb table shard tw bid b fmt)"
  by (auto simp: write_batch_file_def Let_def intro!: keeps_bind keeps_io)

lemma keeps_bitmaps: "keeps p (deletion_bitmaps tb table k)"
proof -
  have "keeps p (load_bitmaps tb es out)" for es out
    by (induction es arbitrary: out) (auto intro!: keeps_bind keeps_io split: sum.split)
  then show ?thesis by (auto simp: deletion_bitmaps_def intro!: keeps_bind keeps_io)
qed

lemma keeps_inputs: "keeps p (read_inputs tb dvs fs batches)"
  by (induction fs arbitrary: batches)
     (auto simp: read_batch_file_def intro!: keeps_bind keeps_io split: option.split)

lemma keeps_announce: "keeps p (\<lambda>w. catalog_do cx (\<lambda>_ st. ((), record_in_flight bid (w_clock w) st)) w)"
  by (rule keeps_clock, rule keeps_do) (simp add: leases_same)

lemma keeps_acquire: "p \<noteq> q \<Longrightarrow> keeps p (catalog_do cx (\<lambda>_. acquire_lease q h now ttl))"
  by (rule keeps_do) (auto simp: acquire_lease_def Let_def bm_simps split: option.split)

lemma keeps_dml: "p \<noteq> dml_shard_lease_purpose table shard \<Longrightarrow> keeps p (shard_dml_acquire cx co table shard)"
  unfolding shard_dml_acquire_def Let_def
  by (rule keeps_clock [where m = "\<lambda>now. io_bind (catalog_do cx (\<lambda>_. acquire_lease
        (dml_shard_lease_purpose table shard) (co_lease_holder co @ ''-cmp'') now (cc_lease_ttl_ms (co_cfg co)))) _"],
      rule keeps_bind [OF keeps_acquire]) auto

lemma commit_agree:
  assumes "never_leased (compaction_shard_lease_purpose (cc_lease_purpose (co_cfg co)) table shard) w"
  shows "commit_compaction_files cx co table shard ids nf ep w = commit_compaction_files cx co table shard ids nf ep' w"
proof -
  let ?p = "compaction_shard_lease_purpose (cc_lease_purpose (co_cfg co)) table shard"
  obtain r w1 where turn: "next_turn cx w = (r, w1)" by fastforce
  then have "bm_get (leases (w_catalog w1)) ?p = None"
    using never_leased_turn [OF assms turn] by (simp add: never_leased_def)
  moreover have "?p \<noteq> []" by (simp add: compaction_shard_lease_purpose_def)
  ultimately have "commit_compaction ids [nf] ep ?p (w_catalog w1) = commit_compaction ids [nf] ep' ?p (w_catalog w1)"
    by (simp add: commit_compaction_def fenced_def lease_purpose_of_def)
  with turn show ?thesis
    by (cases r) (simp_all add: commit_compaction_files_def catalog_call_def remote_def Let_def)
qed

lemma publish_agree:
  assumes "never_leased (compaction_shard_lease_purpose (cc_lease_purpose (co_cfg co)) table shard) w"
  shows "publish_merged tb co table shard ep bid fs dvs m w = publish_merged tb co table shard ep' bid fs dvs m w"
  unfolding publish_merged_def Let_def
  by (rule bind_agree [OF keeps_announce assms], rule bind_agree [OF keeps_write])
     (auto simp: io_bind_def commit_agree [of co table shard _ _ _ _ ep ep'] split: prod.split)

lemma inner_agree:
  assumes "never_leased (compaction_shard_lease_purpose (cc_lease_purpose (co_cfg co)) table shard) w"
  shows "compact_shard_inner tb co table shard k ep bid w = compact_shard_inner tb co table shard k ep' bid w"
proof -
  let ?go = "\<lambda>ep fs dvs batches. if batches = [] then io_return None
      else (case merge_batches (to_arrow tb) batches of None \<Rightarrow> io_return None
        | Some merged \<Rightarrow> publish_merged tb co table shard ep bid fs dvs merged)"
  have go: "?go ep fs dvs batches w = ?go ep' fs dvs batches w"
    if "never_leased (compaction_shard_lease_purpose (cc_lease_purpose (co_cfg co)) table shard) w"
    for fs dvs batches and w :: "'a world_scheme"
    using publish_agree [OF that] by (auto split: option.split)
  have read: "(if length fs < cc_min_files (co_cfg co) \<and> \<not> dv_trigger (co_cfg co) dvs fs then io_return None
        else io_bind (read_inputs tb dvs fs []) (?go ep fs dvs)) w =
      (if length fs < cc_min_files (co_cfg co) \<and> \<not> dv_trigger (co_cfg co) dvs fs then io_return None
        else io_bind (read_inputs tb dvs fs []) (?go ep' fs dvs)) w"
    if "never_leased (compaction_shard_lease_purpose (cc_lease_purpose (co_cfg co)) table shard) w"
    for fs dvs and w :: "'a world_scheme"
  proof -
    have "io_bind (read_inputs tb dvs fs []) (?go ep fs dvs) w = io_bind (read_inputs tb dvs fs []) (?go ep' fs dvs) w"
      by (rule bind_agree [OF keeps_inputs that]) (rule go)
    then show ?thesis by simp
  qed
  show ?thesis
    unfolding compact_shard_inner_def
  proof (rule bind_agree [OF keeps_io(1) assms])
    fix fs and w :: "'a world_scheme"
    assume w: "never_leased (compaction_shard_lease_purpose (cc_lease_purpose (co_cfg co)) table shard) w"
    show "(if fs = [] then io_return None else io_bind (deletion_bitmaps tb table k) (\<lambda>dvs.
        if length fs < cc_min_files (co_cfg co) \<and> \<not> dv_trigger (co_cfg co) dvs fs then io_return None
        else io_bind (read_inputs tb dvs fs []) (?go ep fs dvs))) w =
      (if fs = [] then io_return None else io_bind (deletion_bitmaps tb table k) (\<lambda>dvs.
        if length fs < cc_min_files (co_cfg co) \<and> \<not> dv_trigger (co_cfg co) dvs fs then io_return None
        else io_bind (read_inputs tb dvs fs []) (?go ep' fs dvs))) w"
    proof (cases "fs = []")
      case False
      show ?thesis unfolding if_not_P [OF False] by (rule bind_agree [OF keeps_bitmaps w]) (rule read)
    qed simp
  qed
qed

lemma shard_agree:
  assumes "never_leased (compaction_shard_lease_purpose (cc_lease_purpose (co_cfg co)) table shard) w"
    and "compaction_shard_lease_purpose (cc_lease_purpose (co_cfg co)) table shard \<noteq> dml_shard_lease_purpose table shard"
  shows "compact_shard tb co table shard k ep bid w = compact_shard tb co table shard k ep' bid w"
  unfolding compact_shard_def
  by (rule bind_agree [OF keeps_dml [OF assms(2)] assms(1)])
     (auto simp: inner_agree [of co table shard _ tb k ep bid ep'] Let_def split: option.split)

lemma keeps_publish: "keeps p (publish_merged tb co table shard ep bid fs dvs m)"
proof -
  have revoke: "never_leased p w \<Longrightarrow> never_leased p (revoke_consumed cx n gs w)" for cx n gs and w :: "'a world_scheme"
    unfolding revoke_consumed_def
  proof (rule fold_invariant_on [where P = "never_leased p"])
    fix g and w :: "'a world_scheme"
    have "keeps p (catalog_do cx (\<lambda>now st. revoke_deletions_for_file (fm_file_path g) n now st) ::
        'a world_scheme \<Rightarrow> _)" by (rule keeps_do) (simp add: leases_same)
    moreover assume "never_leased p w"
    ultimately show "never_leased p (snd (catalog_do cx (\<lambda>now st. revoke_deletions_for_file (fm_file_path g) n now st) w))"
      by (simp add: keeps_def)
  qed
  have "keeps p (commit_compaction_files cx co table shard ids nf ep)" for cx ids nf
    unfolding commit_compaction_files_def by (rule keeps_call) (simp add: leases_same_compaction)
  then show ?thesis
    unfolding publish_merged_def Let_def
    by (auto intro!: keeps_bind keeps_announce keeps_write revoke simp: keeps_def [of p "\<lambda>w. (Inr (Some _), _ w)"])
qed

lemma keeps_release: "keeps p (catalog_do cx (\<lambda>_ st. release_lease q h e st))"
  by (rule keeps_do) (auto simp: release_lease_def bm_simps split: option.split)

lemma keeps_shard:
  assumes "p \<noteq> dml_shard_lease_purpose table shard"
  shows "keeps p (compact_shard tb co table shard k ep bid :: 'x world_scheme \<Rightarrow> _)"
proof -
  have inner: "keeps p (compact_shard_inner tb co table shard k ep bid :: 'x world_scheme \<Rightarrow> _)"
    unfolding compact_shard_inner_def
    by (auto intro!: keeps_bind keeps_io keeps_bitmaps keeps_inputs keeps_publish split: option.split)
  have "keeps p (\<lambda>w :: 'x world_scheme. let r = compact_shard_inner tb co table shard k ep bid w
      in (fst r, shard_dml_release (to_codecs tb) l (snd r)))" for l
    using inner keeps_release unfolding keeps_def Let_def shard_dml_release_def snd_conv by blast
  then show ?thesis
    unfolding compact_shard_def by (auto intro!: keeps_bind keeps_dml [OF assms] split: option.split)
qed

lemma keeps_renew: "p \<noteq> q \<Longrightarrow> keeps p (catalog_do cx (\<lambda>_ st. renew_lease q h e now ttl st))"
  by (rule keeps_do) (auto simp: renew_lease_def bm_simps split: option.split)

lemma keepsD: "keeps p m \<Longrightarrow> never_leased p w \<Longrightarrow> never_leased p (snd (m w))"
  by (simp add: keeps_def)

lemma keeps_gate:
  assumes "ga_purpose gate \<noteq> p" "never_leased p w"
  shows "never_leased p (snd (acquire_or_renew cx gate w))"
proof -
  let ?acq = "catalog_do cx (\<lambda>_ st. acquire_lease (ga_purpose gate) (ga_holder gate) (w_clock w) (ga_ttl_ms gate) st) w"
  let ?ren = "catalog_do cx (\<lambda>_ st. renew_lease (ga_purpose gate) (ga_holder gate) (ga_epoch gate) (w_clock w)
      (ga_ttl_ms gate) st) w"
  have "snd (acquire_or_renew cx gate w) \<in> {snd ?acq, w, snd ?ren}"
    by (auto simp: acquire_or_renew_def Let_def split: prod.split sum.split bool.split)
  moreover have "never_leased p (snd ?acq)" "never_leased p (snd ?ren)"
    by (rule keepsD [OF keeps_acquire assms(2)], use assms(1) in blast)
       (rule keepsD [OF keeps_renew assms(2)], use assms(1) in blast)
  ultimately show ?thesis using assms(2) by auto
qed

lemma keeps_round_loop:
  assumes "never_leased p w" "\<forall>t \<in> set ts. p \<noteq> task_lease_purpose (ct_key t) \<and>
    p \<noteq> dml_shard_lease_purpose (ct_table t) (ct_shard t)"
  shows "never_leased p (snd (round_loop tb co k uuid ts stats w))"
  using assms
proof (induction ts arbitrary: stats w)
  case (Cons t ts)
  let ?q = "task_lease_purpose (ct_key t)"
  obtain ok gate w1 where gate: "acquire_or_renew (to_codecs tb)
      (for_purpose ?q (co_lease_holder co) (cc_lease_ttl_ms (co_cfg co))) w = ((ok, gate), w1)"
    using prod_cases3 by (metis surj_pair)
  have "?q \<noteq> p" using Cons.prems(2) by auto
  then have w1: "never_leased p w1"
    using keeps_gate [of "for_purpose ?q (co_lease_holder co) (cc_lease_ttl_ms (co_cfg co))" p w "to_codecs tb"]
      Cons.prems gate by (simp add: for_purpose_def)
  let ?r = "compact_shard tb co (ct_table t) (ct_shard t) k (ga_epoch gate) (uuid t) w1"
  have "never_leased p (snd ?r)"
    using w1 Cons.prems(2) by (auto intro!: keepsD keeps_shard)
  with keeps_release have "never_leased p (snd (catalog_do (to_codecs tb)
      (\<lambda>_ st. release_lease ?q (co_lease_holder co) (ga_epoch gate) st) (snd ?r)))"
    unfolding keeps_def by blast
  with Cons w1 gate show ?case by (cases ok) (simp_all add: Let_def)
qed simp

text \<open>The fencing token of a merge is never looked at. A round claims a task under the lease "task:...",
  the commit is fenced by the lease "compaction:...", which no compactor ever takes. So a merge
  does the same with any epoch in place of the one it was granted, in particular after another node has
  taken the task over; and rounds keep it so.\<close>

theorem fencing_token_ignored:
  assumes "cc_lease_purpose (co_cfg co) = COMPACTION_LEASE"
    and "p = compaction_shard_lease_purpose (cc_lease_purpose (co_cfg co)) table shard" "never_leased p w"
  shows "compact_shard tb co table shard k ep bid w = compact_shard tb co table shard k ep' bid w \<and>
    never_leased p (snd (compaction_round tb co uuid w))"
proof -
  have other: "p \<noteq> dml_shard_lease_purpose t s" "p \<noteq> task_lease_purpose key" for t s key
    by (simp_all add: assms(1,2) compaction_shard_lease_purpose_def dml_shard_lease_purpose_def
        task_lease_purpose_def COMPACTION_LEASE_def)
  obtain r w1 where list: "catalog_query (to_codecs tb) list_tasks w = (r, w1)" by fastforce
  with keeps_io(1) [of p "to_codecs tb" list_tasks] assms(3) have w1: "never_leased p w1"
    by (fastforce simp: keeps_def)
  obtain reply w2 where turn: "next_turn (to_codecs tb) w1 = (reply, w2)" by fastforce
  with w1 have "never_leased p w2" by (rule never_leased_turn)
  then have "never_leased p (snd (compaction_round tb co uuid w))"
    using w1 turn list other
    by (cases r) (auto simp: compaction_round_def io_bind_def Let_def intro!: keeps_round_loop)
  with shard_agree [of co table shard w tb k ep bid ep'] assms(2,3) other(1) show ?thesis by simp
qed

subsection \<open>The budget of a round\<close>

lemma round_loop_bounds:
  assumes "round_loop tb co k uuid ts stats w = (stats', w')"
    and "rs_compacted stats \<le> cc_max_merges_per_round (co_cfg co)"
    and "rs_compacted stats + rs_lease_busy stats + rs_failed stats + rs_stale stats \<le> rs_candidates stats"
  shows "rs_compacted stats' \<le> cc_max_merges_per_round (co_cfg co) \<and>
    rs_compacted stats' + rs_lease_busy stats' + rs_failed stats' + rs_stale stats' \<le> rs_candidates stats' \<and>
    rs_candidates stats' \<le> rs_candidates stats + length ts \<and> rs_tasks_seen stats' = rs_tasks_seen stats"
  using assms
proof (induction ts arbitrary: stats w)
  case (Cons t ts)
  show ?case
  proof (cases "rs_compacted stats \<ge> cc_max_merges_per_round (co_cfg co)")
    case True
    with Cons.prems show ?thesis by auto
  next
    case False
    let ?seen = "stats\<lparr>rs_candidates := rs_candidates stats + 1\<rparr>"
    have "\<exists>r w1. round_loop tb co k uuid ts r w1 = (stats', w') \<and>
        (r = ?seen\<lparr>rs_lease_busy := rs_lease_busy stats + 1\<rparr> \<or> (\<exists>x. r = count_result x ?seen))"
      using Cons.prems(1) False by (auto simp: Let_def split: prod.splits bool.splits)
    then obtain r w1 where run: "round_loop tb co k uuid ts r w1 = (stats', w')"
      and r: "r = ?seen\<lparr>rs_lease_busy := rs_lease_busy stats + 1\<rparr> \<or> (\<exists>x. r = count_result x ?seen)" by blast
    have counted: "rs_compacted r \<le> cc_max_merges_per_round (co_cfg co) \<and>
        rs_compacted r + rs_lease_busy r + rs_failed r + rs_stale r \<le> rs_candidates r \<and>
        rs_candidates r = rs_candidates stats + 1 \<and> rs_tasks_seen r = rs_tasks_seen stats"
      using r
    proof (elim disjE exE)
      fix x assume "r = count_result x ?seen"
      then show ?thesis using False Cons.prems(2,3) by (cases "(x, ?seen)" rule: count_result.cases) auto
    qed (use False Cons.prems(2,3) in auto)
    then show ?thesis using Cons.IH [OF run] by simp
  qed
qed simp

text \<open>A round stays within its budget: it merges at most the configured number of shards, it counts every
  candidate in at most one way, and it looks at no more candidates than there are tasks.\<close>

theorem round_within_budget:
  assumes "compaction_round tb co uuid w = (Inr stats, w')"
  shows "rs_compacted stats \<le> cc_max_merges_per_round (co_cfg co) \<and>
    rs_compacted stats + rs_lease_busy stats + rs_failed stats + rs_stale stats \<le> rs_candidates stats \<and>
    rs_candidates stats \<le> rs_tasks_seen stats"
proof -
  obtain q w1 where q: "catalog_query (to_codecs tb) list_tasks w = (q, w1)" by fastforce
  with assms obtain ts where ts: "q = Inr ts" by (cases q) (simp_all add: compaction_round_def io_bind_def)
  let ?w2 = "snd (next_turn (to_codecs tb) w1)"
  have "round_loop tb co (current_snapshot (w_catalog ?w2)) uuid ts (no_stats\<lparr>rs_tasks_seen := length ts\<rparr>) ?w2 =
      (stats, w')"
    using assms q ts by (simp add: compaction_round_def io_bind_def Let_def prod_eq_iff)
  from round_loop_bounds [OF this] show ?thesis by (simp add: no_stats_def)
qed

subsection \<open>A shard without live rows\<close>

lemma drop_deleted_none:
  assumes "arrow_laws ar rows" "offset + length (concat (map rows bs)) \<le> 2 ^ 32"
    and "\<forall>i < length (concat (map rows bs)). dv_contains dv (offset + i)"
  shows "drop_deleted ar dv bs offset out = Inr out"
  using assms(2,3)
proof (induction bs arbitrary: offset)
  case (Cons b bs)
  have n: "ar_num_rows ar b = length (rows b)" using assms(1) by (simp add: arrow_laws_def)
  have "dv_contains dv (i mod 2 ^ 32)" if "i \<in> set [offset..<offset + length (rows b)]" for i
  proof -
    have "i - offset < length (concat (map rows (b # bs)))" "i < 2 ^ 32" using that Cons.prems(1) by auto
    with Cons.prems(2) have "dv_contains dv (offset + (i - offset))" by blast
    with that \<open>i < 2 ^ 32\<close> show ?thesis by simp
  qed
  then have "filter id (map (\<lambda>i. \<not> dv_contains dv (i mod 2 ^ 32)) [offset..<offset + length (rows b)]) = []"
    by (auto simp: filter_empty_conv)
  moreover have "\<forall>i < length (concat (map rows bs)). dv_contains dv (offset + length (rows b) + i)"
    using Cons.prems(2) by (auto simp: add.assoc)
  then have "drop_deleted ar dv bs (offset + length (rows b)) out = Inr out"
    using Cons.prems(1) by (intro Cons.IH) auto
  ultimately show ?case by (simp add: n Let_def)
qed simp

lemma read_nothing:
  assumes "arrow_laws (to_arrow tb) rows"
    and "\<forall>f \<in> set fs. stored_rows tb rows s0 (fm_file_path f) \<noteq> [] \<and>
      length (stored_rows tb rows s0 (fm_file_path f)) \<le> 2 ^ 32 \<and>
      (\<forall>i < length (stored_rows tb rows s0 (fm_file_path f)). marked dvs (fm_file_path f) i)"
  shows "io_triple (at_rest st0 s0 :: 'x world_scheme \<Rightarrow> bool) (read_inputs tb dvs fs batches)
    (\<lambda>res w. at_rest st0 s0 w \<and> res = batches) (\<lambda>_. at_rest st0 s0)"
  using assms(2)
proof (induction fs)
  case (Cons f fs)
  let ?p = "fm_file_path f"
  show ?case
  proof (simp only: read_inputs.simps, rule triple_bind [OF read_batch_triple [where rows = rows]], rule triple_pure)
    fix fb assume fb: "concat (map rows fb) = stored_rows tb rows s0 ?p"
    have hit: "stored_rows tb rows s0 ?p \<noteq> []" "length (stored_rows tb rows s0 ?p) \<le> 2 ^ 32"
      "\<forall>i < length (stored_rows tb rows s0 ?p). marked dvs ?p i" using Cons.prems by auto
    then have "marked dvs ?p 0" by blast
    then obtain dv where dv: "bm_get dvs ?p = Some dv" by (auto simp: marked_def split: option.splits)
    then have "\<forall>i < length (concat (map rows fb)). dv_contains dv (0 + i)"
      using hit(3) fb by (simp add: marked_def)
    from drop_deleted_none [OF assms(1) _ this] fb hit(2)
    have "drop_deleted (to_arrow tb) dv fb 0 [] = Inr []" by simp
    then have "apply_deletions_to (to_arrow tb) fb dv (fm_row_count f) = Inr kept \<Longrightarrow> kept = []" for kept
      by (cases "keep_ranges dv (fm_row_count f)") (simp_all add: apply_deletions_to_def)
    then have lift: "io_triple (at_rest st0 s0 :: 'x world_scheme \<Rightarrow> bool)
        (io_lift (apply_deletions_to (to_arrow tb) fb dv (fm_row_count f)))
        (\<lambda>kept w. at_rest st0 s0 w \<and> kept = []) (\<lambda>_. at_rest st0 s0)"
      by (intro triple_lift) auto
    have rest: "io_triple (at_rest st0 s0 :: 'x world_scheme \<Rightarrow> bool) (read_inputs tb dvs fs batches)
        (\<lambda>res w. at_rest st0 s0 w \<and> res = batches) (\<lambda>_. at_rest st0 s0)"
      using Cons by simp
    show "io_triple (at_rest st0 s0 :: 'x world_scheme \<Rightarrow> bool)
        (case bm_get dvs ?p of
           None \<Rightarrow> read_inputs tb dvs fs (batches @ fb)
         | Some dv \<Rightarrow> io_bind (io_lift (apply_deletions_to (to_arrow tb) fb dv (fm_row_count f)))
             (\<lambda>kept. read_inputs tb dvs fs (batches @ kept)))
        (\<lambda>res w. at_rest st0 s0 w \<and> res = batches) (\<lambda>_. at_rest st0 s0)"
      by (simp only: dv option.case, rule triple_bind [OF lift], rule triple_pure) (simp add: rest)
  qed
qed (auto intro: triple_return)

lemma inner_nothing:
  assumes "arrow_laws (to_arrow tb) rows"
    and "\<forall>f \<in> set (list_visible_files table k (Some shard) st0). stored_rows tb rows s0 (fm_file_path f) \<noteq> [] \<and>
      length (stored_rows tb rows s0 (fm_file_path f)) \<le> 2 ^ 32 \<and>
      live_rows tb rows s0 (list_deletions table k st0) (fm_file_path f) = []"
  shows "io_triple (at_rest st0 s0 :: 'x world_scheme \<Rightarrow> bool) (compact_shard_inner tb co table shard k ep bid)
    (\<lambda>r w. at_rest st0 s0 w \<and> r = None) (\<lambda>_. at_rest st0 s0)" (is "io_triple ?P _ ?Q ?E")
  unfolding compact_shard_inner_def
proof (rule triple_bind [OF rest_query], rule triple_pure)
  fix fs assume fs: "fs = list_visible_files table k (Some shard) st0"
  have idle: "io_triple ?P (io_return None) ?Q ?E" by (rule triple_return) simp
  let ?go = "\<lambda>dvs. if length fs < cc_min_files (co_cfg co) \<and> \<not> dv_trigger (co_cfg co) dvs fs then io_return None
      else io_bind (read_inputs tb dvs fs []) (\<lambda>batches.
        if batches = [] then io_return None
        else (case merge_batches (to_arrow tb) batches of None \<Rightarrow> io_return None
          | Some merged \<Rightarrow> publish_merged tb co table shard ep bid fs dvs merged))"
  have "io_triple ?P (io_bind (deletion_bitmaps tb table k) ?go) ?Q ?E"
  proof (rule triple_bind [OF bitmaps_triple], rule triple_pure)
    fix dvs assume dvs: "marked dvs = row_deleted tb s0 (list_deletions table k st0)"
    have dead: "\<forall>f \<in> set fs. stored_rows tb rows s0 (fm_file_path f) \<noteq> [] \<and>
      length (stored_rows tb rows s0 (fm_file_path f)) \<le> 2 ^ 32 \<and>
      (\<forall>i < length (stored_rows tb rows s0 (fm_file_path f)). marked dvs (fm_file_path f) i)"
    proof
      fix f assume "f \<in> set fs"
      with assms(2) fs have f: "stored_rows tb rows s0 (fm_file_path f) \<noteq> []"
        "length (stored_rows tb rows s0 (fm_file_path f)) \<le> 2 ^ 32"
        "length (live_rows tb rows s0 (list_deletions table k st0) (fm_file_path f)) = 0" by auto
      from f(3) have "\<forall>i < length (stored_rows tb rows s0 (fm_file_path f)). marked dvs (fm_file_path f) i"
        unfolding live_rows_def length_kept dvs by auto
      with f show "stored_rows tb rows s0 (fm_file_path f) \<noteq> [] \<and>
        length (stored_rows tb rows s0 (fm_file_path f)) \<le> 2 ^ 32 \<and>
        (\<forall>i < length (stored_rows tb rows s0 (fm_file_path f)). marked dvs (fm_file_path f) i)" by blast
    qed
    have empty_read: "io_triple (at_rest st0 s0 :: 'x world_scheme \<Rightarrow> bool) (read_inputs tb dvs fs [])
        (\<lambda>res w. at_rest st0 s0 w \<and> res = []) (\<lambda>_. at_rest st0 s0)"
      by (rule read_nothing [OF assms(1) dead])
    have "io_triple ?P (io_bind (read_inputs tb dvs fs []) (\<lambda>batches.
        if batches = [] then io_return None
        else (case merge_batches (to_arrow tb) batches of None \<Rightarrow> io_return None
          | Some merged \<Rightarrow> publish_merged tb co table shard ep bid fs dvs merged))) ?Q ?E"
      by (rule triple_bind [OF empty_read], rule triple_pure) (simp add: idle)
    then show "io_triple ?P (?go dvs) ?Q ?E" by (simp add: idle)
  qed
  then show "io_triple ?P (if fs = [] then io_return None else io_bind (deletion_bitmaps tb table k) ?go) ?Q ?E"
    by (simp add: idle)
qed

text \<open>A shard whose rows are all deleted is never collected. A merge of it ends without a new snapshot
  and leaves files and deletion vectors in the catalog, so the files stay visible, stay protected from
  the garbage collector and the task stays, in every round.\<close>

theorem dead_shard_never_collected:
  assumes "arrow_laws (to_arrow tb) rows" "quiet w"
    and "\<forall>f \<in> set (list_visible_files table k (Some shard) (w_catalog w)).
      stored_rows tb rows (w_store w) (fm_file_path f) \<noteq> [] \<and>
      length (stored_rows tb rows (w_store w) (fm_file_path f)) \<le> 2 ^ 32 \<and>
      live_rows tb rows (w_store w) (list_deletions table k (w_catalog w)) (fm_file_path f) = []"
    and "compact_shard tb co table shard k ep bid w = (r, w')"
  shows "(\<forall>v. r \<noteq> Inr (Some v)) \<and> w_store w' = w_store w \<and> files (w_catalog w') = files (w_catalog w) \<and>
    deletions (w_catalog w') = deletions (w_catalog w)"
proof -
  let ?st = "w_catalog w" and ?s = "w_store w"
  let ?same = "calm (\<lambda>st s. same_view ?st st \<and> s = ?s) :: 'c world_scheme \<Rightarrow> bool"
  let ?none = "\<lambda>r :: nat option. calm (\<lambda>st s. same_view ?st st \<and> s = ?s \<and> r = None) :: 'c world_scheme \<Rightarrow> bool"
  have inner: "io_triple ?same (compact_shard_inner tb co table shard k ep bid) ?none (\<lambda>_. ?same)"
  proof (rule triple_at)
    fix st1 s1 assume at: "same_view ?st st1 \<and> s1 = ?s"
    then have "list_visible_files table k (Some shard) st1 = list_visible_files table k (Some shard) ?st"
      "list_deletions table k st1 = list_deletions table k ?st"
      by (simp_all add: same_view_def list_visible_files_def list_deletions_def)
    with at assms(3) show "io_triple (at_rest st1 s1) (compact_shard_inner tb co table shard k ep bid) ?none (\<lambda>_. ?same)"
      by (intro triple_conseq [OF inner_nothing [OF assms(1), of table k shard st1 s1]]) (auto simp: calm_def)
  qed
  have "io_triple ?same (\<lambda>w. let r = compact_shard_inner tb co table shard k ep bid w
        in (fst r, shard_dml_release (to_codecs tb) l (snd r))) ?none (\<lambda>_. ?same)" for l
    by (rule release_triple [OF inner]) (auto simp: same_view_def)
  then have "io_triple (at_rest ?st ?s) (compact_shard tb co table shard k ep bid) ?none (\<lambda>_. ?same)"
    unfolding compact_shard_def
    by (intro triple_bind [OF acquire_triple]) (auto split: option.split intro!: triple_return simp: calm_def)
  then show ?thesis
    using assms(2,4) by (cases r) (auto simp: io_triple_def calm_def same_view_def)
qed

end
