(* ===== verification/Compactor_Demo.thy ===== *)
theory Compactor_Demo
  imports Compactor_Round
begin

text \<open>
  Concrete runs of the compactor: the witnesses of the properties in \<open>Compactor_Round\<close>.
\<close>

text \<open>Batches of bytes, one row per byte.\<close>

definition byte_arrow :: "byte list arrow" where
  "byte_arrow = \<lparr>ar_num_rows = length, ar_num_fields = \<lambda>_. 1,
     ar_filter = \<lambda>b keep. Some (map fst (filter snd (zip b keep))),
     ar_concat = \<lambda>_ bs. Some (concat bs),
     ar_encode = \<lambda>_ b. Inr b, ar_decode = \<lambda>_ bs. Inr [bs]\<rparr>"

definition demo_tools :: "byte list tools" where
  "demo_tools = \<lparr>to_codecs = demo_codecs, to_arrow = byte_arrow,
     to_rdeser = \<lambda>bs. Some (dv_from_positions (map unat bs)), to_crc = \<lambda>_. 0\<rparr>"

definition demo_compactor :: compactor where
  "demo_compactor = \<lparr>co_cfg = default_config\<lparr>cc_min_files := 1\<rparr>, co_format = Parquet, co_lease_holder = ''n1''\<rparr>"

definition demo_path :: "string \<Rightarrow> string" where
  "demo_path bid = file_path ''public.t'' ''s0'' ''w'' bid Parquet"

definition demo_deletion :: deletion_entry where
  "demo_deletion = \<lparr>de_dv_id = ''d1'', de_table = ''public.t'', de_file_path = demo_path ''b1'', de_batch_id = ''b1'',
     de_applied_at = 2, de_revoked_at = 0, de_card = 1, de_store_path = dv_object_path (demo_path ''b1'') ''d1''\<rparr>"

definition demo_shard_state :: catalog_state where
  "demo_shard_state = new_state\<lparr>
     snapshot_version := 2,
     files := bm_insert ''b1'' ((demo_file ''b1'')\<lparr>fm_file_path := demo_path ''b1''\<rparr>) bm_empty,
     deletions := bm_insert (''d1'', demo_path ''b1'') demo_deletion bm_empty\<rparr>"

definition demo_objects :: object_store where
  "demo_objects = bm_insert (demo_path ''b1'') [10]
     (bm_insert (de_store_path demo_deletion) (DV_MAGIC @ [1, 0, 1, 0, 0, 0, 0, 0, 0, 0, 0]) bm_empty)"

definition demo_world :: "turn list \<Rightarrow> world" where
  "demo_world ts = \<lparr>w_catalog = demo_shard_state, w_store = demo_objects, w_clock = 100, w_turns = ts\<rparr>"

lemma normalize_demo: "normalize_table ''public.t'' = ''public.t''"
  by code_simp

lemma demo_listing:
  "list_visible_files ''public.t'' k (Some ''s0'') (demo_shard_state\<lparr>leases := l\<rparr>) =
    [(demo_file ''b1'')\<lparr>fm_file_path := demo_path ''b1''\<rparr>]"
  "list_deletions ''public.t'' k (demo_shard_state\<lparr>leases := l\<rparr>) = (if 2 \<le> k then [demo_deletion] else [])"
  by (simp_all add: list_visible_files_def list_deletions_def Let_def normalize_demo demo_shard_state_def new_state_def
      bm_values_def demo_file_def visible_at_def protects_at_def demo_deletion_def active_at_def)

lemma demo_leases: "leases demo_shard_state = bm_empty"
  by (simp add: demo_shard_state_def new_state_def)

lemma demo_acquire:
  "shard_dml_acquire (to_codecs demo_tools) demo_compactor ''public.t'' ''s0'' (demo_world []) =
    (Inr (Some \<lparr>sl_purpose = ''dml:public.t:s0'', sl_holder = ''n1-cmp'', sl_epoch = 1\<rparr>),
     (demo_world [])\<lparr>w_catalog := demo_shard_state\<lparr>leases := bm_insert ''dml:public.t:s0''
       \<lparr>le_purpose = ''dml:public.t:s0'', le_holder = ''n1-cmp'', le_epoch = 1, le_granted_at_ms = 100,
         le_expires_at_ms = 30100\<rparr> bm_empty\<rparr>\<rparr>)"
  by (simp add: shard_dml_acquire_def Let_def catalog_do_def catalog_call_def remote_def dml_shard_lease_purpose_def
      demo_compactor_def default_config_def sat_add_def u64_max_def demo_leases
      next_turn_def demo_world_def acquire_lease_def io_bind_def io_return_def)

lemma demo_world_fields [simp]:
  "w_catalog (demo_world ts) = demo_shard_state" "w_store (demo_world ts) = demo_objects"
  "w_turns (demo_world ts) = ts" "w_clock (demo_world ts) = 100"
  by (simp_all add: demo_world_def)

lemma demo_compactor_fields [simp]:
  "cc_min_files (co_cfg demo_compactor) = 1" "cc_lease_purpose (co_cfg demo_compactor) = ''compaction''"
  by (simp_all add: demo_compactor_def default_config_def COMPACTION_LEASE_def)

lemma idle_turn: "w_turns w = [] \<Longrightarrow> next_turn cx w = (Answered, w)"
  by (simp add: next_turn_def)

lemma demo_file_fields [simp]: "fm_batch_id (demo_file b) = b" "fm_time_window (demo_file b) = []"
  by (simp_all add: demo_file_def)

lemma demo_objects_get: "bm_get demo_objects (demo_path ''b1'') = Some [10]"
  by (simp add: demo_objects_def bm_simps)

lemma demo_format [simp]: "format_from_path (demo_path b) = Parquet"
  by (simp add: demo_path_def)

lemma demo_arrow [simp]:
  "to_arrow demo_tools = byte_arrow" "ar_decode byte_arrow fmt bs = Inr [bs]" "ar_encode byte_arrow fmt b = Inr b"
  "ar_num_rows byte_arrow = length" "ar_concat byte_arrow t bss = Some (concat bss)"
  by (simp_all add: demo_tools_def byte_arrow_def)

lemma demo_commit_ok:
  "fst (commit_compaction [''b1''] nfs 7 (compaction_shard_lease_purpose ''compaction'' ''public.t'' ''s0'')
     (record_in_flight ''m'' 100 (demo_shard_state\<lparr>leases := bm_insert ''dml:public.t:s0'' l bm_empty\<rparr>))) = Inr 3"
  by (simp add: commit_compaction_def fenced_def lease_purpose_of_def compaction_shard_lease_purpose_def
      input_offline_def record_in_flight_def demo_shard_state_def new_state_def bm_simps Let_def next_snapshot_def
      demo_file_def)

lemma demo_run:
  "fst (compact_shard demo_tools demo_compactor ''public.t'' ''s0'' 1 7 ''m'' (demo_world [])) = Inr (Some 3)"
  by (simp add: compact_shard_def io_bind_def demo_acquire Let_def compact_shard_inner_def catalog_query_def remote_def
     idle_turn demo_listing deletion_bitmaps_def io_return_def read_batch_file_def get_bytes_def demo_objects_get io_lift_def
     merge_batches_def publish_merged_def catalog_do_def catalog_call_def write_batch_file_def put_bytes_def
     commit_compaction_files_def demo_commit_ok del: One_nat_def)

lemma byte_arrow_laws: "arrow_laws (to_arrow demo_tools) id"
  by (simp add: arrow_laws_def demo_tools_def byte_arrow_def)

lemma demo_stored: "stored_rows demo_tools id demo_objects (demo_path ''b1'') = [10]"
  by (simp add: stored_rows_def demo_objects_get)

lemma demo_state_fields: "snapshot_version demo_shard_state = 2"
  "bm_values (files demo_shard_state) = [(demo_file ''b1'')\<lparr>fm_file_path := demo_path ''b1''\<rparr>]"
  "bm_values (deletions demo_shard_state) = [demo_deletion]"
  by (simp_all add: demo_shard_state_def new_state_def bm_values_def)

lemma demo_fresh: "fresh_path (file_path ''public.t'' ''s0'' w ''m'' fmt) demo_shard_state demo_objects"
proof -
  let ?p = "file_path ''public.t'' ''s0'' w ''m'' fmt"
  have "extract_batch_id ?p = Some ''m''" by (rule extract_file_path) simp
  moreover have "extract_batch_id (demo_path ''b1'') = Some ''b1''"
    unfolding demo_path_def by (rule extract_file_path) simp
  moreover have "extract_batch_id (de_store_path demo_deletion) = Some ''d1''"
    by (simp add: demo_deletion_def demo_path_def) code_simp
  ultimately have "?p \<noteq> demo_path ''b1''" "?p \<noteq> de_store_path demo_deletion" by auto
  moreover have "de_file_path demo_deletion = demo_path ''b1''" by (simp add: demo_deletion_def)
  ultimately show ?thesis
    by (simp add: fresh_path_def demo_state_fields bm_has_def demo_objects_def bm_simps)
qed

lemma demo_same: "demo_shard_state\<lparr>leases := bm_empty\<rparr> = demo_shard_state"
  by (simp add: demo_shard_state_def new_state_def)

lemma demo_ready: "merge_ready demo_tools id ''public.t'' ''s0'' k ''m'' demo_shard_state demo_objects"
proof -
  note listing = demo_listing(1) [of _ bm_empty, unfolded demo_same]
  have "all_entries (file_wf (snapshot_version demo_shard_state)) (files demo_shard_state)"
    by (simp add: all_entries_def file_wf_def demo_shard_state_def new_state_def bm_simps demo_file_def)
  moreover have "fresh_batch ''public.t'' ''s0'' ''m'' demo_shard_state demo_objects"
    using demo_fresh by (simp add: fresh_batch_def demo_shard_state_def new_state_def bm_has_def bm_simps)
  ultimately show ?thesis by (simp add: merge_ready_def listing demo_stored)
qed

text \<open>The deletion of the first row of \<open>b1\<close> is committed at snapshot 2.\<close>

lemma demo_deleted:
  "row_deleted demo_tools demo_objects (list_deletions ''public.t'' k demo_shard_state) (demo_path ''b1'') i \<longleftrightarrow>
    2 \<le> k \<and> i = 0"
proof -
  have store: "bm_get demo_objects (de_store_path demo_deletion) = Some (DV_MAGIC @ [1, 0, 1, 0, 0, 0, 0, 0, 0, 0, 0])"
  proof -
    have "extract_batch_id (de_store_path demo_deletion) \<noteq> extract_batch_id (demo_path ''b1'')"
      by (simp add: demo_deletion_def demo_path_def) code_simp
    then have "de_store_path demo_deletion \<noteq> demo_path ''b1''" by auto
    then show ?thesis by (simp add: demo_objects_def bm_simps)
  qed
  have "read_dv demo_tools (DV_MAGIC @ [1, 0, 1, 0, 0, 0, 0, 0, 0, 0, 0]) = Inr (dv_from_positions [0])"
    by (simp add: read_dv_def demo_tools_def) code_simp
  then have "entry_marks demo_tools demo_objects i demo_deletion \<longleftrightarrow> i = 0"
    by (simp add: entry_marks_def store dv_contains_from_positions)
  then show ?thesis
    using demo_listing(2) [of k bm_empty, unfolded demo_same] by (auto simp: row_deleted_iff demo_deletion_def)
qed

subsection \<open>Witnesses\<close>

definition lost_reply :: turn where
  "lost_reply = \<lparr>tn_ops = [], tn_objects = [], tn_clock = 101, tn_reply = ReplyLost\<rparr>"


theorem stale_merge_revives_rows_witness:
  "let w' = snd (compact_shard demo_tools demo_compactor ''public.t'' ''s0'' 1 7 ''m'' (demo_world []))
   in length (shard_rows demo_tools id demo_objects demo_shard_state ''public.t'' ''s0'' 2) <
      length (shard_rows demo_tools id (w_store w') (w_catalog w') ''public.t'' ''s0'' 3)"
proof -
  obtain w' where run: "compact_shard demo_tools demo_compactor ''public.t'' ''s0'' 1 7 ''m'' (demo_world []) =
      (Inr (Some 3), w')" using demo_run by (metis prod.collapse)
  have "quiet (demo_world [])" by (simp add: quiet_def)
  note listing = demo_listing [where l = bm_empty, unfolded demo_same]
  from stale_merge_revives_rows [OF byte_arrow_laws \<open>quiet _\<close> _ run,
      where f = "(demo_file ''b1'')\<lparr>fm_file_path := demo_path ''b1''\<rparr>" and i = 0] demo_ready run
  show ?thesis by (simp add: listing(1) demo_stored demo_deleted demo_state_fields) (simp add: listing(2))
qed

theorem merge_waits_for_dml_witness:
  "\<forall>v. fst (compact_shard demo_tools demo_compactor ''public.t'' ''s0'' 2 1 ''m'' (demo_world
     [\<lparr>tn_ops = [OpAcquireLease ''dml:public.t:s0'' ''dml-1'' 1000 90], tn_objects = [], tn_clock = 100,
       tn_reply = Answered\<rparr>])) \<noteq> Inr (Some v)"
proof -
  let ?w = "demo_world [\<lparr>tn_ops = [OpAcquireLease ''dml:public.t:s0'' ''dml-1'' 1000 90], tn_objects = [],
    tn_clock = 100, tn_reply = Answered\<rparr>]"
  have "bm_get (leases (w_catalog (snd (next_turn (to_codecs demo_tools) ?w)))) (dml_shard_lease_purpose ''public.t'' ''s0'') =
      Some \<lparr>le_purpose = ''dml:public.t:s0'', le_holder = ''dml-1'', le_epoch = 1, le_granted_at_ms = 90,
        le_expires_at_ms = 1090\<rparr>"
    by (simp add: next_turn_def sm_step_def acquire_lease_def Let_def demo_leases bm_simps dml_shard_lease_purpose_def
        sat_add_def u64_max_def)
  moreover have "co_lease_holder demo_compactor = ''n1''" by (simp add: demo_compactor_def)
  ultimately show ?thesis
    using merge_waits_for_dml [of demo_tools ?w "''public.t''" "''s0''" _ demo_compactor 2 1 "''m''",
        OF _ _ _ prod.collapse [symmetric]] by simp
qed

theorem fencing_token_ignored_witness:
  "compact_shard demo_tools demo_compactor ''public.t'' ''s0'' 2 9 ''m'' (demo_world []) =
   compact_shard demo_tools demo_compactor ''public.t'' ''s0'' 2 0 ''m'' (demo_world [])"
proof -
  have "never_leased ''compaction:public.t:s0'' (demo_world [])"
    by (simp add: never_leased_def demo_leases)
  then have "never_leased (compaction_shard_lease_purpose (cc_lease_purpose (co_cfg demo_compactor)) ''public.t'' ''s0'')
      (demo_world [])" by (simp add: compaction_shard_lease_purpose_def)
  from fencing_token_ignored [OF _ refl this, of demo_tools 2 9 "''m''" 0] show ?thesis
    by (simp add: COMPACTION_LEASE_def)
qed

theorem round_within_budget_witness:
  "rs_candidates (case fst (compaction_round demo_tools demo_compactor (\<lambda>_. ''m'') (demo_world [])) of
     Inr stats \<Rightarrow> stats) \<le> 0"
proof -
  have "list_tasks demo_shard_state = []"
    by (simp add: list_tasks_def demo_shard_state_def new_state_def bm_values_def)
  then have "compaction_round demo_tools demo_compactor (\<lambda>_. ''m'') (demo_world []) = (Inr no_stats, demo_world [])"
    by (simp add: compaction_round_def io_bind_def catalog_query_def remote_def idle_turn no_stats_def Let_def)
  from round_within_budget [OF this] this show ?thesis by (simp add: no_stats_def)
qed

theorem dead_shard_never_collected_witness:
  "\<forall>v. fst (compact_shard demo_tools demo_compactor ''public.t'' ''s0'' 2 1 ''m'' (demo_world [])) \<noteq> Inr (Some v)"
proof -
  have "quiet (demo_world [])" by (simp add: quiet_def)
  note listing = demo_listing(1) [where l = bm_empty, unfolded demo_same]
  have "live_rows demo_tools id demo_objects (list_deletions ''public.t'' 2 demo_shard_state) (demo_path ''b1'') = []"
    unfolding live_rows_def demo_stored by (rule kept_rows_all) (simp add: demo_deleted)
  then show ?thesis
    using dead_shard_never_collected [OF byte_arrow_laws \<open>quiet _\<close> _ prod.collapse [symmetric],
        where table = "''public.t''" and shard = "''s0''" and k = 2] by (simp add: listing demo_stored)
qed

end
