(* ===== verification/Column_Stats.thy ===== *)
theory Column_Stats
  imports Prelude
begin

text \<open>
  Column statistics of a chunk (\<open>crates/chunk/src/stats.rs\<close>). A \<open>f64\<close> is its bit pattern, and
  \<open>f64_partial_cmp\<close> is the partial order of IEEE 754 on it, \<open>f64::partial_cmp\<close>. The kernels that find the
  least and the greatest value of an array are Arrow's: the statistics of one batch are a parameter of
  the chunk, and this theory models how they are merged and compared.
\<close>

subsection \<open>Comparison\<close>

datatype ordering = Less | Equal | Greater

fun is_gt :: "ordering \<Rightarrow> bool" where
  "is_gt Greater = True" | "is_gt Less = False" | "is_gt Equal = False"

fun is_lt :: "ordering \<Rightarrow> bool" where
  "is_lt Less = True" | "is_lt Greater = False" | "is_lt Equal = False"

definition cmp_of :: "'a::linorder \<Rightarrow> 'a \<Rightarrow> ordering" where
  "cmp_of a b = (if a < b then Less else if a = b then Equal else Greater)"

lemma cmp_of_simps [simp]:
  "cmp_of a b = Less \<longleftrightarrow> a < b" "cmp_of a b = Equal \<longleftrightarrow> a = b" "cmp_of a b = Greater \<longleftrightarrow> b < a"
  by (auto simp: cmp_of_def)

lemma is_gt_iff [simp]: "is_gt x \<longleftrightarrow> x = Greater"
  by (cases x) auto

lemma is_lt_iff [simp]: "is_lt x \<longleftrightarrow> x = Less"
  by (cases x) auto

subsection \<open>Floating-point numbers\<close>

type_synonym f64 = "64 word"

definition f64_magnitude :: "f64 \<Rightarrow> nat" where
  "f64_magnitude x = unat x mod 2 ^ 63"

definition f64_negative :: "f64 \<Rightarrow> bool" where
  "f64_negative x \<longleftrightarrow> unat x \<ge> 2 ^ 63"

text \<open>The exponent is all ones and the fraction is not zero.\<close>

definition f64_is_nan :: "f64 \<Rightarrow> bool" where
  "f64_is_nan x \<longleftrightarrow> f64_magnitude x > 2047 * 2 ^ 52"

text \<open>Numbers other than NaN are ordered by sign and magnitude, and both zeros are 0.\<close>

definition f64_rank :: "f64 \<Rightarrow> int" where
  "f64_rank x = (if f64_negative x then - int (f64_magnitude x) else int (f64_magnitude x))"

definition f64_partial_cmp :: "f64 \<Rightarrow> f64 \<Rightarrow> ordering option" where
  "f64_partial_cmp a b =
     (if f64_is_nan a \<or> f64_is_nan b then None else Some (cmp_of (f64_rank a) (f64_rank b)))"

subsection \<open>Values\<close>

datatype stat_value =
    SInt int
  | SUint nat
  | SFloat f64
  | SStr string
  | SBool bool

text \<open>\<open>i64::try_from(u)\<close> fails above \<open>i64::MAX\<close>.\<close>

definition i64_of_u64 :: "nat \<Rightarrow> int option" where
  "i64_of_u64 u = (if u < 2 ^ 63 then Some (int u) else None)"

fun cmp_values :: "stat_value \<Rightarrow> stat_value \<Rightarrow> ordering option" where
  "cmp_values (SInt a) (SInt b) = Some (cmp_of a b)"
| "cmp_values (SUint a) (SUint b) = Some (cmp_of a b)"
| "cmp_values (SInt a) (SUint b) = map_option (\<lambda>b. cmp_of a b) (i64_of_u64 b)"
| "cmp_values (SUint a) (SInt b) = map_option (\<lambda>a. cmp_of a b) (i64_of_u64 a)"
| "cmp_values (SFloat a) (SFloat b) = f64_partial_cmp a b"
| "cmp_values (SStr a) (SStr b) = Some (cmp_of a b)"
| "cmp_values (SBool a) (SBool b) = Some (cmp_of a b)"
| "cmp_values _ _ = None"

fun merge_min :: "stat_value option \<Rightarrow> stat_value option \<Rightarrow> stat_value option" where
  "merge_min (Some a) (Some b) = map_option (\<lambda>ord. if is_gt ord then b else a) (cmp_values a b)"
| "merge_min (Some a) None = Some a"
| "merge_min None b = b"

fun merge_max :: "stat_value option \<Rightarrow> stat_value option \<Rightarrow> stat_value option" where
  "merge_max (Some a) (Some b) = map_option (\<lambda>ord. if is_lt ord then b else a) (cmp_values a b)"
| "merge_max (Some a) None = Some a"
| "merge_max None b = b"

record column_stat =
  cst_name :: string
  cst_min :: "stat_value option"
  cst_max :: "stat_value option"
  cst_null_count :: nat

type_synonym column_stats = "column_stat list"

definition stats_get :: "string \<Rightarrow> column_stats \<Rightarrow> column_stat option" where
  "stats_get name cols = find (\<lambda>c. cst_name c = name) cols"

definition merge_column :: "column_stat \<Rightarrow> column_stat \<Rightarrow> column_stat" where
  "merge_column old incoming = old\<lparr>
     cst_min := merge_min (cst_min old) (cst_min incoming),
     cst_max := merge_max (cst_max old) (cst_max incoming),
     cst_null_count := cst_null_count old + cst_null_count incoming\<rparr>"

text \<open>\<open>iter_mut().find(..)\<close>: only the first column of the name changes.\<close>

fun merge_incoming :: "column_stat \<Rightarrow> column_stats \<Rightarrow> column_stats" where
  "merge_incoming incoming [] = [incoming]"
| "merge_incoming incoming (c # cols) =
     (if cst_name c = cst_name incoming then merge_column c incoming # cols
      else c # merge_incoming incoming cols)"

definition stats_merge :: "column_stats \<Rightarrow> column_stats \<Rightarrow> column_stats" where
  "stats_merge cols other = (if cols = [] then other else fold merge_incoming other cols)"

subsection \<open>Merging keeps the bounds\<close>

definition stat_le :: "stat_value \<Rightarrow> stat_value \<Rightarrow> bool" where
  "stat_le a b \<longleftrightarrow> cmp_values a b \<in> {Some Less, Some Equal}"

text \<open>The statistics claim that \<open>v\<close> may occur in the column.\<close>

definition covers_value :: "column_stat \<Rightarrow> stat_value \<Rightarrow> bool" where
  "covers_value c v \<longleftrightarrow>
     (case cst_min c of None \<Rightarrow> True | Some lo \<Rightarrow> stat_le lo v) \<and>
     (case cst_max c of None \<Rightarrow> True | Some hi \<Rightarrow> stat_le v hi)"

fun same_kind :: "stat_value \<Rightarrow> stat_value \<Rightarrow> bool" where
  "same_kind (SInt _) (SInt _) = True"
| "same_kind (SUint _) (SUint _) = True"
| "same_kind (SFloat a) (SFloat b) = (\<not> f64_is_nan a \<and> \<not> f64_is_nan b)"
| "same_kind (SStr _) (SStr _) = True"
| "same_kind (SBool _) (SBool _) = True"
| "same_kind _ _ = False"

lemma stat_le_trans:
  "stat_le a b \<Longrightarrow> stat_le b c \<Longrightarrow> same_kind a b \<Longrightarrow> same_kind b c \<Longrightarrow> stat_le a c"
  by (cases a; cases b; cases c) (auto simp: stat_le_def f64_partial_cmp_def)

lemma stat_cmp_cases:
  assumes "same_kind a b"
  shows "\<exists>ord. cmp_values a b = Some ord \<and> (ord = Greater \<longrightarrow> stat_le b a) \<and> (ord \<noteq> Greater \<longrightarrow> stat_le a b)"
  using assms by (cases a; cases b) (auto simp: stat_le_def f64_partial_cmp_def cmp_of_def)

lemma same_kind_sym: "same_kind a b \<Longrightarrow> same_kind b a"
  by (cases a; cases b) auto

lemma same_kind_trans: "same_kind a b \<Longrightarrow> same_kind b c \<Longrightarrow> same_kind a c"
  by (cases a; cases b; cases c) auto

lemma same_kind_refl: "same_kind a b \<Longrightarrow> same_kind a a"
  by (cases a; cases b) auto

lemma stat_le_refl: "same_kind a a \<Longrightarrow> stat_le a a"
  by (cases a) (auto simp: stat_le_def f64_partial_cmp_def)

lemma merge_min_bound:
  assumes "same_kind a b"
  obtains m where "merge_min (Some a) (Some b) = Some m" "stat_le m a" "stat_le m b" "same_kind m a"
proof -
  obtain ord where ord: "cmp_values a b = Some ord" "ord = Greater \<longrightarrow> stat_le b a"
      "ord \<noteq> Greater \<longrightarrow> stat_le a b"
    using stat_cmp_cases [OF assms] by blast
  with assms that [of "if ord = Greater then b else a"] show thesis
    by (cases ord) (auto intro: stat_le_refl same_kind_refl same_kind_sym)
qed

lemma merge_max_bound:
  assumes "same_kind a b"
  obtains m where "merge_max (Some a) (Some b) = Some m" "stat_le a m" "stat_le b m" "same_kind m a"
proof -
  obtain ord where ord: "cmp_values a b = Some ord" "ord = Greater \<longrightarrow> stat_le b a"
      "ord \<noteq> Greater \<longrightarrow> stat_le a b"
    using stat_cmp_cases [OF assms] by blast
  have "stat_le b a" if "ord = Equal"
    using ord(1) that assms by (cases a; cases b) (auto simp: stat_le_def f64_partial_cmp_def split: if_splits)
  with ord assms that [of "if ord = Less then b else a"] show thesis
    by (cases ord) (auto intro: stat_le_refl same_kind_refl same_kind_sym)
qed

text \<open>What either side covers, the merged column covers, when the bounds and the value are of one kind.\<close>

lemma merge_column_covers:
  assumes "covers_value c v \<or> covers_value d v"
    and "cst_min c = Some a" "cst_max c = Some b" "cst_min d = Some a'" "cst_max d = Some b'"
    and "same_kind a a'" "same_kind b b'" "same_kind a v" "same_kind b v"
  shows "covers_value (merge_column c d) v"
proof -
  obtain m where m: "merge_min (Some a) (Some a') = Some m" "stat_le m a" "stat_le m a'" "same_kind m a"
    by (rule merge_min_bound [OF assms(6)])
  obtain n where n: "merge_max (Some b) (Some b') = Some n" "stat_le b n" "stat_le b' n" "same_kind n b"
    by (rule merge_max_bound [OF assms(7)])
  have k: "same_kind m a'" "same_kind a' v" "same_kind v b" "same_kind v b'" "same_kind b n" "same_kind b' n"
    using m(4) n(4) assms(6-9) by (metis same_kind_sym same_kind_trans)+
  have "stat_le m v \<and> stat_le v n"
  proof (cases "covers_value c v")
    case True
    then have "stat_le a v" "stat_le v b" using assms(2,3) by (simp_all add: covers_value_def)
    then show ?thesis using m(2,4) n(2) k assms(8) by (blast intro: stat_le_trans)
  next
    case False
    then have "covers_value d v" using assms(1) by blast
    then have "stat_le a' v" "stat_le v b'" using assms(4,5) by (simp_all add: covers_value_def)
    then show ?thesis using m(3) n(3) k by (blast intro: stat_le_trans)
  qed
  then show ?thesis using assms(2-5) m(1) n(1)
    by (simp add: merge_column_def covers_value_def del: merge_min.simps merge_max.simps)
qed

end
