(* ===== verification/Spill_File.thy ===== *)
theory Spill_File
  imports Column_Stats Le_Bytes Errors BTree_Map
begin

text \<open>
  Spill files (\<open>crates/chunk/src/spill.rs\<close>): the copy of a chunk's batches on the local disk, a header of
  64 bytes, the schema and the batches in Arrow's IPC stream format. The IPC codec, the memory size, the
  schema and the column statistics of a batch are Arrow's, the checksum is \<open>crc32fast\<close>'s: they are the
  fields of \<open>chunk_tools\<close>. The directory is a map from file names to contents. A \<open>usize\<close> is read back with
  \<open>as usize\<close>, and offsets are added as \<open>usize\<close>, written out as \<open>mod 2 ^ 64\<close>.
\<close>

record 'b chunk_tools =
  kt_schema :: "'b \<Rightarrow> schema"
  kt_num_rows :: "'b \<Rightarrow> nat"
  kt_memory :: "'b \<Rightarrow> nat"
  kt_stats :: "'b \<Rightarrow> column_stats"
  kt_ipc_encode :: "'b list \<Rightarrow> lake_error + bytes"
  kt_ipc_decode :: "bytes \<Rightarrow> lake_error + 'b list"
  kt_schema_bytes :: "schema \<Rightarrow> bytes"
  kt_schema_parse :: "bytes \<Rightarrow> lake_error + schema"
  kt_crc :: "bytes \<Rightarrow> nat"

record spill_meta =
  spm_wal_segment :: nat
  spm_wal_seq_range :: "nat \<times> nat"
  spm_rows :: nat
  spm_mem_bytes :: nat

record spill_handle =
  sp_path :: string
  sp_file_bytes :: nat
  sp_mem_bytes :: nat
  sp_rows :: nat
  sp_wal_segment :: nat
  sp_wal_seq_range :: "nat \<times> nat"
  sp_crc :: nat

record spill_header =
  shd_version :: nat
  shd_wal_segment :: nat
  shd_seq_start :: nat
  shd_seq_end :: nat
  shd_rows :: nat
  shd_mem_bytes :: nat
  shd_crc :: nat

type_synonym spill_dir = "(string, bytes) bmap"

definition SPILL_MAGIC :: bytes where
  "SPILL_MAGIC = [0x59, 0x53, 0x50, 0x4C]"

definition SPILL_VERSION :: nat where
  "SPILL_VERSION = 1"

definition SPILL_HEADER_LEN :: nat where
  "SPILL_HEADER_LEN = 64"

definition encode_batches :: "'b chunk_tools \<Rightarrow> 'b list \<Rightarrow> lake_error + bytes" where
  "encode_batches kt batches =
     (if batches = [] then Inl (Other ''spill: empty batch set'') else kt_ipc_encode kt batches)"

definition spill_bytes :: "'b chunk_tools \<Rightarrow> spill_meta \<Rightarrow> bytes \<Rightarrow> bytes \<Rightarrow> bytes" where
  "spill_bytes kt meta schema_ipc encoded =
     SPILL_MAGIC @ le_bytes 4 SPILL_VERSION @ le_bytes 8 (spm_wal_segment meta) @
     le_bytes 8 (fst (spm_wal_seq_range meta)) @ le_bytes 8 (snd (spm_wal_seq_range meta)) @
     le_bytes 8 (spm_rows meta) @ le_bytes 8 (spm_mem_bytes meta) @ le_bytes 4 (kt_crc kt encoded) @
     le_bytes 4 (length schema_ipc) @ le_bytes 8 (length encoded) @ schema_ipc @ encoded"

text \<open>The file is written under a temporary name, synced and renamed; \<open>disk_ok\<close> says whether that succeeds.\<close>

definition write_spill ::
  "'b chunk_tools \<Rightarrow> bool \<Rightarrow> string \<Rightarrow> 'b list \<Rightarrow> spill_meta \<Rightarrow> spill_dir \<Rightarrow>
    (lake_error + spill_handle) \<times> spill_dir" where
  "write_spill kt disk_ok name batches meta dir =
     (case encode_batches kt batches of
        Inl e \<Rightarrow> (Inl e, dir)
      | Inr encoded \<Rightarrow>
          let path = name @ ''.ipc.lz4'';
              buf = spill_bytes kt meta (kt_schema_bytes kt (kt_schema kt (hd batches))) encoded in
          if disk_ok
          then (Inr \<lparr>sp_path = path, sp_file_bytes = length buf, sp_mem_bytes = spm_mem_bytes meta,
                     sp_rows = spm_rows meta, sp_wal_segment = spm_wal_segment meta,
                     sp_wal_seq_range = spm_wal_seq_range meta, sp_crc = kt_crc kt encoded\<rparr>,
                bm_insert path buf dir)
          else (Inl (Io ''spill write''), dir))"

definition parse_spill_header :: "bytes \<Rightarrow> lake_error + (spill_header \<times> bytes \<times> bytes)" where
  "parse_spill_header raw =
     (if length raw < SPILL_HEADER_LEN then Inl (Io ''spill file too short'')
      else if slice 0 4 raw \<noteq> SPILL_MAGIC then Inl (Io ''bad spill magic'')
      else
        let header = \<lparr>shd_version = le_nat (slice 4 8 raw), shd_wal_segment = le_nat (slice 8 16 raw),
              shd_seq_start = le_nat (slice 16 24 raw), shd_seq_end = le_nat (slice 24 32 raw),
              shd_rows = le_nat (slice 32 40 raw), shd_mem_bytes = le_nat (slice 40 48 raw),
              shd_crc = le_nat (slice 48 52 raw)\<rparr>
        in if shd_version header \<noteq> SPILL_VERSION then Inl (Io ''unsupported spill version'')
           else
             let payload_start = SPILL_HEADER_LEN + le_nat (slice 52 56 raw);
                 payload_end = (payload_start + le_nat (slice 56 64 raw)) mod 2 ^ 64
             in if payload_end > length raw then Inl (Io ''truncated spill file'')
                else Inr (header, slice SPILL_HEADER_LEN payload_start raw,
                          slice payload_start payload_end raw))"

definition read_spill :: "'b chunk_tools \<Rightarrow> spill_handle \<Rightarrow> spill_dir \<Rightarrow> lake_error + 'b list" where
  "read_spill kt h dir =
     (case bm_get dir (sp_path h) of
        None \<Rightarrow> Inl (Io ''not found'')
      | Some raw \<Rightarrow> and_then (parse_spill_header raw) (\<lambda>(header, schema_bytes, payload).
          if shd_crc header \<noteq> kt_crc kt payload then Inl (Io ''spill crc mismatch'')
          else and_then (kt_schema_parse kt schema_bytes) (\<lambda>_. kt_ipc_decode kt payload)))"

definition verify_spill :: "'b chunk_tools \<Rightarrow> string \<Rightarrow> spill_dir \<Rightarrow> lake_error + spill_header" where
  "verify_spill kt path dir =
     (case bm_get dir path of
        None \<Rightarrow> Inl (Io ''not found'')
      | Some raw \<Rightarrow> and_then (parse_spill_header raw) (\<lambda>(header, _, payload).
          if shd_crc header \<noteq> kt_crc kt payload then Inl (Io ''spill crc mismatch'') else Inr header))"

definition remove_spill :: "spill_handle \<Rightarrow> spill_dir \<Rightarrow> spill_dir" where
  "remove_spill h dir = bm_remove (sp_path h) dir"

subsection \<open>Reading back what was written\<close>

text \<open>
  What Arrow's codecs and the checksum are documented to do. A \<open>Vec\<close> holds at most \<open>isize::MAX\<close> bytes, and
  a flatbuffer, the encoding of the schema of a batch, at most 2 GB.
\<close>

definition spill_laws :: "'b chunk_tools \<Rightarrow> bool" where
  "spill_laws kt \<longleftrightarrow>
     (\<forall>bs enc. kt_ipc_encode kt bs = Inr enc \<longrightarrow> kt_ipc_decode kt enc = Inr bs \<and> length enc < 2 ^ 63) \<and>
     (\<forall>b. kt_schema_parse kt (kt_schema_bytes kt (kt_schema kt b)) = Inr (kt_schema kt b) \<and>
        length (kt_schema_bytes kt (kt_schema kt b)) < 2 ^ 32) \<and>
     (\<forall>bs. kt_crc kt bs < 2 ^ 32)"

definition spill_meta_fits :: "spill_meta \<Rightarrow> bool" where
  "spill_meta_fits m \<longleftrightarrow> spm_wal_segment m < 2 ^ 64 \<and> fst (spm_wal_seq_range m) < 2 ^ 64 \<and>
     snd (spm_wal_seq_range m) < 2 ^ 64 \<and> spm_rows m < 2 ^ 64 \<and> spm_mem_bytes m < 2 ^ 64"

lemma length_spill_bytes: "length (spill_bytes kt meta s e) = 64 + length s + length e"
  by (simp add: spill_bytes_def SPILL_MAGIC_def)

lemma spill_slices:
  "slice 0 4 (spill_bytes kt meta s e) = SPILL_MAGIC"
  "slice 4 8 (spill_bytes kt meta s e) = le_bytes 4 SPILL_VERSION"
  "slice 8 16 (spill_bytes kt meta s e) = le_bytes 8 (spm_wal_segment meta)"
  "slice 16 24 (spill_bytes kt meta s e) = le_bytes 8 (fst (spm_wal_seq_range meta))"
  "slice 24 32 (spill_bytes kt meta s e) = le_bytes 8 (snd (spm_wal_seq_range meta))"
  "slice 32 40 (spill_bytes kt meta s e) = le_bytes 8 (spm_rows meta)"
  "slice 40 48 (spill_bytes kt meta s e) = le_bytes 8 (spm_mem_bytes meta)"
  "slice 48 52 (spill_bytes kt meta s e) = le_bytes 4 (kt_crc kt e)"
  "slice 52 56 (spill_bytes kt meta s e) = le_bytes 4 (length s)"
  "slice 56 64 (spill_bytes kt meta s e) = le_bytes 8 (length e)"
  by (simp_all add: spill_bytes_def SPILL_MAGIC_def slice_def)

lemma spill_body:
  "slice 64 (64 + length s) (spill_bytes kt meta s e) = s"
  "slice (64 + length s) (64 + length s + length e) (spill_bytes kt meta s e) = e"
proof -
  obtain h where "spill_bytes kt meta s e = h @ s @ e" "length h = 64"
    by (rule that [of "take 64 (spill_bytes kt meta s e)"]) (simp_all add: spill_bytes_def SPILL_MAGIC_def)
  then show "slice 64 (64 + length s) (spill_bytes kt meta s e) = s"
    "slice (64 + length s) (64 + length s + length e) (spill_bytes kt meta s e) = e"
    by (simp_all add: slice_def)
qed

lemma parse_spill_bytes:
  assumes "spill_meta_fits meta" "spill_laws kt" "length s < 2 ^ 32" "length e < 2 ^ 63"
  shows "parse_spill_header (spill_bytes kt meta s e) =
    Inr (\<lparr>shd_version = 1, shd_wal_segment = spm_wal_segment meta,
          shd_seq_start = fst (spm_wal_seq_range meta), shd_seq_end = snd (spm_wal_seq_range meta),
          shd_rows = spm_rows meta, shd_mem_bytes = spm_mem_bytes meta, shd_crc = kt_crc kt e\<rparr>, s, e)"
proof -
  have "kt_crc kt e < 2 ^ 32" using assms(2) by (simp add: spill_laws_def)
  with assms show ?thesis
    by (simp add: parse_spill_header_def SPILL_HEADER_LEN_def length_spill_bytes spill_slices
        SPILL_VERSION_def le_nat_le_bytes_id spill_meta_fits_def spill_body Let_def)
qed

lemma write_spill_Inr:
  assumes "write_spill kt ok name batches meta dir = (Inr h, dir')"
  obtains encoded where "batches \<noteq> []" "kt_ipc_encode kt batches = Inr encoded"
    "h = \<lparr>sp_path = name @ ''.ipc.lz4'',
          sp_file_bytes = 64 + length (kt_schema_bytes kt (kt_schema kt (hd batches))) + length encoded,
          sp_mem_bytes = spm_mem_bytes meta, sp_rows = spm_rows meta, sp_wal_segment = spm_wal_segment meta,
          sp_wal_seq_range = spm_wal_seq_range meta, sp_crc = kt_crc kt encoded\<rparr>"
    "dir' = bm_insert (name @ ''.ipc.lz4'')
      (spill_bytes kt meta (kt_schema_bytes kt (kt_schema kt (hd batches))) encoded) dir"
  using assms
  by (auto simp: write_spill_def encode_batches_def Let_def length_spill_bytes split: sum.splits if_splits)

lemma write_spill_Inl: "write_spill kt ok name batches meta dir = (Inl e, dir') \<Longrightarrow> dir' = dir"
  by (auto simp: write_spill_def Let_def split: sum.splits if_splits)

lemma spill_reads_back:
  assumes "write_spill kt ok name batches meta dir = (Inr h, dir')"
    and "spill_laws kt" "spill_meta_fits meta"
  shows "read_spill kt h dir' = Inr batches"
proof -
  obtain encoded where w: "kt_ipc_encode kt batches = Inr encoded"
    "h = \<lparr>sp_path = name @ ''.ipc.lz4'',
          sp_file_bytes = 64 + length (kt_schema_bytes kt (kt_schema kt (hd batches))) + length encoded,
          sp_mem_bytes = spm_mem_bytes meta, sp_rows = spm_rows meta, sp_wal_segment = spm_wal_segment meta,
          sp_wal_seq_range = spm_wal_seq_range meta, sp_crc = kt_crc kt encoded\<rparr>"
    "dir' = bm_insert (name @ ''.ipc.lz4'')
      (spill_bytes kt meta (kt_schema_bytes kt (kt_schema kt (hd batches))) encoded) dir"
    using write_spill_Inr [OF assms(1)] by metis
  moreover have "length encoded < 2 ^ 63" "kt_ipc_decode kt encoded = Inr batches"
    "length (kt_schema_bytes kt (kt_schema kt (hd batches))) < 2 ^ 32"
    "\<And>b. kt_schema_parse kt (kt_schema_bytes kt (kt_schema kt b)) = Inr (kt_schema kt b)"
    using assms(2) w(1) by (auto simp: spill_laws_def)
  ultimately show ?thesis
    by (simp add: read_spill_def bm_simps parse_spill_bytes [OF assms(3,2)])
qed

lemma read_spill_insert_other:
  "sp_path h \<noteq> path \<Longrightarrow> read_spill kt h (bm_insert path bs dir) = read_spill kt h dir"
  by (simp add: read_spill_def bm_simps)

lemma read_spill_remove_other:
  "sp_path h \<noteq> path \<Longrightarrow> read_spill kt h (bm_remove path dir) = read_spill kt h dir"
  by (simp add: read_spill_def bm_simps)

text \<open>A spill file gives back exactly the batches it was written from, its header is what the chunk knew of them, and
  writing it touches no other file; so a chunk loses nothing when its memory is released.
\<close>

theorem spill_file_roundtrip:
  assumes w: "write_spill kt ok name batches meta dir = (Inr h, dir')"
    and laws: "spill_laws kt" and fits: "spill_meta_fits meta"
  shows "read_spill kt h dir' = Inr batches \<and>
    verify_spill kt (sp_path h) dir' = Inr \<lparr>shd_version = SPILL_VERSION, shd_wal_segment = spm_wal_segment meta,
      shd_seq_start = fst (spm_wal_seq_range meta), shd_seq_end = snd (spm_wal_seq_range meta),
      shd_rows = spm_rows meta, shd_mem_bytes = spm_mem_bytes meta, shd_crc = sp_crc h\<rparr> \<and>
    (\<forall>p. p \<noteq> sp_path h \<longrightarrow> bm_get dir' p = bm_get dir p)"
proof -
  obtain encoded where e: "kt_ipc_encode kt batches = Inr encoded" "sp_path h = name @ ''.ipc.lz4''" "sp_crc h = kt_crc kt encoded"
    "dir' = bm_insert (name @ ''.ipc.lz4'')
      (spill_bytes kt meta (kt_schema_bytes kt (kt_schema kt (hd batches))) encoded) dir"
    using write_spill_Inr [OF w] by (metis spill_handle.select_convs(1,7))
  have "length encoded < 2 ^ 63" "length (kt_schema_bytes kt (kt_schema kt (hd batches))) < 2 ^ 32"
    using laws e(1) by (auto simp: spill_laws_def)
  then show ?thesis
    using spill_reads_back [OF w laws fits]
    by (simp add: verify_spill_def e bm_simps parse_spill_bytes [OF fits laws] SPILL_VERSION_def)
qed

end
