(* ===== verification/Chunk_Budget.thy ===== *)
theory Chunk_Budget
  imports Complex_Main Prelude
begin

text \<open>
  The memory ledger and the levels of back pressure (\<open>crates/chunk/src/budget.rs\<close>). The counter of a
  ledger is an \<open>AtomicUsize\<close>, a \<open>64 word\<close> whose addition and subtraction wrap. \<open>ratio\<close> divides two
  \<open>f64\<close>; the model divides exactly. Rounding is monotone, so a quotient that reaches a threshold also
  reaches it after rounding; a quotient below a threshold of two decimals falls short of it by at least
  one hundredth of the limit's inverse, which rounding does not bridge for limits below \<open>2 ^ 46\<close> bytes.
\<close>

datatype pressure = Normal | Soft | Hard | Reject

fun needs_spill_level :: "pressure \<Rightarrow> bool" where
  "needs_spill_level Soft = True"
| "needs_spill_level Hard = True"
| "needs_spill_level Reject = True"
| "needs_spill_level Normal = False"

fun needs_force_seal :: "pressure \<Rightarrow> bool" where
  "needs_force_seal Hard = True"
| "needs_force_seal Reject = True"
| "needs_force_seal Normal = False"
| "needs_force_seal Soft = False"

fun rejects_writes :: "pressure \<Rightarrow> bool" where
  "rejects_writes Reject = True"
| "rejects_writes Normal = False"
| "rejects_writes Soft = False"
| "rejects_writes Hard = False"

record thresholds =
  th_soft :: rat
  th_hard :: rat
  th_reject :: rat

definition default_thresholds :: thresholds where
  "default_thresholds = \<lparr>th_soft = 60 / 100, th_hard = 80 / 100, th_reject = 95 / 100\<rparr>"

text \<open>A ratio is a number, or \<open>None\<close> for \<open>f64::INFINITY\<close>.\<close>

definition reaches :: "rat option \<Rightarrow> rat \<Rightarrow> bool" where
  "reaches ratio t = (case ratio of None \<Rightarrow> True | Some r \<Rightarrow> r \<ge> t)"

definition classify_ratio :: "thresholds \<Rightarrow> rat option \<Rightarrow> pressure" where
  "classify_ratio th ratio =
     (if reaches ratio (th_reject th) then Reject
      else if reaches ratio (th_hard th) then Hard
      else if reaches ratio (th_soft th) then Soft
      else Normal)"

type_synonym usize = "64 word"

record ledger =
  lg_limit :: usize
  lg_used :: usize
  lg_thresholds :: thresholds

definition ledger_new :: "nat \<Rightarrow> thresholds \<Rightarrow> ledger" where
  "ledger_new limit th = \<lparr>lg_limit = of_nat limit, lg_used = 0, lg_thresholds = th\<rparr>"

definition ledger_available :: "ledger \<Rightarrow> nat" where
  "ledger_available lg = unat (lg_limit lg) - unat (lg_used lg)"

definition ledger_ratio :: "ledger \<Rightarrow> rat option" where
  "ledger_ratio lg =
     (if lg_limit lg = 0 then (if lg_used lg = 0 then Some 0 else None)
      else Some (of_nat (unat (lg_used lg)) / of_nat (unat (lg_limit lg))))"

definition ledger_pressure :: "ledger \<Rightarrow> pressure" where
  "ledger_pressure lg = classify_ratio (lg_thresholds lg) (ledger_ratio lg)"

definition try_reserve :: "nat \<Rightarrow> ledger \<Rightarrow> bool \<times> ledger" where
  "try_reserve n lg =
     (let next = lg_used lg + of_nat n in
      if next > lg_limit lg then (False, lg) else (True, lg\<lparr>lg_used := next\<rparr>))"

definition ledger_reserve :: "nat \<Rightarrow> ledger \<Rightarrow> ledger" where
  "ledger_reserve n lg = lg\<lparr>lg_used := lg_used lg + of_nat n\<rparr>"

definition ledger_release :: "nat \<Rightarrow> ledger \<Rightarrow> ledger" where
  "ledger_release n lg = lg\<lparr>lg_used := lg_used lg - of_nat n\<rparr>"

text \<open>The two areas of a data node do not share a counter.\<close>

record memory_partition =
  mp_chunk :: ledger
  mp_query :: ledger

definition partition_new :: "nat \<Rightarrow> nat \<Rightarrow> thresholds \<Rightarrow> memory_partition" where
  "partition_new chunk_bytes query_bytes th =
     \<lparr>mp_chunk = ledger_new chunk_bytes th, mp_query = ledger_new query_bytes th\<rparr>"

subsection \<open>Lemmas\<close>

definition thresholds_ok :: "thresholds \<Rightarrow> bool" where
  "thresholds_ok th \<longleftrightarrow> 0 < th_soft th \<and> th_soft th \<le> th_hard th \<and> th_hard th \<le> th_reject th"

lemma default_thresholds_ok: "thresholds_ok default_thresholds"
  by (simp add: thresholds_ok_def default_thresholds_def)

text \<open>The levels are nested: a level that refuses writes also forces seals, and one that forces seals spills.\<close>

lemma reject_force_seal: "rejects_writes p \<Longrightarrow> needs_force_seal p"
  by (cases p) auto

lemma force_seal_spill: "needs_force_seal p \<Longrightarrow> needs_spill_level p"
  by (cases p) auto

lemma ledger_fields [simp]:
  "lg_limit (ledger_reserve n lg) = lg_limit lg" "lg_thresholds (ledger_reserve n lg) = lg_thresholds lg"
  "lg_limit (ledger_release n lg) = lg_limit lg" "lg_thresholds (ledger_release n lg) = lg_thresholds lg"
  by (simp_all add: ledger_reserve_def ledger_release_def)

lemma try_reserve_used:
  "try_reserve n lg = (ok, lg') \<Longrightarrow> lg_used lg' = (if ok then lg_used lg + of_nat n else lg_used lg)"
  by (auto simp: try_reserve_def Let_def split: if_splits)

lemma try_reserve_fits:
  assumes "try_reserve n lg = (True, lg')"
  shows "lg_used lg' \<le> lg_limit lg'" "lg_limit lg' = lg_limit lg"
  using assms by (auto simp: try_reserve_def Let_def split: if_splits)

end
