(* ===== verification/Chunk_State.thy ===== *)
theory Chunk_State
  imports Spill_File Chunk_Budget
begin

text \<open>
  One chunk, a buffer of record batches that will become one file (\<open>crates/chunk/src/chunk.rs\<close>), its life
  cycle and what it holds. Methods that mutate the chunk and may fail return the result and the chunk,
  also on an error. The identifier in the name of a spill file is fresh, a parameter.
\<close>

subsection \<open>Keys\<close>

record shard_id =
  sid_table :: string
  sid_shard :: string
  sid_window :: string

instantiation shard_id_ext :: (linorder) linorder
begin

definition less_eq_shard_id_ext :: "'a shard_id_scheme \<Rightarrow> 'a shard_id_scheme \<Rightarrow> bool" where
  "less_eq_shard_id_ext a b \<longleftrightarrow>
     (sid_table a, sid_shard a, sid_window a, shard_id.more a) \<le>
     (sid_table b, sid_shard b, sid_window b, shard_id.more b)"

definition less_shard_id_ext :: "'a shard_id_scheme \<Rightarrow> 'a shard_id_scheme \<Rightarrow> bool" where
  "less_shard_id_ext a b \<longleftrightarrow>
     (sid_table a, sid_shard a, sid_window a, shard_id.more a) <
     (sid_table b, sid_shard b, sid_window b, shard_id.more b)"

instance
  by standard
     (auto simp: less_eq_shard_id_ext_def less_shard_id_ext_def intro: shard_id.equality)

end

record chunk_key =
  cky_shard :: shard_id
  cky_epoch :: nat

instantiation chunk_key_ext :: (linorder) linorder
begin

definition less_eq_chunk_key_ext :: "'a chunk_key_scheme \<Rightarrow> 'a chunk_key_scheme \<Rightarrow> bool" where
  "less_eq_chunk_key_ext a b \<longleftrightarrow>
     (cky_shard a, cky_epoch a, chunk_key.more a) \<le> (cky_shard b, cky_epoch b, chunk_key.more b)"

definition less_chunk_key_ext :: "'a chunk_key_scheme \<Rightarrow> 'a chunk_key_scheme \<Rightarrow> bool" where
  "less_chunk_key_ext a b \<longleftrightarrow>
     (cky_shard a, cky_epoch a, chunk_key.more a) < (cky_shard b, cky_epoch b, chunk_key.more b)"

instance
  by standard
     (auto simp: less_eq_chunk_key_ext_def less_chunk_key_ext_def intro: chunk_key.equality)

end

definition cky_table :: "chunk_key \<Rightarrow> string" where
  "cky_table k = sid_table (cky_shard k)"

record partition_key =
  pk_dt :: string
  pk_extra :: "string option"

definition partition_key_of :: "chunk_key \<Rightarrow> partition_key" where
  "partition_key_of k = \<lparr>pk_dt = sid_window (cky_shard k), pk_extra = None\<rparr>"

record table_liveness =
  tlv_exists :: bool
  tlv_epoch :: nat

definition liveness_default :: table_liveness where
  "liveness_default = \<lparr>tlv_exists = True, tlv_epoch = 0\<rparr>"

subsection \<open>States\<close>

datatype chunk_state = Open | Sealed | Spilled | Flushed | Released

fun can_transition_to :: "chunk_state \<Rightarrow> chunk_state \<Rightarrow> bool" where
  "can_transition_to Open Spilled = True"
| "can_transition_to Open Sealed = True"
| "can_transition_to Sealed Spilled = True"
| "can_transition_to Sealed Flushed = True"
| "can_transition_to Spilled Flushed = True"
| "can_transition_to Flushed Released = True"
| "can_transition_to _ _ = False"

fun holds_data :: "chunk_state \<Rightarrow> bool" where
  "holds_data Released = False"
| "holds_data _ = True"

datatype seal_reason =
    SealRows | SealBytes | SealWindowClosed | SealSchemaChanged | SealResidentCap | SealPressure | SealManual

fun seal_reason_str :: "seal_reason \<Rightarrow> string" where
  "seal_reason_str SealRows = ''rows_threshold''"
| "seal_reason_str SealBytes = ''bytes_threshold''"
| "seal_reason_str SealWindowClosed = ''window_closed''"
| "seal_reason_str SealSchemaChanged = ''schema_changed''"
| "seal_reason_str SealResidentCap = ''resident_cap''"
| "seal_reason_str SealPressure = ''pressure''"
| "seal_reason_str SealManual = ''manual''"

datatype 'b chunk_data = InMemory "'b list" | OnDisk spill_handle

record 'b chunk =
  ck_id :: nat
  ck_key :: chunk_key
  ck_schema_version :: nat
  ck_schema :: schema
  ck_state :: chunk_state
  ck_data :: "'b chunk_data"
  ck_rows :: nat
  ck_bytes :: nat
  ck_stats :: column_stats
  ck_created_at_ms :: nat
  ck_window_end_ms :: nat
  ck_sealed_at_ms :: "nat option"
  ck_seal_reason :: "seal_reason option"
  ck_pressure_at_seal :: "pressure option"
  ck_seqs :: "nat list"
  ck_wal_seq_range :: "nat \<times> nat"
  ck_committed_snapshot :: "nat option"
  ck_batch_id :: "string option"
  ck_flush_attempts :: nat
  ck_retry_after_ms :: nat

definition MINUTE_MS :: int where
  "MINUTE_MS = 60000"

text \<open>\<open>div_euclid\<close> by a positive number rounds down, as \<open>div\<close> does.\<close>

definition window_start_ms :: "int \<Rightarrow> int" where
  "window_start_ms t = t div MINUTE_MS * MINUTE_MS"

definition chunk_new :: "nat \<Rightarrow> chunk_key \<Rightarrow> nat \<Rightarrow> schema \<Rightarrow> nat \<Rightarrow> 'b chunk" where
  "chunk_new i key schema_version sch now_ms =
     \<lparr>ck_id = i, ck_key = key, ck_schema_version = schema_version, ck_schema = sch, ck_state = Open,
      ck_data = InMemory [], ck_rows = 0, ck_bytes = 0, ck_stats = [], ck_created_at_ms = now_ms,
      ck_window_end_ms = nat (window_start_ms (int now_ms) + MINUTE_MS), ck_sealed_at_ms = None,
      ck_seal_reason = None, ck_pressure_at_seal = None, ck_seqs = [], ck_wal_seq_range = (0, 0),
      ck_committed_snapshot = None, ck_batch_id = None, ck_flush_attempts = 0, ck_retry_after_ms = 0\<rparr>"

definition extend_range :: "nat list \<Rightarrow> nat \<times> nat \<Rightarrow> nat \<Rightarrow> nat \<times> nat" where
  "extend_range seqs old seq =
     (if seqs = [] then (seq, seq + 1) else (min (fst old) seq, max (snd old) (seq + 1)))"

definition chunk_append ::
  "'b chunk_tools \<Rightarrow> nat \<Rightarrow> 'b \<Rightarrow> 'b chunk \<Rightarrow> (lake_error + unit) \<times> 'b chunk" where
  "chunk_append kt seq batch c =
     (if ck_state c \<noteq> Open then (Inl (Other ''cannot append''), c)
      else if kt_schema kt batch \<noteq> ck_schema c then (Inl (Other ''schema mismatch''), c)
      else
        let c1 = c\<lparr>
          ck_rows := ck_rows c + kt_num_rows kt batch,
          ck_bytes := ck_bytes c + kt_memory kt batch,
          ck_stats := stats_merge (ck_stats c) (kt_stats kt batch),
          ck_wal_seq_range := extend_range (ck_seqs c) (ck_wal_seq_range c) seq,
          ck_seqs := ck_seqs c @ [seq]\<rparr>
        in (case ck_data c of
              InMemory batches \<Rightarrow> (Inr (), c1\<lparr>ck_data := InMemory (batches @ [batch])\<rparr>)
            | OnDisk _ \<Rightarrow> (Inl (Other ''spilled, cannot append''), c1)))"

definition transition :: "chunk_state \<Rightarrow> 'b chunk \<Rightarrow> (lake_error + unit) \<times> 'b chunk" where
  "transition next c =
     (if \<not> can_transition_to (ck_state c) next then (Inl (Other ''illegal chunk state transition''), c)
      else (Inr (), c\<lparr>ck_state := next\<rparr>))"

definition seal_tagged ::
  "seal_reason \<Rightarrow> pressure option \<Rightarrow> nat \<Rightarrow> 'b chunk \<Rightarrow> (lake_error + unit) \<times> 'b chunk" where
  "seal_tagged reason p now_ms c =
     (case transition Sealed c of
        (Inl e, c1) \<Rightarrow> (Inl e, c1)
      | (Inr _, c1) \<Rightarrow> (Inr (), c1\<lparr>ck_sealed_at_ms := Some now_ms, ck_seal_reason := Some reason,
                               ck_pressure_at_seal := p\<rparr>))"

definition chunk_seal :: "nat \<Rightarrow> 'b chunk \<Rightarrow> (lake_error + unit) \<times> 'b chunk" where
  "chunk_seal now_ms = seal_tagged SealManual None now_ms"

definition build_spill ::
  "'b chunk_tools \<Rightarrow> bool \<Rightarrow> string \<Rightarrow> nat \<Rightarrow> 'b list \<Rightarrow> 'b chunk \<Rightarrow> spill_dir \<Rightarrow>
    (lake_error + spill_handle) \<times> spill_dir" where
  "build_spill kt disk_ok uuid wal_segment batches c dir =
     write_spill kt disk_ok (''c'' @ dec_digits (ck_id c) @ ''-'' @ uuid) batches
       \<lparr>spm_wal_segment = wal_segment, spm_wal_seq_range = ck_wal_seq_range c,
        spm_rows = ck_rows c, spm_mem_bytes = ck_bytes c\<rparr> dir"

definition mem_batches :: "'b chunk \<Rightarrow> lake_error + 'b list" where
  "mem_batches c =
     (case ck_data c of InMemory b \<Rightarrow> Inr b | OnDisk _ \<Rightarrow> Inl (Other ''already spilled''))"

definition attach_spill :: "spill_handle \<Rightarrow> 'b chunk \<Rightarrow> (lake_error + unit) \<times> 'b chunk" where
  "attach_spill h c =
     (case transition Spilled c of
        (Inl e, c1) \<Rightarrow> (Inl e, c1)
      | (Inr _, c1) \<Rightarrow> (Inr (), c1\<lparr>ck_data := OnDisk h\<rparr>))"

definition chunk_spill ::
  "'b chunk_tools \<Rightarrow> bool \<Rightarrow> string \<Rightarrow> nat \<Rightarrow> 'b chunk \<Rightarrow> spill_dir \<Rightarrow>
    (lake_error + unit) \<times> 'b chunk \<times> spill_dir" where
  "chunk_spill kt disk_ok uuid wal_segment c dir =
     (if ck_state c = Spilled then (Inr (), c, dir)
      else
        case ck_data c of
          OnDisk _ \<Rightarrow> (Inr (), c, dir)
        | InMemory batches \<Rightarrow>
            (case build_spill kt disk_ok uuid wal_segment batches c dir of
               (Inl e, dir1) \<Rightarrow> (Inl e, c, dir1)
             | (Inr h, dir1) \<Rightarrow>
                 (case attach_spill h (c\<lparr>ck_data := InMemory []\<rparr>) of (r, c1) \<Rightarrow> (r, c1, dir1))))"

definition chunk_mark_committed :: "nat \<Rightarrow> 'b chunk \<Rightarrow> (lake_error + unit) \<times> 'b chunk" where
  "chunk_mark_committed snapshot c =
     (case (if ck_state c \<noteq> Flushed then transition Flushed c else (Inr (), c)) of
        (Inl e, c1) \<Rightarrow> (Inl e, c1)
      | (Inr _, c1) \<Rightarrow> (Inr (), c1\<lparr>ck_committed_snapshot := Some snapshot, ck_flush_attempts := 0,
                               ck_retry_after_ms := 0\<rparr>))"

text \<open>\<open>flush_attempts\<close> is a \<open>u32\<close>.\<close>

definition chunk_note_flush_failure :: "nat \<Rightarrow> 'b chunk \<Rightarrow> 'b chunk" where
  "chunk_note_flush_failure now_ms c =
     (let attempts = min (ck_flush_attempts c + 1) 4294967295;
          backoff_ms = min (200 * 2 ^ min attempts 7) 30000
      in c\<lparr>ck_flush_attempts := attempts, ck_retry_after_ms := now_ms + backoff_ms\<rparr>)"

definition in_backoff :: "'b chunk \<Rightarrow> nat \<Rightarrow> bool" where
  "in_backoff c now_ms \<longleftrightarrow> now_ms < ck_retry_after_ms c"

definition chunk_release :: "'b chunk \<Rightarrow> spill_dir \<Rightarrow> (lake_error + unit) \<times> 'b chunk \<times> spill_dir" where
  "chunk_release c dir =
     (case transition Released c of
        (Inl e, c1) \<Rightarrow> (Inl e, c1, dir)
      | (Inr _, c1) \<Rightarrow>
          (Inr (), c1\<lparr>ck_data := InMemory []\<rparr>,
           case ck_data c1 of OnDisk h \<Rightarrow> remove_spill h dir | InMemory _ \<Rightarrow> dir))"

definition chunk_read :: "'b chunk_tools \<Rightarrow> 'b chunk \<Rightarrow> spill_dir \<Rightarrow> lake_error + 'b list" where
  "chunk_read kt c dir =
     (case ck_data c of InMemory b \<Rightarrow> Inr b | OnDisk h \<Rightarrow> read_spill kt h dir)"

definition chunk_visible :: "'b chunk \<Rightarrow> nat \<Rightarrow> bool" where
  "chunk_visible c cached_snapshot \<longleftrightarrow>
     (if \<not> holds_data (ck_state c) then False
      else (case ck_committed_snapshot c of None \<Rightarrow> True | Some s \<Rightarrow> cached_snapshot < s))"

definition is_in_memory :: "'b chunk \<Rightarrow> bool" where
  "is_in_memory c \<longleftrightarrow> (case ck_data c of InMemory _ \<Rightarrow> True | OnDisk _ \<Rightarrow> False)"

definition needs_spill :: "'b chunk \<Rightarrow> bool" where
  "needs_spill c \<longleftrightarrow> ck_state c = Sealed \<and> is_in_memory c"

definition covers_seq :: "'b chunk \<Rightarrow> nat \<Rightarrow> bool" where
  "covers_seq c seq \<longleftrightarrow> seq \<in> set (ck_seqs c)"

definition batches_memory :: "'b chunk_tools \<Rightarrow> 'b list \<Rightarrow> nat" where
  "batches_memory kt bs = sum_list (map (kt_memory kt) bs)"

definition batches_rows :: "'b chunk_tools \<Rightarrow> 'b list \<Rightarrow> nat" where
  "batches_rows kt bs = sum_list (map (kt_num_rows kt) bs)"

end
