(* ===== verification/Chunk_Store.thy ===== *)
theory Chunk_Store
  imports Chunk_State Computation Wal_Record
begin

text \<open>
  The registry of the chunks of one process, its memory ledger, the plan of seals, spills and flushes, and
  the read side (\<open>crates/chunk/src/store.rs\<close>, with \<open>ShardRead\<close> of \<open>crates/store/src/shard.rs\<close>). The
  store's atomics and the state behind its lock are the fields of one record; each method that takes the
  lock once is one step. \<open>spill\<close> takes it twice, with the file written in between: \<open>spill_begin\<close> and
  \<open>spill_finish\<close> are its two halves. The iteration order of the hash map of open chunks is that of its keys. A
  spill is given whether the disk takes the file and the fresh part of the file's name; the removal of a
  local file succeeds. Durations are in milliseconds.
\<close>

record seal_policy =
  pol_rows_threshold :: nat
  pol_bytes_threshold :: nat
  pol_min_resident :: nat
  pol_max_flush_delay :: nat
  pol_max_resident :: nat
  pol_phase_spread :: nat

definition default_seal_policy :: seal_policy where
  "default_seal_policy = \<lparr>pol_rows_threshold = 500000, pol_bytes_threshold = 128 * 1024 * 1024,
     pol_min_resident = 5000, pol_max_flush_delay = 0, pol_max_resident = 60000, pol_phase_spread = 30000\<rparr>"

record chunk_store_config =
  csc_policy :: seal_policy
  csc_instance_id :: string

record append_outcome =
  ao_chunk_id :: nat
  ao_sealed :: "(nat \<times> seal_reason) option"
  ao_pressure :: pressure

record flush_plan =
  fp_seal :: "nat list"
  fp_spill :: "nat list"
  fp_flush :: "nat list"
  fp_phase_yielded :: nat

datatype pressure_action = ForcedSeal nat | SpilledOut nat | Rejecting

record 'b chunk_flush_input =
  fi_id :: "nat option"
  fi_shard :: shard_id
  fi_epoch :: nat
  fi_schema_version :: nat
  fi_schema :: schema
  fi_batches :: "'b list"
  fi_seqs :: "nat list"
  fi_wal_seq_range :: "nat \<times> nat"
  fi_rows :: nat
  fi_sealed_at_ms :: nat
  fi_seal_reason :: "seal_reason option"
  fi_pressure_at_seal :: "pressure option"

record 'b chunk_store =
  cs_config :: chunk_store_config
  cs_ledger :: ledger
  cs_version :: nat
  cs_next_id :: nat
  cs_wal_segment :: nat
  cs_phase_yielded :: nat
  cs_released_watermark :: nat
  cs_liveness :: "(string, table_liveness) bmap"
  cs_open :: "(chunk_key, nat) bmap"
  cs_chunks :: "(nat, 'b chunk) bmap"
  cs_pending_seal :: "(nat, seal_reason \<times> pressure option) bmap"
  cs_spills :: spill_dir

definition is_spill_name :: "string \<Rightarrow> bool" where
  "is_spill_name n \<longleftrightarrow> (\<exists>suffix \<in> {''.ipc.lz4'', ''.ipc.lz4.tmp''}.
     length suffix \<le> length n \<and> drop (length n - length suffix) n = suffix)"

definition purge_leftover_spills :: "spill_dir \<Rightarrow> nat \<times> spill_dir" where
  "purge_leftover_spills dir =
     (length (filter is_spill_name (bm_keys dir)), bm_filter (\<lambda>n _. \<not> is_spill_name n) dir)"

definition store_new :: "chunk_store_config \<Rightarrow> ledger \<Rightarrow> spill_dir \<Rightarrow> 'b chunk_store" where
  "store_new cfg lg dir =
     \<lparr>cs_config = cfg, cs_ledger = lg, cs_version = 0, cs_next_id = 0, cs_wal_segment = 0,
      cs_phase_yielded = 0, cs_released_watermark = 0, cs_liveness = bm_empty, cs_open = bm_empty,
      cs_chunks = bm_empty, cs_pending_seal = bm_empty, cs_spills = snd (purge_leftover_spills dir)\<rparr>"

definition store_pressure :: "'b chunk_store \<Rightarrow> pressure" where
  "store_pressure s = ledger_pressure (cs_ledger s)"

abbreviation bump_version :: "'b chunk_store \<Rightarrow> 'b chunk_store" where
  "bump_version s \<equiv> s\<lparr>cs_version := cs_version s + 1\<rparr>"

definition set_wal_segment :: "nat \<Rightarrow> 'b chunk_store \<Rightarrow> 'b chunk_store" where
  "set_wal_segment seg s = s\<lparr>cs_wal_segment := seg\<rparr>"

text \<open>Run a method of chunk \<open>i\<close>; nothing happens when the chunk is gone.\<close>

definition on_chunk ::
  "nat \<Rightarrow> ('b chunk \<Rightarrow> (lake_error + unit) \<times> 'b chunk) \<Rightarrow> 'b chunk_store \<Rightarrow>
    (lake_error + unit) \<times> 'b chunk_store" where
  "on_chunk i m s =
     (case bm_get (cs_chunks s) i of
        None \<Rightarrow> (Inr (), s)
      | Some c \<Rightarrow> (case m c of (r, c1) \<Rightarrow> (r, s\<lparr>cs_chunks := bm_insert i c1 (cs_chunks s)\<rparr>)))"

definition close_open :: "chunk_key \<Rightarrow> nat \<Rightarrow> (chunk_key, nat) bmap \<Rightarrow> (chunk_key, nat) bmap" where
  "close_open key i m = (if bm_get m key = Some i then bm_remove key m else m)"

subsection \<open>Tables\<close>

definition store_liveness :: "string \<Rightarrow> 'b chunk_store \<Rightarrow> table_liveness" where
  "store_liveness table s =
     (case bm_get (cs_liveness s) table of Some l \<Rightarrow> l | None \<Rightarrow> liveness_default)"

definition observe_ddl :: "nat \<Rightarrow> string \<Rightarrow> 'b chunk_store \<Rightarrow> 'b chunk_store" where
  "observe_ddl op table s =
     (let l = store_liveness table s;
          put = (\<lambda>l. s\<lparr>cs_liveness := bm_insert table l (cs_liveness s)\<rparr>) in
      if op = DDL_CREATE_TABLE then bump_version (put (l\<lparr>tlv_exists := True, tlv_epoch := tlv_epoch l + 1\<rparr>))
      else if op = DDL_DROP_TABLE then bump_version (put (l\<lparr>tlv_exists := False\<rparr>))
      else put l)"

definition store_is_stale :: "string \<Rightarrow> nat \<Rightarrow> 'b chunk_store \<Rightarrow> bool" where
  "store_is_stale table epoch s =
     (let l = store_liveness table s in \<not> tlv_exists l \<or> tlv_epoch l \<noteq> epoch)"

subsection \<open>Seal and spill\<close>

definition should_seal :: "seal_policy \<Rightarrow> 'b chunk \<Rightarrow> nat \<Rightarrow> seal_reason option" where
  "should_seal p c now_ms =
     (if ck_rows c \<ge> pol_rows_threshold p then Some SealRows
      else if ck_bytes c \<ge> pol_bytes_threshold p then Some SealBytes
      else if now_ms \<ge> ck_window_end_ms c \<and> sat_sub now_ms (ck_created_at_ms c) \<ge> pol_min_resident p
      then Some SealWindowClosed
      else None)"

definition store_seal :: "nat \<Rightarrow> nat \<Rightarrow> 'b chunk_store \<Rightarrow> (lake_error + unit) \<times> 'b chunk_store" where
  "store_seal i now_ms s =
     (case bm_get (cs_chunks s) i of
        None \<Rightarrow> (Inr (), s)
      | Some c \<Rightarrow>
          let (reason, p) = (case bm_get (cs_pending_seal s) i of Some x \<Rightarrow> x | None \<Rightarrow> (SealManual, None));
              s1 = s\<lparr>cs_pending_seal := bm_remove i (cs_pending_seal s)\<rparr>
          in io_bind (if ck_state c = Open then on_chunk i (seal_tagged reason p now_ms) else io_return ())
               (\<lambda>_ s2. (Inr (), bump_version
                  (s2\<lparr>cs_open := close_open (ck_key c) i (cs_open s2)\<rparr>))) s1)"

definition spill_begin ::
  "nat \<Rightarrow> 'b chunk_store \<Rightarrow> lake_error + ('b chunk \<times> 'b list \<times> nat) option" where
  "spill_begin i s =
     (case bm_get (cs_chunks s) i of
        None \<Rightarrow> Inr None
      | Some c \<Rightarrow>
          if \<not> needs_spill c then Inr None
          else and_then (mem_batches c) (\<lambda>bs. Inr (Some (c, bs, cs_wal_segment s))))"

definition spill_finish ::
  "spill_handle \<Rightarrow> nat \<Rightarrow> nat \<Rightarrow> 'b chunk_store \<Rightarrow> (lake_error + unit) \<times> 'b chunk_store" where
  "spill_finish h freed i s =
     (if bm_get (cs_chunks s) i = None then (Inr (), s\<lparr>cs_spills := remove_spill h (cs_spills s)\<rparr>)
      else io_bind (on_chunk i (attach_spill h))
        (\<lambda>_ s1. (Inr (), bump_version (s1\<lparr>cs_ledger := ledger_release freed (cs_ledger s1)\<rparr>))) s)"

type_synonym spill_io = "bool \<times> string"

definition store_spill ::
  "'b chunk_tools \<Rightarrow> spill_io \<Rightarrow> nat \<Rightarrow> 'b chunk_store \<Rightarrow> (lake_error + unit) \<times> 'b chunk_store" where
  "store_spill kt io i s =
     (case spill_begin i s of
        Inl e \<Rightarrow> (Inl e, s)
      | Inr None \<Rightarrow> (Inr (), s)
      | Inr (Some (c, bs, seg)) \<Rightarrow>
          (case build_spill kt (fst io) (snd io) seg bs c (cs_spills s) of
             (Inl e, dir) \<Rightarrow> (Inl e, s\<lparr>cs_spills := dir\<rparr>)
           | (Inr h, dir) \<Rightarrow> spill_finish h (ck_bytes c) i (s\<lparr>cs_spills := dir\<rparr>)))"

definition oldest_spillable :: "'b chunk_store \<Rightarrow> nat option" where
  "oldest_spillable s = map_option ck_id (find needs_spill (bm_values (cs_chunks s)))"

definition relieve_once :: "'b chunk_tools \<Rightarrow> spill_io \<Rightarrow> 'b chunk_store \<Rightarrow> bool \<times> 'b chunk_store" where
  "relieve_once kt io s =
     (case oldest_spillable s of
        None \<Rightarrow> (False, s)
      | Some i \<Rightarrow> (case store_spill kt io i s of (r, s1) \<Rightarrow> (is_ok r, s1)))"

subsection \<open>Append\<close>

text \<open>A new version of the table's schema closes the open chunk.\<close>

definition roll_schema ::
  "chunk_key \<Rightarrow> nat \<Rightarrow> pressure \<Rightarrow> nat \<Rightarrow> 'b chunk_store \<Rightarrow>
    (lake_error + (nat \<times> seal_reason) option) \<times> 'b chunk_store" where
  "roll_schema key schema_version p now_ms s =
     (case bm_get (cs_open s) key of
        None \<Rightarrow> (Inr None, s)
      | Some prev \<Rightarrow>
          (case bm_get (cs_chunks s) prev of
             None \<Rightarrow> (Inr None, s)
           | Some c \<Rightarrow>
               if ck_schema_version c = schema_version then (Inr None, s)
               else io_bind (on_chunk prev (seal_tagged SealSchemaChanged (Some p) now_ms))
                 (\<lambda>_ s1. (Inr (Some (prev, SealSchemaChanged)), s1\<lparr>cs_open := bm_remove key (cs_open s1)\<rparr>)) s))"

definition open_for ::
  "chunk_key \<Rightarrow> nat \<Rightarrow> schema \<Rightarrow> nat \<Rightarrow> 'b chunk_store \<Rightarrow> (lake_error + nat) \<times> 'b chunk_store" where
  "open_for key schema_version sch now_ms s =
     (case bm_get (cs_open s) key of
        Some i \<Rightarrow> (Inr i, s)
      | None \<Rightarrow>
          let i = cs_next_id s + 1 in
          (Inr i, s\<lparr>cs_next_id := i,
             cs_chunks := bm_insert i (chunk_new i key schema_version sch now_ms) (cs_chunks s),
             cs_open := bm_insert key i (cs_open s)\<rparr>))"

fun append_all ::
  "'b chunk_tools \<Rightarrow> nat \<Rightarrow> 'b list \<Rightarrow> 'b chunk \<Rightarrow> (lake_error + unit) \<times> 'b chunk" where
  "append_all kt seq [] = io_return ()"
| "append_all kt seq (b # bs) = io_bind (chunk_append kt seq b) (\<lambda>_. append_all kt seq bs)"

definition append_batches ::
  "'b chunk_tools \<Rightarrow> nat \<Rightarrow> nat \<Rightarrow> 'b list \<Rightarrow> nat \<Rightarrow> 'b chunk_store \<Rightarrow>
    (lake_error + seal_reason option) \<times> 'b chunk_store" where
  "append_batches kt i seq batches now_ms s =
     (if bm_get (cs_chunks s) i = None then (Inl (Other ''chunk registry inconsistency''), s)
      else io_bind (on_chunk i (append_all kt seq batches))
        (\<lambda>_ s1. (Inr (case bm_get (cs_chunks s1) i of
                        None \<Rightarrow> None
                      | Some c \<Rightarrow> should_seal (csc_policy (cs_config s1)) c now_ms), s1)) s)"

definition seal_full ::
  "chunk_key \<Rightarrow> nat \<Rightarrow> seal_reason option \<Rightarrow> (nat \<times> seal_reason) option \<Rightarrow> pressure \<Rightarrow> nat \<Rightarrow>
    'b chunk_store \<Rightarrow> (lake_error + nat \<times> (nat \<times> seal_reason) option) \<times> 'b chunk_store" where
  "seal_full key i reason sealed p now_ms s =
     (case reason of
        None \<Rightarrow> (Inr (i, sealed), s)
      | Some reason \<Rightarrow> io_bind (on_chunk i (seal_tagged reason (Some p) now_ms))
          (\<lambda>_ s1. (Inr (i, Some (i, reason)), s1\<lparr>cs_open := bm_remove key (cs_open s1)\<rparr>)) s)"

text \<open>Account for the new data: when it does not fit, one chunk is spilled, and it is taken anyway.\<close>

definition account :: "'b chunk_tools \<Rightarrow> spill_io \<Rightarrow> nat \<Rightarrow> 'b chunk_store \<Rightarrow> 'b chunk_store" where
  "account kt io added s =
     (case try_reserve added (cs_ledger s) of
        (True, lg) \<Rightarrow> s\<lparr>cs_ledger := lg\<rparr>
      | (False, _) \<Rightarrow>
          let s1 = snd (relieve_once kt io s) in s1\<lparr>cs_ledger := ledger_reserve added (cs_ledger s1)\<rparr>)"

text \<open>The part of \<open>append\<close> under the lock.\<close>

definition append_locked ::
  "'b chunk_tools \<Rightarrow> chunk_key \<Rightarrow> nat \<Rightarrow> schema \<Rightarrow> nat \<Rightarrow> 'b list \<Rightarrow> pressure \<Rightarrow> nat \<Rightarrow>
    'b chunk_store \<Rightarrow> (lake_error + nat \<times> (nat \<times> seal_reason) option) \<times> 'b chunk_store" where
  "append_locked kt key schema_version sch seq batches p now_ms =
     io_bind (roll_schema key schema_version p now_ms) (\<lambda>sealed.
     io_bind (open_for key schema_version sch now_ms) (\<lambda>i.
     io_bind (append_batches kt i seq batches now_ms) (\<lambda>reason.
     seal_full key i reason sealed p now_ms)))"

definition store_append ::
  "'b chunk_tools \<Rightarrow> spill_io \<Rightarrow> chunk_key \<Rightarrow> nat \<Rightarrow> schema \<Rightarrow> nat \<Rightarrow> 'b list \<Rightarrow> nat \<Rightarrow>
    'b chunk_store \<Rightarrow> (lake_error + append_outcome) \<times> 'b chunk_store" where
  "store_append kt io key schema_version sch seq batches now_ms s =
     (if batches = [] then (Inl (Other ''chunk append: empty batch set''), s)
      else if rejects_writes (store_pressure s) then (Inl (ResourceExhausted ''chunk memory''), s)
      else io_bind (append_locked kt key schema_version sch seq batches (store_pressure s) now_ms)
        (\<lambda>(i, sealed) s1.
          let s2 = bump_version (account kt io (batches_memory kt batches) s1) in
          (Inr \<lparr>ao_chunk_id = i, ao_sealed = sealed, ao_pressure = store_pressure s2\<rparr>, s2)) s)"

subsection \<open>Back pressure\<close>

definition force_seal :: "pressure \<Rightarrow> nat \<Rightarrow> nat \<Rightarrow> 'b chunk_store \<Rightarrow> bool \<times> 'b chunk_store" where
  "force_seal p now_ms i s =
     (case store_seal i now_ms
         (s\<lparr>cs_pending_seal := bm_insert i (SealPressure, Some p) (cs_pending_seal s)\<rparr>) of
        (r, s1) \<Rightarrow> (is_ok r, s1))"

fun force_seal_all ::
  "pressure \<Rightarrow> nat \<Rightarrow> nat list \<Rightarrow> 'b chunk_store \<Rightarrow> pressure_action list \<times> 'b chunk_store" where
  "force_seal_all p now_ms [] s = ([], s)"
| "force_seal_all p now_ms (i # is) s =
     (case force_seal p now_ms i s of (ok, s1) \<Rightarrow>
        (case force_seal_all p now_ms is s1 of (acts, s2) \<Rightarrow>
           (if ok then ForcedSeal i # acts else acts, s2)))"

text \<open>At most 64 rounds; \<open>io n\<close> is the disk in the round with \<open>n\<close> rounds to go.\<close>

fun spill_rounds ::
  "'b chunk_tools \<Rightarrow> (nat \<Rightarrow> spill_io) \<Rightarrow> nat \<Rightarrow> 'b chunk_store \<Rightarrow>
    pressure_action list \<times> 'b chunk_store" where
  "spill_rounds kt io 0 s = ([], s)"
| "spill_rounds kt io (Suc n) s =
     (if \<not> needs_spill_level (store_pressure s) then ([], s)
      else
        case oldest_spillable s of
          None \<Rightarrow> ([], s)
        | Some i \<Rightarrow>
            (case store_spill kt (io n) i s of
               (Inl _, s1) \<Rightarrow> ([], s1)
             | (Inr _, s1) \<Rightarrow>
                 (case spill_rounds kt io n s1 of (acts, s2) \<Rightarrow> (SpilledOut i # acts, s2))))"

definition enforce_pressure ::
  "'b chunk_tools \<Rightarrow> (nat \<Rightarrow> spill_io) \<Rightarrow> nat \<Rightarrow> 'b chunk_store \<Rightarrow>
    pressure_action list \<times> 'b chunk_store" where
  "enforce_pressure kt io now_ms s =
     (let p = store_pressure s in
      if \<not> needs_spill_level p then ([], s)
      else
        (case (if needs_force_seal p then force_seal_all p now_ms (bm_values (cs_open s)) s else ([], s)) of
           (acts1, s1) \<Rightarrow>
             (case spill_rounds kt io 64 s1 of
                (acts2, s2) \<Rightarrow>
                  (acts1 @ acts2 @ (if rejects_writes (store_pressure s2) then [Rejecting] else []), s2))))"

subsection \<open>The plan of a round\<close>

fun fnv1a_bytes :: "string \<Rightarrow> 64 word \<Rightarrow> 64 word" where
  "fnv1a_bytes [] h = h"
| "fnv1a_bytes (c # cs) h = fnv1a_bytes cs (xor h (of_nat (of_char c)) * 0x100000001b3)"

fun fnv1a_parts :: "string list \<Rightarrow> 64 word \<Rightarrow> 64 word" where
  "fnv1a_parts [] h = h"
| "fnv1a_parts (p # ps) h = fnv1a_parts ps (xor (fnv1a_bytes p h) 0xff * 0x100000001b3)"

definition fnv1a_join :: "string list \<Rightarrow> 64 word" where
  "fnv1a_join parts = fnv1a_parts parts 0xcbf29ce484222325"

definition phase_offset_ms :: "chunk_store_config \<Rightarrow> chunk_key \<Rightarrow> nat" where
  "phase_offset_ms cfg key =
     (let spread = pol_phase_spread (csc_policy cfg) in
      if spread = 0 then 0
      else unat (fnv1a_join [csc_instance_id cfg, cky_table key, sid_shard (cky_shard key),
             sid_window (cky_shard key)]) mod spread)"

definition flush_due_at :: "chunk_store_config \<Rightarrow> 'b chunk \<Rightarrow> nat" where
  "flush_due_at cfg c =
     (case ck_sealed_at_ms c of
        Some sealed \<Rightarrow> sealed + pol_max_flush_delay (csc_policy cfg) + phase_offset_ms cfg (ck_key c)
      | None \<Rightarrow> u64_max)"

definition open_too_long :: "chunk_store_config \<Rightarrow> nat \<Rightarrow> 'b chunk \<Rightarrow> bool" where
  "open_too_long cfg now_ms c \<longleftrightarrow>
     sat_sub now_ms (ck_created_at_ms c) \<ge> pol_max_resident (csc_policy cfg)"

definition sealed_too_long :: "chunk_store_config \<Rightarrow> nat \<Rightarrow> 'b chunk \<Rightarrow> bool" where
  "sealed_too_long cfg now_ms c \<longleftrightarrow>
     (case ck_sealed_at_ms c of
        None \<Rightarrow> False | Some t \<Rightarrow> sat_sub now_ms t \<ge> pol_max_resident (csc_policy cfg))"

definition seal_due :: "chunk_store_config \<Rightarrow> nat \<Rightarrow> 'b chunk \<Rightarrow> bool" where
  "seal_due cfg now_ms c \<longleftrightarrow>
     ck_state c = Open \<and> (open_too_long cfg now_ms c \<or> should_seal (csc_policy cfg) c now_ms \<noteq> None)"

definition plan_yields :: "chunk_store_config \<Rightarrow> pressure \<Rightarrow> nat \<Rightarrow> 'b chunk \<Rightarrow> bool" where
  "plan_yields cfg p now_ms c \<longleftrightarrow>
     p \<noteq> Normal \<and> ck_state c \<in> {Sealed, Spilled} \<and> \<not> now_ms \<ge> flush_due_at cfg c"

definition flush_due :: "chunk_store_config \<Rightarrow> pressure \<Rightarrow> nat \<Rightarrow> 'b chunk \<Rightarrow> bool" where
  "flush_due cfg p now_ms c \<longleftrightarrow>
     (ck_state c \<in> {Sealed, Spilled} \<or> seal_due cfg now_ms c) \<and> \<not> in_backoff c now_ms \<and>
     (open_too_long cfg now_ms c \<or> sealed_too_long cfg now_ms c \<or> now_ms \<ge> flush_due_at cfg c \<or>
      plan_yields cfg p now_ms c)"

definition plan_flush :: "nat \<Rightarrow> 'b chunk_store \<Rightarrow> flush_plan \<times> 'b chunk_store" where
  "plan_flush now_ms s =
     (let cfg = cs_config s;
          p = store_pressure s;
          live = filter (\<lambda>c. ck_state c \<notin> {Flushed, Released}) (bm_values (cs_chunks s));
          seals = filter (seal_due cfg now_ms) live;
          flushes = filter (flush_due cfg p now_ms) live;
          yielded = length (filter (plan_yields cfg p now_ms) flushes);
          pending = map (\<lambda>c. (ck_id c,
            (case should_seal (csc_policy cfg) c now_ms of Some r \<Rightarrow> r | None \<Rightarrow> SealResidentCap, Some p))) seals
      in (\<lparr>fp_seal = map ck_id seals, fp_spill = [], fp_flush = map ck_id flushes,
           fp_phase_yielded = yielded\<rparr>,
          s\<lparr>cs_phase_yielded := cs_phase_yielded s + yielded,
            cs_pending_seal := bm_insert_all pending (cs_pending_seal s)\<rparr>))"

subsection \<open>Flush\<close>

definition flush_input :: "'b chunk_tools \<Rightarrow> nat \<Rightarrow> 'b chunk_store \<Rightarrow> lake_error + 'b chunk_flush_input option" where
  "flush_input kt i s =
     (case bm_get (cs_chunks s) i of
        None \<Rightarrow> Inr None
      | Some c \<Rightarrow>
          if ck_state c \<notin> {Sealed, Spilled} then Inr None
          else and_then (chunk_read kt c (cs_spills s)) (\<lambda>batches. Inr (Some
            \<lparr>fi_id = Some (ck_id c), fi_shard = cky_shard (ck_key c), fi_epoch = cky_epoch (ck_key c),
             fi_schema_version = ck_schema_version c, fi_schema = ck_schema c, fi_batches = batches,
             fi_seqs = ck_seqs c, fi_wal_seq_range = ck_wal_seq_range c, fi_rows = ck_rows c,
             fi_sealed_at_ms = (case ck_sealed_at_ms c of Some t \<Rightarrow> t | None \<Rightarrow> ck_created_at_ms c),
             fi_seal_reason = ck_seal_reason c, fi_pressure_at_seal = ck_pressure_at_seal c\<rparr>)))"

definition note_batch_id :: "nat \<Rightarrow> string \<Rightarrow> 'b chunk_store \<Rightarrow> 'b chunk_store" where
  "note_batch_id i batch_id s =
     snd (on_chunk i (\<lambda>c. (Inr (), c\<lparr>ck_batch_id := Some batch_id\<rparr>)) s)"

definition store_mark_committed ::
  "nat \<Rightarrow> nat \<Rightarrow> 'b chunk_store \<Rightarrow> (lake_error + unit) \<times> 'b chunk_store" where
  "store_mark_committed i snapshot s =
     (if bm_get (cs_chunks s) i = None then (Inr (), s)
      else io_bind (on_chunk i (chunk_mark_committed snapshot)) (\<lambda>_ s1. (Inr (), bump_version s1)) s)"

definition store_note_flush_failure :: "nat \<Rightarrow> nat \<Rightarrow> 'b chunk_store \<Rightarrow> 'b chunk_store" where
  "store_note_flush_failure i now_ms s =
     snd (on_chunk i (\<lambda>c. (Inr (), chunk_note_flush_failure now_ms c)) s)"

definition mem_bytes_of :: "'b chunk \<Rightarrow> nat" where
  "mem_bytes_of c = (if is_in_memory c then ck_bytes c else 0)"

definition discard_chunk :: "nat \<Rightarrow> 'b chunk_store \<Rightarrow> bool \<times> 'b chunk_store" where
  "discard_chunk i s =
     (case bm_get (cs_chunks s) i of
        None \<Rightarrow> (False, s)
      | Some c \<Rightarrow> (True, bump_version (s\<lparr>
          cs_chunks := bm_remove i (cs_chunks s),
          cs_open := close_open (ck_key c) i (cs_open s),
          cs_spills := (case ck_data c of OnDisk h \<Rightarrow> remove_spill h (cs_spills s) | InMemory _ \<Rightarrow> cs_spills s),
          cs_ledger := ledger_release (mem_bytes_of c) (cs_ledger s)\<rparr>)))"

definition chunk_is_stale :: "'b chunk_store \<Rightarrow> 'b chunk \<Rightarrow> bool" where
  "chunk_is_stale s c = store_is_stale (cky_table (ck_key c)) (cky_epoch (ck_key c)) s"

definition chunk_caught_up :: "nat \<Rightarrow> 'b chunk \<Rightarrow> bool" where
  "chunk_caught_up cached_snapshot c \<longleftrightarrow>
     (case ck_committed_snapshot c of None \<Rightarrow> False | Some t \<Rightarrow> cached_snapshot \<ge> t) \<and> ck_state c = Flushed"

definition reclaim :: "nat \<Rightarrow> 'b chunk_store \<Rightarrow> nat \<times> 'b chunk_store" where
  "reclaim cached_snapshot s =
     (let goes = (\<lambda>c. chunk_is_stale s c \<or> chunk_caught_up cached_snapshot c);
          dropped = filter goes (bm_values (cs_chunks s));
          released = filter (\<lambda>c. \<not> chunk_is_stale s c) dropped;
          freed = sum_list (map mem_bytes_of dropped);
          s1 = s\<lparr>
            cs_released_watermark := fold (\<lambda>c m. max m (case ck_committed_snapshot c of Some t \<Rightarrow> t | None \<Rightarrow> 0))
              released (cs_released_watermark s),
            cs_chunks := fold (\<lambda>c m. bm_remove (ck_id c) m) dropped (cs_chunks s),
            cs_open := fold (\<lambda>c m. close_open (ck_key c) (ck_id c) m) dropped (cs_open s),
            cs_ledger := ledger_release freed (cs_ledger s)\<rparr>
      in (freed, if dropped = [] then s1 else bump_version s1))"

subsection \<open>The read side\<close>

record 'b shard_read =
  sr_batches :: "'b list"
  sr_flushed_watermark :: nat
  sr_stale :: bool

definition visible_chunks_excluding ::
  "string option \<Rightarrow> nat \<Rightarrow> string list \<Rightarrow> 'b chunk_store \<Rightarrow> 'b chunk list" where
  "visible_chunks_excluding table cached_snapshot exclude s =
     filter (\<lambda>c. chunk_visible c cached_snapshot)
       (filter (\<lambda>c. \<not> (case ck_batch_id c of None \<Rightarrow> False | Some b \<Rightarrow> b \<in> set exclude))
         (filter (\<lambda>c. \<not> chunk_is_stale s c)
           (filter (\<lambda>c. case table of None \<Rightarrow> True | Some t \<Rightarrow> cky_table (ck_key c) = t)
             (bm_values (cs_chunks s)))))"

text \<open>A chunk that cannot be read back is skipped with a warning.\<close>

definition readable_batches :: "'b chunk_tools \<Rightarrow> spill_dir \<Rightarrow> 'b chunk \<Rightarrow> 'b list" where
  "readable_batches kt dir c = (case chunk_read kt c dir of Inl _ \<Rightarrow> [] | Inr b \<Rightarrow> b)"

definition read_table_excluding_sync ::
  "'b chunk_tools \<Rightarrow> string \<Rightarrow> nat \<Rightarrow> string list \<Rightarrow> 'b chunk_store \<Rightarrow> 'b list" where
  "read_table_excluding_sync kt table cached_snapshot exclude s =
     concat (map (readable_batches kt (cs_spills s))
       (visible_chunks_excluding (Some table) cached_snapshot exclude s))"

definition shard_read_empty :: "nat \<Rightarrow> nat \<Rightarrow> 'b shard_read" where
  "shard_read_empty watermark known =
     \<lparr>sr_batches = [], sr_flushed_watermark = watermark, sr_stale = watermark > known\<rparr>"

definition store_watermark :: "nat \<Rightarrow> 'b chunk_store \<Rightarrow> 'b shard_read" where
  "store_watermark known s = shard_read_empty (cs_released_watermark s) known"

definition shards_of :: "string \<Rightarrow> 'b chunk_store \<Rightarrow> shard_id list" where
  "shards_of table s =
     bm_keys (bset_of (map (\<lambda>c. cky_shard (ck_key c))
       (filter (\<lambda>c. \<not> chunk_is_stale s c)
         (filter (\<lambda>c. cky_table (ck_key c) = table) (bm_values (cs_chunks s))))))"

definition shard_chunks :: "shard_id \<Rightarrow> nat \<Rightarrow> string list \<Rightarrow> 'b chunk_store \<Rightarrow> 'b chunk list" where
  "shard_chunks sid known exclude s =
     filter (\<lambda>c. cky_shard (ck_key c) = sid) (visible_chunks_excluding (Some (sid_table sid)) known exclude s)"

text \<open>
  A read takes the list of chunks and the watermark at two moments, \<open>s\<close> and then \<open>s'\<close>: a shard is listed before
  its watermark is taken, a table after. The files of the listed chunks are read when they are listed.
\<close>

definition read_shard_excluding ::
  "'b chunk_tools \<Rightarrow> shard_id \<Rightarrow> nat \<Rightarrow> string list \<Rightarrow> 'b chunk_store \<Rightarrow> 'b chunk_store \<Rightarrow> 'b shard_read" where
  "read_shard_excluding kt sid known exclude s s' =
     \<lparr>sr_batches = concat (map (readable_batches kt (cs_spills s)) (shard_chunks sid known exclude s)),
      sr_flushed_watermark = cs_released_watermark s',
      sr_stale = cs_released_watermark s' > known\<rparr>"

definition read_table_excluding ::
  "'b chunk_tools \<Rightarrow> string \<Rightarrow> nat \<Rightarrow> string list \<Rightarrow> 'b chunk_store \<Rightarrow> 'b chunk_store \<Rightarrow> 'b shard_read" where
  "read_table_excluding kt table known exclude s s' =
     \<lparr>sr_batches = read_table_excluding_sync kt table known exclude s',
      sr_flushed_watermark = cs_released_watermark s,
      sr_stale = cs_released_watermark s > known\<rparr>"

definition chunk_ids_of_table :: "string \<Rightarrow> 'b chunk_store \<Rightarrow> nat list" where
  "chunk_ids_of_table table s =
     map ck_id (filter (\<lambda>c. sid_table (cky_shard (ck_key c)) = table) (bm_values (cs_chunks s)))"

definition chunk_ids_of :: "chunk_key \<Rightarrow> 'b chunk_store \<Rightarrow> nat list" where
  "chunk_ids_of key s = map ck_id (filter (\<lambda>c. ck_key c = key) (bm_values (cs_chunks s)))"

definition chunk_state_of :: "nat \<Rightarrow> 'b chunk_store \<Rightarrow> chunk_state option" where
  "chunk_state_of i s = map_option ck_state (bm_get (cs_chunks s) i)"

record chunk_store_stats =
  css_chunks :: nat
  css_open :: nat
  css_sealed :: nat
  css_spilled :: nat
  css_flushed :: nat
  css_resident_bytes :: nat
  css_ledger_limit :: nat
  css_pressure :: pressure
  css_phase_yielded_flushes :: nat

definition store_stats :: "'b chunk_store \<Rightarrow> chunk_store_stats" where
  "store_stats s =
     (let count = (\<lambda>st. length (filter (\<lambda>c. ck_state c = st) (bm_values (cs_chunks s)))) in
      \<lparr>css_chunks = bm_size (cs_chunks s), css_open = count Open, css_sealed = count Sealed,
       css_spilled = count Spilled, css_flushed = count Flushed,
       css_resident_bytes = unat (lg_used (cs_ledger s)), css_ledger_limit = unat (lg_limit (cs_ledger s)),
       css_pressure = store_pressure s, css_phase_yielded_flushes = cs_phase_yielded s\<rparr>)"

end
