(* ===== verification/Chunk_Invariant.thy ===== *)
theory Chunk_Invariant
  imports Chunk_Store
begin

text \<open>
  The invariant of the chunk store. A chunk holds the batches that its counters account for and can be
  read; at most one chunk of a key is open, and it is the registered one; the ledger counts the bytes of
  the chunks in memory. Spills run in two halves with other steps in between: the handles of files
  written and not yet attached are part of the state of \<open>chunk_step\<close>.
\<close>

subsection \<open>Sums over an ordered map\<close>

lemma sum_list_bm_values:
  "sum_list (map f (bm_values m)) = (\<Sum>k \<in> set (bm_keys m). f (the (bm_get m k)))"
  for f :: "'v \<Rightarrow> nat"
proof -
  have d: "distinct (bm_keys m)" by (rule bm.keys_distinct)
  have "map f (bm_values m) = map (\<lambda>k. f (the (bm_get m k))) (bm_keys m)"
    unfolding bm_values_def bm_keys_def map_map
    by (intro map_cong) (auto simp: bm_entries_get)
  then show ?thesis by (simp add: sum_list_distinct_conv_sum_set d)
qed

lemma finite_bm_keys: "finite (set (bm_keys m))"
  by simp

lemma bm_keys_insert: "set (bm_keys (bm_insert k v m)) = insert k (set (bm_keys m))"
  by (auto simp: bm_keys_iff bm_simps split: if_splits)

lemma bm_keys_remove: "set (bm_keys (bm_remove k m)) = set (bm_keys m) - {k}"
  by (auto simp: bm_keys_iff bm_simps split: if_splits)

lemma sum_bm_remove:
  fixes f :: "'v \<Rightarrow> nat"
  assumes "bm_get m k = Some v"
  shows "sum_list (map f (bm_values m)) = f v + sum_list (map f (bm_values (bm_remove k m)))"
proof -
  have "k \<in> set (bm_keys m)" using assms by (simp add: bm_keys_iff)
  then have "sum_list (map f (bm_values m)) =
      f v + (\<Sum>j \<in> set (bm_keys m) - {k}. f (the (bm_get m j)))"
    using assms by (simp add: sum_list_bm_values sum.remove)
  also have "(\<Sum>j \<in> set (bm_keys m) - {k}. f (the (bm_get m j))) =
      (\<Sum>j \<in> set (bm_keys m) - {k}. f (the (bm_get (bm_remove k m) j)))"
    by (rule sum.cong) (auto simp: bm_simps)
  finally show ?thesis by (simp add: sum_list_bm_values bm_keys_remove)
qed

lemma sum_bm_insert:
  fixes f :: "'v \<Rightarrow> nat"
  assumes "bm_get m k = None"
  shows "sum_list (map f (bm_values (bm_insert k v m))) = f v + sum_list (map f (bm_values m))"
proof -
  have "bm_remove k (bm_insert k v m) = m" by (rule bm.del_ins [OF assms])
  then show ?thesis using sum_bm_remove [of "bm_insert k v m" k v f] by (simp add: bm_simps)
qed

lemma sum_bm_update:
  fixes f :: "'v \<Rightarrow> nat"
  assumes "bm_get m k = Some v"
  shows "f v + sum_list (map f (bm_values (bm_insert k v' m))) = f v' + sum_list (map f (bm_values m))"
proof -
  have "bm_remove k (bm_insert k v' m) = bm_remove k m"
    by (rule bm_eqI) (simp add: bm_simps)
  then show ?thesis
    using sum_bm_remove [OF assms, of f] sum_bm_remove [of "bm_insert k v' m" k v' f] by (simp add: bm_simps)
qed

subsection \<open>The invariant\<close>

text \<open>The batches of a chunk, and that its counters describe them.\<close>

definition chunk_holds :: "'b chunk_tools \<Rightarrow> spill_dir \<Rightarrow> 'b chunk \<Rightarrow> bool" where
  "chunk_holds kt dir c \<longleftrightarrow>
     (\<exists>bs. chunk_read kt c dir = Inr bs \<and> ck_rows c = batches_rows kt bs \<and>
        ck_bytes c = batches_memory kt bs \<and> (\<forall>b \<in> set bs. kt_schema kt b = ck_schema c))"

definition chunk_ok :: "'b chunk \<Rightarrow> bool" where
  "chunk_ok c \<longleftrightarrow>
     (ck_state c \<in> {Open, Sealed} \<longrightarrow> is_in_memory c) \<and>
     (ck_state c = Spilled \<longrightarrow> \<not> is_in_memory c) \<and> ck_state c \<noteq> Released \<and>
     (\<forall>q \<in> set (ck_seqs c). fst (ck_wal_seq_range c) \<le> q \<and> q < snd (ck_wal_seq_range c)) \<and>
     (ck_state c = Flushed \<longleftrightarrow> ck_committed_snapshot c \<noteq> None) \<and>
     (ck_state c \<noteq> Open \<longrightarrow> ck_sealed_at_ms c \<noteq> None)"

definition on_disk :: "'b chunk \<Rightarrow> string option" where
  "on_disk c = (case ck_data c of OnDisk h \<Rightarrow> Some (sp_path h) | InMemory _ \<Rightarrow> None)"

text \<open>A spill in progress: the handle, the bytes to give back to the ledger, the chunk.\<close>

type_synonym pending_spill = "spill_handle \<times> nat \<times> nat"

definition pending_paths :: "pending_spill list \<Rightarrow> string list" where
  "pending_paths ps = map (\<lambda>(h, _). sp_path h) ps"

definition pending_ok ::
  "'b chunk_tools \<Rightarrow> (nat, 'b chunk) bmap \<Rightarrow> nat \<Rightarrow> spill_dir \<Rightarrow> pending_spill \<Rightarrow> bool" where
  "pending_ok kt chunks next dir p \<longleftrightarrow>
     (case p of (h, n, i) \<Rightarrow> i \<le> next \<and>
        (\<forall>c. bm_get chunks i = Some c \<longrightarrow> ck_state c \<noteq> Open \<and>
          (ck_state c = Sealed \<longrightarrow> n = ck_bytes c \<and>
             read_spill kt h dir = (case ck_data c of InMemory bs \<Rightarrow> Inr bs | OnDisk _ \<Rightarrow> Inl (Io [])))))"

definition chunks_inv ::
  "'b chunk_tools \<Rightarrow> (nat, 'b chunk) bmap \<Rightarrow> (chunk_key, nat) bmap \<Rightarrow> nat \<Rightarrow> usize \<Rightarrow> spill_dir \<Rightarrow>
    pending_spill list \<Rightarrow> bool" where
  "chunks_inv kt chunks opens next used dir ps \<longleftrightarrow>
     (\<forall>i c. bm_get chunks i = Some c \<longrightarrow> ck_id c = i \<and> i \<le> next \<and> chunk_ok c \<and> chunk_holds kt dir c) \<and>
     (\<forall>k i. bm_get opens k = Some i \<longleftrightarrow>
        (\<exists>c. bm_get chunks i = Some c \<and> ck_key c = k \<and> ck_state c = Open)) \<and>
     used = of_nat (sum_list (map mem_bytes_of (bm_values chunks))) \<and>
     (\<forall>i j c d p. bm_get chunks i = Some c \<and> bm_get chunks j = Some d \<and> on_disk c = Some p \<and>
        on_disk d = Some p \<longrightarrow> i = j) \<and>
     distinct (pending_paths ps) \<and>
     (\<forall>p \<in> set (pending_paths ps). bm_has dir p \<and>
        (\<forall>i c. bm_get chunks i = Some c \<longrightarrow> on_disk c \<noteq> Some p)) \<and>
     (\<forall>p \<in> set ps. pending_ok kt chunks next dir p)"

definition store_inv :: "'b chunk_tools \<Rightarrow> 'b chunk_store \<times> pending_spill list \<Rightarrow> bool" where
  "store_inv kt sp \<longleftrightarrow>
     chunks_inv kt (cs_chunks (fst sp)) (cs_open (fst sp)) (cs_next_id (fst sp)) (lg_used (cs_ledger (fst sp)))
       (cs_spills (fst sp)) (snd sp)"

lemma chunks_inv_chunk:
  "chunks_inv kt chunks opens next used dir ps \<Longrightarrow> bm_get chunks i = Some c \<Longrightarrow>
    ck_id c = i \<and> i \<le> next \<and> chunk_ok c \<and> chunk_holds kt dir c"
  by (simp add: chunks_inv_def)

lemma chunks_inv_open:
  "chunks_inv kt chunks opens next used dir ps \<Longrightarrow>
    bm_get opens k = Some i \<longleftrightarrow> (\<exists>c. bm_get chunks i = Some c \<and> ck_key c = k \<and> ck_state c = Open)"
  by (simp add: chunks_inv_def)

lemma chunks_inv_pending:
  "chunks_inv kt chunks opens next used dir ps \<Longrightarrow> (h, n, i) \<in> set ps \<Longrightarrow>
    i \<le> next \<and> bm_has dir (sp_path h) \<and> (\<forall>j c. bm_get chunks j = Some c \<longrightarrow> on_disk c \<noteq> Some (sp_path h)) \<and>
    pending_ok kt chunks next dir (h, n, i)"
  by (force simp: chunks_inv_def pending_paths_def pending_ok_def)

lemma chunk_read_cong:
  "on_disk c = None \<or> (\<exists>p. on_disk c = Some p \<and> bm_get dir p = bm_get dir' p) \<Longrightarrow>
    chunk_read kt c dir = chunk_read kt c dir'"
  by (auto simp: chunk_read_def on_disk_def read_spill_def split: chunk_data.splits)

lemma chunk_holds_on_disk: "chunk_holds kt dir c \<Longrightarrow> on_disk c = Some p \<Longrightarrow> bm_has dir p"
  by (auto simp: chunk_holds_def chunk_read_def on_disk_def read_spill_def bm_has_def
      split: chunk_data.splits option.splits)

lemma mem_bytes_of_on_disk: "mem_bytes_of c = (if on_disk c = None then ck_bytes c else 0)"
  by (simp add: mem_bytes_of_def on_disk_def is_in_memory_def split: chunk_data.splits)

subsection \<open>Changing one chunk\<close>

text \<open>The chunk keeps its key and is never reopened; the table of open chunks and the ledger follow.\<close>

lemma chunks_inv_put:
  assumes inv: "chunks_inv kt chunks opens next used dir ps" and c: "bm_get chunks i = Some c"
    and c': "ck_id c' = i" "chunk_ok c'" "chunk_holds kt dir c'"
    and key: "ck_key c' = ck_key c" "ck_state c' = Open \<longrightarrow> ck_state c = Open"
    and opens': "opens' = (if ck_state c = Open \<and> ck_state c' \<noteq> Open then bm_remove (ck_key c) opens else opens)"
    and used': "used' = used + of_nat (mem_bytes_of c') - of_nat (mem_bytes_of c)"
    and disk: "on_disk c' \<noteq> None \<longrightarrow> on_disk c' = on_disk c"
    and pend: "\<forall>(h, n, j) \<in> set ps. j = i \<and> ck_state c' = Sealed \<longrightarrow> ck_state c = Sealed \<and>
        ck_bytes c' = ck_bytes c \<and> ck_data c' = ck_data c"
  shows "chunks_inv kt (bm_insert i c' chunks) opens' next used' dir ps"
proof -
  have sum: "used' = of_nat (sum_list (map mem_bytes_of (bm_values (bm_insert i c' chunks))))"
  proof -
    have "(of_nat (mem_bytes_of c + sum_list (map mem_bytes_of (bm_values (bm_insert i c' chunks)))) :: usize) =
        of_nat (mem_bytes_of c' + sum_list (map mem_bytes_of (bm_values chunks)))"
      using sum_bm_update [OF c, of mem_bytes_of c'] by (rule arg_cong)
    moreover have "used = of_nat (sum_list (map mem_bytes_of (bm_values chunks)))"
      using inv by (simp add: chunks_inv_def)
    ultimately have "used' + of_nat (mem_bytes_of c) =
        of_nat (sum_list (map mem_bytes_of (bm_values (bm_insert i c' chunks)))) + of_nat (mem_bytes_of c)"
      using used' by (simp add: ac_simps)
    then show ?thesis by simp
  qed
  have opn: "bm_get opens' k = Some j \<longleftrightarrow>
      (\<exists>d. bm_get (bm_insert i c' chunks) j = Some d \<and> ck_key d = k \<and> ck_state d = Open)" for k j
  proof -
    have o: "bm_get opens k = Some j \<longleftrightarrow>
        (\<exists>d. bm_get chunks j = Some d \<and> ck_key d = k \<and> ck_state d = Open)" for k j
      by (rule chunks_inv_open [OF inv])
    have "bm_get opens (ck_key c) = Some i" if "ck_state c = Open" using o c that by blast
    then show ?thesis using o [of k j] c key opens' by (auto simp: bm_simps)
  qed
  have pok: "pending_ok kt (bm_insert i c' chunks) next dir p" if "p \<in> set ps" for p
  proof -
    obtain h n j where p: "p = (h, n, j)" by (cases p)
    have "pending_ok kt chunks next dir (h, n, j)" using inv that p by (auto simp: chunks_inv_def)
    with pend that p c key show ?thesis
      by (fastforce simp: pending_ok_def bm_simps)
  qed
  show ?thesis
    unfolding chunks_inv_def
  proof (intro conjI allI impI ballI)
    show "used' = of_nat (sum_list (map mem_bytes_of (bm_values (bm_insert i c' chunks))))" by (rule sum)
    show "bm_get opens' k = Some j \<longleftrightarrow>
      (\<exists>d. bm_get (bm_insert i c' chunks) j = Some d \<and> ck_key d = k \<and> ck_state d = Open)" for k j
      by (rule opn)
    show "pending_ok kt (bm_insert i c' chunks) next dir p" if "p \<in> set ps" for p by (rule pok [OF that])
    show "distinct (pending_paths ps)" using inv by (simp add: chunks_inv_def)
    show "bm_has dir p" if "p \<in> set (pending_paths ps)" for p using inv that by (simp add: chunks_inv_def)
    show "on_disk d \<noteq> Some p"
      if "p \<in> set (pending_paths ps)" "bm_get (bm_insert i c' chunks) j = Some d" for p j d
      using inv that disk c by (auto simp: chunks_inv_def bm_simps split: if_splits)
    show "j = k" if "bm_get (bm_insert i c' chunks) j = Some d \<and> bm_get (bm_insert i c' chunks) k = Some e \<and>
      on_disk d = Some p \<and> on_disk e = Some p" for j k d e p
    proof -
      have "\<exists>d0. bm_get chunks j = Some d0 \<and> on_disk d0 = Some p" "\<exists>e0. bm_get chunks k = Some e0 \<and> on_disk e0 = Some p"
        using that disk c by (auto simp: bm_simps split: if_splits)
      then show ?thesis using inv unfolding chunks_inv_def by blast
    qed
  qed (use inv c c' in \<open>auto simp: chunks_inv_def bm_simps split: if_splits\<close>)
qed

subsection \<open>Adding and removing chunks\<close>

lemma chunks_inv_new:
  assumes inv: "chunks_inv kt chunks opens next used dir ps" and none: "bm_get opens key = None"
    and c: "c = chunk_new (Suc next) key v sch now"
  shows "chunks_inv kt (bm_insert (Suc next) c chunks) (bm_insert key (Suc next) opens) (Suc next) used dir ps"
proof -
  have fresh: "bm_get chunks (Suc next) = None"
    using chunks_inv_chunk [OF inv, of "Suc next"] by (cases "bm_get chunks (Suc next)") auto
  have c': "ck_id c = Suc next" "chunk_ok c" "chunk_holds kt dir c" "on_disk c = None" "mem_bytes_of c = 0"
      "ck_state c = Open" "ck_key c = key"
    by (auto simp: c chunk_new_def chunk_ok_def chunk_holds_def chunk_read_def on_disk_def mem_bytes_of_def
        is_in_memory_def batches_rows_def batches_memory_def)
  have o: "bm_get opens k = Some j \<longleftrightarrow> (\<exists>d. bm_get chunks j = Some d \<and> ck_key d = k \<and> ck_state d = Open)" for k j
    by (rule chunks_inv_open [OF inv])
  have uniq: "i = j" if "bm_get chunks i = Some c" "bm_get chunks j = Some d" "on_disk c = Some p" "on_disk d = Some p"
    for i j c d p using inv that unfolding chunks_inv_def by blast
  show ?thesis
    unfolding chunks_inv_def
  proof (intro conjI allI impI ballI)
    show "bm_get (bm_insert key (Suc next) opens) k = Some j \<longleftrightarrow>
        (\<exists>d. bm_get (bm_insert (Suc next) c chunks) j = Some d \<and> ck_key d = k \<and> ck_state d = Open)" for k j
      using o [of k j] none fresh c' o [of k "Suc next"] o [of key j] by (auto simp: bm_simps)
    show "used = of_nat (sum_list (map mem_bytes_of (bm_values (bm_insert (Suc next) c chunks))))"
      using inv c' by (simp add: sum_bm_insert [OF fresh] chunks_inv_def)
    show "pending_ok kt (bm_insert (Suc next) c chunks) (Suc next) dir p" if "p \<in> set ps" for p
    proof -
      obtain h n j where p: "p = (h, n, j)" by (cases p)
      have "pending_ok kt chunks next dir (h, n, j)" using inv that p by (auto simp: chunks_inv_def)
      then show ?thesis by (auto simp: p pending_ok_def bm_simps)
    qed
    show "j = k" if "bm_get (bm_insert (Suc next) c chunks) j = Some d \<and>
        bm_get (bm_insert (Suc next) c chunks) k = Some e \<and> on_disk d = Some p \<and> on_disk e = Some p" for j k d e p
      using that c' uniq by (auto simp: bm_simps split: if_splits)
  qed (use inv c' in \<open>auto simp: chunks_inv_def bm_simps le_Suc_eq split: if_splits\<close>)
qed

lemma chunks_inv_remove:
  assumes inv: "chunks_inv kt chunks opens next used dir ps" and c: "bm_get chunks i = Some c"
    and dir': "dir' = dir \<or> on_disk c = Some p0 \<and> dir' = bm_remove p0 dir"
  shows "chunks_inv kt (bm_remove i chunks) (close_open (ck_key c) i opens) next
    (used - of_nat (mem_bytes_of c)) dir' ps"
proof -
  have o: "bm_get opens k = Some j \<longleftrightarrow> (\<exists>d. bm_get chunks j = Some d \<and> ck_key d = k \<and> ck_state d = Open)" for k j
    by (rule chunks_inv_open [OF inv])
  have uniq: "i = j" if "bm_get chunks i = Some c" "bm_get chunks j = Some d" "on_disk c = Some p" "on_disk d = Some p"
    for i j c d p using inv that unfolding chunks_inv_def by blast
  have same: "bm_get dir' p = bm_get dir p" if "p \<in> set (pending_paths ps) \<or>
      (\<exists>j d. j \<noteq> i \<and> bm_get chunks j = Some d \<and> on_disk d = Some p)" for p
  proof -
    have "on_disk c \<noteq> Some p" using that inv c uniq unfolding chunks_inv_def by blast
    then show ?thesis using dir' by (auto simp: bm_simps)
  qed
  have holds: "chunk_holds kt dir' d" if "j \<noteq> i" "bm_get chunks j = Some d" for j d
  proof -
    have "chunk_read kt d dir' = chunk_read kt d dir"
      by (rule chunk_read_cong) (use same that in \<open>cases "on_disk d"; auto\<close>)
    then show ?thesis using chunks_inv_chunk [OF inv that(2)] by (simp add: chunk_holds_def)
  qed
  show ?thesis
    unfolding chunks_inv_def
  proof (intro conjI allI impI ballI)
    show "bm_get (close_open (ck_key c) i opens) k = Some j \<longleftrightarrow>
        (\<exists>d. bm_get (bm_remove i chunks) j = Some d \<and> ck_key d = k \<and> ck_state d = Open)" for k j
      using o [of k j] o [of "ck_key c" i] c by (auto simp: close_open_def bm_simps)
    show "used - of_nat (mem_bytes_of c) = of_nat (sum_list (map mem_bytes_of (bm_values (bm_remove i chunks))))"
      using inv sum_bm_remove [OF c, of mem_bytes_of] by (simp add: chunks_inv_def)
    show "pending_ok kt (bm_remove i chunks) next dir' p" if "p \<in> set ps" for p
    proof -
      obtain h n j where p: "p = (h, n, j)" by (cases p)
      have "bm_get dir' (sp_path h) = bm_get dir (sp_path h)"
        using same that p by (force simp: pending_paths_def)
      moreover have "pending_ok kt chunks next dir (h, n, j)" using inv that p by (auto simp: chunks_inv_def)
      ultimately show ?thesis by (auto simp: p pending_ok_def bm_simps read_spill_def)
    qed
    show "bm_has dir' p" if "p \<in> set (pending_paths ps)" for p
      using same [of p] inv that by (simp add: chunks_inv_def bm_has_def)
    show "j = k" if "bm_get (bm_remove i chunks) j = Some d \<and> bm_get (bm_remove i chunks) k = Some e \<and>
        on_disk d = Some p \<and> on_disk e = Some p" for j k d e p
      using that uniq by (auto simp: bm_simps split: if_splits)
    show "chunk_holds kt dir' d" if "bm_get (bm_remove i chunks) j = Some d" for j d
      using that holds by (auto simp: bm_simps split: if_splits)
  qed (use inv in \<open>auto simp: chunks_inv_def bm_simps split: if_splits\<close>)
qed

subsection \<open>The halves of a spill\<close>

text \<open>The counters fit their fields in the file.\<close>

definition spill_fits :: "nat \<Rightarrow> 'b chunk \<Rightarrow> bool" where
  "spill_fits seg c \<longleftrightarrow>
     seg < 2 ^ 64 \<and> fst (ck_wal_seq_range c) < 2 ^ 64 \<and> snd (ck_wal_seq_range c) < 2 ^ 64 \<and> ck_rows c < 2 ^ 64 \<and>
     ck_bytes c < 2 ^ 64"

lemma build_spill_reads:
  assumes "build_spill kt ok uuid seg bs c dir = (Inr h, dir')" "spill_laws kt" "spill_fits seg c"
  shows "read_spill kt h dir' = Inr bs" "\<exists>bytes. dir' = bm_insert (sp_path h) bytes dir"
proof -
  let ?meta = "\<lparr>spm_wal_segment = seg, spm_wal_seq_range = ck_wal_seq_range c, spm_rows = ck_rows c,
    spm_mem_bytes = ck_bytes c\<rparr>"
  have w: "write_spill kt ok (''c'' @ dec_digits (ck_id c) @ ''-'' @ uuid) bs ?meta dir = (Inr h, dir')"
    using assms(1) by (simp add: build_spill_def)
  obtain enc where "dir' = bm_insert (sp_path h)
      (spill_bytes kt ?meta (kt_schema_bytes kt (kt_schema kt (hd bs))) enc) dir"
    using write_spill_Inr [OF w] by (metis spill_handle.select_convs(1))
  then show "\<exists>bytes. dir' = bm_insert (sp_path h) bytes dir" by blast
  show "read_spill kt h dir' = Inr bs"
    using assms(3) by (intro spill_reads_back [OF w assms(2)]) (auto simp: spill_fits_def spill_meta_fits_def)
qed

lemma chunks_inv_begin:
  assumes inv: "chunks_inv kt chunks opens next used dir ps"
    and c: "bm_get chunks i = Some c" "ck_state c = Sealed" "ck_data c = InMemory bs"
    and h: "build_spill kt ok uuid seg bs c dir = (Inr h, dir')" "\<not> bm_has dir (sp_path h)"
    and laws: "spill_laws kt" "spill_fits seg c"
  shows "chunks_inv kt chunks opens next used dir' ((h, ck_bytes c, i) # ps)"
proof -
  note r = build_spill_reads [OF h(1) laws]
  obtain bytes where dir': "dir' = bm_insert (sp_path h) bytes dir" using r(2) by blast
  have other: "bm_get dir' p = bm_get dir p" if "bm_has dir p" for p
    using that h(2) by (auto simp: dir' bm_simps)
  have holds: "chunk_holds kt dir' d" if "bm_get chunks j = Some d" for j d
  proof -
    have d: "chunk_holds kt dir d" using chunks_inv_chunk [OF inv that] by simp
    have "chunk_read kt d dir' = chunk_read kt d dir"
      by (rule chunk_read_cong) (use other chunk_holds_on_disk [OF d] in \<open>cases "on_disk d"; auto\<close>)
    with d show ?thesis by (simp add: chunk_holds_def)
  qed
  show ?thesis
    unfolding chunks_inv_def
  proof (intro conjI allI impI ballI)
    show "pending_ok kt chunks next dir' p" if "p \<in> set ((h, ck_bytes c, i) # ps)" for p
    proof (cases "p = (h, ck_bytes c, i)")
      case True
      then show ?thesis using c r(1) chunks_inv_chunk [OF inv c(1)] by (simp add: pending_ok_def)
    next
      case False
      obtain h' n j where p: "p = (h', n, j)" by (cases p)
      with False that have "(h', n, j) \<in> set ps" by auto
      from chunks_inv_pending [OF inv this] other [of "sp_path h'"] show ?thesis
        by (auto simp: p pending_ok_def read_spill_def)
    qed
    show "distinct (pending_paths ((h, ck_bytes c, i) # ps))"
      using inv h(2) by (auto simp: chunks_inv_def pending_paths_def)
    show "bm_has dir' p" if "p \<in> set (pending_paths ((h, ck_bytes c, i) # ps))" for p
      using inv that by (auto simp: chunks_inv_def pending_paths_def dir' bm_has_def bm_simps)
    show "on_disk d \<noteq> Some p"
      if "p \<in> set (pending_paths ((h, ck_bytes c, i) # ps))" "bm_get chunks j = Some d" for p j d
      using inv that h(2) chunk_holds_on_disk [of kt dir d] chunks_inv_chunk [OF inv that(2)]
      by (auto simp: chunks_inv_def pending_paths_def)
    show "chunk_holds kt dir' d" if "bm_get chunks j = Some d" for j d by (rule holds [OF that])
  qed (use inv in \<open>auto simp: chunks_inv_def\<close>)
qed

lemma chunks_inv_drop_pending:
  assumes "chunks_inv kt chunks opens next used dir (xs @ (h, n, i) # ys)"
  shows "chunks_inv kt chunks opens next used dir (xs @ ys)"
  using assms by (auto simp: chunks_inv_def pending_paths_def)

text \<open>The chunk is gone: the file is removed.\<close>

lemma chunks_inv_drop_file:
  assumes inv: "chunks_inv kt chunks opens next used dir (xs @ (h, n, i) # ys)"
  shows "chunks_inv kt chunks opens next used (remove_spill h dir) (xs @ ys)"
proof -
  let ?dir = "remove_spill h dir"
  have inv': "chunks_inv kt chunks opens next used dir (xs @ ys)" by (rule chunks_inv_drop_pending [OF inv])
  have other: "bm_get ?dir p = bm_get dir p" if "p \<noteq> sp_path h" for p
    using that by (simp add: remove_spill_def bm_simps)
  have notmine: "on_disk d \<noteq> Some (sp_path h)" if "bm_get chunks j = Some d" for j d
    using chunks_inv_pending [OF inv, of h n i] that by auto
  have paths: "p \<noteq> sp_path h" if "p \<in> set (pending_paths (xs @ ys))" for p
    using inv that by (auto simp: chunks_inv_def pending_paths_def)
  have holds: "chunk_holds kt ?dir d" if "bm_get chunks j = Some d" for j d
  proof -
    have "chunk_read kt d ?dir = chunk_read kt d dir"
      by (rule chunk_read_cong) (use notmine [OF that] other in \<open>cases "on_disk d"; auto\<close>)
    then show ?thesis using chunks_inv_chunk [OF inv that] by (simp add: chunk_holds_def)
  qed
  show ?thesis
    unfolding chunks_inv_def
  proof (intro conjI allI impI ballI)
    show "pending_ok kt chunks next ?dir p" if "p \<in> set (xs @ ys)" for p
    proof -
      obtain h' m j where p: "p = (h', m, j)" by (cases p)
      have "sp_path h' \<noteq> sp_path h" using paths that p by (force simp: pending_paths_def)
      then have "read_spill kt h' ?dir = read_spill kt h' dir" using other by (simp add: read_spill_def)
      moreover have "pending_ok kt chunks next dir (h', m, j)" using inv' that p by (auto simp: chunks_inv_def)
      ultimately show ?thesis by (simp add: p pending_ok_def)
    qed
    show "bm_has ?dir p" if "p \<in> set (pending_paths (xs @ ys))" for p
      using inv' that paths [OF that] other by (auto simp: chunks_inv_def bm_has_def)
    show "chunk_holds kt ?dir d" if "bm_get chunks j = Some d" for j d by (rule holds [OF that])
  qed (use inv' in \<open>auto simp: chunks_inv_def\<close>)
qed

text \<open>The chunk is still sealed: it takes the file, and its bytes go back to the ledger.\<close>

lemma chunks_inv_attach:
  assumes inv: "chunks_inv kt chunks opens next used dir (xs @ (h, n, i) # ys)"
    and c: "bm_get chunks i = Some c" "ck_state c = Sealed"
  shows "chunks_inv kt (bm_insert i (c\<lparr>ck_state := Spilled, ck_data := OnDisk h\<rparr>) chunks) opens next
    (used - of_nat n) dir (xs @ ys)"
proof -
  let ?c = "c\<lparr>ck_state := Spilled, ck_data := OnDisk h\<rparr>"
  have p: "pending_ok kt chunks next dir (h, n, i)" "bm_has dir (sp_path h)"
      "\<forall>j d. bm_get chunks j = Some d \<longrightarrow> on_disk d \<noteq> Some (sp_path h)"
    using chunks_inv_pending [OF inv, of h n i] by auto
  have cok: "chunk_ok c" "chunk_holds kt dir c" "ck_id c = i" "i \<le> next" using chunks_inv_chunk [OF inv c(1)] by auto
  obtain bs where bs: "ck_data c = InMemory bs"
    using cok(1) c(2) by (cases "ck_data c") (auto simp: chunk_ok_def is_in_memory_def)
  have n: "n = ck_bytes c" "read_spill kt h dir = Inr bs" using p(1) c bs by (auto simp: pending_ok_def)
  have new: "chunk_ok ?c" "chunk_holds kt dir ?c" "on_disk ?c = Some (sp_path h)" "mem_bytes_of ?c = 0"
      "mem_bytes_of c = n"
    using cok(1,2) c(2) bs n
    by (auto simp: chunk_ok_def chunk_holds_def chunk_read_def on_disk_def mem_bytes_of_def is_in_memory_def)
  have sum: "used - of_nat n = of_nat (sum_list (map mem_bytes_of (bm_values (bm_insert i ?c chunks))))"
  proof -
    have "n + sum_list (map mem_bytes_of (bm_values (bm_insert i ?c chunks))) = sum_list (map mem_bytes_of (bm_values chunks))"
      using sum_bm_update [OF c(1), of mem_bytes_of ?c] new(4,5) by simp
    moreover have "used = of_nat (sum_list (map mem_bytes_of (bm_values chunks)))"
      using inv by (simp add: chunks_inv_def)
    ultimately show ?thesis by (metis add_diff_cancel_left' of_nat_add)
  qed
  have inv': "chunks_inv kt chunks opens next used dir (xs @ ys)" by (rule chunks_inv_drop_pending [OF inv])
  show ?thesis
    unfolding chunks_inv_def
  proof (intro conjI allI impI ballI)
    show "used - of_nat n = of_nat (sum_list (map mem_bytes_of (bm_values (bm_insert i ?c chunks))))" by (rule sum)
    show "bm_get opens k = Some j \<longleftrightarrow>
        (\<exists>d. bm_get (bm_insert i ?c chunks) j = Some d \<and> ck_key d = k \<and> ck_state d = Open)" for k j
      using chunks_inv_open [OF inv, of k j] c by (auto simp: bm_simps)
    show "j = k" if "bm_get (bm_insert i ?c chunks) j = Some d \<and> bm_get (bm_insert i ?c chunks) k = Some e \<and>
        on_disk d = Some q \<and> on_disk e = Some q" for j k d e q
    proof -
      have "\<And>i j c d p. bm_get chunks i = Some c \<Longrightarrow> bm_get chunks j = Some d \<Longrightarrow> on_disk c = Some p \<Longrightarrow>
          on_disk d = Some p \<Longrightarrow> i = j" using inv unfolding chunks_inv_def by blast
      with that p(3) new(3) show ?thesis by (auto simp: bm_simps split: if_splits)
    qed
    show "pending_ok kt (bm_insert i ?c chunks) next dir q" if "q \<in> set (xs @ ys)" for q
    proof -
      obtain h' m j where q: "q = (h', m, j)" by (cases q)
      have "pending_ok kt chunks next dir (h', m, j)" using inv' that q by (auto simp: chunks_inv_def)
      then show ?thesis by (auto simp: q pending_ok_def bm_simps)
    qed
    show "on_disk d \<noteq> Some q"
      if "q \<in> set (pending_paths (xs @ ys))" "bm_get (bm_insert i ?c chunks) j = Some d" for q j d
    proof -
      have "q \<noteq> sp_path h" using inv that(1) by (auto simp: chunks_inv_def pending_paths_def)
      then show ?thesis using that inv' new(3) by (auto simp: chunks_inv_def bm_simps split: if_splits)
    qed
  qed (use inv' new cok in \<open>auto simp: chunks_inv_def bm_simps split: if_splits\<close>)
qed

end
