(* ===== verification/Chunk_Steps.thy ===== *)
theory Chunk_Steps
  imports Chunk_Invariant
begin

text \<open>
  The methods of the chunk store as steps that any thread may take, and what every step keeps: the
  invariant, and the batches of every chunk that it does not drop. \<open>due\<close> is what has been appended under
  the lock and not yet charged to the ledger.
\<close>

type_synonym 'b store_state = "'b chunk_store \<times> pending_spill list \<times> usize"

definition store_ok :: "'b chunk_tools \<Rightarrow> 'b store_state \<Rightarrow> bool" where
  "store_ok kt x \<longleftrightarrow>
     (case x of (s, ps, due) \<Rightarrow>
        chunks_inv kt (cs_chunks s) (cs_open s) (cs_next_id s) (lg_used (cs_ledger s) + due) (cs_spills s) ps)"

text \<open>Chunk \<open>c\<close> of \<open>s\<close> is still there in \<open>s'\<close> with its batches, and more only if it was open.\<close>

definition chunk_kept :: "'b chunk_tools \<Rightarrow> 'b chunk_store \<Rightarrow> 'b chunk_store \<Rightarrow> nat \<Rightarrow> 'b chunk \<Rightarrow> bool" where
  "chunk_kept kt s s' i c \<longleftrightarrow>
     (\<exists>c' more. bm_get (cs_chunks s') i = Some c' \<and> ck_key c' = ck_key c \<and>
        readable_batches kt (cs_spills s') c' = readable_batches kt (cs_spills s) c @ more \<and>
        (ck_state c \<noteq> Open \<longrightarrow> more = [] \<and> ck_state c' \<noteq> Open) \<and>
        (ck_committed_snapshot c' = None \<longrightarrow> ck_committed_snapshot c = None))"

definition store_grows :: "'b chunk_tools \<Rightarrow> 'b chunk_store \<Rightarrow> 'b chunk_store \<Rightarrow> bool" where
  "store_grows kt s s' \<longleftrightarrow> (\<forall>i c. bm_get (cs_chunks s) i = Some c \<longrightarrow> chunk_kept kt s s' i c)"

lemma store_grows_refl:
  "cs_chunks s' = cs_chunks s \<Longrightarrow> cs_spills s' = cs_spills s \<Longrightarrow> store_grows kt s s'"
  by (auto simp: store_grows_def chunk_kept_def)

lemma store_grows_trans:
  assumes "store_grows kt s s1" "store_grows kt s1 s2"
  shows "store_grows kt s s2"
  unfolding store_grows_def
proof (intro allI impI)
  fix i c assume c: "bm_get (cs_chunks s) i = Some c"
  have "chunk_kept kt s s1 i c" using assms(1) c by (simp add: store_grows_def)
  then obtain c1 more where c1: "bm_get (cs_chunks s1) i = Some c1" "ck_key c1 = ck_key c"
    "readable_batches kt (cs_spills s1) c1 = readable_batches kt (cs_spills s) c @ more"
    "ck_state c \<noteq> Open \<longrightarrow> more = [] \<and> ck_state c1 \<noteq> Open"
    "ck_committed_snapshot c1 = None \<longrightarrow> ck_committed_snapshot c = None"
    unfolding chunk_kept_def by (elim exE conjE)
  have "chunk_kept kt s1 s2 i c1" using assms(2) c1(1) by (simp add: store_grows_def)
  then obtain c2 more2 where "bm_get (cs_chunks s2) i = Some c2" "ck_key c2 = ck_key c1"
    "readable_batches kt (cs_spills s2) c2 = readable_batches kt (cs_spills s1) c1 @ more2"
    "ck_state c1 \<noteq> Open \<longrightarrow> more2 = [] \<and> ck_state c2 \<noteq> Open"
    "ck_committed_snapshot c2 = None \<longrightarrow> ck_committed_snapshot c1 = None"
    unfolding chunk_kept_def by (elim exE conjE)
  with c1 show "chunk_kept kt s s2 i c" by (auto simp: chunk_kept_def)
qed

subsection \<open>Methods of a chunk\<close>

lemma seal_tagged_open:
  "ck_state c = Open \<Longrightarrow> seal_tagged r p now c =
    (Inr (), c\<lparr>ck_state := Sealed, ck_sealed_at_ms := Some now, ck_seal_reason := Some r, ck_pressure_at_seal := p\<rparr>)"
  by (simp add: seal_tagged_def transition_def)

lemma seal_tagged_not_open:
  "ck_state c \<noteq> Open \<Longrightarrow> seal_tagged r p now c = (Inl (Other ''illegal chunk state transition''), c)"
  by (cases "ck_state c") (simp_all add: seal_tagged_def transition_def)

lemma chunk_holds_cong:
  "ck_data c' = ck_data c \<Longrightarrow> ck_rows c' = ck_rows c \<Longrightarrow> ck_bytes c' = ck_bytes c \<Longrightarrow> ck_schema c' = ck_schema c \<Longrightarrow>
    chunk_holds kt dir c' = chunk_holds kt dir c"
  by (simp add: chunk_holds_def chunk_read_def)

lemma readable_cong: "ck_data c' = ck_data c \<Longrightarrow> readable_batches kt dir c' = readable_batches kt dir c"
  by (simp add: readable_batches_def chunk_read_def)

text \<open>A method that changes the state and the notes of a chunk, not its data.\<close>

lemma store_put_same_data:
  assumes ok: "store_ok kt (s, ps, due)" and c: "bm_get (cs_chunks s) i = Some c"
    and same: "ck_data c' = ck_data c" "ck_rows c' = ck_rows c" "ck_bytes c' = ck_bytes c"
      "ck_schema c' = ck_schema c" "ck_id c' = ck_id c" "ck_key c' = ck_key c"
    and state: "chunk_ok c'" "ck_state c' = Open \<longrightarrow> ck_state c = Open"
      "ck_state c' = Sealed \<longrightarrow> ck_state c \<in> {Open, Sealed}"
      "ck_committed_snapshot c' = None \<longrightarrow> ck_committed_snapshot c = None"
    and s': "cs_chunks s' = bm_insert i c' (cs_chunks s)" "cs_next_id s' = cs_next_id s"
      "cs_ledger s' = cs_ledger s" "cs_spills s' = cs_spills s"
      "cs_open s' = (if ck_state c = Open \<and> ck_state c' \<noteq> Open then bm_remove (ck_key c) (cs_open s) else cs_open s)"
  shows "store_ok kt (s', ps, due) \<and> store_grows kt s s'"
proof
  have inv: "chunks_inv kt (cs_chunks s) (cs_open s) (cs_next_id s) (lg_used (cs_ledger s) + due) (cs_spills s) ps"
    using ok by (simp add: store_ok_def)
  have ci: "ck_id c = i" "chunk_ok c" "chunk_holds kt (cs_spills s) c" using chunks_inv_chunk [OF inv c] by auto
  have pend: "ck_state c \<noteq> Open" if "(h, n, i) \<in> set ps" for h n
    using chunks_inv_pending [OF inv that] c by (auto simp: pending_ok_def)
  have "chunks_inv kt (bm_insert i c' (cs_chunks s)) (cs_open s') (cs_next_id s)
      (lg_used (cs_ledger s) + due) (cs_spills s) ps"
  proof (rule chunks_inv_put [OF inv c])
    show "chunk_holds kt (cs_spills s) c'" using ci(3) same by (simp add: chunk_holds_cong [of c' c])
    show "cs_open s' = (if ck_state c = Open \<and> ck_state c' \<noteq> Open then bm_remove (ck_key c) (cs_open s) else cs_open s)"
      by (rule s')
    show "\<forall>(h, n, j) \<in> set ps. j = i \<and> ck_state c' = Sealed \<longrightarrow> ck_state c = Sealed \<and>
        ck_bytes c' = ck_bytes c \<and> ck_data c' = ck_data c"
      using pend state(3) same by auto
  qed (use ci same state in \<open>auto simp: mem_bytes_of_def is_in_memory_def on_disk_def\<close>)
  then show "store_ok kt (s', ps, due)" by (simp add: store_ok_def s')
  show "store_grows kt s s'"
    unfolding store_grows_def
  proof (intro allI impI)
    fix j d assume "bm_get (cs_chunks s) j = Some d"
    then show "chunk_kept kt s s' j d"
      using c same state(2,4) by (cases "j = i") (auto simp: chunk_kept_def s' bm_simps readable_cong [of c' c])
  qed
qed

lemma store_ok_chunk:
  "store_ok kt (s, ps, due) \<Longrightarrow> bm_get (cs_chunks s) i = Some c \<Longrightarrow>
    ck_id c = i \<and> i \<le> cs_next_id s \<and> chunk_ok c \<and> chunk_holds kt (cs_spills s) c"
  unfolding store_ok_def prod.case by (rule chunks_inv_chunk)

lemma store_ok_open:
  "store_ok kt (s, ps, due) \<Longrightarrow> bm_get (cs_open s) k = Some i \<longleftrightarrow>
    (\<exists>c. bm_get (cs_chunks s) i = Some c \<and> ck_key c = k \<and> ck_state c = Open)"
  unfolding store_ok_def prod.case by (rule chunks_inv_open)

lemma on_chunk_Some:
  "bm_get (cs_chunks s) i = Some c \<Longrightarrow>
    on_chunk i m s = (fst (m c), s\<lparr>cs_chunks := bm_insert i (snd (m c)) (cs_chunks s)\<rparr>)"
  by (simp add: on_chunk_def split: prod.split)

lemma seal_open_step:
  assumes ok: "store_ok kt (s, ps, due)" and c: "bm_get (cs_chunks s) i = Some c" "ck_state c = Open"
    and s': "s' = s\<lparr>cs_chunks := bm_insert i (snd (seal_tagged r p now c)) (cs_chunks s),
        cs_open := bm_remove (ck_key c) (cs_open s)\<rparr>"
  shows "store_ok kt (s', ps, due) \<and> store_grows kt s s'"
  by (rule store_put_same_data [OF ok c(1), where c' = "snd (seal_tagged r p now c)"])
     (use c store_ok_chunk [OF ok c(1)] in
      \<open>auto simp: s' seal_tagged_open chunk_ok_def is_in_memory_def split: chunk_data.splits\<close>)

text \<open>Notes on a chunk: the batch id, a failed flush.\<close>

lemma note_step:
  assumes ok: "store_ok kt (s, ps, due)"
    and f: "\<And>c. ck_data (f c) = ck_data c \<and> ck_rows (f c) = ck_rows c \<and> ck_bytes (f c) = ck_bytes c \<and>
      ck_schema (f c) = ck_schema c \<and> ck_id (f c) = ck_id c \<and> ck_key (f c) = ck_key c \<and>
      ck_state (f c) = ck_state c \<and> ck_committed_snapshot (f c) = ck_committed_snapshot c \<and>
      ck_seqs (f c) = ck_seqs c \<and> ck_wal_seq_range (f c) = ck_wal_seq_range c \<and>
      ck_sealed_at_ms (f c) = ck_sealed_at_ms c"
    and s': "s' = snd (on_chunk i (\<lambda>c. (Inr (), f c)) s)"
  shows "store_ok kt (s', ps, due) \<and> store_grows kt s s'"
proof (cases "bm_get (cs_chunks s) i")
  case None
  then show ?thesis using ok by (simp add: s' on_chunk_def store_grows_refl)
next
  case (Some c)
  show ?thesis
  proof (rule store_put_same_data [OF ok Some, where c' = "f c"])
    show "chunk_ok (f c)" using store_ok_chunk [OF ok Some] f by (simp add: chunk_ok_def is_in_memory_def)
  qed (use f Some store_ok_chunk [OF ok Some] in \<open>auto simp: s' on_chunk_Some chunk_ok_def\<close>)
qed

text \<open>A committed snapshot.\<close>

lemma chunk_mark_committed_cases:
  "chunk_mark_committed t c =
     (if ck_state c \<in> {Sealed, Spilled, Flushed}
      then (Inr (), c\<lparr>ck_state := Flushed, ck_committed_snapshot := Some t, ck_flush_attempts := 0, ck_retry_after_ms := 0\<rparr>)
      else (Inl (Other ''illegal chunk state transition''), c))"
  by (cases "ck_state c") (simp_all add: chunk_mark_committed_def transition_def)

lemma mark_step:
  assumes ok: "store_ok kt (s, ps, due)" and m: "store_mark_committed i t s = (r, s')"
  shows "store_ok kt (s', ps, due) \<and> store_grows kt s s'"
proof (cases "bm_get (cs_chunks s) i")
  case None
  then show ?thesis using ok m by (auto simp: store_mark_committed_def store_grows_refl)
next
  case (Some c)
  note ci = store_ok_chunk [OF ok Some]
  let ?c = "snd (chunk_mark_committed t c)"
  show ?thesis
  proof (rule store_put_same_data [OF ok Some, where c' = ?c])
    show "chunk_ok ?c"
      using ci by (auto simp: chunk_mark_committed_cases chunk_ok_def is_in_memory_def)
  qed (use m Some in \<open>auto simp: store_mark_committed_def io_bind_def on_chunk_Some chunk_mark_committed_cases
        split: if_splits\<close>)
qed

subsection \<open>Append\<close>

lemma roll_step:
  assumes ok: "store_ok kt (s, ps, due)" and m: "roll_schema key v p now s = (r, s1)"
  shows "store_ok kt (s1, ps, due) \<and> store_grows kt s s1 \<and> is_ok r"
proof (cases "bm_get (cs_open s) key")
  case None
  then show ?thesis using ok m by (auto simp: roll_schema_def store_grows_refl)
next
  case (Some prev)
  then obtain c where c: "bm_get (cs_chunks s) prev = Some c" "ck_key c = key" "ck_state c = Open"
    using store_ok_open [OF ok] by auto
  show ?thesis
  proof (cases "ck_schema_version c = v")
    case True
    then show ?thesis using ok m Some c by (auto simp: roll_schema_def store_grows_refl)
  next
    case False
    have "s1 = s\<lparr>cs_chunks := bm_insert prev (snd (seal_tagged SealSchemaChanged (Some p) now c)) (cs_chunks s),
        cs_open := bm_remove (ck_key c) (cs_open s)\<rparr>" "is_ok r"
      using m Some c False by (auto simp: roll_schema_def io_bind_def on_chunk_Some seal_tagged_open)
    then show ?thesis using seal_open_step [OF ok c(1,3)] by blast
  qed
qed

lemma open_step:
  assumes ok: "store_ok kt (s, ps, due)" and m: "open_for key v sch now s = (r, s1)"
  obtains i c where "r = Inr i" "bm_get (cs_chunks s1) i = Some c" "ck_state c = Open" "ck_key c = key"
    "store_ok kt (s1, ps, due)" "store_grows kt s s1" "cs_spills s1 = cs_spills s"
    "cs_chunks s1 = cs_chunks s \<or> (ck_schema c = sch \<and> bm_get (cs_chunks s) i = None)"
proof (cases "bm_get (cs_open s) key")
  case (Some i)
  then obtain c where "bm_get (cs_chunks s) i = Some c" "ck_key c = key" "ck_state c = Open"
    using store_ok_open [OF ok] by auto
  with that [of i c] Some m ok show thesis by (auto simp: open_for_def store_grows_refl)
next
  case None
  let ?i = "Suc (cs_next_id s)"
  let ?c = "chunk_new ?i key v sch now"
  have inv: "chunks_inv kt (cs_chunks s) (cs_open s) (cs_next_id s) (lg_used (cs_ledger s) + due) (cs_spills s) ps"
    using ok by (simp add: store_ok_def)
  have fresh: "bm_get (cs_chunks s) ?i = None"
    using store_ok_chunk [OF ok, of ?i] by (cases "bm_get (cs_chunks s) ?i") auto
  have s1: "r = Inr ?i" "s1 = s\<lparr>cs_next_id := ?i, cs_chunks := bm_insert ?i ?c (cs_chunks s),
      cs_open := bm_insert key ?i (cs_open s)\<rparr>"
    using m None by (simp_all add: open_for_def Let_def)
  show thesis
  proof (rule that [of ?i ?c])
    show "store_ok kt (s1, ps, due)"
      using chunks_inv_new [OF inv None refl, of v sch now] by (simp add: store_ok_def s1)
    show "store_grows kt s s1"
      unfolding store_grows_def
    proof (intro allI impI)
      fix j d assume "bm_get (cs_chunks s) j = Some d"
      then show "chunk_kept kt s s1 j d"
        using fresh by (cases "j = ?i") (auto simp: chunk_kept_def s1 bm_simps)
    qed
  qed (use s1 fresh in \<open>auto simp: bm_simps chunk_new_def\<close>)
qed

lemma chunk_append_open:
  assumes "ck_state c = Open" "ck_data c = InMemory bs0" "kt_schema kt b = ck_schema c"
  shows "chunk_append kt seq b c = (Inr (), c\<lparr>
    ck_rows := ck_rows c + kt_num_rows kt b, ck_bytes := ck_bytes c + kt_memory kt b,
    ck_stats := stats_merge (ck_stats c) (kt_stats kt b),
    ck_wal_seq_range := extend_range (ck_seqs c) (ck_wal_seq_range c) seq,
    ck_seqs := ck_seqs c @ [seq], ck_data := InMemory (bs0 @ [b])\<rparr>)"
  using assms by (simp add: chunk_append_def Let_def)

lemma extend_range_covers:
  "\<forall>q \<in> set seqs. fst r \<le> q \<and> q < snd r \<Longrightarrow> q \<in> set (seqs @ [seq]) \<Longrightarrow>
    fst (extend_range seqs r seq) \<le> q \<and> q < snd (extend_range seqs r seq)"
  by (auto simp: extend_range_def min_le_iff_disj less_max_iff_disj)

lemma append_all_open:
  assumes "ck_state c = Open" "ck_data c = InMemory bs0" "\<forall>b \<in> set bs. kt_schema kt b = ck_schema c" "chunk_ok c"
  shows "\<exists>c'. append_all kt seq bs c = (Inr (), c') \<and> ck_data c' = InMemory (bs0 @ bs) \<and> ck_state c' = Open \<and>
    ck_key c' = ck_key c \<and> ck_id c' = ck_id c \<and> ck_schema c' = ck_schema c \<and> chunk_ok c' \<and>
    ck_rows c' = ck_rows c + batches_rows kt bs \<and> ck_bytes c' = ck_bytes c + batches_memory kt bs \<and>
    ck_schema_version c' = ck_schema_version c \<and> ck_batch_id c' = ck_batch_id c \<and>
    ck_committed_snapshot c' = ck_committed_snapshot c"
  using assms
proof (induction bs arbitrary: c bs0)
  case Nil
  then show ?case by (auto simp: io_return_def batches_rows_def batches_memory_def)
next
  case (Cons b bs)
  obtain c1 where step: "chunk_append kt seq b c = (Inr (), c1)" "ck_state c1 = Open"
    "ck_data c1 = InMemory (bs0 @ [b])" "ck_schema c1 = ck_schema c" "ck_key c1 = ck_key c" "ck_id c1 = ck_id c"
    "ck_rows c1 = ck_rows c + kt_num_rows kt b" "ck_bytes c1 = ck_bytes c + kt_memory kt b"
    "ck_schema_version c1 = ck_schema_version c" "ck_batch_id c1 = ck_batch_id c"
    "ck_committed_snapshot c1 = ck_committed_snapshot c" "chunk_ok c1"
    using Cons.prems extend_range_covers [of "ck_seqs c" "ck_wal_seq_range c" _ seq]
    by (auto simp: chunk_append_open chunk_ok_def is_in_memory_def)
  from Cons.IH [OF step(2,3) _ step(12)] Cons.prems(3) step show ?case
    by (auto simp: io_bind_def batches_rows_def batches_memory_def)
qed

lemma append_all_mismatch:
  "ck_state c = Open \<Longrightarrow> bs \<noteq> [] \<Longrightarrow> \<forall>b \<in> set bs. kt_schema kt b \<noteq> ck_schema c \<Longrightarrow>
    append_all kt seq bs c = (Inl (Other ''schema mismatch''), c)"
  by (cases bs) (auto simp: io_bind_def chunk_append_def)

lemma store_put_appended:
  assumes ok: "store_ok kt (s, ps, due)" and c: "bm_get (cs_chunks s) i = Some c" "ck_state c = Open"
    and data: "ck_data c = InMemory bs0" "ck_data c' = InMemory (bs0 @ bs)" "\<forall>b \<in> set bs. kt_schema kt b = ck_schema c"
    and c': "ck_state c' = Open" "ck_key c' = ck_key c" "ck_id c' = ck_id c" "ck_schema c' = ck_schema c" "chunk_ok c'"
      "ck_rows c' = ck_rows c + batches_rows kt bs" "ck_bytes c' = ck_bytes c + batches_memory kt bs"
      "ck_committed_snapshot c' = ck_committed_snapshot c"
    and s': "s' = s\<lparr>cs_chunks := bm_insert i c' (cs_chunks s)\<rparr>"
  shows "store_ok kt (s', ps, due + of_nat (batches_memory kt bs)) \<and> store_grows kt s s'"
proof
  have inv: "chunks_inv kt (cs_chunks s) (cs_open s) (cs_next_id s) (lg_used (cs_ledger s) + due) (cs_spills s) ps"
    using ok by (simp add: store_ok_def)
  have ci: "ck_id c = i" "chunk_ok c" "chunk_holds kt (cs_spills s) c" using chunks_inv_chunk [OF inv c(1)] by auto
  have pend: "(h, n, i) \<notin> set ps" for h n
    using chunks_inv_pending [OF inv, of h n i] c by (auto simp: pending_ok_def)
  have "chunks_inv kt (bm_insert i c' (cs_chunks s)) (cs_open s) (cs_next_id s)
      (lg_used (cs_ledger s) + due + of_nat (batches_memory kt bs)) (cs_spills s) ps"
  proof (rule chunks_inv_put [OF inv c(1)])
    show "chunk_holds kt (cs_spills s) c'"
      using ci(3) data c' by (auto simp: chunk_holds_def chunk_read_def batches_rows_def batches_memory_def)
    show "\<forall>(h, n, j) \<in> set ps. j = i \<and> ck_state c' = Sealed \<longrightarrow> ck_state c = Sealed \<and>
        ck_bytes c' = ck_bytes c \<and> ck_data c' = ck_data c"
      using pend by auto
  qed (use ci c c' data in \<open>auto simp: mem_bytes_of_def is_in_memory_def on_disk_def\<close>)
  then show "store_ok kt (s', ps, due + of_nat (batches_memory kt bs))"
    by (simp add: store_ok_def s' ac_simps)
  show "store_grows kt s s'"
    unfolding store_grows_def
  proof (intro allI impI)
    fix j d assume "bm_get (cs_chunks s) j = Some d"
    then show "chunk_kept kt s s' j d"
      using c data c' by (cases "j = i")
        (auto simp: chunk_kept_def s' bm_simps readable_batches_def chunk_read_def)
  qed
qed

lemma store_ok_same:
  "cs_chunks s' = cs_chunks s \<Longrightarrow> cs_open s' = cs_open s \<Longrightarrow> cs_next_id s' = cs_next_id s \<Longrightarrow>
    lg_used (cs_ledger s') + due' = lg_used (cs_ledger s) + due \<Longrightarrow> cs_spills s' = cs_spills s \<Longrightarrow>
    store_ok kt (s', ps, due') = store_ok kt (s, ps, due)"
  by (simp add: store_ok_def)

lemma seal_full_step:
  assumes ok: "store_ok kt (s, ps, due)" and c: "bm_get (cs_chunks s) i = Some c" "ck_state c = Open" "ck_key c = key"
    and m: "seal_full key i reason sealed p now s = (r, s')"
  shows "store_ok kt (s', ps, due) \<and> store_grows kt s s' \<and> (\<exists>x. r = Inr (i, x)) \<and>
    (\<exists>c'. bm_get (cs_chunks s') i = Some c' \<and> ck_key c' = key \<and>
       readable_batches kt (cs_spills s') c' = readable_batches kt (cs_spills s) c)"
proof (cases reason)
  case None
  then show ?thesis using ok m c by (auto simp: seal_full_def store_grows_refl)
next
  case (Some why)
  have s': "s' = s\<lparr>cs_chunks := bm_insert i (snd (seal_tagged why (Some p) now c)) (cs_chunks s),
      cs_open := bm_remove (ck_key c) (cs_open s)\<rparr>" "\<exists>x. r = Inr (i, x)"
    using m Some c by (auto simp: seal_full_def io_bind_def on_chunk_Some seal_tagged_open)
  then have "bm_get (cs_chunks s') i = Some (snd (seal_tagged why (Some p) now c))" "cs_spills s' = cs_spills s"
    by (simp_all add: bm_simps)
  with s' c show ?thesis using seal_open_step [OF ok c(1,2) s'(1)]
    by (auto simp: seal_tagged_open readable_batches_def chunk_read_def)
qed

lemma append_batches_step:
  assumes ok: "store_ok kt (s, ps, due)" and c: "bm_get (cs_chunks s) i = Some c" "ck_state c = Open" "ck_key c = key"
    and bs: "batches \<noteq> []" "\<forall>b \<in> set batches. kt_schema kt b = sch"
    and m: "append_batches kt i seq batches now s = (r, s')"
  shows "if ck_schema c = sch
    then \<exists>c' reason. r = Inr reason \<and> bm_get (cs_chunks s') i = Some c' \<and> ck_state c' = Open \<and> ck_key c' = key \<and>
        readable_batches kt (cs_spills s') c' = readable_batches kt (cs_spills s) c @ batches \<and>
        store_ok kt (s', ps, due + of_nat (batches_memory kt batches)) \<and> store_grows kt s s'
    else r = Inl (Other ''schema mismatch'') \<and> s' = s"
proof (cases "ck_schema c = sch")
  case False
  have "append_all kt seq batches c = (Inl (Other ''schema mismatch''), c)"
    using c bs False by (intro append_all_mismatch) auto
  moreover have "bm_insert i c (cs_chunks s) = cs_chunks s" by (rule bm.ins_same_value [OF c(1)])
  ultimately show ?thesis using m c(1) False by (auto simp: append_batches_def io_bind_def on_chunk_Some)
next
  case True
  have ci: "chunk_ok c" using store_ok_chunk [OF ok c(1)] by simp
  then obtain bs0 where bs0: "ck_data c = InMemory bs0"
    using c(2) by (cases "ck_data c") (auto simp: chunk_ok_def is_in_memory_def)
  have sch: "\<forall>b \<in> set batches. kt_schema kt b = ck_schema c" using bs True by simp
  obtain c' where c': "append_all kt seq batches c = (Inr (), c')" "ck_data c' = InMemory (bs0 @ batches)"
    "ck_state c' = Open" "ck_key c' = ck_key c" "ck_id c' = ck_id c" "ck_schema c' = ck_schema c" "chunk_ok c'"
    "ck_rows c' = ck_rows c + batches_rows kt batches" "ck_bytes c' = ck_bytes c + batches_memory kt batches"
    "ck_committed_snapshot c' = ck_committed_snapshot c"
    using append_all_open [OF c(2) bs0 sch ci] by blast
  let ?s = "s\<lparr>cs_chunks := bm_insert i c' (cs_chunks s)\<rparr>"
  have "store_ok kt (?s, ps, due + of_nat (batches_memory kt batches)) \<and> store_grows kt s ?s"
    by (rule store_put_appended [OF ok c(1,2) bs0 c'(2) sch]) (use c' in auto)
  moreover have "s' = ?s" "\<exists>reason. r = Inr reason"
    using m c(1) c'(1) by (auto simp: append_batches_def io_bind_def on_chunk_Some)
  ultimately show ?thesis
    using True c c' bs0 by (auto simp: bm_simps readable_batches_def chunk_read_def)
qed

text \<open>Under the lock: the batches end up in a chunk of their key, or the schemas differ and no chunk has changed.\<close>

lemma append_locked_step:
  assumes ok: "store_ok kt (s, ps, due)" and bs: "batches \<noteq> []" "\<forall>b \<in> set batches. kt_schema kt b = sch"
    and m: "append_locked kt key v sch seq batches p now s = (r, s')"
  shows "store_grows kt s s' \<and>
    (case r of
       Inr (i, _) \<Rightarrow> store_ok kt (s', ps, due + of_nat (batches_memory kt batches)) \<and>
         (\<exists>c old. bm_get (cs_chunks s') i = Some c \<and> ck_key c = key \<and>
            readable_batches kt (cs_spills s') c = old @ batches)
     | Inl _ \<Rightarrow> store_ok kt (s', ps, due))"
proof -
  obtain r1 s1 where r1: "roll_schema key v p now s = (r1, s1)" by fastforce
  then obtain sealed where sealed: "r1 = Inr sealed" and ok1: "store_ok kt (s1, ps, due)" "store_grows kt s s1"
    using roll_step [OF ok r1] by (cases r1) auto
  obtain r2 s2 where r2: "open_for key v sch now s1 = (r2, s2)" by fastforce
  obtain i c where c: "r2 = Inr i" "bm_get (cs_chunks s2) i = Some c" "ck_state c = Open" "ck_key c = key"
    and ok2: "store_ok kt (s2, ps, due)" "store_grows kt s1 s2"
    using open_step [OF ok1(1) r2] by metis
  obtain r3 s3 where r3: "append_batches kt i seq batches now s2 = (r3, s3)" by fastforce
  note step = append_batches_step [OF ok2(1) c(2-4) bs r3]
  show ?thesis
  proof (cases "ck_schema c = sch")
    case False
    then show ?thesis
      using m r1 sealed r2 c(1) r3 step ok1 ok2 store_grows_trans [OF ok1(2) ok2(2)]
      by (auto simp: append_locked_def io_bind_def)
  next
    case True
    then obtain c' reason where c': "r3 = Inr reason" "bm_get (cs_chunks s3) i = Some c'" "ck_state c' = Open"
      "ck_key c' = key" "readable_batches kt (cs_spills s3) c' = readable_batches kt (cs_spills s2) c @ batches"
      and ok3: "store_ok kt (s3, ps, due + of_nat (batches_memory kt batches))" "store_grows kt s2 s3"
      using step by auto
    obtain r4 s4 where r4: "seal_full key i reason sealed p now s3 = (r4, s4)" by fastforce
    note ok4 = seal_full_step [OF ok3(1) c'(2-4) r4]
    have "r = r4" "s' = s4"
      using m r1 sealed r2 c(1) r3 c'(1) r4 by (auto simp: append_locked_def io_bind_def)
    moreover have "store_grows kt s s4"
      using store_grows_trans ok1(2) ok2(2) ok3(2) ok4 by blast
    ultimately show ?thesis using ok4 c'(5) by auto
  qed
qed

end
