(* ===== verification/Chunk_Safety.thy ===== *)
theory Chunk_Safety
  imports Chunk_Steps
begin

text \<open>
  Every interleaving of the methods of the chunk store keeps its invariant and its data: a chunk goes away
  only when its table was dropped, or after its file was committed at a snapshot that the store has
  announced as released.
\<close>

subsection \<open>Spills, seals\<close>

lemma read_unaffected:
  assumes "store_ok kt (s, ps, due)" "bm_get (cs_chunks s) i = Some c"
    and "\<And>p. bm_has (cs_spills s) p \<Longrightarrow> on_disk c = Some p \<Longrightarrow> bm_get dir p = bm_get (cs_spills s) p"
  shows "readable_batches kt dir c = readable_batches kt (cs_spills s) c"
proof -
  have holds: "chunk_holds kt (cs_spills s) c" using store_ok_chunk [OF assms(1,2)] by simp
  have "on_disk c = None \<or> (\<exists>p. on_disk c = Some p \<and> bm_get dir p = bm_get (cs_spills s) p)"
  proof (cases "on_disk c")
    case (Some p)
    then show ?thesis using assms(3) [OF chunk_holds_on_disk [OF holds Some] Some] by simp
  qed simp
  then have "chunk_read kt c dir = chunk_read kt c (cs_spills s)" by (rule chunk_read_cong)
  then show ?thesis by (simp add: readable_batches_def)
qed

lemma seal_step:
  assumes ok: "store_ok kt (s, ps, due)" and m: "store_seal i now s = (r, s')"
  shows "store_ok kt (s', ps, due) \<and> store_grows kt s s'"
proof (cases "bm_get (cs_chunks s) i")
  case None
  then show ?thesis using ok m by (auto simp: store_seal_def store_grows_refl)
next
  case (Some c)
  obtain reason p where rp: "(case bm_get (cs_pending_seal s) i of Some x \<Rightarrow> x | None \<Rightarrow> (SealManual, None)) = (reason, p)"
    by fastforce
  let ?s = "s\<lparr>cs_pending_seal := bm_remove i (cs_pending_seal s)\<rparr>"
  have ok': "store_ok kt (?s, ps, due)" using ok by (simp add: store_ok_def)
  show ?thesis
  proof (cases "ck_state c = Open")
    case True
    then have o: "bm_get (cs_open s) (ck_key c) = Some i" using store_ok_open [OF ok] Some by blast
    let ?s1 = "?s\<lparr>cs_chunks := bm_insert i (snd (seal_tagged reason p now c)) (cs_chunks ?s),
        cs_open := bm_remove (ck_key c) (cs_open ?s)\<rparr>"
    have "store_ok kt (?s1, ps, due) \<and> store_grows kt ?s ?s1"
      by (rule seal_open_step [OF ok' _ True refl]) (simp add: Some)
    moreover have "s' = bump_version ?s1"
      using m Some True rp o
      by (auto simp: store_seal_def io_bind_def on_chunk_Some seal_tagged_open close_open_def)
    moreover have "store_grows kt s s'" if "store_grows kt ?s ?s1" "s' = bump_version ?s1"
      using that by (simp add: store_grows_def chunk_kept_def)
    ultimately show ?thesis by (simp add: store_ok_def)
  next
    case False
    then have "bm_get (cs_open s) (ck_key c) \<noteq> Some i" using store_ok_open [OF ok, of "ck_key c" i] Some by auto
    then have "s' = bump_version ?s"
      using m Some False rp by (auto simp: store_seal_def io_bind_def io_return_def close_open_def)
    then show ?thesis using ok' by (simp add: store_ok_def store_grows_refl)
  qed
qed

lemma spill_begin_step:
  assumes ok: "store_ok kt (s, ps, due)" and laws: "spill_laws kt"
    and m: "spill_begin i s = Inr (Some (c, bs, seg))"
      "build_spill kt disk_ok uuid seg bs c (cs_spills s) = (Inr h, dir)"
      "\<not> bm_has (cs_spills s) (sp_path h)" "spill_fits seg c"
  shows "store_ok kt (s\<lparr>cs_spills := dir\<rparr>, (h, ck_bytes c, i) # ps, due) \<and> store_grows kt s (s\<lparr>cs_spills := dir\<rparr>)"
proof
  have c: "bm_get (cs_chunks s) i = Some c" "ck_state c = Sealed" "ck_data c = InMemory bs"
    using m(1) by (auto simp: spill_begin_def needs_spill_def mem_batches_def split: option.splits if_splits chunk_data.splits)
  show "store_ok kt (s\<lparr>cs_spills := dir\<rparr>, (h, ck_bytes c, i) # ps, due)"
    using chunks_inv_begin [OF ok [unfolded store_ok_def prod.case] c m(2,3) laws m(4)] by (simp add: store_ok_def)
  obtain bytes where dir: "dir = bm_insert (sp_path h) bytes (cs_spills s)"
    using build_spill_reads [OF m(2) laws m(4)] by blast
  have "readable_batches kt dir d = readable_batches kt (cs_spills s) d" if "bm_get (cs_chunks s) j = Some d" for j d
    by (rule read_unaffected [OF ok that]) (use m(3) in \<open>auto simp: dir bm_simps\<close>)
  then show "store_grows kt s (s\<lparr>cs_spills := dir\<rparr>)" by (auto simp: store_grows_def chunk_kept_def)
qed

lemma attach_spill_cases:
  "ck_state c \<noteq> Open \<Longrightarrow> attach_spill h c =
    (if ck_state c = Sealed then (Inr (), c\<lparr>ck_state := Spilled, ck_data := OnDisk h\<rparr>)
     else (Inl (Other ''illegal chunk state transition''), c))"
  by (cases "ck_state c") (simp_all add: attach_spill_def transition_def)

lemma spill_finish_step:
  assumes ok: "store_ok kt (s, xs @ (h, n, i) # ys, due)" and m: "spill_finish h n i s = (r, s')"
  shows "store_ok kt (s', xs @ ys, due) \<and> store_grows kt s s'"
proof (cases "bm_get (cs_chunks s) i")
  case None
  have "readable_batches kt (remove_spill h (cs_spills s)) d = readable_batches kt (cs_spills s) d"
    if "bm_get (cs_chunks s) j = Some d" for j d
    by (rule read_unaffected [OF ok that])
       (use chunks_inv_pending [OF ok [unfolded store_ok_def prod.case], of h n i] that in
        \<open>auto simp: remove_spill_def bm_simps\<close>)
  then show ?thesis
    using m None chunks_inv_drop_file [OF ok [unfolded store_ok_def prod.case]]
    by (auto simp: spill_finish_def store_ok_def store_grows_def chunk_kept_def)
next
  case (Some c)
  note p = chunks_inv_pending [OF ok [unfolded store_ok_def prod.case], of h n i]
  have no: "ck_state c \<noteq> Open" using p Some by (auto simp: pending_ok_def)
  have drop: "store_ok kt (s, xs @ ys, due)"
    using chunks_inv_drop_pending [OF ok [unfolded store_ok_def prod.case]] by (simp add: store_ok_def)
  show ?thesis
  proof (cases "ck_state c = Sealed")
    case False
    then have "s' = s\<lparr>cs_chunks := bm_insert i c (cs_chunks s)\<rparr>"
      using m Some no by (auto simp: spill_finish_def io_bind_def on_chunk_Some attach_spill_cases)
    then have "s' = s" by (simp add: bm.ins_same_value [OF Some])
    with drop show ?thesis by (simp add: store_grows_refl)
  next
    case True
    let ?c = "c\<lparr>ck_state := Spilled, ck_data := OnDisk h\<rparr>"
    have s': "s' = bump_version (s\<lparr>cs_chunks := bm_insert i ?c (cs_chunks s),
        cs_ledger := ledger_release n (cs_ledger s)\<rparr>)"
      using m Some no True by (auto simp: spill_finish_def io_bind_def on_chunk_Some attach_spill_cases)
    have "chunks_inv kt (bm_insert i ?c (cs_chunks s)) (cs_open s) (cs_next_id s)
        (lg_used (cs_ledger s) + due - of_nat n) (cs_spills s) (xs @ ys)"
      by (rule chunks_inv_attach [OF ok [unfolded store_ok_def prod.case] Some True])
    then have "store_ok kt (s', xs @ ys, due)" by (simp add: store_ok_def s' ledger_release_def algebra_simps)
    moreover have "readable_batches kt (cs_spills s) ?c = readable_batches kt (cs_spills s) c"
    proof -
      obtain bs where bs: "ck_data c = InMemory bs"
        using store_ok_chunk [OF ok Some] True by (cases "ck_data c") (auto simp: chunk_ok_def is_in_memory_def)
      then have "read_spill kt h (cs_spills s) = Inr bs" using p Some True by (auto simp: pending_ok_def)
      with bs show ?thesis by (simp add: readable_batches_def chunk_read_def)
    qed
    then have "store_grows kt s s'"
      using Some True by (auto simp: store_grows_def chunk_kept_def s' bm_simps)
    ultimately show ?thesis by simp
  qed
qed

subsection \<open>Dropping chunks\<close>

definition drop_allowed :: "'b chunk_store \<Rightarrow> 'b chunk_store \<Rightarrow> 'b chunk \<Rightarrow> bool" where
  "drop_allowed s s' c \<longleftrightarrow> chunk_is_stale s c \<or>
     (\<exists>t. ck_committed_snapshot c = Some t \<and> t \<le> cs_released_watermark s')"

definition store_keeps :: "'b chunk_tools \<Rightarrow> 'b chunk_store \<Rightarrow> 'b chunk_store \<Rightarrow> bool" where
  "store_keeps kt s s' \<longleftrightarrow> (\<forall>i c. bm_get (cs_chunks s) i = Some c \<longrightarrow>
     chunk_kept kt s s' i c \<or> (bm_get (cs_chunks s') i = None \<and> drop_allowed s s' c))"

lemma grows_keeps: "store_grows kt s s' \<Longrightarrow> store_keeps kt s s'"
  by (auto simp: store_grows_def store_keeps_def)

lemma chunks_inv_remove_all:
  assumes "chunks_inv kt chunks opens next used dir ps"
    and "\<forall>c \<in> set cs. bm_get chunks (ck_id c) = Some c" "distinct (map ck_id cs)"
  shows "chunks_inv kt (fold (\<lambda>c m. bm_remove (ck_id c) m) cs chunks)
    (fold (\<lambda>c m. close_open (ck_key c) (ck_id c) m) cs opens) next
    (used - of_nat (sum_list (map mem_bytes_of cs))) dir ps"
  using assms
proof (induction cs arbitrary: chunks opens used)
  case (Cons c cs)
  have get: "bm_get chunks (ck_id c) = Some c" using Cons.prems(2) by simp
  have inv: "chunks_inv kt (bm_remove (ck_id c) chunks) (close_open (ck_key c) (ck_id c) opens) next
      (used - of_nat (mem_bytes_of c)) dir ps"
    by (rule chunks_inv_remove [OF Cons.prems(1) get]) simp
  have rest: "\<forall>d \<in> set cs. bm_get (bm_remove (ck_id c) chunks) (ck_id d) = Some d"
  proof
    fix d assume "d \<in> set cs"
    then have "ck_id d \<noteq> ck_id c" "bm_get chunks (ck_id d) = Some d"
      using Cons.prems(2,3) by (metis distinct.simps(2) image_eqI list.set_map list.simps(9), simp)
    then show "bm_get (bm_remove (ck_id c) chunks) (ck_id d) = Some d" by (simp add: bm_simps)
  qed
  show ?case using Cons.IH [OF inv rest] Cons.prems(3) by (simp add: diff_diff_eq)
qed simp

lemma bm_get_remove_all:
  "bm_get (fold (\<lambda>c m. bm_remove (ck_id c) m) cs chunks) i =
    (if i \<in> ck_id ` set cs then None else bm_get chunks i)"
  by (induction cs arbitrary: chunks) (auto simp: bm_simps)

lemma fold_max_ge: "x \<in> set xs \<Longrightarrow> (f x :: nat) \<le> fold (\<lambda>x m. max m (f x)) xs m"
proof (induction xs arbitrary: m)
  case (Cons y ys)
  have mono: "m \<le> fold (\<lambda>x m. max m (f x)) xs m" for xs and m :: nat
    by (induction xs arbitrary: m) (auto intro: order_trans [OF max.cobounded1])
  show ?case using Cons mono [of "max m (f y)" ys] by auto
qed simp

lemma reclaim_fields:
  assumes "reclaim cached s = (n, s')"
  defines "dropped \<equiv> filter (\<lambda>c. chunk_is_stale s c \<or> chunk_caught_up cached c) (bm_values (cs_chunks s))"
  shows "cs_chunks s' = fold (\<lambda>c m. bm_remove (ck_id c) m) dropped (cs_chunks s)"
    "cs_open s' = fold (\<lambda>c m. close_open (ck_key c) (ck_id c) m) dropped (cs_open s)"
    "cs_next_id s' = cs_next_id s" "cs_spills s' = cs_spills s"
    "lg_used (cs_ledger s') = lg_used (cs_ledger s) - of_nat (sum_list (map mem_bytes_of dropped))"
    "cs_released_watermark s' = fold (\<lambda>c m. max m (case ck_committed_snapshot c of Some t \<Rightarrow> t | None \<Rightarrow> 0))
       (filter (\<lambda>c. \<not> chunk_is_stale s c) dropped) (cs_released_watermark s)"
proof -
  have "\<exists>v. s' = s\<lparr>
      cs_released_watermark := fold (\<lambda>c m. max m (case ck_committed_snapshot c of Some t \<Rightarrow> t | None \<Rightarrow> 0))
        (filter (\<lambda>c. \<not> chunk_is_stale s c) dropped) (cs_released_watermark s),
      cs_chunks := fold (\<lambda>c m. bm_remove (ck_id c) m) dropped (cs_chunks s),
      cs_open := fold (\<lambda>c m. close_open (ck_key c) (ck_id c) m) dropped (cs_open s),
      cs_ledger := ledger_release (sum_list (map mem_bytes_of dropped)) (cs_ledger s), cs_version := v\<rparr>"
    using assms(1) unfolding reclaim_def Let_def dropped_def [symmetric]
    by (cases "dropped = []") (auto intro: exI [of _ "cs_version s"] exI [of _ "cs_version s + 1"])
  then show "cs_chunks s' = fold (\<lambda>c m. bm_remove (ck_id c) m) dropped (cs_chunks s)"
    "cs_open s' = fold (\<lambda>c m. close_open (ck_key c) (ck_id c) m) dropped (cs_open s)"
    "cs_next_id s' = cs_next_id s" "cs_spills s' = cs_spills s"
    "lg_used (cs_ledger s') = lg_used (cs_ledger s) - of_nat (sum_list (map mem_bytes_of dropped))"
    "cs_released_watermark s' = fold (\<lambda>c m. max m (case ck_committed_snapshot c of Some t \<Rightarrow> t | None \<Rightarrow> 0))
       (filter (\<lambda>c. \<not> chunk_is_stale s c) dropped) (cs_released_watermark s)"
    by (auto simp: ledger_release_def)
qed

lemma reclaim_step:
  assumes ok: "store_ok kt (s, ps, due)" and m: "reclaim cached s = (n, s')"
  shows "store_ok kt (s', ps, due) \<and> store_keeps kt s s'"
proof -
  let ?goes = "\<lambda>c. chunk_is_stale s c \<or> chunk_caught_up cached c"
  let ?dropped = "filter ?goes (bm_values (cs_chunks s))"
  have keyed: "\<forall>i c. bm_get (cs_chunks s) i = Some c \<longrightarrow> ck_id c = i" using store_ok_chunk [OF ok] by blast
  have get: "bm_get (cs_chunks s) (ck_id c) = Some c" if "c \<in> set (bm_values (cs_chunks s))" for c
    using that keyed by (auto simp: bm_values_iff)
  have "map ck_id (bm_values (cs_chunks s)) = map fst (map (\<lambda>v. (ck_id v, v)) (bm_values (cs_chunks s)))" by simp
  also have "\<dots> = bm_keys (cs_chunks s)" using bm_values_keyed [OF keyed] by (simp add: bm_keys_def)
  finally have dist: "distinct (map ck_id ?dropped)"
    using bm.keys_distinct [of "cs_chunks s"] by (metis distinct_map_filter)
  let ?chunks = "fold (\<lambda>c m. bm_remove (ck_id c) m) ?dropped (cs_chunks s)"
  have s': "cs_chunks s' = ?chunks"
    "cs_open s' = fold (\<lambda>c m. close_open (ck_key c) (ck_id c) m) ?dropped (cs_open s)"
    "cs_next_id s' = cs_next_id s" "cs_spills s' = cs_spills s"
    "lg_used (cs_ledger s') = lg_used (cs_ledger s) - of_nat (sum_list (map mem_bytes_of ?dropped))"
    "cs_released_watermark s' = fold (\<lambda>c m. max m (case ck_committed_snapshot c of Some t \<Rightarrow> t | None \<Rightarrow> 0))
       (filter (\<lambda>c. \<not> chunk_is_stale s c) ?dropped) (cs_released_watermark s)"
    using reclaim_fields [OF m] by auto
  have "store_ok kt (s', ps, due)"
    using chunks_inv_remove_all [OF ok [unfolded store_ok_def prod.case] _ dist] get
    by (simp add: store_ok_def s' algebra_simps)
  moreover have "store_keeps kt s s'"
    unfolding store_keeps_def
  proof (intro allI impI)
    fix i c assume c: "bm_get (cs_chunks s) i = Some c"
    then have mem: "c \<in> set (bm_values (cs_chunks s))" "ck_id c = i" using keyed by (auto simp: bm_values_iff)
    show "chunk_kept kt s s' i c \<or> (bm_get (cs_chunks s') i = None \<and> drop_allowed s s' c)"
    proof (cases "?goes c")
      case False
      then have "i \<notin> ck_id ` set ?dropped" using c get by force
      then show ?thesis using c by (auto simp: chunk_kept_def s' bm_get_remove_all)
    next
      case True
      then have gone: "bm_get (cs_chunks s') i = None" using mem by (auto simp: s' bm_get_remove_all)
      have "drop_allowed s s' c"
      proof (cases "chunk_is_stale s c")
        case False
        with True obtain t where t: "ck_committed_snapshot c = Some t"
          by (auto simp: chunk_caught_up_def split: option.splits)
        have "c \<in> set (filter (\<lambda>c. \<not> chunk_is_stale s c) ?dropped)" using False True mem by simp
        from fold_max_ge [OF this, of "\<lambda>c. case ck_committed_snapshot c of Some t \<Rightarrow> t | None \<Rightarrow> 0"] t
        show ?thesis by (auto simp: drop_allowed_def s')
      qed (simp add: drop_allowed_def)
      with gone show ?thesis by blast
    qed
  qed
  ultimately show ?thesis by blast
qed

lemma discard_step:
  assumes ok: "store_ok kt (s, ps, due)" and m: "discard_chunk i s = (r, s')"
    and stale: "\<forall>c. bm_get (cs_chunks s) i = Some c \<longrightarrow> chunk_is_stale s c"
  shows "store_ok kt (s', ps, due) \<and> store_keeps kt s s'"
proof (cases "bm_get (cs_chunks s) i")
  case None
  then show ?thesis using ok m by (auto simp: discard_chunk_def store_keeps_def chunk_kept_def)
next
  case (Some c)
  let ?dir = "case ck_data c of OnDisk h \<Rightarrow> remove_spill h (cs_spills s) | InMemory _ \<Rightarrow> cs_spills s"
  have s': "s' = bump_version (s\<lparr>cs_chunks := bm_remove i (cs_chunks s), cs_open := close_open (ck_key c) i (cs_open s),
      cs_spills := ?dir, cs_ledger := ledger_release (mem_bytes_of c) (cs_ledger s)\<rparr>)"
    using m Some by (simp add: discard_chunk_def)
  have dir: "?dir = cs_spills s \<or> on_disk c = Some (the (on_disk c)) \<and> ?dir = bm_remove (the (on_disk c)) (cs_spills s)"
    by (auto simp: on_disk_def remove_spill_def split: chunk_data.splits)
  have "store_ok kt (s', ps, due)"
    using chunks_inv_remove [OF ok [unfolded store_ok_def prod.case] Some dir]
    by (simp add: store_ok_def s' ledger_release_def algebra_simps)
  moreover have "chunk_kept kt s s' j d" if "j \<noteq> i" "bm_get (cs_chunks s) j = Some d" for j d
  proof -
    have "readable_batches kt ?dir d = readable_batches kt (cs_spills s) d"
    proof (rule read_unaffected [OF ok that(2)])
      fix p assume "on_disk d = Some p"
      then have "on_disk c \<noteq> Some p" using ok Some that unfolding store_ok_def prod.case chunks_inv_def by blast
      then show "bm_get ?dir p = bm_get (cs_spills s) p" using dir by (auto simp: bm_simps)
    qed
    then show ?thesis using that by (simp add: chunk_kept_def s' bm_simps)
  qed
  ultimately show ?thesis
    using Some stale by (auto simp: store_keeps_def drop_allowed_def s' bm_simps)
qed

end
