(* ===== verification/Chunk_Machine.thy ===== *)
theory Chunk_Machine
  imports Chunk_Safety
begin

text \<open>
  The chunk store as a state machine: each rule is one critical section of \<open>crates/chunk/src/store.rs\<close>,
  and threads interleave them in any order. A spill is two steps with the file written in between; an append
  is one step under the lock and one that charges the ledger. The name of a spill file holds a fresh
  identifier, so no file of that name exists; a chunk is discarded only when its table is gone, as
  \<open>IngestPipeline\<close> does.
\<close>

inductive chunk_step :: "'b chunk_tools \<Rightarrow> 'b store_state \<Rightarrow> 'b store_state \<Rightarrow> bool"
  for kt :: "'b chunk_tools" where
  Append_Ok:
    "\<lbrakk>batches \<noteq> []; \<forall>b \<in> set batches. kt_schema kt b = sch;
      append_locked kt key v sch seq batches p now s = (Inr x, s')\<rbrakk>
     \<Longrightarrow> chunk_step kt (s, ps, due) (s', ps, due + of_nat (batches_memory kt batches))"
| Append_Failed:
    "\<lbrakk>batches \<noteq> []; \<forall>b \<in> set batches. kt_schema kt b = sch;
      append_locked kt key v sch seq batches p now s = (Inl e, s')\<rbrakk>
     \<Longrightarrow> chunk_step kt (s, ps, due) (s', ps, due)"
| Charge:
    "chunk_step kt (s, ps, due)
       (bump_version (s\<lparr>cs_ledger := ledger_reserve n (cs_ledger s)\<rparr>), ps, due - of_nat n)"
| Ddl: "chunk_step kt (s, ps, due) (observe_ddl op table s, ps, due)"
| Segment: "chunk_step kt (s, ps, due) (set_wal_segment seg s, ps, due)"
| Plan: "chunk_step kt (s, ps, due) (snd (plan_flush now s), ps, due)"
| Tag: "chunk_step kt (s, ps, due)
      (s\<lparr>cs_pending_seal := bm_insert i (SealPressure, Some p) (cs_pending_seal s)\<rparr>, ps, due)"
| Seal: "chunk_step kt (s, ps, due) (snd (store_seal i now s), ps, due)"
| Spill_Begin:
    "\<lbrakk>spill_begin i s = Inr (Some (c, bs, seg)); build_spill kt disk_ok uuid seg bs c (cs_spills s) = (Inr h, dir);
      \<not> bm_has (cs_spills s) (sp_path h); spill_fits seg c\<rbrakk>
     \<Longrightarrow> chunk_step kt (s, ps, due) (s\<lparr>cs_spills := dir\<rparr>, (h, ck_bytes c, i) # ps, due)"
| Spill_End:
    "chunk_step kt (s, xs @ (h, n, i) # ys, due) (snd (spill_finish h n i s), xs @ ys, due)"
| Note_Batch: "chunk_step kt (s, ps, due) (note_batch_id i batch_id s, ps, due)"
| Flush_Failed: "chunk_step kt (s, ps, due) (store_note_flush_failure i now s, ps, due)"
| Mark_Committed: "chunk_step kt (s, ps, due) (snd (store_mark_committed i t s), ps, due)"
| Discard:
    "\<forall>c. bm_get (cs_chunks s) i = Some c \<longrightarrow> chunk_is_stale s c
     \<Longrightarrow> chunk_step kt (s, ps, due) (snd (discard_chunk i s), ps, due)"
| Reclaim: "chunk_step kt (s, ps, due) (snd (reclaim cached s), ps, due)"

inductive chunk_reach :: "'b chunk_tools \<Rightarrow> 'b store_state \<Rightarrow> 'b store_state \<Rightarrow> bool"
  for kt :: "'b chunk_tools" where
  Stay: "chunk_reach kt x x"
| Step: "chunk_reach kt x y \<Longrightarrow> chunk_step kt y z \<Longrightarrow> chunk_reach kt x z"

subsection \<open>Every step\<close>

lemma keeps_same_data:
  "cs_chunks s' = cs_chunks s \<Longrightarrow> cs_spills s' = cs_spills s \<Longrightarrow> store_keeps kt s s'"
  by (simp add: grows_keeps store_grows_refl)

lemma plan_flush_same:
  "cs_chunks (snd (plan_flush now s)) = cs_chunks s" "cs_open (snd (plan_flush now s)) = cs_open s"
  "cs_next_id (snd (plan_flush now s)) = cs_next_id s" "cs_ledger (snd (plan_flush now s)) = cs_ledger s"
  "cs_spills (snd (plan_flush now s)) = cs_spills s"
  by (simp_all add: plan_flush_def Let_def)

lemma observe_ddl_same:
  "cs_chunks (observe_ddl op table s) = cs_chunks s" "cs_open (observe_ddl op table s) = cs_open s"
  "cs_next_id (observe_ddl op table s) = cs_next_id s" "cs_ledger (observe_ddl op table s) = cs_ledger s"
  "cs_spills (observe_ddl op table s) = cs_spills s"
  by (simp_all add: observe_ddl_def Let_def)

text \<open>A step keeps the invariant, and drops a chunk only when it may.\<close>

lemma chunk_step_ok:
  assumes "chunk_step kt x y" "spill_laws kt" "store_ok kt x"
  shows "store_ok kt y \<and> store_keeps kt (fst x) (fst y)"
  using assms
proof (cases rule: chunk_step.cases)
  case (Append_Ok batches sch key v seq p now s xx s' ps due)
  then show ?thesis
    using append_locked_step [of kt s ps due batches sch key v seq p now "Inr xx" s'] assms(3)
    by (cases xx) (auto simp: grows_keeps)
next
  case (Append_Failed batches sch key v seq p now s e s' ps due)
  then show ?thesis
    using append_locked_step [of kt s ps due batches sch key v seq p now "Inl e" s'] assms(3)
    by (auto simp: grows_keeps)
next
  case (Seal s ps due i now)
  then show ?thesis using seal_step [of kt s ps due i now] assms(3) grows_keeps by (metis fst_conv prod.collapse)
next
  case (Spill_Begin i s c bs seg disk_ok uuid h dir ps due)
  then show ?thesis
    using spill_begin_step [of kt s ps due i c bs seg disk_ok uuid h dir] assms(2,3) by (simp add: grows_keeps)
next
  case (Spill_End s xs h n i ys due)
  then show ?thesis
    using spill_finish_step [of kt s xs h n i ys due] assms(3) grows_keeps by (metis fst_conv prod.collapse)
next
  case (Note_Batch s ps due i b)
  then show ?thesis
    using note_step [of kt s ps due "\<lambda>c. c\<lparr>ck_batch_id := Some b\<rparr>" "note_batch_id i b s" i] assms(3)
    by (simp add: note_batch_id_def grows_keeps)
next
  case (Flush_Failed s ps due i now)
  then show ?thesis
    using note_step [of kt s ps due "chunk_note_flush_failure now" "store_note_flush_failure i now s" i] assms(3)
    by (simp add: store_note_flush_failure_def chunk_note_flush_failure_def Let_def grows_keeps)
next
  case (Mark_Committed s ps due i t)
  then show ?thesis using mark_step [of kt s ps due i t] assms(3) grows_keeps by (metis fst_conv prod.collapse)
next
  case (Discard s i ps due)
  then show ?thesis using discard_step [of kt s ps due i] assms(3) by (metis fst_conv prod.collapse)
next
  case (Reclaim s ps due cached)
  then show ?thesis using reclaim_step [of kt s ps due cached] assms(3) by (metis fst_conv prod.collapse)
qed (auto simp: store_ok_def keeps_same_data plan_flush_same observe_ddl_same set_wal_segment_def ledger_reserve_def)

text \<open>The store of a fresh process.\<close>

lemma store_new_ok: "store_ok kt (store_new cfg (ledger_new limit th) dir, [], 0)"
  by (simp add: store_ok_def store_new_def ledger_new_def chunks_inv_def pending_paths_def bm_simps
      bm_values_def)

lemma chunk_reach_ok:
  "chunk_reach kt x y \<Longrightarrow> spill_laws kt \<Longrightarrow> store_ok kt x \<Longrightarrow> store_ok kt y"
  by (induction rule: chunk_reach.induct) (auto dest: chunk_step_ok)

subsection \<open>Whole methods\<close>

text \<open>A complete \<open>append\<close> without pressure and \<open>force_seal\<close> are made of these steps.\<close>

lemma chunk_reach_trans: "chunk_reach kt y z \<Longrightarrow> chunk_reach kt x y \<Longrightarrow> chunk_reach kt x z"
  by (induction rule: chunk_reach.induct) (auto intro: chunk_reach.intros)

lemma chunk_reach_step: "chunk_step kt x y \<Longrightarrow> chunk_reach kt x y"
  by (rule chunk_reach.Step [OF chunk_reach.Stay])

lemma force_seal_reach: "chunk_reach kt (s, ps, due) (snd (force_seal p now i s), ps, due)"
proof -
  have "snd (force_seal p now i s) =
      snd (store_seal i now (s\<lparr>cs_pending_seal := bm_insert i (SealPressure, Some p) (cs_pending_seal s)\<rparr>))"
    by (simp add: force_seal_def split: prod.split)
  then show ?thesis
    using chunk_reach.Step [OF chunk_reach_step [OF chunk_step.Tag] chunk_step.Seal] by simp
qed

lemma force_seal_all_reach: "chunk_reach kt (s, ps, due) (snd (force_seal_all p now is s), ps, due)"
proof (induction "is" arbitrary: s)
  case (Cons i "is")
  have "snd (force_seal_all p now (i # is) s) = snd (force_seal_all p now is (snd (force_seal p now i s)))"
    by (simp split: prod.split)
  then show ?case using chunk_reach_trans [OF Cons force_seal_reach] by metis
qed (simp add: chunk_reach.Stay)

text \<open>\<open>spill\<close> with a fresh name and counters that fit.\<close>

definition spill_io_ok :: "'b chunk_tools \<Rightarrow> spill_io \<Rightarrow> 'b chunk_store \<Rightarrow> bool" where
  "spill_io_ok kt io s \<longleftrightarrow>
     (\<forall>i c bs seg. spill_begin i s = Inr (Some (c, bs, seg)) \<longrightarrow> spill_fits seg c \<and>
        \<not> bm_has (cs_spills s) (''c'' @ dec_digits (ck_id c) @ ''-'' @ snd io @ ''.ipc.lz4''))"

lemma build_spill_path:
  "build_spill kt ok uuid seg bs c dir = (Inr h, dir') \<Longrightarrow>
    sp_path h = ''c'' @ dec_digits (ck_id c) @ ''-'' @ uuid @ ''.ipc.lz4''"
  unfolding build_spill_def by (erule write_spill_Inr) simp

lemma store_spill_reach:
  assumes "spill_io_ok kt io s"
  shows "chunk_reach kt (s, ps, due) (snd (store_spill kt io i s), ps, due)"
proof (cases "spill_begin i s")
  case (Inr x)
  show ?thesis
  proof (cases x)
    case (Some y)
    obtain c bs seg where y: "y = (c, bs, seg)" by (cases y)
    obtain r dir where b: "build_spill kt (fst io) (snd io) seg bs c (cs_spills s) = (r, dir)" by fastforce
    show ?thesis
    proof (cases r)
      case (Inl e)
      then have "dir = cs_spills s" using b write_spill_Inl by (auto simp: build_spill_def)
      then show ?thesis using Inr Some y b Inl by (simp add: store_spill_def chunk_reach.Stay)
    next
      case (Inr h)
      have "\<not> bm_has (cs_spills s) (sp_path h)" "spill_fits seg c"
        using assms \<open>spill_begin i s = Inr x\<close> Some y build_spill_path [OF b [unfolded Inr]]
        by (auto simp: spill_io_ok_def)
      then have one: "chunk_step kt (s, ps, due) (s\<lparr>cs_spills := dir\<rparr>, [] @ (h, ck_bytes c, i) # ps, due)"
        using \<open>spill_begin i s = Inr x\<close> Some y b Inr by (auto intro: chunk_step.Spill_Begin)
      have "chunk_reach kt (s, ps, due) (snd (spill_finish h (ck_bytes c) i (s\<lparr>cs_spills := dir\<rparr>)), [] @ ps, due)"
        by (rule chunk_reach.Step [OF chunk_reach_step [OF one] chunk_step.Spill_End])
      then show ?thesis using \<open>spill_begin i s = Inr x\<close> Some y b Inr by (simp add: store_spill_def)
    qed
  qed (use Inr in \<open>simp add: store_spill_def chunk_reach.Stay\<close>)
qed (simp add: store_spill_def chunk_reach.Stay)

subsection \<open>The invariant over a run\<close>

text \<open>C18: Whatever its threads do, the store of a process keeps its books: the ledger, with what has been appended and not
  yet charged, counts the bytes of the chunks in memory; a key has one open chunk at most; every chunk can be read back
  in full, from memory or from its spill file, with the rows and the schema it accounts for.
\<close>

theorem chunk_store_accounts:
  assumes "spill_laws kt" "chunk_reach kt (store_new cfg (ledger_new limit th) dir, [], 0) (s, ps, due)"
  shows "lg_used (cs_ledger s) + due = of_nat (sum_list (map mem_bytes_of (bm_values (cs_chunks s)))) \<and>
    (\<forall>i j c d. bm_get (cs_chunks s) i = Some c \<and> bm_get (cs_chunks s) j = Some d \<and>
       ck_state c = Open \<and> ck_state d = Open \<and> ck_key c = ck_key d \<longrightarrow> i = j) \<and>
    (\<forall>i c. bm_get (cs_chunks s) i = Some c \<longrightarrow>
       (\<exists>bs. chunk_read kt c (cs_spills s) = Inr bs \<and> ck_rows c = batches_rows kt bs \<and>
          ck_bytes c = batches_memory kt bs \<and> (\<forall>b \<in> set bs. kt_schema kt b = ck_schema c)))"
proof -
  have ok: "store_ok kt (s, ps, due)" using chunk_reach_ok [OF assms(2,1) store_new_ok] .
  have "i = j" if "bm_get (cs_chunks s) i = Some c" "bm_get (cs_chunks s) j = Some d"
    "ck_state c = Open" "ck_state d = Open" "ck_key c = ck_key d" for i j c d
    using that store_ok_open [OF ok, of "ck_key c"] by (metis option.inject)
  then show ?thesis
    using ok store_ok_chunk [OF ok] by (auto simp: store_ok_def chunks_inv_def chunk_holds_def)
qed

end
