(* ===== verification/Chunk_Read.thy ===== *)
theory Chunk_Read
  imports Chunk_Machine
begin

text \<open>
  What a query sees of the chunks. A reader has a catalog snapshot \<open>known\<close> and excludes the batch ids of the
  files it reads from that snapshot. \<open>C i\<close> is the batch id and the snapshot of the commit that holds chunk \<open>i\<close>, if there
  ever is one.
\<close>

type_synonym chunk_commits = "nat \<Rightarrow> (string \<times> nat) option"

subsection \<open>What no step takes back\<close>

text \<open>The fields the methods leave alone: tables, and the announced snapshot, which only grows.\<close>

definition fence_le :: "'b chunk_store \<Rightarrow> 'b chunk_store \<Rightarrow> bool" where
  "fence_le s s' \<longleftrightarrow> cs_released_watermark s \<le> cs_released_watermark s' \<and> cs_liveness s' = cs_liveness s"

lemma fence_le_refl [simp]: "fence_le s s"
  by (simp add: fence_le_def)

lemma fence_le_trans: "fence_le s s1 \<Longrightarrow> fence_le s1 s2 \<Longrightarrow> fence_le s s2"
  by (simp add: fence_le_def)

lemma fence_on_chunk: "fence_le s (snd (on_chunk i m s))"
  by (simp add: fence_le_def on_chunk_def split: option.split prod.split)

lemma fence_io_bind:
  assumes "fence_le s (snd (m s))" "\<And>x s1. fence_le s1 (snd (f x s1))"
  shows "fence_le s (snd (io_bind m f s))"
proof (cases "m s")
  case (Pair r s1)
  with assms show ?thesis by (cases r) (auto simp: io_bind_def intro: fence_le_trans)
qed

lemma fence_simple_update:
  "fence_le s0 s \<Longrightarrow> cs_released_watermark s' = cs_released_watermark s \<Longrightarrow> cs_liveness s' = cs_liveness s \<Longrightarrow>
    fence_le s0 s'"
  by (simp add: fence_le_def)

lemma fence_append_locked:
  fixes s :: "'b chunk_store" and kt :: "'b chunk_tools"
  shows "fence_le s (snd (append_locked kt key v sch seq batches p now s))"
  unfolding append_locked_def
proof (intro fence_io_bind)
  show "fence_le s (snd (roll_schema key v p now s))"
    by (auto simp: roll_schema_def io_bind_def on_chunk_def fence_le_def split: option.split prod.split sum.split)
  show "fence_le s (snd (open_for key v sch now s))" for s :: "'b chunk_store"
    by (simp add: open_for_def fence_le_def Let_def split: option.split)
  show "fence_le s (snd (append_batches kt i seq batches now s))" for i and s :: "'b chunk_store"
    by (auto simp: append_batches_def io_bind_def on_chunk_def fence_le_def split: option.split prod.split sum.split)
  show "fence_le s (snd (seal_full key i r sealed p now s))" for i r sealed and s :: "'b chunk_store"
    by (auto simp: seal_full_def io_bind_def on_chunk_def fence_le_def split: option.split prod.split sum.split)
qed

lemma fence_store_seal: "fence_le s (snd (store_seal i now s))"
  by (auto simp: store_seal_def io_bind_def on_chunk_def fence_le_def io_return_def Let_def
      split: option.split prod.split sum.split)

lemma fence_spill_finish: "fence_le s (snd (spill_finish h n i s))"
  by (auto simp: spill_finish_def io_bind_def on_chunk_def fence_le_def split: option.split prod.split sum.split)

lemma fence_mark: "fence_le s (snd (store_mark_committed i t s))"
  by (auto simp: store_mark_committed_def io_bind_def on_chunk_def fence_le_def
      split: option.split prod.split sum.split)

lemma fence_discard: "fence_le s (snd (discard_chunk i s))"
  by (auto simp: discard_chunk_def fence_le_def split: option.split)

lemma fold_max_start: "(m :: nat) \<le> fold (\<lambda>x m. max m (f x)) xs m"
  by (induction xs arbitrary: m) (auto intro: order_trans [OF max.cobounded1])

lemma fence_reclaim: "fence_le s (snd (reclaim cached s))"
  by (auto simp: reclaim_def fence_le_def Let_def fold_max_start)

text \<open>A chunk of an epoch that the table has reached and that is stale stays stale.\<close>

definition epoch_reached :: "'b chunk_store \<Rightarrow> 'b chunk \<Rightarrow> bool" where
  "epoch_reached s c \<longleftrightarrow> cky_epoch (ck_key c) \<le> tlv_epoch (store_liveness (cky_table (ck_key c)) s)"

lemma liveness_same: "cs_liveness s' = cs_liveness s \<Longrightarrow> store_liveness t s' = store_liveness t s"
  by (simp add: store_liveness_def)

lemma chunk_step_fence:
  assumes "chunk_step kt x y"
  shows "cs_released_watermark (fst x) \<le> cs_released_watermark (fst y) \<and>
    (epoch_reached (fst x) c \<longrightarrow> epoch_reached (fst y) c \<and>
      (chunk_is_stale (fst x) c \<longrightarrow> chunk_is_stale (fst y) c))"
proof -
  have plain: "?thesis" if "fence_le (fst x) (fst y)"
    using that by (simp add: fence_le_def epoch_reached_def chunk_is_stale_def store_is_stale_def liveness_same [of "fst y" "fst x"])
  show ?thesis using assms
  proof (cases rule: chunk_step.cases)
    case (Append_Ok batches sch key v seq p now s r s' ps due)
    then show ?thesis using fence_append_locked [of s kt key v sch seq batches p now] by (intro plain) simp
  next
    case (Append_Failed batches sch key v seq p now s e s' ps due)
    then show ?thesis using fence_append_locked [of s kt key v sch seq batches p now] by (intro plain) simp
  next
    case (Ddl s ps due op table)
    then show ?thesis
      by (auto simp: observe_ddl_def Let_def epoch_reached_def chunk_is_stale_def store_is_stale_def
          store_liveness_def bm_simps split: option.splits)
  qed (((intro plain, simp add: fence_store_seal fence_spill_finish fence_mark fence_discard fence_reclaim
      note_batch_id_def store_note_flush_failure_def fence_on_chunk; fail)
    | (intro plain, simp add: fence_le_def set_wal_segment_def plan_flush_def Let_def; fail))+)
qed

subsection \<open>Runs whose commits are those of the catalog\<close>

text \<open>A chunk is marked with the snapshot of its commit, and a batch id is noted on one chunk only.\<close>

definition marks_match :: "chunk_commits \<Rightarrow> 'b chunk_store \<Rightarrow> bool" where
  "marks_match C s \<longleftrightarrow>
     (\<forall>j d. bm_get (cs_chunks s) j = Some d \<longrightarrow>
        (\<forall>t. ck_committed_snapshot d = Some t \<longrightarrow> (\<exists>b. C j = Some (b, t))) \<and>
        (\<forall>k b t. ck_batch_id d = Some b \<and> C k = Some (b, t) \<longrightarrow> k = j))"

inductive fenced_run :: "'b chunk_tools \<Rightarrow> chunk_commits \<Rightarrow> 'b store_state \<Rightarrow> 'b store_state \<Rightarrow> bool"
  for kt :: "'b chunk_tools" and C :: chunk_commits where
  Fenced_Start: "marks_match C (fst x) \<Longrightarrow> fenced_run kt C x x"
| Fenced_Step: "fenced_run kt C x y \<Longrightarrow> chunk_step kt y z \<Longrightarrow> marks_match C (fst z) \<Longrightarrow> fenced_run kt C x z"

lemma fenced_run_marks: "fenced_run kt C x y \<Longrightarrow> marks_match C (fst y)"
  by (induction rule: fenced_run.induct)

text \<open>What became of a sealed chunk.\<close>

definition chunk_fate ::
  "'b chunk_tools \<Rightarrow> chunk_commits \<Rightarrow> nat \<Rightarrow> 'b chunk \<Rightarrow> 'b list \<Rightarrow> 'b chunk_store \<Rightarrow> bool" where
  "chunk_fate kt C i c bs s \<longleftrightarrow>
     (\<exists>c'. bm_get (cs_chunks s) i = Some c' \<and> ck_key c' = ck_key c \<and> ck_state c' \<noteq> Open \<and>
        readable_batches kt (cs_spills s) c' = bs) \<or>
     chunk_is_stale s c \<or> (\<exists>b t. C i = Some (b, t) \<and> t \<le> cs_released_watermark s)"

lemma stale_same_key: "ck_key c' = ck_key c \<Longrightarrow> chunk_is_stale s c' = chunk_is_stale s c"
  by (simp add: chunk_is_stale_def)

lemma chunk_fate_step:
  assumes step: "chunk_step kt x y" and laws: "spill_laws kt" and ok: "store_ok kt x"
    and marks: "marks_match C (fst x)" and reached: "epoch_reached (fst x) c"
    and fate: "chunk_fate kt C i c bs (fst x)"
  shows "chunk_fate kt C i c bs (fst y)"
proof -
  note fence = chunk_step_fence [OF step, of c]
  from fate consider (kept) c' where "bm_get (cs_chunks (fst x)) i = Some c'" "ck_key c' = ck_key c" "ck_state c' \<noteq> Open"
      "readable_batches kt (cs_spills (fst x)) c' = bs"
    | (gone) "chunk_is_stale (fst x) c \<or> (\<exists>b t. C i = Some (b, t) \<and> t \<le> cs_released_watermark (fst x))"
    unfolding chunk_fate_def by blast
  then show ?thesis
  proof cases
    case gone
    then show ?thesis using fence reached by (force simp: chunk_fate_def)
  next
    case kept
    have "store_keeps kt (fst x) (fst y)" using chunk_step_ok [OF step laws ok] by simp
    then consider "chunk_kept kt (fst x) (fst y) i c'" | "drop_allowed (fst x) (fst y) c'"
      using kept(1) by (auto simp: store_keeps_def)
    then show ?thesis
    proof cases
      case 1
      then show ?thesis using kept by (auto simp: chunk_kept_def chunk_fate_def)
    next
      case 2
      then show ?thesis
        using kept(1) marks fence reached stale_same_key [OF kept(2), of "fst x"]
        by (fastforce simp: drop_allowed_def chunk_fate_def marks_match_def)
    qed
  qed
qed

lemma fenced_run_fate:
  assumes "fenced_run kt C x y" "spill_laws kt" "store_ok kt x"
    and "bm_get (cs_chunks (fst x)) i = Some c" "ck_state c \<noteq> Open" "epoch_reached (fst x) c"
  shows "store_ok kt y \<and> epoch_reached (fst y) c \<and>
    chunk_fate kt C i c (readable_batches kt (cs_spills (fst x)) c) (fst y)"
  using assms
proof (induction rule: fenced_run.induct)
  case (Fenced_Step x y z)
  then have y: "store_ok kt y" "epoch_reached (fst y) c"
      "chunk_fate kt C i c (readable_batches kt (cs_spills (fst x)) c) (fst y)" by auto
  show ?case
    using chunk_step_ok [OF Fenced_Step.hyps(2) Fenced_Step.prems(1) y(1)] chunk_step_fence [OF Fenced_Step.hyps(2), of c] y
      chunk_fate_step [OF Fenced_Step.hyps(2) Fenced_Step.prems(1) y(1) fenced_run_marks [OF Fenced_Step.hyps(1)] y(2,3)]
    by auto
qed (auto simp: chunk_fate_def)

subsection \<open>A reader\<close>

text \<open>The batch ids of the files in snapshot \<open>known\<close>, and that each was noted before its commit.\<close>

definition reader_fence :: "chunk_commits \<Rightarrow> nat \<Rightarrow> string list \<Rightarrow> 'b chunk_store \<Rightarrow> bool" where
  "reader_fence C known exclude s \<longleftrightarrow>
     set exclude = {b. \<exists>j t. C j = Some (b, t) \<and> t \<le> known} \<and>
     (\<forall>j d b t. bm_get (cs_chunks s) j = Some d \<and> C j = Some (b, t) \<and> t \<le> known \<longrightarrow> ck_batch_id d = Some b)"

lemma visible_iff:
  assumes "store_ok kt (s, ps, due)"
  shows "c \<in> set (visible_chunks_excluding (Some table) known exclude s) \<longleftrightarrow>
    bm_get (cs_chunks s) (ck_id c) = Some c \<and> cky_table (ck_key c) = table \<and> \<not> chunk_is_stale s c \<and>
    (\<forall>b. ck_batch_id c = Some b \<longrightarrow> b \<notin> set exclude) \<and>
    (\<forall>t. ck_committed_snapshot c = Some t \<longrightarrow> known < t)"
proof -
  have "c \<in> set (bm_values (cs_chunks s)) \<longleftrightarrow> bm_get (cs_chunks s) (ck_id c) = Some c"
    using store_ok_chunk [OF assms] by (auto simp: bm_values_iff)
  moreover have "holds_data (ck_state c)" if "bm_get (cs_chunks s) (ck_id c) = Some c"
    using store_ok_chunk [OF assms that] by (cases "ck_state c") (auto simp: chunk_ok_def)
  ultimately show ?thesis
    by (auto simp: visible_chunks_excluding_def chunk_visible_def split: option.splits)
qed

lemma chunk_reach_watermark:
  "chunk_reach kt x y \<Longrightarrow> cs_released_watermark (fst x) \<le> cs_released_watermark (fst y)"
  by (induction rule: chunk_reach.induct) (auto dest: chunk_step_fence)


text \<open>C19: A read of a whole table takes the watermark before it lists the chunks. When a refresh of the local catalog
  reclaims a committed chunk in between, a reader with the older snapshot gets neither the chunk nor its file,
  and the answer is not marked \<open>stale\<close>.
\<close>

theorem table_read_misses_reclaimed:
  assumes ok: "store_ok kt (s, ps, due)" and c: "bm_get (cs_chunks s) i = Some c"
    and committed: "ck_committed_snapshot c = Some t" "known < t" "t \<le> cached"
    and live: "\<not> chunk_is_stale s c" "cs_released_watermark s \<le> known"
    and s': "reclaim cached s = (freed, s')" and exclude: "\<forall>b. ck_batch_id c = Some b \<longrightarrow> b \<notin> set exclude"
  shows "c \<in> set (visible_chunks_excluding (Some (cky_table (ck_key c))) known exclude s) \<and>
    \<not> sr_stale (read_table_excluding kt (cky_table (ck_key c)) known exclude s s') \<and>
    (\<forall>d \<in> set (visible_chunks_excluding (Some (cky_table (ck_key c))) known exclude s'). ck_id d \<noteq> i) \<and>
    sr_stale (read_shard_excluding kt (cky_shard (ck_key c)) known exclude s s')"
proof -
  note ci = store_ok_chunk [OF ok c]
  have flushed: "ck_state c = Flushed" using ci committed(1) by (auto simp: chunk_ok_def)
  let ?dropped = "filter (\<lambda>c. chunk_is_stale s c \<or> chunk_caught_up cached c) (bm_values (cs_chunks s))"
  have mem: "c \<in> set ?dropped"
    using c committed flushed by (auto simp: bm_values_iff chunk_caught_up_def)
  have ok': "store_ok kt (s', ps, due)" using reclaim_step [OF ok s'] by simp
  have gone: "bm_get (cs_chunks s') i = None"
    using mem ci by (auto simp: reclaim_fields(1) [OF s'] bm_get_remove_all)
  have "c \<in> set (filter (\<lambda>c. \<not> chunk_is_stale s c) ?dropped)" using mem live by simp
  from fold_max_ge [OF this, of "\<lambda>c. case ck_committed_snapshot c of Some t \<Rightarrow> t | None \<Rightarrow> 0"] committed(1)
  have "t \<le> cs_released_watermark s'" by (simp add: reclaim_fields(6) [OF s'])
  then show ?thesis
    using gone live committed exclude c ci
    by (auto simp: visible_iff [OF ok] visible_iff [OF ok'] read_table_excluding_def read_shard_excluding_def)
qed

text \<open>Reclaiming forgets a spilled chunk and leaves its file in the spill directory, where nothing refers to
  it any more.
\<close>

theorem reclaim_leaves_spill_file:
  assumes ok: "store_ok kt (s, ps, due)" and c: "bm_get (cs_chunks s) i = Some c" "ck_data c = OnDisk h"
    and committed: "ck_committed_snapshot c = Some t" "t \<le> cached"
    and s': "reclaim cached s = (freed, s')"
  shows "bm_get (cs_chunks s') i = None \<and> bm_has (cs_spills s') (sp_path h) \<and>
    (\<forall>j d. bm_get (cs_chunks s') j = Some d \<longrightarrow> on_disk d \<noteq> Some (sp_path h))"
proof -
  note ci = store_ok_chunk [OF ok c(1)]
  let ?dropped = "filter (\<lambda>c. chunk_is_stale s c \<or> chunk_caught_up cached c) (bm_values (cs_chunks s))"
  have mem: "c \<in> set ?dropped"
    using c committed ci by (auto simp: bm_values_iff chunk_caught_up_def chunk_ok_def)
  have get: "bm_get (cs_chunks s') j = (if j \<in> ck_id ` set ?dropped then None else bm_get (cs_chunks s) j)" for j
    by (simp add: reclaim_fields(1) [OF s'] bm_get_remove_all)
  have i: "i \<in> ck_id ` set ?dropped" using mem ci by force
  have path: "on_disk c = Some (sp_path h)" using c by (simp add: on_disk_def)
  have "j = i" if "bm_get (cs_chunks s) j = Some d" "on_disk d = Some (sp_path h)" for j d
    using ok that c(1) path unfolding store_ok_def prod.case chunks_inv_def by blast
  then have "on_disk d \<noteq> Some (sp_path h)" if "bm_get (cs_chunks s') j = Some d" for j d
    using that i by (auto simp: get split: if_splits)
  moreover have "bm_has (cs_spills s') (sp_path h)"
    using chunk_holds_on_disk [of kt "cs_spills s" c] ci path by (simp add: reclaim_fields(4) [OF s'])
  ultimately show ?thesis using i by (simp add: get)
qed

end
