(* ===== verification/Chunk_Demo.thy ===== *)
theory Chunk_Demo
  imports Chunk_Read
begin

text \<open>
  A concrete run of the chunk store: one batch is appended, its chunk is sealed, noted, spilled and committed. The
  witnesses of the properties of \<open>Chunk_Machine\<close> and \<open>Chunk_Read\<close>.
\<close>

text \<open>Batches of one byte, with no columns.\<close>

definition demo_kt :: "byte chunk_tools" where
  "demo_kt = \<lparr>kt_schema = \<lambda>_. [], kt_num_rows = \<lambda>_. 1, kt_memory = \<lambda>_. 1, kt_stats = \<lambda>_. [],
     kt_ipc_encode = (\<lambda>bs. if length bs < 256 then Inr bs else Inl (Io [])), kt_ipc_decode = Inr,
     kt_schema_bytes = \<lambda>_. [], kt_schema_parse = \<lambda>_. Inr [], kt_crc = \<lambda>_. 0\<rparr>"

lemma demo_laws: "spill_laws demo_kt"
  by (auto simp: spill_laws_def demo_kt_def split: if_splits)

definition demo_key :: chunk_key where
  "demo_key = \<lparr>cky_shard = \<lparr>sid_table = ''public.t'', sid_shard = ''s0'', sid_window = ''w''\<rparr>, cky_epoch = 0\<rparr>"

definition demo_empty_store :: "byte chunk_store" where
  "demo_empty_store = store_new \<lparr>csc_policy = default_seal_policy, csc_instance_id = ''n1''\<rparr>
     (ledger_new 1000 default_thresholds) bm_empty"

text \<open>The store with chunk 1 in a given state.\<close>

definition demo_chunk :: "byte chunk" where
  "demo_chunk = \<lparr>ck_id = 1, ck_key = demo_key, ck_schema_version = 1, ck_schema = [], ck_state = Open,
     ck_data = InMemory [7], ck_rows = 1, ck_bytes = 1, ck_stats = [], ck_created_at_ms = 1000,
     ck_window_end_ms = 60000, ck_sealed_at_ms = None, ck_seal_reason = None, ck_pressure_at_seal = None,
     ck_seqs = [3], ck_wal_seq_range = (3, 4), ck_committed_snapshot = None, ck_batch_id = None,
     ck_flush_attempts = 0, ck_retry_after_ms = 0\<rparr>"

definition demo_with :: "byte chunk \<Rightarrow> byte chunk_store" where
  "demo_with c = demo_empty_store\<lparr>cs_next_id := 1, cs_chunks := bm_insert 1 c bm_empty,
     cs_open := (if ck_state c = Open then bm_insert demo_key 1 bm_empty else bm_empty)\<rparr>"

lemma demo_append:
  "append_locked demo_kt demo_key 1 [] 3 [7] Normal 1000 demo_empty_store = (Inr (1, None), demo_with demo_chunk)"
  by (simp add: append_locked_def io_bind_def roll_schema_def open_for_def append_batches_def seal_full_def
      demo_empty_store_def store_new_def on_chunk_def bm_simps chunk_append_def chunk_new_def demo_kt_def
      demo_with_def demo_chunk_def io_return_def Let_def should_seal_def default_seal_policy_def extend_range_def
      stats_merge_def window_start_ms_def MINUTE_MS_def bm.ins_ins_same)

lemma demo_appended: "chunk_reach demo_kt (demo_empty_store, [], 0) (demo_with demo_chunk, [], 1)"
proof (rule chunk_reach_step)
  have "\<forall>b \<in> set [7]. kt_schema demo_kt b = []" "0 + of_nat (batches_memory demo_kt [7]) = (1 :: usize)"
    by (simp_all add: demo_kt_def batches_memory_def)
  then show "chunk_step demo_kt (demo_empty_store, [], 0) (demo_with demo_chunk, [], 1)"
    using chunk_step.Append_Ok [OF _ _ demo_append] by (metis list.distinct(1))
qed

theorem chunk_store_accounts_witness:
  "lg_used (cs_ledger (demo_with demo_chunk)) + 1 = of_nat (sum_list (map mem_bytes_of (bm_values (cs_chunks (demo_with demo_chunk)))))"
  using chunk_store_accounts [OF demo_laws demo_appended [unfolded demo_empty_store_def]] by (rule conjunct1)

lemma demo_appended_ok: "store_ok demo_kt (demo_with demo_chunk, [], 1)"
  by (rule chunk_reach_ok [OF demo_appended demo_laws]) (simp only: demo_empty_store_def store_new_ok)

subsection \<open>Sealed, noted, committed\<close>

definition demo_sealed :: "byte chunk" where
  "demo_sealed = demo_chunk\<lparr>ck_state := Sealed, ck_sealed_at_ms := Some 2000, ck_seal_reason := Some SealManual,
     ck_batch_id := Some ''b1''\<rparr>"

definition demo_done :: "byte chunk" where
  "demo_done = demo_sealed\<lparr>ck_state := Flushed, ck_committed_snapshot := Some 5\<rparr>"

abbreviation demo_v :: "byte chunk \<Rightarrow> nat \<Rightarrow> byte chunk_store" where
  "demo_v c v \<equiv> (demo_with c)\<lparr>cs_version := v\<rparr>"

lemma demo_seal: "note_batch_id 1 ''b1'' (snd (store_seal 1 2000 (demo_with demo_chunk))) = demo_v demo_sealed 1"
proof -
  have "bm_remove (1::nat) bm_empty = (bm_empty :: (nat, seal_reason \<times> pressure option) bmap)"
    by (rule bm_eqI) (simp add: bm_simps)
  moreover have "bm_remove demo_key (bm_insert demo_key (1::nat) bm_empty) = bm_empty" by (rule bm_eqI) (simp add: bm_simps)
  ultimately show ?thesis
    by (simp add: store_seal_def note_batch_id_def demo_with_def demo_chunk_def demo_sealed_def demo_empty_store_def
        store_new_def on_chunk_def bm_simps io_bind_def seal_tagged_def transition_def close_open_def bm.ins_ins_same)
qed

lemma demo_mark: "snd (store_mark_committed 1 5 (demo_v demo_sealed 1)) = demo_v demo_done 2"
  by (simp add: store_mark_committed_def demo_with_def demo_sealed_def demo_done_def demo_chunk_def on_chunk_def
      bm_simps io_bind_def chunk_mark_committed_def transition_def bm.ins_ins_same)

lemma demo_sealed_ok: "store_ok demo_kt (demo_v demo_sealed 1, [], 1)"
proof -
  have "chunk_reach demo_kt (demo_with demo_chunk, [], 1) (demo_v demo_sealed 1, [], 1)"
    using chunk_reach.Step [OF chunk_reach_step [OF chunk_step.Seal] chunk_step.Note_Batch]
    unfolding demo_seal [symmetric] .
  then show ?thesis using chunk_reach_ok demo_laws demo_appended_ok by blast
qed

definition demo_commits :: chunk_commits where
  "demo_commits i = (if i = 1 then Some (''b1'', 5) else None)"

lemma demo_mark_step: "chunk_step demo_kt (demo_v demo_sealed 1, [], 1) (demo_v demo_done 2, [], 1)"
  using chunk_step.Mark_Committed [of demo_kt "demo_v demo_sealed 1" "[]" 1 1 5] unfolding demo_mark .

lemma demo_chunks: "bm_get (cs_chunks (demo_with c)) i = (if i = 1 then Some c else None)"
  by (simp add: demo_with_def bm_simps)

lemma demo_live: "\<not> chunk_is_stale (demo_v c v) demo_sealed" "\<not> chunk_is_stale (demo_v c v) demo_done"
  by (simp_all add: chunk_is_stale_def store_is_stale_def store_liveness_def demo_with_def demo_empty_store_def
      store_new_def demo_sealed_def demo_done_def demo_chunk_def demo_key_def cky_table_def liveness_default_def)

lemma demo_watermark: "cs_released_watermark (demo_with c) = 0"
  by (simp add: demo_with_def demo_empty_store_def store_new_def)

lemma demo_chunk_run: "fenced_run demo_kt demo_commits (demo_v demo_sealed 1, [], 1) (demo_v demo_done 2, [], 1)"
proof (rule fenced_run.Fenced_Step)
  show "fenced_run demo_kt demo_commits (demo_v demo_sealed 1, [], 1) (demo_v demo_sealed 1, [], 1)"
    by (rule fenced_run.Fenced_Start)
       (auto simp: marks_match_def demo_chunks demo_commits_def demo_sealed_def demo_chunk_def split: if_splits)
  show "chunk_step demo_kt (demo_v demo_sealed 1, [], 1) (demo_v demo_done 2, [], 1)" by (rule demo_mark_step)
qed (auto simp: marks_match_def demo_chunks demo_commits_def demo_done_def demo_sealed_def demo_chunk_def split: if_splits)


lemma demo_done_ok: "store_ok demo_kt (demo_v demo_done 2, [], 1)"
  using chunk_step_ok [OF demo_mark_step demo_laws demo_sealed_ok] by blast

theorem table_read_misses_reclaimed_witness:
  "\<not> sr_stale (read_table_excluding demo_kt ''public.t'' 4 [] (demo_v demo_done 2) (snd (reclaim 5 (demo_v demo_done 2)))) \<and>
   1 \<notin> ck_id ` set (visible_chunks_excluding (Some ''public.t'') 4 [] (snd (reclaim 5 (demo_v demo_done 2))))"
proof -
  have "cky_table (ck_key demo_done) = ''public.t''" "ck_committed_snapshot demo_done = Some 5"
    by (simp_all add: demo_done_def demo_sealed_def demo_chunk_def demo_key_def cky_table_def)
  then show ?thesis
    using table_read_misses_reclaimed [OF demo_done_ok, of 1 demo_done 5 4 5 _ _ "[]"] demo_live(2)
    by (auto simp: demo_chunks demo_watermark prod_eq_iff)
qed

subsection \<open>Spilled, committed, reclaimed\<close>

definition demo_handle :: spill_handle where
  "demo_handle = \<lparr>sp_path = ''c1-u.ipc.lz4'', sp_file_bytes = 65, sp_mem_bytes = 1, sp_rows = 1, sp_wal_segment = 0,
     sp_wal_seq_range = (3, 4), sp_crc = 0\<rparr>"

lemma demo_spill:
  "\<exists>dir. build_spill demo_kt True ''u'' 0 [7] demo_sealed (cs_spills (demo_v demo_sealed 1)) = (Inr demo_handle, dir)"
proof -
  have "dec_digits 1 = ''1''" by code_simp
  then show ?thesis
    by (simp add: build_spill_def write_spill_def encode_batches_def demo_kt_def demo_sealed_def demo_chunk_def demo_handle_def
        length_spill_bytes Let_def)
qed

theorem spill_file_roundtrip_witness:
  "\<exists>h dir. read_spill demo_kt h dir = Inr [7] \<and> sp_rows h = 1"
proof -
  have "\<exists>h dir. write_spill demo_kt True ''c1-u'' [7] \<lparr>spm_wal_segment = 0, spm_wal_seq_range = (3, 4), spm_rows = 1,
      spm_mem_bytes = 1\<rparr> bm_empty = (Inr h, dir) \<and> sp_rows h = 1"
    by (simp add: write_spill_def encode_batches_def demo_kt_def Let_def)
  moreover have "spill_meta_fits \<lparr>spm_wal_segment = 0, spm_wal_seq_range = (3, 4), spm_rows = 1, spm_mem_bytes = 1\<rparr>"
    by (simp add: spill_meta_fits_def)
  ultimately show ?thesis using spill_file_roundtrip [OF _ demo_laws] by blast
qed

definition demo_spilled :: "byte chunk" where
  "demo_spilled = demo_sealed\<lparr>ck_data := OnDisk demo_handle, ck_state := Flushed, ck_committed_snapshot := Some 5\<rparr>"

lemma demo_spilled_store: "\<exists>s. store_ok demo_kt (s, [], 1) \<and> bm_get (cs_chunks s) 1 = Some demo_spilled"
proof -
  obtain dir where dir: "build_spill demo_kt True ''u'' 0 [7] demo_sealed (cs_spills (demo_v demo_sealed 1)) = (Inr demo_handle, dir)"
    using demo_spill by blast
  let ?s1 = "(demo_v demo_sealed 1)\<lparr>cs_spills := dir\<rparr>"
  have begin1: "chunk_step demo_kt (demo_v demo_sealed 1, [], 1) (?s1, [] @ (demo_handle, ck_bytes demo_sealed, 1) # [], 1)"
    using chunk_step.Spill_Begin [OF _ dir, of 1 "[]" 1]
    by (simp add: spill_begin_def demo_chunks needs_spill_def demo_sealed_def demo_chunk_def mem_batches_def
        is_in_memory_def spill_fits_def demo_with_def demo_empty_store_def store_new_def purge_leftover_spills_def
        bm_has_def bm_simps)
  let ?s2 = "snd (spill_finish demo_handle (ck_bytes demo_sealed) 1 ?s1)"
  let ?s3 = "snd (store_mark_committed 1 5 ?s2)"
  let ?c = "demo_sealed\<lparr>ck_state := Spilled, ck_data := OnDisk demo_handle\<rparr>"
  have "chunk_reach demo_kt (demo_v demo_sealed 1, [], 1) (?s3, [] @ [], 1)"
    using chunk_reach.Step [OF chunk_reach.Step [OF chunk_reach_step [OF begin1] chunk_step.Spill_End] chunk_step.Mark_Committed]
    by blast
  then have ok: "store_ok demo_kt (?s3, [], 1)" using chunk_reach_ok demo_laws demo_sealed_ok by fastforce
  have "bm_get (cs_chunks ?s2) 1 = Some ?c"
    by (simp add: spill_finish_def demo_chunks on_chunk_def io_bind_def attach_spill_def transition_def demo_sealed_def
        demo_chunk_def bm_simps)
  then have c: "bm_get (cs_chunks ?s3) 1 = Some demo_spilled"
    by (simp add: store_mark_committed_def on_chunk_def io_bind_def chunk_mark_committed_def transition_def bm_simps
        demo_sealed_def demo_chunk_def demo_spilled_def)
  with ok show ?thesis by blast
qed

theorem reclaim_leaves_spill_file_witness:
  "\<exists>s :: byte chunk_store. bm_get (cs_chunks s) 1 \<noteq> None \<and> bm_get (cs_chunks (snd (reclaim 5 s))) 1 = None \<and>
     bm_has (cs_spills (snd (reclaim 5 s))) ''c1-u.ipc.lz4''"
proof -
  obtain s where s: "store_ok demo_kt (s, [], 1)" "bm_get (cs_chunks s) 1 = Some demo_spilled"
    using demo_spilled_store by blast
  have "ck_data demo_spilled = OnDisk demo_handle" "ck_committed_snapshot demo_spilled = Some 5"
    by (simp_all add: demo_spilled_def)
  from reclaim_leaves_spill_file [OF s this order_refl, of "fst (reclaim 5 s)" "snd (reclaim 5 s)"] s(2)
  show ?thesis by - (rule exI [of _ s], simp add: demo_handle_def)
qed

end
