(* ===== verification/Stat_Bounds.thy ===== *)
theory Stat_Bounds
  imports Column_Stats Schema_Evolution Catalog_Types Le_Bytes
begin

text \<open>
  The bounds of a column that a file manifest carries (\<open>compute_stats_lite\<close>, \<open>encode_bound\<close> and
  \<open>decode_bound\<close> of \<open>crates/model/src/meta.rs\<close>). An Arrow array is the list of its values, \<open>None\<close> for null;
  \<open>batch_view\<close> lists the columns of a record batch. In \<open>Timestamp n\<close> the unit is \<open>n mod 4\<close>: seconds,
  milliseconds, microseconds, nanoseconds, and the rest is the time zone; \<open>Time32\<close> and \<open>Time64\<close> carry the same
  units. A 32-bit float is given by the 64-bit float it converts to.
\<close>

datatype stat_bound = BI int | BU nat | BF f64 | BB bytes

text \<open>\<open>as f64\<close>: round to nearest, ties to even. The exponent is that of the leading bit.\<close>

fun bit_length :: "nat \<Rightarrow> nat" where
  "bit_length n = (if n = 0 then 0 else Suc (bit_length (n div 2)))"

declare bit_length.simps [simp del]

definition round_even :: "nat \<Rightarrow> nat \<Rightarrow> nat" where
  "round_even m k =
     (let q = m div 2 ^ k; r = m mod 2 ^ k; half = 2 ^ (k - 1) in
      if k = 0 then m
      else if r > half \<or> (r = half \<and> odd q) then q + 1 else q)"

definition f64_of_nat :: "nat \<Rightarrow> f64" where
  "f64_of_nat m =
     (if m = 0 then 0
      else
        let e = bit_length m - 1;
            mant = (if e \<le> 52 then m * 2 ^ (52 - e) else round_even m (e - 52))
        in of_nat ((e + 1022) * 2 ^ 52 + mant))"

definition f64_of_int :: "int \<Rightarrow> f64" where
  "f64_of_int i = (if i < 0 then f64_of_nat (nat (- i)) + 2 ^ 63 else f64_of_nat (nat i))"

fun bound_as_f64 :: "stat_bound \<Rightarrow> f64 option" where
  "bound_as_f64 (BI v) = Some (f64_of_int v)"
| "bound_as_f64 (BU v) = Some (f64_of_nat v)"
| "bound_as_f64 (BF v) = Some v"
| "bound_as_f64 (BB v) = None"

fun bound_comparable :: "stat_bound \<Rightarrow> stat_bound \<Rightarrow> bool" where
  "bound_comparable (BB _) (BB _) = True"
| "bound_comparable (BB _) b = False"
| "bound_comparable a (BB _) = False"
| "bound_comparable _ _ = True"

fun bytes_cmp :: "bytes \<Rightarrow> bytes \<Rightarrow> ordering" where
  "bytes_cmp [] [] = Equal"
| "bytes_cmp [] (b # bs) = Less"
| "bytes_cmp (a # as) [] = Greater"
| "bytes_cmp (a # as) (b # bs) = (if a < b then Less else if b < a then Greater else bytes_cmp as bs)"

fun bound_cmp :: "stat_bound \<Rightarrow> stat_bound \<Rightarrow> ordering option" where
  "bound_cmp (BI a) (BI b) = Some (cmp_of a b)"
| "bound_cmp (BU a) (BU b) = Some (cmp_of a b)"
| "bound_cmp (BF a) (BF b) = f64_partial_cmp a b"
| "bound_cmp (BB a) (BB b) = Some (bytes_cmp a b)"
| "bound_cmp (BI a) (BU b) = (if a < 0 then Some Less else Some (cmp_of (nat a) b))"
| "bound_cmp (BU a) (BI b) = (if b < 0 then Some Greater else Some (cmp_of a (nat b)))"
| "bound_cmp (BF a) b = (case bound_as_f64 b of None \<Rightarrow> None | Some y \<Rightarrow> f64_partial_cmp a y)"
| "bound_cmp a (BF b) = (case bound_as_f64 a of None \<Rightarrow> None | Some x \<Rightarrow> f64_partial_cmp x b)"
| "bound_cmp _ _ = None"

subsection \<open>Codec\<close>

definition i64_to_le :: "int \<Rightarrow> bytes" where
  "i64_to_le v = le_bytes 8 (nat (v mod 2 ^ 64))"

definition i64_from_le :: "bytes \<Rightarrow> int" where
  "i64_from_le bs = (let n = int (le_nat bs) in if n < 2 ^ 63 then n else n - 2 ^ 64)"

fun is_unsigned_type :: "data_type \<Rightarrow> bool" where
  "is_unsigned_type UInt8 = True" | "is_unsigned_type UInt16 = True"
| "is_unsigned_type UInt32 = True" | "is_unsigned_type UInt64 = True"
| "is_unsigned_type _ = False"

fun is_float_type :: "data_type \<Rightarrow> bool" where
  "is_float_type Float32 = True" | "is_float_type Float64 = True" | "is_float_type _ = False"

fun is_bytes_type :: "data_type \<Rightarrow> bool" where
  "is_bytes_type Utf8 = True" | "is_bytes_type LargeUtf8 = True"
| "is_bytes_type Binary = True" | "is_bytes_type LargeBinary = True"
| "is_bytes_type _ = False"

fun is_signed_type :: "data_type \<Rightarrow> bool" where
  "is_signed_type Int8 = True" | "is_signed_type Int16 = True"
| "is_signed_type Int32 = True" | "is_signed_type Int64 = True"
| "is_signed_type Date32 = True" | "is_signed_type Date64 = True"
| "is_signed_type (Time32 _) = True" | "is_signed_type (Time64 _) = True"
| "is_signed_type (Timestamp _) = True"
| "is_signed_type _ = False"

fun encode_bound :: "data_type \<Rightarrow> stat_bound \<Rightarrow> bytes" where
  "encode_bound dt (BU v) = (if is_unsigned_type dt then le_bytes 8 v else [])"
| "encode_bound dt (BF v) = (if is_float_type dt then le_bytes 8 (unat v) else [])"
| "encode_bound dt (BB v) = (if is_bytes_type dt then v else [])"
| "encode_bound dt (BI v) = i64_to_le v"

definition decode_bound :: "data_type \<Rightarrow> bytes \<Rightarrow> stat_bound option" where
  "decode_bound dt bs =
     (if is_signed_type dt then (if length bs = 8 then Some (BI (i64_from_le bs)) else None)
      else if is_unsigned_type dt then (if length bs = 8 then Some (BU (le_nat bs)) else None)
      else if is_float_type dt then (if length bs = 8 then Some (BF (of_nat (le_nat bs))) else None)
      else if is_bytes_type dt then Some (BB bs)
      else None)"

subsection \<open>Statistics of a batch\<close>

text \<open>A column: its name, its type and its values; a value is given as the bound that the source makes of it.\<close>

record column =
  co_name :: string
  co_type :: data_type
  co_values :: "stat_bound option list"

type_synonym batch_view = "column list"

definition column_nulls :: "column \<Rightarrow> nat" where
  "column_nulls c = length (filter (\<lambda>v. v = None) (co_values c))"

definition view_column :: "string \<Rightarrow> batch_view \<Rightarrow> column option" where
  "view_column name b = find (\<lambda>c. co_name c = name) b"

text \<open>The array types that the source downcasts to; for times and timestamps only one unit each.\<close>

fun bounded_array :: "data_type \<Rightarrow> bool" where
  "bounded_array (Time32 u) \<longleftrightarrow> u mod 4 = 0"
| "bounded_array (Time64 u) \<longleftrightarrow> u mod 4 = 2"
| "bounded_array (Timestamp u) \<longleftrightarrow> u mod 4 = 2"
| "bounded_array Boolean = False"
| "bounded_array (OtherType _) = False"
| "bounded_array _ = True"

fun widen_bounds :: "stat_bound list \<Rightarrow> stat_bound \<times> stat_bound \<Rightarrow> stat_bound \<times> stat_bound" where
  "widen_bounds [] lh = lh"
| "widen_bounds (v # vs) (lo, hi) =
     widen_bounds vs
       (if bound_cmp v lo = Some Less then v else lo,
        if bound_cmp v hi = Some Greater then v else hi)"

definition array_bounds :: "column \<Rightarrow> (stat_bound \<times> stat_bound) option" where
  "array_bounds c =
     (if \<not> bounded_array (co_type c) then None
      else (case List.map_filter id (co_values c) of
              [] \<Rightarrow> None
            | v # vs \<Rightarrow> Some (widen_bounds vs (v, v))))"

definition column_lite :: "string \<Rightarrow> column \<Rightarrow> column_stat_lite" where
  "column_lite name c =
     (let (lo, hi) = (case array_bounds c of
          Some (lo, hi) \<Rightarrow> (encode_bound (co_type c) lo, encode_bound (co_type c) hi)
        | None \<Rightarrow> ([], []))
      in \<lparr>cs_name = name, cs_min = lo, cs_max = hi, cs_null_count = column_nulls c\<rparr>)"

definition compute_stats_lite :: "batch_view \<Rightarrow> string list \<Rightarrow> column_stat_lite list" where
  "compute_stats_lite b columns =
     List.map_filter (\<lambda>name. map_option (column_lite name) (view_column name b)) columns"

subsection \<open>Which columns\<close>

definition schema_has :: "schema \<Rightarrow> string \<Rightarrow> bool" where
  "schema_has s name \<longleftrightarrow> name \<in> f_name ` set s"

definition default_sort_columns :: "schema \<Rightarrow> string list" where
  "default_sort_columns s = (if schema_has s ''event_time'' then [''event_time''] else [])"

definition sort_columns_for :: "schema \<Rightarrow> string list \<Rightarrow> string list" where
  "sort_columns_for s declared =
     (let cols = filter (schema_has s) declared in if cols \<noteq> [] then cols else default_sort_columns s)"

text \<open>\<open>a.value(0)\<close> is the stored value of the first row, also when that row is null: \<open>raw0\<close> gives it. Integer
  division in Rust truncates, multiplication by the length of a unit overflows only outside the range of times.\<close>

definition trunc_div :: "int \<Rightarrow> int \<Rightarrow> int" where
  "trunc_div a b = (if a < 0 then - (- a div b) else a div b)"

definition partition_time_ms :: "(column \<Rightarrow> int) \<Rightarrow> batch_view \<Rightarrow> string list \<Rightarrow> int option" where
  "partition_time_ms raw0 b declared =
     (case (case find (\<lambda>c. view_column c b \<noteq> None) declared of
              Some c \<Rightarrow> view_column c b
            | None \<Rightarrow> view_column ''event_time'' b) of
        None \<Rightarrow> None
      | Some c \<Rightarrow>
          if column_nulls c = length (co_values c) then None
          else (case co_type c of
                  Int64 \<Rightarrow> Some (raw0 c)
                | Timestamp u \<Rightarrow>
                    (if u mod 4 = 1 then Some (raw0 c)
                     else if u mod 4 = 0 then Some (raw0 c * 1000)
                     else if u mod 4 = 2 then Some (trunc_div (raw0 c) 1000)
                     else Some (trunc_div (raw0 c) 1000000))
                | Date32 \<Rightarrow> Some (raw0 c * 86400000)
                | _ \<Rightarrow> None))"

subsection \<open>Lemmas\<close>

text \<open>A value of a column of type \<open>dt\<close>.\<close>

fun bound_of_type :: "data_type \<Rightarrow> stat_bound \<Rightarrow> bool" where
  "bound_of_type dt (BI v) \<longleftrightarrow> is_signed_type dt \<and> - (2 ^ 63) \<le> v \<and> v < 2 ^ 63"
| "bound_of_type dt (BU v) \<longleftrightarrow> is_unsigned_type dt \<and> v < 2 ^ 64"
| "bound_of_type dt (BF v) \<longleftrightarrow> is_float_type dt"
| "bound_of_type dt (BB v) \<longleftrightarrow> is_bytes_type dt"

lemma type_family:
  "is_signed_type dt \<Longrightarrow> \<not> is_unsigned_type dt \<and> \<not> is_float_type dt \<and> \<not> is_bytes_type dt"
  "is_unsigned_type dt \<Longrightarrow> \<not> is_signed_type dt \<and> \<not> is_float_type dt \<and> \<not> is_bytes_type dt"
  "is_float_type dt \<Longrightarrow> \<not> is_signed_type dt \<and> \<not> is_unsigned_type dt \<and> \<not> is_bytes_type dt"
  "is_bytes_type dt \<Longrightarrow> \<not> is_signed_type dt \<and> \<not> is_unsigned_type dt \<and> \<not> is_float_type dt"
  by (cases dt; simp)+

lemma i64_le_roundtrip: "- (2 ^ 63) \<le> v \<Longrightarrow> v < 2 ^ 63 \<Longrightarrow> i64_from_le (i64_to_le v) = v"
proof -
  assume v: "- (2 ^ 63) \<le> v" "v < 2 ^ 63"
  have "nat (v mod 2 ^ 64) < 256 ^ 8" by (simp add: nat_less_iff)
  then have "int (le_nat (i64_to_le v)) = v mod 2 ^ 64"
    by (simp add: i64_to_le_def le_nat_le_bytes_id del: power_numeral)
  moreover have "v mod 2 ^ 64 = (if v < 0 then v + 2 ^ 64 else v)"
  proof (cases "v < 0")
    case True
    then have "(v + 2 ^ 64) mod 2 ^ 64 = v + 2 ^ 64" using v by (intro mod_pos_pos_trivial) auto
    then show ?thesis using True by simp
  qed (use v in simp)
  ultimately show ?thesis using v by (simp add: i64_from_le_def Let_def)
qed

lemma decode_encode_bound:
  assumes "bound_of_type dt b"
  shows "decode_bound dt (encode_bound dt b) = Some b"
proof (cases b)
  case (BI v)
  then show ?thesis
    using assms i64_le_roundtrip [of v] by (simp add: decode_bound_def) (simp add: i64_to_le_def)
next
  case (BU v)
  then show ?thesis using assms type_family(2) [of dt] by (simp add: decode_bound_def le_nat_le_bytes_id)
next
  case (BF v)
  have "unat v < 256 ^ 8" using unsigned_less [of v] by simp
  then show ?thesis using BF assms type_family(3) [of dt] by (simp add: decode_bound_def le_nat_le_bytes_id)
next
  case (BB v)
  then show ?thesis using assms type_family(4) [of dt] by (simp add: decode_bound_def)
qed

text \<open>The order of the bounds of one type. Only NaN is not ordered.\<close>

fun bound_nan :: "stat_bound \<Rightarrow> bool" where
  "bound_nan (BF v) = f64_is_nan v" | "bound_nan _ = False"

definition bound_le :: "stat_bound \<Rightarrow> stat_bound \<Rightarrow> bool" where
  "bound_le a b \<longleftrightarrow> bound_cmp a b = Some Less \<or> bound_cmp a b = Some Equal"

lemma bytes_cmp_refl [simp]: "bytes_cmp a a = Equal"
  by (induction a) auto

lemma bytes_cmp_flip: "bytes_cmp a b = Greater \<longleftrightarrow> bytes_cmp b a = Less"
  by (induction a b rule: bytes_cmp.induct) auto

lemma bytes_cmp_equal: "bytes_cmp a b = Equal \<longleftrightarrow> a = b"
  by (induction a b rule: bytes_cmp.induct) auto

lemma bytes_cmp_trans: "bytes_cmp a b = Less \<Longrightarrow> bytes_cmp b c = Less \<Longrightarrow> bytes_cmp a c = Less"
proof (induction a b arbitrary: c rule: bytes_cmp.induct)
  case (2 b bs)
  then show ?case by (cases c) auto
next
  case (4 a as b bs)
  then show ?case by (cases c) (auto split: if_splits)
qed auto

definition same_family :: "stat_bound \<Rightarrow> stat_bound \<Rightarrow> bool" where
  "same_family a b \<longleftrightarrow> (case (a, b) of (BI _, BI _) \<Rightarrow> True | (BU _, BU _) \<Rightarrow> True
     | (BF _, BF _) \<Rightarrow> True | (BB _, BB _) \<Rightarrow> True | _ \<Rightarrow> False)"

lemma bound_of_type_family: "bound_of_type dt a \<Longrightarrow> bound_of_type dt b \<Longrightarrow> same_family a b"
  by (cases a; cases b) (auto simp: same_family_def dest: type_family)

lemma bytes_cmp_le: "bytes_cmp a b \<noteq> Greater \<longleftrightarrow> bytes_cmp a b = Less \<or> a = b"
  using bytes_cmp_equal [of a b] by (cases "bytes_cmp a b") auto

lemma bound_le_simps [simp]:
  "bound_le (BI a) (BI b) \<longleftrightarrow> a \<le> b" "bound_le (BU m) (BU n) \<longleftrightarrow> m \<le> n"
  "bound_le (BF x) (BF y) \<longleftrightarrow> \<not> f64_is_nan x \<and> \<not> f64_is_nan y \<and> f64_rank x \<le> f64_rank y"
  "bound_le (BB s) (BB t) \<longleftrightarrow> bytes_cmp s t = Less \<or> s = t"
  by (auto simp: bound_le_def f64_partial_cmp_def bytes_cmp_equal)

lemma same_family_cases:
  assumes "same_family a b"
  obtains x y where "a = BI x" "b = BI y" | x y where "a = BU x" "b = BU y"
    | x y where "a = BF x" "b = BF y" | x y where "a = BB x" "b = BB y"
  using assms by (cases a; cases b) (auto simp: same_family_def)

lemma bound_le_trans:
  assumes "same_family a b" "same_family b c" "bound_le a b" "bound_le b c"
  shows "bound_le a c"
  using assms(1)
proof (cases rule: same_family_cases)
  case (1 x y)
  with assms show ?thesis by (cases c) (auto simp: same_family_def)
next
  case (2 x y)
  with assms show ?thesis by (cases c) (auto simp: same_family_def)
next
  case (3 x y)
  with assms show ?thesis by (cases c) (auto simp: same_family_def)
next
  case (4 x y)
  with assms bytes_cmp_trans [of x y] show ?thesis by (cases c) (auto simp: same_family_def)
qed

lemma bound_le_total:
  assumes "same_family a b" "\<not> bound_nan a" "\<not> bound_nan b"
  shows "bound_le a b \<longleftrightarrow> bound_cmp a b \<noteq> Some Greater" "bound_cmp a b = Some Greater \<longleftrightarrow> bound_cmp b a = Some Less"
  using assms
  by (cases rule: same_family_cases; auto simp: f64_partial_cmp_def bytes_cmp_flip bytes_cmp_le [symmetric])+

lemma bound_le_refl: "\<not> bound_nan a \<Longrightarrow> bound_le a a"
  by (cases a) (auto simp: bound_le_def f64_partial_cmp_def)

lemma widen_bounds_family:
  "\<forall>x \<in> insert lo (insert hi (set vs)). bound_of_type dt x \<Longrightarrow> widen_bounds vs (lo, hi) = (lo', hi') \<Longrightarrow>
    bound_of_type dt lo' \<and> bound_of_type dt hi'"
  by (induction vs arbitrary: lo hi) (auto split: if_splits)

text \<open>The bounds cover the values they are made of, and widening never loses what they covered.\<close>

lemma widen_bounds_covers:
  assumes "\<forall>x \<in> insert lo (insert hi (set vs)). bound_of_type dt x \<and> \<not> bound_nan x"
    and "widen_bounds vs (lo, hi) = (lo', hi')"
  shows "bound_le lo' lo \<and> bound_le hi hi' \<and> (\<forall>x \<in> set vs. bound_le lo' x \<and> bound_le x hi')"
  using assms
proof (induction vs arbitrary: lo hi)
  case Nil
  then show ?case by (auto intro: bound_le_refl)
next
  case (Cons v vs)
  let ?lo = "if bound_cmp v lo = Some Less then v else lo"
  let ?hi = "if bound_cmp v hi = Some Greater then v else hi"
  have fam: "same_family x y" if "x \<in> insert lo (insert hi (set (v # vs)))" "y \<in> insert lo (insert hi (set (v # vs)))" for x y
    using that Cons.prems(1) bound_of_type_family by blast
  have new: "\<forall>x \<in> insert ?lo (insert ?hi (set vs)). bound_of_type dt x \<and> \<not> bound_nan x" using Cons.prems(1) by simp
  have eq: "widen_bounds vs (?lo, ?hi) = (lo', hi')" using Cons.prems(2) by simp
  have ih: "bound_le lo' ?lo" "bound_le ?hi hi'" "\<forall>x \<in> set vs. bound_le lo' x \<and> bound_le x hi'"
    using Cons.IH [OF new eq] by auto
  have ty: "bound_of_type dt lo'" "bound_of_type dt hi'" using widen_bounds_family [OF _ eq] new by auto
  have nn: "\<not> bound_nan v" "\<not> bound_nan lo" "\<not> bound_nan hi" and vt: "bound_of_type dt v" "bound_of_type dt lo" "bound_of_type dt hi"
    using Cons.prems(1) by auto
  have lo: "bound_le ?lo lo \<and> bound_le ?lo v"
    using bound_le_total [of v lo] bound_le_total [of lo v] bound_le_refl nn fam [of v lo] fam [of lo v]
    by (auto simp: bound_le_def)
  have hi: "bound_le hi ?hi \<and> bound_le v ?hi"
    using bound_le_total [of v hi] bound_le_total [of hi v] bound_le_refl nn fam [of v hi] fam [of hi v]
    by (auto simp: bound_le_def)
  have f: "same_family lo' ?lo" "same_family ?lo lo" "same_family ?lo v" "same_family ?hi hi'" "same_family hi ?hi" "same_family v ?hi"
    using ty vt by (auto intro: bound_of_type_family)
  show ?case
    using ih lo hi bound_le_trans [OF f(1,2) ih(1)] bound_le_trans [OF f(1,3) ih(1)]
      bound_le_trans [OF f(5,4) _ ih(2)] bound_le_trans [OF f(6,4) _ ih(2)] by auto
qed

lemma array_bounds_cover:
  assumes "array_bounds c = Some (lo, hi)" "\<forall>v. Some v \<in> set (co_values c) \<longrightarrow> bound_of_type (co_type c) v \<and> \<not> bound_nan v"
    and "Some x \<in> set (co_values c)"
  shows "bound_le lo x \<and> bound_le x hi \<and> bound_of_type (co_type c) lo \<and> bound_of_type (co_type c) hi"
proof -
  obtain v vs where vs: "List.map_filter id (co_values c) = v # vs" "widen_bounds vs (v, v) = (lo, hi)"
    using assms(1) by (auto simp: array_bounds_def split: if_splits list.splits)
  have mem: "y \<in> set (v # vs) \<longleftrightarrow> Some y \<in> set (co_values c)" for y
    unfolding vs(1) [symmetric] by (force simp: List.map_filter_def)
  then have all: "\<forall>y \<in> insert v (insert v (set vs)). bound_of_type (co_type c) y \<and> \<not> bound_nan y"
    using assms(2) by auto
  have "bound_le lo v" "bound_le v hi" "\<forall>x \<in> set vs. bound_le lo x \<and> bound_le x hi"
    using widen_bounds_covers [OF all vs(2)] by auto
  moreover have "x \<in> set (v # vs)" using mem assms(3) by blast
  ultimately show ?thesis using widen_bounds_family [OF _ vs(2)] all by auto
qed

end
