(* ===== verification/Prune.thy ===== *)
theory Prune
  imports Stat_Bounds
begin

text \<open>
  Which files a query need not read (\<open>crates/query/src/prune.rs\<close>): the single-column comparisons of the filters
  against the bounds in the manifest. Expressions and scalar values are DataFusion's, with the shapes that the
  source distinguishes; a 32-bit float literal is given by the 64-bit float it converts to. What a filter means is
  the interface \<open>filter_semantics\<close>.
\<close>

datatype operator = OpAnd | OpOr | OpGt | OpGtEq | OpLt | OpLtEq | OpEq | OpNotEq | OpOther nat

datatype scalar_value =
    SvInt8 "int option" | SvInt16 "int option" | SvInt32 "int option" | SvInt64 "int option"
  | SvUInt8 "nat option" | SvUInt16 "nat option" | SvUInt32 "nat option" | SvUInt64 "nat option"
  | SvFloat32 "f64 option" | SvFloat64 "f64 option"
  | SvUtf8 "bytes option" | SvLargeUtf8 "bytes option" | SvBinary "bytes option" | SvLargeBinary "bytes option"
  | SvDate32 "int option" | SvTsSecond "int option" | SvTsMilli "int option" | SvTsMicro "int option"
  | SvTsNano "int option" | SvOther nat

datatype expr = Column string | Literal scalar_value | BinaryExpr expr operator expr | OtherExpr nat

datatype scalar_kind = KInt | KUInt | KFloat | KBytes | KDate32 | KTsSecond | KTsMilli | KTsMicro | KTsNano

record constraint =
  cn_column :: string
  cn_op :: operator
  cn_value :: stat_bound
  cn_kind :: scalar_kind

subsection \<open>Constraints of the filters\<close>

fun scalar_matches_column :: "scalar_kind \<Rightarrow> data_type \<Rightarrow> bool" where
  "scalar_matches_column KInt dt \<longleftrightarrow> dt \<in> {Int8, Int16, Int32, Int64, UInt8, UInt16, UInt32, UInt64}"
| "scalar_matches_column KUInt dt \<longleftrightarrow> dt \<in> {Int8, Int16, Int32, Int64, UInt8, UInt16, UInt32, UInt64}"
| "scalar_matches_column KFloat dt \<longleftrightarrow> dt \<in> {Float32, Float64}"
| "scalar_matches_column KBytes dt \<longleftrightarrow> dt \<in> {Utf8, LargeUtf8, Binary, LargeBinary}"
| "scalar_matches_column KDate32 dt \<longleftrightarrow> dt = Date32"
| "scalar_matches_column KTsSecond dt \<longleftrightarrow> (case dt of Timestamp u \<Rightarrow> u mod 4 = 0 | _ \<Rightarrow> False)"
| "scalar_matches_column KTsMilli dt \<longleftrightarrow> (case dt of Timestamp u \<Rightarrow> u mod 4 = 1 | _ \<Rightarrow> False)"
| "scalar_matches_column KTsMicro dt \<longleftrightarrow> (case dt of Timestamp u \<Rightarrow> u mod 4 = 2 | _ \<Rightarrow> False)"
| "scalar_matches_column KTsNano dt \<longleftrightarrow> (case dt of Timestamp u \<Rightarrow> u mod 4 = 3 | _ \<Rightarrow> False)"

fun flip_op :: "operator \<Rightarrow> operator" where
  "flip_op OpGt = OpLt"
| "flip_op OpGtEq = OpLtEq"
| "flip_op OpLt = OpGt"
| "flip_op OpLtEq = OpGtEq"
| "flip_op op = op"

fun literal_bound :: "scalar_value \<Rightarrow> (stat_bound \<times> scalar_kind) option" where
  "literal_bound (SvInt8 (Some x)) = Some (BI x, KInt)"
| "literal_bound (SvInt16 (Some x)) = Some (BI x, KInt)"
| "literal_bound (SvInt32 (Some x)) = Some (BI x, KInt)"
| "literal_bound (SvInt64 (Some x)) = Some (BI x, KInt)"
| "literal_bound (SvUInt8 (Some x)) = Some (BU x, KUInt)"
| "literal_bound (SvUInt16 (Some x)) = Some (BU x, KUInt)"
| "literal_bound (SvUInt32 (Some x)) = Some (BU x, KUInt)"
| "literal_bound (SvUInt64 (Some x)) = Some (BU x, KUInt)"
| "literal_bound (SvFloat32 (Some x)) = Some (BF x, KFloat)"
| "literal_bound (SvFloat64 (Some x)) = Some (BF x, KFloat)"
| "literal_bound (SvUtf8 (Some x)) = Some (BB x, KBytes)"
| "literal_bound (SvLargeUtf8 (Some x)) = Some (BB x, KBytes)"
| "literal_bound (SvBinary (Some x)) = Some (BB x, KBytes)"
| "literal_bound (SvLargeBinary (Some x)) = Some (BB x, KBytes)"
| "literal_bound (SvDate32 (Some x)) = Some (BI x, KDate32)"
| "literal_bound (SvTsSecond (Some x)) = Some (BI x, KTsSecond)"
| "literal_bound (SvTsMilli (Some x)) = Some (BI x, KTsMilli)"
| "literal_bound (SvTsMicro (Some x)) = Some (BI x, KTsMicro)"
| "literal_bound (SvTsNano (Some x)) = Some (BI x, KTsNano)"
| "literal_bound _ = None"

definition field_type :: "schema \<Rightarrow> string \<Rightarrow> data_type option" where
  "field_type s name = map_option f_type (find (\<lambda>f. f_name f = name) s)"

definition comparison_ops :: "operator list" where
  "comparison_ops = [OpGt, OpGtEq, OpLt, OpLtEq, OpEq, OpNotEq]"

definition constraint_of :: "schema \<Rightarrow> string \<Rightarrow> operator \<Rightarrow> scalar_value \<Rightarrow> constraint list" where
  "constraint_of s col op lit =
     (if op \<notin> set comparison_ops then []
      else case literal_bound lit of
        None \<Rightarrow> []
      | Some (v, kind) \<Rightarrow>
          (case field_type s col of
             None \<Rightarrow> []
           | Some dt \<Rightarrow>
               if \<not> scalar_matches_column kind dt then []
               else [\<lparr>cn_column = col, cn_op = op, cn_value = v, cn_kind = kind\<rparr>]))"

fun constraints :: "schema \<Rightarrow> expr \<Rightarrow> constraint list" where
  "constraints s (BinaryExpr l op r) =
     (if op = OpAnd then constraints s l @ constraints s r
      else (case (l, r) of
              (Column c, Literal v) \<Rightarrow> constraint_of s c op v
            | (Literal v, Column c) \<Rightarrow> constraint_of s c (flip_op op) v
            | _ \<Rightarrow> []))"
| "constraints s e = []"

subsection \<open>Deciding\<close>

fun violates :: "stat_bound \<Rightarrow> stat_bound \<Rightarrow> operator \<Rightarrow> stat_bound \<Rightarrow> bool" where
  "violates lo hi OpGt v \<longleftrightarrow> bound_cmp hi v \<in> {Some Less, Some Equal}"
| "violates lo hi OpGtEq v \<longleftrightarrow> bound_cmp hi v = Some Less"
| "violates lo hi OpLt v \<longleftrightarrow> bound_cmp lo v \<in> {Some Greater, Some Equal}"
| "violates lo hi OpLtEq v \<longleftrightarrow> bound_cmp lo v = Some Greater"
| "violates lo hi OpEq v \<longleftrightarrow> bound_cmp v lo = Some Less \<or> bound_cmp hi v = Some Less"
| "violates lo hi OpNotEq v \<longleftrightarrow> bound_cmp lo v = Some Equal \<and> bound_cmp hi v = Some Equal"
| "violates lo hi _ v \<longleftrightarrow> False"

definition usable_bound :: "data_type \<Rightarrow> bytes \<Rightarrow> stat_bound \<Rightarrow> stat_bound option" where
  "usable_bound dt bs v =
     (case decode_bound dt bs of None \<Rightarrow> None | Some b \<Rightarrow> if bound_comparable b v then Some b else None)"

definition constraint_fails :: "schema \<Rightarrow> column_stat_lite list \<Rightarrow> nat \<Rightarrow> constraint \<Rightarrow> bool" where
  "constraint_fails s stats row_count c =
     (case find (\<lambda>x. cs_name x = cn_column c) stats of
        None \<Rightarrow> False
      | Some col \<Rightarrow>
          if row_count > 0 \<and> cs_null_count col = row_count then True
          else (case field_type s (cn_column c) of
                  None \<Rightarrow> False
                | Some dt \<Rightarrow>
                    (case (usable_bound dt (cs_min col) (cn_value c), usable_bound dt (cs_max col) (cn_value c)) of
                       (Some lo, Some hi) \<Rightarrow> violates lo hi (cn_op c) (cn_value c)
                     | _ \<Rightarrow> False)))"

definition can_prune_with :: "schema \<Rightarrow> column_stat_lite list \<Rightarrow> nat \<Rightarrow> constraint list \<Rightarrow> bool" where
  "can_prune_with s stats row_count cs \<longleftrightarrow> list_ex (constraint_fails s stats row_count) cs"

definition can_prune :: "schema \<Rightarrow> column_stat_lite list option \<Rightarrow> nat \<Rightarrow> expr list \<Rightarrow> bool" where
  "can_prune s stats row_count filters =
     (case stats of
        None \<Rightarrow> False
      | Some st \<Rightarrow> can_prune_with s st row_count (concat (map (constraints s) filters)))"

definition prune_visible_files :: "schema \<Rightarrow> file_manifest list \<Rightarrow> expr list \<Rightarrow> file_manifest list \<times> nat" where
  "prune_visible_files s files filters =
     (let kept = filter (\<lambda>f. \<not> can_prune s (fm_stats f) (fm_row_count f) filters) files in
      (kept, length files - length kept))"

lemma in_constraint_of:
  assumes "c \<in> set (constraint_of s n op v)"
  obtains b k dt where "op \<in> set comparison_ops" "literal_bound v = Some (b, k)" "field_type s n = Some dt"
    "scalar_matches_column k dt" "c = \<lparr>cn_column = n, cn_op = op, cn_value = b, cn_kind = k\<rparr>"
  using assms
  by (cases "literal_bound v"; cases "field_type s n") (auto simp: constraint_of_def split: if_splits)

subsection \<open>What a filter means\<close>

text \<open>Arrow compares floats by the total order of IEEE 754: -0 is below 0 and NaN is at the ends.\<close>

definition f64_total_rank :: "f64 \<Rightarrow> int" where
  "f64_total_rank x = (if f64_negative x then - int (f64_magnitude x) - 1 else int (f64_magnitude x))"

fun value_cmp :: "stat_bound \<Rightarrow> stat_bound \<Rightarrow> ordering option" where
  "value_cmp (BF a) (BF b) = Some (cmp_of (f64_total_rank a) (f64_total_rank b))"
| "value_cmp a b = bound_cmp a b"

fun op_holds :: "operator \<Rightarrow> stat_bound \<Rightarrow> stat_bound \<Rightarrow> bool" where
  "op_holds OpGt x v \<longleftrightarrow> value_cmp x v = Some Greater"
| "op_holds OpGtEq x v \<longleftrightarrow> value_cmp x v \<in> {Some Greater, Some Equal}"
| "op_holds OpLt x v \<longleftrightarrow> value_cmp x v = Some Less"
| "op_holds OpLtEq x v \<longleftrightarrow> value_cmp x v \<in> {Some Less, Some Equal}"
| "op_holds OpEq x v \<longleftrightarrow> value_cmp x v = Some Equal"
| "op_holds OpNotEq x v \<longleftrightarrow> value_cmp x v \<in> {Some Less, Some Greater}"
| "op_holds _ x v \<longleftrightarrow> False"

text \<open>
  \<open>holds e r\<close>: the filter is true of row \<open>r\<close>; a null comparison is not true. The laws are about columns of the schema
  and literals of a matching type; other filters may mean anything.
\<close>

locale filter_semantics =
  fixes s :: schema
    and cell :: "string \<Rightarrow> 'r \<Rightarrow> stat_bound option"
    and holds :: "expr \<Rightarrow> 'r \<Rightarrow> bool"
  assumes holds_and: "holds (BinaryExpr l OpAnd r) x \<Longrightarrow> holds l x \<and> holds r x"
    and holds_column: "holds (BinaryExpr (Column c) op (Literal v)) x \<Longrightarrow> op \<in> set comparison_ops \<Longrightarrow>
      literal_bound v = Some (b, kind) \<Longrightarrow> field_type s c = Some dt \<Longrightarrow> scalar_matches_column kind dt \<Longrightarrow>
      \<exists>a. cell c x = Some a \<and> op_holds op a b"
    and holds_literal: "holds (BinaryExpr (Literal v) op (Column c)) x \<Longrightarrow> flip_op op \<in> set comparison_ops \<Longrightarrow>
      literal_bound v = Some (b, kind) \<Longrightarrow> field_type s c = Some dt \<Longrightarrow> scalar_matches_column kind dt \<Longrightarrow>
      \<exists>a. cell c x = Some a \<and> op_holds (flip_op op) a b"
begin

lemma holds_constraints:
  "holds e x \<Longrightarrow> c \<in> set (constraints s e) \<Longrightarrow> \<exists>a. cell (cn_column c) x = Some a \<and> op_holds (cn_op c) a (cn_value c)"
proof (induction e)
  case (BinaryExpr l op r)
  show ?case
  proof (cases "op = OpAnd")
    case True
    have "holds l x" "holds r x" using holds_and BinaryExpr.prems(1) True by blast+
    moreover have "c \<in> set (constraints s l) \<or> c \<in> set (constraints s r)" using BinaryExpr.prems(2) True by simp
    ultimately show ?thesis using BinaryExpr.IH by blast
  next
    case False
    then have "(\<exists>n v. l = Column n \<and> r = Literal v \<and> c \<in> set (constraint_of s n op v)) \<or>
        (\<exists>n v. l = Literal v \<and> r = Column n \<and> c \<in> set (constraint_of s n (flip_op op) v))"
      using BinaryExpr.prems(2) by (cases l; cases r) auto
    then show ?thesis
    proof (elim disjE exE conjE)
      fix n v assume lr: "l = Column n" "r = Literal v" "c \<in> set (constraint_of s n op v)"
      from lr(3) obtain b k dt where m: "op \<in> set comparison_ops" "literal_bound v = Some (b, k)" "field_type s n = Some dt"
        "scalar_matches_column k dt" "c = \<lparr>cn_column = n, cn_op = op, cn_value = b, cn_kind = k\<rparr>"
        by (rule in_constraint_of)
      have "\<exists>a. cell n x = Some a \<and> op_holds op a b"
        using BinaryExpr.prems(1) unfolding lr(1,2) by (rule holds_column [OF _ m(1-4)])
      then show ?thesis by (simp add: m(5))
    next
      fix n v assume lr: "l = Literal v" "r = Column n" "c \<in> set (constraint_of s n (flip_op op) v)"
      from lr(3) obtain b k dt where m: "flip_op op \<in> set comparison_ops" "literal_bound v = Some (b, k)"
        "field_type s n = Some dt" "scalar_matches_column k dt"
        "c = \<lparr>cn_column = n, cn_op = flip_op op, cn_value = b, cn_kind = k\<rparr>"
        by (rule in_constraint_of)
      have "\<exists>a. cell n x = Some a \<and> op_holds (flip_op op) a b"
        using BinaryExpr.prems(1) unfolding lr(1,2) by (rule holds_literal [OF _ m(1-4)])
      then show ?thesis by (simp add: m(5))
    qed
  qed
qed simp_all

end

subsection \<open>Pruning is sound\<close>

definition negative_zero :: "stat_bound \<Rightarrow> bool" where
  "negative_zero b \<longleftrightarrow> b = BF 0x8000000000000000"

lemma f64_split: "unat x = f64_magnitude x + (if f64_negative x then 2 ^ 63 else 0)"
proof -
  have "unat x < 2 * 2 ^ 63" using unsigned_less [of x] by simp
  then show ?thesis by (auto simp: f64_magnitude_def f64_negative_def mod_if)
qed

lemma negative_magnitude: "\<not> negative_zero (BF x) \<Longrightarrow> f64_negative x \<Longrightarrow> 0 < f64_magnitude x"
proof (rule ccontr)
  assume a: "\<not> negative_zero (BF x)" "f64_negative x" "\<not> 0 < f64_magnitude x"
  then have "unat x = 2 ^ 63" using f64_split [of x] by simp
  moreover have "of_nat (unat x) = x" by simp
  ultimately have "x = of_nat (2 ^ 63)" by (simp only:)
  then show False using a(1) by (simp add: negative_zero_def)
qed

lemma total_rank_plain:
  assumes "\<not> negative_zero (BF a)" "\<not> negative_zero (BF b)"
  shows "cmp_of (f64_total_rank a) (f64_total_rank b) = cmp_of (f64_rank a) (f64_rank b)"
  using negative_magnitude [OF assms(1)] negative_magnitude [OF assms(2)]
  by (auto simp: f64_total_rank_def f64_rank_def cmp_of_def)

lemma value_cmp_plain:
  assumes "\<not> negative_zero a" "\<not> negative_zero b" "same_family a b \<or> (\<forall>x. a \<noteq> BF x)" "bound_cmp a b \<noteq> None"
  shows "value_cmp a b = bound_cmp a b"
  using assms total_rank_plain
  by (cases a; cases b) (auto simp: same_family_def f64_partial_cmp_def split: if_splits)

text \<open>Both sides are numbers, both are floats or both are bytes.\<close>

definition sides_match :: "stat_bound \<Rightarrow> stat_bound \<Rightarrow> bool" where
  "sides_match x v \<longleftrightarrow> (case (x, v) of
     (BF _, BF _) \<Rightarrow> True | (BB _, BB _) \<Rightarrow> True | (BF _, _) \<Rightarrow> False | (BB _, _) \<Rightarrow> False
   | (_, BF _) \<Rightarrow> False | (_, BB _) \<Rightarrow> False | _ \<Rightarrow> True)"

lemma literal_kind:
  "literal_bound v = Some (b, k) \<Longrightarrow> scalar_matches_column k dt \<Longrightarrow> bound_of_type dt x \<Longrightarrow> sides_match x b"
  by (cases v rule: literal_bound.cases; cases x; cases dt) (auto simp: sides_match_def)

fun bound_int :: "stat_bound \<Rightarrow> int" where
  "bound_int (BI a) = a" | "bound_int (BU n) = int n" | "bound_int (BF x) = f64_rank x" | "bound_int (BB _) = 0"

definition is_bytes :: "stat_bound \<Rightarrow> bool" where
  "is_bytes b \<longleftrightarrow> (case b of BB _ \<Rightarrow> True | _ \<Rightarrow> False)"

lemma bound_cmp_mixed:
  "bound_cmp (BI a) (BU n) = Some (cmp_of a (int n))" "bound_cmp (BU n) (BI a) = Some (cmp_of (int n) a)"
  "cmp_of (int m) (int n) = cmp_of m n"
  by (auto simp: cmp_of_def nat_less_iff less_nat_zero_code zless_nat_eq_int_zless)

lemma sides_match_cases:
  assumes "sides_match a b"
  obtains i j where "a = BI i" "b = BI j" | i n where "a = BI i" "b = BU n" | n i where "a = BU n" "b = BI i"
    | m n where "a = BU m" "b = BU n" | x y where "a = BF x" "b = BF y" | s t where "a = BB s" "b = BB t"
  using assms by (cases a; cases b) (auto simp: sides_match_def)

lemma bound_cmp_int:
  assumes "sides_match a b" "\<not> is_bytes a" "\<not> bound_nan a" "\<not> bound_nan b"
  shows "bound_cmp a b = Some (cmp_of (bound_int a) (bound_int b)) \<and>
    bound_cmp b a = Some (cmp_of (bound_int b) (bound_int a))"
  using assms(1)
proof (cases rule: sides_match_cases)
  case (2 i n)
  then show ?thesis by (simp only: bound_cmp_mixed bound_int.simps simp_thms)
next
  case (3 n i)
  then show ?thesis by (simp only: bound_cmp_mixed bound_int.simps simp_thms)
next
  case (4 m n)
  then show ?thesis by (simp add: bound_cmp_mixed(3))
qed (use assms in \<open>simp_all add: is_bytes_def f64_partial_cmp_def\<close>)

lemma bound_cmp_nan: "sides_match a b \<Longrightarrow> bound_nan a \<or> bound_nan b \<Longrightarrow> bound_cmp a b = None \<and> bound_cmp b a = None"
  by (cases a; cases b) (auto simp: sides_match_def f64_partial_cmp_def)

lemma bound_le_nan: "bound_le a b \<Longrightarrow> \<not> bound_nan a \<and> \<not> bound_nan b"
  by (cases a; cases b) (auto simp: bound_le_def f64_partial_cmp_def split: if_splits)

lemma same_family_bytes: "same_family a b \<Longrightarrow> is_bytes a = is_bytes b"
  by (cases rule: same_family_cases) (auto simp: is_bytes_def)

lemma bound_le_int:
  "same_family a b \<Longrightarrow> \<not> is_bytes a \<Longrightarrow> bound_le a b \<Longrightarrow> bound_int a \<le> bound_int b"
  by (cases rule: same_family_cases) (auto simp: is_bytes_def)

lemma violates_int:
  assumes "\<not> is_bytes x" "sides_match lo v" "sides_match hi v" "sides_match x v" "same_family lo x" "same_family x hi"
    and "bound_le lo x" "bound_le x hi" "\<not> negative_zero x" "\<not> negative_zero v" "violates lo hi op v"
  shows "\<not> op_holds op x v"
proof (cases "bound_nan v")
  case True
  then show ?thesis using assms(2,3,11) bound_cmp_nan [of lo v] bound_cmp_nan [of hi v] by (cases op) auto
next
  case False
  have nn: "\<not> bound_nan lo" "\<not> bound_nan x" "\<not> bound_nan hi" "\<not> is_bytes lo" "\<not> is_bytes hi"
    using bound_le_nan [OF assms(7)] bound_le_nan [OF assms(8)] same_family_bytes [OF assms(5)]
      same_family_bytes [OF assms(6)] assms(1) by auto
  note cmp = bound_cmp_int [OF assms(2) nn(4,1) False] bound_cmp_int [OF assms(3) nn(5,3) False]
    bound_cmp_int [OF assms(4,1) nn(2) False]
  have "value_cmp x v = bound_cmp x v"
    using assms(1,4,9,10) cmp by (intro value_cmp_plain) (auto simp: same_family_def sides_match_def split: stat_bound.splits)
  moreover have "bound_int lo \<le> bound_int x" "bound_int x \<le> bound_int hi"
    using bound_le_int [OF assms(5) nn(4) assms(7)] bound_le_int [OF assms(6,1,8)] by auto
  ultimately show ?thesis using assms(11) cmp by (cases op) auto
qed

lemma violates_bytes:
  assumes "bytes_cmp l x = Less \<or> l = x" "bytes_cmp x h = Less \<or> x = h" "violates (BB l) (BB h) op (BB v)"
  shows "\<not> op_holds op (BB x) (BB v)"
proof -
  have "bytes_cmp x v = Less" if "bytes_cmp h v = Less" using assms(2) that bytes_cmp_trans by blast
  moreover have "bytes_cmp v x = Less" if "bytes_cmp v l = Less" using assms(1) that bytes_cmp_trans by blast
  moreover have "bytes_cmp x v = Less \<or> x = v" if "h = v" using assms(2) that by auto
  moreover have "bytes_cmp v x = Less \<or> x = v" if "l = v" using assms(1) that by auto
  moreover have "bytes_cmp a b = Greater \<longleftrightarrow> bytes_cmp b a = Less" for a b by (rule bytes_cmp_flip)
  moreover have "bytes_cmp a b = Less \<Longrightarrow> bytes_cmp b a \<noteq> Less" for a b
    using bytes_cmp_flip [of a b] by auto
  ultimately show ?thesis using assms(3) by (cases op) (auto simp: bytes_cmp_equal)
qed

lemma violates_sound:
  assumes "sides_match x v" "same_family lo x" "same_family x hi" "bound_le lo x" "bound_le x hi"
    and "\<not> negative_zero x" "\<not> negative_zero v" "violates lo hi op v"
  shows "\<not> op_holds op x v"
proof (cases x)
  case (BB b)
  then obtain l h c where "lo = BB l" "hi = BB h" "v = BB c"
    using assms(1-3) by (cases lo; cases hi; cases v) (auto simp: same_family_def sides_match_def)
  then show ?thesis using assms(4,5,8) BB violates_bytes by simp
qed (use assms in \<open>intro violates_int [of x lo v hi];
      auto simp: is_bytes_def sides_match_def same_family_def split: stat_bound.splits\<close>)+

end
