(* ===== verification/Prune_Sound.thy ===== *)
theory Prune_Sound
  imports Prune
begin

text \<open>
  A file that a query does not read has no row that the filters keep, as long as the type of the column has not
  changed since the file was written and the column holds no NaN; and what goes wrong otherwise.
\<close>

text \<open>The statistics of a block describe row \<open>x\<close> of it, read with the types of schema \<open>s\<close>.\<close>

definition stats_describe ::
  "schema \<Rightarrow> (string \<Rightarrow> 'r \<Rightarrow> stat_bound option) \<Rightarrow> column_stat_lite list \<Rightarrow> nat \<Rightarrow> 'r \<Rightarrow> bool" where
  "stats_describe s cell stats n x \<longleftrightarrow>
     (\<forall>st \<in> set stats. \<forall>a. cell (cs_name st) x = Some a \<longrightarrow>
        cs_null_count st \<noteq> n \<and>
        (\<forall>dt. field_type s (cs_name st) = Some dt \<longrightarrow> bound_of_type dt a \<and> \<not> negative_zero a \<and>
           (\<forall>lo hi. decode_bound dt (cs_min st) = Some lo \<and> decode_bound dt (cs_max st) = Some hi \<longrightarrow>
              same_family lo a \<and> same_family a hi \<and> bound_le lo a \<and> bound_le a hi)))"

definition plain_literals :: "schema \<Rightarrow> expr list \<Rightarrow> bool" where
  "plain_literals s filters \<longleftrightarrow>
     (\<forall>e \<in> set filters. \<forall>c \<in> set (constraints s e). \<not> negative_zero (cn_value c))"

lemma constraint_shape:
  "c \<in> set (constraints s e) \<Longrightarrow> \<exists>v dt. literal_bound v = Some (cn_value c, cn_kind c) \<and>
    field_type s (cn_column c) = Some dt \<and> scalar_matches_column (cn_kind c) dt"
proof (induction s e rule: constraints.induct)
  case (1 s l op r)
  show ?case
  proof (cases "op = OpAnd")
    case True
    with 1 show ?thesis by auto
  next
    case False
    then have "(\<exists>n v. c \<in> set (constraint_of s n op v)) \<or> (\<exists>n v. c \<in> set (constraint_of s n (flip_op op) v))"
      using "1.prems" by (cases l; cases r) auto
    then show ?thesis by (elim disjE exE; elim in_constraint_of) auto
  qed
qed auto

context filter_semantics
begin

lemma constraint_holds_not_fails:
  assumes "stats_describe s cell stats n x" "holds e x" "c \<in> set (constraints s e)" "\<not> negative_zero (cn_value c)"
  shows "\<not> constraint_fails s stats n c"
proof
  assume fails: "constraint_fails s stats n c"
  then obtain st where st: "find (\<lambda>x. cs_name x = cn_column c) stats = Some st"
    by (auto simp: constraint_fails_def split: option.splits)
  then have mem: "st \<in> set stats" "cs_name st = cn_column c" by (auto simp: find_Some_iff)
  obtain a where a: "cell (cn_column c) x = Some a" "op_holds (cn_op c) a (cn_value c)"
    using holds_constraints [OF assms(2,3)] by blast
  obtain v dt where lit: "literal_bound v = Some (cn_value c, cn_kind c)" "field_type s (cn_column c) = Some dt"
    "scalar_matches_column (cn_kind c) dt" using constraint_shape [OF assms(3)] by blast
  have d: "cs_null_count st \<noteq> n" "bound_of_type dt a" "\<not> negative_zero a"
    "\<And>lo hi. decode_bound dt (cs_min st) = Some lo \<Longrightarrow> decode_bound dt (cs_max st) = Some hi \<Longrightarrow>
      same_family lo a \<and> same_family a hi \<and> bound_le lo a \<and> bound_le a hi"
    using assms(1) mem a(1) lit(2) by (auto simp: stats_describe_def)
  obtain lo hi where lh: "decode_bound dt (cs_min st) = Some lo" "decode_bound dt (cs_max st) = Some hi"
    "violates lo hi (cn_op c) (cn_value c)"
    using fails st d(1) lit(2) by (auto simp: constraint_fails_def usable_bound_def split: option.splits if_splits)
  have "sides_match a (cn_value c)" by (rule literal_kind [OF lit(1,3) d(2)])
  then have "\<not> op_holds (cn_op c) a (cn_value c)"
    using d(4) [OF lh(1,2)] d(3) assms(4) lh(3) by (intro violates_sound [of a "cn_value c" lo hi]) auto
  with a(2) show False by simp
qed

lemma matching_block_kept:
  assumes "stats_describe s cell stats n x" "\<forall>e \<in> set filters. holds e x" "plain_literals s filters"
  shows "\<not> can_prune_with s stats n (concat (map (constraints s) filters))"
  using assms constraint_holds_not_fails by (auto simp: can_prune_with_def list_ex_iff plain_literals_def)

end

subsection \<open>Rows of a batch\<close>

definition view_cell :: "batch_view \<Rightarrow> string \<Rightarrow> nat \<Rightarrow> stat_bound option" where
  "view_cell b name i =
     (case view_column name b of
        None \<Rightarrow> None
      | Some c \<Rightarrow> if i < length (co_values c) then co_values c ! i else None)"

text \<open>An evaluator: \<open>other\<close> stands for the filters that are neither conjunctions nor usable comparisons.\<close>

definition eval_comparison ::
  "(expr \<Rightarrow> nat \<Rightarrow> bool) \<Rightarrow> schema \<Rightarrow> batch_view \<Rightarrow> expr \<Rightarrow> string \<Rightarrow> operator \<Rightarrow> scalar_value \<Rightarrow> nat \<Rightarrow> bool" where
  "eval_comparison other s b e name op v i =
     (case (literal_bound v, field_type s name) of
        (Some (x, k), Some dt) \<Rightarrow>
          if op \<in> set comparison_ops \<and> scalar_matches_column k dt
          then (case view_cell b name i of None \<Rightarrow> False | Some a \<Rightarrow> op_holds op a x)
          else other e i
      | _ \<Rightarrow> other e i)"

fun eval_filter :: "(expr \<Rightarrow> nat \<Rightarrow> bool) \<Rightarrow> schema \<Rightarrow> batch_view \<Rightarrow> expr \<Rightarrow> nat \<Rightarrow> bool" where
  "eval_filter other s b (BinaryExpr l op r) i =
     (if op = OpAnd then eval_filter other s b l i \<and> eval_filter other s b r i
      else (case (l, r) of
              (Column c, Literal v) \<Rightarrow> eval_comparison other s b (BinaryExpr l op r) c op v i
            | (Literal v, Column c) \<Rightarrow> eval_comparison other s b (BinaryExpr l op r) c (flip_op op) v i
            | _ \<Rightarrow> other (BinaryExpr l op r) i))"
| "eval_filter other s b e i = other e i"

interpretation rows: filter_semantics s "view_cell b" "eval_filter other s b" for s b other
proof
  show "eval_filter other s b (BinaryExpr l OpAnd r) i \<Longrightarrow> eval_filter other s b l i \<and> eval_filter other s b r i" for l r i
    by simp
  fix c op v i x k dt
  assume m: "literal_bound v = Some (x, k)" "field_type s c = Some dt" "scalar_matches_column k dt"
  show "\<exists>a. view_cell b c i = Some a \<and> op_holds op a x"
    if "eval_filter other s b (BinaryExpr (Column c) op (Literal v)) i" "op \<in> set comparison_ops"
  proof -
    have "op \<noteq> OpAnd" using that(2) by (auto simp: comparison_ops_def)
    with that m show ?thesis by (auto simp: eval_comparison_def split: option.splits)
  qed
  show "\<exists>a. view_cell b c i = Some a \<and> op_holds (flip_op op) a x"
    if "eval_filter other s b (BinaryExpr (Literal v) op (Column c)) i" "flip_op op \<in> set comparison_ops"
  proof -
    have "op \<noteq> OpAnd" using that(2) by (auto simp: comparison_ops_def)
    with that m show ?thesis by (auto simp: eval_comparison_def split: option.splits)
  qed
qed

text \<open>\<open>n\<close> rows, values of the declared types, and no float that is NaN or -0.\<close>

definition view_ok :: "nat \<Rightarrow> batch_view \<Rightarrow> bool" where
  "view_ok n b \<longleftrightarrow> (\<forall>c \<in> set b. length (co_values c) = n \<and>
     (\<forall>v. Some v \<in> set (co_values c) \<longrightarrow> bound_of_type (co_type c) v \<and> \<not> bound_nan v \<and> \<not> negative_zero v))"

definition types_kept :: "schema \<Rightarrow> batch_view \<Rightarrow> bool" where
  "types_kept s b \<longleftrightarrow> (\<forall>name c. view_column name b = Some c \<longrightarrow> field_type s name \<in> {None, Some (co_type c)})"

lemma column_nulls_all: "column_nulls c = length (co_values c) \<Longrightarrow> v \<in> set (co_values c) \<Longrightarrow> v = None"
  by (metis (mono_tags, lifting) column_nulls_def filter_id_conv filter_True length_filter_less less_irrefl)

lemma compute_stats_describe:
  assumes "view_ok n b" "types_kept s b"
  shows "stats_describe s (view_cell b) (compute_stats_lite b cols) n i"
  unfolding stats_describe_def
proof (intro ballI allI impI)
  fix st a
  assume "st \<in> set (compute_stats_lite b cols)" and a: "view_cell b (cs_name st) i = Some a"
  then obtain name c where c: "view_column name b = Some c" "st = column_lite name c"
    by (auto simp: compute_stats_lite_def List.map_filter_def)
  have st: "cs_name st = name" "cs_null_count st = column_nulls c"
    by (simp_all add: c(2) column_lite_def split: prod.split)
  have mem: "c \<in> set b" using c(1) by (auto simp: view_column_def find_Some_iff)
  have va: "Some a \<in> set (co_values c)"
    using a by (auto simp: st view_cell_def c(1) in_set_conv_nth split: if_splits)
  have all: "\<forall>v. Some v \<in> set (co_values c) \<longrightarrow> bound_of_type (co_type c) v \<and> \<not> bound_nan v"
    and len: "length (co_values c) = n" and nz: "\<not> negative_zero a" "bound_of_type (co_type c) a"
    using assms(1) mem va by (auto simp: view_ok_def)
  have nulls: "cs_null_count st \<noteq> n" using column_nulls_all [of c] va by (auto simp: st len)
  have bounds: "same_family lo a \<and> same_family a hi \<and> bound_le lo a \<and> bound_le a hi"
    if d: "decode_bound (co_type c) (cs_min st) = Some lo" "decode_bound (co_type c) (cs_max st) = Some hi" for lo hi
  proof (cases "array_bounds c")
    case (Some lh)
    obtain l h where lh: "lh = (l, h)" by (cases lh)
    have cover: "bound_le l a" "bound_le a h" "bound_of_type (co_type c) l" "bound_of_type (co_type c) h"
      using array_bounds_cover [OF _ all va, of l h] Some lh by auto
    have "cs_min st = encode_bound (co_type c) l" "cs_max st = encode_bound (co_type c) h"
      by (simp_all add: c(2) column_lite_def Some lh)
    then have "lo = l" "hi = h" using d decode_encode_bound [OF cover(3)] decode_encode_bound [OF cover(4)] by auto
    with cover nz(2) show ?thesis by (auto intro: bound_of_type_family)
  next
    case None
    have "cs_min st = []" by (simp add: c(2) column_lite_def None)
    then have "is_bytes_type (co_type c)" using d(1) by (auto simp: decode_bound_def split: if_splits)
    then have "bounded_array (co_type c)" by (cases "co_type c") auto
    moreover have "List.map_filter id (co_values c) \<noteq> []" using va by (force simp: List.map_filter_def filter_empty_conv)
    ultimately show ?thesis using None by (auto simp: array_bounds_def split: list.splits)
  qed
  have "field_type s name \<in> {None, Some (co_type c)}" using assms(2) c(1) by (simp add: types_kept_def)
  then show "cs_null_count st \<noteq> n \<and> (\<forall>dt. field_type s (cs_name st) = Some dt \<longrightarrow> bound_of_type dt a \<and> \<not> negative_zero a \<and>
      (\<forall>lo hi. decode_bound dt (cs_min st) = Some lo \<and> decode_bound dt (cs_max st) = Some hi \<longrightarrow>
        same_family lo a \<and> same_family a hi \<and> bound_le lo a \<and> bound_le a hi))"
    using nulls bounds nz by (auto simp: st)
qed

text \<open>C20: File pruning loses nothing. A file whose manifest carries the statistics of its batch is kept by
  \<open>prune_visible_files\<close> as soon as one row of it satisfies all filters, whatever the filters that are not
  comparisons mean, if no column has changed its type since the file was written and no float is NaN or -0.\<close>

theorem prune_keeps_matching_files:
  assumes mani: "f \<in> set files" "fm_stats f = Some (compute_stats_lite b cols)" "fm_row_count f = n"
    and view: "view_ok n b" "types_kept s b" and lits: "plain_literals s filters"
    and row: "\<forall>e \<in> set filters. eval_filter other s b e i"
  shows "f \<in> set (fst (prune_visible_files s files filters))"
proof -
  have "\<not> can_prune_with s (compute_stats_lite b cols) n (concat (map (constraints s) filters))"
    by (rule rows.matching_block_kept [OF compute_stats_describe [OF view] row lits])
  then show ?thesis using mani by (simp add: prune_visible_files_def Let_def can_prune_def)
qed

end
