(* ===== verification/Prune_Gaps.thy ===== *)
theory Prune_Gaps
  imports Prune_Sound
begin

text \<open>
  Two ways in which file pruning drops rows that a query asks for. The bounds are decoded with the type that the
  column has now, not with the type it had when the file was written; and the bounds leave out NaN, which the
  comparison of the query orders above all numbers.
\<close>

definition f64_one :: f64 where "f64_one = 0x3FF0000000000000"

definition above_one :: "string \<Rightarrow> expr" where
  "above_one name = BinaryExpr (Column name) OpGt (Literal (SvFloat64 (Some f64_one)))"

lemma above_one_constraints:
  "field_type s name = Some Float64 \<Longrightarrow>
    constraints s (above_one name) = [\<lparr>cn_column = name, cn_op = OpGt, cn_value = BF f64_one, cn_kind = KFloat\<rparr>]"
  by (simp add: above_one_def constraint_of_def comparison_ops_def)

lemma widen_bounds_among:
  "widen_bounds vs (lo, hi) = (l, h) \<Longrightarrow> l \<in> insert lo (set vs) \<and> h \<in> insert hi (set vs)"
  by (induction vs arbitrary: lo hi) (auto split: if_splits)

lemma array_bounds_among:
  assumes "array_bounds c = Some (lo, hi)"
  shows "Some lo \<in> set (co_values c) \<and> Some hi \<in> set (co_values c)"
proof -
  obtain v vs where vs: "List.map_filter id (co_values c) = v # vs" "widen_bounds vs (v, v) = (lo, hi)"
    using assms by (auto simp: array_bounds_def split: if_splits list.splits)
  have "y \<in> set (v # vs) \<longleftrightarrow> Some y \<in> set (co_values c)" for y
    unfolding vs(1) [symmetric] by (force simp: List.map_filter_def)
  with widen_bounds_among [OF vs(2)] show ?thesis by auto
qed

lemma one_column_stats:
  "co_name c = name \<Longrightarrow> compute_stats_lite [c] [name] = [column_lite name c]"
  by (simp add: compute_stats_lite_def view_column_def List.map_filter_def)

lemma some_value_not_all_null: "Some v \<in> set (co_values c) \<Longrightarrow> column_nulls c \<noteq> length (co_values c)"
  using column_nulls_all by blast

lemma one_column_pruned:
  assumes "co_name c = name" "Some v \<in> set (co_values c)" "field_type s name = Some dt"
    and "constraints s e = [k]" "cn_column k = name" "array_bounds c = Some (lo, hi)"
    and "usable_bound dt (encode_bound (co_type c) lo) (cn_value k) = Some lo'"
    and "usable_bound dt (encode_bound (co_type c) hi) (cn_value k) = Some hi'" "violates lo' hi' (cn_op k) (cn_value k)"
    and "fm_stats f = Some (compute_stats_lite [c] [name])" "fm_row_count f = length (co_values c)"
  shows "prune_visible_files s [f] [e] = ([], 1)"
  using assms some_value_not_all_null [OF assms(2)]
  by (simp add: prune_visible_files_def can_prune_def can_prune_with_def one_column_stats constraint_fails_def
      column_lite_def)

text \<open>Small positive integers, read as the bits of a double, are below 1.\<close>

lemma unat_f64_of_nat: "n < 2 ^ 64 \<Longrightarrow> unat (of_nat n :: f64) = n"
  by (simp add: unat_of_nat take_bit_nat_eq_self)

lemma small_bits_below_one:
  assumes "0 \<le> v" "v < 4607182418800017408"
  shows "f64_partial_cmp (of_nat (nat v)) f64_one = Some Less"
proof -
  define w :: f64 where "w = of_nat (nat v)"
  have u: "unat w = nat v" unfolding w_def by (rule unat_f64_of_nat) (use assms in \<open>simp add: nat_less_iff\<close>)
  have "f64_rank w = v" "\<not> f64_is_nan w"
    using assms by (auto simp: f64_rank_def f64_negative_def f64_magnitude_def f64_is_nan_def u nat_less_iff le_nat_iff)
  moreover have "f64_rank f64_one = 4607182418800017408" "\<not> f64_is_nan f64_one"
    by (simp_all add: f64_rank_def f64_negative_def f64_magnitude_def f64_is_nan_def f64_one_def)
  ultimately show ?thesis using assms unfolding w_def [symmetric] by (simp add: f64_partial_cmp_def)
qed

lemma usable_int_as_float:
  assumes "0 \<le> v" "v < 4607182418800017408"
  shows "usable_bound Float64 (encode_bound Int64 (BI v)) (BF f64_one) = Some (BF (of_nat (nat v)))"
proof -
  have "v mod 2 ^ 64 = v" using assms by simp
  moreover have "nat v < 256 ^ 8" using assms by (simp add: nat_less_iff)
  ultimately show ?thesis
    by (simp add: usable_bound_def decode_bound_def i64_to_le_def le_nat_le_bytes_id del: power_numeral)
qed

text \<open>A file written while the column was \<open>Int64\<close> is dropped by \<open>col > 1.0\<close> once the column has been widened to
  \<open>Float64\<close>, whatever values between 0 and \<open>2 ^ 61\<close> it holds: the bytes of the integer bounds are read as those
  of doubles close to zero. The widening is one that schema evolution makes, and a row whose value, converted as the
  query converts it, is above 1 is lost with the file.\<close>

theorem widened_file_pruned:
  assumes "co_name c = name" "co_type c = Int64" "field_type s name = Some Float64"
    and "\<forall>v \<in> set (co_values c). \<exists>i. v = Some (BI i) \<and> 0 \<le> i \<and> i < 2 ^ 61"
    and "Some (BI x) \<in> set (co_values c)" "op_holds OpGt (BF (f64_of_int x)) (BF f64_one)"
    and "fm_stats f = Some (compute_stats_lite [c] [name])" "fm_row_count f = length (co_values c)"
  shows "try_widen name Int64 Float64 = Some (WidenType name Float64) \<and>
    prune_visible_files s [f] [above_one name] = ([], 1)"
proof
  show "try_widen name Int64 Float64 = Some (WidenType name Float64)" by (simp add: try_widen_def promotion_rank_def)
  have "List.map_filter id (co_values c) \<noteq> []" using assms(5) by (force simp: List.map_filter_def filter_empty_conv)
  then obtain lo hi where b: "array_bounds c = Some (lo, hi)"
    using assms(2) by (cases "array_bounds c") (auto simp: array_bounds_def split: list.splits)
  obtain l h where lh: "lo = BI l" "0 \<le> l" "l < 2 ^ 61" "hi = BI h" "0 \<le> h" "h < 2 ^ 61"
    using bspec [OF assms(4), of "Some lo"] bspec [OF assms(4), of "Some hi"] array_bounds_among [OF b] by auto
  show "prune_visible_files s [f] [above_one name] = ([], 1)"
  proof (rule one_column_pruned [OF assms(1,5,3) above_one_constraints [OF assms(3)] _ b _ _ _ assms(7,8)])
    show "usable_bound Float64 (encode_bound (co_type c) lo)
        (cn_value \<lparr>cn_column = name, cn_op = OpGt, cn_value = BF f64_one, cn_kind = KFloat\<rparr>) = Some (BF (of_nat (nat l)))"
      "usable_bound Float64 (encode_bound (co_type c) hi)
        (cn_value \<lparr>cn_column = name, cn_op = OpGt, cn_value = BF f64_one, cn_kind = KFloat\<rparr>) = Some (BF (of_nat (nat h)))"
      using usable_int_as_float lh by (simp_all add: assms(2))
    show "violates (BF (of_nat (nat l))) (BF (of_nat (nat h)))
        (cn_op \<lparr>cn_column = name, cn_op = OpGt, cn_value = BF f64_one, cn_kind = KFloat\<rparr>)
        (cn_value \<lparr>cn_column = name, cn_op = OpGt, cn_value = BF f64_one, cn_kind = KFloat\<rparr>)"
      using small_bits_below_one [of h] lh by simp
  qed simp
qed

lemma widen_ignores_nan:
  "\<not> bound_nan lo \<Longrightarrow> \<not> bound_nan hi \<Longrightarrow> \<forall>x \<in> insert lo (insert hi (set vs)). bound_of_type Float64 x \<Longrightarrow>
    widen_bounds vs (lo, hi) = (l, h) \<Longrightarrow> \<not> bound_nan l \<and> \<not> bound_nan h"
proof (induction vs arbitrary: lo hi)
  case (Cons v vs)
  let ?lo = "if bound_cmp v lo = Some Less then v else lo"
  let ?hi = "if bound_cmp v hi = Some Greater then v else hi"
  have fl: "\<exists>x. v = BF x" "\<exists>x. lo = BF x" "\<exists>x. hi = BF x"
    using Cons.prems(3) by (cases v; simp; cases lo; simp; cases hi; simp)+
  then have "\<not> bound_nan ?lo" "\<not> bound_nan ?hi"
    using Cons.prems(1,2) by (auto simp: f64_partial_cmp_def split: if_splits)
  moreover have "\<forall>x \<in> insert ?lo (insert ?hi (set vs)). bound_of_type Float64 x" using Cons.prems(3) by auto
  moreover have "widen_bounds vs (?lo, ?hi) = (l, h)" using Cons.prems(4) by simp
  ultimately show ?case by (rule Cons.IH)
qed auto

text \<open>A row with NaN satisfies \<open>col > 1.0\<close>, but a file with such a row is dropped as soon as its first value is a
  number and all its numbers are at most 1: NaN never widens the bounds.\<close>

theorem nan_row_pruned:
  assumes "co_name c = name" "co_type c = Float64" "field_type s name = Some Float64"
    and "co_values c = Some (BF x) # vs" "\<not> f64_is_nan x" "\<forall>v. Some v \<in> set (co_values c) \<longrightarrow>
      (\<exists>y. v = BF y \<and> (f64_is_nan y \<or> f64_rank y \<le> f64_rank f64_one))"
    and "co_values c ! i = Some (BF y)" "i < length (co_values c)" "f64_is_nan y" "\<not> f64_negative y"
    and "fm_stats f = Some (compute_stats_lite [c] [name])" "fm_row_count f = length (co_values c)"
  shows "eval_filter other s [c] (above_one name) i \<and> prune_visible_files s [f] [above_one name] = ([], 1)"
proof
  have rank: "f64_rank f64_one = 4607182418800017408" "\<not> f64_is_nan f64_one" "\<not> f64_negative f64_one"
    by (simp_all add: f64_rank_def f64_negative_def f64_magnitude_def f64_is_nan_def f64_one_def)
  have "f64_total_rank f64_one < f64_total_rank y"
    using assms(9,10) rank by (auto simp: f64_total_rank_def f64_rank_def f64_is_nan_def)
  then show "eval_filter other s [c] (above_one name) i"
    using assms(1-3,7,8) by (simp add: above_one_def eval_comparison_def comparison_ops_def view_cell_def view_column_def)
  obtain ws where ws: "List.map_filter id (co_values c) = BF x # ws"
    by (simp add: assms(4) List.map_filter_def)
  have mem: "y \<in> set (BF x # ws) \<longleftrightarrow> Some y \<in> set (co_values c)" for y
    unfolding ws [symmetric] by (force simp: List.map_filter_def)
  obtain lo hi where w: "widen_bounds ws (BF x, BF x) = (lo, hi)" by fastforce
  then have b: "array_bounds c = Some (lo, hi)" by (simp add: array_bounds_def assms(2) ws)
  have "\<forall>z \<in> insert (BF x) (insert (BF x) (set ws)). bound_of_type Float64 z"
    using mem assms(6) by fastforce
  from widen_ignores_nan [OF _ _ this w] have nn: "\<not> bound_nan lo" "\<not> bound_nan hi" using assms(5) by auto
  obtain l h where lh: "lo = BF l" "hi = BF h" "f64_rank h \<le> f64_rank f64_one" "\<not> f64_is_nan h"
    using array_bounds_among [OF b] assms(6) nn by fastforce
  show "prune_visible_files s [f] [above_one name] = ([], 1)"
  proof (rule one_column_pruned [OF assms(1) _ assms(3) above_one_constraints [OF assms(3)] _ b _ _ _ assms(11,12)])
    show "Some (BF x) \<in> set (co_values c)" by (simp add: assms(4))
    show "usable_bound Float64 (encode_bound (co_type c) lo)
        (cn_value \<lparr>cn_column = name, cn_op = OpGt, cn_value = BF f64_one, cn_kind = KFloat\<rparr>) = Some lo"
      "usable_bound Float64 (encode_bound (co_type c) hi)
        (cn_value \<lparr>cn_column = name, cn_op = OpGt, cn_value = BF f64_one, cn_kind = KFloat\<rparr>) = Some hi"
      using decode_encode_bound [of Float64 lo] decode_encode_bound [of Float64 hi]
      by (simp_all add: usable_bound_def lh assms(2))
    show "violates lo hi (cn_op \<lparr>cn_column = name, cn_op = OpGt, cn_value = BF f64_one, cn_kind = KFloat\<rparr>)
        (cn_value \<lparr>cn_column = name, cn_op = OpGt, cn_value = BF f64_one, cn_kind = KFloat\<rparr>)"
      using lh rank by (simp add: f64_partial_cmp_def cmp_of_def)
  qed simp
qed

end
