(* ===== verification/Index_File.thy ===== *)
theory Index_File
  imports Stat_Bounds Snapshot_Frame
begin

text \<open>
  The index of a data file (\<open>crates/model/src/index.rs\<close>): for every group of 65536 rows the bounds of the indexed
  columns and a filter for equality. The XOR filter is the crate \<open>xorf\<close>: \<open>build\<close> makes it from the hashes of a
  group, \<open>contains\<close> asks it. The payload is encoded by \<open>prost\<close>, the parameters \<open>enc\<close> and \<open>dec\<close>, and
  \<open>crc\<close> is \<open>crc32fast::hash\<close>.
\<close>

definition INDEX_FORMAT_VERSION :: nat where "INDEX_FORMAT_VERSION = 1"

definition INDEX_GROUP_ROWS :: nat where "INDEX_GROUP_ROWS = 65536"

definition INDEX_MAGIC :: bytes where "INDEX_MAGIC = [0x59, 0x54, 0x49, 0x58]"

definition INDEX_HEADER_LEN :: nat where "INDEX_HEADER_LEN = 14"

record column_filter =
  cf_column :: string
  cf_seed :: nat
  cf_block_length :: nat
  cf_fingerprints :: bytes

record index_group =
  ig_columns :: "column_stat_lite list"
  ig_filters :: "column_filter list"

record index_file =
  ix_group_rows :: nat
  ix_row_count :: nat
  ix_groups :: "index_group list"

record xor8 =
  x8_seed :: nat
  x8_block_length :: nat
  x8_fingerprints :: bytes

subsection \<open>Keys\<close>

datatype index_key = IkBool bool | IkInt int | IkUInt nat | IkBytes bytes

definition fnv1a :: "bytes \<Rightarrow> 64 word" where
  "fnv1a bs = fold (\<lambda>b h. xor h (ucast b) * 0x00000100000001b3) bs 0xcbf29ce484222325"

fun key_hash :: "index_key \<Rightarrow> 64 word" where
  "key_hash (IkBool b) = (if b then 1 else 0)"
| "key_hash (IkInt i) = of_int i"
| "key_hash (IkUInt n) = of_nat n"
| "key_hash (IkBytes bs) = fnv1a bs"

fun keyed_type :: "data_type \<Rightarrow> bool" where
  "keyed_type Int8 = True" | "keyed_type Int16 = True" | "keyed_type Int32 = True" | "keyed_type Int64 = True"
| "keyed_type UInt8 = True" | "keyed_type UInt16 = True" | "keyed_type UInt32 = True" | "keyed_type UInt64 = True"
| "keyed_type Date32 = True" | "keyed_type (Timestamp _) = True"
| "keyed_type Utf8 = True" | "keyed_type LargeUtf8 = True" | "keyed_type Binary = True" | "keyed_type LargeBinary = True"
| "keyed_type _ = False"

fun bound_key :: "stat_bound \<Rightarrow> index_key option" where
  "bound_key (BI i) = Some (IkInt i)"
| "bound_key (BU n) = Some (IkUInt n)"
| "bound_key (BB bs) = Some (IkBytes bs)"
| "bound_key (BF x) = None"

text \<open>\<open>array.is_null(i)\<close> gives \<open>None\<close>, and so does a type that is not indexed.\<close>

definition arrow_key :: "column \<Rightarrow> nat \<Rightarrow> index_key option" where
  "arrow_key c i =
     (case co_values c ! i of
        None \<Rightarrow> None
      | Some v \<Rightarrow> if keyed_type (co_type c) then bound_key v else None)"

subsection \<open>Building\<close>

definition batch_rows :: "batch_view \<Rightarrow> nat" where
  "batch_rows b = (case b of [] \<Rightarrow> 0 | c # _ \<Rightarrow> length (co_values c))"

text \<open>\<open>RecordBatch::slice(start, len)\<close>.\<close>

definition batch_slice :: "nat \<Rightarrow> nat \<Rightarrow> batch_view \<Rightarrow> batch_view" where
  "batch_slice start len b = map (\<lambda>c. c\<lparr>co_values := take len (drop start (co_values c))\<rparr>) b"

text \<open>A \<open>BTreeSet\<close> of the hashes: sorted, without duplicates.\<close>

definition column_keys :: "column \<Rightarrow> 64 word list" where
  "column_keys c = sort (remdups (map key_hash (List.map_filter (arrow_key c) [0..<length (co_values c)])))"

definition column_filter_of :: "(64 word list \<Rightarrow> xor8) \<Rightarrow> batch_view \<Rightarrow> string \<Rightarrow> column_filter option" where
  "column_filter_of build b name =
     (case view_column name b of
        None \<Rightarrow> None
      | Some c \<Rightarrow>
          let keys = column_keys c in
          if keys = [] then None
          else let x = build keys in
            Some \<lparr>cf_column = name, cf_seed = x8_seed x, cf_block_length = x8_block_length x,
                  cf_fingerprints = x8_fingerprints x\<rparr>)"

definition build_group :: "(64 word list \<Rightarrow> xor8) \<Rightarrow> batch_view \<Rightarrow> string list \<Rightarrow> index_group" where
  "build_group build rows columns =
     \<lparr>ig_columns = compute_stats_lite rows columns, ig_filters = List.map_filter (column_filter_of build rows) columns\<rparr>"

definition div_ceil :: "nat \<Rightarrow> nat \<Rightarrow> nat" where
  "div_ceil a b = a div b + (if a mod b = 0 then 0 else 1)"

definition index_build :: "(64 word list \<Rightarrow> xor8) \<Rightarrow> batch_view \<Rightarrow> string list \<Rightarrow> index_file" where
  "index_build build b columns =
     (let rows = batch_rows b; n_groups = div_ceil rows INDEX_GROUP_ROWS in
      \<lparr>ix_group_rows = INDEX_GROUP_ROWS, ix_row_count = rows,
       ix_groups = map (\<lambda>g. let start = g * INDEX_GROUP_ROWS; len = min INDEX_GROUP_ROWS (rows - start) in
         build_group build (batch_slice start len b) columns) [0..<n_groups]\<rparr>)"

subsection \<open>Asking\<close>

definition matches_shape :: "index_file \<Rightarrow> nat \<Rightarrow> bool" where
  "matches_shape ix row_count \<longleftrightarrow>
     ix_group_rows ix = INDEX_GROUP_ROWS \<and> ix_row_count ix = row_count \<and> row_count > 0 \<and>
     length (ix_groups ix) = div_ceil row_count INDEX_GROUP_ROWS"

text \<open>The product is that of \<open>usize\<close>, which wraps.\<close>

definition to_xor8 :: "column_filter \<Rightarrow> xor8 option" where
  "to_xor8 f =
     (if cf_block_length f = 0 \<or> length (cf_fingerprints f) \<noteq> cf_block_length f * 3 mod 2 ^ 64 then None
      else Some \<lparr>x8_seed = cf_seed f, x8_block_length = cf_block_length f, x8_fingerprints = cf_fingerprints f\<rparr>)"

definition definitely_absent ::
  "(xor8 \<Rightarrow> 64 word \<Rightarrow> bool) \<Rightarrow> index_file \<Rightarrow> nat \<Rightarrow> string \<Rightarrow> index_key \<Rightarrow> bool option" where
  "definitely_absent contains ix g column key =
     (if g < length (ix_groups ix) then
        (case find (\<lambda>f. cf_column f = column) (ig_filters (ix_groups ix ! g)) of
           None \<Rightarrow> None
         | Some f \<Rightarrow>
             (case to_xor8 f of
                None \<Rightarrow> None
              | Some x \<Rightarrow> Some (\<not> contains x (key_hash key))))
      else None)"

definition index_column_stats :: "index_file \<Rightarrow> nat \<Rightarrow> string \<Rightarrow> column_stat_lite option" where
  "index_column_stats ix g column =
     (if g < length (ix_groups ix) then find (\<lambda>c. cs_name c = column) (ig_columns (ix_groups ix ! g)) else None)"

subsection \<open>Frame\<close>

datatype index_error =
    IndexShort nat
  | IndexMagic
  | IndexVersion nat
  | IndexLength nat nat
  | IndexCrc nat nat
  | IndexPayload

definition index_to_bytes :: "(index_file \<Rightarrow> bytes) \<Rightarrow> (bytes \<Rightarrow> nat) \<Rightarrow> index_file \<Rightarrow> bytes" where
  "index_to_bytes enc crc ix =
     (let payload = enc ix in
      INDEX_MAGIC @ le_bytes 2 INDEX_FORMAT_VERSION @ le_bytes 4 (length payload) @ le_bytes 4 (crc payload) @ payload)"

definition index_from_bytes ::
  "(bytes \<Rightarrow> index_file option) \<Rightarrow> (bytes \<Rightarrow> nat) \<Rightarrow> bytes \<Rightarrow> index_error + index_file" where
  "index_from_bytes dec crc bs =
     (if length bs < INDEX_HEADER_LEN then Inl (IndexShort (length bs))
      else if take 4 bs \<noteq> INDEX_MAGIC then Inl IndexMagic
      else
        let version = le_nat (slice 4 6 bs) in
        if version \<noteq> INDEX_FORMAT_VERSION then Inl (IndexVersion version)
        else
          let len = le_nat (slice 6 10 bs); stored = le_nat (slice 10 14 bs); payload = drop INDEX_HEADER_LEN bs in
          if length payload \<noteq> len then Inl (IndexLength len (length payload))
          else if crc payload \<noteq> stored then Inl (IndexCrc stored (crc payload))
          else (case dec payload of None \<Rightarrow> Inl IndexPayload | Some ix \<Rightarrow> Inr ix))"

subsection \<open>The frame is exact\<close>

lemma index_header_fields:
  "length (index_to_bytes enc crc ix) = 14 + length (enc ix)"
  "take 4 (index_to_bytes enc crc ix) = INDEX_MAGIC"
  "slice 4 6 (index_to_bytes enc crc ix) = le_bytes 2 INDEX_FORMAT_VERSION"
  "slice 6 10 (index_to_bytes enc crc ix) = le_bytes 4 (length (enc ix))"
  "slice 10 14 (index_to_bytes enc crc ix) = le_bytes 4 (crc (enc ix))"
  "drop 14 (index_to_bytes enc crc ix) = enc ix"
  by (simp_all add: index_to_bytes_def slice_def INDEX_MAGIC_def Let_def)

text \<open>An index file is read back as it was written, and nothing else is accepted: what \<open>from_bytes\<close> accepts is a
  file of the current version whose length and checksum are those of its payload.\<close>

theorem index_frame_exact:
  assumes "dec (enc ix) = Some ix" "\<forall>p. crc p < 2 ^ 32"
  shows "(length (enc ix) < 2 ^ 32 \<longrightarrow> index_from_bytes dec crc (index_to_bytes enc crc ix) = Inr ix) \<and>
    (index_from_bytes dec crc bs = Inr jx \<longrightarrow>
      (\<exists>p. dec p = Some jx \<and>
        bs = INDEX_MAGIC @ le_bytes 2 INDEX_FORMAT_VERSION @ le_bytes 4 (length p) @ le_bytes 4 (crc p) @ p))"
proof (intro conjI impI)
  assume len: "length (enc ix) < 2 ^ 32"
  have "le_nat (le_bytes 4 (length (enc ix))) = length (enc ix)" "le_nat (le_bytes 4 (crc (enc ix))) = crc (enc ix)"
    "le_nat (le_bytes 2 INDEX_FORMAT_VERSION) = INDEX_FORMAT_VERSION"
    using len assms(2) by (simp_all add: le_nat_le_bytes_id INDEX_FORMAT_VERSION_def)
  then show "index_from_bytes dec crc (index_to_bytes enc crc ix) = Inr ix"
    using assms(1) by (simp add: index_from_bytes_def INDEX_HEADER_LEN_def Let_def index_header_fields)
next
  assume ok: "index_from_bytes dec crc bs = Inr jx"
  let ?p = "drop 14 bs"
  have f: "14 \<le> length bs" "take 4 bs = INDEX_MAGIC" "le_nat (slice 4 6 bs) = INDEX_FORMAT_VERSION"
    "le_nat (slice 6 10 bs) = length ?p" "le_nat (slice 10 14 bs) = crc ?p" "dec ?p = Some jx"
    using ok by (auto simp: index_from_bytes_def INDEX_HEADER_LEN_def Let_def split: if_splits option.splits)
  have "bs = take 4 bs @ slice 4 6 bs @ slice 6 10 bs @ slice 10 14 bs @ ?p"
    using slice_append_drop [of 4 6 bs] slice_append_drop [of 6 10 bs] slice_append_drop [of 10 14 bs]
      append_take_drop_id [of 4 bs] by simp
  moreover have "slice 4 6 bs = le_bytes 2 INDEX_FORMAT_VERSION" "slice 6 10 bs = le_bytes 4 (length ?p)"
    "slice 10 14 bs = le_bytes 4 (crc ?p)"
    using le_bytes_le_nat [of "slice 4 6 bs" 2] le_bytes_le_nat [of "slice 6 10 bs" 4]
      le_bytes_le_nat [of "slice 10 14 bs" 4] f by (simp_all add: length_slice)
  ultimately show "\<exists>p. dec p = Some jx \<and>
      bs = INDEX_MAGIC @ le_bytes 2 INDEX_FORMAT_VERSION @ le_bytes 4 (length p) @ le_bytes 4 (crc p) @ p"
    using f(2,6) by metis
qed

end
