(* ===== verification/Group_Plan.thy ===== *)
theory Group_Plan
  imports Prune_Sound Index_File
begin

text \<open>
  Which row groups of a file a query skips (\<open>crates/query/src/index.rs\<close>): the bounds of the group with the rule for
  files, and for an equality the filter of the group. An access plan lists for every group whether it is read.
\<close>

fun xor_key :: "constraint \<Rightarrow> index_key option" where
  "xor_key c =
     (case (cn_kind c, cn_value c) of
        (KInt, BI x) \<Rightarrow> Some (IkInt x)
      | (KDate32, BI x) \<Rightarrow> Some (IkInt x)
      | (KTsSecond, BI x) \<Rightarrow> Some (IkInt x)
      | (KTsMilli, BI x) \<Rightarrow> Some (IkInt x)
      | (KTsMicro, BI x) \<Rightarrow> Some (IkInt x)
      | (KTsNano, BI x) \<Rightarrow> Some (IkInt x)
      | (KUInt, BU x) \<Rightarrow> Some (IkUInt x)
      | (KBytes, BB bs) \<Rightarrow> Some (IkBytes bs)
      | _ \<Rightarrow> None)"

declare xor_key.simps [simp del]

definition equality_absent :: "(xor8 \<Rightarrow> 64 word \<Rightarrow> bool) \<Rightarrow> index_file \<Rightarrow> nat \<Rightarrow> constraint \<Rightarrow> bool" where
  "equality_absent contains ix g c \<longleftrightarrow>
     cn_op c = OpEq \<and>
     (case xor_key c of None \<Rightarrow> False | Some k \<Rightarrow> definitely_absent contains ix g (cn_column c) k = Some True)"

definition skip_group ::
  "(xor8 \<Rightarrow> 64 word \<Rightarrow> bool) \<Rightarrow> schema \<Rightarrow> index_file \<Rightarrow> nat \<Rightarrow> constraint list \<Rightarrow> nat \<Rightarrow> bool" where
  "skip_group contains s ix row_count cs g \<longleftrightarrow>
     (let start = g * INDEX_GROUP_ROWS; group_rows = min (row_count - start) INDEX_GROUP_ROWS in
      can_prune_with s (ig_columns (ix_groups ix ! g)) group_rows cs \<or> list_ex (equality_absent contains ix g) cs)"

definition group_access_plan ::
  "(xor8 \<Rightarrow> 64 word \<Rightarrow> bool) \<Rightarrow> schema \<Rightarrow> index_file \<Rightarrow> nat \<Rightarrow> expr list \<Rightarrow> bool list option" where
  "group_access_plan contains s ix row_count filters =
     (if filters = [] \<or> \<not> matches_shape ix row_count then None
      else
        let cs = concat (map (constraints s) filters) in
        if cs = [] then None
        else
          let plan = map (\<lambda>g. \<not> skip_group contains s ix row_count cs g) [0..<length (ix_groups ix)] in
          if False \<in> set plan then Some plan else None)"

subsection \<open>Rows of a group\<close>

lemma find_slice:
  "view_column name (batch_slice start len b) =
     map_option (\<lambda>c. c\<lparr>co_values := take len (drop start (co_values c))\<rparr>) (view_column name b)"
  by (induction b) (auto simp: view_column_def batch_slice_def)

lemma view_cell_slice:
  "j < len \<Longrightarrow> view_cell (batch_slice start len b) name j = view_cell b name (start + j)"
  by (auto simp: view_cell_def find_slice split: option.splits)

lemma eval_filter_slice:
  "j < len \<Longrightarrow> eval_filter (\<lambda>e j. other e (start + j)) s (batch_slice start len b) e j = eval_filter other s b e (start + j)"
  by (induction e) (auto simp: eval_comparison_def view_cell_slice split: expr.splits option.splits)

lemma view_ok_slice: "view_ok n b \<Longrightarrow> start + len \<le> n \<Longrightarrow> view_ok len (batch_slice start len b)"
  by (fastforce simp: view_ok_def batch_slice_def dest: in_set_takeD in_set_dropD)

lemma types_kept_slice: "types_kept s b \<Longrightarrow> types_kept s (batch_slice start len b)"
  by (fastforce simp: types_kept_def find_slice)

lemma view_ok_rows: "view_ok n b \<Longrightarrow> b \<noteq> [] \<Longrightarrow> batch_rows b = n"
  by (cases b) (auto simp: view_ok_def batch_rows_def)

text \<open>An equality that holds makes the hash of the cell that of the literal.\<close>

lemma equal_same_hash:
  assumes "op_holds OpEq a v" "xor_key c = Some k" "cn_value c = v" "sides_match a v"
  shows "\<exists>k'. bound_key a = Some k' \<and> key_hash k' = key_hash k"
proof -
  have k: "bound_key v = Some k"
    using assms(2,3) by (cases v; cases "cn_kind c") (auto simp: xor_key.simps)
  then show ?thesis
    using assms(1,4) by (cases a; cases v) (auto simp: sides_match_def bytes_cmp_equal split: if_splits)
qed

lemma xor_key_typed:
  assumes "xor_key c = Some k" "scalar_matches_column (cn_kind c) dt" "bound_of_type dt a"
  shows "keyed_type dt"
  using assms by (cases dt; cases "cn_kind c"; cases "cn_value c") (auto simp: xor_key.simps)

lemma column_keys_has:
  assumes "co_values c ! j = Some a" "j < length (co_values c)" "keyed_type (co_type c)" "bound_key a = Some k"
  shows "key_hash k \<in> set (column_keys c)"
proof -
  have "arrow_key c j = Some k" using assms by (simp add: arrow_key_def)
  then have "k \<in> set (List.map_filter (arrow_key c) [0..<length (co_values c)])"
    using assms(2) by (force simp: List.map_filter_def)
  then show ?thesis by (simp add: column_keys_def)
qed

text \<open>The first filter of a column is the filter of that column in the group.\<close>

lemma find_filter:
  "find (\<lambda>f. cf_column f = name) (List.map_filter (column_filter_of build b) cols) = Some f \<Longrightarrow>
    column_filter_of build b name = Some f"
proof (induction cols)
  case (Cons x xs)
  show ?case
  proof (cases "column_filter_of build b x")
    case (Some f')
    have "cf_column f' = x" using Some by (auto simp: column_filter_of_def Let_def split: option.splits if_splits)
    with Cons Some show ?thesis by (cases "x = name") (auto simp: List.map_filter_simps)
  qed (use Cons in \<open>simp add: List.map_filter_simps\<close>)
qed (simp add: List.map_filter_simps)

lemma filter_contains_row:
  assumes sound: "\<forall>ks k. k \<in> set ks \<longrightarrow> contains (build ks) k"
    and f: "column_filter_of build b name = Some f" "to_xor8 f = Some x"
    and c: "view_column name b = Some c" "h \<in> set (column_keys c)"
  shows "contains x h"
proof -
  let ?x = "build (column_keys c)"
  have "f = \<lparr>cf_column = name, cf_seed = x8_seed ?x, cf_block_length = x8_block_length ?x,
      cf_fingerprints = x8_fingerprints ?x\<rparr>"
    using f(1) c(1) by (auto simp: column_filter_of_def Let_def split: if_splits)
  then have "x = ?x" using f(2) by (auto simp: to_xor8_def split: if_splits)
  with sound c(2) show ?thesis by blast
qed

subsection \<open>Skipping is sound\<close>

lemma cell_of_row:
  assumes "view_ok n b" "types_kept s b" "view_cell b name j = Some a" "field_type s name = Some dt"
  obtains c where "view_column name b = Some c" "co_type c = dt" "j < length (co_values c)" "co_values c ! j = Some a"
    "bound_of_type dt a"
proof -
  from assms(3) obtain c where c: "view_column name b = Some c" "j < length (co_values c)" "co_values c ! j = Some a"
    by (auto simp: view_cell_def split: option.splits if_splits)
  then have "co_type c = dt" using assms(2,4) by (fastforce simp: types_kept_def)
  moreover have "c \<in> set b" using c(1) by (auto simp: view_column_def find_Some_iff)
  moreover have "Some a \<in> set (co_values c)" using c(2,3) by (metis nth_mem)
  ultimately show thesis using that c assms(1) by (auto simp: view_ok_def)
qed

lemma equality_keeps_row:
  assumes sound: "\<forall>ks k. k \<in> set ks \<longrightarrow> contains (build ks) k"
    and view: "view_ok n b" "types_kept s b" and row: "eval_filter other s b e j" "c \<in> set (constraints s e)"
    and grp: "g < length (ix_groups ix)" "ix_groups ix ! g = build_group build b cols"
  shows "\<not> equality_absent contains ix g c"
proof
  assume "equality_absent contains ix g c"
  then obtain k where k: "cn_op c = OpEq" "xor_key c = Some k" "definitely_absent contains ix g (cn_column c) k = Some True"
    by (auto simp: equality_absent_def split: option.splits)
  from k(3) grp obtain f x where f: "find (\<lambda>f. cf_column f = cn_column c)
      (List.map_filter (column_filter_of build b) cols) = Some f" "to_xor8 f = Some x" "\<not> contains x (key_hash k)"
    by (auto simp: definitely_absent_def build_group_def split: option.splits)
  obtain a where a: "view_cell b (cn_column c) j = Some a" "op_holds OpEq a (cn_value c)"
    using rows.holds_constraints [OF row] k(1) by auto
  obtain v dt where lit: "literal_bound v = Some (cn_value c, cn_kind c)" "field_type s (cn_column c) = Some dt"
    "scalar_matches_column (cn_kind c) dt" using constraint_shape [OF row(2)] by blast
  obtain col where col: "view_column (cn_column c) b = Some col" "co_type col = dt" "j < length (co_values col)"
    "co_values col ! j = Some a" "bound_of_type dt a" by (rule cell_of_row [OF view a(1) lit(2)])
  have "sides_match a (cn_value c)" by (rule literal_kind [OF lit(1,3) col(5)])
  from equal_same_hash [OF a(2) k(2) refl this] obtain k' where k': "bound_key a = Some k'" "key_hash k' = key_hash k"
    by blast
  have "keyed_type (co_type col)" using xor_key_typed [OF k(2) lit(3) col(5)] col(2) by simp
  from column_keys_has [OF col(4,3) this k'(1)] have "contains x (key_hash k)"
    using filter_contains_row [OF sound find_filter [OF f(1)] f(2) col(1)] k'(2) by simp
  with f(3) show False by simp
qed

lemma matching_group_kept:
  assumes "\<forall>ks k. k \<in> set ks \<longrightarrow> contains (build ks) k"
    and view: "view_ok n b" "types_kept s b" and "plain_literals s filters"
    and row: "\<forall>e \<in> set filters. eval_filter other s b e j"
    and grp: "g < length (ix_groups ix)" "ix_groups ix ! g = build_group build b cols"
    and n: "min (rc - g * INDEX_GROUP_ROWS) INDEX_GROUP_ROWS = n"
  shows "\<not> skip_group contains s ix rc (concat (map (constraints s) filters)) g"
proof -
  have "\<not> can_prune_with s (compute_stats_lite b cols) n (concat (map (constraints s) filters))"
    by (rule rows.matching_block_kept [OF compute_stats_describe [OF view] row assms(4)])
  moreover have "\<not> equality_absent contains ix g c" if "e \<in> set filters" "c \<in> set (constraints s e)" for e c
    using equality_keeps_row [OF assms(1) view _ that(2) grp] row that(1) by blast
  moreover have "ig_columns (ix_groups ix ! g) = compute_stats_lite b cols" by (simp add: grp(2) build_group_def)
  ultimately show ?thesis by (auto simp: skip_group_def Let_def n list_ex_iff)
qed

lemma group_of_row: "i < n \<Longrightarrow> i div INDEX_GROUP_ROWS < div_ceil n INDEX_GROUP_ROWS"
proof -
  assume i: "i < n"
  show ?thesis
  proof (cases "n mod INDEX_GROUP_ROWS = 0")
    case True
    then obtain k where "n = INDEX_GROUP_ROWS * k" by (auto simp: mod_eq_0_iff_dvd elim: dvdE)
    then show ?thesis using i
      by (simp add: div_ceil_def INDEX_GROUP_ROWS_def less_mult_imp_div_less mult.commute)
  next
    case False
    have "i div INDEX_GROUP_ROWS \<le> n div INDEX_GROUP_ROWS" using i by (intro div_le_mono) simp
    with False show ?thesis by (simp add: div_ceil_def)
  qed
qed

lemma index_build_group:
  "g < div_ceil (batch_rows b) INDEX_GROUP_ROWS \<Longrightarrow>
    g < length (ix_groups (index_build build b cols)) \<and>
    ix_groups (index_build build b cols) ! g = build_group build
      (batch_slice (g * INDEX_GROUP_ROWS) (min INDEX_GROUP_ROWS (batch_rows b - g * INDEX_GROUP_ROWS)) b) cols"
  by (simp add: index_build_def Let_def)

text \<open>C21: The access plan of a file covers exactly its row groups and never skips a group that has a row on which all
  filters are true: a filter of hashes without false negatives proves absence. As for files, the column types must not
  have changed since the index was built and no float may be NaN or -0.\<close>

theorem group_plan_keeps_matching_rows:
  assumes "\<forall>ks k. k \<in> set ks \<longrightarrow> contains (build ks) k"
    and view: "view_ok n b" "types_kept s b" and lits: "plain_literals s filters"
    and i: "i < n" and row: "\<forall>e \<in> set filters. eval_filter other s b e i"
    and plan: "group_access_plan contains s (index_build build b cols) n filters = Some plan"
  shows "length plan = div_ceil n INDEX_GROUP_ROWS \<and> plan ! (i div INDEX_GROUP_ROWS)"
proof -
  let ?ix = "index_build build b cols" and ?g = "i div INDEX_GROUP_ROWS" and ?j = "i mod INDEX_GROUP_ROWS"
  let ?start = "?g * INDEX_GROUP_ROWS"
  let ?len = "min INDEX_GROUP_ROWS (n - ?start)"
  from plan have p: "matches_shape ?ix n"
    "plan = map (\<lambda>g. \<not> skip_group contains s ?ix n (concat (map (constraints s) filters)) g) [0..<length (ix_groups ?ix)]"
    by (auto simp: group_access_plan_def Let_def split: if_splits)
  then have rows: "batch_rows b = n" and len: "length (ix_groups ?ix) = div_ceil n INDEX_GROUP_ROWS"
    by (auto simp: matches_shape_def index_build_def Let_def)
  have g: "?g < length (ix_groups ?ix)" using group_of_row [OF i] by (simp add: len)
  have ij: "?start + ?j = i" by (simp add: mult.commute)
  have j: "?j < ?len" using i by (auto simp: INDEX_GROUP_ROWS_def less_diff_conv ij [unfolded INDEX_GROUP_ROWS_def])
  have "?start \<le> i" using ij by linarith
  then have le: "?start + ?len \<le> n" using i by linarith
  have slice: "view_ok ?len (batch_slice ?start ?len b)" "types_kept s (batch_slice ?start ?len b)"
    by (rule view_ok_slice [OF view(1) le], rule types_kept_slice [OF view(2)])
  have "\<forall>e \<in> set filters. eval_filter (\<lambda>e j. other e (?start + j)) s (batch_slice ?start ?len b) e ?j"
    using row eval_filter_slice [OF j] ij by simp
  moreover have "ix_groups ?ix ! ?g = build_group build (batch_slice ?start ?len b) cols"
    using index_build_group [of ?g b build cols] group_of_row [OF i] rows by simp
  moreover have "min (n - ?start) INDEX_GROUP_ROWS = ?len" by simp
  ultimately have "\<not> skip_group contains s ?ix n (concat (map (constraints s) filters)) ?g"
    using matching_group_kept [OF assms(1) slice lits _ g] by blast
  then show ?thesis using g by (simp add: p(2) len)
qed

end
