(* ===== verification/Prune_Demo.thy ===== *)
theory Prune_Demo
  imports Prune_Gaps Group_Plan Catalog_Views
begin

text \<open>Concrete columns, files and queries at which the theorems on pruning apply.\<close>

definition v_schema :: "data_type \<Rightarrow> schema" where
  "v_schema dt = [\<lparr>f_name = ''v'', f_type = dt, f_nullable = True\<rparr>]"

definition v_column :: "data_type \<Rightarrow> stat_bound option list \<Rightarrow> column" where
  "v_column dt vs = \<lparr>co_name = ''v'', co_type = dt, co_values = vs\<rparr>"

definition v_above :: "int \<Rightarrow> expr" where
  "v_above n = BinaryExpr (Column ''v'') OpGt (Literal (SvInt64 (Some n)))"

definition v_file :: "column \<Rightarrow> file_manifest" where
  "v_file c = (demo_file ''b1'')\<lparr>fm_stats := Some (compute_stats_lite [c] [''v'']), fm_row_count := length (co_values c)\<rparr>"

lemma v_file_fields [simp]:
  "fm_stats (v_file c) = Some (compute_stats_lite [c] [''v''])" "fm_row_count (v_file c) = length (co_values c)"
  by (simp_all add: v_file_def)

lemma v_schema_type [simp]: "field_type (v_schema dt) ''v'' = Some dt"
  by (simp add: field_type_def v_schema_def)

lemma v_view [simp]: "view_column name [v_column dt vs] = (if name = ''v'' then Some (v_column dt vs) else None)"
  by (simp add: view_column_def v_column_def)

lemma v_column_fields [simp]: "co_name (v_column dt vs) = ''v''" "co_type (v_column dt vs) = dt" "co_values (v_column dt vs) = vs"
  by (simp_all add: v_column_def)

lemma v_types_kept: "types_kept (v_schema dt) [v_column dt vs]"
  by (simp add: types_kept_def split: if_splits)

lemma v_above_constraints:
  "constraints (v_schema Int64) (v_above n) = [\<lparr>cn_column = ''v'', cn_op = OpGt, cn_value = BI n, cn_kind = KInt\<rparr>]"
  by (simp add: v_above_def constraint_of_def comparison_ops_def)

lemma v_above_plain: "plain_literals (v_schema Int64) [v_above n]"
  by (simp add: plain_literals_def v_above_constraints negative_zero_def)

lemma v_above_row:
  "i < length vs \<Longrightarrow> vs ! i = Some (BI x) \<Longrightarrow> n < x \<Longrightarrow>
    eval_filter other (v_schema Int64) [v_column Int64 vs] (v_above n) i"
  by (simp add: v_above_def eval_comparison_def comparison_ops_def view_cell_def)

lemma v_view_ok:
  "(\<And>v. v \<in> set vs \<Longrightarrow> \<exists>x. v = Some (BI x) \<and> - (2 ^ 63) \<le> x \<and> x < 2 ^ 63) \<Longrightarrow>
    view_ok (length vs) [v_column Int64 vs]"
  by (fastforce simp: view_ok_def negative_zero_def)

lemma v_view_two: "view_ok 2 [v_column Int64 [Some (BI 5), Some (BI 9)]]"
  by (auto simp: view_ok_def negative_zero_def)

text \<open>A file with 5 and 9 is read for \<open>v > 6\<close>.\<close>

theorem prune_keeps_matching_files_witness:
  "v_file (v_column Int64 [Some (BI 5), Some (BI 9)]) \<in>
    set (fst (prune_visible_files (v_schema Int64) [v_file (v_column Int64 [Some (BI 5), Some (BI 9)])] [v_above 6]))"
  by (rule prune_keeps_matching_files [where b = "[v_column Int64 [Some (BI 5), Some (BI 9)]]" and cols = "[''v'']"
        and n = 2 and other = "\<lambda>_ _. False" and i = 1])
     (use v_view_two v_types_kept v_above_plain v_above_row in \<open>auto simp del: v_view\<close>)

text \<open>A file with 5, written as an integer, is dropped by \<open>v > 1.0\<close> on the widened column.\<close>

lemma five_above_one: "op_holds OpGt (BF (f64_of_int 5)) (BF f64_one)"
proof -
  have "bit_length 5 = 3" by (simp add: bit_length.simps)
  then have "f64_of_int 5 = 0x4014000000000000" by (simp add: f64_of_int_def f64_of_nat_def Let_def)
  then show ?thesis by (simp add: f64_total_rank_def f64_negative_def f64_magnitude_def f64_one_def)
qed

theorem widened_file_pruned_witness:
  "try_widen ''v'' Int64 Float64 = Some (WidenType ''v'' Float64) \<and>
    prune_visible_files (v_schema Float64) [v_file (v_column Int64 [Some (BI 5)])] [above_one ''v''] = ([], 1)"
  by (rule widened_file_pruned [where c = "v_column Int64 [Some (BI 5)]" and x = 5]) (use five_above_one in auto)

text \<open>A file with 0.5 and NaN is dropped by \<open>v > 1.0\<close>, which is true of its second row.\<close>

theorem nan_row_pruned_witness:
  "eval_filter (\<lambda>_ _. False) (v_schema Float64)
      [v_column Float64 [Some (BF 0x3FE0000000000000), Some (BF 0x7FF8000000000000)]] (above_one ''v'') 1 \<and>
    prune_visible_files (v_schema Float64)
      [v_file (v_column Float64 [Some (BF 0x3FE0000000000000), Some (BF 0x7FF8000000000000)])] [above_one ''v''] = ([], 1)"
  by (rule nan_row_pruned [where vs = "[Some (BF 0x7FF8000000000000)]" and x = "0x3FE0000000000000"
        and y = "0x7FF8000000000000"])
     (auto simp: f64_is_nan_def f64_magnitude_def f64_negative_def f64_rank_def f64_one_def)

subsection \<open>Two row groups\<close>

definition two_group_column :: column where
  "two_group_column = v_column Int64 (replicate INDEX_GROUP_ROWS (Some (BI 1)) @ [Some (BI 9)])"

lemma map_filter_replicate: "List.map_filter id (replicate n (Some x)) = replicate n x"
  by (induction n) (simp_all add: List.map_filter_simps)

lemma widen_constant: "widen_bounds (replicate n (BI x)) (BI x, BI x) = (BI x, BI x)"
  by (induction n) simp_all

lemma constant_lite:
  "0 < n \<Longrightarrow> column_lite ''v'' (v_column Int64 (replicate n (Some (BI x)))) =
    \<lparr>cs_name = ''v'', cs_min = encode_bound Int64 (BI x), cs_max = encode_bound Int64 (BI x), cs_null_count = 0\<rparr>"
  by (cases n) (simp_all add: column_lite_def array_bounds_def map_filter_replicate widen_constant column_nulls_def
      List.map_filter_simps)

lemma two_group_first: "batch_slice 0 INDEX_GROUP_ROWS [two_group_column] =
    [v_column Int64 (replicate INDEX_GROUP_ROWS (Some (BI 1)))]"
  by (simp add: batch_slice_def two_group_column_def v_column_def)

lemma two_group_skip:
  "skip_group (\<lambda>_ _. True) (v_schema Int64) (index_build build [two_group_column] [''v'']) (Suc INDEX_GROUP_ROWS)
     (concat (map (constraints (v_schema Int64)) [v_above 6])) 0"
proof -
  let ?ix = "index_build build [two_group_column] [''v'']"
  have rows: "batch_rows [two_group_column] = Suc INDEX_GROUP_ROWS" by (simp add: batch_rows_def two_group_column_def)
  have "0 < div_ceil (Suc INDEX_GROUP_ROWS) INDEX_GROUP_ROWS" by (simp add: div_ceil_def INDEX_GROUP_ROWS_def)
  with index_build_group [of 0 "[two_group_column]" build "[''v'']"]
  have g: "ix_groups ?ix ! 0 = build_group build (batch_slice 0 INDEX_GROUP_ROWS [two_group_column]) [''v'']"
    by (simp add: rows)
  have pos: "0 < INDEX_GROUP_ROWS" by (simp add: INDEX_GROUP_ROWS_def)
  have "ig_columns (ix_groups ?ix ! 0) =
      [\<lparr>cs_name = ''v'', cs_min = encode_bound Int64 (BI 1), cs_max = encode_bound Int64 (BI 1), cs_null_count = 0\<rparr>]"
    by (simp add: g two_group_first build_group_def one_column_stats constant_lite [OF pos] del: encode_bound.simps)
  moreover have "decode_bound Int64 (encode_bound Int64 (BI 1)) = Some (BI 1)" by (rule decode_encode_bound) simp
  ultimately show ?thesis
    by (simp add: skip_group_def can_prune_with_def v_above_constraints constraint_fails_def usable_bound_def
        del: encode_bound.simps)
qed

lemma two_group_plan:
  "\<exists>plan. group_access_plan (\<lambda>_ _. True) (v_schema Int64) (index_build build [two_group_column] [''v''])
     (Suc INDEX_GROUP_ROWS) [v_above 6] = Some plan \<and> \<not> plan ! 0"
proof -
  have len: "length (ix_groups (index_build build [two_group_column] [''v''])) = 2"
    by (simp add: index_build_def Let_def batch_rows_def two_group_column_def div_ceil_def INDEX_GROUP_ROWS_def)
  have shape: "matches_shape (index_build build [two_group_column] [''v'']) (Suc INDEX_GROUP_ROWS)"
    unfolding matches_shape_def len
    by (simp add: index_build_def Let_def batch_rows_def two_group_column_def div_ceil_def INDEX_GROUP_ROWS_def)
  show ?thesis
    using shape two_group_skip [of build]
    by (simp add: group_access_plan_def Let_def len v_above_constraints upt_rec)
qed

text \<open>Group 0 of 65536 rows with 1 is skipped by \<open>v > 6\<close>, group 1 with 9 is not.\<close>

theorem group_plan_keeps_matching_rows_witness:
  "\<exists>plan. group_access_plan (\<lambda>_ _. True) (v_schema Int64)
     (index_build (\<lambda>_. \<lparr>x8_seed = 0, x8_block_length = 1, x8_fingerprints = [0, 0, 0]\<rparr>) [two_group_column] [''v''])
     (Suc INDEX_GROUP_ROWS) [v_above 6] = Some plan \<and> \<not> plan ! 0 \<and> length plan = 2 \<and> plan ! 1"
proof -
  let ?build = "\<lambda>_ :: 64 word list. \<lparr>x8_seed = 0, x8_block_length = 1, x8_fingerprints = [0, 0, 0]\<rparr>"
  obtain plan where plan: "group_access_plan (\<lambda>_ _. True) (v_schema Int64)
      (index_build ?build [two_group_column] [''v'']) (Suc INDEX_GROUP_ROWS) [v_above 6] = Some plan" "\<not> plan ! 0"
    using two_group_plan [of ?build] by blast
  have view: "view_ok (Suc INDEX_GROUP_ROWS) [two_group_column]"
    unfolding two_group_column_def by (auto simp: view_ok_def negative_zero_def)
  have types: "types_kept (v_schema Int64) [two_group_column]" unfolding two_group_column_def by (rule v_types_kept)
  have row: "eval_filter (\<lambda>_ _. False) (v_schema Int64) [two_group_column] (v_above 6) INDEX_GROUP_ROWS"
    unfolding two_group_column_def by (rule v_above_row) (auto simp: nth_append)
  have "length plan = div_ceil (Suc INDEX_GROUP_ROWS) INDEX_GROUP_ROWS \<and>
      plan ! (INDEX_GROUP_ROWS div INDEX_GROUP_ROWS)"
    by (rule group_plan_keeps_matching_rows [OF _ view types v_above_plain _ _ plan(1)]) (use row in auto)
  moreover have "div_ceil (Suc INDEX_GROUP_ROWS) INDEX_GROUP_ROWS = 2" "INDEX_GROUP_ROWS div INDEX_GROUP_ROWS = 1"
    by (simp_all add: div_ceil_def INDEX_GROUP_ROWS_def)
  ultimately show ?thesis using plan by (intro exI [of _ plan]) simp
qed

end
