(* ===== verification/Time_Window.thy ===== *)
theory Time_Window
  imports Wal_Segment Chunk_State
begin

text \<open>
  The minute window that a batch belongs to (\<open>crates/ingest/src/timeutil.rs\<close> and \<open>window_of\<close> of
  \<open>accumulator.rs\<close>). Euclidean division by a positive number is \<open>div\<close>. The calendar is compared with the
  reference definition \<open>days_from_civil\<close> and with the calendar rules for the lengths of months.
\<close>

definition civil_from_days :: "int \<Rightarrow> int \<times> int \<times> int" where
  "civil_from_days days =
     (let z = days + 719468;
          era = z div 146097;
          doe = z mod 146097;
          yoe = (doe - doe div 1460 + doe div 36524 - doe div 146096) div 365;
          y = yoe + era * 400;
          doy = doe - (365 * yoe + yoe div 4 - yoe div 100);
          mp = (5 * doy + 2) div 153;
          d = doy - (153 * mp + 2) div 5 + 1;
          m = (if mp < 10 then mp + 3 else mp - 9);
          year = (if m \<le> 2 then y + 1 else y)
      in (year, m, d))"

definition civil_from_epoch_ms :: "int \<Rightarrow> int \<times> int \<times> int \<times> int \<times> int" where
  "civil_from_epoch_ms ms =
     (let secs = ms div 1000;
          days = secs div 86400;
          rest = secs mod 86400;
          (y, m, d) = civil_from_days days
      in (y, m, d, rest div 3600, rest mod 3600 div 60))"

text \<open>\<open>{n:0w}\<close>: decimal, filled with zeros up to the width; a sign counts.\<close>

definition pad_left :: "nat \<Rightarrow> string \<Rightarrow> string" where
  "pad_left w s = replicate (w - length s) CHR ''0'' @ s"

definition fmt_int :: "nat \<Rightarrow> int \<Rightarrow> string" where
  "fmt_int w n = (if n < 0 then ''-'' @ pad_left (w - 1) (dec_digits (nat (- n))) else pad_left w (dec_digits (nat n)))"

definition format_window :: "int \<Rightarrow> string" where
  "format_window start =
     (let (y, mo, d, h, mi) = civil_from_epoch_ms start in
      fmt_int 4 y @ ''-'' @ fmt_int 2 mo @ ''-'' @ fmt_int 2 d @ ''T'' @ fmt_int 2 h @ '':'' @ fmt_int 2 mi)"

definition ingest_window_start_ms :: "int \<Rightarrow> int" where
  "ingest_window_start_ms t = t div 60000 * 60000"

definition window_of :: "int option \<Rightarrow> int \<Rightarrow> int \<times> string" where
  "window_of event_time_ms received_at_ms =
     (let t = (case event_time_ms of Some t \<Rightarrow> t | None \<Rightarrow> received_at_ms);
          w = ingest_window_start_ms t
      in (w, format_window w))"

subsection \<open>The calendar\<close>

definition leap :: "int \<Rightarrow> bool" where
  "leap y \<longleftrightarrow> y mod 4 = 0 \<and> (y mod 100 \<noteq> 0 \<or> y mod 400 = 0)"

definition month_length :: "int \<Rightarrow> int \<Rightarrow> int" where
  "month_length y m = (if m = 2 then (if leap y then 29 else 28) else if m \<in> {4, 6, 9, 11} then 30 else 31)"

definition valid_date :: "int \<times> int \<times> int \<Rightarrow> bool" where
  "valid_date ymd \<longleftrightarrow> (case ymd of (y, m, d) \<Rightarrow> 1 \<le> m \<and> m \<le> 12 \<and> 1 \<le> d \<and> d \<le> month_length y m)"

text \<open>The day after.\<close>

definition next_date :: "int \<times> int \<times> int \<Rightarrow> int \<times> int \<times> int" where
  "next_date ymd = (case ymd of (y, m, d) \<Rightarrow>
     if d < month_length y m then (y, m, d + 1) else if m < 12 then (y, m + 1, 1) else (y + 1, 1, 1))"

definition days_from_civil :: "int \<times> int \<times> int \<Rightarrow> int" where
  "days_from_civil ymd =
     (case ymd of (y0, m, d) \<Rightarrow>
      let y = (if m \<le> 2 then y0 - 1 else y0);
          era = y div 400;
          yoe = y - era * 400;
          mp = (if m > 2 then m - 3 else m + 9);
          doy = (153 * mp + 2) div 5 + d - 1;
          doe = yoe * 365 + yoe div 4 - yoe div 100 + doy
      in era * 146097 + doe - 719468)"

text \<open>The year of the era, from the day of the era.\<close>

lemma year_of_era:
  assumes "0 \<le> doe" "doe < (146097::int)"
  defines "yoe \<equiv> (doe - doe div 1460 + doe div 36524 - doe div 146096) div 365"
  defines "doy \<equiv> doe - (365 * yoe + yoe div 4 - yoe div 100)"
  shows "0 \<le> yoe" "yoe \<le> 399" "0 \<le> doy" "doy \<le> 365"
proof -
  define a b c where abc: "a = doe div 1460" "b = doe div 36524" "c = doe div 146096"
  define n where n: "n = doe - a + b - c"
  define q h where qh: "q = yoe div 4" "h = yoe div 100"
  have yoe: "yoe = n div 365" by (simp add: yoe_def n abc)
  have doy: "doy = doe - (365 * yoe + q - h)" by (simp add: doy_def qh)
  have ra: "1460 * a \<le> doe" "doe < 1460 * a + 1460" unfolding abc by simp_all
  have rb: "36524 * b \<le> doe" "doe < 36524 * b + 36524" unfolding abc by simp_all
  have rc: "146096 * c \<le> doe" "doe < 146096 * c + 146096" unfolding abc by simp_all
  have rn: "365 * yoe \<le> n" "n < 365 * yoe + 365" unfolding yoe by simp_all
  have rq: "4 * q \<le> yoe" "yoe < 4 * q + 4" unfolding qh by simp_all
  have rh: "100 * h \<le> yoe" "yoe < 100 * h + 100" unfolding qh by simp_all
  have bc: "0 \<le> c" "c \<le> 1" "0 \<le> b" "b \<le> 4" "0 \<le> a" using assms(1,2) ra rb rc by linarith+
  show y0: "0 \<le> yoe" using rn n ra rc bc assms(1,2) by linarith
  show y9: "yoe \<le> 399"
  proof (rule ccontr)
    assume "\<not> yoe \<le> 399"
    then have big: "146000 \<le> n" using rn by linarith
    then have "100 \<le> a" using n ra bc by linarith
    then have "146096 + c \<le> doe" using big n bc by linarith
    then have "c = 1" "146096 \<le> doe" using rc bc by linarith+
    then show False using assms(2) \<open>146096 + c \<le> doe\<close> by linarith
  qed
  have h3: "0 \<le> h" "h \<le> 3" using y0 y9 rh by linarith+
  have t: "- 1 \<le> a - q" "a - q \<le> 1" using ra rb rc rn rq n bc y0 y9 by linarith+
  then have ts: "a = q - 1 \<or> a = q \<or> a = q + 1" by linarith
  have "b \<le> h + 1" "h \<le> b" using ra rb rc rn rq rh n bc y0 y9 h3 t by linarith+
  then have bs: "b = h \<or> b = h + 1" by linarith
  have cs: "c = 0 \<or> c = 1" using bc by linarith
  show "0 \<le> doy" using ts bs cs doy n ra rb rc rn rq rh bc y0 y9 h3 by (elim disjE) linarith+
  show "doy \<le> 365" using ts bs cs doy n ra rb rc rn rq rh bc y0 y9 h3 by (elim disjE) linarith+
qed

text \<open>Years from March on: the days before year \<open>y\<close> and the day of the year.\<close>

definition days_before :: "int \<Rightarrow> int" where
  "days_before y = 365 * y + y div 4 - y div 100 + y div 400"

definition march_year :: "int \<Rightarrow> int \<Rightarrow> int" where
  "march_year y m = (if m \<le> 2 then y - 1 else y)"

definition march_day :: "int \<Rightarrow> int \<Rightarrow> int" where
  "march_day m d = (153 * (if m > 2 then m - 3 else m + 9) + 2) div 5 + d - 1"

lemma div_succ: "1 < k \<Longrightarrow> (y + 1) div k = y div k + (if (y + 1) mod k = 0 then 1 else 0)" for k :: int
proof -
  assume k: "1 < k"
  have m: "0 \<le> y mod k" "y mod k < k" using k by simp_all
  have d: "(y + 1) div k = y div k + (y mod k + 1) div k" using div_add1_eq [of y 1 k] k by simp
  have e: "(y + 1) mod k = (y mod k + 1) mod k" by (simp add: mod_add_left_eq)
  show ?thesis
  proof (cases "y mod k + 1 = k")
    case True
    then show ?thesis using k unfolding d e by simp
  next
    case False
    then have "y mod k + 1 < k" using m by linarith
    then show ?thesis using m unfolding d e by simp
  qed
qed

lemma leap_divides: "y mod 100 = 0 \<Longrightarrow> y mod 4 = 0" "y mod 400 = 0 \<Longrightarrow> y mod 100 = 0" for y :: int
proof -
  have "(4 :: int) dvd 100" "(100 :: int) dvd 400" by simp_all
  then show "y mod 100 = 0 \<Longrightarrow> y mod 4 = 0" "y mod 400 = 0 \<Longrightarrow> y mod 100 = 0"
    unfolding mod_eq_0_iff_dvd by (blast intro: dvd_trans)+
qed

lemma days_before_step: "days_before (y + 1) = days_before y + 365 + (if leap (y + 1) then 1 else 0)"
proof -
  define A B C where abc: "A \<longleftrightarrow> (y + 1) mod 4 = 0" "B \<longleftrightarrow> (y + 1) mod 100 = 0" "C \<longleftrightarrow> (y + 1) mod 400 = 0"
  have imp: "B \<Longrightarrow> A" "C \<Longrightarrow> B" unfolding abc by (fact leap_divides)+
  have "(y + 1) div 4 = y div 4 + (if A then 1 else 0)" "(y + 1) div 100 = y div 100 + (if B then 1 else 0)"
    "(y + 1) div 400 = y div 400 + (if C then 1 else 0)"
    unfolding abc by (rule div_succ, simp)+
  moreover have "leap (y + 1) \<longleftrightarrow> A \<and> (\<not> B \<or> C)" by (simp only: leap_def abc)
  ultimately have "days_before (y + 1) = 365 * (y + 1) + (y div 4 + (if A then 1 else 0)) -
      (y div 100 + (if B then 1 else 0)) + (y div 400 + (if C then 1 else 0))"
    and "leap (y + 1) \<longleftrightarrow> A \<and> (\<not> B \<or> C)" by (simp_all only: days_before_def)
  moreover have "days_before y = 365 * y + y div 4 - y div 100 + y div 400" by (simp only: days_before_def)
  moreover define p q r where "p = y div 4" "q = y div 100" "r = y div 400"
  ultimately have "days_before (y + 1) = 365 * (y + 1) + (p + (if A then 1 else 0)) - (q + (if B then 1 else 0)) +
      (r + (if C then 1 else 0))" "days_before y = 365 * y + p - q + r" "leap (y + 1) \<longleftrightarrow> A \<and> (\<not> B \<or> C)"
    by (simp_all only:)
  then show ?thesis using imp by (cases A; cases B; cases C) simp_all
qed

lemma days_before_mono: "y < y' \<Longrightarrow> days_before (y + 1) \<le> days_before y'"
proof (induction "nat (y' - y)" arbitrary: y')
  case (Suc n)
  show ?case
  proof (cases "y' = y + 1")
    case False
    then have "n = nat (y' - 1 - y)" "y < y' - 1" using Suc.hyps(2) Suc.prems by auto
    then have "days_before (y + 1) \<le> days_before (y' - 1)" by (rule Suc.hyps(1))
    then show ?thesis using days_before_step [of "y' - 1"] by (auto split: if_splits)
  qed simp
qed simp

lemma era_days:
  assumes "0 \<le> yoe" "yoe \<le> 399"
  shows "(yoe + era * 400) div 400 = era" "days_before (yoe + era * 400) = era * 146097 + (yoe * 365 + yoe div 4 - yoe div 100)"
proof -
  show *: "(yoe + era * 400) div 400 = era" using assms by simp
  have "(yoe + era * 400) div 4 = yoe div 4 + era * 100" "(yoe + era * 400) div 100 = yoe div 100 + era * 4"
    using div_mult_self1 [of 4 yoe "era * 100"] div_mult_self1 [of 100 yoe "era * 4"] by (simp_all add: mult.assoc)
  with * show "days_before (yoe + era * 400) = era * 146097 + (yoe * 365 + yoe div 4 - yoe div 100)"
    by (simp add: days_before_def algebra_simps)
qed

lemma days_from_civil_march:
  "days_from_civil (y, m, d) = days_before (march_year y m) + march_day m d - 719468"
proof -
  define Y where "Y = march_year y m"
  have "Y - Y div 400 * 400 = Y mod 400" by (simp add: minus_div_mult_eq_mod)
  then have "0 \<le> Y - Y div 400 * 400" "Y - Y div 400 * 400 \<le> 399" by simp_all
  from era_days(2) [OF this, of "Y div 400"] show ?thesis
    unfolding Y_def by (simp add: days_from_civil_def Let_def march_year_def march_day_def algebra_simps)
qed

lemma twelve: "1 \<le> m \<Longrightarrow> m \<le> 12 \<Longrightarrow> m = 1 \<or> m = 2 \<or> m = 3 \<or> m = 4 \<or> m = 5 \<or> m = 6 \<or>
    m = 7 \<or> m = 8 \<or> m = 9 \<or> m = 10 \<or> m = 11 \<or> m = 12" for m :: int
  by presburger

text \<open>A valid date is a day of its year from March on, and the day gives month and day of month back.\<close>

lemma march_day_range:
  assumes "valid_date (y, m, d)"
  shows "0 \<le> march_day m d" "march_day m d < 365 + (if leap (march_year y m + 1) then 1 else 0)"
    "(5 * march_day m d + 2) div 153 = (if m > 2 then m - 3 else m + 9)"
  using assms twelve [of m] by (auto simp: valid_date_def march_day_def march_year_def month_length_def split: if_splits)

lemma days_from_civil_inj:
  assumes "valid_date (y, m, d)" "valid_date (y', m', d')" "days_from_civil (y, m, d) = days_from_civil (y', m', d')"
  shows "(y, m, d) = (y', m', d')"
proof -
  note r = march_day_range [OF assms(1)] and r' = march_day_range [OF assms(2)]
  have eq: "days_before (march_year y m) + march_day m d = days_before (march_year y' m') + march_day m' d'"
    using assms(3) by (simp add: days_from_civil_march)
  have "\<not> march_year y m < march_year y' m'"
    using days_before_mono [of "march_year y m" "march_year y' m'"] days_before_step [of "march_year y m"] r r' eq by linarith
  moreover have "\<not> march_year y' m' < march_year y m"
    using days_before_mono [of "march_year y' m'" "march_year y m"] days_before_step [of "march_year y' m'"] r r' eq by linarith
  ultimately have Y: "march_year y m = march_year y' m'" by linarith
  then have D: "march_day m d = march_day m' d'" using eq by simp
  then have M: "(if m > 2 then m - 3 else m + 9) = (if m' > 2 then m' - 3 else m' + 9)" using r(3) r'(3) by simp
  have "1 \<le> m" "m \<le> 12" "1 \<le> m'" "m' \<le> 12" using assms(1,2) by (auto simp: valid_date_def)
  then have "m = m'" using M by (auto split: if_splits)
  moreover from this have "d = d'" using D by (simp add: march_day_def)
  ultimately show ?thesis using Y by (auto simp: march_year_def split: if_splits)
qed

text \<open>The day of the year from March on stays below the length of the year.\<close>

lemma day_of_year_bound:
  assumes "0 \<le> doe" "doe < (146097::int)"
  defines "yoe \<equiv> (doe - doe div 1460 + doe div 36524 - doe div 146096) div 365"
  shows "doe < days_before (yoe + 1)"
proof -
  define a b c where abc: "a = doe div 1460" "b = doe div 36524" "c = doe div 146096"
  define n where n: "n = doe - a + b - c"
  define Y where "Y = yoe + 1"
  define q h f where qhf: "q = Y div 4" "h = Y div 100" "f = Y div 400"
  have yoe: "yoe = n div 365" by (simp add: yoe_def n abc)
  have ra: "1460 * a \<le> doe" "doe < 1460 * a + 1460" unfolding abc by simp_all
  have rb: "36524 * b \<le> doe" "doe < 36524 * b + 36524" unfolding abc by simp_all
  have rc: "146096 * c \<le> doe" "doe < 146096 * c + 146096" unfolding abc by simp_all
  have rn: "n < 365 * Y" unfolding Y_def yoe by simp
  have rn2: "365 * Y \<le> n + 365" unfolding Y_def yoe by simp
  have rq: "4 * q \<le> Y" "Y < 4 * q + 4" unfolding qhf by simp_all
  have rh: "100 * h \<le> Y" "Y < 100 * h + 100" unfolding qhf by simp_all
  have rf: "400 * f \<le> Y" "Y < 400 * f + 400" unfolding qhf by simp_all
  have y: "1 \<le> Y" "Y \<le> 400" unfolding Y_def yoe_def using year_of_era(1,2) [OF assms(1,2)] by linarith+
  have bc: "0 \<le> c" "c \<le> 1" "0 \<le> b" "b \<le> 4" "0 \<le> a" using assms(1,2) ra rb rc by linarith+
  have hb: "0 \<le> h" "h \<le> 4" "0 \<le> f" "f \<le> 1" using y rh rf by linarith+
  have "doe < 365 * Y + q - h + f"
  proof (rule ccontr)
    assume "\<not> doe < 365 * Y + q - h + f"
    then have big: "365 * Y + q - h + f \<le> doe" by linarith
    have t: "q \<le> a + 1" "a \<le> q + 1" using ra rb rc rn rn2 rq n bc y by linarith+
    have "b \<le> h + 1" "h \<le> b + 1" using ra rb rc rn rn2 rq rh n bc y hb t by linarith+
    then have bs: "b = h - 1 \<or> b = h \<or> b = h + 1" by linarith
    have ts: "a = q - 1 \<or> a = q \<or> a = q + 1" using t by linarith
    have cs: "c = 0 \<or> c = 1" using bc by linarith
    have fs: "f = 0 \<or> f = 1" using hb by linarith
    show False using bs ts cs fs big n ra rb rc rn rn2 rq rh rf y hb bc by (elim disjE) linarith+
  qed
  moreover have "days_before (yoe + 1) = 365 * Y + q - h + f" unfolding qhf Y_def by (simp only: days_before_def)
  ultimately show ?thesis by simp
qed

lemma civil_parts:
  obtains era yoe doy mp where "0 \<le> yoe" "yoe \<le> 399" "0 \<le> doy" "mp = (5 * doy + 2) div 153" "0 \<le> mp" "mp \<le> 11"
    "z + 719468 = days_before (yoe + era * 400) + doy" "doy < 365 + (if leap (yoe + era * 400 + 1) then 1 else 0)"
    "civil_from_days z = (if (if mp < 10 then mp + 3 else mp - 9) \<le> 2 then yoe + era * 400 + 1 else yoe + era * 400,
      if mp < 10 then mp + 3 else mp - 9, doy - (153 * mp + 2) div 5 + 1)"
proof -
  define doe where "doe = (z + 719468) mod 146097"
  define era where "era = (z + 719468) div 146097"
  define yoe where "yoe = (doe - doe div 1460 + doe div 36524 - doe div 146096) div 365"
  define doy where "doy = doe - (365 * yoe + yoe div 4 - yoe div 100)"
  define mp where "mp = (5 * doy + 2) div 153"
  have d: "0 \<le> doe" "doe < 146097" unfolding doe_def by simp_all
  note y = year_of_era [OF d, folded yoe_def, folded doy_def]
  have mp: "0 \<le> mp" "mp \<le> 11" unfolding mp_def using y(3,4) by linarith+
  have z: "z + 719468 = era * 146097 + doe" unfolding era_def doe_def by simp
  have days: "days_before (yoe + era * 400) = era * 146097 + (yoe * 365 + yoe div 4 - yoe div 100)"
    by (rule era_days(2) [OF y(1,2)])
  have zd: "z + 719468 = days_before (yoe + era * 400) + doy" unfolding z days doy_def by simp
  have "days_before yoe = yoe * 365 + yoe div 4 - yoe div 100" using era_days(2) [OF y(1,2), of 0] by simp
  then have doe: "doe = days_before yoe + doy" by (simp add: doy_def)
  have "days_before yoe + doy < days_before (yoe + 1)"
    using day_of_year_bound [OF d, folded yoe_def] unfolding doe [symmetric] .
  moreover have "leap (yoe + era * 400 + 1) = leap (yoe + 1)"
  proof -
    have "yoe + era * 400 + 1 = (yoe + 1) + era * 100 * 4" "yoe + era * 400 + 1 = (yoe + 1) + era * 4 * 100"
      "yoe + era * 400 + 1 = (yoe + 1) + era * 400" by simp_all
    then have "(yoe + era * 400 + 1) mod 4 = (yoe + 1) mod 4" "(yoe + era * 400 + 1) mod 100 = (yoe + 1) mod 100"
      "(yoe + era * 400 + 1) mod 400 = (yoe + 1) mod 400" by (metis mod_mult_self1)+
    then show ?thesis by (simp only: leap_def)
  qed
  ultimately have "doy < 365 + (if leap (yoe + era * 400 + 1) then 1 else 0)" by (simp add: days_before_step)
  moreover have "civil_from_days z = (if (if mp < 10 then mp + 3 else mp - 9) \<le> 2 then yoe + era * 400 + 1
      else yoe + era * 400, if mp < 10 then mp + 3 else mp - 9, doy - (153 * mp + 2) div 5 + 1)"
    by (simp only: civil_from_days_def Let_def mp_def doy_def yoe_def doe_def era_def)
  ultimately show thesis using that y(1-3) mp_def mp zd by blast
qed

lemma civil_inverse: "days_from_civil (civil_from_days z) = z"
proof -
  obtain era yoe doy mp where p: "0 \<le> yoe" "yoe \<le> 399" "0 \<le> doy" "mp = (5 * doy + 2) div 153" "0 \<le> mp" "mp \<le> 11"
    "z + 719468 = days_before (yoe + era * 400) + doy" "doy < 365 + (if leap (yoe + era * 400 + 1) then 1 else 0)"
    "civil_from_days z = (if (if mp < 10 then mp + 3 else mp - 9) \<le> 2 then yoe + era * 400 + 1 else yoe + era * 400,
      if mp < 10 then mp + 3 else mp - 9, doy - (153 * mp + 2) div 5 + 1)" by (rule civil_parts [of z])
  define Y where "Y = yoe + era * 400"
  show ?thesis
    using p(5-7) unfolding p(9) days_from_civil_march Y_def [symmetric]
    by (cases "mp < 10") (simp_all add: march_year_def march_day_def)
qed

lemma months: "0 \<le> m \<Longrightarrow> m \<le> 11 \<Longrightarrow> m = 0 \<or> m = 1 \<or> m = 2 \<or> m = 3 \<or> m = 4 \<or> m = 5 \<or> m = 6 \<or>
    m = 7 \<or> m = 8 \<or> m = 9 \<or> m = 10 \<or> m = 11" for m :: int
  by presburger

lemma civil_valid: "valid_date (civil_from_days z)"
proof -
  obtain era yoe doy mp where p: "0 \<le> yoe" "yoe \<le> 399" "0 \<le> doy" "mp = (5 * doy + 2) div 153" "0 \<le> mp" "mp \<le> 11"
    "z + 719468 = days_before (yoe + era * 400) + doy" "doy < 365 + (if leap (yoe + era * 400 + 1) then 1 else 0)"
    "civil_from_days z = (if (if mp < 10 then mp + 3 else mp - 9) \<le> 2 then yoe + era * 400 + 1 else yoe + era * 400,
      if mp < 10 then mp + 3 else mp - 9, doy - (153 * mp + 2) div 5 + 1)" by (rule civil_parts [of z])
  define Y where "Y = yoe + era * 400"
  have r: "153 * mp \<le> 5 * doy + 2" "5 * doy + 2 < 153 * mp + 153" unfolding p(4) by simp_all
  have y: "doy < 365 + (if leap (Y + 1) then 1 else 0)" using p(8) by (simp only: Y_def)
  show ?thesis
    using months [OF p(5,6)] r y p(3) unfolding p(9) Y_def [symmetric]
    by (elim disjE; simp add: valid_date_def month_length_def split: if_splits)
qed

lemma next_date_succ: "valid_date ymd \<Longrightarrow> days_from_civil (next_date ymd) = days_from_civil ymd + 1 \<and> valid_date (next_date ymd)"
proof -
  assume v: "valid_date ymd"
  obtain y m d where ymd: "ymd = (y, m, d)" by (cases ymd)
  show ?thesis
  proof (cases "d < month_length y m")
    case True
    then show ?thesis using v unfolding ymd next_date_def
      by (simp add: days_from_civil_march march_day_def valid_date_def)
  next
    case False
    then have d: "d = month_length y m" "1 \<le> m" "m \<le> 12" using v by (auto simp: ymd valid_date_def)
    have step: "days_before y = days_before (y - 1) + 365 + (if leap y then 1 else 0)"
      using days_before_step [of "y - 1"] by simp
    show ?thesis
      using twelve [OF d(2,3)] step unfolding ymd next_date_def
      by (elim disjE; simp add: d(1) days_from_civil_march march_day_def march_year_def valid_date_def month_length_def)
  qed
qed

text \<open>The calendar of the windows is the proleptic Gregorian one: day 0 is 1970-01-01, every day is a valid date, the
  day after a day is the next date, and no two days have the same date.\<close>

theorem civil_calendar:
  "civil_from_days 0 = (1970, 1, 1) \<and> valid_date (civil_from_days z) \<and>
    civil_from_days (z + 1) = next_date (civil_from_days z) \<and> days_from_civil (civil_from_days z) = z"
proof (intro conjI)
  obtain y m d where c: "civil_from_days (z + 1) = (y, m, d)" by (cases "civil_from_days (z + 1)")
  obtain y' m' d' where n: "next_date (civil_from_days z) = (y', m', d')" by (cases "next_date (civil_from_days z)")
  have "days_from_civil (next_date (civil_from_days z)) = z + 1" "valid_date (next_date (civil_from_days z))"
    using next_date_succ [OF civil_valid [of z]] by (simp_all add: civil_inverse)
  then show "civil_from_days (z + 1) = next_date (civil_from_days z)"
    using days_from_civil_inj [of y m d y' m' d'] civil_valid [of "z + 1"] civil_inverse [of "z + 1"]
    by (simp add: c n)
  show "civil_from_days 0 = (1970, 1, 1)" by code_simp
qed (rule civil_valid, rule civil_inverse)

subsection \<open>Labels\<close>

lemma fmt_int_fixed:
  assumes "0 \<le> n" "n < 10 ^ w" "0 < w"
  shows "fmt_int w n = dec_fixed w (nat n)" "length (fmt_int w n) = w"
proof -
  have "nat n < 10 ^ w" using assms(1,2) by (simp add: nat_less_iff)
  with assms show "fmt_int w n = dec_fixed w (nat n)" by (simp add: fmt_int_def pad_left_def pad_dec_digits)
  then show "length (fmt_int w n) = w" by simp
qed

lemma fmt_int_inj:
  assumes "fmt_int w n = fmt_int w m" "0 \<le> n" "n < 10 ^ w" "0 \<le> m" "m < 10 ^ w" "0 < w"
  shows "n = m"
proof -
  have "dec_fixed w (nat n) = dec_fixed w (nat m)" using assms by (simp add: fmt_int_fixed(1))
  then have "nat n mod 10 ^ w = nat m mod 10 ^ w" by (metis digits_value_fixed)
  moreover have "nat n < 10 ^ w" "nat m < 10 ^ w" using assms by (simp_all add: nat_less_iff)
  ultimately show ?thesis using assms(2,4) by simp
qed

lemma civil_ms_parts:
  assumes "civil_from_epoch_ms (60000 * k) = (y, mo, d, h, mi)"
  shows "civil_from_days (k div 1440) = (y, mo, d)" "h = k mod 1440 div 60" "mi = k mod 60"
    "1 \<le> mo" "mo \<le> 12" "1 \<le> d" "d \<le> 31"
proof -
  have s: "60000 * k div 1000 = 60 * k" by simp
  have "60 * k div 86400 = k div 1440" "60 * k mod 86400 = 60 * (k mod 1440)"
    using div_mult_mult1 [of 60 k 1440] mult_mod_right [of 60 k 1440] by simp_all
  then have e: "civil_from_days (k div 1440) = (y, mo, d)" "h = 60 * (k mod 1440) div 3600" "mi = 60 * (k mod 1440) mod 3600 div 60"
    using assms by (auto simp: civil_from_epoch_ms_def s Let_def split: prod.splits)
  show "civil_from_days (k div 1440) = (y, mo, d)" by (rule e(1))
  show "h = k mod 1440 div 60" using e(2) div_mult_mult1 [of 60 "k mod 1440" 60] by simp
  have "60 * (k mod 1440) mod 3600 = 60 * (k mod 1440 mod 60)" using mult_mod_right [of 60 "k mod 1440" 60] by simp
  then have "mi = k mod 1440 mod 60" using e(3) by simp
  then show "mi = k mod 60" using mod_mod_cancel [of 60 1440 k] by simp
  have "valid_date (y, mo, d)" using civil_valid [of "k div 1440"] by (simp add: e(1))
  then show "1 \<le> mo" "mo \<le> 12" "1 \<le> d" "d \<le> 31"
    by (auto simp: valid_date_def month_length_def split: if_splits)
qed

lemma format_window_inj:
  assumes "format_window (60000 * k) = format_window (60000 * j)"
    and "0 \<le> fst (civil_from_epoch_ms (60000 * k))" "fst (civil_from_epoch_ms (60000 * k)) \<le> 9999"
    and "0 \<le> fst (civil_from_epoch_ms (60000 * j))" "fst (civil_from_epoch_ms (60000 * j)) \<le> 9999"
  shows "k = j"
proof -
  obtain y mo d h mi where k: "civil_from_epoch_ms (60000 * k) = (y, mo, d, h, mi)" by (cases "civil_from_epoch_ms (60000 * k)") auto
  obtain y' mo' d' h' mi' where j: "civil_from_epoch_ms (60000 * j) = (y', mo', d', h', mi')"
    by (cases "civil_from_epoch_ms (60000 * j)") auto
  note pk = civil_ms_parts [OF k] and pj = civil_ms_parts [OF j]
  have km: "0 \<le> k mod 1440" "k mod 1440 < 1440" "0 \<le> j mod 1440" "j mod 1440 < 1440" by simp_all
  have h: "0 \<le> h" "h < 24" "0 \<le> h'" "h' < 24" "0 \<le> mi" "mi < 60" "0 \<le> mi'" "mi' < 60"
    unfolding pk(2,3) pj(2,3) using km by linarith+
  have y: "0 \<le> y" "y < 10 ^ 4" "0 \<le> y'" "y' < 10 ^ 4" using assms(2-5) by (simp_all add: k j)
  have len: "length (fmt_int 4 y) = 4" "length (fmt_int 4 y') = 4" "length (fmt_int 2 mo) = 2" "length (fmt_int 2 mo') = 2"
    "length (fmt_int 2 d) = 2" "length (fmt_int 2 d') = 2" "length (fmt_int 2 h) = 2" "length (fmt_int 2 h') = 2"
    using fmt_int_fixed(2) [of y 4] fmt_int_fixed(2) [of y' 4] fmt_int_fixed(2) [of mo 2] fmt_int_fixed(2) [of mo' 2]
      fmt_int_fixed(2) [of d 2] fmt_int_fixed(2) [of d' 2] fmt_int_fixed(2) [of h 2] fmt_int_fixed(2) [of h' 2]
      y pk(4-7) pj(4-7) h(1-4) by simp_all
  have eq: "fmt_int 4 y @ ''-'' @ fmt_int 2 mo @ ''-'' @ fmt_int 2 d @ ''T'' @ fmt_int 2 h @ '':'' @ fmt_int 2 mi =
      fmt_int 4 y' @ ''-'' @ fmt_int 2 mo' @ ''-'' @ fmt_int 2 d' @ ''T'' @ fmt_int 2 h' @ '':'' @ fmt_int 2 mi'"
    using assms(1) by (simp add: format_window_def k j)
  then have f: "fmt_int 4 y = fmt_int 4 y'" "fmt_int 2 mo = fmt_int 2 mo'" "fmt_int 2 d = fmt_int 2 d'"
    "fmt_int 2 h = fmt_int 2 h'" "fmt_int 2 mi = fmt_int 2 mi'"
    using len by simp_all
  have e: "y = y'" "mo = mo'" "d = d'" "h = h'" "mi = mi'"
    using fmt_int_inj [OF f(1)] fmt_int_inj [OF f(2)] fmt_int_inj [OF f(3)] fmt_int_inj [OF f(4)] fmt_int_inj [OF f(5)]
      y pk(4-7) pj(4-7) h by simp_all
  have "civil_from_days (k div 1440) = civil_from_days (j div 1440)" using pk(1) pj(1) e by simp
  then have dv: "k div 1440 = j div 1440" by (metis civil_inverse)
  have "k mod 1440 = 60 * (k mod 1440 div 60) + k mod 1440 mod 60" "j mod 1440 = 60 * (j mod 1440 div 60) + j mod 1440 mod 60"
    by simp_all
  moreover have "k mod 1440 mod 60 = k mod 60" "j mod 1440 mod 60 = j mod 60" by (simp_all add: mod_mod_cancel)
  ultimately have "k mod 1440 = j mod 1440" using pk(2,3) pj(2,3) e by metis
  with dv show ?thesis by (metis div_mult_mod_eq)
qed



end
