(* ===== verification/Schema_Converge.thy ===== *)
theory Schema_Converge
  imports Remote_World
begin

text \<open>
  Bringing the schema of a table to a target by single changes: the resolution of the schema version of a batch
  (\<open>crates/ingest/src/schema_cache.rs\<close>) and the replay of \<open>ALTER TABLE\<close> (\<open>converge_schema\<close> of \<open>ddl.rs\<close>).
  Both loops ask \<open>classify\<close> for the next change and apply it under the version they have read; the distance to the
  target counts the changes that are left.
\<close>

subsection \<open>The next change\<close>

text \<open>\<open>classify\<close> does not see columns that the target no longer has.\<close>

definition next_change :: "schema \<Rightarrow> schema \<Rightarrow> string + schema_change option" where
  "next_change current target =
     (case classify current target of
        Compatible \<Rightarrow>
          (case find (\<lambda>f. field_with_name target (f_name f) = None) current of
             Some extra \<Rightarrow> Inr (Some (DropColumn (f_name extra)))
           | None \<Rightarrow> Inr None)
      | NeedsEvolve c \<Rightarrow> Inr (Some c)
      | Incompatible reason \<Rightarrow> Inl reason)"

fun schema_conflict :: "lake_error \<Rightarrow> (nat \<times> schema) option" where
  "schema_conflict (SchemaChanged v s) = Some (v, s)"
| "schema_conflict _ = None"

fun converge_loop ::
  "codecs \<Rightarrow> string \<Rightarrow> schema \<Rightarrow> nat \<Rightarrow> nat \<Rightarrow> 'x world_scheme \<Rightarrow> (lake_error + nat) \<times> 'x world_scheme" where
  "converge_loop cx table target 0 applied = io_fail (Other ''schema not converged'')"
| "converge_loop cx table target (Suc n) applied =
     io_bind (catalog_call cx (\<lambda>_ st. (table_schema (cx_deser cx) table st, st)))
       (\<lambda>cur. case cur of
          None \<Rightarrow> io_return applied
        | Some (s, v) \<Rightarrow>
            (case next_change s target of
               Inl reason \<Rightarrow> io_fail (InvalidSchemaChange (CannotConverge reason))
             | Inr None \<Rightarrow> io_return applied
             | Inr (Some change) \<Rightarrow>
                 (\<lambda>w. case catalog_call cx (\<lambda>now st. evolve_schema (cx_ser cx) (cx_deser cx) (cx_dbg cx)
                        \<lparr>ev_table = table, ev_change = change, ev_expected_version = v\<rparr> (now div 1000) st) w of
                    (Inr _, w1) \<Rightarrow> converge_loop cx table target n (Suc applied) w1
                  | (Inl e, w1) \<Rightarrow>
                      (case schema_conflict e of
                         Some _ \<Rightarrow> converge_loop cx table target n applied w1
                       | None \<Rightarrow> (Inl e, w1)))))"

definition converge_schema ::
  "codecs \<Rightarrow> string \<Rightarrow> schema \<Rightarrow> 'x world_scheme \<Rightarrow> (lake_error + nat) \<times> 'x world_scheme" where
  "converge_schema cx table target = converge_loop cx table target 32 0"

subsection \<open>The distance\<close>

definition differs :: "schema \<Rightarrow> field \<Rightarrow> bool" where
  "differs table f \<longleftrightarrow> map_option f_type (field_with_name table (f_name f)) \<noteq> Some (f_type f)"

definition schema_distance :: "schema \<Rightarrow> schema \<Rightarrow> nat" where
  "schema_distance table target =
     length (filter (differs table) target) + length (filter (\<lambda>f. field_with_name target (f_name f) = None) table)"

text \<open>No column of the target has a type that the column of the table cannot be widened to.\<close>

definition reachable_types :: "schema \<Rightarrow> schema \<Rightarrow> bool" where
  "reachable_types table target \<longleftrightarrow>
     (\<forall>f \<in> set target. \<forall>tf. field_with_name table (f_name f) = Some tf \<longrightarrow>
        f_type tf = f_type f \<or> try_widen (f_name f) (f_type tf) (f_type f) \<noteq> None)"

lemma field_with_name_Some: "field_with_name s n = Some f \<Longrightarrow> f \<in> set s \<and> f_name f = n"
  by (auto simp: field_with_name_def find_Some_iff)

lemma field_with_name_None: "field_with_name s n = None \<longleftrightarrow> n \<notin> f_name ` set s"
  by (auto simp: field_with_name_def find_None_iff)

lemma differs_widen_type: "differs table f \<longleftrightarrow> (\<forall>tf. field_with_name table (f_name f) = Some tf \<longrightarrow> f_type tf \<noteq> f_type f)"
  by (cases "field_with_name table (f_name f)") (auto simp: differs_def)

lemma classify_Compatible: "classify table incoming = Compatible \<longleftrightarrow> (\<forall>f \<in> set incoming. \<not> differs table f)"
  by (induction table incoming rule: classify.induct) (auto simp: differs_def split: option.splits)

text \<open>The change that \<open>classify\<close> asks for settles the first column that differs and touches no other.\<close>

lemma classify_first:
  "classify table incoming = NeedsEvolve c \<Longrightarrow>
    \<exists>pre f post. incoming = pre @ f # post \<and> (\<forall>g \<in> set pre. \<not> differs table g) \<and> differs table f \<and>
      (asks_add table c f \<or> asks_widen table c f)"
proof (induction table incoming rule: classify.induct)
  case (2 table f incoming)
  show ?case
  proof (cases "differs table f")
    case True
    then have "asks_add table c f \<or> asks_widen table c f"
      using "2.prems" by (auto simp: differs_def asks_add_def asks_widen_def try_widen_Some split: option.splits if_splits)
    with True show ?thesis by (intro exI [of _ "[]"]) auto
  next
    case False
    then have "classify table incoming = NeedsEvolve c"
      using "2.prems" by (auto simp: differs_def split: option.splits)
    moreover obtain tf where "field_with_name table (f_name f) = Some tf" "f_type tf = f_type f"
      using False by (auto simp: differs_def)
    ultimately obtain pre g post where "incoming = pre @ g # post" "\<forall>g \<in> set pre. \<not> differs table g" "differs table g"
      "asks_add table c g \<or> asks_widen table c g" using "2.IH" by blast
    with False show ?thesis by (intro exI [of _ "f # pre"]) auto
  qed
qed simp

lemma find_update_other: "i < length xs \<Longrightarrow> \<not> P (xs ! i) \<Longrightarrow> \<not> P y \<Longrightarrow> find P (xs[i := y]) = find P xs"
  by (induction xs arbitrary: i) (auto split: nat.splits)

lemma apply_asked:
  assumes "asks_add table c f \<or> asks_widen table c f"
  obtains table' where "apply_change table c = Inr table'"
    "map_option f_type (field_with_name table' (f_name f)) = Some (f_type f)"
    "\<forall>n. n \<noteq> f_name f \<longrightarrow> field_with_name table' n = field_with_name table n"
    "map f_name table' = map f_name table \<or> map f_name table' = map f_name table @ [f_name f]"
proof (cases "asks_add table c f")
  case True
  then have c: "c = AddColumn f" and none: "field_with_name table (f_name f) = None" by (simp_all add: asks_add_def)
  then have "apply_change table c = Inr (table @ [f])"
    by (auto simp: field_with_name_None list_ex_iff intro: rev_image_eqI)
  moreover have "field_with_name (table @ [f]) (f_name f) = Some f"
    using none by (simp add: field_with_name_def find_append)
  moreover have "field_with_name (table @ [f]) n = field_with_name table n" if "n \<noteq> f_name f" for n
    using that by (simp add: field_with_name_def find_append split: option.split)
  ultimately show thesis using that [of "table @ [f]"] by simp
next
  case False
  let ?P = "\<lambda>g. f_name g = f_name f"
  have w: "asks_widen table c f" using False assms by simp
  then obtain i where i: "position ?P table = Some i" by (auto simp: asks_widen_def field_with_name_def find_position)
  let ?new = "\<lparr>f_name = f_name f, f_type = f_type f, f_nullable = f_nullable (table ! i)\<rparr>"
  have pos: "i < length table" "f_name (table ! i) = f_name f" "\<forall>j < i. f_name (table ! j) \<noteq> f_name f"
    using position_Some [OF i] by auto
  have "apply_change table c = Inr (table[i := ?new])"
    using w i by (auto simp: asks_widen_def field_with_name_def find_position Let_def)
  moreover have "field_with_name (table[i := ?new]) (f_name f) = Some ?new"
    using pos by (auto simp: field_with_name_def find_Some_iff intro!: exI [of _ i])
  moreover have "field_with_name (table[i := ?new]) n = field_with_name table n" if "n \<noteq> f_name f" for n
    unfolding field_with_name_def using that pos by (intro find_update_other) auto
  moreover have "map f_name (table[i := ?new]) = map f_name table"
    using pos by (simp add: map_update list_update_same_conv)
  ultimately show thesis using that [of "table[i := ?new]"] by simp
qed

lemma classify_Incompatible:
  "classify table incoming = Incompatible r \<Longrightarrow> \<not> reachable_types table incoming"
proof (induction table incoming rule: classify.induct)
  case (2 table f incoming)
  then show ?case
    by (cases "field_with_name table (f_name f)") (auto simp: reachable_types_def split: if_splits option.splits)
qed simp

lemma distinct_columns_split:
  "distinct_columns (pre @ f # post) \<Longrightarrow> g \<in> set pre \<union> set post \<Longrightarrow> f_name g \<noteq> f_name f"
  unfolding distinct_columns_def by (metis (no_types, lifting) Un_iff distinct.simps(2) distinct_append image_eqI
    list.set_map list.simps(9) map_append not_distinct_conv_prefix set_append)

lemma extras_by_name:
  "length (filter (\<lambda>g. field_with_name target (f_name g) = None) xs) =
    length (filter (\<lambda>n. field_with_name target n = None) (map f_name xs))"
  by (simp add: filter_map o_def)

lemma apply_asked_closer:
  assumes "asks_add table c f \<or> asks_widen table c f" "differs table f" "f \<in> set target" "distinct_columns target"
    and "apply_change table c = Inr table'"
  shows "Suc (schema_distance table' target) = schema_distance table target"
    and "reachable_types table target \<Longrightarrow> reachable_types table' target"
    and "Suc (length (filter (differs table') target)) = length (filter (differs table) target)"
proof -
  obtain table'' where t: "apply_change table c = Inr table''"
    "map_option f_type (field_with_name table'' (f_name f)) = Some (f_type f)"
    "\<forall>n. n \<noteq> f_name f \<longrightarrow> field_with_name table'' n = field_with_name table n"
    "map f_name table'' = map f_name table \<or> map f_name table'' = map f_name table @ [f_name f]"
    by (rule apply_asked [OF assms(1)])
  have eq: "table'' = table'" using t(1) assms(5) by simp
  note t = t(2-4) [unfolded eq]
  obtain pre post where target: "target = pre @ f # post" using assms(3) by (meson split_list)
  have other: "f_name g \<noteq> f_name f" if "g \<in> set pre \<union> set post" for g
    using distinct_columns_split [of pre f post] assms(4) that by (simp add: target)
  have same: "differs table' g = differs table g" if "g \<in> set pre \<union> set post" for g
    using t(2) other [OF that] by (simp add: differs_def)
  have "filter (differs table') pre = filter (differs table) pre" "filter (differs table') post = filter (differs table) post"
    using same by (auto intro!: filter_cong)
  moreover have "\<not> differs table' f" using t(1) by (simp add: differs_def)
  ultimately show fewer: "Suc (length (filter (differs table') target)) = length (filter (differs table) target)"
    using assms(2) by (simp add: target)
  have "field_with_name target (f_name f) \<noteq> None" using assms(3) by (auto simp: field_with_name_None)
  then have "length (filter (\<lambda>g. field_with_name target (f_name g) = None) table') =
      length (filter (\<lambda>g. field_with_name target (f_name g) = None) table)"
    using t(3) unfolding extras_by_name by (auto simp del: length_filter_map)
  with fewer show "Suc (schema_distance table' target) = schema_distance table target"
    by (simp add: schema_distance_def)
  show "reachable_types table target \<Longrightarrow> reachable_types table' target"
    unfolding reachable_types_def
  proof (intro ballI allI impI)
    fix g tf
    assume r: "\<forall>f \<in> set target. \<forall>tf. field_with_name table (f_name f) = Some tf \<longrightarrow>
        f_type tf = f_type f \<or> try_widen (f_name f) (f_type tf) (f_type f) \<noteq> None"
      and g: "g \<in> set target" "field_with_name table' (f_name g) = Some tf"
    show "f_type tf = f_type g \<or> try_widen (f_name g) (f_type tf) (f_type g) \<noteq> None"
    proof (cases "g = f")
      case True
      then show ?thesis using t(1) g(2) by simp
    next
      case False
      then have "g \<in> set pre \<union> set post" using g(1) by (auto simp: target)
      then show ?thesis using t(2) other r g by simp
    qed
  qed
qed

lemma drop_extra_closer:
  assumes "\<forall>f \<in> set target. \<not> differs table f" "e \<in> set table" "field_with_name target (f_name e) = None"
    and "distinct_columns table"
  obtains table' where "apply_change table (DropColumn (f_name e)) = Inr table'"
    "Suc (schema_distance table' target) = schema_distance table target" "\<forall>f \<in> set target. \<not> differs table' f"
proof -
  let ?kept = "filter (\<lambda>f. f_name f \<noteq> f_name e) table"
  have "length ?kept < length table" using assms(2) by (intro length_filter_less [of e]) auto
  then have ok: "apply_change table (DropColumn (f_name e)) = Inr ?kept" by (simp add: Let_def)
  have "find (\<lambda>g. f_name g = n) ?kept = find (\<lambda>g. f_name g = n) table" if "n \<noteq> f_name e" for n
    using that by (induction table) auto
  moreover have "f_name f \<noteq> f_name e" if "f \<in> set target" for f
    using that assms(3) by (metis field_with_name_None image_eqI)
  ultimately have "differs ?kept f = differs table f" if "f \<in> set target" for f
    using that by (simp add: differs_def field_with_name_def)
  then have same: "\<forall>f \<in> set target. \<not> differs ?kept f" using assms(1) by simp
  obtain pre post where table: "table = pre @ e # post" using assms(2) by (meson split_list)
  have "f_name g \<noteq> f_name e" if "g \<in> set pre \<union> set post" for g
    using distinct_columns_split [of pre e post] assms(4) that by (simp add: table)
  then have "?kept = pre @ post" by (auto simp: table filter_id_conv)
  then have "Suc (schema_distance ?kept target) = schema_distance table target"
    using same assms(1,3) by (simp add: schema_distance_def table)
  with ok same that show thesis by blast
qed

text \<open>Every change leads one step closer, until nothing differs.\<close>

lemma next_change_closer:
  assumes "distinct_columns table" "distinct_columns target" "reachable_types table target" "next_change table target = Inr (Some c)"
  obtains table' where "apply_change table c = Inr table'" "Suc (schema_distance table' target) = schema_distance table target"
    "reachable_types table' target" "distinct_columns table'"
proof (cases "classify table target")
  case Compatible
  then obtain e where e: "find (\<lambda>f. field_with_name target (f_name f) = None) table = Some e" "c = DropColumn (f_name e)"
    using assms(4) by (auto simp: next_change_def split: option.splits)
  then have "e \<in> set table" "field_with_name target (f_name e) = None" by (auto simp: find_Some_iff)
  with Compatible obtain table' where t: "apply_change table c = Inr table'"
    "Suc (schema_distance table' target) = schema_distance table target" "\<forall>f \<in> set target. \<not> differs table' f"
    unfolding classify_Compatible e(2) by (rule drop_extra_closer [OF _ _ _ assms(1)])
  have "reachable_types table' target" using t(3) by (auto simp: reachable_types_def differs_widen_type)
  with t that show thesis using apply_change_distinct [OF t(1) assms(1)] by blast
next
  case (NeedsEvolve c')
  then have "classify table target = NeedsEvolve c" using assms(4) by (simp add: next_change_def)
  from classify_first [OF this] obtain pre f post where f: "target = pre @ f # post" "differs table f"
    "asks_add table c f \<or> asks_widen table c f" by blast
  then have mem: "f \<in> set target" by simp
  obtain table' where t: "apply_change table c = Inr table'" by (rule apply_asked [OF f(3)])
  show thesis
    using that [OF t apply_asked_closer(1) [OF f(3,2) mem assms(2) t] apply_asked_closer(2) [OF f(3,2) mem assms(2) t assms(3)]]
      apply_change_distinct [OF t assms(1)] by blast
qed (use assms(4) in \<open>simp add: next_change_def\<close>)

lemma next_change_none: "next_change table target = Inr None \<longleftrightarrow> schema_distance table target = 0"
proof -
  have "next_change table target = Inr None \<longleftrightarrow>
      classify table target = Compatible \<and> find (\<lambda>f. field_with_name target (f_name f) = None) table = None"
    by (simp add: next_change_def split: schema_compatibility.split option.split)
  then show ?thesis by (auto simp: schema_distance_def classify_Compatible filter_empty_conv find_None_iff)
qed

lemma next_change_reachable: "reachable_types table target \<Longrightarrow> next_change table target \<noteq> Inl r"
  using classify_Incompatible [of table target r]
  by (auto simp: next_change_def split: schema_compatibility.splits option.splits)

subsection \<open>Convergence\<close>

text \<open>Nobody interferes and every call is answered; only the clock may move.\<close>

definition undisturbed :: "'x world_scheme \<Rightarrow> bool" where
  "undisturbed w \<longleftrightarrow> quiet w \<and> list_all (\<lambda>t. tn_reply t = Answered) (w_turns w)"

lemma undisturbed_turn:
  assumes "undisturbed w"
  obtains w1 where "next_turn cx w = (Answered, w1)" "undisturbed w1" "w_catalog w1 = w_catalog w" "w_store w1 = w_store w"
proof -
  obtain r w1 where t: "next_turn cx w = (r, w1)" by fastforce
  have "quiet w" using assms by (simp add: undisturbed_def)
  from quiet_turn [OF this t] have "quiet w1" "w_catalog w1 = w_catalog w" "w_store w1 = w_store w" by auto
  moreover have "r = Answered" "list_all (\<lambda>t. tn_reply t = Answered) (w_turns w1)"
    using t assms by (auto simp: next_turn_def undisturbed_def split: list.splits)
  ultimately show thesis using that t by (simp add: undisturbed_def)
qed

lemma undisturbed_catalog [simp]: "undisturbed (w\<lparr>w_catalog := st\<rparr>) = undisturbed w"
  by (simp add: undisturbed_def)

lemma undisturbed_call:
  assumes "undisturbed w"
  obtains now w1 where "catalog_call cx f w = (fst (f now (w_catalog w)), w1)" "undisturbed w1"
    "w_catalog w1 = snd (f now (w_catalog w))" "w_store w1 = w_store w"
proof -
  obtain w1 where t: "next_turn cx w = (Answered, w1)" "undisturbed w1" "w_catalog w1 = w_catalog w" "w_store w1 = w_store w"
    using assms by (rule undisturbed_turn)
  show thesis
    by (rule that [of "w_clock w1" "w1\<lparr>w_catalog := snd (f (w_clock w1) (w_catalog w))\<rparr>"])
       (use t in \<open>simp_all add: catalog_call_def remote_def Let_def\<close>)
qed

lemma evolve_schema_step:
  assumes "table_schema deser table st = Inr (Some (s, v))" "apply_change s c = Inr s'" "deser (ser s') = Some s'"
  obtains st' where "evolve_schema ser deser dbg \<lparr>ev_table = table, ev_change = c, ev_expected_version = v\<rparr> now st =
      (Inr \<lparr>er_new_schema = s', er_version = v + 1\<rparr>, st')"
    "table_schema deser table st' = Inr (Some (s', v + 1))"
  using assms
  by (auto simp: table_schema_def evolve_schema_def Let_def bm_simps bump_applied_fields bump_schema_ver_fields
      split: option.splits)

lemma converge_loop_result:
  assumes law: "\<And>s. cx_deser cx (cx_ser cx s) = Some s" and target: "distinct_columns target"
  shows "undisturbed w \<Longrightarrow> table_schema (cx_deser cx) table (w_catalog w) = Inr (Some (s, v)) \<Longrightarrow>
    distinct_columns s \<Longrightarrow> reachable_types s target \<Longrightarrow>
    (if schema_distance s target < n
     then \<exists>w' s'. converge_loop cx table target n k w = (Inr (k + schema_distance s target), w') \<and>
       table_schema (cx_deser cx) table (w_catalog w') = Inr (Some (s', v + schema_distance s target)) \<and>
       schema_distance s' target = 0
     else \<exists>w'. converge_loop cx table target n k w = (Inl (Other ''schema not converged''), w'))"
proof (induction n arbitrary: k w s v)
  case 0
  show ?case by (simp add: io_fail_def)
next
  case (Suc n)
  let ?read = "\<lambda>_ :: nat. \<lambda>st. (table_schema (cx_deser cx) table st, st)"
  obtain now w1 where w1: "catalog_call cx ?read w = (fst (?read now (w_catalog w)), w1)" "undisturbed w1"
    "w_catalog w1 = snd (?read now (w_catalog w))" using Suc.prems(1) by (rule undisturbed_call)
  then have read: "catalog_call cx ?read w = (Inr (Some (s, v)), w1)" "w_catalog w1 = w_catalog w"
    using Suc.prems(2) by simp_all
  show ?case
  proof (cases "next_change s target")
    case (Inl r)
    then show ?thesis using next_change_reachable [OF Suc.prems(4)] by blast
  next
    case (Inr c)
    show ?thesis
    proof (cases c)
      case None
      then have d: "schema_distance s target = 0" using Inr next_change_none by simp
      show ?thesis using Inr None Suc.prems(2) by (simp add: io_bind_def read io_return_def d)
    next
      case (Some ch)
      then obtain s' where s': "apply_change s ch = Inr s'" "Suc (schema_distance s' target) = schema_distance s target"
        "reachable_types s' target" "distinct_columns s'"
        using Inr next_change_closer [OF Suc.prems(3) target Suc.prems(4)] by blast
      let ?evolve = "\<lambda>now st. evolve_schema (cx_ser cx) (cx_deser cx) (cx_dbg cx)
        \<lparr>ev_table = table, ev_change = ch, ev_expected_version = v\<rparr> (now div 1000) st"
      obtain now2 w2 where w2: "catalog_call cx ?evolve w1 = (fst (?evolve now2 (w_catalog w1)), w2)" "undisturbed w2"
        "w_catalog w2 = snd (?evolve now2 (w_catalog w1))" using w1(2) by (rule undisturbed_call)
      obtain st' where st': "?evolve now2 (w_catalog w) = (Inr \<lparr>er_new_schema = s', er_version = v + 1\<rparr>, st')"
        "table_schema (cx_deser cx) table st' = Inr (Some (s', v + 1))"
        using Suc.prems(2) s'(1) law by (rule evolve_schema_step)
      have cat: "w_catalog w2 = st'" using w2(3) st'(1) read(2) by simp
      have step: "converge_loop cx table target (Suc n) k w = converge_loop cx table target n (Suc k) w2"
        using Inr Some w2(1) st'(1) read by (simp add: io_bind_def)
      have eqs: "schema_distance s' target < n \<longleftrightarrow> schema_distance s target < Suc n"
        "Suc k + schema_distance s' target = k + schema_distance s target"
        "v + 1 + schema_distance s' target = v + schema_distance s target" using s'(2) by linarith+
      have "table_schema (cx_deser cx) table (w_catalog w2) = Inr (Some (s', v + 1))" using st'(2) by (simp only: cat)
      from Suc.IH [OF w2(2) this s'(4,3), of "Suc k"] show ?thesis unfolding eqs step .
    qed
  qed
qed

lemma converge_loop_count: "converge_loop cx table target n k w = (Inr m, w') \<Longrightarrow> k \<le> m \<and> m < k + n"
proof (induction n arbitrary: k w)
  case (Suc n)
  then show ?case
    by (auto simp: io_bind_def io_return_def io_fail_def split: prod.splits sum.splits option.splits dest!: Suc.IH)
qed (simp add: io_fail_def)

text \<open>C34: The replay of an \<open>ALTER TABLE\<close> ends. When nobody interferes it reaches the target exactly, one version per changed
  column, as long as fewer than 32 columns differ and every column can be widened; with 32 or more it reports failure.
  Whoever interferes, a run that succeeds has applied fewer than 32 changes.\<close>

theorem converge_schema_terminates:
  assumes "\<And>s. cx_deser cx (cx_ser cx s) = Some s" "distinct_columns target" "undisturbed w"
    and "table_schema (cx_deser cx) table (w_catalog w) = Inr (Some (s, v))" "distinct_columns s" "reachable_types s target"
  shows "(if schema_distance s target < 32
      then \<exists>w' s'. converge_schema cx table target w = (Inr (schema_distance s target), w') \<and>
        table_schema (cx_deser cx) table (w_catalog w') = Inr (Some (s', v + schema_distance s target)) \<and>
        schema_distance s' target = 0
      else \<exists>w'. converge_schema cx table target w = (Inl (Other ''schema not converged''), w')) \<and>
    (\<forall>u n u'. converge_schema cx table target (u :: 'y world_scheme) = (Inr n, u') \<longrightarrow> n < 32)"
  using converge_loop_result [OF assms, of 32 0] converge_loop_count [where k = 0]
  unfolding converge_schema_def by fastforce

end
