(* ===== verification/Wal_Replay.thy ===== *)
theory Wal_Replay
  imports Wal_Recovery Schema_Converge Deletion_Vector Object_Paths
begin

text \<open>
  What a node does with its log before it serves: the statements on tables are applied to the catalog
  (\<open>crates/ingest/src/ddl.rs\<close>), and after the batches have been resumed the deletions, updates and purges
  (\<open>crates/ingest/src/dml.rs\<close>). Both run at every start, over the whole log that is still there, against a catalog
  that is empty (metadata in memory) or holds everything already (metadata in a Raft log). The counters of the first
  only feed a log line and are left out.
\<close>

subsection \<open>Statements on tables\<close>

definition standard_config :: ingest_config where
  "standard_config = \<lparr>ic_require_idempotency_key = True, ic_idempotency_ttl_secs = 24 * 3600,
     ic_rows_threshold = 10000, ic_time_threshold_secs = 5, ic_durability = 0\<rparr>"

definition replay_request :: "schema \<Rightarrow> ddl_payload \<Rightarrow> create_table_request" where
  "replay_request s p =
     (let (ns, bare) = split_qualified (dd_table p) in
      \<lparr>cr_name = bare, cr_namespace = ns, cr_schema = s, cr_partition_cols = [],
       cr_default_format = (if dd_default_format p = [] then ext Vortex else dd_default_format p),
       cr_ingest_config = standard_config\<rparr>)"

text \<open>A failure of the call is logged and the replay goes on; that the table exists already, or no longer, is none.\<close>

definition io_attempt :: "('w \<Rightarrow> (lake_error + 'a) \<times> 'w) \<Rightarrow> 'w \<Rightarrow> (lake_error + unit) \<times> 'w" where
  "io_attempt m w = (Inr (), snd (m w))"

definition replay_ddl_record ::
  "codecs \<Rightarrow> ddl_payload \<Rightarrow> 'x world_scheme \<Rightarrow> (lake_error + unit) \<times> 'x world_scheme" where
  "replay_ddl_record cx p =
     (if dd_op p = DDL_CREATE_TABLE then
        (case cx_deser cx (dd_arrow_schema p) of
           None \<Rightarrow> io_fail (Other ''decode schema'')
         | Some s \<Rightarrow>
             io_attempt (catalog_call cx (\<lambda>now. create_table (cx_ser cx) (replay_request s p) (now div 1000))))
      else if dd_op p = DDL_DROP_TABLE then io_attempt (catalog_call cx (\<lambda>_. drop_table (dd_table p)))
      else if dd_op p = DDL_CREATE_SCHEMA then io_attempt (catalog_call cx (\<lambda>_. create_schema (dd_table p)))
      else if dd_op p = DDL_DROP_SCHEMA then io_attempt (catalog_call cx (\<lambda>_. drop_schema (dd_table p)))
      else if dd_op p = DDL_ALTER_TABLE then
        (case cx_deser cx (dd_arrow_schema p) of
           None \<Rightarrow> io_fail (Other ''decode schema'')
         | Some target \<Rightarrow> io_bind (converge_schema cx (dd_table p) target) (\<lambda>_. io_return ()))
      else io_return ())"

fun replay_ddl_loop ::
  "codecs \<Rightarrow> (nat \<times> wal_record) list \<Rightarrow> 'x world_scheme \<Rightarrow> (lake_error + unit) \<times> 'x world_scheme" where
  "replay_ddl_loop cx [] = io_return ()"
| "replay_ddl_loop cx ((_, r) # rs) =
     (case r of
        Ddl p \<Rightarrow> io_bind (replay_ddl_record cx p) (\<lambda>_. replay_ddl_loop cx rs)
      | _ \<Rightarrow> replay_ddl_loop cx rs)"

definition replay_wal_ddl ::
  "codecs \<Rightarrow> wal_codecs \<Rightarrow> (bytes \<Rightarrow> nat) \<Rightarrow> shard_dir \<Rightarrow> 'x world_scheme \<Rightarrow>
    (lake_error + unit) \<times> 'x world_scheme" where
  "replay_wal_ddl cx wcx crc d = io_bind (io_lift (scan_from wcx crc 0 d)) (replay_ddl_loop cx)"

subsection \<open>Deletions, updates and purges\<close>

record replay_dml_stats =
  rd_applied :: nat
  rd_skipped :: nat
  rd_entries :: nat
  rd_new_files :: nat
  rd_purged :: nat

definition no_dml :: replay_dml_stats where
  "no_dml = \<lparr>rd_applied = 0, rd_skipped = 0, rd_entries = 0, rd_new_files = 0, rd_purged = 0\<rparr>"

text \<open>Whether the table exists at a position of the log, and how often it has been created by then.\<close>

fun liveness_from :: "bool \<times> nat \<Rightarrow> (nat \<times> nat \<times> string) list \<Rightarrow> nat \<Rightarrow> string \<Rightarrow> bool \<times> nat" where
  "liveness_from (exists, epoch) [] seq table = (exists, epoch)"
| "liveness_from (exists, epoch) ((s, op, t) # timeline) seq table =
     (if s > seq \<or> t \<noteq> table then liveness_from (exists, epoch) timeline seq table
      else if op = DDL_CREATE_TABLE then liveness_from (True, epoch + 1) timeline seq table
      else if op = DDL_DROP_TABLE then liveness_from (False, epoch) timeline seq table
      else liveness_from (exists, epoch) timeline seq table)"

definition liveness_at :: "(nat \<times> nat \<times> string) list \<Rightarrow> nat \<Rightarrow> string \<Rightarrow> bool \<times> nat" where
  "liveness_at timeline seq table = liveness_from (True, 0) timeline seq table"

fun ddl_timeline :: "(nat \<times> wal_record) list \<Rightarrow> (nat \<times> nat \<times> string) list" where
  "ddl_timeline [] = []"
| "ddl_timeline ((seq, r) # rs) =
     (case r of Ddl d \<Rightarrow> (seq, dd_op d, dd_table d) # ddl_timeline rs | _ \<Rightarrow> ddl_timeline rs)"

definition decode_bitmap ::
  "(bytes \<Rightarrow> dv_bitmap option) \<Rightarrow> (bytes \<Rightarrow> nat) \<Rightarrow> file_deletion \<Rightarrow> lake_error + dv_bitmap" where
  "decode_bitmap rdeser crc fd =
     (case dv_from_bytes rdeser crc (fd_bitmap fd) of Inl _ \<Rightarrow> Inl (Other ''replayed bitmap'') | Inr b \<Rightarrow> Inr b)"

fun replay_entries ::
  "(bytes \<Rightarrow> dv_bitmap option) \<Rightarrow> (bytes \<Rightarrow> nat) \<Rightarrow> string \<Rightarrow> string \<Rightarrow> file_deletion list \<Rightarrow>
    lake_error + deletion_entry list" where
  "replay_entries rdeser crc table dv_id [] = Inr []"
| "replay_entries rdeser crc table dv_id (fd # fds) =
     and_then (decode_bitmap rdeser crc fd) (\<lambda>dv.
     and_then (replay_entries rdeser crc table dv_id fds) (\<lambda>es.
       Inr (if dv_is_empty dv then es
         else \<lparr>de_dv_id = dv_id, de_table = table, de_file_path = fd_file_path fd, de_batch_id = fd_batch_id fd,
           de_applied_at = 0, de_revoked_at = 0, de_card = dv_card dv mod 2 ^ 32,
           de_store_path = dv_object_path (fd_file_path fd) dv_id\<rparr> # es)))"

definition replay_file :: "string \<Rightarrow> new_file_payload \<Rightarrow> file_manifest" where
  "replay_file table nf = \<lparr>fm_file_path = nf_file_path nf, fm_batch_id = nf_batch_id nf, fm_client_request_id = [],
     fm_schema_version = nf_schema_version nf, fm_status = 0, fm_valid_from = 0, fm_deleted_at = 0, fm_stats = None,
     fm_row_count = nf_row_count nf, fm_file_size = nf_file_size nf, fm_table = table, fm_shard = nf_shard nf,
     fm_time_window = nf_time_window nf, fm_partition_key = [], fm_source_instance = [], fm_sealed_at_ms = 0,
     fm_committed_at_ms = 0, fm_seal_reason = [], fm_seal_pressure = [], fm_index_path = [], fm_index_size = 0\<rparr>"

fun dml_target :: "wal_record \<Rightarrow> (string \<times> nat) option" where
  "dml_target (Delete p) = Some (dl_table p, dl_schema_epoch p)"
| "dml_target (Update p) = Some (up_table p, up_schema_epoch p)"
| "dml_target (Purge p) = Some (pu_table p, pu_schema_epoch p)"
| "dml_target _ = None"

fun replay_dml_record ::
  "codecs \<Rightarrow> (bytes \<Rightarrow> dv_bitmap option) \<Rightarrow> (bytes \<Rightarrow> nat) \<Rightarrow> wal_record \<Rightarrow> replay_dml_stats \<Rightarrow>
    'x world_scheme \<Rightarrow> (lake_error + replay_dml_stats) \<times> 'x world_scheme" where
  "replay_dml_record cx rdeser crc (Delete p) stats =
     io_bind (io_lift (replay_entries rdeser crc (dl_table p) (dl_dv_id p) (dl_deletions p))) (\<lambda>entries.
       if entries = [] then io_return stats
       else io_bind (catalog_call cx (apply_deletions entries)) (\<lambda>_. io_return (stats\<lparr>
         rd_applied := rd_applied stats + 1, rd_entries := rd_entries stats + length entries\<rparr>)))"
| "replay_dml_record cx rdeser crc (Update p) stats =
     io_bind (io_lift (replay_entries rdeser crc (up_table p) (up_upd_id p) (up_deletions p))) (\<lambda>entries.
       let new = map (replay_file (up_table p)) (up_new_files p) in
       if entries = [] \<and> new = [] then io_return stats
       else io_bind (catalog_call cx (\<lambda>now. apply_update entries new (up_upd_id p) (now div 1000))) (\<lambda>_.
         io_return (stats\<lparr>rd_applied := rd_applied stats + 1, rd_entries := rd_entries stats + length entries,
           rd_new_files := rd_new_files stats + length new\<rparr>)))"
| "replay_dml_record cx rdeser crc (Purge p) stats =
     io_bind (catalog_call cx (purge_table_files (pu_table p) (pu_purge_id p))) (\<lambda>_.
       io_return (stats\<lparr>rd_applied := rd_applied stats + 1, rd_purged := rd_purged stats + 1\<rparr>))"
| "replay_dml_record cx rdeser crc _ stats = io_return stats"

fun replay_dml_loop ::
  "codecs \<Rightarrow> (bytes \<Rightarrow> dv_bitmap option) \<Rightarrow> (bytes \<Rightarrow> nat) \<Rightarrow> (nat \<times> nat \<times> string) list \<Rightarrow>
    (nat \<times> wal_record) list \<Rightarrow> replay_dml_stats \<Rightarrow> 'x world_scheme \<Rightarrow>
    (lake_error + replay_dml_stats) \<times> 'x world_scheme" where
  "replay_dml_loop cx rdeser crc timeline [] stats = io_return stats"
| "replay_dml_loop cx rdeser crc timeline ((seq, r) # rs) stats =
     (case dml_target r of
        None \<Rightarrow> replay_dml_loop cx rdeser crc timeline rs stats
      | Some (table, want_epoch) \<Rightarrow>
          let (alive, epoch) = liveness_at timeline seq table in
          if \<not> alive \<or> want_epoch \<noteq> 0 \<and> epoch \<noteq> want_epoch
          then replay_dml_loop cx rdeser crc timeline rs (stats\<lparr>rd_skipped := rd_skipped stats + 1\<rparr>)
          else io_bind (replay_dml_record cx rdeser crc r stats)
            (replay_dml_loop cx rdeser crc timeline rs))"

definition replay_wal_dml ::
  "codecs \<Rightarrow> wal_codecs \<Rightarrow> (bytes \<Rightarrow> dv_bitmap option) \<Rightarrow> (bytes \<Rightarrow> nat) \<Rightarrow> shard_dir \<Rightarrow> 'x world_scheme \<Rightarrow>
    (lake_error + replay_dml_stats) \<times> 'x world_scheme" where
  "replay_wal_dml cx wcx rdeser crc d =
     io_bind (io_lift (scan_from wcx crc 0 d)) (\<lambda>rs. replay_dml_loop cx rdeser crc (ddl_timeline rs) rs no_dml)"

subsection \<open>The log that is read\<close>

lemma scan_from_log:
  assumes "holds_log wcx crc shard first segs d"
  shows "scan_from wcx crc 0 d = Inr (enumerate first (log_of segs))"
proof -
  have "\<forall>p \<in> set (enumerate first (log_of segs)). case p of (s, _) \<Rightarrow> 0 \<le> s \<and> s < u64_max"
    using assms by (auto simp: holds_log_def u64_max_def in_set_enumerate_eq)
  then have "filter (\<lambda>(s, _). 0 \<le> s \<and> s < u64_max) (enumerate first (log_of segs)) = enumerate first (log_of segs)"
    by (simp add: filter_id_conv)
  then show ?thesis using scan_range_log [OF assms, of 0 u64_max] by (simp add: scan_from_def)
qed

lemma enumerate_member: "(q, r) \<in> set (enumerate n rs) \<Longrightarrow> r \<in> set rs"
  by (auto simp: enumerate_eq_zip dest: set_zip_rightD)

text \<open>A directory with one segment, for the witnesses.\<close>

definition log_dir :: "wal_codecs \<Rightarrow> wal_record list \<Rightarrow> shard_dir" where
  "log_dir cx rs = \<lparr>sd_files = bm_insert (segment_file_name 1) (segment_bytes cx demo_crc demo_header rs) bm_empty,
     sd_current = Some (segment_file_name 1)\<rparr>"

lemma log_dir_holds:
  assumes "list_all (writable cx demo_crc) rs" "length rs < 100"
  shows "holds_log cx demo_crc 0 7 [(1, rs)] (log_dir cx rs)"
proof -
  have "list_segments (log_dir cx rs) = map (\<lambda>n. (n, segment_file_name n)) [1]"
    by (rule list_segments_eqI) (auto simp: log_dir_def bm_simps one_le_u64_max split: if_splits)
  then show ?thesis using assms by (simp add: holds_log_def) (simp add: log_dir_def bm_simps)
qed

subsection \<open>What the calls keep\<close>

text \<open>In a world where nobody interferes, a computation keeps what each of its operations on the catalog keeps.\<close>

definition preserves :: "(catalog_state \<Rightarrow> bool) \<Rightarrow> ('x world_scheme \<Rightarrow> (lake_error + 'a) \<times> 'x world_scheme) \<Rightarrow> bool" where
  "preserves R m \<longleftrightarrow> (\<forall>w. undisturbed w \<and> R (w_catalog w) \<longrightarrow> undisturbed (snd (m w)) \<and> R (w_catalog (snd (m w))))"

named_theorems preserves_rules

lemma preservesD: "preserves R m \<Longrightarrow> undisturbed w \<Longrightarrow> R (w_catalog w) \<Longrightarrow> m w = (r, w') \<Longrightarrow> undisturbed w' \<and> R (w_catalog w')"
  by (force simp: preserves_def)

lemma preserves_call [preserves_rules]: "(\<And>now st. R st \<Longrightarrow> R (snd (f now st))) \<Longrightarrow> preserves R (catalog_call cx f)"
  unfolding preserves_def
proof (intro allI impI)
  fix w :: "'x world_scheme"
  assume R: "\<And>now st. R st \<Longrightarrow> R (snd (f now st))" and w: "undisturbed w \<and> R (w_catalog w)"
  obtain now w1 where "catalog_call cx f w = (fst (f now (w_catalog w)), w1)" "undisturbed w1"
    "w_catalog w1 = snd (f now (w_catalog w))" using w by (blast elim: undisturbed_call)
  then show "undisturbed (snd (catalog_call cx f w)) \<and> R (w_catalog (snd (catalog_call cx f w)))"
    using R w by simp
qed

lemma preserves_case:
  assumes "preserves R m" "\<And>x. preserves R (g x)" "\<And>e. preserves R (h e)"
  shows "preserves R (\<lambda>w. case m w of (Inr x, w1) \<Rightarrow> g x w1 | (Inl e, w1) \<Rightarrow> h e w1)"
  using assms by (auto simp: preserves_def split: prod.split sum.split)

lemma preserves_fail [preserves_rules]: "preserves R (io_fail e)" "preserves R (\<lambda>w. (Inl e, w))"
  by (simp_all add: preserves_def io_fail_def)

lemma preserves_bind [preserves_rules]: "preserves R m \<Longrightarrow> (\<And>x. preserves R (g x)) \<Longrightarrow> preserves R (io_bind m g)"
  unfolding io_bind_def [abs_def]
  using preserves_case [of R m g "\<lambda>e w. (Inl e, w)"] preserves_fail(2)
  by (auto simp: preserves_def split: prod.split sum.split)

lemma preserves_return [preserves_rules]: "preserves R (io_return x)"
  by (simp add: preserves_def io_return_def)

lemma preserves_lift [preserves_rules]: "preserves R (io_lift r)"
  by (simp add: preserves_def io_lift_def)

lemma preserves_attempt [preserves_rules]: "preserves R m \<Longrightarrow> preserves R (io_attempt m)"
  by (simp add: preserves_def io_attempt_def)

lemma preserves_converge:
  assumes R: "\<And>req now st. R st \<Longrightarrow> R (snd (evolve_schema (cx_ser cx) (cx_deser cx) (cx_dbg cx) req now st))"
  shows "preserves R (converge_loop cx table target n k :: 'x world_scheme \<Rightarrow> _)"
proof (induction n arbitrary: k)
  case (Suc n)
  have "preserves R (case next_change s target of Inl reason \<Rightarrow> io_fail (InvalidSchemaChange (CannotConverge reason))
      | Inr None \<Rightarrow> io_return k
      | Inr (Some change) \<Rightarrow>
          (\<lambda>w :: 'x world_scheme. case catalog_call cx (\<lambda>now st. evolve_schema (cx_ser cx) (cx_deser cx) (cx_dbg cx)
                 \<lparr>ev_table = table, ev_change = change, ev_expected_version = v\<rparr> (now div 1000) st) w of
             (Inr _, w1) \<Rightarrow> converge_loop cx table target n (Suc k) w1
           | (Inl e, w1) \<Rightarrow>
               (case schema_conflict e of
                  Some _ \<Rightarrow> converge_loop cx table target n k w1
                | None \<Rightarrow> (Inl e, w1))))" for s v
  proof (cases "next_change s target")
    case (Inr c)
    have conflict: "preserves R (\<lambda>w1 :: 'x world_scheme. case schema_conflict e of Some _ \<Rightarrow> converge_loop cx table target n k w1
        | None \<Rightarrow> (Inl e, w1))" for e
      using Suc preserves_fail(2) by (cases "schema_conflict e") auto
    show ?thesis
    proof (cases c)
      case (Some ch)
      show ?thesis unfolding Inr Some sum.case option.case
        by (rule preserves_case [OF preserves_call Suc conflict]) (rule R)
    qed (simp add: Inr preserves_rules)
  qed (simp add: preserves_rules)
  then show ?case
    by (auto intro!: preserves_rules split: option.split)
qed (simp add: preserves_rules)

lemma preserves_ddl_record:
  assumes "\<And>req now st. R st \<Longrightarrow> R (snd (evolve_schema (cx_ser cx) (cx_deser cx) (cx_dbg cx) req now st))"
    "\<And>req now st. R st \<Longrightarrow> R (snd (create_table (cx_ser cx) req now st))"
    "\<And>t st. R st \<Longrightarrow> R (snd (drop_table t st))"
    "\<And>n st. R st \<Longrightarrow> R (snd (create_schema n st))" "\<And>n st. R st \<Longrightarrow> R (snd (drop_schema n st))"
  shows "preserves R (replay_ddl_record cx p)"
  unfolding replay_ddl_record_def converge_schema_def
  by (auto split: option.split intro!: preserves_rules preserves_converge assms)

lemma preserves_ddl_loop:
  assumes "\<And>p. preserves R (replay_ddl_record cx p :: 'x world_scheme \<Rightarrow> _)"
  shows "preserves R (replay_ddl_loop cx rs :: 'x world_scheme \<Rightarrow> _)"
proof (induction rs)
  case (Cons q rs)
  then show ?case by (cases q; cases "snd q") (auto intro!: preserves_rules assms)
qed (simp add: preserves_rules)

lemma ddl_loop_append:
  "replay_ddl_loop cx (rs @ rs') = io_bind (replay_ddl_loop cx rs) (\<lambda>_. replay_ddl_loop cx rs')"
proof (induction rs)
  case (Cons q rs)
  then show ?case
    by (cases q; cases "snd q") (auto simp: io_bind_def fun_eq_iff split: prod.split sum.split)
qed (simp add: io_bind_def io_return_def fun_eq_iff)

end
