(* ===== verification/Ddl_Replay.thy ===== *)
theory Ddl_Replay
  imports Wal_Replay
begin

text \<open>
  The replay of the statements on tables: it rebuilds the tables of an empty catalog, but on a catalog that survives
  restarts it drops a live table for a \<open>DROP\<close> its predecessor met, and an old \<open>ALTER\<close> can keep the node from starting.
\<close>

subsection \<open>A dropped table takes its successor with it\<close>

definition no_files :: "string \<Rightarrow> catalog_state \<Rightarrow> bool" where
  "no_files key st \<longleftrightarrow> (\<forall>k f. bm_get (files st) k = Some f \<longrightarrow> normalize_table (fm_table f) \<noteq> key)"

text \<open>The table is known, or nothing of it is.\<close>

definition table_or_none :: "string \<Rightarrow> catalog_state \<Rightarrow> bool" where
  "table_or_none key st \<longleftrightarrow> bm_has (tables st) key \<or> no_files key st"

lemma ddl_files:
  "files (snd (evolve_schema ser deser dbg req now st)) = files st"
  "files (snd (create_table ser creq now st)) = files st"
  "files (snd (create_schema n st)) = files st" "files (snd (drop_schema n st)) = files st"
  by (auto simp: evolve_schema_def create_table_def create_schema_def drop_schema_def Let_def bump_defs
      split: option.split sum.split)

lemma ddl_keeps_tables:
  "bm_has (tables st) key \<Longrightarrow> bm_has (tables (snd (evolve_schema ser deser dbg req now st))) key"
  "bm_has (tables st) key \<Longrightarrow> bm_has (tables (snd (create_table ser creq now st))) key"
  "tables (snd (create_schema n st)) = tables st" "tables (snd (drop_schema n st)) = tables st"
  by (auto simp: evolve_schema_def create_table_def create_schema_def drop_schema_def Let_def bump_defs bm_has_def bm_simps
      split: option.split sum.split)

lemma drop_table_no_files:
  "no_files key st \<Longrightarrow> no_files key (snd (drop_table t st))"
  "table_or_none key st \<Longrightarrow> table_or_none key (snd (drop_table t st))"
  "table_or_none key st \<Longrightarrow> normalize_table t = key \<Longrightarrow> no_files key (snd (drop_table t st))"
  by (auto simp: drop_table_def Let_def no_files_def table_or_none_def bump_defs bm_has_def bm_simps
      split: if_splits option.splits)

lemma preserves_no_files: "preserves (no_files key) (replay_ddl_record cx p)"
proof (rule preserves_ddl_record)
  show "no_files key st \<Longrightarrow> no_files key (snd (drop_table t st))" for t st
    by (rule drop_table_no_files(1))
qed (simp_all add: no_files_def ddl_files)

lemma preserves_table_or_none: "preserves (table_or_none key) (replay_ddl_record cx p)"
proof (rule preserves_ddl_record)
  show "table_or_none key st \<Longrightarrow> table_or_none key (snd (drop_table t st))" for t st
    by (rule drop_table_no_files(2))
qed (auto simp: table_or_none_def no_files_def ddl_files ddl_keeps_tables)

lemma drop_record_no_files:
  assumes "undisturbed w" "table_or_none (normalize_table (dd_table p)) (w_catalog w)" "dd_op p = DDL_DROP_TABLE"
    and "replay_ddl_record cx p w = (r, w')"
  shows "undisturbed w' \<and> no_files (normalize_table (dd_table p)) (w_catalog w')"
proof -
  obtain now w1 where w1: "catalog_call cx (\<lambda>_. drop_table (dd_table p)) w = (fst (drop_table (dd_table p) (w_catalog w)), w1)"
    "undisturbed w1" "w_catalog w1 = snd (drop_table (dd_table p) (w_catalog w))"
    using undisturbed_call [OF assms(1), of cx "\<lambda>_. drop_table (dd_table p)"] by metis
  then have "w' = w1" using assms(3,4) by (auto simp: replay_ddl_record_def io_attempt_def DDL_CREATE_TABLE_def DDL_DROP_TABLE_def)
  with w1 assms(2) show ?thesis by (simp add: drop_table_no_files(3))
qed

lemma no_files_unlisted: "no_files (normalize_table t) st \<Longrightarrow> list_visible_files t k filt st = []"
  by (auto simp: list_visible_files_def Let_def filter_empty_conv bm_values_iff no_files_def)

text \<open>C35: A table that was dropped and created again loses its data at the next start. The log still holds the
  \<open>DROP TABLE\<close>; with a catalog that survives restarts the replay applies it to the live table of that name, whatever
  the log says after it, and when the replay is through the table lists no file at any snapshot.\<close>

theorem ddl_replay_wipes_live_table:
  assumes "undisturbed w" "bm_has (tables (w_catalog w)) (normalize_table t)"
    and "holds_log wcx crc shard first segs d" "Ddl p \<in> set (log_of segs)"
    and "dd_op p = DDL_DROP_TABLE" "normalize_table (dd_table p) = normalize_table t"
    and "replay_wal_ddl cx wcx crc d w = (Inr (), w')"
  shows "list_visible_files t k filt (w_catalog w') = []"
proof -
  let ?key = "normalize_table t"
  obtain pre q post where rs: "enumerate first (log_of segs) = pre @ (q, Ddl p) # post"
    using assms(4) by (metis in_set_conv_nth in_set_enumerate_eq length_enumerate nth_enumerate_eq prod.exhaust split_list nth_mem)
  obtain w1 where w1: "replay_ddl_loop cx pre w = (Inr (), w1)"
    and rest: "replay_ddl_loop cx ((q, Ddl p) # post) w1 = (Inr (), w')"
    using assms(7) by (auto simp: replay_wal_ddl_def scan_from_log [OF assms(3)] rs io_lift_def io_bind_def ddl_loop_append
        simp del: replay_ddl_loop.simps(2) split: prod.splits sum.splits)
  obtain w2 where w2: "replay_ddl_record cx p w1 = (Inr (), w2)" "replay_ddl_loop cx post w2 = (Inr (), w')"
    using rest by (auto simp: io_bind_def split: prod.splits sum.splits)
  have "table_or_none ?key (w_catalog w)" using assms(2) by (simp add: table_or_none_def)
  with preservesD [OF preserves_ddl_loop [OF preserves_table_or_none] assms(1) _ w1] have
    "undisturbed w1" "table_or_none ?key (w_catalog w1)" by simp_all
  then have "undisturbed w2" "no_files ?key (w_catalog w2)"
    using drop_record_no_files [OF _ _ assms(5) w2(1)] assms(6) by simp_all
  with preservesD [OF preserves_ddl_loop [OF preserves_no_files] _ _ w2(2)] show ?thesis by (simp add: no_files_unlisted)
qed

subsection \<open>A statement that can no longer be applied stops the start\<close>

text \<open>The replay of this statement finds the table there already.\<close>

definition ddl_settled :: "codecs \<Rightarrow> catalog_state \<Rightarrow> ddl_payload \<Rightarrow> bool" where
  "ddl_settled cx st p \<longleftrightarrow> dd_op p = DDL_CREATE_TABLE \<and>
     (case cx_deser cx (dd_arrow_schema p) of
        None \<Rightarrow> False
      | Some s \<Rightarrow> bm_has (tables st) (cr_qualified_name (replay_request s p)))"

lemma create_existing: "bm_has (tables st) (cr_qualified_name req) \<Longrightarrow> snd (create_table ser req now st) = st"
  by (simp add: create_table_def Let_def)

lemma settled_record:
  assumes "undisturbed w" "ddl_settled cx (w_catalog w) p"
  obtains w1 where "replay_ddl_record cx p w = (Inr (), w1)" "undisturbed w1" "w_catalog w1 = w_catalog w"
proof -
  obtain s where s: "cx_deser cx (dd_arrow_schema p) = Some s" "bm_has (tables (w_catalog w)) (cr_qualified_name (replay_request s p))"
    "dd_op p = DDL_CREATE_TABLE" using assms(2) by (auto simp: ddl_settled_def split: option.splits)
  obtain now w1 where "catalog_call cx (\<lambda>now. create_table (cx_ser cx) (replay_request s p) (now div 1000)) w =
      (fst (create_table (cx_ser cx) (replay_request s p) (now div 1000) (w_catalog w)), w1)" "undisturbed w1"
    "w_catalog w1 = snd (create_table (cx_ser cx) (replay_request s p) (now div 1000) (w_catalog w))"
    using undisturbed_call [OF assms(1), of cx "\<lambda>now. create_table (cx_ser cx) (replay_request s p) (now div 1000)"] by metis
  with that s show thesis by (simp add: replay_ddl_record_def io_attempt_def create_existing)
qed

lemma settled_loop:
  assumes "undisturbed w" "\<forall>q p. (q, Ddl p) \<in> set rs \<longrightarrow> ddl_settled cx (w_catalog w) p"
  obtains w1 where "replay_ddl_loop cx rs w = (Inr (), w1)" "undisturbed w1" "w_catalog w1 = w_catalog w"
  using assms
proof (induction rs arbitrary: w thesis)
  case Nil
  then show ?case by (simp add: io_return_def)
next
  case (Cons q rs)
  obtain s r where q: "q = (s, r)" by fastforce
  show ?case
  proof (cases "\<exists>p. r = Ddl p")
    case True
    then obtain p where r: "r = Ddl p" by blast
    obtain w1 where w1: "replay_ddl_record cx p w = (Inr (), w1)" "undisturbed w1" "w_catalog w1 = w_catalog w"
      by (rule settled_record [of w cx p]) (use Cons.prems(2,3) in \<open>auto simp: q r\<close>)
    obtain w2 where "replay_ddl_loop cx rs w1 = (Inr (), w2)" "undisturbed w2" "w_catalog w2 = w_catalog w1"
      by (rule Cons.IH [of w1]) (use w1 Cons.prems(3) in auto)
    with w1 show ?thesis by (intro Cons.prems(1) [of w2]) (simp_all add: q r io_bind_def)
  next
    case False
    obtain w2 where w2: "replay_ddl_loop cx rs w = (Inr (), w2)" "undisturbed w2" "w_catalog w2 = w_catalog w"
      by (rule Cons.IH [of w]) (use Cons.prems(2,3) in auto)
    have "replay_ddl_loop cx (q # rs) w = replay_ddl_loop cx rs w" using False by (cases r) (auto simp: q)
    with w2 show ?thesis by (intro Cons.prems(1) [of w2]) simp_all
  qed
qed

lemma converge_stuck:
  assumes "undisturbed w" "table_schema (cx_deser cx) table (w_catalog w) = Inr (Some (s, v))" "next_change s target = Inl reason"
  obtains w1 where "converge_schema cx table target w = (Inl (InvalidSchemaChange (CannotConverge reason)), w1)"
    "w_catalog w1 = w_catalog w"
proof -
  let ?read = "\<lambda>_ :: nat. \<lambda>st. (table_schema (cx_deser cx) table st, st)"
  obtain now w1 where w1: "catalog_call cx ?read w = (fst (?read now (w_catalog w)), w1)"
    "w_catalog w1 = snd (?read now (w_catalog w))" using assms(1) by (rule undisturbed_call)
  have bound: "(32 :: nat) = Suc 31" by simp
  have "converge_loop cx table target (Suc n) 0 w = (Inl (InvalidSchemaChange (CannotConverge reason)), w1)" for n
    using w1(1) assms(2,3) by (simp add: io_bind_def io_fail_def)
  then have "converge_schema cx table target w = (Inl (InvalidSchemaChange (CannotConverge reason)), w1)"
    unfolding converge_schema_def bound .
  with w1(2) show thesis by (intro that [of w1]) simp_all
qed


subsection \<open>The replay rebuilds the tables of the log\<close>

definition default_table :: "string \<Rightarrow> bool" where
  "default_table t \<longleftrightarrow> (\<exists>b. t = qualified_name DEFAULT_SCHEMA b \<and> validate_table_name b)"

lemma default_request:
  assumes "default_table (dd_table p)"
  shows "cr_qualified_name (replay_request s p) = dd_table p" "normalize_table (dd_table p) = dd_table p"
    "validate_table_name (cr_name (replay_request s p))" "cr_schema_name (replay_request s p) = DEFAULT_SCHEMA"
proof -
  obtain b where b: "dd_table p = qualified_name DEFAULT_SCHEMA b" "validate_table_name b"
    using assms by (auto simp: default_table_def)
  have d: "CHR ''.'' \<notin> set DEFAULT_SCHEMA" "DEFAULT_SCHEMA \<noteq> []" by (simp_all add: DEFAULT_SCHEMA_def)
  have "b \<noteq> []" using valid_table_no_dot [OF b(2)] by simp
  then have sp: "split_qualified (dd_table p) = (DEFAULT_SCHEMA, b)"
    using split_qualified_name [OF d] by (simp add: b(1))
  show "normalize_table (dd_table p) = dd_table p" using sp by (simp add: normalize_table_def b(1))
  show "validate_table_name (cr_name (replay_request s p))" "cr_schema_name (replay_request s p) = DEFAULT_SCHEMA"
    "cr_qualified_name (replay_request s p) = dd_table p"
    using b(2) d(2) sp by (simp_all add: replay_request_def cr_schema_name_def cr_qualified_name_def b(1))
qed

text \<open>The namespace of the tables is there, and a table exists or not.\<close>

definition table_is :: "string \<Rightarrow> bool \<Rightarrow> catalog_state \<Rightarrow> bool" where
  "table_is t c st \<longleftrightarrow> schema_exists DEFAULT_SCHEMA st \<and> (bm_has (tables st) t \<longleftrightarrow> c)"

lemma table_is_evolve: "table_is t c st \<Longrightarrow> table_is t c (snd (evolve_schema ser deser dbg req now st))"
  by (auto simp: table_is_def schema_exists_def evolve_schema_def Let_def bump_defs bm_has_def bm_simps
      split: option.split sum.split)

lemma table_is_schemas: "table_is t c st \<Longrightarrow> table_is t c (snd (create_schema n st))"
  "table_is t c st \<Longrightarrow> table_is t c (snd (drop_schema n st))"
  by (auto simp: table_is_def schema_exists_def create_schema_def drop_schema_def bump_defs bm_has_def bm_simps)

lemma table_is_drop:
  "table_is t c st \<Longrightarrow> normalize_table u = u \<Longrightarrow> table_is t (c \<and> u \<noteq> t) (snd (drop_table u st))"
  by (auto simp: table_is_def schema_exists_def drop_table_def Let_def bump_defs bm_has_def bm_simps split: if_splits)

lemma table_is_create:
  assumes "table_is t c st" "default_table (dd_table p)"
  shows "table_is t (c \<or> dd_table p = t) (snd (create_table ser (replay_request s p) now st))"
proof -
  have "validate_schema_name DEFAULT_SCHEMA" by code_simp
  with assms(1) default_request [OF assms(2)] show ?thesis
    by (auto simp: table_is_def schema_exists_def create_table_def Let_def bump_defs bm_has_def bm_simps split: if_splits)
qed

definition ddl_after :: "string \<Rightarrow> ddl_payload \<Rightarrow> bool \<Rightarrow> bool" where
  "ddl_after t p c = (if dd_op p = DDL_CREATE_TABLE then c \<or> dd_table p = t
     else if dd_op p = DDL_DROP_TABLE then c \<and> dd_table p \<noteq> t else c)"

definition names_tables :: "ddl_payload \<Rightarrow> bool" where
  "names_tables p \<longleftrightarrow> (dd_op p = DDL_CREATE_TABLE \<or> dd_op p = DDL_DROP_TABLE \<longrightarrow> default_table (dd_table p))"

lemma ddl_record_tables:
  fixes w :: "'x world_scheme"
  assumes w: "undisturbed w" "table_is t c (w_catalog w)" and p: "names_tables p"
    and run: "replay_ddl_record cx p w = (Inr (), w')"
  shows "undisturbed w' \<and> table_is t (ddl_after t p c) (w_catalog w')"
proof -
  have call: "undisturbed w' \<and> table_is t c' (w_catalog w')"
    if "\<And>now st. table_is t c st \<Longrightarrow> table_is t c' (snd (f now st))" "w' = snd (catalog_call cx f w)"
    for f :: "nat \<Rightarrow> catalog_state \<Rightarrow> (lake_error + 'q) \<times> catalog_state" and c'
  proof -
    obtain now w1 where "catalog_call cx f w = (fst (f now (w_catalog w)), w1)" "undisturbed w1"
      "w_catalog w1 = snd (f now (w_catalog w))" using w(1) by (rule undisturbed_call)
    with that w(2) show ?thesis by simp
  qed
  note ops = DDL_CREATE_TABLE_def DDL_DROP_TABLE_def DDL_CREATE_SCHEMA_def DDL_DROP_SCHEMA_def DDL_ALTER_TABLE_def
  consider (create) "dd_op p = DDL_CREATE_TABLE" | (drop) "dd_op p = DDL_DROP_TABLE"
    | (other) "dd_op p \<noteq> DDL_CREATE_TABLE" "dd_op p \<noteq> DDL_DROP_TABLE" by blast
  then show ?thesis
  proof cases
    case create
    then obtain s where s: "w' = snd (catalog_call cx (\<lambda>now. create_table (cx_ser cx) (replay_request s p) (now div 1000)) w)"
      using run by (auto simp: replay_ddl_record_def io_attempt_def io_fail_def split: option.splits)
    have "default_table (dd_table p)" using p create by (simp add: names_tables_def)
    then show ?thesis using call [OF table_is_create s] create by (simp add: ddl_after_def)
  next
    case drop
    then have s: "w' = snd (catalog_call cx (\<lambda>_. drop_table (dd_table p)) w)"
      using run by (auto simp: replay_ddl_record_def io_attempt_def ops)
    have "normalize_table (dd_table p) = dd_table p" using p drop default_request(2) by (simp add: names_tables_def)
    then show ?thesis using call [OF table_is_drop s] drop by (simp add: ddl_after_def ops)
  next
    case other
    have "preserves (table_is t c) (replay_ddl_record cx p :: 'x world_scheme \<Rightarrow> _)"
      using other unfolding replay_ddl_record_def converge_schema_def
      by (auto split: option.split intro!: preserves_rules preserves_converge table_is_evolve table_is_schemas)
    with preservesD [OF this w run] other show ?thesis by (simp add: ddl_after_def)
  qed
qed

lemma ddl_loop_tables:
  assumes "undisturbed w" "table_is t (ex \<and> 0 < n) (w_catalog w)" "\<And>q p. (q, Ddl p) \<in> set rs \<Longrightarrow> names_tables p \<and> q \<le> seq"
    and "replay_ddl_loop cx rs w = (Inr (), w')"
  shows "case liveness_from (ex, n) (ddl_timeline rs) seq t of (alive, epoch) \<Rightarrow> table_is t (alive \<and> 0 < epoch) (w_catalog w')"
  using assms
proof (induction rs arbitrary: w ex n)
  case Nil
  then show ?case by (simp add: io_return_def)
next
  case (Cons q rs)
  obtain s r where q: "q = (s, r)" by fastforce
  have member: "(q', Ddl p') \<in> set rs \<Longrightarrow> names_tables p' \<and> q' \<le> seq" for q' p'
    using Cons.prems(3) [of q' p'] by simp
  show ?case
  proof (cases "\<exists>p. r = Ddl p")
    case True
    then obtain p where r: "r = Ddl p" by blast
    have p: "names_tables p" "s \<le> seq" using Cons.prems(3) by (auto simp: q r)
    obtain w1 where w1: "replay_ddl_record cx p w = (Inr (), w1)" "replay_ddl_loop cx rs w1 = (Inr (), w')"
      using Cons.prems(4) by (auto simp: q r io_bind_def split: prod.splits sum.splits)
    have step: "undisturbed w1" "table_is t (ddl_after t p (ex \<and> 0 < n)) (w_catalog w1)"
      using ddl_record_tables [OF Cons.prems(1,2) p(1) w1(1)] by auto
    note ih = Cons.IH [OF step(1) _ _ w1(2)]
    consider "dd_table p \<noteq> t" | "dd_table p = t" "dd_op p = DDL_CREATE_TABLE" | "dd_table p = t" "dd_op p = DDL_DROP_TABLE"
      | "dd_table p = t" "dd_op p \<noteq> DDL_CREATE_TABLE" "dd_op p \<noteq> DDL_DROP_TABLE" by blast
    then show ?thesis
    proof cases
      case 1
      with step(2) have "table_is t (ex \<and> 0 < n) (w_catalog w1)" by (simp add: ddl_after_def split: if_splits)
      from ih [OF this member] 1 show ?thesis by (simp add: q r)
    next
      case 2
      with step(2) have "table_is t (True \<and> 0 < n + 1) (w_catalog w1)" by (simp add: ddl_after_def)
      from ih [OF this member] 2 p(2) show ?thesis by (simp add: q r)
    next
      case 3
      with step(2) have "table_is t (False \<and> 0 < n) (w_catalog w1)"
        by (simp add: ddl_after_def DDL_CREATE_TABLE_def DDL_DROP_TABLE_def)
      from ih [OF this member] 3 p(2) show ?thesis by (simp add: q r DDL_CREATE_TABLE_def DDL_DROP_TABLE_def)
    next
      case 4
      with step(2) have "table_is t (ex \<and> 0 < n) (w_catalog w1)" by (simp add: ddl_after_def)
      from ih [OF this member] 4 p(2) show ?thesis by (simp add: q r)
    qed
  next
    case False
    then have "replay_ddl_loop cx (q # rs) w = replay_ddl_loop cx rs w" "ddl_timeline (q # rs) = ddl_timeline rs"
      by (cases r; simp add: q)+
    with Cons.IH [OF Cons.prems(1,2) member] Cons.prems(4) show ?thesis by simp
  qed
qed


end
