(* ===== verification/Dml_Replay.thy ===== *)
theory Dml_Replay
  imports Wal_Replay Catalog_Purge
begin

text \<open>
  The replay of deletions, updates and purges: a deletion whose file has been merged since stops the start, and a purge
  takes the rows that were written after it.
\<close>

subsection \<open>A deletion whose file has been merged stops the start\<close>

definition offline :: "string \<Rightarrow> catalog_state \<Rightarrow> bool" where
  "offline b st \<longleftrightarrow> (\<exists>m. bm_get (files st) b = Some m \<and> fm_deleted_at m \<noteq> 0)"

lemma offline_kept:
  "offline b st \<Longrightarrow> offline b (snd (apply_deletions es now st))"
  "offline b st \<Longrightarrow> offline b (snd (purge_table_files t pid now st))"
  "offline b st \<Longrightarrow> offline b (snd (apply_update es fs u now st))"
proof -
  assume off: "offline b st"
  show "offline b (snd (apply_deletions es now st))"
    by (cases rule: apply_deletions_cases [of es now st]) (use off in \<open>auto simp: offline_def\<close>)
  show "offline b (snd (purge_table_files t pid now st))"
  proof (cases rule: purge_cases [of t pid now st])
    case (purged out st')
    obtain m where m: "bm_get (files st) b = Some m" "fm_deleted_at m \<noteq> 0" using off by (auto simp: offline_def)
    have "fm_deleted_at (the (bm_get (files st') b)) \<noteq> 0 \<and> bm_get (files st') b \<noteq> None"
      using m by (simp add: purged(7) bm_get_map)
    with purged(1) show ?thesis by (auto simp: offline_def)
  qed (use off in \<open>simp_all add: offline_def\<close>)
  show "offline b (snd (apply_update es fs u now st))"
  proof (cases rule: apply_update_cases [of es fs u now st])
    case (updated t ff fd st')
    have none: "map_of (rev (map (\<lambda>f. (fm_batch_id f, updated_file (Suc (snapshot_version st)) f)) ff)) b = None"
      unfolding map_of_eq_None_iff using off by (auto simp: updated(2) fresh_update_files_def offline_def bm_has_def)
    have "bm_get (files st') b = bm_get (files st) b"
      unfolding updated(9) bm_get_insert_all none by simp
    with off show ?thesis by (simp add: updated(1) offline_def)
  qed (use off in simp)
qed

lemma preserves_offline: "preserves (offline b) (replay_dml_record cx rdeser crc r stats)"
  by (cases r) (auto simp: Let_def intro!: preserves_rules offline_kept)

lemma preserves_dml_loop:
  assumes "\<And>r stats. preserves R (replay_dml_record cx rdeser crc r stats :: 'x world_scheme \<Rightarrow> _)"
  shows "preserves R (replay_dml_loop cx rdeser crc marks rs stats :: 'x world_scheme \<Rightarrow> _)"
proof (induction rs arbitrary: stats)
  case (Cons q rs)
  obtain s r where q: "q = (s, r)" by fastforce
  show ?case
    by (cases "dml_target r") (auto simp: q Let_def intro!: preserves_rules Cons assms split: prod.split)
qed (simp add: preserves_rules)

lemma dml_loop_append:
  "replay_dml_loop cx rdeser crc marks (rs @ rs') stats =
    io_bind (replay_dml_loop cx rdeser crc marks rs stats) (replay_dml_loop cx rdeser crc marks rs')"
proof (induction rs arbitrary: stats)
  case (Cons q rs)
  obtain s r where q: "q = (s, r)" by fastforce
  show ?case
    by (cases "dml_target r")
       (auto simp: q Let_def io_bind_def fun_eq_iff Cons split: prod.split sum.split)
qed (simp add: io_bind_def io_return_def fun_eq_iff)

lemma replay_entries_member:
  assumes "replay_entries rdeser crc table i fds = Inr es" "fd \<in> set fds" "decode_bitmap rdeser crc fd = Inr dv"
    "\<not> dv_is_empty dv"
  shows "\<exists>e \<in> set es. de_batch_id e = fd_batch_id fd"
  using assms
proof (induction fds arbitrary: es)
  case (Cons fd' fds)
  obtain dv' where dv': "decode_bitmap rdeser crc fd' = Inr dv'" using Cons.prems(1) by (cases "decode_bitmap rdeser crc fd'") auto
  obtain es' where es': "replay_entries rdeser crc table i fds = Inr es'"
    using Cons.prems(1) dv' by (cases "replay_entries rdeser crc table i fds") auto
  show ?case
  proof (cases "fd' = fd")
    case True
    then show ?thesis using Cons.prems dv' es' by auto
  next
    case False
    with Cons.IH [OF es'] Cons.prems show ?thesis by (auto simp: dv' es' split: if_splits)
  qed
qed simp

lemma check_anchor_dead: "e \<in> set es \<Longrightarrow> anchor_dead st e \<Longrightarrow> \<exists>err. check_deletions st es fresh = Inl err"
  by (induction es arbitrary: fresh) auto

lemma offline_anchor: "offline (de_batch_id e) st \<Longrightarrow> anchor_dead st e"
  by (auto simp: offline_def anchor_dead_def)

text \<open>C37: A deletion that has been merged keeps its node from starting. The log still holds the record, the catalog
  still lists the file it is anchored in as replaced, and applying the deletion checks the anchor before it notices
  that the deletion is registered already: the replay ends with an error at this and every further start.\<close>

theorem merged_delete_blocks_start:
  assumes "undisturbed w" "holds_log wcx crc shard first segs d"
    and "(q, Delete p) \<in> set (enumerate first (log_of segs))" "dl_schema_epoch p = 0 \<or> dl_schema_epoch p = epoch"
    and "liveness_at (ddl_timeline (enumerate first (log_of segs))) q (dl_table p) = (True, epoch)"
    and "fd \<in> set (dl_deletions p)" "decode_bitmap rdeser crc fd = Inr dv" "\<not> dv_is_empty dv"
    and "bm_get (files (w_catalog w)) (fd_batch_id fd) = Some m" "fm_deleted_at m \<noteq> 0"
  shows "\<exists>e w'. replay_wal_dml cx wcx rdeser crc d w = (Inl e, w')"
proof -
  let ?rs = "enumerate first (log_of segs)" and ?tl = "ddl_timeline (enumerate first (log_of segs))"
  obtain pre post where rs: "?rs = pre @ (q, Delete p) # post" using assms(3) by (meson split_list)
  have off: "offline (fd_batch_id fd) (w_catalog w)" using assms(9,10) by (simp add: offline_def)
  have run: "replay_wal_dml cx wcx rdeser crc d w =
      io_bind (replay_dml_loop cx rdeser crc ?tl pre no_dml) (replay_dml_loop cx rdeser crc ?tl ((q, Delete p) # post)) w"
    unfolding dml_loop_append [symmetric] rs(1) [symmetric]
    by (simp add: replay_wal_dml_def scan_from_log [OF assms(2)] io_lift_def io_bind_def)
  show ?thesis
  proof (cases "replay_dml_loop cx rdeser crc ?tl pre no_dml w")
    case (Pair r w1)
    show ?thesis
    proof (cases r)
      case (Inr stats)
      have w1: "undisturbed w1" "offline (fd_batch_id fd) (w_catalog w1)"
        using preservesD [OF preserves_dml_loop [OF preserves_offline] assms(1) off Pair] by simp_all
      have "\<exists>e w2. replay_dml_record cx rdeser crc (Delete p) stats w1 = (Inl e, w2)"
      proof (cases "replay_entries rdeser crc (dl_table p) (dl_dv_id p) (dl_deletions p)")
        case (Inr es)
        obtain e where e: "e \<in> set es" "de_batch_id e = fd_batch_id fd"
          using replay_entries_member [OF Inr assms(6-8)] by blast
        obtain now w2 where w2: "catalog_call cx (apply_deletions es) w1 = (fst (apply_deletions es now (w_catalog w1)), w2)"
          using w1(1) by (rule undisturbed_call)
        have "anchor_dead (w_catalog w1) e" using w1(2) e(2) by (simp add: offline_anchor)
        from check_anchor_dead [OF e(1) this, of "[]"] obtain err where "fst (apply_deletions es now (w_catalog w1)) = Inl err"
          by (auto simp: apply_deletions_def)
        moreover have "es \<noteq> []" using e(1) by auto
        ultimately show ?thesis using w2 by (simp add: Inr io_lift_def io_bind_def)
      qed (simp add: io_lift_def io_bind_def)
      then show ?thesis using assms(4,5) by (auto simp: run Pair Inr io_bind_def)
    qed (simp add: run Pair io_bind_def)
  qed
qed

subsection \<open>A replayed purge takes what was written after it\<close>

lemma dml_loop_skips: "filter (\<lambda>(_, r). dml_target r \<noteq> None) rs = [] \<Longrightarrow> replay_dml_loop cx rdeser crc marks rs stats = io_return stats"
proof (induction rs)
  case (Cons x rs)
  obtain s r where x: "x = (s, r)" by fastforce
  with Cons show ?case by (cases "dml_target r") auto
qed simp

lemma filter_single_split:
  assumes "filter P xs = [x]"
  obtains pre post where "xs = pre @ x # post" "filter P pre = []" "filter P post = []" "P x"
  using assms by (auto simp: filter_eq_Cons_iff)

lemma purge_table_offline:
  assumes "purge_table_files t pid now st = (r, st')" "pid \<noteq> []" "bm_get (purged st) pid = None" "stamps_past st"
  shows "(\<exists>out. r = Inr out) \<and> list_visible_files t (snapshot_version st') filt st' = []"
proof (cases rule: purge_cases [of t pid now st])
  case (unchanged r')
  with assms(1-3) show ?thesis by (auto simp: purge_table_files_def Let_def split: if_splits)
next
  case (noted out)
  have "\<not> visible_at f (snapshot_version st)"
    if "bm_get (files st) k = Some f" "normalize_table (fm_table f) = normalize_table t" for k f
  proof -
    have "f \<in> set (bm_values (files st))" using that(1) by (auto simp: bm_values_iff)
    then have "fm_deleted_at f \<noteq> 0" using noted(4) that(2) by (auto simp: purge_victims_def filter_empty_conv)
    moreover have "fm_deleted_at f \<le> snapshot_version st" using assms(4) that(1) by (auto simp: stamps_past_def dest: all_entriesD)
    ultimately show ?thesis by (simp add: visible_at_def protects_at_def)
  qed
  then show ?thesis using noted(1) assms(1) by (auto simp: list_visible_files_def Let_def filter_empty_conv bm_values_iff)
next
  case (purged out st'')
  with assms(1) purge_hides_files [OF assms(4) purged(7)] show ?thesis by auto
qed

text \<open>C38: The replay of a purge takes the rows that were written after it. A node with metadata in memory first
  commits every batch of its log again and then replays the deletions; the purge record does not say which files it
  met, so it takes the whole table offline, the batches that the log records behind it included.\<close>

theorem replayed_purge_takes_later_rows:
  assumes "undisturbed w" "holds_log wcx crc shard first segs d"
    and "filter (\<lambda>(_, r). dml_target r \<noteq> None) (enumerate first (log_of segs)) = [(q, Purge p)]"
    and "liveness_at (ddl_timeline (enumerate first (log_of segs))) q (pu_table p) = (True, epoch)"
    and "pu_schema_epoch p = 0 \<or> pu_schema_epoch p = epoch"
    and "pu_purge_id p \<noteq> []" "bm_get (purged (w_catalog w)) (pu_purge_id p) = None" "stamps_past (w_catalog w)"
  shows "\<exists>w'. replay_wal_dml cx wcx rdeser crc d w = (Inr (no_dml\<lparr>rd_applied := 1, rd_purged := 1\<rparr>), w') \<and>
    list_visible_files (pu_table p) (snapshot_version (w_catalog w')) filt (w_catalog w') = []"
proof -
  let ?rs = "enumerate first (log_of segs)" and ?tl = "ddl_timeline (enumerate first (log_of segs))"
  obtain pre post where rs: "?rs = pre @ (q, Purge p) # post" "filter (\<lambda>(_, r). dml_target r \<noteq> None) pre = []"
    "filter (\<lambda>(_, r). dml_target r \<noteq> None) post = []" using assms(3) by (rule filter_single_split)
  let ?call = "purge_table_files (pu_table p) (pu_purge_id p)"
  obtain now w1 where w1: "catalog_call cx ?call w = (fst (?call now (w_catalog w)), w1)"
    "w_catalog w1 = snd (?call now (w_catalog w))" using assms(1) by (rule undisturbed_call)
  have off: "(\<exists>out. fst (?call now (w_catalog w)) = Inr out) \<and>
      list_visible_files (pu_table p) (snapshot_version (w_catalog w1)) filt (w_catalog w1) = []"
    unfolding w1(2) by (rule purge_table_offline [OF _ assms(6-8)]) simp
  have "replay_wal_dml cx wcx rdeser crc d w = replay_dml_loop cx rdeser crc ?tl ?rs no_dml w"
    by (simp add: replay_wal_dml_def scan_from_log [OF assms(2)] io_lift_def io_bind_def)
  also have "\<dots> = replay_dml_loop cx rdeser crc ?tl ((q, Purge p) # post) no_dml w"
    by (subst (2) rs(1)) (simp add: dml_loop_append dml_loop_skips [OF rs(2)] io_bind_def io_return_def)
  also have "\<dots> = (Inr (no_dml\<lparr>rd_applied := 1, rd_purged := 1\<rparr>), w1)"
    using assms(4,5) off w1(1) by (auto simp: io_bind_def io_return_def no_dml_def dml_loop_skips [OF rs(3)])
  finally have "replay_wal_dml cx wcx rdeser crc d w = (Inr (no_dml\<lparr>rd_applied := 1, rd_purged := 1\<rparr>), w1)" .
  with off show ?thesis by blast
qed

end
