(* ===== verification/Codec_Demo.thy ===== *)
theory Codec_Demo
  imports Meta_Op
begin

text \<open>A concrete encoding of schemas that can be read back, for the witnesses of theorems that assume one: numbers in
  unary, strings with their length, a field as name, type and flag.\<close>

definition enc_nat :: "nat \<Rightarrow> bytes" where
  "enc_nat n = replicate n 1 @ [0]"

fun dec_nat :: "bytes \<Rightarrow> (nat \<times> bytes) option" where
  "dec_nat [] = None"
| "dec_nat (b # bs) = (if b = 0 then Some (0, bs) else map_option (\<lambda>(n, r). (Suc n, r)) (dec_nat bs))"

definition enc_string :: "string \<Rightarrow> bytes" where
  "enc_string s = enc_nat (length s) @ map (\<lambda>c. of_nat (of_char c)) s"

definition dec_string :: "bytes \<Rightarrow> (string \<times> bytes) option" where
  "dec_string bs =
     (case dec_nat bs of
        None \<Rightarrow> None
      | Some (n, r) \<Rightarrow> Some (map (\<lambda>b. char_of (unat b)) (take n r), drop n r))"

fun type_code :: "data_type \<Rightarrow> nat \<times> nat" where
  "type_code Int8 = (0, 0)" | "type_code Int16 = (1, 0)" | "type_code Int32 = (2, 0)" | "type_code Int64 = (3, 0)"
| "type_code UInt8 = (4, 0)" | "type_code UInt16 = (5, 0)" | "type_code UInt32 = (6, 0)" | "type_code UInt64 = (7, 0)"
| "type_code Float32 = (8, 0)" | "type_code Float64 = (9, 0)" | "type_code Boolean = (10, 0)"
| "type_code Date32 = (11, 0)" | "type_code Date64 = (12, 0)" | "type_code (Time32 n) = (13, n)"
| "type_code (Time64 n) = (14, n)" | "type_code (Timestamp n) = (15, n)" | "type_code Utf8 = (16, 0)"
| "type_code LargeUtf8 = (17, 0)" | "type_code Binary = (18, 0)" | "type_code LargeBinary = (19, 0)"
| "type_code (OtherType n) = (20, n)"

definition code_type :: "nat \<Rightarrow> nat \<Rightarrow> data_type" where
  "code_type k n = (if k < 20 then [Int8, Int16, Int32, Int64, UInt8, UInt16, UInt32, UInt64, Float32, Float64, Boolean,
     Date32, Date64, Time32 n, Time64 n, Timestamp n, Utf8, LargeUtf8, Binary, LargeBinary] ! k else OtherType n)"

definition enc_field :: "field \<Rightarrow> bytes" where
  "enc_field f = enc_string (f_name f) @ enc_nat (fst (type_code (f_type f))) @ enc_nat (snd (type_code (f_type f))) @
     [if f_nullable f then 1 else 0]"

definition dec_field :: "bytes \<Rightarrow> (field \<times> bytes) option" where
  "dec_field bs =
     Option.bind (dec_string bs) (\<lambda>(name, r1). Option.bind (dec_nat r1) (\<lambda>(k, r2). Option.bind (dec_nat r2) (\<lambda>(n, r3).
       case r3 of [] \<Rightarrow> None | b # r4 \<Rightarrow> Some (\<lparr>f_name = name, f_type = code_type k n, f_nullable = b = 1\<rparr>, r4))))"

fun dec_fields :: "nat \<Rightarrow> bytes \<Rightarrow> schema option" where
  "dec_fields 0 bs = Some []"
| "dec_fields (Suc k) bs =
     (case dec_field bs of None \<Rightarrow> None | Some (f, r) \<Rightarrow> map_option (Cons f) (dec_fields k r))"

definition plain_ser :: "schema \<Rightarrow> bytes" where
  "plain_ser s = enc_nat (length s) @ concat (map enc_field s)"

definition plain_deser :: "bytes \<Rightarrow> schema option" where
  "plain_deser bs = (case dec_nat bs of None \<Rightarrow> None | Some (n, r) \<Rightarrow> dec_fields n r)"

lemma dec_enc_nat [simp]: "dec_nat (enc_nat n @ r) = Some (n, r)"
  by (induction n) (simp_all add: enc_nat_def)

lemma byte_char: "char_of (unat (of_nat (of_char c) :: 8 word)) = c"
proof -
  have "of_char c < (256 :: nat)" by simp
  then have "unat (of_nat (of_char c) :: 8 word) = of_char c" by (simp add: unat_of_nat take_bit_nat_eq_self)
  then show ?thesis by simp
qed

lemma dec_enc_string [simp]: "dec_string (enc_string s @ r) = Some (s, r)"
  by (simp add: dec_string_def enc_string_def o_def byte_char)

lemma code_type_code: "code_type (fst (type_code t)) (snd (type_code t)) = t"
  by (cases t) (simp_all add: code_type_def)

lemma dec_enc_field [simp]: "dec_field (enc_field f @ r) = Some (f, r)"
  by (simp add: dec_field_def enc_field_def code_type_code)

lemma dec_enc_fields: "dec_fields (length s) (concat (map enc_field s)) = Some s"
  by (induction s) simp_all

lemma plain_codec: "plain_deser (plain_ser s) = Some s"
  by (simp add: plain_deser_def plain_ser_def dec_enc_fields)

definition plain_codecs :: codecs where
  "plain_codecs = \<lparr>cx_ser = plain_ser, cx_deser = plain_deser, cx_dbg = (\<lambda>_. []), cx_grant = (\<lambda>_. []), cx_purge = (\<lambda>_ _ _. [])\<rparr>"

lemma plain_codecs_fields [simp]: "cx_ser plain_codecs = plain_ser" "cx_deser plain_codecs = plain_deser"
  by (simp_all add: plain_codecs_def)

end
