(* ===== verification/Replay_Demo.thy ===== *)
theory Replay_Demo
  imports Ddl_Replay Dml_Replay Codec_Demo
begin

text \<open>Logs of a few records, and the theorems about their replay applied to them.\<close>

definition column_of :: "string \<Rightarrow> data_type \<Rightarrow> field" where
  "column_of n t = \<lparr>f_name = n, f_type = t, f_nullable = True\<rparr>"

definition narrow :: schema where
  "narrow = [column_of ''a'' Int32, column_of ''b'' Int32]"

definition wide :: schema where
  "wide = [column_of ''a'' Int32, column_of ''b'' Int64]"

text \<open>An encoding of these two schemas.\<close>

definition two_codecs :: codecs where
  "two_codecs = demo_codecs\<lparr>cx_ser := (\<lambda>s. if s = narrow then [1] else [2]),
     cx_deser := (\<lambda>bs. Some (if bs = [1] then narrow else wide))\<rparr>"

definition t_ddl :: "nat \<Rightarrow> ddl_payload" where
  "t_ddl op = \<lparr>dd_op = op, dd_table = ''public.t'', dd_arrow_schema = [1], dd_default_format = []\<rparr>"

definition t_delete :: delete_payload where
  "t_delete = \<lparr>dl_table = ''public.t'', dl_dv_id = ''d1'', dl_deletions = [\<lparr>fd_file_path = ''f1'', fd_batch_id = ''b1'',
     fd_bitmap = dv_to_bytes (\<lambda>_. [7]) demo_crc (dv_from_positions [7])\<rparr>], dl_schema_epoch = 0\<rparr>"

definition t_purge :: purge_payload where
  "t_purge = \<lparr>pu_table = ''public.t'', pu_purge_id = ''p1'', pu_schema_epoch = 0\<rparr>"

definition one_position :: "bytes \<Rightarrow> dv_bitmap option" where
  "one_position bs = Some (dv_from_positions (map unat bs))"

definition t_wal :: wal_codecs where
  "t_wal = demo_wal\<lparr>
     wc_ddl := (\<lambda>p. [of_nat (dd_op p)], \<lambda>bs. Inr (t_ddl (unat (hd bs)))),
     wc_delete := (\<lambda>_. [], \<lambda>_. Inr t_delete), wc_purge := (\<lambda>_. [], \<lambda>_. Inr t_purge),
     wc_committed := (\<lambda>_. [], \<lambda>_. Inr \<lparr>bc_batch_id = ''b1''\<rparr>)\<rparr>"

definition t_catalog :: catalog_state where
  "t_catalog = (snd (create_table (cx_ser two_codecs) (replay_request wide (t_ddl 0)) 5 new_state))
     \<lparr>files := bm_insert ''b1'' (demo_file ''b1'') bm_empty\<rparr>"

definition t_world :: "catalog_state \<Rightarrow> world" where
  "t_world st = \<lparr>w_catalog = st, w_store = bm_empty, w_clock = 100, w_turns = []\<rparr>"

lemma t_world_calm [simp]: "undisturbed (t_world st)" "w_catalog (t_world st) = st"
  by (simp_all add: t_world_def undisturbed_def quiet_def)

lemma t_log_holds:
  assumes "list_all (\<lambda>r. prost_roundtrip t_wal r \<and> length (encode_payload t_wal r) < 100) rs" "length rs < 100"
  shows "holds_log t_wal demo_crc 0 7 [(1, rs)] (log_dir t_wal rs)"
  by (rule log_dir_holds [OF _ assms(2)])
     (use assms(1) in \<open>auto simp: list_all_iff writable_def record_crc_def demo_crc_def\<close>)

definition drop_log :: "wal_record list" where
  "drop_log = [Ddl (t_ddl 0), Ddl (t_ddl 1), Ddl (t_ddl 0)]"

lemma drop_log_holds: "holds_log t_wal demo_crc 0 7 [(1, drop_log)] (log_dir t_wal drop_log)"
  by (rule t_log_holds) (simp_all add: drop_log_def t_wal_def t_ddl_def)

lemma t_default [simp]: "default_table ''public.t''" "normalize_table ''public.t'' = ''public.t''"
proof -
  have "validate_table_name ''t'' \<and> qualified_name DEFAULT_SCHEMA ''t'' = ''public.t''" by code_simp
  then show "default_table ''public.t''" unfolding default_table_def by metis
  show "normalize_table ''public.t'' = ''public.t''" by code_simp
qed

lemma t_ddl_fields [simp]: "dd_op (t_ddl n) = n" "dd_table (t_ddl n) = ''public.t''" "dd_arrow_schema (t_ddl n) = [1]"
  by (simp_all add: t_ddl_def)

lemma t_request: "cr_qualified_name (replay_request s (t_ddl n)) = ''public.t''"
  using default_request(1) [of "t_ddl n" s] by simp

lemma t_catalog_table:
  "bm_has (tables t_catalog) ''public.t''"
  "tm_arrow_schema (the (bm_get (tables t_catalog) ''public.t'')) = [2]"
  "bm_get (files t_catalog) ''b1'' = Some (demo_file ''b1'')" "purged t_catalog = bm_empty" "deletions t_catalog = bm_empty" "snapshot_version t_catalog = 1"
  "files t_catalog = bm_insert ''b1'' (demo_file ''b1'') bm_empty"
proof -
  have ok: "validate_table_name (cr_name (replay_request wide (t_ddl 0)))"
    "cr_schema_name (replay_request wide (t_ddl 0)) = DEFAULT_SCHEMA"
    using default_request(3,4) [of "t_ddl 0" wide] by simp_all
  have pub: "validate_schema_name DEFAULT_SCHEMA" by code_simp
  have "cr_schema (replay_request wide (t_ddl 0)) = wide" by (simp add: replay_request_def split: prod.split)
  moreover have "wide \<noteq> narrow" by code_simp
  ultimately show "bm_has (tables t_catalog) ''public.t''"
    "tm_arrow_schema (the (bm_get (tables t_catalog) ''public.t'')) = [2]"
    "bm_get (files t_catalog) ''b1'' = Some (demo_file ''b1'')" "purged t_catalog = bm_empty" "deletions t_catalog = bm_empty" "snapshot_version t_catalog = 1"
    "files t_catalog = bm_insert ''b1'' (demo_file ''b1'') bm_empty"
    using ok pub by (simp_all add: t_catalog_def create_table_def t_request Let_def schema_exists_def new_state_def bm_has_def bm_simps
        bump_defs two_codecs_def)
qed

lemma drop_log_runs:
  "replay_wal_ddl two_codecs t_wal demo_crc (log_dir t_wal drop_log) (t_world st) =
    (Inr (), snd (replay_wal_ddl two_codecs t_wal demo_crc (log_dir t_wal drop_log) (t_world st)))"
  unfolding replay_wal_ddl_def scan_from_log [OF drop_log_holds] unfolding drop_log_def
  by (simp add: replay_ddl_record_def io_lift_def io_bind_def io_attempt_def io_return_def two_codecs_def
      DDL_CREATE_TABLE_def DDL_DROP_TABLE_def)

theorem ddl_replay_wipes_live_table_witness:
  "list_visible_files ''public.t'' 1 None t_catalog = [demo_file ''b1''] \<and>
    list_visible_files ''public.t'' 1 None (w_catalog (snd
      (replay_wal_ddl two_codecs t_wal demo_crc (log_dir t_wal drop_log) (t_world t_catalog)))) = []"
proof -
  have "list_visible_files ''public.t'' 1 None t_catalog = [demo_file ''b1'']"
    by (simp add: list_visible_files_def t_catalog_table(7) bm_values_def bm_simps demo_file_def visible_at_def protects_at_def)
  moreover have "Ddl (t_ddl 1) \<in> set (log_of [(1 :: nat, drop_log)])" by (simp add: drop_log_def)
  from ddl_replay_wipes_live_table [OF t_world_calm(1) _ drop_log_holds this _ _ drop_log_runs]
  have "list_visible_files ''public.t'' 1 None (w_catalog (snd
      (replay_wal_ddl two_codecs t_wal demo_crc (log_dir t_wal drop_log) (t_world t_catalog)))) = []"
    by (simp add: DDL_DROP_TABLE_def t_catalog_table(1))
  ultimately show ?thesis ..
qed

definition alter_log :: "wal_record list" where
  "alter_log = [Ddl (t_ddl 0), Ddl (t_ddl 4)]"

lemma alter_log_holds: "holds_log t_wal demo_crc 0 7 [(1, alter_log)] (log_dir t_wal alter_log)"
  by (rule t_log_holds) (simp_all add: alter_log_def t_wal_def t_ddl_def)

lemma two_codecs_deser: "cx_deser two_codecs [1] = Some narrow" "cx_deser two_codecs [2] = Some wide"
  by (simp_all add: two_codecs_def)



definition delete_log :: "wal_record list" where
  "delete_log = [Delete t_delete]"

lemma delete_log_holds: "holds_log t_wal demo_crc 0 7 [(1, delete_log)] (log_dir t_wal delete_log)"
  by (rule t_log_holds) (simp_all add: delete_log_def t_wal_def)

text \<open>The file of the deletion was replaced at snapshot 3.\<close>

theorem merged_delete_blocks_start_witness:
  "\<exists>e w'. replay_wal_dml two_codecs t_wal one_position demo_crc (log_dir t_wal delete_log)
    (t_world (t_catalog\<lparr>files := bm_insert ''b1'' ((demo_file ''b1'')\<lparr>fm_deleted_at := 3\<rparr>) bm_empty\<rparr>)) = (Inl e, w')"
proof -
  let ?fd = "hd (dl_deletions t_delete)"
  have bits: "decode_bitmap one_position demo_crc ?fd = Inr (dv_from_positions [7])"
  proof -
    have "dv_from_bytes one_position demo_crc (fd_bitmap ?fd) = Inr (dv_from_positions [7])"
      by (subst dv_from_bytes_frame)
         (auto simp: demo_crc_def t_delete_def dv_to_bytes_def dv_frame_def one_position_def Let_def intro!: exI [of _ "[7]"])
    then show ?thesis by (simp add: decode_bitmap_def)
  qed
  have some: "\<not> dv_is_empty (dv_from_positions [7])" by code_simp
  show ?thesis
    by (rule merged_delete_blocks_start [OF t_world_calm(1) delete_log_holds, where q = 7 and p = t_delete and fd = ?fd and
          m = "(demo_file ''b1'')\<lparr>fm_deleted_at := 3\<rparr>" and epoch = 0, OF _ _ _ _ bits some])
       (simp_all add: delete_log_def t_delete_def liveness_at_def bm_simps)
qed

definition purge_log :: "wal_record list" where
  "purge_log = [Purge t_purge, BatchCommitted \<lparr>bc_batch_id = ''b1''\<rparr>]"

lemma purge_log_holds: "holds_log t_wal demo_crc 0 7 [(1, purge_log)] (log_dir t_wal purge_log)"
  by (rule t_log_holds) (simp_all add: purge_log_def t_wal_def)

text \<open>The batch was committed after the purge.\<close>

theorem replayed_purge_takes_later_rows_witness:
  "\<exists>w'. replay_wal_dml two_codecs t_wal one_position demo_crc (log_dir t_wal purge_log) (t_world t_catalog) =
      (Inr (no_dml\<lparr>rd_applied := 1, rd_purged := 1\<rparr>), w') \<and>
    list_visible_files ''public.t'' (snapshot_version (w_catalog w')) None (w_catalog w') = []"
proof -
  have "stamps_past t_catalog"
    by (auto simp: stamps_past_def t_catalog_table demo_file_def intro!: all_entries_insert)
  then show ?thesis
    using replayed_purge_takes_later_rows [OF _ purge_log_holds, where q = 7 and p = t_purge and epoch = 0 and
        w = "t_world t_catalog" and cx = two_codecs and rdeser = one_position and filt = None]
    by (simp add: purge_log_def t_purge_def liveness_at_def t_catalog_table(4) bm_simps)
qed

text \<open>Two columns differ: one is added and one is widened.\<close>

definition plain_catalog :: catalog_state where
  "plain_catalog = new_state\<lparr>tables := bm_insert ''public.t'' \<lparr>tm_name = ''t'', tm_current_schema_version = 1,
     tm_partition_cols = [], tm_default_format = [], tm_ingest_config = None, tm_created_at = 0,
     tm_arrow_schema = plain_ser [column_of ''b'' Int32], tm_table_template = 1, tm_namespace = ''public''\<rparr> bm_empty\<rparr>"

theorem converge_schema_terminates_witness:
  "\<exists>w' s'. converge_schema plain_codecs ''public.t'' wide (t_world plain_catalog) = (Inr 2, w') \<and>
    table_schema plain_deser ''public.t'' (w_catalog w') = Inr (Some (s', 3)) \<and> schema_distance s' wide = 0"
proof -
  have "schema_distance [column_of ''b'' Int32] wide = 2" by code_simp
  moreover have "reachable_types [column_of ''b'' Int32] wide"
    by (simp add: reachable_types_def wide_def field_with_name_def column_of_def try_widen_def promotion_rank_def)
  moreover have "distinct_columns wide" "distinct_columns [column_of ''b'' Int32]" by code_simp+
  moreover have "table_schema plain_deser ''public.t'' plain_catalog = Inr (Some ([column_of ''b'' Int32], 1))"
    by (simp add: table_schema_def plain_catalog_def bm_simps plain_codec)
  ultimately show ?thesis
    using converge_schema_terminates [of plain_codecs wide "t_world plain_catalog" "''public.t''" "[column_of ''b'' Int32]" 1]
    by (auto simp: plain_codec numeral_3_eq_3)
qed

end
