(* ===== verification/Schema_Resolve.thy ===== *)
theory Schema_Resolve
  imports Schema_Converge
begin

text \<open>
  The schema version of a batch (\<open>crates/ingest/src/schema_cache.rs\<close>). An ingestor keeps the schema and the partition
  columns of every table it has seen; \<open>resolve_schema_version\<close> compares the schema of a batch with the cached one and
  evolves the table when a column is missing. The caches extend the world; the waits between attempts only let the
  world take its turns.
\<close>

record cached_schema =
  ca_schema :: schema
  ca_version :: nat

record ingest_caches = world +
  ig_schemas :: "(string, cached_schema) bmap"
  ig_parts :: "(string, string list) bmap"

definition cache_update :: "string \<Rightarrow> schema \<Rightarrow> nat \<Rightarrow> 'x ingest_caches_scheme \<Rightarrow> 'x ingest_caches_scheme" where
  "cache_update table s v w = w\<lparr>ig_schemas := bm_insert table \<lparr>ca_schema = s, ca_version = v\<rparr> (ig_schemas w)\<rparr>"

definition cache_get ::
  "codecs \<Rightarrow> string \<Rightarrow> 'x ingest_caches_scheme \<Rightarrow> (lake_error + cached_schema) \<times> 'x ingest_caches_scheme" where
  "cache_get cx table w =
     (case bm_get (ig_schemas w) table of
        Some c \<Rightarrow> (Inr c, w)
      | None \<Rightarrow>
          io_bind (catalog_call cx (\<lambda>_ st. (table_schema (cx_deser cx) table st, st))) (\<lambda>found.
            case found of
              None \<Rightarrow> io_fail (TableNotFound table)
            | Some (s, v) \<Rightarrow> (\<lambda>w1. (Inr \<lparr>ca_schema = s, ca_version = v\<rparr>, cache_update table s v w1))) w)"

text \<open>A failed call counts as a table without partition columns, and the answer is kept.\<close>

definition partition_cache_get ::
  "codecs \<Rightarrow> string \<Rightarrow> 'x ingest_caches_scheme \<Rightarrow> string list \<times> 'x ingest_caches_scheme" where
  "partition_cache_get cx table w =
     (case bm_get (ig_parts w) table of
        Some cols \<Rightarrow> (cols, w)
      | None \<Rightarrow>
          (case catalog_query cx (get_table table) w of
             (r, w1) \<Rightarrow>
               let cols = (case r of Inr (Some m) \<Rightarrow> tm_partition_cols m | _ \<Rightarrow> []) in
               (cols, w1\<lparr>ig_parts := bm_insert table cols (ig_parts w1)\<rparr>)))"

fun resolve_loop ::
  "codecs \<Rightarrow> string \<Rightarrow> schema \<Rightarrow> nat \<Rightarrow> 'x ingest_caches_scheme \<Rightarrow> (lake_error + nat) \<times> 'x ingest_caches_scheme" where
  "resolve_loop cx table incoming 0 = io_fail (Other ''schema evolve retries exhausted'')"
| "resolve_loop cx table incoming (Suc n) =
     io_bind (cache_get cx table) (\<lambda>cached.
       case classify (ca_schema cached) incoming of
         Compatible \<Rightarrow> io_return (ca_version cached)
       | Incompatible reason \<Rightarrow> io_fail (SchemaIncompatible reason)
       | NeedsEvolve change \<Rightarrow>
           (\<lambda>w. case catalog_call cx (\<lambda>now st. evolve_schema (cx_ser cx) (cx_deser cx) (cx_dbg cx)
                  \<lparr>ev_table = table, ev_change = change, ev_expected_version = ca_version cached\<rparr> (now div 1000) st) w of
              (Inr resp, w1) \<Rightarrow> (Inr (er_version resp), cache_update table (er_new_schema resp) (er_version resp) w1)
            | (Inl e, w1) \<Rightarrow>
                (case schema_conflict e of
                   Some (actual, new_schema) \<Rightarrow> resolve_loop cx table incoming n (cache_update table new_schema actual w1)
                 | None \<Rightarrow> (Inl e, w1))))"

definition MAX_RETRIES :: nat where
  "MAX_RETRIES = 32"

definition resolve_schema_version ::
  "codecs \<Rightarrow> string \<Rightarrow> schema \<Rightarrow> 'x ingest_caches_scheme \<Rightarrow> (lake_error + nat) \<times> 'x ingest_caches_scheme" where
  "resolve_schema_version cx table incoming = resolve_loop cx table incoming (MAX_RETRIES + 1)"

subsection \<open>Lemmas\<close>

lemma cache_update_fields [simp]:
  "w_catalog (cache_update t s v w) = w_catalog w" "undisturbed (cache_update t s v w) = undisturbed w"
  "bm_get (ig_schemas (cache_update t s v w)) t = Some \<lparr>ca_schema = s, ca_version = v\<rparr>"
  by (simp_all add: cache_update_def undisturbed_def quiet_def bm_simps)

lemma next_turn_caches: "next_turn cx w = (r, w1) \<Longrightarrow> ig_schemas w1 = ig_schemas w"
  by (auto simp: next_turn_def split: list.splits)

lemma catalog_call_caches: "ig_schemas (snd (catalog_call cx f w)) = ig_schemas w"
  by (auto simp: catalog_call_def remote_def Let_def split: prod.split reply.split dest: next_turn_caches)

text \<open>Nothing is cached for the table, or what the catalog says.\<close>

definition cache_fresh :: "codecs \<Rightarrow> string \<Rightarrow> schema \<Rightarrow> nat \<Rightarrow> 'x ingest_caches_scheme \<Rightarrow> bool" where
  "cache_fresh cx table s v w \<longleftrightarrow> undisturbed w \<and> table_schema (cx_deser cx) table (w_catalog w) = Inr (Some (s, v)) \<and>
     (bm_get (ig_schemas w) table = None \<or> bm_get (ig_schemas w) table = Some \<lparr>ca_schema = s, ca_version = v\<rparr>)"

lemma cache_get_fresh:
  assumes "cache_fresh cx table s v w"
  obtains w1 where "cache_get cx table w = (Inr \<lparr>ca_schema = s, ca_version = v\<rparr>, w1)" "undisturbed w1"
    "w_catalog w1 = w_catalog w" "bm_get (ig_schemas w1) table = Some \<lparr>ca_schema = s, ca_version = v\<rparr>"
proof (cases "bm_get (ig_schemas w) table")
  case (Some c)
  with assms show thesis by (intro that [of w]) (auto simp: cache_get_def cache_fresh_def)
next
  case None
  let ?read = "\<lambda>_ :: nat. \<lambda>st. (table_schema (cx_deser cx) table st, st)"
  have "undisturbed w" using assms by (simp add: cache_fresh_def)
  then obtain now w1 where w1: "catalog_call cx ?read w = (fst (?read now (w_catalog w)), w1)" "undisturbed w1"
    "w_catalog w1 = snd (?read now (w_catalog w))" by (rule undisturbed_call)
  then have "catalog_call cx ?read w = (Inr (Some (s, v)), w1)" "w_catalog w1 = w_catalog w"
    using assms by (simp_all add: cache_fresh_def)
  with w1(2) None show thesis
    by (intro that [of "cache_update table s v w1"]) (simp_all add: cache_get_def io_bind_def)
qed

lemma resolve_cached:
  "bm_get (ig_schemas w) table = Some c \<Longrightarrow> classify (ca_schema c) incoming = Compatible \<Longrightarrow>
    resolve_schema_version cx table incoming w = (Inr (ca_version c), w)"
  by (simp add: resolve_schema_version_def io_bind_def cache_get_def io_return_def)

lemma no_differs: "length (filter (differs s) incoming) = 0 \<longleftrightarrow> classify s incoming = Compatible"
  by (simp add: classify_Compatible filter_empty_conv)

lemma resolve_step:
  assumes "\<And>s. cx_deser cx (cx_ser cx s) = Some s" "distinct_columns incoming" "cache_fresh cx table s v w"
    and "reachable_types s incoming" "d = length (filter (differs s) incoming)"
  shows "\<exists>w' s'. resolve_schema_version cx table incoming w = (Inr (v + min 1 d), w') \<and>
    table_schema (cx_deser cx) table (w_catalog w') = Inr (Some (s', v + min 1 d)) \<and>
    bm_get (ig_schemas w') table = Some \<lparr>ca_schema = s', ca_version = v + min 1 d\<rparr> \<and>
    length (filter (differs s') incoming) = d - 1 \<and>
    (classify s' incoming = Compatible \<longleftrightarrow> d \<le> 1)"
proof -
  obtain w1 where w1: "cache_get cx table w = (Inr \<lparr>ca_schema = s, ca_version = v\<rparr>, w1)" "undisturbed w1"
    "w_catalog w1 = w_catalog w" "bm_get (ig_schemas w1) table = Some \<lparr>ca_schema = s, ca_version = v\<rparr>"
    using assms(3) by (rule cache_get_fresh)
  have schema: "table_schema (cx_deser cx) table (w_catalog w) = Inr (Some (s, v))"
    using assms(3) by (simp add: cache_fresh_def)
  show ?thesis
  proof (cases "classify s incoming")
    case Compatible
    then have "d = 0" using no_differs assms(5) by simp
    moreover note w1(4)
    moreover have "table_schema (cx_deser cx) table (w_catalog w1) = Inr (Some (s, v))" using w1(3) schema by simp
    moreover have "resolve_schema_version cx table incoming w = (Inr v, w1)"
      using Compatible w1(1) by (simp add: resolve_schema_version_def io_bind_def io_return_def)
    ultimately show ?thesis using Compatible assms(5) by (intro exI [of _ w1] exI [of _ s]) simp
  next
    case (Incompatible r)
    then show ?thesis using classify_Incompatible assms(4) by blast
  next
    case (NeedsEvolve c)
    from classify_first [OF this] obtain pre f post where f: "incoming = pre @ f # post" "differs s f"
      "asks_add s c f \<or> asks_widen s c f" by blast
    then have mem: "f \<in> set incoming" by simp
    obtain s' where s': "apply_change s c = Inr s'" by (rule apply_asked [OF f(3)])
    have fewer: "Suc (length (filter (differs s') incoming)) = d"
      using apply_asked_closer(3) [OF f(3,2) mem assms(2) s'] assms(5) by simp
    let ?evolve = "\<lambda>now st. evolve_schema (cx_ser cx) (cx_deser cx) (cx_dbg cx)
        \<lparr>ev_table = table, ev_change = c, ev_expected_version = v\<rparr> (now div 1000) st"
    obtain now w2 where w2: "catalog_call cx ?evolve w1 = (fst (?evolve now (w_catalog w1)), w2)" "undisturbed w2"
      "w_catalog w2 = snd (?evolve now (w_catalog w1))" using w1(2) by (rule undisturbed_call)
    obtain st' where st': "?evolve now (w_catalog w) = (Inr \<lparr>er_new_schema = s', er_version = v + 1\<rparr>, st')"
      "table_schema (cx_deser cx) table st' = Inr (Some (s', v + 1))"
      using schema s' assms(1) by (rule evolve_schema_step)
    let ?w = "cache_update table s' (v + 1) w2"
    have cat: "w_catalog w2 = st'" using w2(3) st'(1) w1(3) by simp
    have "resolve_schema_version cx table incoming w = (Inr (v + 1), ?w)"
      using NeedsEvolve w1(1,3) w2(1) st'(1) by (simp add: resolve_schema_version_def io_bind_def)
    moreover have "table_schema (cx_deser cx) table (w_catalog ?w) = Inr (Some (s', v + 1))" using st'(2) by (simp add: cat)
    moreover have "classify s' incoming = Compatible \<longleftrightarrow> d \<le> 1" using no_differs [of s' incoming] fewer by auto
    ultimately show ?thesis using fewer by (intro exI [of _ ?w] exI [of _ s']) (auto simp: min_def)
  qed
qed

text \<open>C39: The resolution settles one column of a batch and no more. With a fresh cache and an answering catalog it
  succeeds, it raises the version by one when some column of the batch is missing or narrower in the table, and
  exactly one such column fewer is left; so a batch with one new column gets a version whose schema covers it, but a
  batch with two or more is accepted under a version whose schema does not.\<close>

theorem resolve_settles_one_column:
  assumes "\<And>s. cx_deser cx (cx_ser cx s) = Some s" "distinct_columns incoming" "cache_fresh cx table s v w"
    and "reachable_types s incoming" "d = length (filter (differs s) incoming)"
  shows "\<exists>w' s'. resolve_schema_version cx table incoming w = (Inr (v + min 1 d), w') \<and>
    table_schema (cx_deser cx) table (w_catalog w') = Inr (Some (s', v + min 1 d)) \<and>
    bm_get (ig_schemas w') table = Some \<lparr>ca_schema = s', ca_version = v + min 1 d\<rparr> \<and>
    length (filter (differs s') incoming) = d - 1 \<and>
    (classify s' incoming = Compatible \<longleftrightarrow> d \<le> 1)"
  by (rule resolve_step [OF assms])

text \<open>A resolved schema is never looked up again. Once a batch of a table has been resolved and its schema is
  covered, every further batch of that schema is accepted under the same version without a call, whatever has become
  of the table: also when it has been dropped and created again with other columns.\<close>

theorem resolved_schema_never_refreshed:
  assumes "\<And>s. cx_deser cx (cx_ser cx s) = Some s" "distinct_columns incoming" "cache_fresh cx table s v w"
    and "reachable_types s incoming" "length (filter (differs s) incoming) \<le> 1"
    and "resolve_schema_version cx table incoming w = (Inr u, w')"
  shows "resolve_schema_version cx table incoming (w'\<lparr>w_catalog := sm_run cx (w_catalog w') ops, w_turns := ts\<rparr>) =
    (Inr u, w'\<lparr>w_catalog := sm_run cx (w_catalog w') ops, w_turns := ts\<rparr>)"
proof -
  from resolve_step [OF assms(1-4) refl] assms(5,6) obtain s' where
    s': "bm_get (ig_schemas w') table = Some \<lparr>ca_schema = s', ca_version = u\<rparr>" "classify s' incoming = Compatible" by auto
  show ?thesis by (rule resolve_cached [of _ _ "\<lparr>ca_schema = s', ca_version = u\<rparr>", simplified]) (use s' in simp_all)
qed

text \<open>The answer for an unreachable catalog is kept as well.\<close>

lemma partition_cache_keeps_failure:
  assumes "bm_get (ig_parts w) table = None" "w_turns w = t # ts" "tn_reply t = Unreachable"
    and "partition_cache_get cx table w = (cols, w')"
  shows "cols = [] \<and> partition_cache_get cx table (w'\<lparr>w_catalog := st, w_turns := ts'\<rparr>) = ([], w'\<lparr>w_catalog := st, w_turns := ts'\<rparr>)"
proof -
  have "cols = []" "bm_get (ig_parts w') table = Some []"
    using assms by (auto simp: partition_cache_get_def catalog_query_def remote_def next_turn_def bm_simps)
  then show ?thesis by (simp add: partition_cache_get_def)
qed

end
