(* ===== verification/Ingest_Flush.thy ===== *)
theory Ingest_Flush
  imports Schema_Resolve Batch_Files Chunk_Store Wal_Writer Index_File
begin

text \<open>
  The flush of a chunk (\<open>crates/ingest/src/flush.rs\<close>, \<open>align_batch\<close> of \<open>crates/model/src/arrow_util.rs\<close>): announce the
  batch in the log and in the catalog, write the data file and its index, note the file in the log, commit to the
  catalog under the idempotency keys of the batch, note the commit in the log. The ingestor extends the world by its
  log writer, the commit rounds of the log to come and its batch tracker.

  Arrow's batches are values of type \<open>'b\<close> and its arrays of type \<open>'a\<close>; \<open>array_tools\<close> holds the operations that
  \<open>align_batch\<close> calls. The fresh identifier of a batch is an argument.
\<close>

subsection \<open>Aligning batches to a schema\<close>

record ('a, 'b) array_tools =
  at_schema :: "'b \<Rightarrow> schema"
  at_num_rows :: "'b \<Rightarrow> nat"
  at_column :: "'b \<Rightarrow> nat \<Rightarrow> 'a"
  at_cast :: "'a \<Rightarrow> data_type \<Rightarrow> 'a option"
  at_null :: "data_type \<Rightarrow> nat \<Rightarrow> 'a"
  at_new :: "schema \<Rightarrow> 'a list \<Rightarrow> 'b option"
  at_concat :: "schema \<Rightarrow> 'b list \<Rightarrow> 'b option"

definition align_column :: "('a, 'b) array_tools \<Rightarrow> 'b \<Rightarrow> field \<Rightarrow> lake_error + 'a" where
  "align_column ao batch f =
     (case position (\<lambda>bf. f_name bf = f_name f) (at_schema ao batch) of
        Some idx \<Rightarrow>
          if f_type (at_schema ao batch ! idx) = f_type f then Inr (at_column ao batch idx)
          else (case at_cast ao (at_column ao batch idx) (f_type f) of
                  None \<Rightarrow> Inl (Other ''cast'')
                | Some a \<Rightarrow> Inr a)
      | None \<Rightarrow> Inr (at_null ao (f_type f) (at_num_rows ao batch)))"

fun align_columns :: "('a, 'b) array_tools \<Rightarrow> 'b \<Rightarrow> schema \<Rightarrow> lake_error + 'a list" where
  "align_columns ao batch [] = Inr []"
| "align_columns ao batch (f # fs) =
     and_then (align_column ao batch f) (\<lambda>a. and_then (align_columns ao batch fs) (\<lambda>cols. Inr (a # cols)))"

definition align_batch :: "('a, 'b) array_tools \<Rightarrow> 'b \<Rightarrow> schema \<Rightarrow> lake_error + 'b" where
  "align_batch ao batch target =
     and_then (align_columns ao batch target) (\<lambda>cols.
       case at_new ao target cols of None \<Rightarrow> Inl (Other ''align'') | Some b \<Rightarrow> Inr b)"

fun align_all :: "('a, 'b) array_tools \<Rightarrow> 'b list \<Rightarrow> schema \<Rightarrow> lake_error + 'b list" where
  "align_all ao [] target = Inr []"
| "align_all ao (b # bs) target =
     and_then (align_batch ao b target) (\<lambda>x. and_then (align_all ao bs target) (\<lambda>xs. Inr (x # xs)))"

definition merge_chunk :: "('a, 'b) array_tools \<Rightarrow> 'b list \<Rightarrow> schema \<Rightarrow> lake_error + 'b" where
  "merge_chunk ao batches s =
     (if batches = [] then Inl (Other ''empty chunk'')
      else and_then (align_all ao batches s) (\<lambda>aligned.
        case at_concat ao s aligned of None \<Rightarrow> Inl (Other ''concat'') | Some b \<Rightarrow> Inr b))"

subsection \<open>The ingestor\<close>

text \<open>What happens in the next append of the log: rounds of other requests come first, and other records share the round.\<close>

record wal_round =
  wr_earlier :: "(commit_io \<times> wal_record list) list"
  wr_shared :: "wal_record list"
  wr_io :: commit_io

record ingestor = ingest_caches +
  in_wal :: wal_writer
  in_rounds :: "wal_round list"
  in_tracker :: batch_state_map

record ('a, 'b) flush_env =
  fe_tools :: "'b tools"
  fe_arrays :: "('a, 'b) array_tools"
  fe_view :: "'b \<Rightarrow> batch_view"
  fe_wal_codecs :: wal_codecs
  fe_wal_config :: wal_config
  fe_index_build :: "64 word list \<Rightarrow> xor8"
  fe_index_ser :: "index_file \<Rightarrow> bytes"
  fe_format :: data_format
  fe_instance :: string

abbreviation fe_codecs :: "('a, 'b) flush_env \<Rightarrow> codecs" where
  "fe_codecs env \<equiv> to_codecs (fe_tools env)"

definition commit_round ::
  "('a, 'b) flush_env \<Rightarrow> commit_io \<Rightarrow> wal_record list \<Rightarrow> wal_writer \<Rightarrow> (lake_error + wal_ack) list \<times> wal_writer" where
  "commit_round env io rs w = commit_group (fe_wal_codecs env) (to_crc (fe_tools env)) (fe_wal_config env) io rs w"

text \<open>\<open>WalWriter::append\<close>: one request of a round. With no round given the log is the ingestor's alone and the device works.\<close>

definition append_to_log ::
  "('a, 'b) flush_env \<Rightarrow> wal_record \<Rightarrow> 'x ingestor_scheme \<Rightarrow> (lake_error + wal_ack) \<times> 'x ingestor_scheme" where
  "append_to_log env rec w =
     (let (r, rest) = (case in_rounds w of
            [] \<Rightarrow> (\<lparr>wr_earlier = [], wr_shared = [], wr_io = \<lparr>io_now = w_clock w, io_rotate_sync_ok = True,
                     io_budget = None, io_sync_ok = True\<rparr>\<rparr>, [])
          | r # rs \<Rightarrow> (r, rs));
          before = fold (\<lambda>(io, rs) wal. snd (commit_round env io rs wal)) (wr_earlier r) (in_wal w);
          (replies, wal) = commit_round env (wr_io r) (wr_shared r @ [rec]) before
      in (last replies, w\<lparr>in_wal := wal, in_rounds := rest\<rparr>))"

definition observe :: "wal_record \<Rightarrow> 'x ingestor_scheme \<Rightarrow> 'x ingestor_scheme" where
  "observe rec w = w\<lparr>in_tracker := apply_record rec 0 (in_tracker w)\<rparr>"

definition log_record ::
  "('a, 'b) flush_env \<Rightarrow> wal_record \<Rightarrow> 'x ingestor_scheme \<Rightarrow> (lake_error + unit) \<times> 'x ingestor_scheme" where
  "log_record env rec = io_bind (append_to_log env rec) (\<lambda>_ w. (Inr (), observe rec w))"

definition local_clock :: "'x world_scheme \<Rightarrow> ('e + nat) \<times> 'x world_scheme" where
  "local_clock w = (Inr (w_clock w), w)"

subsection \<open>The idempotency keys of a range of the log\<close>

definition data_key :: "wal_record \<Rightarrow> string option" where
  "data_key r = (case r of Data p \<Rightarrow> opt_nonempty (dp_client_request_id p) | _ \<Rightarrow> None)"

definition range_keys :: "(nat \<times> wal_record) list \<Rightarrow> string list" where
  "range_keys rs = bm_keys (bset_of (List.map_filter (\<lambda>(_, r). data_key r) rs))"

definition collect_idempotency_keys ::
  "('a, 'b) flush_env \<Rightarrow> nat \<times> nat \<Rightarrow> 'x ingestor_scheme \<Rightarrow> (lake_error + string list) \<times> 'x ingestor_scheme" where
  "collect_idempotency_keys env seqs w =
     io_bind (io_lift (scan_range (fe_wal_codecs env) (to_crc (fe_tools env)) (fst seqs) (snd seqs) (ww_dir (in_wal w))))
       (\<lambda>rs. io_return (range_keys rs)) w"

subsection \<open>Flushing\<close>

definition write_index ::
  "('a, 'b) flush_env \<Rightarrow> string \<Rightarrow> 'b \<Rightarrow> string list \<Rightarrow> 'x world_scheme \<Rightarrow> (lake_error + string \<times> nat) \<times> 'x world_scheme" where
  "write_index env data_path batch columns =
     (if columns = [] then io_return ([], 0)
      else
        let path = index_path data_path;
            bs = index_to_bytes (fe_index_ser env) (to_crc (fe_tools env))
              (index_build (fe_index_build env) (fe_view env batch) columns)
        in io_bind (put_bytes (fe_codecs env) path bs) (\<lambda>_. io_return (path, length bs)))"

text \<open>A failure of an optional step is logged and replaced by a default.\<close>

definition io_or :: "'a \<Rightarrow> ('w \<Rightarrow> (lake_error + 'a) \<times> 'w) \<Rightarrow> 'w \<Rightarrow> (lake_error + 'a) \<times> 'w" where
  "io_or dflt m w = (case m w of (Inl _, w1) \<Rightarrow> (Inr dflt, w1) | (Inr x, w1) \<Rightarrow> (Inr x, w1))"

definition declared_columns ::
  "codecs \<Rightarrow> string \<Rightarrow> 'x world_scheme \<Rightarrow> (lake_error + string list) \<times> 'x world_scheme" where
  "declared_columns cx table =
     io_or [] (io_bind (catalog_query cx (get_table table)) (\<lambda>m.
       io_return (case m of None \<Rightarrow> [] | Some t \<Rightarrow> tm_partition_cols t)))"

definition batch_pending :: "'b chunk_flush_input \<Rightarrow> string \<Rightarrow> nat \<Rightarrow> nat \<Rightarrow> wal_record" where
  "batch_pending input batch_id now rows = BatchPending
     \<lparr>bp_batch_id = batch_id, bp_shard = sid_shard (fi_shard input), bp_window = sid_window (fi_shard input),
      bp_wal_seq_start = fst (fi_wal_seq_range input), bp_wal_seq_end = snd (fi_wal_seq_range input),
      bp_schema_version = fi_schema_version input, bp_client_request_id = [], bp_created_at_ms = now,
      bp_row_count = rows, bp_table = sid_table (fi_shard input)\<rparr>"

definition batch_written :: "string \<Rightarrow> string \<Rightarrow> nat \<Rightarrow> wal_record" where
  "batch_written batch_id path file_len = BatchS3Written
     \<lparr>bw_batch_id = batch_id, bw_s3_paths = [path], bw_s3_upload_id = [], bw_file_size = file_len\<rparr>"

definition batch_committed :: "string \<Rightarrow> wal_record" where
  "batch_committed batch_id = BatchCommitted \<lparr>bc_batch_id = batch_id\<rparr>"

fun pressure_name :: "pressure \<Rightarrow> string" where
  "pressure_name Normal = ''Normal''" | "pressure_name Soft = ''Soft''"
| "pressure_name Hard = ''Hard''" | "pressure_name Reject = ''Reject''"

definition flush_manifest ::
  "('a, 'b) flush_env \<Rightarrow> 'b chunk_flush_input \<Rightarrow> string \<Rightarrow> string \<Rightarrow> nat \<Rightarrow> nat \<Rightarrow> column_stat_lite list \<Rightarrow> string \<times> nat \<Rightarrow>
    nat \<Rightarrow> file_manifest" where
  "flush_manifest env input batch_id path file_len rows stats index committed_at =
     \<lparr>fm_file_path = path, fm_batch_id = batch_id, fm_client_request_id = [],
      fm_schema_version = fi_schema_version input, fm_status = 0, fm_valid_from = 0, fm_deleted_at = 0,
      fm_stats = Some stats, fm_row_count = rows, fm_file_size = file_len, fm_table = sid_table (fi_shard input),
      fm_shard = sid_shard (fi_shard input), fm_time_window = sid_window (fi_shard input),
      fm_partition_key = sid_window (fi_shard input), fm_source_instance = fe_instance env,
      fm_sealed_at_ms = fi_sealed_at_ms input, fm_committed_at_ms = committed_at,
      fm_seal_reason = (case fi_seal_reason input of None \<Rightarrow> [] | Some r \<Rightarrow> seal_reason_str r),
      fm_seal_pressure = (case fi_pressure_at_seal input of None \<Rightarrow> [] | Some p \<Rightarrow> pressure_name p),
      fm_index_path = fst index, fm_index_size = snd index\<rparr>"

definition flush_request ::
  "'b chunk_flush_input \<Rightarrow> string \<Rightarrow> string list \<Rightarrow> file_manifest \<Rightarrow> nat \<Rightarrow> commit_files_request" where
  "flush_request input batch_id keys manifest rows =
     \<lparr>cf_table = sid_table (fi_shard input), cf_batch_id = batch_id, cf_client_request_id = None,
      cf_client_request_ids = keys, cf_shard = sid_shard (fi_shard input), cf_time_window = sid_window (fi_shard input),
      cf_files = [manifest], cf_schema_version = fi_schema_version input, cf_row_count = rows\<rparr>"

record flush_outcome =
  fo_batch_id :: string
  fo_file_path :: string
  fo_file_size :: nat
  fo_row_count :: nat
  fo_schema_version :: nat
  fo_snapshot :: nat
  fo_wal_seq_range :: "nat \<times> nat"

definition flush_chunk_with_id ::
  "('a, 'b) flush_env \<Rightarrow> 'b chunk_flush_input \<Rightarrow> string \<Rightarrow> 'x ingestor_scheme \<Rightarrow>
    (lake_error + flush_outcome) \<times> 'x ingestor_scheme" where
  "flush_chunk_with_id env input batch_id =
     io_bind (io_lift (merge_chunk (fe_arrays env) (fi_batches input) (fi_schema input))) (\<lambda>merged.
     let rows = at_num_rows (fe_arrays env) merged; cx = fe_codecs env in
     io_bind local_clock (\<lambda>now.
     io_bind (log_record env (batch_pending input batch_id now rows)) (\<lambda>_.
     io_bind (catalog_do cx (\<lambda>_ st. ((), record_in_flight batch_id now st))) (\<lambda>_.
     io_bind (write_batch_file (fe_tools env) (sid_table (fi_shard input)) (sid_shard (fi_shard input))
         (sid_window (fi_shard input)) batch_id merged (fe_format env)) (\<lambda>(path, file_len, _).
     io_bind (declared_columns cx (sid_table (fi_shard input))) (\<lambda>declared.
     let sort_cols = sort_columns_for (at_schema (fe_arrays env) merged) declared in
     io_bind (io_or ([], 0) (write_index env path merged sort_cols)) (\<lambda>index.
     io_bind (log_record env (batch_written batch_id path file_len)) (\<lambda>_.
     io_bind (collect_idempotency_keys env (fi_wal_seq_range input)) (\<lambda>keys.
     io_bind local_clock (\<lambda>committed_at.
     let manifest = flush_manifest env input batch_id path file_len rows
           (compute_stats_lite (fe_view env merged) sort_cols) index committed_at in
     io_bind (catalog_call cx (\<lambda>now. commit_files (flush_request input batch_id keys manifest rows) (now div 1000))) (\<lambda>resp.
     io_bind (log_record env (batch_committed batch_id)) (\<lambda>_.
     io_return \<lparr>fo_batch_id = batch_id, fo_file_path = path, fo_file_size = file_len, fo_row_count = rows,
       fo_schema_version = fi_schema_version input, fo_snapshot = cs_snapshot resp,
       fo_wal_seq_range = fi_wal_seq_range input\<rparr>))))))))))))"

text \<open>After a restart a batch whose file is written is committed again, under its old identifier and without a record.\<close>

definition recommit_manifest :: "('a, 'b) flush_env \<Rightarrow> batch_state \<Rightarrow> string \<Rightarrow> nat \<Rightarrow> string \<Rightarrow> file_manifest" where
  "recommit_manifest env st table now path =
     \<lparr>fm_file_path = path, fm_batch_id = bs_batch_id st, fm_client_request_id = [],
      fm_schema_version = bs_schema_version st, fm_status = 0, fm_valid_from = 0, fm_deleted_at = 0,
      fm_stats = None, fm_row_count = bs_row_count st,
      fm_file_size = (if length (bs_s3_paths st) = 1 then bs_file_size st else 0), fm_table = table,
      fm_shard = bs_shard st, fm_time_window = bs_time_window st, fm_partition_key = bs_time_window st,
      fm_source_instance = fe_instance env, fm_sealed_at_ms = 0, fm_committed_at_ms = now,
      fm_seal_reason = [], fm_seal_pressure = [], fm_index_path = [], fm_index_size = 0\<rparr>"

definition recommit_into_catalog ::
  "('a, 'b) flush_env \<Rightarrow> batch_state \<Rightarrow> string \<Rightarrow> 'x ingestor_scheme \<Rightarrow> (lake_error + nat) \<times> 'x ingestor_scheme" where
  "recommit_into_catalog env st table =
     io_bind local_clock (\<lambda>now.
     io_bind (io_or [] (collect_idempotency_keys env (bs_wal_seq_range st))) (\<lambda>keys.
     io_bind (catalog_call (fe_codecs env) (\<lambda>t. commit_files
         \<lparr>cf_table = table, cf_batch_id = bs_batch_id st, cf_client_request_id = bs_client_request_id st,
          cf_client_request_ids = keys, cf_shard = bs_shard st, cf_time_window = bs_time_window st,
          cf_files = map (recommit_manifest env st table now) (bs_s3_paths st),
          cf_schema_version = bs_schema_version st, cf_row_count = bs_row_count st\<rparr> (t div 1000))) (\<lambda>resp.
     io_return (cs_snapshot resp))))"

definition abort_batch ::
  "('a, 'b) flush_env \<Rightarrow> string \<Rightarrow> 'x ingestor_scheme \<Rightarrow> (lake_error + unit) \<times> 'x ingestor_scheme" where
  "abort_batch env batch_id = log_record env (BatchAbort \<lparr>ba_batch_id = batch_id\<rparr>)"

end
