(* ===== verification/Flush_Safety.thy ===== *)
theory Flush_Safety
  imports Ingest_Flush Catalog_Machine
begin

text \<open>
  What a flush does when nobody interferes, step by step, and from that: a flush whose keys are free adds exactly its
  file; two flushes whose ranges of the log interleave lose the second batch.
\<close>

subsection \<open>Calls in a world of one\<close>

definition alone :: "'x ingestor_scheme \<Rightarrow> bool" where
  "alone w \<longleftrightarrow> w_turns w = [] \<and> in_rounds w = []"

lemma alone_calls:
  assumes "w_turns w = []"
  shows "catalog_call cx f w = (fst (f (w_clock w) (w_catalog w)), w\<lparr>w_catalog := snd (f (w_clock w) (w_catalog w))\<rparr>)"
    "catalog_query cx g w = (Inr (g (w_catalog w)), w)"
    "put_bytes cx p bs w = (Inr (), w\<lparr>w_store := bm_insert p bs (w_store w)\<rparr>)"
  using assms by (simp_all add: catalog_call_def catalog_query_def put_bytes_def remote_def next_turn_def Let_def)

text \<open>The log holds \<open>log\<close>, and there is room for \<open>n\<close> extra records.\<close>

definition logs :: "('a, 'b) flush_env \<Rightarrow> nat \<Rightarrow> nat \<Rightarrow> wal_record list \<Rightarrow> 'x ingestor_scheme \<Rightarrow> bool" where
  "logs env first n rs w \<longleftrightarrow> alone w \<and> (\<exists>segs. writer_inv (fe_wal_codecs env) (to_crc (fe_tools env)) first segs (in_wal w) \<and>
     log_of segs = rs \<and> cg_seg_seq (ww_guard (in_wal w)) + n < u64_max \<and> first + length rs + n < 2 ^ 64)"

lemma logs_alone: "logs env first n rs w \<Longrightarrow> w_turns w = []"
  by (simp add: logs_def alone_def)

lemma logs_update [simp]:
  "logs env first n rs (w\<lparr>w_catalog := st\<rparr>) = logs env first n rs w"
  "logs env first n rs (w\<lparr>w_store := s\<rparr>) = logs env first n rs w"
  by (simp_all add: logs_def alone_def)

abbreviation env_writable :: "('a, 'b) flush_env \<Rightarrow> wal_record \<Rightarrow> bool" where
  "env_writable env \<equiv> writable (fe_wal_codecs env) (to_crc (fe_tools env))"

lemma append_alone:
  assumes "logs env first (Suc n) rs w" "env_writable env rec"
  obtains x ack where "append_to_log env rec w = (Inr ack, w\<lparr>in_wal := x\<rparr>)" "ak_seq ack = first + length rs"
    "logs env first n (rs @ [rec]) (w\<lparr>in_wal := x\<rparr>)" "ww_synced_seq x = first + length rs"
proof -
  let ?cx = "fe_wal_codecs env" and ?crc = "to_crc (fe_tools env)"
  let ?io = "\<lparr>io_now = w_clock w, io_rotate_sync_ok = True, io_budget = None, io_sync_ok = True\<rparr>"
  obtain segs where segs: "alone w" "writer_inv ?cx ?crc first segs (in_wal w)" "log_of segs = rs"
    "cg_seg_seq (ww_guard (in_wal w)) + Suc n < u64_max" "first + length rs + Suc n < 2 ^ 64"
    using assms(1) by (auto simp: logs_def)
  have room: "cg_seg_seq (ww_guard (in_wal w)) < u64_max" "first + length (log_of segs) + length [rec] < 2 ^ 64"
    using segs by simp_all
  obtain replies x where commit: "commit_group ?cx ?crc (fe_wal_config env) ?io [rec] (in_wal w) = (replies, x)" by fastforce
  have core: "(\<exists>segs'. writer_inv ?cx ?crc first segs' x \<and> log_of segs' = log_of segs @ [rec]) \<and>
      replies = map (\<lambda>i. Inr \<lparr>ak_seq = first + length (log_of segs) + i, ak_synced_seq = ww_synced_seq x\<rparr>) [0..<length [rec]] \<and>
      Suc (ww_synced_seq x) = first + length (log_of segs) + length [rec]"
    by (rule group_commit_core [OF segs(2) room(1) _ _ room(2) _ _ _ commit]) (use assms(2) in simp_all)
  then obtain segs' where segs': "writer_inv ?cx ?crc first segs' x" "log_of segs' = rs @ [rec]" using segs(3) by auto
  have "cg_seg_seq (ww_guard x) \<le> Suc (cg_seg_seq (ww_guard (in_wal w)))"
    using commit_group_seg_seq [of ?cx ?crc "fe_wal_config env" ?io "[rec]" "in_wal w"] commit by simp
  then have lg: "logs env first n (rs @ [rec]) (w\<lparr>in_wal := x\<rparr>)"
    using segs segs' by (auto simp: logs_def alone_def intro!: exI [of _ segs'])
  have app: "append_to_log env rec w = (Inr \<lparr>ak_seq = first + length rs, ak_synced_seq = ww_synced_seq x\<rparr>, w\<lparr>in_wal := x\<rparr>)"
    using segs(1,3) core commit by (simp add: append_to_log_def alone_def commit_round_def)
  have sy: "ww_synced_seq x = first + length rs" using core segs(3) by simp
  show thesis by (rule that [OF app _ lg sy]) simp
qed

lemma log_record_alone:
  assumes "logs env first (Suc n) rs w" "env_writable env rec"
  obtains x where "log_record env rec w = (Inr (), w\<lparr>in_wal := x, in_tracker := apply_record rec 0 (in_tracker w)\<rparr>)"
    "logs env first n (rs @ [rec]) (w\<lparr>in_wal := x, in_tracker := apply_record rec 0 (in_tracker w)\<rparr>)"
proof -
  obtain x ack where "append_to_log env rec w = (Inr ack, w\<lparr>in_wal := x\<rparr>)" "logs env first n (rs @ [rec]) (w\<lparr>in_wal := x\<rparr>)"
    using append_alone [OF assms] by blast
  then show thesis by (intro that [of x]) (auto simp: log_record_def io_bind_def observe_def logs_def alone_def)
qed

lemma collect_keys_alone:
  assumes "logs env first n rs w"
  shows "collect_idempotency_keys env (lo, hi) w =
    (Inr (range_keys (filter (\<lambda>(s, _). lo \<le> s \<and> s < hi) (enumerate first rs))), w)"
proof -
  obtain segs where "writer_inv (fe_wal_codecs env) (to_crc (fe_tools env)) first segs (in_wal w)" "log_of segs = rs"
    using assms by (auto simp: logs_def)
  then have "scan_range (fe_wal_codecs env) (to_crc (fe_tools env)) lo hi (ww_dir (in_wal w)) =
      Inr (filter (\<lambda>(s, _). lo \<le> s \<and> s < hi) (enumerate first rs))"
    using scan_range_log by (auto simp: writer_inv_def)
  then show ?thesis by (simp add: collect_idempotency_keys_def io_bind_def io_lift_def io_return_def)
qed

definition chunk_keys :: "nat \<Rightarrow> wal_record list \<Rightarrow> nat \<times> nat \<Rightarrow> string list" where
  "chunk_keys first rs r = range_keys (filter (\<lambda>(s, _). fst r \<le> s \<and> s < snd r) (enumerate first rs))"

lemma chunk_keys_iff:
  "k \<in> set (chunk_keys first rs r) \<longleftrightarrow>
    (\<exists>q x. (q, x) \<in> set (enumerate first rs) \<and> fst r \<le> q \<and> q < snd r \<and> data_key x = Some k)"
  by (force simp: chunk_keys_def range_keys_def List.map_filter_def)

lemma chunk_keys_marker:
  "list_all (\<lambda>x. data_key x = None) extra \<Longrightarrow> chunk_keys first (rs @ extra) r = chunk_keys first rs r"
proof -
  assume none: "list_all (\<lambda>x. data_key x = None) extra"
  have "List.map_filter (\<lambda>(_, x). data_key x) (filter P (enumerate n extra)) = []" for P n
    using none by (auto simp: List.map_filter_def filter_empty_conv list_all_iff enumerate_eq_zip dest!: set_zip_rightD)
  then show ?thesis by (simp add: chunk_keys_def range_keys_def enumerate_append_eq List.map_filter_def)
qed

lemma write_index_alone:
  assumes "w_turns w = []"
  obtains i where "io_or ([], 0) (write_index env data b cols) w = (Inr i, w)"
  | i bs where "io_or ([], 0) (write_index env data b cols) w = (Inr i, w\<lparr>w_store := bm_insert (index_path data) bs (w_store w)\<rparr>)"
  using assms by (cases "cols = []") (auto simp: io_or_def write_index_def io_return_def io_bind_def alone_calls Let_def)

lemma index_elsewhere: "index_path (file_path table shard w bid fmt) \<noteq> file_path table shard w bid fmt"
  unfolding index_of_file_path unfolding file_path_dir by (cases fmt) simp_all

lemma declared_alone: "w_turns w = [] \<Longrightarrow> \<exists>cols. declared_columns cx table w = (Inr cols, w)"
  by (simp add: declared_columns_def io_or_def io_bind_def alone_calls io_return_def)

definition chunk_path :: "('a, 'b) flush_env \<Rightarrow> 'b chunk_flush_input \<Rightarrow> string \<Rightarrow> string" where
  "chunk_path env input bid =
     file_path (sid_table (fi_shard input)) (sid_shard (fi_shard input)) (sid_window (fi_shard input)) bid (fe_format env)"

definition flush_records :: "('a, 'b) flush_env \<Rightarrow> 'b chunk_flush_input \<Rightarrow> string \<Rightarrow> nat \<Rightarrow> 'b \<Rightarrow> bytes \<Rightarrow> wal_record list" where
  "flush_records env input bid now merged bs =
     [batch_pending input bid now (at_num_rows (fe_arrays env) merged),
      batch_written bid (chunk_path env input bid) (length bs), batch_committed bid]"

text \<open>The chunk can be merged and encoded, and the records of its flush can be written.\<close>

definition flushable :: "('a, 'b) flush_env \<Rightarrow> 'b chunk_flush_input \<Rightarrow> string \<Rightarrow> nat \<Rightarrow> 'b \<Rightarrow> bytes \<Rightarrow> bool" where
  "flushable env input bid now merged bs \<longleftrightarrow>
     merge_chunk (fe_arrays env) (fi_batches input) (fi_schema input) = Inr merged \<and>
     ar_encode (to_arrow (fe_tools env)) (fe_format env) merged = Inr bs \<and>
     list_all (env_writable env) (flush_records env input bid now merged bs)"

lemma commit_one_file:
  assumes "length (cf_files req) \<le> 1"
  obtains resp where "commit_files req now st = (Inr resp, snd (commit_files req now st))"
proof -
  have "\<exists>r. fst (commit_files req now st) = Inr r" using assms by (simp add: commit_files_def Let_def)
  then show thesis using that by (metis prod.collapse)
qed

lemma flush_alone:
  fixes w :: "'x ingestor_scheme"
  assumes "logs env first (n + 3) rs w" "flushable env input bid (w_clock w) merged bs"
  obtains out w' stats index resp where "flush_chunk_with_id env input bid w = (Inr out, w')"
    "commit_files (flush_request input bid (chunk_keys first rs (fi_wal_seq_range input))
       (flush_manifest env input bid (chunk_path env input bid) (length bs) (at_num_rows (fe_arrays env) merged) stats index
         (w_clock w)) (at_num_rows (fe_arrays env) merged))
       (w_clock w div 1000) (record_in_flight bid (w_clock w) (w_catalog w)) = (Inr resp, w_catalog w')"
    "fo_snapshot out = cs_snapshot resp" "logs env first n (rs @ flush_records env input bid (w_clock w) merged bs) w'"
    "bm_get (w_store w') (chunk_path env input bid) = Some bs" "w_clock w' = w_clock w"
    "in_tracker w' = fold (\<lambda>r. apply_record r 0) (flush_records env input bid (w_clock w) merged bs) (in_tracker w)"
proof -
  let ?rows = "at_num_rows (fe_arrays env) merged" and ?path = "chunk_path env input bid" and ?clk = "w_clock w"
  let ?pend = "batch_pending input bid ?clk ?rows" and ?wri = "batch_written bid ?path (length bs)"
  let ?com = "batch_committed bid" and ?st = "record_in_flight bid ?clk (w_catalog w)"
  have ok: "merge_chunk (fe_arrays env) (fi_batches input) (fi_schema input) = Inr merged"
    "ar_encode (to_arrow (fe_tools env)) (fe_format env) merged = Inr bs"
    "env_writable env ?pend" "env_writable env ?wri" "env_writable env ?com"
    using assms(2) by (simp_all add: flushable_def flush_records_def)
  obtain x1 where w1: "log_record env ?pend w = (Inr (), w\<lparr>in_wal := x1, in_tracker := apply_record ?pend 0 (in_tracker w)\<rparr>)"
    "logs env first (n + 2) (rs @ [?pend]) (w\<lparr>in_wal := x1, in_tracker := apply_record ?pend 0 (in_tracker w)\<rparr>)"
    by (rule log_record_alone [of env first "n + 2" rs w ?pend]) (use assms(1) ok in \<open>simp_all add: numeral_3_eq_3\<close>)
  define w3 :: "'x ingestor_scheme" where "w3 = w\<lparr>in_wal := x1, in_tracker := apply_record ?pend 0 (in_tracker w),
    w_catalog := ?st, w_store := bm_insert ?path bs (w_store w)\<rparr>"
  have l3: "logs env first (n + 2) (rs @ [?pend]) w3" using w1(2) by (simp add: w3_def)
  have t3: "w_turns w3 = []" by (rule logs_alone [OF l3])
  obtain cols where declared: "declared_columns (fe_codecs env) (sid_table (fi_shard input)) w3 = (Inr cols, w3)"
    using declared_alone [OF t3] by blast
  let ?sort = "sort_columns_for (at_schema (fe_arrays env) merged) cols"
  obtain i w5 where w5: "io_or ([], 0) (write_index env ?path merged ?sort) w3 = (Inr i, w5)"
    "w5 = w3 \<or> (\<exists>b. w5 = w3\<lparr>w_store := bm_insert (index_path ?path) b (w_store w3)\<rparr>)"
    using write_index_alone [OF t3] by metis
  have elsewhere: "index_path ?path \<noteq> ?path" by (simp add: chunk_path_def index_elsewhere)
  have f5: "w_catalog w5 = ?st" "w_clock w5 = ?clk" "in_tracker w5 = apply_record ?pend 0 (in_tracker w)"
    "bm_get (w_store w5) ?path = Some bs" "logs env first (n + 2) (rs @ [?pend]) w5"
    using w5(2) l3 elsewhere elsewhere [symmetric] by (auto simp: w3_def bm_simps)
  obtain x6 where w6: "log_record env ?wri w5 = (Inr (), w5\<lparr>in_wal := x6, in_tracker := apply_record ?wri 0 (in_tracker w5)\<rparr>)"
    "logs env first (n + 1) ((rs @ [?pend]) @ [?wri]) (w5\<lparr>in_wal := x6, in_tracker := apply_record ?wri 0 (in_tracker w5)\<rparr>)"
    by (rule log_record_alone [of env first "n + 1" "rs @ [?pend]" w5 ?wri]) (use f5(5) ok in \<open>simp_all\<close>)
  define w6' where "w6' = w5\<lparr>in_wal := x6, in_tracker := apply_record ?wri 0 (in_tracker w5)\<rparr>"
  note w6 = w6 [folded w6'_def]
  have f6: "w_catalog w6' = ?st" "w_clock w6' = ?clk" "bm_get (w_store w6') ?path = Some bs"
    "in_tracker w6' = apply_record ?wri 0 (apply_record ?pend 0 (in_tracker w))" using f5 by (simp_all add: w6'_def)
  let ?keys = "chunk_keys first rs (fi_wal_seq_range input)"
  have keys: "collect_idempotency_keys env (fi_wal_seq_range input) w6' = (Inr ?keys, w6')"
    using collect_keys_alone [OF w6(2), of "fst (fi_wal_seq_range input)" "snd (fi_wal_seq_range input)"]
      chunk_keys_marker [of "[?pend, ?wri]" first rs]
    by (simp add: chunk_keys_def data_key_def batch_pending_def batch_written_def)
  let ?man = "flush_manifest env input bid ?path (length bs) ?rows (compute_stats_lite (fe_view env merged) ?sort) i ?clk"
  let ?req = "flush_request input bid ?keys ?man ?rows"
  obtain resp where resp: "commit_files ?req (?clk div 1000) ?st = (Inr resp, snd (commit_files ?req (?clk div 1000) ?st))"
    by (rule commit_one_file [of ?req]) (simp add: flush_request_def)
  define w9 where "w9 = w6'\<lparr>w_catalog := snd (commit_files ?req (?clk div 1000) ?st)\<rparr>"
  have t6: "w_turns w6' = []" by (rule logs_alone [OF w6(2)])
  have commit: "catalog_call (fe_codecs env) (\<lambda>now. commit_files ?req (now div 1000)) w6' = (Inr resp, w9)"
    using arg_cong [OF resp, of fst] unfolding fst_conv by (simp add: alone_calls(1) [OF t6] f6(1,2) w9_def)
  have l9: "logs env first (Suc n) ((rs @ [?pend]) @ [?wri]) w9" using w6(2) by (simp add: w9_def)
  obtain x10 where w10: "log_record env ?com w9 = (Inr (), w9\<lparr>in_wal := x10, in_tracker := apply_record ?com 0 (in_tracker w9)\<rparr>)"
    "logs env first n (((rs @ [?pend]) @ [?wri]) @ [?com]) (w9\<lparr>in_wal := x10, in_tracker := apply_record ?com 0 (in_tracker w9)\<rparr>)"
    by (rule log_record_alone [OF l9 ok(5)])
  let ?out = "\<lparr>fo_batch_id = bid, fo_file_path = ?path, fo_file_size = length bs, fo_row_count = ?rows,
       fo_schema_version = fi_schema_version input, fo_snapshot = cs_snapshot resp, fo_wal_seq_range = fi_wal_seq_range input\<rparr>"
  have t1: "w_turns w = []" by (rule logs_alone [OF assms(1)])
  have run: "flush_chunk_with_id env input bid w = (Inr ?out, w9\<lparr>in_wal := x10, in_tracker := apply_record ?com 0 (in_tracker w9)\<rparr>)"
  proof -
    have rec: "catalog_do (fe_codecs env) (\<lambda>_ st. ((), record_in_flight bid ?clk st))
        (w\<lparr>in_wal := x1, in_tracker := apply_record ?pend 0 (in_tracker w)\<rparr>) =
      (Inr (), w\<lparr>in_wal := x1, in_tracker := apply_record ?pend 0 (in_tracker w), w_catalog := ?st\<rparr>)"
      using t1 by (simp add: catalog_do_def alone_calls)
    have wr: "write_batch_file (fe_tools env) (sid_table (fi_shard input)) (sid_shard (fi_shard input)) (sid_window (fi_shard input))
        bid merged (fe_format env) (w\<lparr>in_wal := x1, in_tracker := apply_record ?pend 0 (in_tracker w), w_catalog := ?st\<rparr>) =
      (Inr (?path, length bs, ar_num_rows (to_arrow (fe_tools env)) merged), w3)"
      using t1 ok(2) by (simp add: write_batch_file_def Let_def io_bind_def io_lift_def alone_calls io_return_def w3_def chunk_path_def)
    show ?thesis
      unfolding flush_chunk_with_id_def Let_def
      by (simp add: io_bind_def io_lift_def ok(1) local_clock_def w1(1) rec wr declared w5(1) w6(1) keys f6(2) commit w10(1) io_return_def)
  qed
  have tracker: "in_tracker (w9\<lparr>in_wal := x10, in_tracker := apply_record ?com 0 (in_tracker w9)\<rparr>) =
      fold (\<lambda>r. apply_record r 0) (flush_records env input bid ?clk merged bs) (in_tracker w)"
    using f6(4) by (simp add: w9_def flush_records_def)
  have cat: "w_catalog (w9\<lparr>in_wal := x10, in_tracker := apply_record ?com 0 (in_tracker w9)\<rparr>) =
      snd (commit_files ?req (?clk div 1000) ?st)" by (simp add: w9_def)
  show thesis
    by (rule that [OF run resp [folded cat] _ _ _ _ tracker]) (use w10(2) f6(2,3) in \<open>simp_all add: w9_def flush_records_def\<close>)
qed

subsection \<open>What a flush commits\<close>

lemma record_in_flight_same [simp]:
  "files (record_in_flight b now st) = files st" "idempotency (record_in_flight b now st) = idempotency st"
  "snapshot_version (record_in_flight b now st) = snapshot_version st"
  by (simp_all add: record_in_flight_def split: option.split)

lemma key_taken_unchanged: "idempotency st' = idempotency st \<Longrightarrow> key_taken b st' = key_taken b st"
  by (simp add: key_taken_def fun_eq_iff)

lemma tracked_commit:
  "bm_get (bm_states (fold (\<lambda>r. apply_record r 0) (flush_records env input bid now merged bs) m)) bid \<noteq> None \<and>
    bs_status (the (bm_get (bm_states (fold (\<lambda>r. apply_record r 0) (flush_records env input bid now merged bs) m)) bid)) =
      batch_status.Committed"
  by (simp add: flush_records_def batch_pending_def batch_written_def batch_committed_def with_state_def bm_simps
      pending_state_def s3_written_state_def)

definition committed_in :: "string \<Rightarrow> batch_state_map \<Rightarrow> bool" where
  "committed_in bid m \<longleftrightarrow> map_option bs_status (bm_get (bm_states m) bid) = Some batch_status.Committed"

lemma flush_tracked: "committed_in bid (fold (\<lambda>r. apply_record r 0) (flush_records env input bid now merged bs) m)"
  using tracked_commit [of env input bid now merged bs m] by (auto simp: committed_in_def)

lemma request_keys: "commit_keys (flush_request input bid keys man rows) = keys"
  by (simp add: commit_keys_def flush_request_def)

lemma request_fields [simp]:
  "cf_batch_id (flush_request input bid keys man rows) = bid" "cf_files (flush_request input bid keys man rows) = [man]"
  "cf_table (flush_request input bid keys man rows) = sid_table (fi_shard input)"
  by (simp_all add: flush_request_def)

lemma arrow_decode: "arrow_laws ar rows \<Longrightarrow> ar_encode ar fmt b = Inr bs \<Longrightarrow>
    \<exists>bs'. ar_decode ar fmt bs = Inr bs' \<and> concat (map rows bs') = rows b"
  unfolding arrow_laws_def by blast

lemma flush_accepted:
  assumes "logs env first (n + 3) rs w" "flushable env input bid (w_clock w) merged bs"
    and "\<not> bm_has (files (w_catalog w)) bid"
    and "\<forall>k \<in> set (chunk_keys first rs (fi_wal_seq_range input)). \<not> key_taken bid (w_catalog w) k"
  obtains out w' f where "flush_chunk_with_id env input bid w = (Inr out, w')"
    "files (w_catalog w') = bm_insert bid f (files (w_catalog w))"
    "fm_table f = normalize_table (sid_table (fi_shard input))" "fm_row_count f = at_num_rows (fe_arrays env) merged"
    "fm_file_path f = chunk_path env input bid" "fm_valid_from f = Suc (snapshot_version (w_catalog w))"
    "fm_deleted_at f = 0" "fo_snapshot out = snapshot_version (w_catalog w')" "snapshot_version (w_catalog w') = Suc (snapshot_version (w_catalog w))"
    "\<forall>k \<in> set (chunk_keys first rs (fi_wal_seq_range input)). map_option ir_batch_id (bm_get (idempotency (w_catalog w')) k) = Some bid"
    "logs env first n (rs @ flush_records env input bid (w_clock w) merged bs) w'"
    "bm_get (w_store w') (chunk_path env input bid) = Some bs" "w_clock w' = w_clock w"
    "in_tracker w' = fold (\<lambda>r. apply_record r 0) (flush_records env input bid (w_clock w) merged bs) (in_tracker w)"
proof -
  let ?keys = "chunk_keys first rs (fi_wal_seq_range input)" and ?st = "record_in_flight bid (w_clock w) (w_catalog w)"
  obtain out w' stats index resp where run: "flush_chunk_with_id env input bid w = (Inr out, w')"
    and commit: "commit_files (flush_request input bid ?keys
       (flush_manifest env input bid (chunk_path env input bid) (length bs) (at_num_rows (fe_arrays env) merged) stats index
         (w_clock w)) (at_num_rows (fe_arrays env) merged)) (w_clock w div 1000) ?st = (Inr resp, w_catalog w')"
    and rest: "fo_snapshot out = cs_snapshot resp" "logs env first n (rs @ flush_records env input bid (w_clock w) merged bs) w'"
    "bm_get (w_store w') (chunk_path env input bid) = Some bs" "w_clock w' = w_clock w"
    "in_tracker w' = fold (\<lambda>r. apply_record r 0) (flush_records env input bid (w_clock w) merged bs) (in_tracker w)"
    using assms(1,2) by (rule flush_alone)
  let ?man = "flush_manifest env input bid (chunk_path env input bid) (length bs) (at_num_rows (fe_arrays env) merged) stats index (w_clock w)"
  let ?req = "flush_request input bid ?keys ?man (at_num_rows (fe_arrays env) merged)"
  have free: "\<not> bm_has (files ?st) bid" "\<forall>k \<in> set ?keys. \<not> key_taken bid ?st k"
    using assms(3,4) key_taken_unchanged [of ?st "w_catalog w" bid] by simp_all
  show thesis
  proof (cases rule: commit_files_cases [of ?req "w_clock w div 1000" ?st])
    case (accepted r st')
    then have eqs: "r = resp" "st' = w_catalog w'" using commit by simp_all
    have "map_option ir_batch_id (bm_get (idempotency (w_catalog w')) k) = Some bid" if "k \<in> set ?keys" for k
    proof -
      let ?g = "\<lambda>key. \<lparr>ir_client_request_id = key, ir_batch_id = bid, ir_committed_at = w_clock w div 1000\<rparr>"
      have "map_of (rev (map (\<lambda>key. (key, ?g key)) ?keys)) k = Some (?g k)"
        using that by (simp add: rev_map map_of_map_restrict)
      then show ?thesis using accepted(12) by (simp add: eqs claim_keys_def request_keys bm_get_insert_all)
    qed
    with accepted rest run show thesis
      by (intro that [of out w' "committed_file ?req (Suc (snapshot_version ?st)) ?man"])
         (simp_all add: eqs committed_file_def flush_manifest_def)
  next
    case (refused e)
    with commit show thesis by simp
  next
    case dup
    with free(1) show thesis by simp
  next
    case (taken k)
    with free(2) show thesis by (simp add: request_keys)
  qed
qed

lemma flush_refused:
  assumes "logs env first (n + 3) rs w" "flushable env input bid (w_clock w) merged bs"
    and "\<not> bm_has (files (w_catalog w)) bid"
    and "k \<in> set (chunk_keys first rs (fi_wal_seq_range input))" "key_taken bid (w_catalog w) k"
  obtains out w' where "flush_chunk_with_id env input bid w = (Inr out, w')" "files (w_catalog w') = files (w_catalog w)"
    "logs env first n (rs @ flush_records env input bid (w_clock w) merged bs) w'"
    "in_tracker w' = fold (\<lambda>r. apply_record r 0) (flush_records env input bid (w_clock w) merged bs) (in_tracker w)"
proof -
  let ?keys = "chunk_keys first rs (fi_wal_seq_range input)" and ?st = "record_in_flight bid (w_clock w) (w_catalog w)"
  obtain out w' stats index resp where run: "flush_chunk_with_id env input bid w = (Inr out, w')"
    and commit: "commit_files (flush_request input bid ?keys
       (flush_manifest env input bid (chunk_path env input bid) (length bs) (at_num_rows (fe_arrays env) merged) stats index
         (w_clock w)) (at_num_rows (fe_arrays env) merged)) (w_clock w div 1000) ?st = (Inr resp, w_catalog w')"
    and rest: "logs env first n (rs @ flush_records env input bid (w_clock w) merged bs) w'"
    "in_tracker w' = fold (\<lambda>r. apply_record r 0) (flush_records env input bid (w_clock w) merged bs) (in_tracker w)"
    using assms(1,2) by (rule flush_alone)
  let ?man = "flush_manifest env input bid (chunk_path env input bid) (length bs) (at_num_rows (fe_arrays env) merged) stats index (w_clock w)"
  let ?req = "flush_request input bid ?keys ?man (at_num_rows (fe_arrays env) merged)"
  have taken: "key_taken bid ?st k" using assms(5) key_taken_unchanged [of ?st "w_catalog w" bid] by simp
  have "files (w_catalog w') = files (w_catalog w)"
  proof (cases rule: commit_files_cases [of ?req "w_clock w div 1000" ?st])
    case (accepted r st')
    then show ?thesis using assms(4) taken by (auto simp: request_keys)
  qed (use commit in \<open>auto simp: clear_in_flight_def\<close>)
  with run rest show thesis using that by blast
qed

text \<open>C32: A flush whose keys are free commits exactly its chunk. It succeeds, the catalog gains one file at the next
  snapshot and nothing else changes among its files, that file holds the rows of the merged chunk, every key of the
  chunk is recorded for the batch, and log and tracker show the batch as committed.\<close>

theorem flush_adds_its_file:
  assumes "logs env first (n + 3) rs w" "flushable env input bid (w_clock w) merged bs"
    and "\<not> bm_has (files (w_catalog w)) bid"
    and "\<forall>k \<in> set (chunk_keys first rs (fi_wal_seq_range input)). \<not> key_taken bid (w_catalog w) k"
    and "arrow_laws (to_arrow (fe_tools env)) rows"
  shows "\<exists>out w' f. flush_chunk_with_id env input bid w = (Inr out, w') \<and>
    files (w_catalog w') = bm_insert bid f (files (w_catalog w)) \<and> visible_at f (fo_snapshot out) \<and>
    \<not> visible_at f (snapshot_version (w_catalog w)) \<and>
    fm_table f = normalize_table (sid_table (fi_shard input)) \<and>
    stored_rows (fe_tools env) rows (w_store w') (fm_file_path f) = rows merged \<and>
    (\<forall>k \<in> set (chunk_keys first rs (fi_wal_seq_range input)).
       map_option ir_batch_id (bm_get (idempotency (w_catalog w')) k) = Some bid) \<and>
    logs env first n (rs @ flush_records env input bid (w_clock w) merged bs) w' \<and> committed_in bid (in_tracker w')"
proof -
  obtain out w' f where run: "flush_chunk_with_id env input bid w = (Inr out, w')"
    "files (w_catalog w') = bm_insert bid f (files (w_catalog w))"
    "fm_table f = normalize_table (sid_table (fi_shard input))" "fm_row_count f = at_num_rows (fe_arrays env) merged"
    "fm_file_path f = chunk_path env input bid" "fm_valid_from f = Suc (snapshot_version (w_catalog w))"
    "fm_deleted_at f = 0" "fo_snapshot out = snapshot_version (w_catalog w')" "snapshot_version (w_catalog w') = Suc (snapshot_version (w_catalog w))"
    "\<forall>k \<in> set (chunk_keys first rs (fi_wal_seq_range input)). map_option ir_batch_id (bm_get (idempotency (w_catalog w')) k) = Some bid"
    "logs env first n (rs @ flush_records env input bid (w_clock w) merged bs) w'"
    "bm_get (w_store w') (chunk_path env input bid) = Some bs"
    "in_tracker w' = fold (\<lambda>r. apply_record r 0) (flush_records env input bid (w_clock w) merged bs) (in_tracker w)"
    using assms(1-4) by (rule flush_accepted)
  have fmt: "format_from_path (chunk_path env input bid) = fe_format env"
    by (simp add: chunk_path_def format_of_file_path)
  have "ar_encode (to_arrow (fe_tools env)) (fe_format env) merged = Inr bs" using assms(2) by (simp add: flushable_def)
  then obtain bs' where "ar_decode (to_arrow (fe_tools env)) (fe_format env) bs = Inr bs'" "concat (map rows bs') = rows merged"
    using arrow_decode [OF assms(5)] by blast
  then have "stored_rows (fe_tools env) rows (w_store w') (fm_file_path f) = rows merged"
    using run(12) by (simp add: stored_rows_def run(5) fmt)
  with run show ?thesis
    by (intro exI [of _ out] exI [of _ w'] exI [of _ f]) (simp add: visible_at_def protects_at_def flush_tracked)
qed

text \<open>C31: Two chunks that were written alternately lose the second. A flush collects the keys of every request in its
  range of the log, also of those that went to other chunks; when a keyed request lies in the ranges of two chunks, the
  first flush takes its key and the catalog refuses the second as a duplicate. The refusal is not looked at: the
  second flush reports success, the log and the tracker show its batch as committed, and no file of it exists.\<close>

theorem interleaved_flush_loses_batch:
  assumes "logs env first (n + 6) rs w" "flushable env a ida (w_clock w) ma ba" "flushable env b idb (w_clock w) mb bb"
    and "(q, Data p) \<in> set (enumerate first rs)" "dp_client_request_id p \<noteq> []"
    and "fst (fi_wal_seq_range a) \<le> q" "q < snd (fi_wal_seq_range a)" "fst (fi_wal_seq_range b) \<le> q" "q < snd (fi_wal_seq_range b)"
    and "\<not> bm_has (files (w_catalog w)) ida" "\<not> bm_has (files (w_catalog w)) idb" "ida \<noteq> []" "ida \<noteq> idb"
    and "\<forall>k \<in> set (chunk_keys first rs (fi_wal_seq_range a)). \<not> key_taken ida (w_catalog w) k"
  shows "\<exists>outa w1 outb w2. flush_chunk_with_id env a ida w = (Inr outa, w1) \<and> flush_chunk_with_id env b idb w1 = (Inr outb, w2) \<and>
    bm_has (files (w_catalog w1)) ida \<and> files (w_catalog w2) = files (w_catalog w1) \<and> \<not> bm_has (files (w_catalog w2)) idb \<and>
    committed_in idb (in_tracker w2) \<and>
    logs env first n (rs @ flush_records env a ida (w_clock w) ma ba @ flush_records env b idb (w_clock w) mb bb) w2"
proof -
  let ?k = "dp_client_request_id p" and ?ra = "flush_records env a ida (w_clock w) ma ba"
  have "data_key (Data p) = Some ?k" using assms(5) by (simp add: data_key_def opt_nonempty_def)
  then have keys: "?k \<in> set (chunk_keys first rs (fi_wal_seq_range a))" "?k \<in> set (chunk_keys first rs (fi_wal_seq_range b))"
    unfolding chunk_keys_iff using assms(4,6-9) by blast+
  have "n + 3 + 3 = n + 6" by simp
  with assms(1) have six: "logs env first ((n + 3) + 3) rs w" by (simp only:)
  obtain outa w1 f where a: "flush_chunk_with_id env a ida w = (Inr outa, w1)"
    "files (w_catalog w1) = bm_insert ida f (files (w_catalog w))"
    "\<forall>k \<in> set (chunk_keys first rs (fi_wal_seq_range a)). map_option ir_batch_id (bm_get (idempotency (w_catalog w1)) k) = Some ida"
    "logs env first (n + 3) (rs @ ?ra) w1" "w_clock w1 = w_clock w"
    using flush_accepted [OF six assms(2,10,14)] by metis
  have "list_all (\<lambda>x. data_key x = None) ?ra"
    by (simp add: flush_records_def data_key_def batch_pending_def batch_written_def batch_committed_def)
  then have kb: "?k \<in> set (chunk_keys first (rs @ ?ra) (fi_wal_seq_range b))" using keys(2) by (simp add: chunk_keys_marker)
  have taken: "key_taken idb (w_catalog w1) ?k" using a(3) keys(1) assms(12,13) by (auto simp: key_taken_def)
  have free: "\<not> bm_has (files (w_catalog w1)) idb" using assms(11,13) by (simp add: a(2) bm_has_def bm_simps)
  have fb: "flushable env b idb (w_clock w1) mb bb" using assms(3) a(5) by simp
  obtain outb w2 where b: "flush_chunk_with_id env b idb w1 = (Inr outb, w2)" "files (w_catalog w2) = files (w_catalog w1)"
    "logs env first n ((rs @ ?ra) @ flush_records env b idb (w_clock w1) mb bb) w2"
    "in_tracker w2 = fold (\<lambda>r. apply_record r 0) (flush_records env b idb (w_clock w1) mb bb) (in_tracker w1)"
    using a(4) fb free kb taken by (rule flush_refused)
  then have tracked: "committed_in idb (in_tracker w2)" using flush_tracked by simp
  show ?thesis
    using a(1,5) b tracked free
    by (intro exI [of _ outa] exI [of _ w1] exI [of _ outb] exI [of _ w2]) (simp add: a(2) bm_has_def bm_simps)
qed

end
