(* ===== verification/Flush_Demo.thy ===== *)
theory Flush_Demo
  imports Flush_Safety Replay_Demo Compactor_Demo
begin

text \<open>An ingestor on batches of bytes with two tables, and the theorems on flushes and schema resolution applied to it.\<close>

definition byte_field :: field where
  "byte_field = \<lparr>f_name = ''v'', f_type = UInt8, f_nullable = True\<rparr>"

definition byte_arrays :: "(byte list, byte list) array_tools" where
  "byte_arrays = \<lparr>at_schema = \<lambda>_. [byte_field], at_num_rows = length, at_column = \<lambda>b _. b, at_cast = \<lambda>a _. Some a,
     at_null = \<lambda>_ n. replicate n 0, at_new = \<lambda>_ cols. Some (hd cols), at_concat = \<lambda>_ bs. Some (concat bs)\<rparr>"

definition keyed :: "string \<Rightarrow> string \<Rightarrow> wal_record" where
  "keyed table k = Data \<lparr>dp_table = table, dp_shard = ''s0'', dp_schema_version = 1, dp_batch_ipc = [],
     dp_client_request_id = k, dp_time_window = ''w''\<rparr>"

text \<open>Two requests for one table with one for another between them.\<close>

definition mixed_log :: "wal_record list" where
  "mixed_log = [keyed ''public.a'' ''k1'', keyed ''public.b'' ''k2'', keyed ''public.a'' ''k3'']"

definition demo_chunk_input :: "string \<Rightarrow> nat \<times> nat \<Rightarrow> byte list \<Rightarrow> byte list chunk_flush_input" where
  "demo_chunk_input table seqs bs = \<lparr>fi_id = Some 1,
     fi_shard = \<lparr>sid_table = table, sid_shard = ''s0'', sid_window = ''w''\<rparr>, fi_epoch = 0, fi_schema_version = 1,
     fi_schema = [byte_field], fi_batches = [bs], fi_seqs = [], fi_wal_seq_range = seqs, fi_rows = length bs,
     fi_sealed_at_ms = 5, fi_seal_reason = Some SealManual, fi_pressure_at_seal = None\<rparr>"

definition chunk_a :: "byte list chunk_flush_input" where "chunk_a = demo_chunk_input ''public.a'' (0, 3) [1, 3]"
definition chunk_b :: "byte list chunk_flush_input" where "chunk_b = demo_chunk_input ''public.b'' (1, 2) [2]"

definition pending_of :: "wal_record \<Rightarrow> batch_pending_payload" where
  "pending_of r = (case r of BatchPending p \<Rightarrow> p | _ \<Rightarrow> undefined)"

definition written_of :: "wal_record \<Rightarrow> batch_s3_written_payload" where
  "written_of r = (case r of BatchS3Written p \<Rightarrow> p | _ \<Rightarrow> undefined)"

definition data_of :: "wal_record \<Rightarrow> data_payload" where
  "data_of r = (case r of Data p \<Rightarrow> p | _ \<Rightarrow> undefined)"

definition flush_wal :: wal_codecs where
  "flush_wal = demo_wal\<lparr>
     wc_data := (\<lambda>p. if p = data_of (mixed_log ! 0) then [0] else if p = data_of (mixed_log ! 1) then [1] else [2],
       \<lambda>bs. Inr (data_of (mixed_log ! unat (hd bs)))),
     wc_pending := (\<lambda>p. if bp_batch_id p = ''A'' then [0] else [1],
       \<lambda>bs. Inr (pending_of (if bs = [0] then batch_pending chunk_a ''A'' 100 2 else batch_pending chunk_b ''B'' 100 1))),
     wc_s3_written := (\<lambda>p. if bw_batch_id p = ''A'' then [0] else [1],
       \<lambda>bs. Inr (written_of (if bs = [0]
         then batch_written ''A'' (file_path ''public.a'' ''s0'' ''w'' ''A'' Parquet) 2
         else batch_written ''B'' (file_path ''public.b'' ''s0'' ''w'' ''B'' Parquet) 1)))\<rparr>"

definition flush_tools :: "byte list tools" where
  "flush_tools = \<lparr>to_codecs = demo_codecs, to_arrow = byte_arrow, to_rdeser = \<lambda>_. None, to_crc = demo_crc\<rparr>"

definition demo_env :: "(byte list, byte list) flush_env" where
  "demo_env = \<lparr>fe_tools = flush_tools, fe_arrays = byte_arrays, fe_view = \<lambda>_. [], fe_wal_codecs = flush_wal,
     fe_wal_config = demo_config, fe_index_build = \<lambda>_. \<lparr>x8_seed = 0, x8_block_length = 0, x8_fingerprints = []\<rparr>,
     fe_index_ser = \<lambda>_. [], fe_format = Parquet, fe_instance = ''n1''\<rparr>"

definition mixed_writer :: wal_writer where
  "mixed_writer = snd (commit_group flush_wal demo_crc demo_config (io_fine 0) mixed_log (fresh_writer 0 0))"

definition demo_ingestor :: ingestor where
  "demo_ingestor = \<lparr>w_catalog = new_state, w_store = bm_empty, w_clock = 100, w_turns = [], ig_schemas = bm_empty,
     ig_parts = bm_empty, in_wal = mixed_writer, in_rounds = [], in_tracker = batch_map_default\<rparr>"

lemma short_writable:
  assumes "prost_roundtrip flush_wal r" "length (encode_payload flush_wal r) < 100"
  shows "writable flush_wal demo_crc r"
  using assms by (simp add: writable_def record_crc_def demo_crc_def)

lemma mixed_writable: "list_all (writable flush_wal demo_crc) mixed_log"
proof -
  have "data_of (mixed_log ! 0) \<noteq> data_of (mixed_log ! 1)" "data_of (mixed_log ! 0) \<noteq> data_of (mixed_log ! 2)"
    "data_of (mixed_log ! 1) \<noteq> data_of (mixed_log ! 2)" by code_simp+
  then have "writable flush_wal demo_crc (mixed_log ! i)" if "i < 3" for i
    using that by (intro short_writable)
      (auto simp: mixed_log_def keyed_def data_of_def flush_wal_def less_Suc_eq numeral_3_eq_3)
  then show ?thesis by (auto simp: list_all_length mixed_log_def)
qed

text \<open>A log that one group of the demo writer has written.\<close>

lemma fresh_logs:
  assumes "list_all (writable (fe_wal_codecs env) (to_crc (fe_tools env))) rs" "rs \<noteq> []" "length rs < 100" "alone w"
    and "in_wal w = snd (commit_group (fe_wal_codecs env) (to_crc (fe_tools env)) demo_config (io_fine 0) rs (fresh_writer 0 0))"
  shows "logs env 0 20 rs w"
proof -
  obtain replies x where c: "commit_group (fe_wal_codecs env) (to_crc (fe_tools env)) demo_config (io_fine 0) rs (fresh_writer 0 0) =
    (replies, x)" by fastforce
  have pre: "writer_inv (fe_wal_codecs env) (to_crc (fe_tools env)) 0 [(1, [])] (fresh_writer 0 0)" by (rule fresh_inv) simp
  have small: "cg_seg_seq (ww_guard (fresh_writer 0 0)) < u64_max" by (simp add: fresh_writer_def u64_max_def)
  have room: "0 + length (log_of [(1::nat, [])]) + length rs < 2 ^ 64" using assms(3) by simp
  have io: "io_rotate_sync_ok (io_fine 0)" "io_budget (io_fine 0) = None" "io_sync_ok (io_fine 0)"
    by (simp_all add: io_fine_def)
  obtain segs where segs: "writer_inv (fe_wal_codecs env) (to_crc (fe_tools env)) 0 segs x" "log_of segs = rs"
    using group_commit_core [OF pre small assms(1,2) room io c] by auto
  have "cg_seg_seq (ww_guard x) \<le> 2"
    using commit_group_seg_seq [of "fe_wal_codecs env" "to_crc (fe_tools env)" demo_config "io_fine 0" rs "fresh_writer 0 0"] c
    by (simp add: fresh_writer_def)
  then have "cg_seg_seq (ww_guard x) + 20 < u64_max" by (simp add: u64_max_def)
  with segs c assms(3-5) show ?thesis by (auto simp: logs_def intro!: exI [of _ segs])
qed

lemma demo_logs: "logs demo_env 0 20 mixed_log demo_ingestor"
  by (rule fresh_logs)
     (use mixed_writable in \<open>simp_all add: alone_def demo_ingestor_def demo_env_def flush_tools_def mixed_writer_def mixed_log_def\<close>)

lemma merge_bytes: "merge_chunk byte_arrays [bs] [byte_field] = Inr bs"
  by (simp add: merge_chunk_def align_batch_def align_column_def byte_arrays_def)

lemma demo_flushable:
  "flushable demo_env chunk_a ''A'' (w_clock demo_ingestor) [1, 3] [1, 3]"
  "flushable demo_env chunk_b ''B'' (w_clock demo_ingestor) [2] [2]"
proof -
  have committed: "writable flush_wal demo_crc (batch_committed b)" if "length b < 100" for b
  proof -
    have "map ((\<lambda>b. char_of (unat b)) \<circ> (\<lambda>c. of_nat (of_char c) :: 8 word)) b = b"
      by (simp add: o_def byte_char)
    then show ?thesis using that
      by (intro short_writable) (simp_all add: batch_committed_def flush_wal_def demo_wal_def)
  qed
  have a: "writable flush_wal demo_crc (batch_pending chunk_a ''A'' 100 2)"
    "writable flush_wal demo_crc (batch_written ''A'' (file_path ''public.a'' ''s0'' ''w'' ''A'' Parquet) 2)"
    by (rule short_writable; simp add: batch_pending_def batch_written_def flush_wal_def pending_of_def written_of_def)+
  have b: "writable flush_wal demo_crc (batch_pending chunk_b ''B'' 100 1)"
    "writable flush_wal demo_crc (batch_written ''B'' (file_path ''public.b'' ''s0'' ''w'' ''B'' Parquet) 1)"
    by (rule short_writable; simp add: batch_pending_def batch_written_def flush_wal_def pending_of_def written_of_def)+
  have env: "fe_arrays demo_env = byte_arrays" "fe_tools demo_env = flush_tools" "fe_wal_codecs demo_env = flush_wal"
    "fe_format demo_env = Parquet" "to_arrow flush_tools = byte_arrow" "to_crc flush_tools = demo_crc"
    "at_num_rows byte_arrays = length" "ar_encode byte_arrow f xs = Inr xs" "w_clock demo_ingestor = 100" for f xs
    by (simp_all add: demo_env_def flush_tools_def byte_arrays_def byte_arrow_def demo_ingestor_def)
  have shards: "fi_shard chunk_a = \<lparr>sid_table = ''public.a'', sid_shard = ''s0'', sid_window = ''w''\<rparr>"
    "fi_shard chunk_b = \<lparr>sid_table = ''public.b'', sid_shard = ''s0'', sid_window = ''w''\<rparr>"
    "fi_batches chunk_a = [[1, 3]]" "fi_batches chunk_b = [[2]]" "fi_schema chunk_a = [byte_field]" "fi_schema chunk_b = [byte_field]"
    by (simp_all add: chunk_a_def chunk_b_def demo_chunk_input_def)
  show "flushable demo_env chunk_a ''A'' (w_clock demo_ingestor) [1, 3] [1, 3]"
    using committed [of "''A''"] a
    by (simp add: flushable_def env shards merge_bytes flush_records_def chunk_path_def numeral_2_eq_2)
  show "flushable demo_env chunk_b ''B'' (w_clock demo_ingestor) [2] [2]"
    using committed [of "''B''"] b
    by (simp add: flushable_def env shards merge_bytes flush_records_def chunk_path_def)
qed

lemma demo_catalog: "bm_get (files (w_catalog demo_ingestor)) k = None" "\<not> key_taken b (w_catalog demo_ingestor) k"
  by (simp_all add: demo_ingestor_def new_state_def key_taken_def)

text \<open>Table a was written before and after table b.\<close>

theorem interleaved_flush_loses_batch_witness:
  "\<exists>outa w1 outb w2. flush_chunk_with_id demo_env chunk_a ''A'' demo_ingestor = (Inr outa, w1) \<and>
    flush_chunk_with_id demo_env chunk_b ''B'' w1 = (Inr outb, w2) \<and> \<not> bm_has (files (w_catalog w2)) ''B'' \<and>
    committed_in ''B'' (in_tracker w2)"
proof -
  have "logs demo_env 0 (14 + 6) mixed_log demo_ingestor" using demo_logs by simp
  from interleaved_flush_loses_batch [OF this demo_flushable, of 1 "data_of (mixed_log ! 1)"] show ?thesis
    by (auto simp: mixed_log_def keyed_def data_of_def chunk_a_def chunk_b_def demo_chunk_input_def bm_has_def demo_catalog)
qed

theorem flush_adds_its_file_witness:
  "\<exists>out w' f. flush_chunk_with_id demo_env chunk_a ''A'' demo_ingestor = (Inr out, w') \<and>
    files (w_catalog w') = bm_insert ''A'' f bm_empty \<and> stored_rows flush_tools (\<lambda>b. b) (w_store w') (fm_file_path f) = [1, 3]"
proof -
  have "logs demo_env 0 (17 + 3) mixed_log demo_ingestor" using demo_logs by simp
  moreover have "arrow_laws (to_arrow (fe_tools demo_env)) (\<lambda>b. b)"
    by (simp add: arrow_laws_def demo_env_def flush_tools_def byte_arrow_def)
  moreover have "files (w_catalog demo_ingestor) = bm_empty" by (simp add: demo_ingestor_def new_state_def)
  moreover have "fe_tools demo_env = flush_tools" by (simp add: demo_env_def)
  ultimately show ?thesis
    using flush_adds_its_file [of demo_env 0 17 mixed_log demo_ingestor chunk_a "''A''" "[1, 3]" "[1, 3]" "\<lambda>b. b"] demo_flushable(1)
    by (auto simp: bm_has_def demo_catalog)
qed

subsection \<open>Resolving schemas\<close>

definition no_caches :: "catalog_state \<Rightarrow> ingest_caches" where
  "no_caches st = \<lparr>w_catalog = st, w_store = bm_empty, w_clock = 100, w_turns = [], ig_schemas = bm_empty, ig_parts = bm_empty\<rparr>"

lemma narrow_column:
  "cache_fresh plain_codecs ''public.t'' [column_of ''b'' Int32] 1 (no_caches plain_catalog)"
  "reachable_types [column_of ''b'' Int32] wide" "reachable_types [column_of ''b'' Int32] narrow"
  by (simp_all add: cache_fresh_def no_caches_def undisturbed_def quiet_def table_schema_def plain_catalog_def bm_simps plain_codec
      reachable_types_def wide_def narrow_def field_with_name_def column_of_def try_widen_def promotion_rank_def)

text \<open>The batch has a new column and a wider one; it gets a version that has only one of the two.\<close>

theorem resolve_settles_one_column_witness:
  "\<exists>w' s'. resolve_schema_version plain_codecs ''public.t'' wide (no_caches plain_catalog) = (Inr 2, w') \<and>
    table_schema plain_deser ''public.t'' (w_catalog w') = Inr (Some (s', 2)) \<and> classify s' wide \<noteq> Compatible"
proof -
  have d: "2 = length (filter (differs [column_of ''b'' Int32]) wide)" and dist: "distinct_columns wide" by code_simp+
  from resolve_settles_one_column [OF _ dist narrow_column(1,2) d] show ?thesis
    by (auto simp: plain_codec numeral_2_eq_2)
qed

text \<open>The table is dropped after the first batch; the second is still accepted.\<close>

theorem resolved_schema_never_refreshed_witness:
  "\<exists>w'. resolve_schema_version plain_codecs ''public.t'' narrow (no_caches plain_catalog) = (Inr 2, w') \<and>
    resolve_schema_version plain_codecs ''public.t'' narrow
      (w'\<lparr>w_catalog := sm_run plain_codecs (w_catalog w') [OpDropTable ''public.t'' 9], w_turns := []\<rparr>) =
    (Inr 2, w'\<lparr>w_catalog := sm_run plain_codecs (w_catalog w') [OpDropTable ''public.t'' 9], w_turns := []\<rparr>)"
proof -
  have d: "length (filter (differs [column_of ''b'' Int32]) narrow) = 1" and dist: "distinct_columns narrow" by code_simp+
  have law: "cx_deser plain_codecs (cx_ser plain_codecs s) = Some s" for s by (simp add: plain_codec)
  obtain w' where run: "resolve_schema_version plain_codecs ''public.t'' narrow (no_caches plain_catalog) = (Inr 2, w')"
    using resolve_step [OF law dist narrow_column(1,3) refl] d by (auto simp: numeral_2_eq_2)
  from resolved_schema_never_refreshed [OF law dist narrow_column(1,3) _ run, of "[]" "[OpDropTable ''public.t'' 9]"] d run
  show ?thesis by auto
qed

end
