(* ===== verification/Ingest_Pipeline.thy ===== *)
theory Ingest_Pipeline
  imports Ingest_Flush Wal_Replay Time_Window
begin

text \<open>
  The write path of a data node (\<open>crates/ingest/src/pipeline.rs\<close>): \<open>ingest\<close> takes one batch of rows into the log,
  and one round of the accumulator takes the synced records of the log into the chunk store, applies the back
  pressure and carries out the plan of seals, spills and flushes. The pipeline extends the ingestor by its chunk
  store, by the ranges of the log that the recovery has claimed, and by the position that the accumulator has read to.

  The batches of Arrow, their IPC streams and the fresh identifiers of batches and spill files are parameters.
\<close>

subsection \<open>Requests\<close>

record 'b ingest_batch =
  ib_table :: string
  ib_shard_key :: string
  ib_record_batch :: 'b
  ib_idempotency_key :: "string option"
  ib_received_ms :: int

record receipt =
  rc_table :: string
  rc_shard :: string
  rc_wal_seq :: nat
  rc_row_count :: nat
  rc_schema_version :: nat
  rc_expected_visible_at :: nat
  rc_expected_visible_in_secs :: nat
  rc_duplicate :: bool

definition validate_idempotency_key :: "string \<Rightarrow> lake_error + unit" where
  "validate_idempotency_key key = (if length key > 256 then Inl IdempotencyKeyTooLong else Inr ())"

definition resolve_idempotency :: "bool \<Rightarrow> string option \<Rightarrow> lake_error + string option" where
  "resolve_idempotency require_key key =
     (case key of
        Some k \<Rightarrow> and_then (validate_idempotency_key k) (\<lambda>_. Inr (Some k))
      | None \<Rightarrow> if require_key then Inl IdempotencyKeyRequired else Inr None)"

definition derive_batch_key :: "string \<Rightarrow> nat \<Rightarrow> string" where
  "derive_batch_key request_key idx =
     (let suffix = ''#'' @ dec_digits idx in take (256 - length suffix) request_key @ suffix)"

definition qualify_table :: "string \<Rightarrow> string" where
  "qualify_table table = (let (ns, bare) = split_qualified table in qualified_name ns bare)"

definition extract_table_shard :: "string list \<Rightarrow> lake_error + string \<times> string" where
  "extract_table_shard raw_path =
     (case raw_path of
        [table, shard] \<Rightarrow>
          if table \<noteq> [] \<and> shard \<noteq> [] then Inr (table, shard) else Inl (Other ''descriptor path'')
      | _ \<Rightarrow> Inl (Other ''descriptor path''))"

subsection \<open>Configuration\<close>

record ingestor_config =
  igc_default_format :: data_format
  igc_instance_id :: string
  igc_rows_threshold :: nat
  igc_bytes_threshold :: nat
  igc_time_threshold_secs :: nat
  igc_max_flush_delay_secs :: nat
  igc_chunk_max_resident_secs :: nat
  igc_flush_phase_spread_secs :: nat
  igc_scan_interval_ms :: nat
  igc_chunk_mem_budget :: nat
  igc_require_idempotency_by_default :: bool
  igc_idempotency_ttl_secs :: nat

definition default_ingestor_config :: ingestor_config where
  "default_ingestor_config =
     \<lparr>igc_default_format = Vortex, igc_instance_id = ''standalone'', igc_rows_threshold = 500000,
      igc_bytes_threshold = 128 * 1024 * 1024, igc_time_threshold_secs = 5, igc_max_flush_delay_secs = 0,
      igc_chunk_max_resident_secs = 60, igc_flush_phase_spread_secs = 30, igc_scan_interval_ms = 100,
      igc_chunk_mem_budget = 512 * 1024 * 1024, igc_require_idempotency_by_default = True,
      igc_idempotency_ttl_secs = 24 * 3600\<rparr>"

definition ingest_seal_policy :: "ingestor_config \<Rightarrow> seal_policy" where
  "ingest_seal_policy c =
     \<lparr>pol_rows_threshold = igc_rows_threshold c, pol_bytes_threshold = igc_bytes_threshold c,
      pol_min_resident = igc_time_threshold_secs c * 1000, pol_max_flush_delay = igc_max_flush_delay_secs c * 1000,
      pol_max_resident = igc_chunk_max_resident_secs c * 1000,
      pol_phase_spread = igc_flush_phase_spread_secs c * 1000\<rparr>"

definition ingest_chunk_config :: "ingestor_config \<Rightarrow> chunk_store_config" where
  "ingest_chunk_config c = \<lparr>csc_policy = ingest_seal_policy c, csc_instance_id = igc_instance_id c\<rparr>"

subsection \<open>The pipeline\<close>

record replay_skip =
  sk_table :: string
  sk_shard :: string
  sk_window :: string
  sk_epoch :: nat
  sk_start :: nat
  sk_end :: nat

definition skip_claims :: "replay_skip \<Rightarrow> string \<Rightarrow> string \<Rightarrow> string \<Rightarrow> nat \<Rightarrow> nat \<Rightarrow> bool" where
  "skip_claims c table shard window epoch seq \<longleftrightarrow>
     sk_table c = table \<and> sk_shard c = shard \<and> sk_window c = window \<and> sk_epoch c = epoch \<and>
     sk_start c \<le> seq \<and> seq < sk_end c"

record 'b pipeline = ingestor +
  in_chunks :: "'b chunk_store"
  in_skip :: "replay_skip list"
  in_last_read :: nat
  in_absorbed_seq :: nat

text \<open>A stream decodes to its batches, each of which may be broken; \<open>None\<close> when it does not even open.\<close>

record ('a, 'b) pipeline_env =
  pe_flush :: "('a, 'b) flush_env"
  pe_config :: ingestor_config
  pe_chunk :: "'b chunk_tools"
  pe_raw0 :: "column \<Rightarrow> int"
  pe_ipc_encode :: "'b \<Rightarrow> bytes option"
  pe_ipc_decode :: "bytes \<Rightarrow> 'b option list option"

abbreviation pe_codecs :: "('a, 'b) pipeline_env \<Rightarrow> codecs" where
  "pe_codecs env \<equiv> fe_codecs (pe_flush env)"

definition decode_batches :: "('a, 'b) pipeline_env \<Rightarrow> data_payload \<Rightarrow> 'b list" where
  "decode_batches env p =
     (case pe_ipc_decode env (dp_batch_ipc p) of None \<Rightarrow> [] | Some items \<Rightarrow> List.map_filter id items)"

definition wal_backlog :: "'x ingestor_scheme \<Rightarrow> nat \<Rightarrow> nat" where
  "wal_backlog w absorbed = sat_sub (ww_synced_seq (in_wal w) + 1) absorbed"

subsection \<open>Taking a batch in\<close>

definition duplicate_receipt :: "'b ingest_batch \<Rightarrow> nat \<Rightarrow> receipt" where
  "duplicate_receipt b now =
     \<lparr>rc_table = ib_table b, rc_shard = ib_shard_key b, rc_wal_seq = 0, rc_row_count = 0, rc_schema_version = 0,
      rc_expected_visible_at = now, rc_expected_visible_in_secs = 0, rc_duplicate = True\<rparr>"

definition data_record :: "'b ingest_batch \<Rightarrow> string \<Rightarrow> nat \<Rightarrow> bytes \<Rightarrow> string \<Rightarrow> data_payload" where
  "data_record b table schema_version ipc window =
     \<lparr>dp_table = table, dp_shard = ib_shard_key b, dp_schema_version = schema_version, dp_batch_ipc = ipc,
      dp_client_request_id = (case ib_idempotency_key b of Some k \<Rightarrow> k | None \<Rightarrow> []), dp_time_window = window\<rparr>"

text \<open>Everything before the log: is the table there, is the key new, which version, which window.\<close>

definition admit ::
  "('a, 'b) pipeline_env \<Rightarrow> 'b ingest_batch \<Rightarrow> 'x ingest_caches_scheme \<Rightarrow>
    (lake_error + string option \<times> bool) \<times> 'x ingest_caches_scheme" where
  "admit env b =
     (let cx = pe_codecs env; table = qualify_table (ib_table b) in
      io_bind (catalog_query cx (get_table table)) (\<lambda>found.
        case found of
          None \<Rightarrow> io_fail (TableNotFound (ib_table b))
        | Some tm \<Rightarrow>
            let cfg = (case tm_ingest_config tm of Some c \<Rightarrow> c | None \<Rightarrow> standard_config) in
            io_bind (io_lift (resolve_idempotency (ic_require_idempotency_key cfg) (ib_idempotency_key b))) (\<lambda>key.
              case key of
                None \<Rightarrow> io_return (None, False)
              | Some k \<Rightarrow> io_bind (catalog_query cx (check_idempotency k)) (\<lambda>seen. io_return (key, seen \<noteq> None)))))"

definition event_window ::
  "('a, 'b) pipeline_env \<Rightarrow> 'b ingest_batch \<Rightarrow> 'x ingest_caches_scheme \<Rightarrow>
    (lake_error + string) \<times> 'x ingest_caches_scheme" where
  "event_window env b w =
     (let (declared, w1) = partition_cache_get (pe_codecs env) (qualify_table (ib_table b)) w;
          event_time = partition_time_ms (pe_raw0 env) (fe_view (pe_flush env) (ib_record_batch b)) declared
      in (Inr (snd (window_of event_time (max 0 (ib_received_ms b)))), w1))"

definition register_key ::
  "('a, 'b) pipeline_env \<Rightarrow> string option \<Rightarrow> 'x world_scheme \<Rightarrow> (lake_error + unit) \<times> 'x world_scheme" where
  "register_key env key =
     (case key of
        None \<Rightarrow> io_return ()
      | Some k \<Rightarrow> io_bind local_clock (\<lambda>now. catalog_do (pe_codecs env) (\<lambda>_ st. ((),
          record_idempotency \<lparr>ir_client_request_id = k, ir_batch_id = [], ir_committed_at = now div 1000\<rparr> st))))"

text \<open>The pressure is read from the chunk store, which the request does not change.\<close>

definition log_rows ::
  "('a, 'b) pipeline_env \<Rightarrow> 'b ingest_batch \<Rightarrow> nat \<Rightarrow> string \<Rightarrow> ('b, 'x) pipeline_scheme \<Rightarrow>
    (lake_error + wal_ack) \<times> ('b, 'x) pipeline_scheme" where
  "log_rows env b schema_version window w =
     (case pe_ipc_encode env (ib_record_batch b) of
        None \<Rightarrow> (Inl (Other ''ipc encode''), w)
      | Some ipc \<Rightarrow>
          if rejects_writes (store_pressure (in_chunks w)) then (Inl (ResourceExhausted ''chunk memory pressure''), w)
          else append_to_log (pe_flush env)
            (Data (data_record b (qualify_table (ib_table b)) schema_version ipc window)) w)"

definition ingest_admitted ::
  "('a, 'b) pipeline_env \<Rightarrow> 'b ingest_batch \<Rightarrow> string option \<times> bool \<Rightarrow> ('b, 'x) pipeline_scheme \<Rightarrow>
    (lake_error + receipt) \<times> ('b, 'x) pipeline_scheme" where
  "ingest_admitted env b admitted =
     (case admitted of (key, seen) \<Rightarrow>
       if seen then io_bind local_clock (\<lambda>now. io_return (duplicate_receipt b now))
       else
         io_bind (resolve_schema_version (pe_codecs env) (qualify_table (ib_table b))
             (at_schema (fe_arrays (pe_flush env)) (ib_record_batch b))) (\<lambda>schema_version.
         io_bind (event_window env b) (\<lambda>window.
         io_bind (log_rows env b schema_version window) (\<lambda>ack.
         io_bind (register_key env key) (\<lambda>_.
         io_bind local_clock (\<lambda>now.
           let visible_ms = igc_scan_interval_ms (pe_config env) in
           io_return \<lparr>rc_table = ib_table b, rc_shard = ib_shard_key b, rc_wal_seq = ak_seq ack,
             rc_row_count = at_num_rows (fe_arrays (pe_flush env)) (ib_record_batch b),
             rc_schema_version = schema_version, rc_expected_visible_at = now + visible_ms,
             rc_expected_visible_in_secs = max 1 ((visible_ms + 999) div 1000), rc_duplicate = False\<rparr>))))))"

definition ingest ::
  "('a, 'b) pipeline_env \<Rightarrow> 'b ingest_batch \<Rightarrow> ('b, 'x) pipeline_scheme \<Rightarrow>
    (lake_error + receipt) \<times> ('b, 'x) pipeline_scheme" where
  "ingest env b = io_bind (admit env b) (ingest_admitted env b)"

text \<open>\<open>run_source\<close>: a failure is logged and the next batch is taken.\<close>

fun run_source :: "('a, 'b) pipeline_env \<Rightarrow> 'b ingest_batch list \<Rightarrow> ('b, 'x) pipeline_scheme \<Rightarrow> ('b, 'x) pipeline_scheme" where
  "run_source env [] w = w"
| "run_source env (b # bs) w = run_source env bs (snd (ingest env b w))"

subsection \<open>From the log into the chunks\<close>

definition absorb ::
  "('a, 'b) pipeline_env \<Rightarrow> spill_io \<Rightarrow> nat \<Rightarrow> replay_skip list \<Rightarrow> data_payload \<Rightarrow> nat \<Rightarrow> 'b chunk_store \<Rightarrow>
    (lake_error + unit) \<times> 'b chunk_store" where
  "absorb env io now skips p seq s =
     (let epoch = tlv_epoch (store_liveness (dp_table p) s) in
      if store_is_stale (dp_table p) epoch s then (Inr (), s)
      else if list_ex (\<lambda>c. skip_claims c (dp_table p) (dp_shard p) (dp_time_window p) epoch seq) skips then (Inr (), s)
      else
        (case decode_batches env p of
           [] \<Rightarrow> (Inr (), s)
         | b # bs \<Rightarrow>
             let key = \<lparr>cky_shard = \<lparr>sid_table = dp_table p, sid_shard = dp_shard p, sid_window = dp_time_window p\<rparr>,
                        cky_epoch = epoch\<rparr>
             in io_bind (store_append (pe_chunk env) io key (dp_schema_version p)
                 (at_schema (fe_arrays (pe_flush env)) b) seq (b # bs) now) (\<lambda>_. io_return ()) s))"

text \<open>What the environment supplies in one round: names and outcomes of spills, identifiers of batches, tables to flush.\<close>

record round_env =
  ro_absorb :: "nat \<Rightarrow> spill_io"
  ro_enforce :: "nat \<Rightarrow> spill_io"
  ro_spill :: "nat \<Rightarrow> spill_io"
  ro_batch_id :: "nat \<Rightarrow> string"
  ro_force :: "string list"

text \<open>A record that the chunk store does not take is logged, and the position moves on all the same.\<close>

fun absorb_records ::
  "('a, 'b) pipeline_env \<Rightarrow> round_env \<Rightarrow> replay_skip list \<Rightarrow> (nat \<times> wal_record) list \<Rightarrow>
    ('b, 'x) pipeline_scheme \<Rightarrow> ('b, 'x) pipeline_scheme" where
  "absorb_records env ro skips [] w = w"
| "absorb_records env ro skips ((seq, r) # rs) w =
     (let s = (case r of
            Ddl d \<Rightarrow> observe_ddl (dd_op d) (dd_table d) (in_chunks w)
          | Data p \<Rightarrow> snd (absorb env (ro_absorb ro seq) (w_clock w) skips p seq (in_chunks w))
          | _ \<Rightarrow> in_chunks w)
      in absorb_records env ro skips rs
           (w\<lparr>in_chunks := s, in_last_read := seq + 1, in_absorbed_seq := seq + 1\<rparr>))"

subsection \<open>Out of the chunks\<close>

definition flush_chunk_by_id ::
  "('a, 'b) pipeline_env \<Rightarrow> string \<Rightarrow> nat \<Rightarrow> ('b, 'x) pipeline_scheme \<Rightarrow> flush_outcome option \<times> ('b, 'x) pipeline_scheme" where
  "flush_chunk_by_id env batch_id i w =
     (case flush_input (pe_chunk env) i (in_chunks w) of
        Inl _ \<Rightarrow> (None, w\<lparr>in_chunks := store_note_flush_failure i (w_clock w) (in_chunks w)\<rparr>)
      | Inr None \<Rightarrow> (None, w)
      | Inr (Some input) \<Rightarrow>
          if store_is_stale (sid_table (fi_shard input)) (fi_epoch input) (in_chunks w)
          then (None, w\<lparr>in_chunks := snd (discard_chunk i (in_chunks w))\<rparr>)
          else
            (case flush_chunk_with_id (pe_flush env) input batch_id
                (w\<lparr>in_chunks := note_batch_id i batch_id (in_chunks w)\<rparr>) of
               (Inr out, w1) \<Rightarrow>
                 (Some out, w1\<lparr>in_chunks := snd (store_mark_committed i (fo_snapshot out) (in_chunks w1))\<rparr>)
             | (Inl _, w1) \<Rightarrow> (None, w1\<lparr>in_chunks := store_note_flush_failure i (w_clock w1) (in_chunks w1)\<rparr>)))"

definition flush_now ::
  "('a, 'b) pipeline_env \<Rightarrow> string \<Rightarrow> 'b chunk_flush_input \<Rightarrow> ('b, 'x) pipeline_scheme \<Rightarrow>
    (lake_error + flush_outcome) \<times> ('b, 'x) pipeline_scheme" where
  "flush_now env batch_id input w =
     flush_chunk_with_id (pe_flush env) input batch_id
       (case fi_id input of
          None \<Rightarrow> w
        | Some i \<Rightarrow> w\<lparr>in_chunks := note_batch_id i batch_id (in_chunks w)\<rparr>)"

record force_flush_done =
  ff_chunks :: nat
  ff_rows :: nat

fun force_flush_loop ::
  "('a, 'b) pipeline_env \<Rightarrow> (nat \<Rightarrow> string) \<Rightarrow> nat \<Rightarrow> nat list \<Rightarrow> force_flush_done \<Rightarrow> ('b, 'x) pipeline_scheme \<Rightarrow>
    force_flush_done \<times> ('b, 'x) pipeline_scheme" where
  "force_flush_loop env ids now [] done_so_far w = (done_so_far, w)"
| "force_flush_loop env ids now (i # is) done_so_far w =
     (case store_seal i now (in_chunks w) of
        (Inl _, s) \<Rightarrow> force_flush_loop env ids now is done_so_far (w\<lparr>in_chunks := s\<rparr>)
      | (Inr _, s) \<Rightarrow>
          (case flush_chunk_by_id env (ids i) i (w\<lparr>in_chunks := s\<rparr>) of
             (None, w1) \<Rightarrow> force_flush_loop env ids now is done_so_far w1
           | (Some out, w1) \<Rightarrow> force_flush_loop env ids now is
               \<lparr>ff_chunks = ff_chunks done_so_far + 1, ff_rows = ff_rows done_so_far + fo_row_count out\<rparr> w1))"

definition chunks_in_flight :: "string \<Rightarrow> 'b chunk_store \<Rightarrow> nat list" where
  "chunks_in_flight table s =
     filter (\<lambda>i. chunk_state_of i s \<notin> {None, Some Flushed, Some Released}) (chunk_ids_of_table table s)"

definition force_flush_table ::
  "('a, 'b) pipeline_env \<Rightarrow> (nat \<Rightarrow> string) \<Rightarrow> nat \<Rightarrow> string \<Rightarrow> ('b, 'x) pipeline_scheme \<Rightarrow>
    (lake_error + force_flush_done) \<times> ('b, 'x) pipeline_scheme" where
  "force_flush_table env ids now table w =
     (let (out, w1) = force_flush_loop env ids now (chunk_ids_of_table table (in_chunks w)) \<lparr>ff_chunks = 0, ff_rows = 0\<rparr> w
      in if chunks_in_flight table (in_chunks w1) \<noteq> [] then (Inl (Other ''chunks in flight''), w1) else (Inr out, w1))"

subsection \<open>One round of the accumulator\<close>

definition scan_synced ::
  "('a, 'b) pipeline_env \<Rightarrow> round_env \<Rightarrow> replay_skip list \<Rightarrow> ('b, 'x) pipeline_scheme \<Rightarrow>
    lake_error + ('b, 'x) pipeline_scheme" where
  "scan_synced env ro skips w =
     (let synced = ww_synced_seq (in_wal w) in
      if synced \<ge> in_last_read w
      then and_then (scan_range (fe_wal_codecs (pe_flush env)) (to_crc (fe_tools (pe_flush env))) (in_last_read w)
             (synced + 1) (ww_dir (in_wal w)))
           (\<lambda>rs. Inr (absorb_records env ro skips rs w))
      else Inr w)"

definition relieve_pressure ::
  "('a, 'b) pipeline_env \<Rightarrow> round_env \<Rightarrow> ('b, 'x) pipeline_scheme \<Rightarrow> ('b, 'x) pipeline_scheme" where
  "relieve_pressure env ro w =
     w\<lparr>in_chunks := snd (enforce_pressure (pe_chunk env) (ro_enforce ro) (w_clock w)
         (set_wal_segment (ww_current_segment (in_wal w)) (in_chunks w)))\<rparr>"

definition carry_out_plan ::
  "('a, 'b) pipeline_env \<Rightarrow> round_env \<Rightarrow> nat \<Rightarrow> ('b, 'x) pipeline_scheme \<Rightarrow> ('b, 'x) pipeline_scheme" where
  "carry_out_plan env ro now w =
     (let (plan, s0) = plan_flush now (in_chunks w);
          s1 = fold (\<lambda>i s. snd (store_seal i now s)) (fp_seal plan) s0;
          s2 = fold (\<lambda>i s. snd (store_spill (pe_chunk env) (ro_spill ro i) i s)) (fp_spill plan) s1
      in fold (\<lambda>i w. snd (flush_chunk_by_id env (ro_batch_id ro i) i w)) (fp_flush plan) (w\<lparr>in_chunks := s2\<rparr>))"

fun force_flush_all ::
  "('a, 'b) pipeline_env \<Rightarrow> (nat \<Rightarrow> string) \<Rightarrow> nat \<Rightarrow> string list \<Rightarrow> ('b, 'x) pipeline_scheme \<Rightarrow>
    (lake_error + force_flush_done) list \<times> ('b, 'x) pipeline_scheme" where
  "force_flush_all env ids now [] w = ([], w)"
| "force_flush_all env ids now (t # ts) w =
     (let (r, w1) = force_flush_table env ids now t w; (rs, w2) = force_flush_all env ids now ts w1 in (r # rs, w2))"

text \<open>A scan that fails ends the round; the requests to flush then wait for the next one (\<open>None\<close>).\<close>

definition accumulator_round ::
  "('a, 'b) pipeline_env \<Rightarrow> round_env \<Rightarrow> replay_skip list \<Rightarrow> ('b, 'x) pipeline_scheme \<Rightarrow>
    (lake_error + force_flush_done) list option \<times> ('b, 'x) pipeline_scheme" where
  "accumulator_round env ro skips w =
     (case scan_synced env ro skips w of
        Inl _ \<Rightarrow> (None, w)
      | Inr w1 \<Rightarrow>
          let now = w_clock w1; (rs, w2) = force_flush_all env (ro_batch_id ro) now (ro_force ro)
                (carry_out_plan env ro now (relieve_pressure env ro w1))
          in (Some rs, w2))"

text \<open>The loop starts by reading the whole log again, less what the recovery has claimed.\<close>

fun accumulator_rounds ::
  "('a, 'b) pipeline_env \<Rightarrow> replay_skip list \<Rightarrow> round_env list \<Rightarrow> ('b, 'x) pipeline_scheme \<Rightarrow> ('b, 'x) pipeline_scheme" where
  "accumulator_rounds env skips [] w = w"
| "accumulator_rounds env skips (ro # ros) w =
     accumulator_rounds env skips ros (snd (accumulator_round env ro skips w))"

definition run_accumulator ::
  "('a, 'b) pipeline_env \<Rightarrow> round_env list \<Rightarrow> ('b, 'x) pipeline_scheme \<Rightarrow> ('b, 'x) pipeline_scheme" where
  "run_accumulator env ros w =
     accumulator_rounds env (in_skip w) ros (w\<lparr>in_skip := [], in_last_read := 0\<rparr>)"

end
