(* ===== verification/Ingest_Resume.thy ===== *)
theory Ingest_Resume
  imports Ingest_Pipeline Wal_Cleanup
begin

text \<open>
  The recovery of a node (\<open>Ingestor::resume_recovered\<close> of \<open>crates/ingest/src/pipeline.rs\<close>,
  \<open>payloads_to_batches\<close> of \<open>flush.rs\<close>). The keys of all requests in the log are registered again; then every batch, in
  the order of creation, is committed again (its file exists), written again from the rows in its range of the log,
  or left alone; and the range of each resumed batch is claimed, so that the accumulator does not absorb its rows a
  second time. The hash map of batches is an ordered map, so batches of the same age come in the order of their names.
\<close>

subsection \<open>Rows from the log\<close>

text \<open>The batches of one record; a broken item of its stream is an error here.\<close>

definition payload_batches :: "('a, 'b) pipeline_env \<Rightarrow> data_payload \<Rightarrow> lake_error + (nat \<times> 'b) list" where
  "payload_batches env p =
     (case pe_ipc_decode env (dp_batch_ipc p) of
        None \<Rightarrow> Inl (Other ''wal ipc decode'')
      | Some items \<Rightarrow>
          if None \<in> set items then Inl (Other ''wal ipc read'')
          else Inr (map (\<lambda>b. (dp_schema_version p, b)) (List.map_filter id items)))"

fun all_payload_batches :: "('a, 'b) pipeline_env \<Rightarrow> data_payload list \<Rightarrow> lake_error + (nat \<times> 'b) list" where
  "all_payload_batches env [] = Inr []"
| "all_payload_batches env (p # ps) =
     and_then (payload_batches env p) (\<lambda>bs. and_then (all_payload_batches env ps) (\<lambda>rest. Inr (bs @ rest)))"

text \<open>Streams without a batch make the source panic at \<open>unwrap\<close>; here that is an error as well.\<close>

definition payloads_to_batches :: "('a, 'b) pipeline_env \<Rightarrow> data_payload list \<Rightarrow> lake_error + 'b list \<times> nat" where
  "payloads_to_batches env payloads =
     (if payloads = [] then Inl (Other ''empty batch group'')
      else and_then (all_payload_batches env payloads) (\<lambda>batches.
        let sorted = sort_key fst batches in
        if sorted = [] then Inl (Other ''panic: no batch'')
        else and_then (align_all (fe_arrays (pe_flush env)) (map snd sorted)
            (at_schema (fe_arrays (pe_flush env)) (snd (last sorted)))) (\<lambda>aligned. Inr (aligned, fst (last sorted)))))"

definition payload_row_count :: "('a, 'b) pipeline_env \<Rightarrow> data_payload \<Rightarrow> nat" where
  "payload_row_count env p = sum_list (map (at_num_rows (fe_arrays (pe_flush env))) (decode_batches env p))"

subsection \<open>Tables\<close>

definition table_from_object_path :: "string \<Rightarrow> string option" where
  "table_from_object_path path =
     (if take 7 path \<noteq> ''yuntun/'' then None
      else (case split_once CHR ''/'' (drop 7 path) of
              None \<Rightarrow> None
            | Some (schema, rest) \<Rightarrow>
                let table = (case split_once CHR ''/'' rest of Some (t, _) \<Rightarrow> t | None \<Rightarrow> rest) in
                if schema = [] \<or> table = [] then None else Some (schema @ ''.'' @ table)))"

text \<open>The batch belongs to the table as it is at the end of the log. The bound \<open>u64::MAX\<close> is above every number.\<close>

definition same_era :: "(nat \<times> nat \<times> string) list \<Rightarrow> nat \<Rightarrow> string \<Rightarrow> bool" where
  "same_era timeline seq table \<longleftrightarrow>
     (let (alive_at, epoch_at) = liveness_at timeline seq table;
          (alive_now, epoch_now) = liveness_at timeline u64_max table
      in alive_at \<and> alive_now \<and> epoch_at = epoch_now)"

definition era_now :: "(nat \<times> nat \<times> string) list \<Rightarrow> string \<Rightarrow> nat" where
  "era_now timeline table = snd (liveness_at timeline u64_max table)"

subsection \<open>Keys\<close>

fun reindex_keys ::
  "('a, 'b) pipeline_env \<Rightarrow> (nat \<times> wal_record) list \<Rightarrow> 'x world_scheme \<Rightarrow> (lake_error + unit) \<times> 'x world_scheme" where
  "reindex_keys env [] = io_return ()"
| "reindex_keys env ((_, r) # rs) =
     (case data_key r of
        None \<Rightarrow> reindex_keys env rs
      | Some k \<Rightarrow> io_bind (register_key env (Some k)) (\<lambda>_. reindex_keys env rs))"

subsection \<open>Batches\<close>

definition batch_claim :: "batch_state \<Rightarrow> string \<Rightarrow> nat \<Rightarrow> replay_skip" where
  "batch_claim st table epoch =
     \<lparr>sk_table = table, sk_shard = bs_shard st, sk_window = bs_time_window st, sk_epoch = epoch,
      sk_start = fst (bs_wal_seq_range st), sk_end = snd (bs_wal_seq_range st)\<rparr>"

datatype resumed = Skipped | Recommitted replay_skip | Redone replay_skip

definition terminal_table :: "batch_state \<Rightarrow> string option" where
  "terminal_table st =
     (if bs_table st \<noteq> [] then Some (qualify_table (bs_table st))
      else (case bs_s3_paths st of [] \<Rightarrow> None | p # _ \<Rightarrow> map_option qualify_table (table_from_object_path p)))"

definition resume_terminal ::
  "('a, 'b) pipeline_env \<Rightarrow> (nat \<times> nat \<times> string) list \<Rightarrow> batch_state \<Rightarrow> 'x ingestor_scheme \<Rightarrow>
    (lake_error + resumed) \<times> 'x ingestor_scheme" where
  "resume_terminal env timeline st =
     (case terminal_table st of
        None \<Rightarrow> io_return Skipped
      | Some table \<Rightarrow>
          if \<not> same_era timeline (fst (bs_wal_seq_range st)) table
          then io_bind (abort_batch (pe_flush env) (bs_batch_id st)) (\<lambda>_. io_return Skipped)
          else io_bind (recommit_into_catalog (pe_flush env) st table) (\<lambda>_.
            io_return (Recommitted (batch_claim st table (era_now timeline table)))))"

text \<open>The rows of a pending batch: all rows of its table in its range.\<close>

fun pending_rows :: "string \<Rightarrow> (nat \<times> wal_record) list \<Rightarrow> (nat \<times> data_payload) list" where
  "pending_rows table [] = []"
| "pending_rows table ((seq, r) # rs) =
     (case r of
        Data p \<Rightarrow> if table \<noteq> [] \<and> dp_table p \<noteq> table then pending_rows table rs
                  else (seq, p) # pending_rows table rs
      | _ \<Rightarrow> pending_rows table rs)"

definition redo_input ::
  "('a, 'b) pipeline_env \<Rightarrow> batch_state \<Rightarrow> string \<Rightarrow> nat \<Rightarrow> nat list \<Rightarrow> 'b list \<Rightarrow> nat \<Rightarrow> 'b chunk_flush_input" where
  "redo_input env st table epoch seqs batches max_version =
     \<lparr>fi_id = None,
      fi_shard = \<lparr>sid_table = table, sid_shard = bs_shard st, sid_window = bs_time_window st\<rparr>, fi_epoch = epoch,
      fi_schema_version = (if bs_schema_version st > 0 then bs_schema_version st else max_version),
      fi_schema = at_schema (fe_arrays (pe_flush env)) (hd batches), fi_batches = batches, fi_seqs = seqs,
      fi_wal_seq_range = bs_wal_seq_range st, fi_rows = sum_list (map (at_num_rows (fe_arrays (pe_flush env))) batches),
      fi_sealed_at_ms = 0, fi_seal_reason = None, fi_pressure_at_seal = None\<rparr>"

definition redo_pending ::
  "('a, 'b) pipeline_env \<Rightarrow> (nat \<times> nat \<times> string) list \<Rightarrow> batch_state \<Rightarrow> (nat \<times> data_payload) list \<Rightarrow>
    'x ingestor_scheme \<Rightarrow> (lake_error + resumed) \<times> 'x ingestor_scheme" where
  "redo_pending env timeline st rows =
     (let table = qualify_table (if bs_table st \<noteq> [] then bs_table st else dp_table (snd (hd rows))) in
      if \<not> same_era timeline (fst (bs_wal_seq_range st)) table
      then io_bind (abort_batch (pe_flush env) (bs_batch_id st)) (\<lambda>_. io_return Skipped)
      else io_bind (io_lift (payloads_to_batches env (map snd rows))) (\<lambda>(batches, max_version).
        io_bind (flush_chunk_with_id (pe_flush env)
            (redo_input env st table (era_now timeline table) (map fst rows) batches max_version) (bs_batch_id st)) (\<lambda>_.
          io_return (Redone (batch_claim st table (era_now timeline table))))))"

definition resume_pending ::
  "('a, 'b) pipeline_env \<Rightarrow> (nat \<times> nat \<times> string) list \<Rightarrow> batch_state \<Rightarrow> 'x ingestor_scheme \<Rightarrow>
    (lake_error + resumed) \<times> 'x ingestor_scheme" where
  "resume_pending env timeline st w =
     io_bind (io_lift (scan_range (fe_wal_codecs (pe_flush env)) (to_crc (fe_tools (pe_flush env)))
         (fst (bs_wal_seq_range st)) (snd (bs_wal_seq_range st)) (ww_dir (in_wal w)))) (\<lambda>rs.
       let rows = pending_rows (bs_table st) rs in
       if rows = [] then io_bind (abort_batch (pe_flush env) (bs_batch_id st)) (\<lambda>_. io_return Skipped)
       else redo_pending env timeline st rows) w"

definition resume_batch ::
  "('a, 'b) pipeline_env \<Rightarrow> (nat \<times> nat \<times> string) list \<Rightarrow> batch_state \<Rightarrow> 'x ingestor_scheme \<Rightarrow>
    (lake_error + resumed) \<times> 'x ingestor_scheme" where
  "resume_batch env timeline st =
     (case bs_status st of
        Committed \<Rightarrow> resume_terminal env timeline st
      | S3Written \<Rightarrow> resume_terminal env timeline st
      | Pending \<Rightarrow> resume_pending env timeline st
      | Abort \<Rightarrow> io_return Skipped)"

fun resume_loop ::
  "('a, 'b) pipeline_env \<Rightarrow> (nat \<times> nat \<times> string) list \<Rightarrow> batch_state list \<Rightarrow> 'x ingestor_scheme \<Rightarrow>
    (lake_error + resumed list) \<times> 'x ingestor_scheme" where
  "resume_loop env timeline [] = io_return []"
| "resume_loop env timeline (st # sts) =
     io_bind (resume_batch env timeline st) (\<lambda>r. io_bind (resume_loop env timeline sts) (\<lambda>rs. io_return (r # rs)))"

fun resumed_claim :: "resumed \<Rightarrow> replay_skip option" where
  "resumed_claim Skipped = None"
| "resumed_claim (Recommitted c) = Some c"
| "resumed_claim (Redone c) = Some c"

definition count_redone :: "resumed list \<Rightarrow> nat \<times> nat" where
  "count_redone rs =
     (length (filter (\<lambda>r. case r of Redone _ \<Rightarrow> True | _ \<Rightarrow> False) rs),
      length (filter (\<lambda>r. case r of Recommitted _ \<Rightarrow> True | _ \<Rightarrow> False) rs))"

definition resume_recovered ::
  "('a, 'b) pipeline_env \<Rightarrow> ('b, 'x) pipeline_scheme \<Rightarrow> (lake_error + nat \<times> nat) \<times> ('b, 'x) pipeline_scheme" where
  "resume_recovered env w =
     (let wcx = fe_wal_codecs (pe_flush env); crc = to_crc (fe_tools (pe_flush env)) in
      io_bind (io_lift (recover wcx crc False (Some (ww_dir (in_wal w))))) (\<lambda>rv w1.
      let w2 = w1\<lparr>in_tracker := tracker_load_from rv (in_tracker w1)\<rparr> in
      io_bind (io_lift (scan_from wcx crc 0 (ww_dir (in_wal w2)))) (\<lambda>rs.
      io_bind (reindex_keys env rs) (\<lambda>_.
      io_bind (resume_loop env (ddl_timeline rs) (sort_key bs_created_at_ms (bm_values (bm_states (rv_states rv))))) (\<lambda>out w3.
        (Inr (count_redone out), w3\<lparr>in_skip := List.map_filter resumed_claim out\<rparr>)))) w2) w)"

text \<open>Starting a node (\<open>crates/server/src/lib.rs\<close>): statements, batches, deletions; only then the accumulator runs.\<close>

definition recover_node ::
  "('a, 'b) pipeline_env \<Rightarrow> ('b, 'x) pipeline_scheme \<Rightarrow>
    (lake_error + (nat \<times> nat) \<times> replay_dml_stats) \<times> ('b, 'x) pipeline_scheme" where
  "recover_node env w =
     (let wcx = fe_wal_codecs (pe_flush env); tb = fe_tools (pe_flush env) in
      io_bind (replay_wal_ddl (pe_codecs env) wcx (to_crc tb) (ww_dir (in_wal w))) (\<lambda>_.
      io_bind (resume_recovered env) (\<lambda>counts w1.
      io_bind (replay_wal_dml (pe_codecs env) wcx (to_rdeser tb) (to_crc tb) (ww_dir (in_wal w1))) (\<lambda>stats.
        io_return (counts, stats)) w1)) w)"

end
