(* ===== verification/Pipeline_Rejects.thy ===== *)
theory Pipeline_Rejects
  imports Ingest_Pipeline
begin

text \<open>
  A record of the log gets one chance to enter the chunk store. \<open>io_inv P m\<close> says that \<open>m\<close> keeps \<open>P\<close>, however it ends;
  with it every method of the store is shown to add no sequence number but the one it is given, and every step of
  the pipeline to leave the position of the accumulator alone. So a record that meets full memory stays out of the
  chunks for as long as the process lives.
\<close>

subsection \<open>Invariants of computations\<close>

definition io_inv :: "('w \<Rightarrow> bool) \<Rightarrow> ('w \<Rightarrow> 'r \<times> 'w) \<Rightarrow> bool" where
  "io_inv P m \<longleftrightarrow> (\<forall>w. P w \<longrightarrow> P (snd (m w)))"

named_theorems io_inv_intros

lemma io_invD: "io_inv P m \<Longrightarrow> P w \<Longrightarrow> P (snd (m w))"
  by (simp add: io_inv_def)

lemma io_inv_result: "io_inv P m \<Longrightarrow> P w \<Longrightarrow> m w = (r, w') \<Longrightarrow> P w'"
  by (metis io_invD snd_conv)

lemma io_inv_basic [io_inv_intros]:
  "io_inv P (io_return x)" "io_inv P (io_fail e)" "io_inv P (io_lift r)"
  by (simp_all add: io_inv_def io_return_def io_fail_def io_lift_def)

lemma io_inv_bind [io_inv_intros]: "io_inv P m \<Longrightarrow> (\<And>x. io_inv P (f x)) \<Longrightarrow> io_inv P (io_bind m f)"
  by (auto simp: io_inv_def io_bind_def split: prod.split sum.split; metis snd_conv)

lemma bind_keeps:
  assumes "P w" "io_inv P m" "\<And>x w. P w \<Longrightarrow> P (snd (f x w))"
  shows "P (snd (io_bind m f w))"
  using io_invD [OF io_inv_bind [OF assms(2), of f] assms(1)] assms(3) by (simp add: io_inv_def)

lemma io_inv_if [io_inv_intros]: "(b \<Longrightarrow> io_inv P m) \<Longrightarrow> (\<not> b \<Longrightarrow> io_inv P m') \<Longrightarrow> io_inv P (if b then m else m')"
  by simp

lemma io_inv_prod [io_inv_intros]: "(\<And>a b. io_inv P (f a b)) \<Longrightarrow> io_inv P (case p of (a, b) \<Rightarrow> f a b)"
  by (simp split: prod.split)

subsection \<open>The sequence numbers of the chunks\<close>

definition seqs_in :: "nat set \<Rightarrow> 'b chunk_store \<Rightarrow> bool" where
  "seqs_in A s \<longleftrightarrow> (\<forall>i c. bm_get (cs_chunks s) i = Some c \<longrightarrow> set (ck_seqs c) \<subseteq> A)"

lemma seqs_in_same: "cs_chunks s' = cs_chunks s \<Longrightarrow> seqs_in A s' = seqs_in A s"
  by (simp add: seqs_in_def)

lemma seqs_in_update [simp]:
  "seqs_in A (s\<lparr>cs_open := a\<rparr>) = seqs_in A s" "seqs_in A (s\<lparr>cs_ledger := b\<rparr>) = seqs_in A s"
  "seqs_in A (s\<lparr>cs_spills := c\<rparr>) = seqs_in A s" "seqs_in A (s\<lparr>cs_pending_seal := d\<rparr>) = seqs_in A s"
  "seqs_in A (s\<lparr>cs_version := e\<rparr>) = seqs_in A s" "seqs_in A (s\<lparr>cs_wal_segment := f\<rparr>) = seqs_in A s"
  "seqs_in A (s\<lparr>cs_liveness := g\<rparr>) = seqs_in A s" "seqs_in A (s\<lparr>cs_phase_yielded := h\<rparr>) = seqs_in A s"
  by (simp_all add: seqs_in_def)

lemma seqs_in_insert: "seqs_in A s \<Longrightarrow> set (ck_seqs c) \<subseteq> A \<Longrightarrow> seqs_in A (s\<lparr>cs_chunks := bm_insert i c (cs_chunks s)\<rparr>)"
  by (auto simp: seqs_in_def bm_simps)

lemma seqs_in_on_chunk:
  fixes m :: "'b chunk \<Rightarrow> (lake_error + unit) \<times> 'b chunk"
  assumes "\<And>c. set (ck_seqs c) \<subseteq> A \<Longrightarrow> set (ck_seqs (snd (m c))) \<subseteq> A"
  shows "io_inv (seqs_in A) (on_chunk i m)"
  unfolding io_inv_def
proof (intro allI impI)
  fix s :: "'b chunk_store" assume s: "seqs_in A s"
  show "seqs_in A (snd (on_chunk i m s))"
  proof (cases "bm_get (cs_chunks s) i")
    case (Some c)
    with s have "set (ck_seqs c) \<subseteq> A" by (simp add: seqs_in_def)
    with assms [of c] s Some show ?thesis
      by (auto simp: on_chunk_def split: prod.split intro!: seqs_in_insert)
  qed (simp add: on_chunk_def s)
qed

lemma seqs_of_methods [simp]:
  "ck_seqs (snd (transition st c)) = ck_seqs c" "ck_seqs (snd (seal_tagged r p now c)) = ck_seqs c"
  "ck_seqs (snd (attach_spill h c)) = ck_seqs c" "ck_seqs (snd (chunk_mark_committed n c)) = ck_seqs c"
  "ck_seqs (chunk_note_flush_failure now c) = ck_seqs c"
  by (auto simp: transition_def seal_tagged_def attach_spill_def chunk_mark_committed_def chunk_note_flush_failure_def
      Let_def split: prod.split sum.split)

lemma seqs_chunk_append: "set (ck_seqs (snd (chunk_append kt seq b c))) \<subseteq> insert seq (set (ck_seqs c))"
  by (auto simp: chunk_append_def Let_def split: chunk_data.split)

lemma seqs_append_all:
  assumes "seq \<in> A"
  shows "set (ck_seqs c) \<subseteq> A \<Longrightarrow> set (ck_seqs (snd (append_all kt seq bs c))) \<subseteq> A"
proof (induction bs arbitrary: c)
  case (Cons b bs)
  have "set (ck_seqs (snd (chunk_append kt seq b c))) \<subseteq> A" using seqs_chunk_append [of kt seq b c] Cons.prems assms by auto
  with Cons.IH [of "snd (chunk_append kt seq b c)"] show ?case by (auto simp: io_bind_def split: prod.split sum.split)
qed (simp add: io_return_def)

subsection \<open>Methods of the store\<close>

lemma seqs_in_seal: "io_inv (seqs_in A) (store_seal i now)"
  by (auto simp: io_inv_def store_seal_def Let_def split: option.split prod.split
      intro!: bind_keeps [where P = "seqs_in A"] seqs_in_on_chunk io_inv_basic)

lemma seqs_in_spill: "io_inv (seqs_in A) (store_spill kt io i)"
proof -
  have "io_inv (seqs_in A) (spill_finish h n i)" for h n
    by (auto simp: io_inv_def spill_finish_def intro!: bind_keeps [where P = "seqs_in A"] seqs_in_on_chunk)
  note fin = io_invD [OF this]
  show ?thesis
    by (auto simp: io_inv_def store_spill_def split: sum.split option.split prod.split intro!: fin)
qed

lemma seqs_in_relieve: "seqs_in A s \<Longrightarrow> seqs_in A (snd (relieve_once kt io s))"
  by (auto simp: relieve_once_def split: option.split prod.split intro: io_inv_result [OF seqs_in_spill])

lemma seqs_in_account: "seqs_in A s \<Longrightarrow> seqs_in A (account kt io n s)"
  by (auto simp: account_def Let_def seqs_in_relieve split: prod.split bool.split)

lemma seqs_in_append_locked:
  assumes "seq \<in> A"
  shows "io_inv (seqs_in A) (append_locked kt key v sch seq bs p now)"
proof -
  note bind = bind_keeps [where P = "seqs_in A"]
  have "io_inv (seqs_in A) (roll_schema key v p now)"
    by (auto simp: io_inv_def roll_schema_def split: option.split intro!: bind seqs_in_on_chunk)
  moreover have "io_inv (seqs_in A) (open_for key v sch now)"
    by (auto simp: io_inv_def open_for_def Let_def chunk_new_def seqs_in_def bm_simps split: option.split)
  moreover have "io_inv (seqs_in A) (append_batches kt i seq bs now)" for i
    by (auto simp: io_inv_def append_batches_def intro!: bind seqs_in_on_chunk seqs_append_all [OF assms])
  moreover have "io_inv (seqs_in A) (seal_full key i r sealed p now)" for i r sealed
    by (auto simp: io_inv_def seal_full_def split: option.split intro!: bind seqs_in_on_chunk)
  ultimately show ?thesis unfolding append_locked_def by (intro io_inv_bind)
qed

lemma seqs_in_append:
  assumes "seq \<in> A"
  shows "io_inv (seqs_in A) (store_append kt io key v sch seq bs now)"
  by (auto simp: io_inv_def store_append_def Let_def seqs_in_account split: prod.split
      intro!: bind_keeps [where P = "seqs_in A"] seqs_in_append_locked [OF assms])

lemma seqs_in_simple:
  assumes "seqs_in A s"
  shows "seqs_in A (observe_ddl op table s)" "seqs_in A (snd (plan_flush now s))" "seqs_in A (set_wal_segment seg s)"
    "seqs_in A (note_batch_id i bid s)" "seqs_in A (snd (store_mark_committed i n s))"
    "seqs_in A (store_note_flush_failure i now s)" "seqs_in A (snd (discard_chunk i s))"
proof -
  show "seqs_in A (observe_ddl op table s)" using assms by (auto simp: observe_ddl_def Let_def)
  show "seqs_in A (set_wal_segment seg s)" using assms by (simp add: set_wal_segment_def)
  show "seqs_in A (note_batch_id i bid s)" "seqs_in A (store_note_flush_failure i now s)"
    unfolding note_batch_id_def store_note_flush_failure_def
    by (rule io_invD [OF seqs_in_on_chunk assms], simp)+
  show "seqs_in A (snd (store_mark_committed i n s))"
    using assms by (auto simp: store_mark_committed_def intro!: bind_keeps [where P = "seqs_in A"] seqs_in_on_chunk)
  show "seqs_in A (snd (discard_chunk i s))"
    using assms by (auto simp: discard_chunk_def seqs_in_def Let_def bm_simps split: option.split)
  show "seqs_in A (snd (plan_flush now s))" using assms by (simp add: plan_flush_def Let_def)
qed

lemma seqs_in_enforce: "io_inv (seqs_in A) (enforce_pressure kt io now)"
proof -
  have fseal: "io_inv (seqs_in A :: 'a chunk_store \<Rightarrow> bool) (force_seal p now i)" for p i
  proof -
    have "snd (force_seal p now i s) =
        snd (store_seal i now (s\<lparr>cs_pending_seal := bm_insert i (SealPressure, Some p) (cs_pending_seal s)\<rparr>))"
      for s :: "'a chunk_store"
      by (simp add: force_seal_def split: prod.split)
    then show ?thesis by (auto simp: io_inv_def intro: io_invD [OF seqs_in_seal])
  qed
  have seals: "seqs_in A (snd (force_seal_all p now ids s))" if "seqs_in A s" for p ids and s :: "'a chunk_store"
    using that
  proof (induction ids arbitrary: s)
    case (Cons i ids)
    obtain ok s1 where s1: "force_seal p now i s = (ok, s1)" by fastforce
    with io_inv_result [OF fseal Cons.prems] have "seqs_in A s1" by blast
    with Cons.IH [of s1] s1 show ?case by (auto split: prod.split)
  qed simp
  have spills: "seqs_in A s \<Longrightarrow> seqs_in A (snd (spill_rounds kt io n s))" for n and s :: "'a chunk_store"
  proof (induction n arbitrary: s)
    case (Suc n)
    show ?case
    proof (cases "oldest_spillable s")
      case (Some i)
      obtain r s1 where s1: "store_spill kt (io n) i s = (r, s1)" by fastforce
      with io_inv_result [OF seqs_in_spill Suc.prems] have "seqs_in A s1" by blast
      with Suc.IH [of s1] Suc.prems Some s1 show ?thesis by (auto split: sum.split prod.split)
    qed (use Suc.prems in simp)
  qed simp
  show ?thesis
    unfolding io_inv_def
  proof (intro allI impI)
    fix s :: "'a chunk_store" assume s: "seqs_in A s"
    obtain a1 s1 where one: "(if needs_force_seal (store_pressure s)
        then force_seal_all (store_pressure s) now (bm_values (cs_open s)) s else ([], s)) = (a1, s1)" by fastforce
    then have "seqs_in A s1" using s seals [of s] by (auto split: if_splits) (metis snd_conv)
    with spills [of s1 64] s one show "seqs_in A (snd (enforce_pressure kt io now s))"
      by (auto simp: enforce_pressure_def Let_def split: prod.split)
  qed
qed

subsection \<open>The position of the accumulator\<close>

text \<open>Everything but the accumulator itself leaves its position and the chunk store alone.\<close>

abbreviation aside :: "nat \<Rightarrow> 'b chunk_store \<Rightarrow> ('b, 'x) pipeline_scheme \<Rightarrow> bool" where
  "aside n s w \<equiv> in_last_read w = n \<and> in_chunks w = s"

lemma aside_turn: "next_turn cx w = (r, w1) \<Longrightarrow> aside n s w1 = aside n s w"
  by (auto simp: next_turn_def split: list.splits)

lemma aside_remote:
  assumes "\<And>w. aside n s w \<Longrightarrow> aside n s (snd (call w))"
  shows "io_inv (aside n s) (remote cx e call)"
proof -
  have "aside n s (snd (remote cx e call w))" if "aside n s w" for w
  proof -
    obtain r w1 where t: "next_turn cx w = (r, w1)" by fastforce
    have w1: "aside n s w1" using aside_turn [OF t, of n s] that by blast
    then show ?thesis using assms [OF w1] by (cases r) (simp_all add: remote_def t)
  qed
  then show ?thesis unfolding io_inv_def by blast
qed

lemma aside_calls [io_inv_intros]:
  "io_inv (aside n s) (catalog_call cx f)" "io_inv (aside n s) (catalog_query cx g)"
  "io_inv (aside n s) (catalog_do cx h)" "io_inv (aside n s) (put_bytes cx p bs)"
  unfolding catalog_do_def catalog_call_def catalog_query_def put_bytes_def
  by (rule aside_remote; simp add: Let_def)+

lemma aside_or [io_inv_intros]: "io_inv P m \<Longrightarrow> io_inv P (io_or d m)"
  by (auto simp: io_inv_def io_or_def split: prod.split sum.split; metis snd_conv)

lemma aside_local [io_inv_intros]:
  "io_inv (aside n s) local_clock" "io_inv (aside n s) (append_to_log fenv rec)"
  "io_inv (aside n s) (\<lambda>w. (Inr (), observe rec w))"
  "io_inv (aside n s) (collect_idempotency_keys fenv seqs)"
  by (auto simp: io_inv_def local_clock_def append_to_log_def observe_def Let_def collect_idempotency_keys_def
      io_bind_def io_lift_def io_return_def split: prod.split list.split sum.split)

lemma aside_flush: "io_inv (aside n s) (flush_chunk_with_id fenv input bid)"
proof -
  have index: "io_inv (aside n s) (write_index fenv path m cols)" for path m cols
    unfolding write_index_def Let_def by (intro io_inv_intros)
  have declared: "io_inv (aside n s) (declared_columns cx table)" for cx table
    unfolding declared_columns_def by (intro io_inv_intros)
  have wfile: "io_inv (aside n s) (write_batch_file tb table shard tw bid m fmt)" for tb table shard tw bid m fmt
    unfolding write_batch_file_def Let_def by (intro io_inv_intros)
  show ?thesis
    unfolding flush_chunk_with_id_def log_record_def Let_def
    by (intro io_inv_intros index declared wfile)
qed

subsection \<open>Rounds\<close>

text \<open>The accumulator has passed \<open>q\<close>, and no chunk has it.\<close>

definition passed :: "nat \<Rightarrow> ('b, 'x) pipeline_scheme \<Rightarrow> bool" where
  "passed q w \<longleftrightarrow> q < in_last_read w \<and> seqs_in (- {q}) (in_chunks w)"

lemma passed_chunks: "passed q w \<Longrightarrow> seqs_in (- {q}) s \<Longrightarrow> passed q (w\<lparr>in_chunks := s\<rparr>)"
  by (simp add: passed_def)

lemma passed_flush: "passed q w \<Longrightarrow> passed q (snd (flush_chunk_by_id env bid i w))"
proof -
  assume p: "passed q w"
  show ?thesis
  proof (cases "flush_input (pe_chunk env) i (in_chunks w)")
    case (Inr oi)
    show ?thesis
    proof (cases oi)
      case (Some input)
      let ?w = "w\<lparr>in_chunks := note_batch_id i bid (in_chunks w)\<rparr>"
      obtain r w1 where run: "flush_chunk_with_id (pe_flush env) input bid ?w = (r, w1)" by fastforce
      have "aside (in_last_read w) (in_chunks ?w) w1"
        by (rule io_inv_result [OF aside_flush _ run]) simp
      then show ?thesis using p Inr Some run
        by (cases r) (auto simp: flush_chunk_by_id_def passed_def seqs_in_simple)
    qed (use p Inr in \<open>simp add: flush_chunk_by_id_def\<close>)
  qed (use p in \<open>simp add: flush_chunk_by_id_def passed_def seqs_in_simple\<close>)
qed

lemma passed_force_loop: "passed q w \<Longrightarrow> passed q (snd (force_flush_loop env ids now is acc w))"
proof (induction "is" arbitrary: acc w)
  case (Cons i "is")
  obtain r s where s: "store_seal i now (in_chunks w) = (r, s)" by fastforce
  have ps: "passed q (w\<lparr>in_chunks := s\<rparr>)"
    using Cons.prems io_inv_result [OF seqs_in_seal _ s] by (auto simp: passed_def)
  obtain out w1 where run: "flush_chunk_by_id env (ids i) i (w\<lparr>in_chunks := s\<rparr>) = (out, w1)" by fastforce
  with passed_flush [OF ps] have "passed q w1" by (metis snd_conv)
  with ps s run Cons.IH show ?case by (auto split: sum.split option.split)
qed simp

lemma passed_force_all: "passed q w \<Longrightarrow> passed q (snd (force_flush_all env ids now ts w))"
proof (induction ts arbitrary: w)
  case (Cons t ts)
  obtain r w1 where one: "force_flush_table env ids now t w = (r, w1)" by fastforce
  obtain out w2 where loop: "force_flush_loop env ids now (chunk_ids_of_table t (in_chunks w))
      \<lparr>ff_chunks = 0, ff_rows = 0\<rparr> w = (out, w2)" by fastforce
  with passed_force_loop [OF Cons.prems, of env ids now "chunk_ids_of_table t (in_chunks w)" "\<lparr>ff_chunks = 0, ff_rows = 0\<rparr>"]
  have "passed q w2" by simp
  moreover have "w1 = w2" using one loop by (auto simp: force_flush_table_def split: if_splits)
  ultimately have "passed q w1" by simp
  with Cons.IH [of w1] one show ?case by (auto split: prod.split)
qed simp

lemma passed_fold: "(\<And>x w. passed q w \<Longrightarrow> passed q (f x w)) \<Longrightarrow> passed q w \<Longrightarrow> passed q (fold f xs w)"
  by (induction xs arbitrary: w) auto

lemma seqs_in_fold: "(\<And>x s. seqs_in A s \<Longrightarrow> seqs_in A (f x s)) \<Longrightarrow> seqs_in A s \<Longrightarrow> seqs_in A (fold f xs s)"
  by (induction xs arbitrary: s) auto

lemma passed_plan: "passed q w \<Longrightarrow> passed q (carry_out_plan env ro now w)"
proof -
  assume p: "passed q w"
  obtain plan s0 where plan: "plan_flush now (in_chunks w) = (plan, s0)" by fastforce
  have "seqs_in (- {q}) s0" using p seqs_in_simple(2) [of "- {q}" "in_chunks w" now] plan by (simp add: passed_def)
  then have "seqs_in (- {q}) (fold (\<lambda>i s. snd (store_spill (pe_chunk env) (ro_spill ro i) i s)) (fp_spill plan)
      (fold (\<lambda>i s. snd (store_seal i now s)) (fp_seal plan) s0))"
    by (intro seqs_in_fold io_invD [OF seqs_in_spill] io_invD [OF seqs_in_seal])
  with p plan show ?thesis
    by (auto simp: carry_out_plan_def intro!: passed_fold passed_flush passed_chunks)
qed

lemma passed_relieve: "passed q w \<Longrightarrow> passed q (relieve_pressure env ro w)"
  by (auto simp: relieve_pressure_def passed_def intro!: io_invD [OF seqs_in_enforce] seqs_in_simple)

lemma seqs_in_absorb: "seq \<in> A \<Longrightarrow> seqs_in A s \<Longrightarrow> seqs_in A (snd (absorb env io now skips p seq s))"
  by (auto simp: absorb_def Let_def io_return_def split: list.split
      intro!: bind_keeps [where P = "seqs_in A"] seqs_in_append)

lemma absorb_step_seqs:
  "seq \<in> A \<Longrightarrow> seqs_in A (in_chunks w) \<Longrightarrow>
    seqs_in A (case r of Ddl d \<Rightarrow> observe_ddl (dd_op d) (dd_table d) (in_chunks w)
      | Data p \<Rightarrow> snd (absorb env io now skips p seq (in_chunks w)) | _ \<Rightarrow> in_chunks w)"
  by (auto simp: seqs_in_simple seqs_in_absorb split: wal_record.split)

lemma absorb_records_seqs:
  "fst ` set rs \<subseteq> A \<Longrightarrow> seqs_in A (in_chunks w) \<Longrightarrow> seqs_in A (in_chunks (absorb_records env ro skips rs w))"
proof (induction rs arbitrary: w)
  case (Cons r rs)
  obtain seq rec where r: "r = (seq, rec)" by (cases r)
  show ?case unfolding r absorb_records.simps Let_def
    by (rule Cons.IH) (use Cons.prems r in \<open>auto intro!: absorb_step_seqs simp del: not_None_eq\<close>)
qed simp

lemma absorb_records_position:
  "in_last_read (absorb_records env ro skips rs w) = (if rs = [] then in_last_read w else fst (last rs) + 1)"
  by (induction rs arbitrary: w) (auto simp: Let_def)

lemma passed_absorb:
  assumes "passed q w" "\<And>s r. (s, r) \<in> set rs \<Longrightarrow> q < s"
  shows "passed q (absorb_records env ro skips rs w)"
proof -
  have "fst ` set rs \<subseteq> - {q}" using assms(2) by force
  moreover have "q < fst (last rs) + 1" if "rs \<noteq> []"
    using assms(2) [of "fst (last rs)" "snd (last rs)"] that by simp
  ultimately show ?thesis
    using assms(1) by (auto simp: passed_def absorb_records_seqs absorb_records_position)
qed

lemma take_range_lower: "take_range lo hi rs out = (out', b) \<Longrightarrow> set out' \<subseteq> set out \<union> {(s, r). lo \<le> s}"
proof (induction rs arbitrary: out)
  case (Cons x rs)
  obtain seq rec where x: "x = (seq, rec)" by (cases x)
  show ?case using Cons.prems Cons.IH [of out] Cons.IH [of "out @ [x]"] by (auto simp: x split: if_splits)
qed simp

lemma scan_loop_lower:
  "scan_loop cx crc lo hi d segs out = Inr out' \<Longrightarrow> set out' \<subseteq> set out \<union> {(s, r). lo \<le> s}"
proof (induction segs arbitrary: out)
  case (Cons x segs)
  obtain n path where x: "x = (n, path)" by (cases x)
  show ?case
  proof (cases "load_segment cx crc path (file_of path d)")
    case (Inl e)
    with Cons show ?thesis by (cases e) (auto simp: x)
  next
    case (Inr y)
    obtain header records complete where y: "y = (header, records, complete)" by (cases y)
    obtain out1 b where t: "take_range lo hi records out = (out1, b)" by fastforce
    show ?thesis
      using Cons.prems Cons.IH [of out] Cons.IH [of out1] take_range_lower [OF t] Inr y t
      by (auto simp: x Let_def split: if_splits bool.splits)
  qed
qed simp

lemma scan_range_lower: "scan_range cx crc lo hi d = Inr rs \<Longrightarrow> (s, r) \<in> set rs \<Longrightarrow> lo \<le> s"
  using scan_loop_lower [of cx crc lo hi d "list_segments d" "[]" rs] by (auto simp: scan_range_def split: if_splits)

lemma passed_round: "passed q w \<Longrightarrow> passed q (snd (accumulator_round env ro skips w))"
proof -
  assume p: "passed q w"
  show ?thesis
  proof (cases "scan_synced env ro skips w")
    case (Inr w1)
    have "passed q w1"
    proof (cases "in_last_read w \<le> ww_synced_seq (in_wal w)")
      case True
      with Inr obtain rs where rs: "scan_range (fe_wal_codecs (pe_flush env)) (to_crc (fe_tools (pe_flush env)))
          (in_last_read w) (ww_synced_seq (in_wal w) + 1) (ww_dir (in_wal w)) = Inr rs"
        and w1: "w1 = absorb_records env ro skips rs w"
        by (auto simp: scan_synced_def Let_def and_then_Inr_iff)
      show ?thesis unfolding w1
        by (rule passed_absorb [OF p]) (use scan_range_lower [OF rs] p in \<open>fastforce simp: passed_def\<close>)
    qed (use Inr p in \<open>simp add: scan_synced_def Let_def\<close>)
    then show ?thesis
      using Inr by (auto simp: accumulator_round_def Let_def split: prod.split)
        (metis passed_force_all passed_plan passed_relieve snd_conv)
  qed (use p in \<open>simp add: accumulator_round_def\<close>)
qed

lemma passed_rounds: "passed q w \<Longrightarrow> passed q (accumulator_rounds env skips ros w)"
  by (induction ros arbitrary: w) (auto intro: passed_round)

text \<open>A record is in the chunks when some chunk names it.\<close>

definition covered :: "nat \<Rightarrow> 'b chunk_store \<Rightarrow> bool" where
  "covered q s \<longleftrightarrow> (\<exists>i c. bm_get (cs_chunks s) i = Some c \<and> q \<in> set (ck_seqs c))"

lemma not_covered: "\<not> covered q s \<longleftrightarrow> seqs_in (- {q}) s"
  by (auto simp: covered_def seqs_in_def)

text \<open>C14: Full memory loses acknowledged rows. \<open>ingest\<close> refuses requests under the highest pressure, but the records that are
  in the log already meet the same refusal in the chunk store; the accumulator logs the error and moves its position
  past them. Whatever the rounds after that free, flush or absorb, the rows enter no chunk of this process.\<close>

theorem rejected_rows_never_absorbed:
  assumes "holds_log (fe_wal_codecs (pe_flush env)) (to_crc (fe_tools (pe_flush env))) shard first segs (ww_dir (in_wal w))"
    and "filter (\<lambda>(s, _). in_last_read w \<le> s \<and> s < ww_synced_seq (in_wal w) + 1) (enumerate first (log_of segs)) =
      pre @ (q, Data p) # post"
    and "store_pressure (in_chunks (absorb_records env ro skips pre w)) = Reject"
    and "\<not> covered q (in_chunks w)"
  shows "\<not> covered q (in_chunks (accumulator_rounds env skips (ro # ros) w))"
proof -
  let ?w1 = "absorb_records env ro skips pre w" and ?rs = "pre @ (q, Data p) # post"
  have "sorted_wrt (\<lambda>x y. fst x < fst y) (enumerate first (log_of segs))"
    by (simp add: sorted_wrt_iff_nth_less nth_enumerate_eq)
  then have "sorted_wrt (\<lambda>x y. fst x < fst y) ?rs" unfolding assms(2) [symmetric] by (rule sorted_wrt_filter)
  then have pre: "fst ` set pre \<subseteq> - {q}" and post: "\<And>s r. (s, r) \<in> set post \<Longrightarrow> q < s"
    by (fastforce simp: sorted_wrt_append)+
  have "(q, Data p) \<in> set ?rs" by simp
  then have "(q, Data p) \<in> set (filter (\<lambda>(s, _). in_last_read w \<le> s \<and> s < ww_synced_seq (in_wal w) + 1) (enumerate first (log_of segs)))"
    using assms(2) by simp
  then have le: "in_last_read w \<le> ww_synced_seq (in_wal w)" by auto
  have "seqs_in (- {q}) (in_chunks w)" using assms(4) by (simp add: not_covered)
  then have in1: "seqs_in (- {q}) (in_chunks ?w1)" by (rule absorb_records_seqs [OF pre])
  have rejected: "snd (absorb env io now skips p q (in_chunks ?w1)) = in_chunks ?w1" for io now
    using assms(3) by (simp add: absorb_def Let_def store_append_def io_bind_def split: list.split)
  have split: "absorb_records env ro skips (xs @ ys) w = absorb_records env ro skips ys (absorb_records env ro skips xs w)"
    for xs ys and w :: "('b, 'c) pipeline_scheme"
    by (induction xs arbitrary: w) (auto simp: Let_def)
  have "passed q (?w1\<lparr>in_chunks := in_chunks ?w1, in_last_read := q + 1, in_absorbed_seq := q + 1\<rparr>)"
    using in1 by (simp add: passed_def)
  then have scanned: "passed q (absorb_records env ro skips ?rs w)"
    unfolding split by (simp add: rejected passed_absorb post)
  have scan: "scan_synced env ro skips w = Inr (absorb_records env ro skips ?rs w)"
    by (simp only: scan_synced_def Let_def scan_range_log [OF assms(1)] assms(2) le if_True and_then.simps)
  let ?w2 = "absorb_records env ro skips ?rs w"
  have "snd (accumulator_round env ro skips w) = snd (force_flush_all env (ro_batch_id ro) (w_clock ?w2) (ro_force ro)
      (carry_out_plan env ro (w_clock ?w2) (relieve_pressure env ro ?w2)))"
    by (simp only: accumulator_round_def scan Let_def sum.case) (simp split: prod.split)
  then have "passed q (snd (accumulator_round env ro skips w))"
    using passed_force_all [OF passed_plan [OF passed_relieve [OF scanned]]] by simp
  then have "passed q (accumulator_rounds env skips (ro # ros) w)" by (simp add: passed_rounds)
  then show ?thesis by (simp add: passed_def not_covered)
qed

end
