(* ===== verification/Resume_Safety.thy ===== *)
theory Resume_Safety
  imports Ingest_Resume Pipeline_Rejects Flush_Safety
begin

text \<open>
  Recovery of a log with one request and one batch, when no other process interferes, and two ways in which its rows
  are counted twice: a batch that recovery has committed is aborted by the monitor, and the next recovery gives its
  rows to the accumulator again; a pending batch is written again with the rows of other shards, which the
  accumulator absorbs as well.
\<close>

subsection \<open>What recovery reads\<close>

lemma logs_holds:
  assumes "logs env first n rs w"
  obtains segs where "holds_log (fe_wal_codecs env) (to_crc (fe_tools env)) (ww_shard_id (in_wal w)) first segs (ww_dir (in_wal w))"
    "log_of segs = rs" "writer_inv (fe_wal_codecs env) (to_crc (fe_tools env)) first segs (in_wal w)"
  using assms that by (auto simp: logs_def writer_inv_def)

definition recovered_batches :: "nat \<Rightarrow> wal_record list \<Rightarrow> (string, batch_state) bmap" where
  "recovered_batches first rs = bm_states (replay (enumerate first rs) batch_map_default)"

lemma resume_unfold:
  assumes "logs (pe_flush env) first n rs w"
  shows "resume_recovered env w = io_bind (reindex_keys env (enumerate first rs)) (\<lambda>_.
      io_bind (resume_loop env (ddl_timeline (enumerate first rs))
        (sort_key bs_created_at_ms (bm_values (recovered_batches first rs)))) (\<lambda>out w3.
        (Inr (count_redone out), w3\<lparr>in_skip := List.map_filter resumed_claim out\<rparr>)))
      (w\<lparr>in_tracker := (in_tracker w)\<lparr>bm_states :=
        bm_insert_all (bm_entries (recovered_batches first rs)) (bm_states (in_tracker w))\<rparr>\<rparr>)"
proof -
  obtain segs where h: "holds_log (fe_wal_codecs (pe_flush env)) (to_crc (fe_tools (pe_flush env))) (ww_shard_id (in_wal w)) first
      segs (ww_dir (in_wal w))" "log_of segs = rs" using logs_holds [OF assms] by blast
  from recover_log [OF h(1), of False] obtain infos where
    "recover (fe_wal_codecs (pe_flush env)) (to_crc (fe_tools (pe_flush env))) False (Some (ww_dir (in_wal w))) =
      Inr \<lparr>rv_last_seq = (if segs = [] then 0 else first + length (log_of segs)),
        rv_synced_seq = (if log_of segs = [] then 0 else first + length (log_of segs) - 1),
        rv_states = replay (enumerate first rs) batch_map_default, rv_segments = infos, rv_torn_write_detected = False\<rparr>"
    using h(2) by auto
  then show ?thesis
    using scan_from_log [OF h(1)] h(2)
    by (simp add: resume_recovered_def Let_def io_bind_def io_lift_def tracker_load_from_def recovered_batches_def)
qed

lemma reindex_alone:
  "w_turns w = [] \<Longrightarrow> \<exists>st. reindex_keys env rs w = (Inr (), w\<lparr>w_catalog := st\<rparr>) \<and> files st = files (w_catalog w)"
proof (induction rs arbitrary: w)
  case (Cons x rs)
  obtain s r where x: "x = (s, r)" by (cases x)
  show ?case
  proof (cases "data_key r")
    case (Some k)
    let ?st = "record_idempotency \<lparr>ir_client_request_id = k, ir_batch_id = [], ir_committed_at = w_clock w div 1000\<rparr> (w_catalog w)"
    have "files ?st = files (w_catalog w)" by (auto simp: record_idempotency_def split: option.split)
    moreover have "register_key env (Some k) w = (Inr (), w\<lparr>w_catalog := ?st\<rparr>)"
      using Cons.prems by (simp add: register_key_def io_bind_def local_clock_def catalog_do_def alone_calls)
    moreover obtain st where "reindex_keys env rs (w\<lparr>w_catalog := ?st\<rparr>) = (Inr (), w\<lparr>w_catalog := st\<rparr>)" "files st = files ?st"
      using Cons.IH [of "w\<lparr>w_catalog := ?st\<rparr>"] Cons.prems by auto
    ultimately show ?thesis by (auto simp: x Some io_bind_def)
  qed (use Cons in \<open>simp add: x\<close>)
next
  case Nil
  show ?case by (intro exI [of _ "w_catalog w"]) (simp add: io_return_def)
qed

text \<open>The log of one request and the records of one batch.\<close>

definition marks_of :: "string \<Rightarrow> wal_record list \<Rightarrow> bool" where
  "marks_of bid rs \<longleftrightarrow> (\<forall>r \<in> set rs. record_batch_id r = Some bid)"

lemma marks_own: "marks_of bid rs \<Longrightarrow> k \<noteq> bid \<Longrightarrow> fold (batch_event k) rs s = s"
  by (induction rs arbitrary: s) (auto simp: marks_of_def batch_event_other)

lemma fold_numbered: "fold (\<lambda>(_, r). f r) (enumerate n rs) s = fold f rs s"
  by (induction rs arbitrary: n s) auto

lemma data_no_event: "fold (batch_event k) (map Data ps @ marks) None = fold (batch_event k) marks None"
  by (induction ps) auto

lemma recovered_get:
  assumes "marks_of bid marks"
  shows "bm_get (recovered_batches first (map Data ps @ marks)) k = (if k = bid then fold (batch_event bid) marks None else None)"
proof -
  have "fold (batch_event k) (map Data ps @ marks) None = (if k = bid then fold (batch_event bid) marks None else None)"
    using marks_own [OF assms, of k None] data_no_event [of k ps marks] by auto
  then show ?thesis
    by (simp add: recovered_batches_def replay_batch batch_map_default_def fold_numbered del: replay_simps)
qed

lemmas recovered_get_one = recovered_get [where ps = "[p]" for p, simplified]

lemma marks_plain:
  assumes "marks_of bid marks"
  shows "ddl_timeline (enumerate n (map Data ps @ marks)) = []"
proof -
  have "ddl_timeline (enumerate n marks) = []" for n
    using assms by (induction marks arbitrary: n) (auto simp: marks_of_def split: wal_record.split)
  then show ?thesis by (induction ps arbitrary: n) simp_all
qed

lemmas marks_plain_one = marks_plain [where ps = "[p]" for p, unfolded list.map append_Cons append_Nil]

lemma no_ddl_era: "same_era [] s t" "era_now [] t = 0"
  by (simp_all add: same_era_def era_now_def liveness_at_def)

lemma recommit_alone:
  assumes "logs (pe_flush env) first n rs w"
  shows "\<exists>st r. recommit_into_catalog (pe_flush env) b t w = (r, w\<lparr>w_catalog := st\<rparr>) \<and>
    (length (bs_s3_paths b) \<le> 1 \<longrightarrow> (\<exists>v. r = Inr v))"
proof -
  have ok: "length (cf_files req) \<le> 1 \<Longrightarrow> fst (commit_files req now st) \<noteq> Inl e" for req now st e
    by (metis commit_one_file fst_conv sum.distinct(2))
  have "w_turns w = []" by (rule logs_alone [OF assms])
  then show ?thesis
    using collect_keys_alone [OF assms, of "fst (bs_wal_seq_range b)" "snd (bs_wal_seq_range b)"]
    by (auto simp: recommit_into_catalog_def io_bind_def local_clock_def io_or_def alone_calls io_return_def ok
        split: sum.split prod.split)
qed

subsection \<open>A record enters the chunks\<close>

definition fresh_chunks :: "'b chunk_store \<Rightarrow> bool" where
  "fresh_chunks s \<longleftrightarrow> cs_chunks s = bm_empty \<and> cs_open s = bm_empty \<and> cs_liveness s = bm_empty \<and>
     \<not> rejects_writes (store_pressure s)"

lemma covered_on_chunk:
  fixes m :: "'b chunk \<Rightarrow> (lake_error + unit) \<times> 'b chunk"
  assumes "\<And>c. ck_seqs (snd (m c)) = ck_seqs c"
  shows "io_inv (covered q) (on_chunk i m)"
  unfolding io_inv_def
proof (intro allI impI)
  fix s :: "'b chunk_store" assume "covered q s"
  then obtain j c where c: "bm_get (cs_chunks s) j = Some c" "q \<in> set (ck_seqs c)" by (auto simp: covered_def)
  show "covered q (snd (on_chunk i m s))"
  proof (cases "bm_get (cs_chunks s) i")
    case (Some d)
    obtain r d' where d: "m d = (r, d')" by fastforce
    have "ck_seqs d' = ck_seqs d" using assms [of d] d by simp
    then have "bm_get (cs_chunks (snd (on_chunk i m s))) j = Some (if j = i then d' else c) \<and>
        q \<in> set (ck_seqs (if j = i then d' else c))"
      using c Some d by (auto simp: on_chunk_def bm_simps)
    then show ?thesis unfolding covered_def by blast
  qed (use c in \<open>auto simp: on_chunk_def covered_def\<close>)
qed

lemma covered_update [simp]:
  "covered q (s\<lparr>cs_open := a\<rparr>) = covered q s" "covered q (s\<lparr>cs_ledger := b\<rparr>) = covered q s"
  "covered q (s\<lparr>cs_spills := c\<rparr>) = covered q s" "covered q (s\<lparr>cs_version := e\<rparr>) = covered q s"
  by (simp_all add: covered_def)

lemma covered_account: "covered q s \<Longrightarrow> covered q (account kt io n s)"
proof -
  have "io_inv (covered q) (spill_finish h m i)" for h m i
    by (auto simp: io_inv_def spill_finish_def intro!: bind_keeps [where P = "covered q"] covered_on_chunk)
  note fin = io_invD [OF this]
  have "io_inv (covered q) (store_spill kt io i)" for i
    by (auto simp: io_inv_def store_spill_def split: sum.split option.split prod.split intro!: fin)
  note spill = io_inv_result [OF this]
  show "covered q s \<Longrightarrow> covered q (account kt io n s)"
    by (auto simp: account_def relieve_once_def Let_def split: prod.split bool.split option.split dest: spill)
qed

lemma append_all_new:
  assumes "ck_state c = Open" "ck_data c = InMemory bs0" "\<forall>b \<in> set bs. kt_schema kt b = ck_schema c"
    and "bs \<noteq> [] \<or> seq \<in> set (ck_seqs c)"
  shows "\<exists>c'. append_all kt seq bs c = (Inr (), c') \<and> seq \<in> set (ck_seqs c')"
  using assms
proof (induction bs arbitrary: c bs0)
  case (Cons b bs)
  obtain c1 where c1: "chunk_append kt seq b c = (Inr (), c1)" "ck_state c1 = Open" "ck_data c1 = InMemory (bs0 @ [b])"
    "ck_schema c1 = ck_schema c" "seq \<in> set (ck_seqs c1)"
    using Cons.prems by (auto simp: chunk_append_def Let_def)
  from Cons.IH [OF c1(2,3)] c1 Cons.prems(3) show ?case by (auto simp: io_bind_def)
qed (auto simp: io_return_def)

lemma bind_unit_state: "snd (io_bind m (\<lambda>_. io_return x) w) = snd (m w)"
  by (simp add: io_bind_def io_return_def split: prod.split sum.split)

lemma absorb_fresh:
  assumes "fresh_chunks s" "decode_batches env p = b # bs"
    and "\<forall>c \<in> set skips. \<not> skip_claims c (dp_table p) (dp_shard p) (dp_time_window p) 0 seq"
    and "\<forall>b' \<in> set (b # bs). kt_schema (pe_chunk env) b' = at_schema (fe_arrays (pe_flush env)) b"
  shows "covered seq (snd (absorb env io now skips p seq s))"
proof -
  let ?key = "\<lparr>cky_shard = \<lparr>sid_table = dp_table p, sid_shard = dp_shard p, sid_window = dp_time_window p\<rparr>, cky_epoch = 0\<rparr>"
  let ?new = "chunk_new (cs_next_id s + 1) ?key (dp_schema_version p) (at_schema (fe_arrays (pe_flush env)) b) now"
  let ?s1 = "s\<lparr>cs_next_id := cs_next_id s + 1, cs_chunks := bm_insert (cs_next_id s + 1) ?new (cs_chunks s),
      cs_open := bm_insert ?key (cs_next_id s + 1) (cs_open s)\<rparr>"
  have alive: "store_liveness t s = liveness_default" for t using assms(1) by (simp add: fresh_chunks_def store_liveness_def)
  obtain c' where c': "append_all (pe_chunk env) seq (b # bs) ?new = (Inr (), c')" "seq \<in> set (ck_seqs c')"
    using append_all_new [of ?new "[]" "b # bs" "pe_chunk env" seq] assms(4) by (auto simp: chunk_new_def)
  let ?s2 = "?s1\<lparr>cs_chunks := bm_insert (cs_next_id s + 1) c' (cs_chunks ?s1)\<rparr>"
  have app: "append_batches (pe_chunk env) (cs_next_id s + 1) seq (b # bs) now ?s1 =
      (Inr (should_seal (csc_policy (cs_config ?s2)) c' now), ?s2)"
    using c'(1) by (simp add: append_batches_def on_chunk_def io_bind_def bm_simps del: append_all.simps)
  have cov: "covered seq ?s2" using c'(2) by (auto simp: covered_def bm_simps)
  have seal: "covered seq (snd (seal_full k i r sealed pr now ?s2))" for k i r sealed pr
    using cov by (auto simp: seal_full_def split: option.split intro!: bind_keeps [where P = "covered seq"] covered_on_chunk)
  have locked: "append_locked (pe_chunk env) ?key (dp_schema_version p) (at_schema (fe_arrays (pe_flush env)) b) seq (b # bs)
      pr now s = seal_full ?key (cs_next_id s + 1) (should_seal (csc_policy (cs_config ?s2)) c' now) None pr now ?s2" for pr
    using assms(1) app by (simp add: append_locked_def io_bind_def roll_schema_def open_for_def fresh_chunks_def Let_def)
  have "covered seq (snd (store_append (pe_chunk env) io ?key (dp_schema_version p)
      (at_schema (fe_arrays (pe_flush env)) b) seq (b # bs) now s))"
  proof -
    obtain r s3 where "seal_full ?key (cs_next_id s + 1) (should_seal (csc_policy (cs_config ?s2)) c' now) None
        (store_pressure s) now ?s2 = (r, s3)" by fastforce
    moreover from this have "covered seq s3" using seal by (metis snd_conv)
    ultimately show ?thesis
      using assms(1) by (cases r) (auto simp: store_append_def io_bind_def locked fresh_chunks_def Let_def covered_account
        split: prod.split)
  qed
  then show ?thesis
    using assms(2,3) by (simp add: absorb_def list_ex_iff Let_def alive liveness_default_def store_is_stale_def bind_unit_state)
qed

lemma absorb_marks:
  "marks_of bid marks \<Longrightarrow> in_chunks (absorb_records env ro skips (enumerate n marks) w) = in_chunks w"
  by (induction marks arbitrary: n w) (auto simp: marks_of_def Let_def split: wal_record.split)

lemma absorb_first:
  assumes "marks_of bid marks"
  shows "in_chunks (absorb_records env ro skips (enumerate first (Data p # marks)) w) =
    snd (absorb env (ro_absorb ro first) (w_clock w) skips p first (in_chunks w))"
  by (simp only: enumerate_simps absorb_records.simps Let_def wal_record.case absorb_marks [OF assms]) simp

subsection \<open>A batch that was written but not committed\<close>

lemma batch_id_stays: "batch_event bid r s = Some st \<Longrightarrow> (\<And>x. s = Some x \<Longrightarrow> bs_batch_id x = bid) \<Longrightarrow> bs_batch_id st = bid"
  by (cases r) (auto simp: pending_state_def s3_written_state_def split: if_splits)

lemma fold_batch_id:
  "fold (batch_event bid) rs s = Some st \<Longrightarrow> (\<And>x. s = Some x \<Longrightarrow> bs_batch_id x = bid) \<Longrightarrow> bs_batch_id st = bid"
  by (induction rs arbitrary: s) (auto intro: batch_id_stays)

lemma bm_single: "(\<And>k. bm_get m k = (if k = a then Some x else None)) \<Longrightarrow> m = bm_insert a x bm_empty"
  by (rule bm_eqI) (simp add: bm_simps)

lemma bm_none: "(\<And>k. bm_get m k = None) \<Longrightarrow> m = bm_empty"
  by (rule bm_eqI) simp

lemma single_values [simp]: "bm_values (bm_insert a x bm_empty) = [x]" "bm_values bm_empty = []"
  by (simp_all add: bm_values_def)

text \<open>Recovery commits the batch again and claims its range; it writes nothing to the log, and the tracker shows the batch as open.\<close>

lemma resume_written_run:
  assumes "logs (pe_flush env) first n (Data p # marks) w" "marks_of bid marks"
    and "fold (batch_event bid) marks None = Some st" "bs_status st = S3Written" "terminal_table st = Some t"
    and "in_tracker w = tracker_new"
  obtains r st2 where "resume_recovered env w = (case r of
      Inl e \<Rightarrow> (Inl e, w\<lparr>in_tracker := tracker_new\<lparr>bm_states := bm_insert bid st bm_empty\<rparr>, w_catalog := st2\<rparr>)
    | Inr _ \<Rightarrow> (Inr (0, 1), w\<lparr>in_tracker := tracker_new\<lparr>bm_states := bm_insert bid st bm_empty\<rparr>, w_catalog := st2,
        in_skip := [batch_claim st t 0]\<rparr>))" "length (bs_s3_paths st) \<le> 1 \<Longrightarrow> \<exists>v. r = Inr (v :: nat)"
proof -
  let ?rs = "Data p # marks" and ?m = "bm_insert bid st bm_empty"
  have m: "recovered_batches first ?rs = ?m"
    by (rule bm_single) (simp add: recovered_get_one [OF assms(2)] assms(3))
  let ?w = "w\<lparr>in_tracker := tracker_new\<lparr>bm_states := ?m\<rparr>\<rparr>"
  have tr: "(in_tracker w)\<lparr>bm_states := bm_insert_all (bm_entries ?m) (bm_states (in_tracker w))\<rparr> =
      tracker_new\<lparr>bm_states := ?m\<rparr>"
    by (simp add: assms(6) tracker_new_def batch_map_default_def)
  have unf: "resume_recovered env w = io_bind (reindex_keys env (enumerate first ?rs)) (\<lambda>_. io_bind (resume_loop env [] [st])
      (\<lambda>out w3. (Inr (count_redone out), w3\<lparr>in_skip := List.map_filter resumed_claim out\<rparr>))) ?w"
    by (simp only: resume_unfold [OF assms(1)] m tr marks_plain_one [OF assms(2)] single_values sort_key_simps insort_key.simps)
  obtain st1 where re: "reindex_keys env (enumerate first ?rs) ?w = (Inr (), ?w\<lparr>w_catalog := st1\<rparr>)"
    using reindex_alone [of ?w env "enumerate first ?rs"] logs_alone [OF assms(1)] by auto
  have lg: "logs (pe_flush env) first n ?rs (?w\<lparr>w_catalog := st1\<rparr>)" using assms(1) by (simp add: logs_def alone_def)
  obtain st2 r where com: "recommit_into_catalog (pe_flush env) st t (?w\<lparr>w_catalog := st1\<rparr>) =
      (r, ?w\<lparr>w_catalog := st1\<rparr>\<lparr>w_catalog := st2\<rparr>)" "length (bs_s3_paths st) \<le> 1 \<Longrightarrow> \<exists>v. r = Inr v"
    using recommit_alone [OF lg] by blast
  have loop: "resume_loop env [] [st] (?w\<lparr>w_catalog := st1\<rparr>) = (case r of Inl e \<Rightarrow> (Inl e, ?w\<lparr>w_catalog := st2\<rparr>)
      | Inr _ \<Rightarrow> (Inr [Recommitted (batch_claim st t 0)], ?w\<lparr>w_catalog := st2\<rparr>))"
    using com assms(4,5) by (auto simp: io_bind_def resume_batch_def resume_terminal_def no_ddl_era io_return_def split: sum.split)
  have "resume_recovered env w = (case r of Inl e \<Rightarrow> (Inl e, ?w\<lparr>w_catalog := st2\<rparr>)
      | Inr _ \<Rightarrow> (Inr (0, 1), ?w\<lparr>w_catalog := st2, in_skip := [batch_claim st t 0]\<rparr>))"
    using loop re unfolding unf
    by (cases r) (simp_all add: io_bind_def List.map_filter_def count_redone_def del: resume_loop.simps reindex_keys.simps enumerate_simps)
  with com(2) that show thesis by simp
qed

lemma resume_written:
  assumes "logs (pe_flush env) first n (Data p # marks) w" "marks_of bid marks"
    and "fold (batch_event bid) marks None = Some st" "bs_status st = S3Written" "terminal_table st = Some t"
    and "in_tracker w = tracker_new" "resume_recovered env w = (Inr counts, w1)"
  shows "logs (pe_flush env) first n (Data p # marks) w1 \<and> in_skip w1 = [batch_claim st t 0] \<and>
    in_tracker w1 = tracker_new\<lparr>bm_states := bm_insert bid st bm_empty\<rparr> \<and> in_chunks w1 = in_chunks w"
proof -
  obtain r :: "lake_error + nat" and st2 where "resume_recovered env w = (case r of
      Inl e \<Rightarrow> (Inl e, w\<lparr>in_tracker := tracker_new\<lparr>bm_states := bm_insert bid st bm_empty\<rparr>, w_catalog := st2\<rparr>)
    | Inr _ \<Rightarrow> (Inr (0, 1), w\<lparr>in_tracker := tracker_new\<lparr>bm_states := bm_insert bid st bm_empty\<rparr>, w_catalog := st2,
        in_skip := [batch_claim st t 0]\<rparr>))" by (rule resume_written_run [OF assms(1-6)])
  then show ?thesis using assms(1,7) by (auto simp: logs_def alone_def split: sum.splits)
qed

text \<open>A recovery that finds no batch claims nothing and leaves the files of the catalog alone.\<close>

lemma resume_nothing:
  assumes "logs (pe_flush env) first n (Data p # marks) w" "marks_of bid marks" "fold (batch_event bid) marks None = None"
  obtains st where "resume_recovered env w = (Inr (0, 0), w\<lparr>w_catalog := st, in_skip := []\<rparr>)" "files st = files (w_catalog w)"
proof -
  have m: "recovered_batches first (Data p # marks) = bm_empty"
    by (rule bm_none) (simp add: recovered_get_one [OF assms(2)] assms(3))
  have same: "w\<lparr>in_tracker := (in_tracker w)\<lparr>bm_states := bm_insert_all (bm_entries bm_empty) (bm_states (in_tracker w))\<rparr>\<rparr> = w"
    by simp
  obtain st where "reindex_keys env (enumerate first (Data p # marks)) w = (Inr (), w\<lparr>w_catalog := st\<rparr>)" "files st = files (w_catalog w)"
    using reindex_alone [of w env "enumerate first (Data p # marks)"] logs_alone [OF assms(1)] by auto
  then show thesis
    using that by (simp add: resume_unfold [OF assms(1)] m same marks_plain_one [OF assms(2)] io_bind_def io_return_def
        count_redone_def List.map_filter_def del: reindex_keys.simps enumerate_simps)
qed

lemma tick_one:
  assumes "writer_room cx crc first segs (Suc n) w" "bm_states v = bm_insert bid st bm_empty" "bs_batch_id st = bid"
    and "is_timed_out st now (wf_batch_timeout cfg)" "writable cx crc (abort_record bid)" "\<forall>b. good_io (io b)"
  obtains x tr segs' where "monitor_tick cx crc cfg io io_disk rm_ok live_view None [] now (w, v) = (x, tr)"
    "writer_room cx crc first segs' n x" "log_of segs' = log_of segs @ [abort_record bid]"
proof -
  have "\<not> is_terminal (bs_status st)" using assms(4) by (simp add: is_timed_out_def)
  then have one: "bv_non_terminal live_view v = [st]" by (simp add: live_view_def tracker_non_terminal_def assms(2))
  obtain ack x segs' where a: "wal_append cx crc cfg (io bid) (abort_record bid) w = (Inr ack, x)"
    "writer_room cx crc first segs' n x" "log_of segs' = log_of segs @ [abort_record bid]"
    using wal_append_room [OF assms(1,5), of "io bid" cfg] assms(6) by blast
  have "monitor_tick cx crc cfg io io_disk rm_ok live_view None [] now (w, v) = (x, bv_note_abort live_view bid v)"
    using assms(3,4) a(1) by (simp add: monitor_tick_def Let_def one abort_one_def abort_record_def protect_disk_def monitor_clean_def)
  with a(2,3) that show thesis by blast
qed


end
