(* ===== verification/Pipeline_Ingest.thy ===== *)
theory Pipeline_Ingest
  imports Ingest_Pipeline Flush_Safety
begin

text \<open>
  What a request leaves behind when no other process interferes: one record in the log, and its key, so that a
  repetition is answered without writing anything; and what two requests with one key leave behind when both have
  been admitted before either has been written.
\<close>

subsection \<open>The table stays\<close>

lemma get_table_simp: "get_table t st = bm_get (tables st) (normalize_table t)"
  by (simp add: get_table_def normalize_table_def split: prod.split)

lemma evolve_keeps_table:
  "get_table t st \<noteq> None \<Longrightarrow> get_table t (snd (evolve_schema ser deser dbg req now st)) \<noteq> None"
  by (auto simp: evolve_schema_def get_table_simp Let_def bm_simps bump_applied_def bump_schema_ver_def
      split: option.split sum.split)

lemma evolve_keeps_keys: "idempotency (snd (evolve_schema ser deser dbg req now st)) = idempotency st"
  by (auto simp: evolve_schema_def Let_def bump_applied_def bump_schema_ver_def split: option.split sum.split)

lemma record_keeps_table: "get_table t (record_idempotency r st) = get_table t st"
  by (auto simp: record_idempotency_def get_table_simp split: option.split)

text \<open>The log, the table \<open>t\<close> and the keys \<open>ks\<close> are there.\<close>

definition holds :: "('a, 'b) pipeline_env \<Rightarrow> string \<Rightarrow> nat \<Rightarrow> nat \<Rightarrow> wal_record list \<Rightarrow> (string, idempotency_record) bmap \<Rightarrow>
    ('b, 'x) pipeline_scheme \<Rightarrow> bool" where
  "holds env t first n rs ks w \<longleftrightarrow> logs (pe_flush env) first n rs w \<and> get_table t (w_catalog w) \<noteq> None \<and>
     idempotency (w_catalog w) = ks"

lemma logs_caches [simp]:
  "logs env first n rs (w\<lparr>ig_schemas := a\<rparr>) = logs env first n rs w"
  "logs env first n rs (w\<lparr>ig_parts := b\<rparr>) = logs env first n rs w"
  by (simp_all add: logs_def alone_def)

lemma holds_catalog_call:
  assumes "\<And>now st. get_table t st \<noteq> None \<Longrightarrow> get_table t (snd (f now st)) \<noteq> None"
    and "\<And>now st. idempotency (snd (f now st)) = idempotency st" "holds env t first n rs ks w"
  shows "holds env t first n rs ks (snd (catalog_call cx f w))"
  using assms logs_alone [of "pe_flush env" first n rs w] by (simp add: holds_def alone_calls)

lemma holds_resolve:
  assumes "holds env t first n rs ks w"
  shows "holds env t first n rs ks (snd (resolve_schema_version cx table incoming w))"
proof -
  have update: "holds env t first n rs ks (cache_update table' s v w) = holds env t first n rs ks w" for table' s v w
    by (simp add: holds_def cache_update_def)
  have get: "holds env t first n rs ks w1" if "cache_get cx table w = (r, w1)" "holds env t first n rs ks w" for w w1 r
  proof -
    have "holds env t first n rs ks (snd (catalog_call cx (\<lambda>_ st. (table_schema (cx_deser cx) table st, st)) w))"
      by (rule holds_catalog_call) (use that(2) in simp_all)
    then show ?thesis using that
      by (auto simp: cache_get_def io_bind_def io_fail_def update split: option.splits prod.splits sum.splits)
  qed
  have evolve: "holds env t first n rs ks (snd (catalog_call cx (\<lambda>now st. evolve_schema ser deser dbg req (now div 1000) st) w))"
    if "holds env t first n rs ks w" for ser deser dbg req and w :: "('b, 'x) pipeline_scheme"
    by (rule holds_catalog_call) (use that in \<open>simp_all only: evolve_keeps_table evolve_keeps_keys not_False_eq_True\<close>)
  have "holds env t first n rs ks (snd (resolve_loop cx table incoming k w))" if "holds env t first n rs ks w"
    for k and w :: "('b, 'x) pipeline_scheme"
    using that
  proof (induction k arbitrary: w)
    case (Suc k)
    obtain r w1 where r: "cache_get cx table w = (r, w1)" by fastforce
    have w1: "holds env t first n rs ks w1" by (rule get [OF r Suc.prems])
    show ?case
    proof (cases r)
      case (Inr cached)
      show ?thesis
      proof (cases "classify (ca_schema cached) incoming")
        case (NeedsEvolve change)
        let ?req = "\<lparr>ev_table = table, ev_change = change, ev_expected_version = ca_version cached\<rparr>"
        obtain a w2 where call: "catalog_call cx (\<lambda>now st. evolve_schema (cx_ser cx) (cx_deser cx) (cx_dbg cx) ?req
            (now div 1000) st) w1 = (a, w2)" by fastforce
        with evolve [OF w1] have w2: "holds env t first n rs ks w2" by (metis snd_conv)
        show ?thesis
          using r Inr NeedsEvolve call w2 Suc.IH [of "cache_update table s v w2" for s v]
          by (auto simp: io_bind_def update split: sum.split option.split prod.split)
      qed (use r Inr w1 in \<open>simp_all add: io_bind_def io_return_def io_fail_def\<close>)
    qed (use r w1 in \<open>simp add: io_bind_def\<close>)
  qed (simp add: io_fail_def)
  then show ?thesis unfolding resolve_schema_version_def using assms by blast
qed

lemma holds_window:
  assumes "holds env t first n rs ks w"
  shows "\<exists>declared w1. event_window env b w = (Inr (snd (window_of (partition_time_ms (pe_raw0 env)
      (fe_view (pe_flush env) (ib_record_batch b)) declared) (max 0 (ib_received_ms b)))), w1) \<and> holds env t first n rs ks w1"
proof -
  obtain declared w1 where d: "partition_cache_get (pe_codecs env) (qualify_table (ib_table b)) w = (declared, w1)" by fastforce
  have "holds env t first n rs ks w1"
    using d assms logs_alone [of "pe_flush env" first n rs w]
    by (auto simp: partition_cache_get_def alone_calls holds_def Let_def split: option.splits)
  with d show ?thesis by (auto simp: event_window_def)
qed

subsection \<open>One request\<close>

text \<open>The record of an admitted request, in terms of what the table declares as its partition columns.\<close>

definition request_record :: "('a, 'b) pipeline_env \<Rightarrow> 'b ingest_batch \<Rightarrow> nat \<Rightarrow> bytes \<Rightarrow> string list \<Rightarrow> data_payload" where
  "request_record env b v ipc declared =
     data_record b (qualify_table (ib_table b)) v ipc (snd (window_of (partition_time_ms (pe_raw0 env)
       (fe_view (pe_flush env) (ib_record_batch b)) declared) (max 0 (ib_received_ms b))))"

lemma holds_register:
  assumes "holds env t first n rs ks w"
  obtains w1 where "register_key env key w = (Inr (), w1)"
    "holds env t first n rs (case key of None \<Rightarrow> ks | Some k \<Rightarrow>
       idempotency (record_idempotency \<lparr>ir_client_request_id = k, ir_batch_id = [], ir_committed_at = w_clock w div 1000\<rparr>
         (w_catalog w))) w1"
proof -
  have alone: "w_turns w = []" using assms logs_alone by (auto simp: holds_def)
  show thesis
  proof (cases key)
    case None
    with assms that show thesis by (simp add: register_key_def io_return_def)
  next
    case (Some k)
    let ?r = "\<lparr>ir_client_request_id = k, ir_batch_id = [], ir_committed_at = w_clock w div 1000\<rparr>"
    show thesis
      by (rule that [of "w\<lparr>w_catalog := record_idempotency ?r (w_catalog w)\<rparr>"])
        (use assms Some in \<open>simp_all add: register_key_def io_bind_def local_clock_def catalog_do_def alone_calls alone
          holds_def record_keeps_table\<close>)
  qed
qed

lemma record_has_key: "bm_get (idempotency (record_idempotency r st)) (ir_client_request_id r) \<noteq> None"
  by (auto simp: record_idempotency_def bm_simps split: option.split)

lemma admitted_logged:
  assumes "holds env t first (Suc n) rs ks w" "ingest_admitted env b (key, False) w = (Inr rc, w')"
    and "pe_ipc_encode env (ib_record_batch b) = Some ipc"
    and "\<And>declared. env_writable (pe_flush env) (Data (request_record env b (rc_schema_version rc) ipc declared))"
  obtains declared ks' where "holds env t first n (rs @ [Data (request_record env b (rc_schema_version rc) ipc declared)]) ks' w'"
    "rc_wal_seq rc = first + length rs" "\<not> rc_duplicate rc" "\<And>k. key = Some k \<Longrightarrow> bm_get ks' k \<noteq> None"
proof -
  let ?t = "qualify_table (ib_table b)"
  obtain v w1 where v: "resolve_schema_version (pe_codecs env) ?t (at_schema (fe_arrays (pe_flush env)) (ib_record_batch b)) w =
      (Inr v, w1)"
    using assms(2) by (auto simp: ingest_admitted_def io_bind_def split: prod.splits sum.splits)
  have w1: "holds env t first (Suc n) rs ks w1" using holds_resolve [OF assms(1)] v by (metis snd_conv)
  obtain declared w2 where win: "event_window env b w1 = (Inr (snd (window_of (partition_time_ms (pe_raw0 env)
      (fe_view (pe_flush env) (ib_record_batch b)) declared) (max 0 (ib_received_ms b)))), w2)"
    and w2: "holds env t first (Suc n) rs ks w2" using holds_window [OF w1] by blast
  let ?p = "request_record env b v ipc declared"
  obtain ack w3 where log: "append_to_log (pe_flush env) (Data ?p) w2 = (Inr ack, w3)"
    and run: "log_rows env b v (snd (window_of (partition_time_ms (pe_raw0 env)
      (fe_view (pe_flush env) (ib_record_batch b)) declared) (max 0 (ib_received_ms b)))) w2 = (Inr ack, w3)"
    using assms(2,3) v win
    by (auto simp: ingest_admitted_def io_bind_def log_rows_def request_record_def split: prod.splits sum.splits if_splits)
  obtain w4 where reg: "register_key env key w3 = (Inr (), w4)" and rc: "rc_schema_version rc = v" "rc_wal_seq rc = ak_seq ack"
      "\<not> rc_duplicate rc" "w' = w4"
    using assms(2) v win run
    by (auto simp: ingest_admitted_def io_bind_def local_clock_def io_return_def Let_def split: prod.splits sum.splits)
  have "env_writable (pe_flush env) (Data ?p)" using assms(4) rc(1) by simp
  moreover have "logs (pe_flush env) first (Suc n) rs w2" using w2 by (simp add: holds_def)
  ultimately obtain x where x: "w3 = w2\<lparr>in_wal := x\<rparr>" "ak_seq ack = first + length rs"
      "logs (pe_flush env) first n (rs @ [Data ?p]) w3"
    using log by (metis append_alone Inr_inject fst_conv snd_conv)
  have "holds env t first n (rs @ [Data ?p]) ks w3" using w2 x by (simp add: holds_def)
  from holds_register [OF this, of key] reg obtain ks' where
    ks': "holds env t first n (rs @ [Data ?p]) ks' w4" "\<And>k. key = Some k \<Longrightarrow> bm_get ks' k \<noteq> None"
    using record_has_key
    by (metis (no_types, lifting) idempotency_record.select_convs(1) option.simps(5) prod.inject)
  show thesis by (rule that [of declared ks']) (use ks' rc x(2) in auto)
qed

lemma admit_alone:
  assumes "w_turns w = []"
  shows "admit env b w = ((case get_table (qualify_table (ib_table b)) (w_catalog w) of
      None \<Rightarrow> Inl (TableNotFound (ib_table b))
    | Some tm \<Rightarrow>
        and_then (resolve_idempotency (ic_require_idempotency_key
            (case tm_ingest_config tm of Some c \<Rightarrow> c | None \<Rightarrow> standard_config)) (ib_idempotency_key b)) (\<lambda>key.
          Inr (key, case key of None \<Rightarrow> False | Some k \<Rightarrow> check_idempotency k (w_catalog w) \<noteq> None))), w)"
  using assms by (auto simp: admit_def Let_def io_bind_def io_fail_def io_return_def io_lift_def alone_calls
      resolve_idempotency_def validate_idempotency_key_def split: option.split)

text \<open>C13: A request is written once. When it succeeds, either its key was known already and nothing is written, or
  the log has gained exactly one record, with its rows, its key and its table, at the position in the receipt. A
  repetition of a request with a key is then answered as a duplicate and changes nothing at all.\<close>

theorem ingest_writes_request_once:
  assumes "logs (pe_flush env) first (Suc n) rs w" "ingest env b w = (Inr rc, w')"
    and "pe_ipc_encode env (ib_record_batch b) = Some ipc"
    and "\<And>declared. env_writable (pe_flush env) (Data (request_record env b (rc_schema_version rc) ipc declared))"
  shows "(if rc_duplicate rc then w' = w
      else \<exists>declared. logs (pe_flush env) first n (rs @ [Data (request_record env b (rc_schema_version rc) ipc declared)]) w' \<and>
        rc_wal_seq rc = first + length rs) \<and>
    (ib_idempotency_key b \<noteq> None \<longrightarrow> ingest env b w' = (Inr (duplicate_receipt b (w_clock w')), w'))"
proof -
  let ?t = "qualify_table (ib_table b)"
  have alone: "w_turns w = []" by (rule logs_alone [OF assms(1)])
  obtain tm where tm: "get_table ?t (w_catalog w) = Some tm"
    using assms(2) by (auto simp: ingest_def io_bind_def admit_alone [OF alone] split: option.splits)
  let ?key = "resolve_idempotency (ic_require_idempotency_key (case tm_ingest_config tm of Some c \<Rightarrow> c | None \<Rightarrow> standard_config))
      (ib_idempotency_key b)"
  obtain key where key: "?key = Inr key"
    using assms(2) tm by (cases ?key) (auto simp: ingest_def io_bind_def admit_alone [OF alone])
  define seen where seen: "seen = (case key of None \<Rightarrow> False | Some k \<Rightarrow> check_idempotency k (w_catalog w) \<noteq> None)"
  have run: "ingest_admitted env b (key, seen) w = (Inr rc, w')"
    using assms(2) tm key unfolding seen by (simp add: ingest_def io_bind_def admit_alone [OF alone])
  have again: "ingest env b w' = (Inr (duplicate_receipt b (w_clock w')), w')"
    if "get_table ?t (w_catalog w') \<noteq> None" "ib_idempotency_key b = Some k" "bm_get (idempotency (w_catalog w')) k \<noteq> None"
      "w_turns w' = []" for k
  proof -
    have "resolve_idempotency r (ib_idempotency_key b) = Inr (Some k)" for r
      using key unfolding that(2) by (auto simp: resolve_idempotency_def and_then_Inr_iff)
    with that show ?thesis
      by (auto simp: ingest_def io_bind_def admit_alone check_idempotency_def ingest_admitted_def local_clock_def io_return_def)
  qed
  have keys: "ib_idempotency_key b = Some k \<Longrightarrow> key = Some k" for k
    using key by (auto simp: resolve_idempotency_def and_then_Inr_iff)
  show ?thesis
  proof (cases seen)
    case True
    with run have rc: "rc_duplicate rc" "w' = w"
      by (auto simp: ingest_admitted_def io_bind_def local_clock_def io_return_def duplicate_receipt_def)
    then show ?thesis using again keys seen True tm alone
      by (auto simp: check_idempotency_def split: option.splits)
  next
    case False
    have "holds env ?t first (Suc n) rs (idempotency (w_catalog w)) w" using assms(1) tm by (simp add: holds_def)
    from admitted_logged [OF this _ assms(3,4), of key w'] run False obtain declared ks' where
      h: "holds env ?t first n (rs @ [Data (request_record env b (rc_schema_version rc) ipc declared)]) ks' w'"
      "rc_wal_seq rc = first + length rs" "\<not> rc_duplicate rc" "\<And>k. key = Some k \<Longrightarrow> bm_get ks' k \<noteq> None"
      by auto
    have "w_turns w' = []" using h(1) logs_alone by (auto simp: holds_def)
    with h keys again show ?thesis by (auto simp: holds_def)
  qed
qed

text \<open>C16: The check of the key and its registration are two steps. Two requests with one key, the second admitted before
  the first has registered, are both acknowledged as new and both written: registering at once, which the code
  does against exactly this, leaves the window between the check and the acknowledgement of the log open.\<close>

theorem overlapping_requests_both_written:
  assumes "logs (pe_flush env) first (Suc (Suc n)) rs w"
    and "admit env b1 w = (Inr (Some k, False), w)" "admit env b2 w = (Inr (Some k, False), w)"
    and "ingest_admitted env b1 (Some k, False) w = (Inr rc1, w1)" "ingest_admitted env b2 (Some k, False) w1 = (Inr rc2, w2)"
    and "pe_ipc_encode env (ib_record_batch b1) = Some ipc1" "pe_ipc_encode env (ib_record_batch b2) = Some ipc2"
    and "\<And>d. env_writable (pe_flush env) (Data (request_record env b1 (rc_schema_version rc1) ipc1 d))"
    and "\<And>d. env_writable (pe_flush env) (Data (request_record env b2 (rc_schema_version rc2) ipc2 d))"
  shows "\<exists>p1 p2. logs (pe_flush env) first n (rs @ [Data p1, Data p2]) w2 \<and>
    dp_client_request_id p1 = k \<and> dp_client_request_id p2 = k \<and> dp_batch_ipc p1 = ipc1 \<and> dp_batch_ipc p2 = ipc2 \<and>
    \<not> rc_duplicate rc1 \<and> \<not> rc_duplicate rc2"
proof -
  have alone: "w_turns w = []" by (rule logs_alone [OF assms(1)])
  have k: "ib_idempotency_key b = Some k" "get_table (qualify_table (ib_table b)) (w_catalog w) \<noteq> None"
    if "admit env b w = (Inr (Some k, False), w)" for b
    using that by (auto simp: admit_alone [OF alone] and_then_Inr_iff resolve_idempotency_def
        split: option.splits if_splits)
  let ?t = "qualify_table (ib_table b2)"
  have "holds env ?t first (Suc (Suc n)) rs (idempotency (w_catalog w)) w" using assms(1) k(2) [OF assms(3)] by (simp add: holds_def)
  from admitted_logged [OF this assms(4,6,8)] obtain d1 ks1 where
    h1: "holds env ?t first (Suc n) (rs @ [Data (request_record env b1 (rc_schema_version rc1) ipc1 d1)]) ks1 w1" "\<not> rc_duplicate rc1"
    by blast
  from admitted_logged [OF h1(1) assms(5,7,9)] obtain d2 ks2 where
    h2: "holds env ?t first n ((rs @ [Data (request_record env b1 (rc_schema_version rc1) ipc1 d1)]) @
      [Data (request_record env b2 (rc_schema_version rc2) ipc2 d2)]) ks2 w2" "\<not> rc_duplicate rc2" by blast
  show ?thesis
    by (intro exI [of _ "request_record env b1 (rc_schema_version rc1) ipc1 d1"]
        exI [of _ "request_record env b2 (rc_schema_version rc2) ipc2 d2"])
      (use h1(2) h2 k(1) [OF assms(2)] k(1) [OF assms(3)] in \<open>simp add: holds_def request_record_def data_record_def\<close>)
qed

end
