(* ===== verification/Pipeline_Demo.thy ===== *)
theory Pipeline_Demo
  imports Flush_Demo Resume_Safety Pipeline_Ingest
begin

text \<open>A node on batches of bytes, and the theorems on the write path, the accumulator and the recovery applied to it.\<close>

definition demo_request :: "byte list ingest_batch" where
  "demo_request = \<lparr>ib_table = ''t'', ib_shard_key = ''s0'', ib_record_batch = [5], ib_idempotency_key = Some ''k1'', ib_received_ms = 0\<rparr>"

definition demo_payload :: data_payload where
  "demo_payload = data_record demo_request ''public.t'' 1 [5] (snd (window_of None 0))"

definition down_chunk :: "byte list chunk_flush_input" where
  "down_chunk = demo_chunk_input ''public.t'' (0, 1) [5]"

text \<open>What the log of the node can hold: the request, and the records of batch A of its rows.\<close>

definition node_wal :: "data_payload \<Rightarrow> wal_codecs" where
  "node_wal p = demo_wal\<lparr>
     wc_data := (\<lambda>_. [], \<lambda>_. Inr p),
     wc_pending := (\<lambda>_. [], \<lambda>_. Inr (pending_of (batch_pending down_chunk ''A'' 100 1))),
     wc_s3_written := (\<lambda>_. [], \<lambda>_. Inr (written_of (batch_written ''A'' (file_path ''public.t'' ''s0'' ''w'' ''A'' Parquet) 1))),
     wc_abort := (\<lambda>_. [], \<lambda>_. Inr \<lparr>ba_batch_id = ''A''\<rparr>)\<rparr>"

definition node_kt :: "byte list chunk_tools" where
  "node_kt = \<lparr>kt_schema = \<lambda>_. [byte_field], kt_num_rows = length, kt_memory = length, kt_stats = \<lambda>_. [],
     kt_ipc_encode = \<lambda>bs. Inr (concat bs), kt_ipc_decode = \<lambda>bs. Inr [bs],
     kt_schema_bytes = \<lambda>_. [], kt_schema_parse = \<lambda>_. Inr [byte_field], kt_crc = \<lambda>_. 0\<rparr>"

definition node_env :: "data_payload \<Rightarrow> (byte list, byte list) pipeline_env" where
  "node_env p = \<lparr>pe_flush = demo_env\<lparr>fe_wal_codecs := node_wal p\<rparr>, pe_config = default_ingestor_config, pe_chunk = node_kt,
     pe_raw0 = \<lambda>_. 0, pe_ipc_encode = Some, pe_ipc_decode = \<lambda>bs. Some [Some bs]\<rparr>"

definition node_catalog :: catalog_state where
  "node_catalog = new_state\<lparr>tables := bm_insert ''public.t'' \<lparr>tm_name = ''t'', tm_current_schema_version = 1,
     tm_partition_cols = [], tm_default_format = [], tm_ingest_config = None, tm_created_at = 0,
     tm_arrow_schema = [], tm_table_template = 1, tm_namespace = ''public''\<rparr> bm_empty\<rparr>"

definition node_store :: "usize \<Rightarrow> byte list chunk_store" where
  "node_store used = store_new \<lparr>csc_policy = default_seal_policy, csc_instance_id = ''n1''\<rparr>
     ((ledger_new 1000 default_thresholds)\<lparr>lg_used := used\<rparr>) bm_empty"

text \<open>A node with its caches filled.\<close>

definition node :: "usize \<Rightarrow> wal_writer \<Rightarrow> byte list pipeline" where
  "node used wal = \<lparr>w_catalog = node_catalog, w_store = bm_empty, w_clock = 100, w_turns = [],
     ig_schemas = bm_insert ''public.t'' \<lparr>ca_schema = [byte_field], ca_version = 1\<rparr> bm_empty,
     ig_parts = bm_insert ''public.t'' [] bm_empty, in_wal = wal, in_rounds = [], in_tracker = tracker_new,
     in_chunks = node_store used, in_skip = [], in_last_read = 0, in_absorbed_seq = 0\<rparr>"

definition node_writer :: "data_payload \<Rightarrow> wal_record list \<Rightarrow> wal_writer" where
  "node_writer p rs = snd (commit_group (node_wal p) demo_crc demo_config (io_fine 0) rs (fresh_writer 0 0))"

lemma node_env_simps [simp]:
  "fe_wal_codecs (pe_flush (node_env p)) = node_wal p" "fe_tools (pe_flush (node_env p)) = flush_tools"
  "fe_arrays (pe_flush (node_env p)) = byte_arrays" "to_crc flush_tools = demo_crc"
  "at_schema byte_arrays b = [byte_field]" "pe_chunk (node_env p) = node_kt" "fe_view (pe_flush (node_env p)) b = []"
  "pe_ipc_encode (node_env p) = Some" "pe_ipc_decode (node_env p) = (\<lambda>bs. Some [Some bs])"
  by (simp_all add: node_env_def demo_env_def flush_tools_def byte_arrays_def)

lemma node_logs:
  assumes "list_all (writable (node_wal p) demo_crc) rs" "rs \<noteq> []" "length rs < 100"
  shows "logs (pe_flush (node_env p)) 0 20 rs (node used (node_writer p rs))"
  by (rule fresh_logs) (use assms in \<open>simp_all add: alone_def node_def node_writer_def\<close>)

lemma node_writable:
  assumes "prost_roundtrip (node_wal p) r" "length (encode_payload (node_wal p) r) < 100"
  shows "writable (node_wal p) demo_crc r"
  using assms by (simp add: writable_def record_crc_def demo_crc_def)

lemma node_data: "writable (node_wal p) demo_crc (Data p)"
  by (rule node_writable) (simp_all add: node_wal_def)

subsection \<open>Full memory\<close>

definition demo_round :: round_env where
  "demo_round = \<lparr>ro_absorb = \<lambda>_. undefined, ro_enforce = \<lambda>_. undefined, ro_spill = \<lambda>_. undefined, ro_batch_id = \<lambda>_. ''B'', ro_force = []\<rparr>"

lemma node_store_chunks [simp]: "bm_get (cs_chunks (node_store used)) i = None"
  by (simp add: node_store_def store_new_def)

lemma full_store: "store_pressure (node_store 1000) = Reject"
  by (simp add: store_pressure_def node_store_def store_new_def ledger_pressure_def ledger_new_def ledger_ratio_def
      classify_ratio_def default_thresholds_def reaches_def)

text \<open>One request in the log, and the memory is used up.\<close>

theorem rejected_rows_never_absorbed_witness:
  "\<not> covered 0 (in_chunks (accumulator_rounds (node_env demo_payload) [] [demo_round]
     (node 1000 (node_writer demo_payload [Data demo_payload]))))"
proof -
  let ?w = "node 1000 (node_writer demo_payload [Data demo_payload])"
  have "list_all (writable (node_wal demo_payload) demo_crc) [Data demo_payload]" using node_data by simp
  then have "logs (pe_flush (node_env demo_payload)) 0 20 [Data demo_payload] ?w" by (rule node_logs) simp_all
  then obtain segs where segs: "holds_log (fe_wal_codecs (pe_flush (node_env demo_payload)))
      (to_crc (fe_tools (pe_flush (node_env demo_payload)))) (ww_shard_id (in_wal ?w)) 0 segs (ww_dir (in_wal ?w))"
    "log_of segs = [Data demo_payload]" by (rule logs_holds)
  moreover have "in_chunks ?w = node_store 1000" "in_last_read ?w = 0" by (simp_all add: node_def)
  ultimately show ?thesis
    by (intro rejected_rows_never_absorbed [OF segs(1), where pre = "[]" and p = demo_payload and post = "[]"])
       (simp_all add: full_store covered_def)
qed

subsection \<open>Requests\<close>

lemma demo_names: "qualify_table ''t'' = ''public.t''" "normalize_table ''public.t'' = ''public.t''"
  by code_simp+

lemma no_time: "partition_time_ms raw [] declared = None"
  by (simp add: partition_time_ms_def view_column_def split: option.split)

lemma demo_record: "request_record (node_env p) demo_request 1 [5] declared = demo_payload"
  by (simp add: request_record_def demo_payload_def data_record_def demo_request_def demo_names no_time)

lemma demo_pressure: "\<not> rejects_writes (store_pressure (node_store 0))"
  by (simp add: store_pressure_def node_store_def store_new_def ledger_pressure_def ledger_new_def ledger_ratio_def
      classify_ratio_def default_thresholds_def reaches_def)

lemma demo_admit:
  "admit (node_env p) demo_request (node used wal) = (Inr (Some ''k1'', False), node used wal)"
proof -
  have "get_table ''public.t'' node_catalog \<noteq> None" "check_idempotency ''k1'' node_catalog = None"
    by (simp_all add: get_table_simp demo_names node_catalog_def check_idempotency_def new_state_def bm_simps)
  then show ?thesis
    by (subst admit_alone) (auto simp: node_def demo_request_def demo_names resolve_idempotency_def validate_idempotency_key_def)
qed

lemma demo_admitted:
  assumes "logs (pe_flush (node_env demo_payload)) 0 (Suc n) rs w" "in_chunks w = node_store 0"
    and "bm_get (ig_schemas w) ''public.t'' = Some \<lparr>ca_schema = [byte_field], ca_version = 1\<rparr>"
    and "bm_get (ig_parts w) ''public.t'' = Some []"
  obtains x st rc where "ingest_admitted (node_env demo_payload) demo_request (Some ''k1'', False) w =
      (Inr rc, w\<lparr>in_wal := x, w_catalog := st\<rparr>)" "rc_schema_version rc = 1"
    "logs (pe_flush (node_env demo_payload)) 0 n (rs @ [Data demo_payload]) (w\<lparr>in_wal := x\<rparr>)"
proof -
  let ?env = "node_env demo_payload"
  have version: "resolve_schema_version (pe_codecs ?env) ''public.t'' [byte_field] w = (Inr 1, w)"
  proof -
    have "MAX_RETRIES + 1 = Suc 32" by (simp add: MAX_RETRIES_def)
    moreover have "field_with_name [byte_field] (f_name byte_field) = Some byte_field" by (simp add: field_with_name_def)
    ultimately show ?thesis
      using assms(3) by (simp only: resolve_schema_version_def resolve_loop.simps) (simp add: cache_get_def io_bind_def io_return_def)
  qed
  have window: "event_window ?env demo_request w = (Inr (snd (window_of None 0)), w)"
    using assms(4) by (simp add: event_window_def partition_cache_get_def demo_request_def demo_names no_time)
  obtain x ack where x: "append_to_log (pe_flush ?env) (Data demo_payload) w = (Inr ack, w\<lparr>in_wal := x\<rparr>)"
    "logs (pe_flush ?env) 0 n (rs @ [Data demo_payload]) (w\<lparr>in_wal := x\<rparr>)"
    using append_alone [OF assms(1)] node_data by (metis node_env_simps(1,2,4))
  have log: "log_rows ?env demo_request 1 (snd (window_of None 0)) w = (Inr ack, w\<lparr>in_wal := x\<rparr>)"
    using x(1) assms(2) demo_pressure
    by (simp add: log_rows_def demo_payload_def demo_request_def demo_names)
  have "w_turns (w\<lparr>in_wal := x\<rparr>) = []" using logs_alone [OF x(2)] .
  with version window log have "\<exists>rc st. ingest_admitted ?env demo_request (Some ''k1'', False) w =
      (Inr rc, w\<lparr>in_wal := x, w_catalog := st\<rparr>) \<and> rc_schema_version rc = 1"
    by (auto simp: ingest_admitted_def io_bind_def io_return_def register_key_def local_clock_def catalog_do_def alone_calls
        demo_request_def demo_names Let_def)
  with x(2) that show thesis by blast
qed

text \<open>The first request with its key.\<close>

lemma empty_logs: "logs (pe_flush (node_env p)) 0 20 [] (node used (fresh_writer 0 0))"
proof -
  have "writer_inv (node_wal p) demo_crc 0 [(1, [])] (fresh_writer 0 0)" by (rule fresh_inv) simp
  then show ?thesis by (auto simp: logs_def alone_def node_def fresh_writer_def u64_max_def intro!: exI [of _ "[(1, [])]"])
qed

lemma node_ready:
  "in_chunks (node used wal) = node_store used"
  "bm_get (ig_schemas (node used wal)) ''public.t'' = Some \<lparr>ca_schema = [byte_field], ca_version = 1\<rparr>"
  "bm_get (ig_parts (node used wal)) ''public.t'' = Some []"
  by (simp_all add: node_def bm_simps)

theorem ingest_writes_request_once_witness:
  "\<exists>rc w'. ingest (node_env demo_payload) demo_request (node 0 (fresh_writer 0 0)) = (Inr rc, w') \<and>
    ingest (node_env demo_payload) demo_request w' = (Inr (duplicate_receipt demo_request (w_clock w')), w')"
proof -
  let ?env = "node_env demo_payload" and ?w = "node 0 (fresh_writer 0 0)"
  have room: "logs (pe_flush ?env) 0 (Suc 19) [] ?w" using empty_logs by simp
  obtain x st rc where run: "ingest_admitted ?env demo_request (Some ''k1'', False) ?w = (Inr rc, ?w\<lparr>in_wal := x, w_catalog := st\<rparr>)"
    "rc_schema_version rc = 1" by (rule demo_admitted [OF room node_ready])
  then have "ingest ?env demo_request ?w = (Inr rc, ?w\<lparr>in_wal := x, w_catalog := st\<rparr>)"
    by (simp add: ingest_def io_bind_def demo_admit)
  moreover have "env_writable (pe_flush ?env) (Data (request_record ?env demo_request (rc_schema_version rc) [5] declared))" for declared
    by (simp only: run(2) demo_record node_env_simps node_data)
  ultimately show ?thesis
    using ingest_writes_request_once [OF room, of demo_request rc "?w\<lparr>in_wal := x, w_catalog := st\<rparr>" "[5]"]
    by (auto simp: demo_request_def)
qed

text \<open>A client repeats a request before it is answered.\<close>

theorem overlapping_requests_both_written_witness:
  "\<exists>rc1 rc2 w1 w2 p1 p2. ingest_admitted (node_env demo_payload) demo_request (Some ''k1'', False) (node 0 (fresh_writer 0 0)) = (Inr rc1, w1) \<and>
    ingest_admitted (node_env demo_payload) demo_request (Some ''k1'', False) w1 = (Inr rc2, w2) \<and>
    logs (pe_flush (node_env demo_payload)) 0 18 [Data p1, Data p2] w2 \<and>
    dp_client_request_id p1 = ''k1'' \<and> dp_client_request_id p2 = ''k1'' \<and> dp_batch_ipc p1 = [5] \<and> dp_batch_ipc p2 = [5]"
proof -
  let ?env = "node_env demo_payload" and ?w = "node 0 (fresh_writer 0 0)"
  have room: "logs (pe_flush ?env) 0 (Suc (Suc 18)) [] ?w" using empty_logs by simp
  obtain x st rc where run: "ingest_admitted ?env demo_request (Some ''k1'', False) ?w = (Inr rc, ?w\<lparr>in_wal := x, w_catalog := st\<rparr>)"
    "rc_schema_version rc = 1" "logs (pe_flush ?env) 0 (Suc 18) ([] @ [Data demo_payload]) (?w\<lparr>in_wal := x\<rparr>)"
    by (rule demo_admitted [OF room node_ready])
  let ?w1 = "?w\<lparr>in_wal := x, w_catalog := st\<rparr>"
  have "logs (pe_flush ?env) 0 (Suc 18) ([] @ [Data demo_payload]) ?w1" using run(3) by simp
  then obtain x2 st2 rc2 where run2: "ingest_admitted ?env demo_request (Some ''k1'', False) ?w1 =
      (Inr rc2, ?w1\<lparr>in_wal := x2, w_catalog := st2\<rparr>)" "rc_schema_version rc2 = 1"
    by (rule demo_admitted) (simp_all add: node_ready)
  have "env_writable (pe_flush ?env) (Data (request_record ?env demo_request 1 [5] declared))" for declared
    by (simp only: demo_record node_env_simps node_data)
  with run(1,2) run2 show ?thesis
    using overlapping_requests_both_written [OF room demo_admit demo_admit run(1) run2(1), of "[5]" "[5]"]
    by (auto simp: demo_request_def)
qed

subsection \<open>A node that went down after it had written its file\<close>

definition late_payload :: data_payload where
  "late_payload = demo_payload\<lparr>dp_time_window := ''w''\<rparr>"

definition demo_marks :: "wal_record list" where
  "demo_marks = [batch_pending down_chunk ''A'' 100 1, batch_written ''A'' (file_path ''public.t'' ''s0'' ''w'' ''A'' Parquet) 1]"

definition down_state :: batch_state where
  "down_state = s3_written_state (written_of (demo_marks ! 1)) (pending_state (pending_of (demo_marks ! 0)))"

lemma demo_marked: "marks_of ''A'' demo_marks" "fold (batch_event ''A'') demo_marks None = Some down_state"
  by (simp_all add: marks_of_def demo_marks_def down_state_def batch_pending_def batch_written_def pending_of_def written_of_def)

lemma down_state_fields:
  "bs_status down_state = S3Written" "bs_shard down_state = ''s0''" "bs_time_window down_state = ''w''"
  "bs_wal_seq_range down_state = (0, 1)" "bs_created_at_ms down_state = 100" "length (bs_s3_paths down_state) \<le> 1"
  "bs_table down_state = ''public.t''"
  by (simp_all add: down_state_def demo_marks_def batch_pending_def batch_written_def pending_of_def written_of_def
      s3_written_state_def pending_state_def down_chunk_def demo_chunk_input_def)

lemma down_writable: "list_all (writable (node_wal late_payload) demo_crc) (Data late_payload # demo_marks)"
    "writable (node_wal p) demo_crc (abort_record ''A'')"
proof -
  have "writable (node_wal late_payload) demo_crc r" if "r \<in> set demo_marks" for r
    using that by (intro node_writable)
      (auto simp: demo_marks_def node_wal_def batch_pending_def batch_written_def pending_of_def written_of_def)
  then show "list_all (writable (node_wal late_payload) demo_crc) (Data late_payload # demo_marks)"
    using node_data by (simp add: list_all_iff)
  show "writable (node_wal p) demo_crc (abort_record ''A'')"
    by (rule node_writable) (simp_all add: node_wal_def abort_record_def)
qed


end
